(* ===== verification/Prelude.thy ===== *)
theory Prelude
  imports Main "HOL-Library.Word" "HOL-Library.AList"
begin

text \<open>
  Shared vocabulary of the development.

  Conventions used by every component theory:
  \<^item> \<open>std::string\<close>, \<open>std::vector<char>\<close> and raw byte ranges are \<^typ>\<open>string\<close>
    (a HOL \<^typ>\<open>char\<close> is exactly one byte);
  \<^item> \<open>uint32_t\<close> and \<open>uint64_t\<close> are words wherever the code computes with them in a way
    that can wrap; \<open>size_t\<close> values that count elements held in memory are \<^typ>\<open>nat\<close>;
  \<^item> \<open>std::unordered_map\<close> is an association list with distinct keys, read by \<open>map_of\<close>,
    written by \<open>AList.update\<close> and erased from by \<open>AList.delete\<close>; the list order stands
    for the iteration order, which C++ leaves unspecified, so no theorem relies on it;
  \<^item> \<open>std::unordered_set\<close> is a list without repetitions, written by \<open>List.insert\<close> and
    \<open>removeAll\<close>;
  \<^item> a failed \<open>assert\<close> or a thrown exception is \<open>None\<close> or an error constructor of the
    component.
\<close>

type_synonym u16 = "16 word"
type_synonym u32 = "32 word"
type_synonym u64 = "64 word"
type_synonym accountId = string
type_synonym groupId = string

named_theorems buffer_simps \<open>what each Buffer operation does to the readable bytes\<close>
named_theorems conn_defs \<open>definitions of the TcpConnection operations\<close>
named_theorems inv_intros \<open>operations keep their component's invariant\<close>

subsection \<open>Lists and byte ranges\<close>

definition splice_at :: "nat \<Rightarrow> 'a list \<Rightarrow> 'a list \<Rightarrow> 'a list" where
  "splice_at i xs d = take i d @ xs @ drop (i + length xs) d"

definition vec_resize :: "nat \<Rightarrow> string \<Rightarrow> string" where
  "vec_resize n xs = take n xs @ replicate (n - length xs) (char_of (0::nat))"

lemma length_splice_at [simp]:
  "i + length xs \<le> length d \<Longrightarrow> length (splice_at i xs d) = length d"
  by (simp add: splice_at_def)

lemma take_splice_at [simp]: "i \<le> length d \<Longrightarrow> take i (splice_at i xs d) = take i d"
  by (simp add: splice_at_def)

lemma drop_take_splice_at:
  "r \<le> i \<Longrightarrow> i + length xs \<le> length d \<Longrightarrow>
   take (i + length xs - r) (drop r (splice_at i xs d)) = take (i - r) (drop r d) @ xs"
  by (simp add: splice_at_def drop_take)

lemma length_vec_resize [simp]: "length (vec_resize n xs) = n"
  by (simp add: vec_resize_def)

lemma take_vec_resize [simp]:
  "i \<le> n \<Longrightarrow> i \<le> length xs \<Longrightarrow> take i (vec_resize n xs) = take i xs"
  by (simp add: vec_resize_def min_def)

subsection \<open>Association lists\<close>

lemmas map_of_alist [simp] = update_conv' delete_conv'

lemma fst_set_update [simp]: "fst ` set (AList.update k v al) = insert k (fst ` set al)"
  by (simp add: dom_update)

lemma fst_set_delete [simp]: "fst ` set (AList.delete k al) = fst ` set al - {k}"
  by (metis delete_keys list.set_map set_removeAll)

text \<open>\<open>unordered_map::emplace\<close> keeps an entry that is already there.\<close>

definition emplace :: "'k \<Rightarrow> 'v \<Rightarrow> ('k \<times> 'v) list \<Rightarrow> ('k \<times> 'v) list" where
  "emplace k v al = (case map_of al k of None \<Rightarrow> AList.update k v al | Some _ \<Rightarrow> al)"

lemma map_of_emplace [simp]:
  "map_of (emplace k v al) = (case map_of al k of None \<Rightarrow> (map_of al)(k \<mapsto> v) | Some _ \<Rightarrow> map_of al)"
  by (simp add: emplace_def split: option.split)

lemma in_fst_set_iff: "k \<in> fst ` set al \<longleftrightarrow> map_of al k \<noteq> None"
  by (simp add: dom_map_of_conv_image_fst [symmetric] domIff)

subsection \<open>Maps of sets\<close>

text \<open>
  \<open>unordered_map<K,unordered_set<V>>\<close>: \<open>m[k].insert(v)\<close>, and \<open>m[k].erase(v)\<close> with the removal of an
  entry that has become empty.
\<close>

definition mm_get :: "'k \<Rightarrow> ('k \<times> 'v list) list \<Rightarrow> 'v list" where
  "mm_get k al = (case map_of al k of None \<Rightarrow> [] | Some vs \<Rightarrow> vs)"

definition mm_insert :: "'k \<Rightarrow> 'v \<Rightarrow> ('k \<times> 'v list) list \<Rightarrow> ('k \<times> 'v list) list" where
  "mm_insert k v al = AList.update k (List.insert v (mm_get k al)) al"

definition mm_erase :: "'k \<Rightarrow> 'v \<Rightarrow> ('k \<times> 'v list) list \<Rightarrow> ('k \<times> 'v list) list" where
  "mm_erase k v al =
     (case map_of al k of
        None \<Rightarrow> al
      | Some vs \<Rightarrow> if removeAll v vs = [] then AList.delete k al else AList.update k (removeAll v vs) al)"

definition mm_ok :: "('k \<times> 'v list) list \<Rightarrow> bool" where
  "mm_ok al \<longleftrightarrow> (\<forall>k. distinct (mm_get k al) \<and> map_of al k \<noteq> Some [])"

lemma mm_get_insert: "mm_get k' (mm_insert k v al) = (if k' = k then List.insert v (mm_get k al) else mm_get k' al)"
  by (simp add: mm_get_def mm_insert_def)

lemma mm_get_erase: "mm_get k' (mm_erase k v al) = (if k' = k then removeAll v (mm_get k al) else mm_get k' al)"
  by (auto simp: mm_get_def mm_erase_def split: option.splits)

lemma mm_get_Nil [simp]: "mm_get k [] = []"
  by (simp add: mm_get_def)

lemma mm_ok_Nil [simp]: "mm_ok []"
  by (simp add: mm_ok_def)

lemma mm_ok_insert [intro]: "mm_ok al \<Longrightarrow> mm_ok (mm_insert k v al)"
  by (auto simp: mm_ok_def mm_get_insert) (auto simp: mm_insert_def List.insert_def split: if_splits)

lemma mm_ok_erase [intro]: "mm_ok al \<Longrightarrow> mm_ok (mm_erase k v al)"
  by (auto simp: mm_ok_def mm_get_erase distinct_removeAll)
     (auto simp: mm_erase_def split: option.splits if_splits)

lemma mm_get_fold_insert:
  "mm_get k (fold (\<lambda>k. mm_insert k v) ks al) =
     (if k \<in> set ks then List.insert v (mm_get k al) else mm_get k al)"
  by (induction ks arbitrary: al) (auto simp: mm_get_insert)

lemma mm_get_fold_erase:
  "mm_get k (fold (\<lambda>k. mm_erase k v) ks al) =
     (if k \<in> set ks then removeAll v (mm_get k al) else mm_get k al)"
  by (induction ks arbitrary: al) (auto simp: mm_get_erase)

lemma mm_ok_folds [intro]:
  "mm_ok al \<Longrightarrow> mm_ok (fold (\<lambda>k. mm_insert k v) ks al)" "mm_ok al \<Longrightarrow> mm_ok (fold (\<lambda>k. mm_erase k v) ks al)"
  by (induction ks arbitrary: al) auto

end
