(* ===== verification/Buffer.thy ===== *)
theory Buffer
  imports Prelude
begin

text \<open>
  The network buffer: \<open>src/include/Buffer.h\<close>, \<open>src/src/Buffer.cpp\<close>.

  The class keeps a byte vector with a read and a write index. Everything a client observes is
  the byte range between the two indices, \<open>readable\<close>. The locale \<open>byte_queue\<close> states what the
  connection code relies on (appending adds at the end, retrieving drops from the front) and
  is interpreted on the model of the class, so that framing is proved once over the interface.
\<close>

subsection \<open>Data\<close>

record buffer =
  buf :: string
  readerIndex :: nat
  writerIndex :: nat

definition kCheapPrepend :: nat where
  "kCheapPrepend = 8"

definition buffer_init :: buffer where
  "buffer_init = \<lparr>buf = replicate (kCheapPrepend + 1024) (char_of (0::nat)),
     readerIndex = kCheapPrepend, writerIndex = kCheapPrepend\<rparr>"

datatype errno = EAGAIN | EWOULDBLOCK | EINTR | EPIPE | ECONNRESET | ENOENT | EOTHER int

text \<open>The outcome of \<open>readv(2)\<close>: an error with its errno, or the bytes delivered (none: end of file).\<close>

datatype read_outcome = ReadError errno | ReadBytes string

text \<open>The outcome of \<open>send(2)\<close>: an error with its errno, or the number of bytes accepted.\<close>

datatype send_outcome = SendError errno | SendCount nat

subsection \<open>Operations\<close>

definition readableBytes :: "buffer \<Rightarrow> nat" where
  "readableBytes b = writerIndex b - readerIndex b"

definition writeableBytes :: "buffer \<Rightarrow> nat" where
  "writeableBytes b = length (buf b) - writerIndex b"

definition prependableBytes :: "buffer \<Rightarrow> nat" where
  "prependableBytes b = readerIndex b"

text \<open>The bytes from \<open>peek()\<close> up to \<open>beginWrite()\<close>.\<close>

definition readable :: "buffer \<Rightarrow> string" where
  "readable b = take (readableBytes b) (drop (readerIndex b) (buf b))"

definition hasWritten :: "nat \<Rightarrow> buffer \<Rightarrow> buffer option" where
  "hasWritten n b =
     (if n \<le> writeableBytes b then Some (b\<lparr>writerIndex := writerIndex b + n\<rparr>) else None)"

definition retrieveAll :: "buffer \<Rightarrow> buffer" where
  "retrieveAll b = b\<lparr>readerIndex := kCheapPrepend, writerIndex := kCheapPrepend\<rparr>"

definition retrieve :: "nat \<Rightarrow> buffer \<Rightarrow> buffer" where
  "retrieve len b =
     (if len < readableBytes b then b\<lparr>readerIndex := readerIndex b + len\<rparr> else retrieveAll b)"

text \<open>\<open>end\<close> is given as an offset into the vector; the two assertions bound it.\<close>

definition retrieveUntil :: "nat \<Rightarrow> buffer \<Rightarrow> buffer option" where
  "retrieveUntil e b =
     (if readerIndex b \<le> e \<and> e \<le> writerIndex b then Some (retrieve (e - readerIndex b) b)
      else None)"

definition retrieveAsString :: "nat \<Rightarrow> buffer \<Rightarrow> (string \<times> buffer) option" where
  "retrieveAsString len b =
     (if len \<le> readableBytes b
      then let len' = min len (readableBytes b)
           in Some (take len' (drop (readerIndex b) (buf b)), retrieve len' b)
      else None)"

definition ensureWritableBytes :: "nat \<Rightarrow> buffer \<Rightarrow> buffer" where
  "ensureWritableBytes len b =
     (if writeableBytes b \<ge> len then b
      else if writeableBytes b + prependableBytes b - kCheapPrepend \<ge> len
      then let n = readableBytes b
           in b\<lparr>buf := splice_at kCheapPrepend (readable b) (buf b),
                readerIndex := kCheapPrepend, writerIndex := kCheapPrepend + n\<rparr>
      else b\<lparr>buf := vec_resize (writerIndex b + len) (buf b)\<rparr>)"

definition append_bytes :: "string \<Rightarrow> buffer \<Rightarrow> buffer option" where
  "append_bytes xs b =
     (let b' = ensureWritableBytes (length xs) b
      in hasWritten (length xs) (b'\<lparr>buf := splice_at (writerIndex b') xs (buf b')\<rparr>))"

text \<open>\<open>memchr\<close> over the readable range: the offset of the first newline in the vector.\<close>

fun memchr :: "char \<Rightarrow> string \<Rightarrow> nat option" where
  "memchr c [] = None"
| "memchr c (x # xs) = (if x = c then Some 0 else map_option Suc (memchr c xs))"

definition findEOL :: "buffer \<Rightarrow> nat option" where
  "findEOL b = map_option (\<lambda>i. readerIndex b + i) (memchr (CHR 0x0A) (readable b))"

text \<open>
  \<open>readv\<close> fills the writable range first and the 64 KiB stack buffer after it; what went to the
  stack buffer is appended. The returned count is \<open>None\<close> for the error case (\<open>n < 0\<close>).
\<close>

definition extrabuf_size :: nat where
  "extrabuf_size = 65536"

definition readFd :: "read_outcome \<Rightarrow> buffer \<Rightarrow> (errno + nat) \<times> buffer option" where
  "readFd r b =
     (case r of
        ReadError e \<Rightarrow> (Inl e, Some b)
      | ReadBytes xs \<Rightarrow>
          (let n = length xs; w = writeableBytes b;
               b' = b\<lparr>buf := splice_at (writerIndex b) (take w xs) (buf b)\<rparr>
           in (Inr n,
               if n \<le> w then hasWritten n b'
               else Option.bind (hasWritten w b') (append_bytes (drop w xs)))))"

definition writeFd :: "send_outcome \<Rightarrow> buffer \<Rightarrow> (errno + nat) \<times> buffer" where
  "writeFd r b =
     (case r of
        SendError e \<Rightarrow> (Inl e, b)
      | SendCount n \<Rightarrow> (Inr n, if n > 0 then retrieve n b else b))"

text \<open>Network byte order: \<open>htonl\<close> followed by \<open>memcpy\<close>, and back.\<close>

definition be32 :: "u32 \<Rightarrow> string" where
  "be32 w = [char_of (unat w div 2 ^ 24), char_of (unat w div 2 ^ 16),
             char_of (unat w div 2 ^ 8), char_of (unat w)]"

fun of_be32 :: "string \<Rightarrow> u32" where
  "of_be32 (a # b # c # d # _) =
     word_of_nat (of_char a * 2 ^ 24 + of_char b * 2 ^ 16 + of_char c * 2 ^ 8 + of_char d)"
| "of_be32 _ = 0"

definition peekUInt32 :: "buffer \<Rightarrow> u32 option" where
  "peekUInt32 b =
     (if readableBytes b \<ge> 4 then Some (of_be32 (take 4 (drop (readerIndex b) (buf b)))) else None)"

definition retrieveUInt32 :: "buffer \<Rightarrow> buffer option" where
  "retrieveUInt32 b = (if readableBytes b \<ge> 4 then Some (retrieve 4 b) else None)"

definition appendUint32 :: "u32 \<Rightarrow> buffer \<Rightarrow> buffer option" where
  "appendUint32 x b = append_bytes (be32 x) b"

subsection \<open>Well-formedness and the byte-queue view\<close>

definition buffer_ok :: "buffer \<Rightarrow> bool" where
  "buffer_ok b \<longleftrightarrow> kCheapPrepend \<le> readerIndex b \<and> readerIndex b \<le> writerIndex b \<and>
     writerIndex b \<le> length (buf b)"

lemmas buffer_counts = readableBytes_def writeableBytes_def prependableBytes_def

lemma length_readable [simp]: "buffer_ok b \<Longrightarrow> length (readable b) = readableBytes b"
  by (auto simp: readable_def buffer_ok_def buffer_counts)

lemma buffer_ok_init [simp, inv_intros]: "buffer_ok buffer_init"
  by (simp add: buffer_ok_def buffer_init_def kCheapPrepend_def)

lemma readable_init [simp]: "readable buffer_init = []"
  by (simp add: readable_def readableBytes_def buffer_init_def)

lemma ensureWritableBytes_ok [inv_intros]:
  "buffer_ok b \<Longrightarrow> buffer_ok (ensureWritableBytes len b)"
  by (auto simp: ensureWritableBytes_def buffer_ok_def Let_def buffer_counts splice_at_def readable_def)

lemma ensureWritableBytes_room:
  "buffer_ok b \<Longrightarrow> len \<le> writeableBytes (ensureWritableBytes len b)"
  by (auto simp: ensureWritableBytes_def buffer_ok_def Let_def buffer_counts splice_at_def readable_def)

lemma readable_ensureWritableBytes:
  assumes "buffer_ok b"
  shows "readable (ensureWritableBytes len b) = readable b"
proof -
  have "take (readableBytes b) (drop kCheapPrepend (splice_at kCheapPrepend (readable b) (buf b)))
    = readable b"
    using assms by (simp add: splice_at_def buffer_ok_def)
  moreover have "take (readableBytes b) (drop (readerIndex b) (vec_resize (writerIndex b + len) (buf b)))
    = readable b"
    using assms by (simp add: readable_def readableBytes_def buffer_ok_def flip: drop_take)
  ultimately show ?thesis
    by (simp add: ensureWritableBytes_def Let_def readable_def [of "_\<lparr>buf := _\<rparr>"]
        readable_def [of "_\<lparr>buf := _, readerIndex := _, writerIndex := _\<rparr>"] readableBytes_def)
qed

text \<open>Writing into the writable range and advancing the index: shared by \<open>append\<close> and \<open>readFd\<close>.\<close>

lemma write_and_advance:
  assumes "buffer_ok b" "length xs \<le> writeableBytes b"
  obtains b' where
    "hasWritten (length xs) (b\<lparr>buf := splice_at (writerIndex b) xs (buf b)\<rparr>) = Some b'"
    "buffer_ok b'" "readable b' = readable b @ xs"
    "writeableBytes b' = writeableBytes b - length xs"
proof -
  let ?b = "b\<lparr>buf := splice_at (writerIndex b) xs (buf b)\<rparr>"
  let ?b' = "?b\<lparr>writerIndex := writerIndex b + length xs\<rparr>"
  from assms have le: "writerIndex b + length xs \<le> length (buf b)"
    by (auto simp: buffer_ok_def writeableBytes_def)
  have "hasWritten (length xs) ?b = Some ?b'"
    using assms le by (simp add: hasWritten_def writeableBytes_def)
  moreover have "buffer_ok ?b'"
    using assms le by (auto simp: buffer_ok_def)
  moreover have "readable ?b' = readable b @ xs"
    using assms le drop_take_splice_at [of "readerIndex b" "writerIndex b" xs "buf b"]
    by (simp add: readable_def readableBytes_def buffer_ok_def)
  moreover have "writeableBytes ?b' = writeableBytes b - length xs"
    using le by (simp add: writeableBytes_def)
  ultimately show ?thesis by (rule that)
qed

lemma append_bytes_spec:
  assumes "buffer_ok b"
  obtains b' where "append_bytes xs b = Some b'" "buffer_ok b'" "readable b' = readable b @ xs"
proof -
  let ?e = "ensureWritableBytes (length xs) b"
  have "buffer_ok ?e" "length xs \<le> writeableBytes ?e"
    using assms by (auto intro: ensureWritableBytes_ok ensureWritableBytes_room)
  then obtain b' where
    "hasWritten (length xs) (?e\<lparr>buf := splice_at (writerIndex ?e) xs (buf ?e)\<rparr>) = Some b'"
    "buffer_ok b'" "readable b' = readable ?e @ xs"
    by (rule write_and_advance)
  then show ?thesis
    using assms by (intro that) (auto simp: append_bytes_def Let_def readable_ensureWritableBytes)
qed

lemma retrieve_ok [simp, inv_intros]: "buffer_ok b \<Longrightarrow> buffer_ok (retrieve n b)"
  by (auto simp: retrieve_def retrieveAll_def buffer_ok_def readableBytes_def)

lemma readable_retrieve [buffer_simps]:
  "buffer_ok b \<Longrightarrow> readable (retrieve n b) = drop n (readable b)"
  by (auto simp: retrieve_def retrieveAll_def readable_def readableBytes_def buffer_ok_def drop_take
      add.commute)

lemma readFd_spec:
  assumes "buffer_ok b"
  obtains b' where "readFd (ReadBytes xs) b = (Inr (length xs), Some b')" "buffer_ok b'"
    "readable b' = readable b @ xs"
proof (cases "length xs \<le> writeableBytes b")
  case True
  with assms obtain b' where
    "hasWritten (length xs) (b\<lparr>buf := splice_at (writerIndex b) xs (buf b)\<rparr>) = Some b'"
    "buffer_ok b'" "readable b' = readable b @ xs"
    by (rule write_and_advance)
  with True show ?thesis by (intro that) (auto simp: readFd_def)
next
  case False
  let ?ys = "take (writeableBytes b) xs"
  from False have len: "length ?ys = writeableBytes b" by simp
  then have "length ?ys \<le> writeableBytes b" by (rule eq_imp_le)
  with assms obtain b1 where b1:
    "hasWritten (length ?ys) (b\<lparr>buf := splice_at (writerIndex b) ?ys (buf b)\<rparr>) = Some b1"
    "buffer_ok b1" "readable b1 = readable b @ ?ys"
    by (rule write_and_advance)
  obtain b' where "append_bytes (drop (writeableBytes b) xs) b1 = Some b'" "buffer_ok b'"
    "readable b' = readable b1 @ drop (writeableBytes b) xs"
    using b1(2) by (rule append_bytes_spec)
  with False len b1 show ?thesis
    by (intro that) (auto simp: readFd_def Let_def)
qed

subsection \<open>The interface the connection code uses\<close>

locale byte_queue =
  fixes invar :: "'b \<Rightarrow> bool"
    and bytes :: "'b \<Rightarrow> string"
    and push :: "string \<Rightarrow> 'b \<Rightarrow> 'b option"
    and pop :: "nat \<Rightarrow> 'b \<Rightarrow> 'b"
  assumes push_ok: "invar b \<Longrightarrow> \<exists>b'. push xs b = Some b' \<and> invar b' \<and> bytes b' = bytes b @ xs"
    and pop_invar: "invar b \<Longrightarrow> invar (pop n b)"
    and pop_bytes: "invar b \<Longrightarrow> bytes (pop n b) = drop n (bytes b)"
begin

text \<open>Pushing a header and then a payload queues exactly the frame.\<close>

lemma push_two:
  assumes "invar b"
  obtains b1 b2 where "push h b = Some b1" "push p b1 = Some b2" "invar b2"
    "bytes b2 = bytes b @ h @ p"
  using push_ok [OF assms, of h] push_ok [of _ p] by (metis append.assoc)

text \<open>Bytes leave in the order they were queued: popping what was there first leaves the rest.\<close>

lemma push_pop_fifo:
  assumes "invar b" "push xs b = Some b'"
  shows "bytes (pop (length (bytes b)) b') = xs"
  using push_ok [OF assms(1), of xs] assms(2) by (auto simp: pop_bytes)

lemma pop_pop: "invar b \<Longrightarrow> bytes (pop m (pop n b)) = bytes (pop (n + m) b)"
  by (simp add: pop_bytes pop_invar add.commute)

end

interpretation buffer_queue: byte_queue buffer_ok readable append_bytes retrieve
proof
  show "buffer_ok b \<Longrightarrow> \<exists>b'. append_bytes xs b = Some b' \<and> buffer_ok b' \<and> readable b' = readable b @ xs"
    for b xs by (metis append_bytes_spec)
qed (simp_all add: readable_retrieve)

lemmas append_bytes_ok = buffer_queue.push_ok

lemma readableBytes_eq: "buffer_ok b \<Longrightarrow> readableBytes b = length (readable b)"
  by simp

lemma take_readable: "n \<le> readableBytes b \<Longrightarrow> take n (drop (readerIndex b) (buf b)) = take n (readable b)"
  by (simp add: readable_def)

lemma peekUInt32_readable [buffer_simps]:
  "peekUInt32 b = (if readableBytes b \<ge> 4 then Some (of_be32 (take 4 (readable b))) else None)"
  by (simp add: peekUInt32_def take_readable)

lemma retrieveAsString_readable [buffer_simps]:
  "retrieveAsString n b = (if n \<le> readableBytes b then Some (take n (readable b), retrieve n b) else None)"
  by (simp add: retrieveAsString_def take_readable)

lemma retrieve_shrinks:
  "0 < n \<Longrightarrow> 0 < readableBytes b \<Longrightarrow> readableBytes (retrieve n b) < readableBytes b"
  by (auto simp: retrieve_def retrieveAll_def readableBytes_def)

lemma readableBytes_retrieve [simp]: "readableBytes (retrieve n b) = readableBytes b - n"
  by (auto simp: retrieve_def retrieveAll_def readableBytes_def)

lemma retrieve_le: "readableBytes (retrieve n b) \<le> readableBytes b"
  by (auto simp: retrieve_def retrieveAll_def readableBytes_def)

subsection \<open>Byte order\<close>

lemma length_be32 [simp]: "length (be32 w) = 4"
  by (simp add: be32_def)

lemma byte_digits:
  assumes "n < 2 ^ 32"
  shows "n div 2 ^ 24 mod 256 * 2 ^ 24 + n div 2 ^ 16 mod 256 * 2 ^ 16 + n div 2 ^ 8 mod 256 * 2 ^ 8 +
    n mod 256 = (n :: nat)"
proof -
  define a b c where "a = n div 256" and "b = a div 256" and "c = b div 256"
  have "n div 2 ^ 8 = a" "n div 2 ^ 16 = b" "n div 2 ^ 24 = c"
    by (simp_all add: a_def b_def c_def flip: div_mult2_eq)
  moreover have "c mod 256 = c"
    using assms by (simp add: a_def b_def c_def flip: div_mult2_eq)
  moreover have "n = a * 256 + n mod 256" "a = b * 256 + a mod 256" "b = c * 256 + b mod 256"
    by (simp_all add: a_def b_def c_def)
  ultimately show ?thesis by simp
qed

lemma of_be32_be32_append [simp]: "of_be32 (be32 w @ xs) = w"
proof -
  have "unat w < 2 ^ LENGTH(32)" by (rule unsigned_less)
  then have "unat w < 2 ^ 32" by simp
  from byte_digits [OF this] show ?thesis
    by (simp only: be32_def append_Cons of_be32.simps of_char_of) simp
qed

lemma of_be32_be32 [simp]: "of_be32 (be32 w) = w"
  using of_be32_be32_append [of w "[]"] by simp

end
