(* ===== verification/Frame.thy ===== *)
theory Frame
  imports Buffer
begin

text \<open>
  Frames and send results: \<open>src/include/net/OutboundFrame.h\<close>, \<open>src/src/net/OutboundFrame.cpp\<close>,
  \<open>src/include/net/SendTypes.h\<close>.

  A frame is a four-byte big-endian length and the payload. \<open>decode\<close> is the specification of the
  receiver, on plain byte strings: what a stream means, independently of how it was cut into
  reads. The connection's parser is proved to implement it in theory \<open>TcpConnection\<close>.
\<close>

subsection \<open>Outbound frames\<close>

record outbound_frame =
  header :: string
  payload :: string
  frameBytes :: nat

definition OutboundFrame_new :: "string \<Rightarrow> string \<Rightarrow> outbound_frame" where
  "OutboundFrame_new p h = \<lparr>header = h, payload = p, frameBytes = length p + length h\<rparr>"

definition UINT32_MAX :: nat where
  "UINT32_MAX = 2 ^ 32 - 1"

text \<open>\<open>None\<close> is the null pointer, both for the shared payload and for the result.\<close>

definition create_frame :: "string option \<Rightarrow> nat \<Rightarrow> outbound_frame option" where
  "create_frame p maxFrameLen =
     (case p of
        None \<Rightarrow> None
      | Some p \<Rightarrow>
          if length p > maxFrameLen \<or> length p > UINT32_MAX then None
          else Some (OutboundFrame_new p (be32 (word_of_nat (length p)))))"

definition frame :: "string \<Rightarrow> string" where
  "frame p = be32 (word_of_nat (length p)) @ p"

lemma length_frame [simp]: "length (frame p) = 4 + length p"
  by (simp add: frame_def)

lemma create_frame_Some:
  "create_frame (Some p) m = Some f \<Longrightarrow>
   header f @ payload f = frame p \<and> frameBytes f = length (frame p) \<and> length p \<le> m \<and> length p < 2 ^ 32"
  by (auto simp: create_frame_def OutboundFrame_new_def frame_def UINT32_MAX_def split: if_splits)

subsection \<open>Send results\<close>

datatype SendResult = SendOk | NoSuchConnection | Closed | Overloaded | Failed

record batch_result =
  sent :: nat
  noSuchConnection :: nat
  closed :: nat
  overloaded_count :: nat
  failed :: nat

definition batch_empty :: batch_result where
  "batch_empty = \<lparr>sent = 0, noSuchConnection = 0, closed = 0, overloaded_count = 0, failed = 0\<rparr>"

fun batch_add :: "SendResult \<Rightarrow> batch_result \<Rightarrow> batch_result" where
  "batch_add SendOk r = r\<lparr>sent := sent r + 1\<rparr>"
| "batch_add NoSuchConnection r = r\<lparr>noSuchConnection := noSuchConnection r + 1\<rparr>"
| "batch_add Closed r = r\<lparr>closed := closed r + 1\<rparr>"
| "batch_add Overloaded r = r\<lparr>overloaded_count := overloaded_count r + 1\<rparr>"
| "batch_add Failed r = r\<lparr>failed := failed r + 1\<rparr>"

definition batch_dropped :: "batch_result \<Rightarrow> nat" where
  "batch_dropped r = noSuchConnection r + closed r + overloaded_count r + failed r"

definition batch_total :: "batch_result \<Rightarrow> nat" where
  "batch_total r = sent r + batch_dropped r"

definition singleResult :: "batch_result \<Rightarrow> SendResult" where
  "singleResult r =
     (if sent r > 0 then SendOk
      else if overloaded_count r > 0 then Overloaded
      else if closed r > 0 then Closed
      else if noSuchConnection r > 0 then NoSuchConnection
      else Failed)"

lemma batch_total_add [simp]: "batch_total (batch_add x r) = batch_total r + 1"
  by (cases x) (simp_all add: batch_total_def batch_dropped_def)

lemma sent_add: "sent (batch_add x r) = sent r + (if x = SendOk then 1 else 0)"
  by (cases x) simp_all

text \<open>For a single recipient the summary is the recipient's own result.\<close>

lemma singleResult_single: "singleResult (batch_add x batch_empty) = x"
  by (cases x) (simp_all add: singleResult_def batch_empty_def)

subsection \<open>What a byte stream means\<close>

function decode :: "nat \<Rightarrow> string \<Rightarrow> string list \<times> string \<times> bool" where
  "decode m bs =
     (if length bs < 4 then ([], bs, False)
      else let len = unat (of_be32 (take 4 bs)) in
           if len > m then ([], bs, True)
           else if length bs < 4 + len then ([], bs, False)
           else case decode m (drop (4 + len) bs) of
                  (ps, r, bad) \<Rightarrow> (take len (drop 4 bs) # ps, r, bad))"
  by pat_completeness auto
termination by (relation "measure (\<lambda>(m, bs). length bs)") auto

declare decode.simps [simp del]

lemma of_be32_take [simp]: "4 \<le> length bs \<Longrightarrow> of_be32 (take 4 (bs @ cs)) = of_be32 (take 4 bs)"
  by simp

lemma decode_frame:
  assumes "length p \<le> m" "length p < 2 ^ 32"
  shows "decode m (frame p @ bs) = (case decode m bs of (ps, r, bad) \<Rightarrow> (p # ps, r, bad))"
proof -
  have "unat (word_of_nat (length p) :: u32) = length p"
    using assms(2) by (simp add: unsigned_of_nat take_bit_nat_eq_self)
  with assms show ?thesis
    by (subst decode.simps) (simp add: frame_def Let_def)
qed

text \<open>Sticky packets: consecutive frames decode to exactly their payloads.\<close>

lemma decode_frames:
  "\<forall>p \<in> set ps. length p \<le> m \<Longrightarrow> m < 2 ^ 32 \<Longrightarrow> decode m (concat (map frame ps)) = (ps, [], False)"
proof (induction ps)
  case Nil
  show ?case by (simp add: decode.simps)
next
  case (Cons p ps)
  then show ?case using decode_frame [of p m "concat (map frame ps)"] by simp
qed

text \<open>
  Half packets: decoding what has arrived and continuing with the undecoded rest is the same as
  decoding everything at once, wherever the stream is cut.
\<close>

lemma decode_append:
  "decode m (bs @ cs) =
     (case decode m bs of
        (ps, r, True) \<Rightarrow> (ps, r @ cs, True)
      | (ps, r, False) \<Rightarrow> (case decode m (r @ cs) of (qs, r', bad) \<Rightarrow> (ps @ qs, r', bad)))"
proof (induction m bs rule: decode.induct)
  case (1 m bs)
  let ?len = "unat (of_be32 (take 4 bs))"
  consider "length bs < 4" | "4 \<le> length bs" "?len > m"
    | "4 \<le> length bs" "?len \<le> m" "length bs < 4 + ?len"
    | "4 \<le> length bs" "?len \<le> m" "4 + ?len \<le> length bs"
    by linarith
  then show ?case
  proof cases
    case 4
    then have IH: "decode m (drop (4 + ?len) bs @ cs) =
      (case decode m (drop (4 + ?len) bs) of
         (ps, r, True) \<Rightarrow> (ps, r @ cs, True)
       | (ps, r, False) \<Rightarrow> (case decode m (r @ cs) of (qs, r', bad) \<Rightarrow> (ps @ qs, r', bad)))"
      by (intro "1.IH") auto
    from 4 have "decode m (bs @ cs) =
      (case decode m (drop (4 + ?len) bs @ cs) of
         (ps, r, bad) \<Rightarrow> (take ?len (drop 4 bs) # ps, r, bad))"
      by (simp add: decode.simps [of m "bs @ cs"] Let_def)
    with 4 IH show ?thesis
      by (simp add: decode.simps [of m bs] Let_def split: prod.splits bool.splits)
  qed (simp_all add: decode.simps [of m bs] decode.simps [of m "bs @ cs"] Let_def split: prod.splits)
qed

lemma decode_append_bad: "decode m bs = (ps, r, True) \<Longrightarrow> decode m (bs @ cs) = (ps, r @ cs, True)"
  by (simp add: decode_append [of m bs])

lemma decode_append_good:
  "decode m bs = (ps, r, False) \<Longrightarrow>
   decode m (bs @ cs) = (case decode m (r @ cs) of (qs, r', bad) \<Rightarrow> (ps @ qs, r', bad))"
  by (simp add: decode_append [of m bs])

lemma decode_rest_idle:
  "decode m bs = (ps, r, False) \<Longrightarrow> decode m r = ([], r, False)"
proof (induction m bs arbitrary: ps rule: decode.induct)
  case (1 m bs)
  show ?case
  proof (cases "length bs < 4 \<or> length bs < 4 + unat (of_be32 (take 4 bs))")
    case True
    with "1.prems" have "r = bs \<and> ps = []"
      by (auto simp: decode.simps [of m bs] Let_def split: if_splits prod.splits)
    with "1.prems" show ?thesis by simp
  next
    case False
    with "1.prems" have "unat (of_be32 (take 4 bs)) \<le> m"
      by (auto simp: decode.simps [of m bs] Let_def split: if_splits)
    with "1.IH" "1.prems" False show ?thesis
      by (auto simp: decode.simps [of m bs] Let_def split: prod.splits)
  qed
qed

end
