(* ===== verification/Reactor.thy ===== *)
theory Reactor
  imports Buffer
begin

text \<open>
  The reactor: \<open>src/src/Channel.cpp\<close>, \<open>src/src/EventLoop.cpp\<close>, \<open>src/include/EventLoop.h\<close> and
  \<open>src/src/EventLoopThreadPool.cpp\<close>.

  A channel is the loop's handle on a file descriptor. The loop keeps \<open>channels_\<close>, a map from
  descriptors to channel objects, next to the kernel's interest list; \<open>epoll_ctl(2)\<close> is the
  environment and its result is an argument of every operation that calls it. The second part
  models the functor queue, through which every cross-thread call of the server is serialised,
  and the round-robin choice of an I/O loop.
\<close>

unbundle bit_operations_syntax

subsection \<open>Channels\<close>

definition EPOLLIN :: u32 where "EPOLLIN = 1"
definition EPOLLOUT :: u32 where "EPOLLOUT = 4"
definition EPOLLERR :: u32 where "EPOLLERR = 8"
definition EPOLLHUP :: u32 where "EPOLLHUP = 16"
definition EPOLLET :: u32 where "EPOLLET = 0x80000000"

lemmas epoll_bits = EPOLLIN_def EPOLLOUT_def EPOLLERR_def EPOLLHUP_def EPOLLET_def

text \<open>\<open>ch_id\<close> is the identity of the C++ object (its address).\<close>

record channel =
  ch_id :: nat
  ch_fd :: int
  events :: u32
  revents :: u32
  inEpoll :: bool

datatype epoll_result = EpollOk | EpollFail errno

definition channel_new :: "nat \<Rightarrow> int \<Rightarrow> channel" where
  "channel_new i fd = \<lparr>ch_id = i, ch_fd = fd, events = 0, revents = 0, inEpoll = False\<rparr>"

subsection \<open>The loop's registration table\<close>

text \<open>
  \<open>interest\<close> is the kernel's side of the epoll instance: the event mask last installed for each
  descriptor. It is written only where \<open>epoll_ctl\<close> succeeds.
\<close>

record event_loop =
  channels :: "(int \<times> nat) list"
  interest :: "(int \<times> u32) list"

definition updateChannel ::
  "epoll_result \<Rightarrow> event_loop \<Rightarrow> channel \<Rightarrow> bool \<times> event_loop \<times> channel" where
  "updateChannel r l ch =
     (let fd = ch_fd ch; ev = events ch OR EPOLLET in
      if inEpoll ch then
        (case r of
           EpollFail _ \<Rightarrow> (False, l, ch)
         | EpollOk \<Rightarrow> (True, l\<lparr>interest := AList.update fd ev (interest l)\<rparr>, ch))
      else
        (case r of
           EpollFail _ \<Rightarrow> (False, l, ch)
         | EpollOk \<Rightarrow>
             (True,
              l\<lparr>interest := AList.update fd ev (interest l),
                channels := AList.update fd (ch_id ch) (channels l)\<rparr>,
              ch\<lparr>inEpoll := True\<rparr>)))"

definition removeChannel ::
  "epoll_result \<Rightarrow> event_loop \<Rightarrow> channel \<Rightarrow> bool \<times> event_loop \<times> channel" where
  "removeChannel r l ch =
     (let fd = ch_fd ch in
      case map_of (channels l) fd of
        None \<Rightarrow> (True, l, ch)
      | Some c \<Rightarrow>
          if c \<noteq> ch_id ch then (False, l, ch)
          else (case r of
                  EpollFail e \<Rightarrow>
                    if e = ENOENT
                    then (True, l\<lparr>channels := AList.delete fd (channels l)\<rparr>, ch\<lparr>inEpoll := False\<rparr>)
                    else (False, l, ch)
                | EpollOk \<Rightarrow>
                    (True,
                     l\<lparr>channels := AList.delete fd (channels l),
                       interest := AList.delete fd (interest l)\<rparr>,
                     ch\<lparr>inEpoll := False\<rparr>)))"

definition enableReading where
  "enableReading r l ch = updateChannel r l (ch\<lparr>events := events ch OR EPOLLIN\<rparr>)"

definition enableWriting where
  "enableWriting r l ch =
     (if events ch AND EPOLLOUT \<noteq> 0 then (True, l, ch)
      else case updateChannel r l (ch\<lparr>events := events ch OR EPOLLOUT\<rparr>) of
             (ok, l', ch') \<Rightarrow>
               if ok then (True, l', ch')
               else (False, l', ch'\<lparr>events := events ch' AND NOT EPOLLOUT\<rparr>))"

definition disableWriting where
  "disableWriting r l ch =
     (if events ch AND EPOLLOUT = 0 then (True, l, ch)
      else case updateChannel r l (ch\<lparr>events := events ch AND NOT EPOLLOUT\<rparr>) of
             (ok, l', ch') \<Rightarrow>
               if ok then (True, l', ch')
               else (False, l', ch'\<lparr>events := events ch' OR EPOLLOUT\<rparr>))"

definition disableAll :: "channel \<Rightarrow> channel" where
  "disableAll ch = ch\<lparr>events := 0\<rparr>"

text \<open>
  A channel is registered consistently when its flag, the loop's table and the kernel's interest
  list agree about its descriptor.
\<close>

definition registered :: "event_loop \<Rightarrow> channel \<Rightarrow> bool" where
  "registered l ch \<longleftrightarrow>
     (if inEpoll ch
      then map_of (channels l) (ch_fd ch) = Some (ch_id ch) \<and>
           map_of (interest l) (ch_fd ch) = Some (events ch OR EPOLLET)
      else map_of (channels l) (ch_fd ch) = None)"

lemma word_or_and_not_idem: "x AND m = 0 \<Longrightarrow> (x OR m) AND NOT m = (x :: u32)"
  by (auto simp: bit_eq_iff bit_simps)

lemma word_and_not_or_idem: "x AND m = m \<Longrightarrow> (x AND NOT m) OR m = (x :: u32)"
  by (auto simp: bit_eq_iff bit_simps)

lemma EPOLLOUT_single_bit: "x AND EPOLLOUT \<noteq> 0 \<Longrightarrow> x AND EPOLLOUT = (EPOLLOUT :: u32)"
proof -
  have out: "EPOLLOUT = 2 ^ 2" by (simp add: EPOLLOUT_def)
  assume "x AND EPOLLOUT \<noteq> 0"
  then have "bit x 2"
    by (simp add: out and_exp_eq_0_iff_not_bit del: power_numeral)
  then show ?thesis
    by (intro bit_word_eqI) (auto simp: out bit_simps simp del: power_numeral)
qed

text \<open>Every operation of a channel that is not refused keeps the registration consistent.\<close>

lemma updateChannel_registered:
  "updateChannel r l ch = (True, l', ch') \<Longrightarrow>
   registered l' ch' \<and> inEpoll ch' \<and> events ch' = events ch \<and> ch_fd ch' = ch_fd ch"
  if "inEpoll ch \<Longrightarrow> map_of (channels l) (ch_fd ch) = Some (ch_id ch)"
  using that by (auto simp: updateChannel_def registered_def Let_def split: if_splits epoll_result.splits)

lemma updateChannel_refused:
  "updateChannel r l ch = (False, l', ch') \<Longrightarrow> l' = l \<and> ch' = ch"
  by (auto simp: updateChannel_def Let_def split: if_splits epoll_result.splits)

lemma enableWriting_registered:
  assumes "registered l ch" "enableWriting r l ch = (ok, l', ch')"
  shows "registered l' ch'"
proof (cases "events ch AND EPOLLOUT = 0")
  case True
  let ?ch = "ch\<lparr>events := events ch OR EPOLLOUT\<rparr>"
  obtain ok1 l1 ch1 where u: "updateChannel r l ?ch = (ok1, l1, ch1)"
    by (cases "updateChannel r l ?ch") auto
  show ?thesis
  proof (cases ok1)
    case T: True
    have "inEpoll ?ch \<Longrightarrow> map_of (channels l) (ch_fd ?ch) = Some (ch_id ?ch)"
      using assms(1) by (simp add: registered_def)
    from updateChannel_registered [OF this] u T have "registered l1 ch1" by simp
    with assms(2) True u T show ?thesis by (simp add: enableWriting_def)
  next
    case F: False
    with u updateChannel_refused have "l1 = l" "ch1 = ?ch" by auto
    with assms True u F show ?thesis
      by (auto simp: enableWriting_def registered_def word_or_and_not_idem)
  qed
next
  case False
  with assms show ?thesis by (simp add: enableWriting_def)
qed

lemma disableWriting_registered:
  assumes "registered l ch" "disableWriting r l ch = (ok, l', ch')"
  shows "registered l' ch'"
proof (cases "events ch AND EPOLLOUT = 0")
  case True
  with assms show ?thesis by (simp add: disableWriting_def)
next
  case False
  let ?ch = "ch\<lparr>events := events ch AND NOT EPOLLOUT\<rparr>"
  obtain ok1 l1 ch1 where u: "updateChannel r l ?ch = (ok1, l1, ch1)"
    by (cases "updateChannel r l ?ch") auto
  show ?thesis
  proof (cases ok1)
    case T: True
    have "inEpoll ?ch \<Longrightarrow> map_of (channels l) (ch_fd ?ch) = Some (ch_id ?ch)"
      using assms(1) by (simp add: registered_def)
    from updateChannel_registered [OF this] u T have "registered l1 ch1" by simp
    with assms(2) False u T show ?thesis by (simp add: disableWriting_def)
  next
    case F: False
    with u updateChannel_refused have "l1 = l" "ch1 = ?ch" by auto
    with assms False u F show ?thesis
      using word_and_not_or_idem [OF EPOLLOUT_single_bit [OF False]]
      by (auto simp: disableWriting_def registered_def)
  qed
qed

subsection \<open>Dispatching an event to the callbacks\<close>

datatype cb = ReadCb | WriteCb | CloseCb | ErrorCb

datatype cb_outcome = NotSet | Returns | Throws

text \<open>\<open>invokeSafely\<close>: the flag it returns and the callback it ran, if any.\<close>

definition invokeSafely :: "(cb \<Rightarrow> cb_outcome) \<Rightarrow> cb \<Rightarrow> bool \<times> cb list" where
  "invokeSafely run c =
     (case run c of NotSet \<Rightarrow> (True, []) | Returns \<Rightarrow> (True, [c]) | Throws \<Rightarrow> (False, [c]))"

text \<open>\<open>handleEvent run revs\<close> is the sequence of callbacks run for the reported events \<open>revs\<close>.\<close>

definition handleEvent :: "(cb \<Rightarrow> cb_outcome) \<Rightarrow> u32 \<Rightarrow> cb list" where
  "handleEvent run revs =
     (if revs AND EPOLLHUP \<noteq> 0 \<and> \<not> (revs AND EPOLLIN \<noteq> 0) then snd (invokeSafely run CloseCb)
      else if revs AND EPOLLERR \<noteq> 0 then snd (invokeSafely run ErrorCb)
      else
        (let (rok, rcalls) = (if revs AND EPOLLIN \<noteq> 0 then invokeSafely run ReadCb else (True, [])) in
         if \<not> rok then rcalls @ snd (invokeSafely run ErrorCb)
         else if revs AND EPOLLOUT \<noteq> 0
         then (let (wok, wcalls) = invokeSafely run WriteCb in
               if \<not> wok then rcalls @ wcalls @ snd (invokeSafely run ErrorCb) else rcalls @ wcalls)
         else rcalls))"

text \<open>
  The dispatch discipline the connection relies on: each callback runs at most once per event,
  close excludes everything else, a write follows only a read that did not throw, and a thrown
  read or write is followed by the error callback.
\<close>

lemma invokeSafely_calls: "set (snd (invokeSafely run c)) \<subseteq> {c}" "distinct (snd (invokeSafely run c))"
  by (auto simp: invokeSafely_def split: cb_outcome.splits)

lemma handleEvent_discipline:
  "distinct (handleEvent run revs) \<and>
   (CloseCb \<in> set (handleEvent run revs) \<longrightarrow> handleEvent run revs = [CloseCb]) \<and>
   (WriteCb \<in> set (handleEvent run revs) \<longrightarrow> revs AND EPOLLIN \<noteq> 0 \<longrightarrow> run ReadCb \<noteq> Throws) \<and>
   (\<forall>c \<in> {ReadCb, WriteCb}. c \<in> set (handleEvent run revs) \<longrightarrow> run c = Throws \<longrightarrow>
      run ErrorCb \<noteq> NotSet \<longrightarrow> ErrorCb \<in> set (handleEvent run revs))"
  by (cases "run ReadCb"; cases "run WriteCb"; cases "run ErrorCb"; cases "run CloseCb")
     (auto simp: handleEvent_def invokeSafely_def)

subsection \<open>The functor queue\<close>

text \<open>
  \<open>queueInLoop\<close> appends under the mutex; \<open>doPendingFunctors\<close> swaps the vector out and calls its
  elements in order. A functor is run by \<open>call f s\<close>, which gives the new state and the functors
  it queued on the same loop; exceptions are caught, so every functor of the batch is called.
\<close>

type_synonym ('f, 's) functor_run = "'f \<Rightarrow> 's \<Rightarrow> 's \<times> 'f list"

definition queueInLoop :: "'f \<Rightarrow> 'f list \<Rightarrow> 'f list" where
  "queueInLoop f pending = pending @ [f]"

fun call_all :: "('f, 's) functor_run \<Rightarrow> 'f list \<Rightarrow> 's \<Rightarrow> 'f list \<Rightarrow> 's \<times> 'f list" where
  "call_all call [] s pending = (s, pending)"
| "call_all call (f # fs) s pending =
     (let (s', qs) = call f s in call_all call fs s' (foldl (\<lambda>p q. queueInLoop q p) pending qs))"

definition doPendingFunctors :: "('f, 's) functor_run \<Rightarrow> 'f list \<Rightarrow> 's \<Rightarrow> 's \<times> 'f list" where
  "doPendingFunctors call pending s = call_all call pending s []"

lemma foldl_queueInLoop [simp]: "foldl (\<lambda>p q. queueInLoop q p) pending qs = pending @ qs"
  by (induction qs arbitrary: pending) (auto simp: queueInLoop_def)

lemma call_all_append:
  "call_all call (fs @ gs) s p =
     (case call_all call fs s p of (s', p') \<Rightarrow> call_all call gs s' p')"
  by (induction fs arbitrary: s p) (auto split: prod.splits)

lemma call_all_pending: "\<exists>qs. snd (call_all call fs s p) = p @ qs"
proof (induction fs arbitrary: s p)
  case (Cons f fs)
  obtain s' qs where "call f s = (s', qs)" by (cases "call f s")
  with Cons [of s' "p @ qs"] show ?case by auto
qed simp

text \<open>
  One round calls exactly the pending functors, in the order they were queued; what they queue is
  left for the next round, in the order of the calls.
\<close>

lemma call_all_fifo:
  "fst (call_all call fs s p) = fold (\<lambda>f s. fst (call f s)) fs s"
  by (induction fs arbitrary: s p) (auto split: prod.splits)

lemma doPendingFunctors_fifo:
  "fst (doPendingFunctors call (fs @ gs) s) =
     fst (doPendingFunctors call gs (fst (doPendingFunctors call fs s)))"
  by (simp add: doPendingFunctors_def call_all_fifo)

subsection \<open>Choosing an I/O loop\<close>

record loop_pool =
  started :: bool
  numThreads :: int
  loops :: "nat list"
  next_ix :: nat
  baseLoop :: nat

definition getNextLoop :: "loop_pool \<Rightarrow> nat \<times> loop_pool" where
  "getNextLoop p =
     (if loops p = [] then (baseLoop p, p)
      else (loops p ! next_ix p, p\<lparr>next_ix := (next_ix p + 1) mod length (loops p)\<rparr>))"

text \<open>\<open>start\<close>: the loops created by the started threads are given by \<open>mk\<close>.\<close>

definition pool_start :: "(nat \<Rightarrow> nat) \<Rightarrow> loop_pool \<Rightarrow> loop_pool" where
  "pool_start mk p =
     (if started p then p
      else p\<lparr>started := True, loops := loops p @ map mk [0..<nat (numThreads p)]\<rparr>)"

definition setThreadNum :: "int \<Rightarrow> loop_pool \<Rightarrow> loop_pool" where
  "setThreadNum n p = (if started p then p else p\<lparr>numThreads := n\<rparr>)"

definition pool_stop :: "loop_pool \<Rightarrow> loop_pool" where
  "pool_stop p = (if \<not> started p then p else p\<lparr>loops := [], started := False\<rparr>)"

fun next_loops :: "nat \<Rightarrow> loop_pool \<Rightarrow> nat list" where
  "next_loops 0 p = []"
| "next_loops (Suc k) p = (case getNextLoop p of (l, p') \<Rightarrow> l # next_loops k p')"

lemma next_loops_round_robin:
  "loops p \<noteq> [] \<Longrightarrow> next_ix p < length (loops p) \<Longrightarrow>
   next_loops k p = map (\<lambda>i. loops p ! ((next_ix p + i) mod length (loops p))) [0..<k]"
proof (induction k arbitrary: p)
  case (Suc k)
  let ?p = "p\<lparr>next_ix := (next_ix p + 1) mod length (loops p)\<rparr>"
  have "next_loops k ?p = map (\<lambda>i. loops p ! ((next_ix p + Suc i) mod length (loops p))) [0..<k]"
    using Suc.IH [of ?p] Suc.prems by (simp add: mod_simps)
  with Suc.prems show ?case
    by (simp add: getNextLoop_def upt_conv_Cons map_Suc_upt [symmetric] o_def del: upt_Suc)
qed simp

text \<open>A full round of a pool of \<open>n\<close> loops uses every loop exactly once.\<close>

lemma next_loops_balanced:
  assumes "loops p \<noteq> []" "next_ix p < length (loops p)"
  shows "next_loops (length (loops p)) p = rotate (next_ix p) (loops p)"
  using assms by (intro nth_equalityI) (simp_all add: next_loops_round_robin nth_rotate)

end
