(* ===== verification/TcpConnection.thy ===== *)
theory TcpConnection
  imports Frame Reactor "HOL-Library.Monad_Syntax"
begin

text \<open>
  One client connection: \<open>src/include/TcpConnection.h\<close>, \<open>src/src/TcpConnection.cpp\<close>.

  The record holds the members the operations read or write. \<open>loop\<close> is the part of the owning
  event loop the connection touches: the registration entry of its own descriptor. The
  environment enters as data: \<open>epoll\<close> holds the results of the coming \<open>epoll_ctl\<close> calls (success
  once it is used up), the results of \<open>readv\<close> and \<open>send\<close> are arguments, and so is the clock, read
  once per handler (nanoseconds of \<open>steady_clock\<close>). The callbacks installed by
  \<open>TcpServer::newConnection\<close> and the calls to the timer queue are recorded in \<open>effects\<close>, in
  order. An operation returns \<open>None\<close> exactly where an assertion of \<open>Buffer\<close> would fail; that no
  assertion ever fails is part of the theorems.
\<close>

subsection \<open>State\<close>

datatype conn_effect =
    MessageCallback string
  | CloseCallback
  | HighWaterCallback nat
  | LowWaterCallback nat
  | StartHeartbeat int
  | CancelHeartbeat
  | QueueClose
  | QueueForceClose
  | QueueSend string
  | CloseFd

record tcp_conn =
  conn_fd :: int
  fdClosed :: bool
  chan :: "channel option"
  loop :: event_loop
  epoll :: "epoll_result list"
  outputBuffer :: buffer
  inputBuffer :: buffer
  connected :: bool
  heartbeatTimer :: bool
  lastPong :: int
  lastActiveTime :: int
  lastHeartbeatTime :: int
  heartbeatInterval :: int
  heartbeatTimeout :: int
  maxFrameLen :: nat
  highWaterMark :: nat
  lowWaterMark :: nat
  hardLimit :: nat
  isOverloaded :: bool
  droppedMessage :: u64
  overloadDropCount :: u32
  maxOverloadDropCount :: u32
  pendingBytesEstimate :: nat
  queuedFrameBytes :: nat
  effects :: "conn_effect list"

text \<open>The constructor's member initialisers; the limits come from the network configuration.\<close>

definition TcpConnection_new ::
  "int \<Rightarrow> int \<Rightarrow> int \<Rightarrow> nat \<Rightarrow> nat \<Rightarrow> nat \<Rightarrow> nat \<Rightarrow> u32 \<Rightarrow> tcp_conn" where
  "TcpConnection_new fd beatMs timeoutMs maxLen high low hard maxDrops =
     \<lparr>conn_fd = fd, fdClosed = False, chan = None, loop = \<lparr>channels = [], interest = []\<rparr>, epoll = [],
      outputBuffer = buffer_init, inputBuffer = buffer_init, connected = True, heartbeatTimer = False,
      lastPong = 0, lastActiveTime = 0, lastHeartbeatTime = 0, heartbeatInterval = beatMs,
      heartbeatTimeout = timeoutMs, maxFrameLen = maxLen, highWaterMark = high, lowWaterMark = low,
      hardLimit = hard, isOverloaded = False, droppedMessage = 0, overloadDropCount = 0,
      maxOverloadDropCount = maxDrops, pendingBytesEstimate = 0, queuedFrameBytes = 0, effects = []\<rparr>"

definition emit :: "conn_effect \<Rightarrow> tcp_conn \<Rightarrow> tcp_conn" where
  "emit e c = c\<lparr>effects := effects c @ [e]\<rparr>"

text \<open>The payloads handed to the message callback, in order.\<close>

definition payloads :: "conn_effect list \<Rightarrow> string list" where
  "payloads es = concat (map (\<lambda>e. case e of MessageCallback p \<Rightarrow> [p] | _ \<Rightarrow> []) es)"

definition delivered :: "tcp_conn \<Rightarrow> string list" where
  "delivered c = payloads (effects c)"

definition next_epoll :: "tcp_conn \<Rightarrow> epoll_result \<times> tcp_conn" where
  "next_epoll c = (case epoll c of [] \<Rightarrow> (EpollOk, c) | r # rs \<Rightarrow> (r, c\<lparr>epoll := rs\<rparr>))"

text \<open>A channel operation of the connection, with its result.\<close>

definition on_channel ::
  "(epoll_result \<Rightarrow> event_loop \<Rightarrow> channel \<Rightarrow> bool \<times> event_loop \<times> channel) \<Rightarrow> channel \<Rightarrow> tcp_conn \<Rightarrow>
   bool \<times> tcp_conn" where
  "on_channel f ch c =
     (case next_epoll c of (r, c') \<Rightarrow>
        case f r (loop c') ch of (ok, l, ch') \<Rightarrow> (ok, c'\<lparr>loop := l, chan := Some ch'\<rparr>))"

subsection \<open>Closing\<close>

definition stopHeartbeat :: "tcp_conn \<Rightarrow> tcp_conn" where
  "stopHeartbeat c = (if heartbeatTimer c then emit CancelHeartbeat c else c)"

text \<open>The channel part of \<open>handleClose\<close>: all events off, and out of epoll if it was in.\<close>

definition closeChannel :: "tcp_conn \<Rightarrow> tcp_conn" where
  "closeChannel c =
     (case chan c of
        None \<Rightarrow> c
      | Some ch \<Rightarrow>
          (let ch' = disableAll ch in
           if inEpoll ch' then snd (on_channel removeChannel ch' c) else c\<lparr>chan := Some ch'\<rparr>))"

definition handleClose :: "tcp_conn \<Rightarrow> tcp_conn" where
  "handleClose c =
     (if \<not> connected c then c
      else emit CloseCallback (closeChannel (stopHeartbeat (c\<lparr>connected := False\<rparr>))))"

definition forceCloseInLoop :: "tcp_conn \<Rightarrow> tcp_conn" where
  "forceCloseInLoop c =
     (if \<not> connected c then c
      else if chan c = None then emit CloseCallback (c\<lparr>connected := False\<rparr>)
      else handleClose c)"

definition forceClose :: "bool \<Rightarrow> tcp_conn \<Rightarrow> tcp_conn" where
  "forceClose inLoop c = (if inLoop then forceCloseInLoop c else emit QueueForceClose c)"

text \<open>
  \<open>scheduleCloseInLoop\<close> goes through \<open>runInLoop\<close>: inside the loop thread the close happens at
  once, from another thread it is queued.
\<close>

definition scheduleCloseInLoop :: "bool \<Rightarrow> tcp_conn \<Rightarrow> tcp_conn" where
  "scheduleCloseInLoop inLoop c = (if inLoop then handleClose c else emit QueueClose c)"

definition handleError :: "tcp_conn \<Rightarrow> tcp_conn" where
  "handleError c = handleClose c"

definition closeFd :: "tcp_conn \<Rightarrow> tcp_conn" where
  "closeFd c =
     (if \<not> fdClosed c \<and> conn_fd c \<ge> 0 then emit CloseFd (c\<lparr>fdClosed := True, conn_fd := -1\<rparr>) else c)"

definition connectionDestroyed :: "tcp_conn \<Rightarrow> tcp_conn" where
  "connectionDestroyed c =
     closeFd
       (case chan c of
          Some ch \<Rightarrow> if inEpoll ch then snd (on_channel removeChannel (disableAll ch) c) else c
        | None \<Rightarrow> c)"

subsection \<open>Sending\<close>

definition pendingBytes :: "tcp_conn \<Rightarrow> nat" where
  "pendingBytes c = readableBytes (outputBuffer c)"

definition canAccept :: "nat \<Rightarrow> tcp_conn \<Rightarrow> bool" where
  "canAccept n c \<longleftrightarrow> pendingBytes c + n \<le> hardLimit c"

definition updatePendingEstimate :: "tcp_conn \<Rightarrow> tcp_conn" where
  "updatePendingEstimate c = c\<lparr>pendingBytesEstimate := readableBytes (outputBuffer c)\<rparr>"

definition totalPendingEstimate :: "tcp_conn \<Rightarrow> nat" where
  "totalPendingEstimate c = queuedFrameBytes c + readableBytes (outputBuffer c)"

text \<open>\<open>if(channel_&&!channel_->enableWriting()) handleClose();\<close>\<close>

definition requestWrite :: "tcp_conn \<Rightarrow> tcp_conn" where
  "requestWrite c =
     (case chan c of
        None \<Rightarrow> c
      | Some ch \<Rightarrow> (case on_channel enableWriting ch c of (ok, c') \<Rightarrow> if ok then c' else handleClose c'))"

text \<open>The overload mark: set once, with the high-water callback, while the given test holds.\<close>

definition markOverload :: "bool \<Rightarrow> tcp_conn \<Rightarrow> tcp_conn" where
  "markOverload over c =
     (if \<not> isOverloaded c \<and> over
      then emit (HighWaterCallback (pendingBytes c)) (c\<lparr>isOverloaded := True\<rparr>) else c)"

text \<open>
  \<open>len\<close> is the message size truncated to 32 bits, and \<open>4+len\<close> is computed in 32 bits before it is
  widened.
\<close>

definition sendInLoop :: "string \<Rightarrow> tcp_conn \<Rightarrow> tcp_conn option" where
  "sendInLoop msg c =
     (if \<not> connected c \<or> chan c = None then Some c
      else
        let len = word_of_nat (length msg) :: u32 in
        if unat len > maxFrameLen c then Some c
        else if \<not> canAccept (unat (4 + len)) c then
          (let c1 = c\<lparr>droppedMessage := droppedMessage c + 1, overloadDropCount := overloadDropCount c + 1\<rparr>
           in Some (if overloadDropCount c1 \<ge> maxOverloadDropCount c1 then scheduleCloseInLoop True c1 else c1))
        else do {
          b1 \<leftarrow> appendUint32 len (outputBuffer c);
          b2 \<leftarrow> append_bytes (take (unat len) msg) b1;
          let c1 = updatePendingEstimate (c\<lparr>outputBuffer := b2\<rparr>);
          Some (requestWrite (markOverload (pendingBytesEstimate c1 \<ge> highWaterMark c1) c1))
        })"

definition conn_send :: "bool \<Rightarrow> string \<Rightarrow> tcp_conn \<Rightarrow> tcp_conn option" where
  "conn_send inLoop msg c =
     (if \<not> connected c then Some c
      else if inLoop then sendInLoop msg c
      else Some (emit (QueueSend msg) c))"

text \<open>The end of a turn of \<open>handleWrite\<close>: an empty output buffer switches write events off.\<close>

definition stopWriting :: "tcp_conn \<Rightarrow> tcp_conn" where
  "stopWriting c =
     (if readableBytes (outputBuffer c) = 0
      then (case chan c of
              None \<Rightarrow> c
            | Some ch \<Rightarrow> (case on_channel disableWriting ch c of (ok, c') \<Rightarrow> if ok then c' else handleClose c'))
      else c)"

text \<open>What a turn does with \<open>n > 0\<close> bytes taken by the socket.\<close>

definition sentBytes :: "nat \<Rightarrow> tcp_conn \<Rightarrow> tcp_conn" where
  "sentBytes n c =
     (let c1 = updatePendingEstimate (c\<lparr>outputBuffer := retrieve n (outputBuffer c)\<rparr>);
          pending = totalPendingEstimate c1
      in if isOverloaded c1 \<and> pending < lowWaterMark c1
         then emit (LowWaterCallback (pendingBytes c1)) (c1\<lparr>isOverloaded := False, overloadDropCount := 0\<rparr>)
         else c1)"

text \<open>
  \<open>handleWrite\<close> loops on \<open>send\<close> until the buffer is empty or the socket would block. The results
  of the \<open>send\<close> calls are the argument (an exhausted list stands for a socket that would block);
  the bytes handed to the kernel are returned.
\<close>

fun handleWrite :: "send_outcome list \<Rightarrow> tcp_conn \<Rightarrow> string \<times> tcp_conn" where
  "handleWrite [] c = ([], c)"
| "handleWrite (r # rs) c =
     (if readableBytes (outputBuffer c) = 0 then ([], c)
      else case r of
             SendCount n \<Rightarrow>
               (if n > 0 then
                  (case handleWrite rs (stopWriting (sentBytes n c)) of
                     (w, c') \<Rightarrow> (take n (readable (outputBuffer c)) @ w, c'))
                else handleWrite rs (stopWriting c))
           | SendError e \<Rightarrow>
               if e = EINTR then handleWrite rs c
               else if e = EAGAIN \<or> e = EWOULDBLOCK then ([], c)
               else if e = EPIPE \<or> e = ECONNRESET then ([], handleError c)
               else ([], handleClose c))"

subsection \<open>Receiving\<close>

datatype frame_step = NeedMore | EmptyFrame | Oversized | GotFrame string

text \<open>
  One turn of the inner loop of \<open>handleRead\<close>, up to the callbacks: \<open>4+len\<close> is again computed in
  32 bits.
\<close>

definition next_frame :: "nat \<Rightarrow> buffer \<Rightarrow> (frame_step \<times> buffer) option" where
  "next_frame maxLen b =
     (if readableBytes b < 4 then Some (NeedMore, b)
      else do {
        len \<leftarrow> peekUInt32 b;
        if len = 0 then do { b1 \<leftarrow> retrieveUInt32 b; Some (EmptyFrame, b1) }
        else if unat len > maxLen then Some (Oversized, b)
        else if readableBytes b < unat (4 + len) then Some (NeedMore, b)
        else do {
          b1 \<leftarrow> retrieveUInt32 b;
          (p, b2) \<leftarrow> retrieveAsString (unat len) b1;
          Some (GotFrame p, b2)
        }
      })"

definition handleControlFrame :: "int \<Rightarrow> string \<Rightarrow> tcp_conn \<Rightarrow> (bool \<times> tcp_conn) option" where
  "handleControlFrame now p c =
     (if p = ''PONG'' then Some (True, c\<lparr>lastHeartbeatTime := now\<rparr>)
      else if p = ''PING'' then map_option (Pair True) (conn_send True ''PONG'' c)
      else Some (False, c))"

lemma retrieve_twice_shrinks: "4 \<le> readableBytes b \<Longrightarrow> readableBytes (retrieve n (retrieve 4 b)) < readableBytes b"
  by (rule le_less_trans [OF retrieve_le]) (auto intro: retrieve_shrinks)

lemma next_frame_shrinks:
  "next_frame m b = Some (EmptyFrame, b') \<Longrightarrow> readableBytes b' < readableBytes b"
  "next_frame m b = Some (GotFrame p, b') \<Longrightarrow> readableBytes b' < readableBytes b"
  by (auto simp: next_frame_def peekUInt32_def retrieveUInt32_def retrieveAsString_def Let_def bind_eq_Some_conv
      intro: retrieve_shrinks retrieve_twice_shrinks
      split: if_splits)

text \<open>
  What the channel operations and closing may change: the registration, the connected flag and the
  recorded effects; never the buffers, the limits or the counters.
\<close>

lemma on_channel_frame:
  assumes "on_channel f ch c = (ok, c')"
  obtains ep l ch' where "c' = c\<lparr>epoll := ep, loop := l, chan := Some ch'\<rparr>"
proof -
  have "\<exists>ep. snd (next_epoll c) = c\<lparr>epoll := ep\<rparr>"
    by (cases "epoll c") (auto simp: next_epoll_def intro: exI [of _ "epoll c"])
  with assms show ?thesis
    by (auto simp: on_channel_def split: prod.splits intro: that)
qed

lemma closeChannel_frame:
  obtains ep l ch where "closeChannel c = c\<lparr>epoll := ep, loop := l, chan := ch\<rparr>"
    "ch = None \<longleftrightarrow> chan c = None"
proof (cases "chan c")
  case None
  then show ?thesis
    by (intro that [where ep = "epoll c" and l = "loop c" and ch = None]) (auto simp: closeChannel_def)
next
  case (Some ch0)
  obtain ok c1 where oc: "on_channel removeChannel (disableAll ch0) c = (ok, c1)"
    by (cases "on_channel removeChannel (disableAll ch0) c")
  then obtain ep l ch' where c1: "c1 = c\<lparr>epoll := ep, loop := l, chan := Some ch'\<rparr>"
    by (rule on_channel_frame)
  show ?thesis
  proof (cases "inEpoll (disableAll ch0)")
    case True
    with Some oc c1 show ?thesis by (intro that) (auto simp: closeChannel_def Let_def)
  next
    case False
    with Some show ?thesis
      by (intro that [where ep = "epoll c" and l = "loop c" and ch = "Some (disableAll ch0)"])
         (auto simp: closeChannel_def Let_def)
  qed
qed

lemma handleClose_frame:
  obtains ep l ch es where
    "handleClose c = c\<lparr>connected := False, epoll := ep, loop := l, chan := ch, effects := effects c @ es\<rparr>"
    "count_list es CloseCallback = (if connected c then 1 else 0)"
    "payloads es = []" "ch = None \<longleftrightarrow> chan c = None"
proof (cases "connected c")
  case False
  then show ?thesis
    by (intro that [where ep = "epoll c" and l = "loop c" and ch = "chan c" and es = "[]"])
       (auto simp: handleClose_def payloads_def)
next
  case True
  define es where "es = (if heartbeatTimer c then [CancelHeartbeat] else [])"
  let ?c = "c\<lparr>connected := False, effects := effects c @ es\<rparr>"
  have "stopHeartbeat (c\<lparr>connected := False\<rparr>) = ?c"
    by (simp add: stopHeartbeat_def emit_def es_def)
  moreover obtain ep l ch where "closeChannel ?c = ?c\<lparr>epoll := ep, loop := l, chan := ch\<rparr>"
    "ch = None \<longleftrightarrow> chan ?c = None"
    by (rule closeChannel_frame)
  ultimately show ?thesis
    using True
    by (intro that [where ep = ep and l = l and ch = ch and es = "es @ [CloseCallback]"])
       (auto simp: handleClose_def emit_def es_def payloads_def)
qed

lemma handleClose_fields [simp]:
  "inputBuffer (handleClose c) = inputBuffer c" "outputBuffer (handleClose c) = outputBuffer c"
  "connected (handleClose c) = False" "maxFrameLen (handleClose c) = maxFrameLen c"
  "hardLimit (handleClose c) = hardLimit c" "queuedFrameBytes (handleClose c) = queuedFrameBytes c"
  "pendingBytesEstimate (handleClose c) = pendingBytesEstimate c"
  "overloadDropCount (handleClose c) = overloadDropCount c"
  "droppedMessage (handleClose c) = droppedMessage c"
  "isOverloaded (handleClose c) = isOverloaded c"
  "maxOverloadDropCount (handleClose c) = maxOverloadDropCount c"
  "chan (handleClose c) = None \<longleftrightarrow> chan c = None"
  by (rule handleClose_frame [of c]; simp)+

lemma emit_fields [simp]:
  "inputBuffer (emit e c) = inputBuffer c" "outputBuffer (emit e c) = outputBuffer c"
  "connected (emit e c) = connected c" "maxFrameLen (emit e c) = maxFrameLen c"
  "hardLimit (emit e c) = hardLimit c" "queuedFrameBytes (emit e c) = queuedFrameBytes c"
  "pendingBytesEstimate (emit e c) = pendingBytesEstimate c" "effects (emit e c) = effects c @ [e]"
  "chan (emit e c) = chan c" "overloadDropCount (emit e c) = overloadDropCount c"
  "isOverloaded (emit e c) = isOverloaded c" "droppedMessage (emit e c) = droppedMessage c"
  "highWaterMark (emit e c) = highWaterMark c"
  by (simp_all add: emit_def)

lemma markOverload_fields [simp]:
  "inputBuffer (markOverload a c) = inputBuffer c" "outputBuffer (markOverload a c) = outputBuffer c"
  "maxFrameLen (markOverload a c) = maxFrameLen c" "hardLimit (markOverload a c) = hardLimit c"
  "queuedFrameBytes (markOverload a c) = queuedFrameBytes c"
  "pendingBytesEstimate (markOverload a c) = pendingBytesEstimate c"
  "connected (markOverload a c) = connected c" "chan (markOverload a c) = chan c"
  by (simp_all add: markOverload_def)

lemma updatePendingEstimate_fields [simp]:
  "inputBuffer (updatePendingEstimate c) = inputBuffer c"
  "outputBuffer (updatePendingEstimate c) = outputBuffer c"
  "maxFrameLen (updatePendingEstimate c) = maxFrameLen c"
  "hardLimit (updatePendingEstimate c) = hardLimit c"
  "queuedFrameBytes (updatePendingEstimate c) = queuedFrameBytes c"
  "pendingBytesEstimate (updatePendingEstimate c) = readableBytes (outputBuffer c)"
  "connected (updatePendingEstimate c) = connected c" "effects (updatePendingEstimate c) = effects c"
  "isOverloaded (updatePendingEstimate c) = isOverloaded c" "chan (updatePendingEstimate c) = chan c"
  by (simp_all add: updatePendingEstimate_def)

lemma requestWrite_cases:
  obtains (keep) ep l ch where "requestWrite c = c\<lparr>epoll := ep, loop := l, chan := ch\<rparr>"
      "ch = None \<longleftrightarrow> chan c = None"
    | (close) ep l ch where "requestWrite c = handleClose (c\<lparr>epoll := ep, loop := l, chan := ch\<rparr>)"
      "ch = None \<longleftrightarrow> chan c = None"
proof (cases "chan c")
  case None
  then show ?thesis
    by (intro keep [where ep = "epoll c" and l = "loop c" and ch = None]) (auto simp: requestWrite_def)
next
  case (Some ch0)
  obtain ok c1 where oc: "on_channel enableWriting ch0 c = (ok, c1)"
    by (cases "on_channel enableWriting ch0 c")
  then obtain ep l ch' where "c1 = c\<lparr>epoll := ep, loop := l, chan := Some ch'\<rparr>"
    by (rule on_channel_frame)
  with Some oc show ?thesis
    by (cases ok) (auto simp: requestWrite_def intro: keep close)
qed

lemma requestWrite_fields [simp]:
  "inputBuffer (requestWrite c) = inputBuffer c" "outputBuffer (requestWrite c) = outputBuffer c"
  "maxFrameLen (requestWrite c) = maxFrameLen c" "hardLimit (requestWrite c) = hardLimit c"
  "queuedFrameBytes (requestWrite c) = queuedFrameBytes c"
  "pendingBytesEstimate (requestWrite c) = pendingBytesEstimate c"
  by (rule requestWrite_cases [of c]; simp)+

lemma inputBuffer_sendInLoop: "sendInLoop msg c = Some c' \<Longrightarrow> inputBuffer c' = inputBuffer c"
  by (auto simp: sendInLoop_def Let_def updatePendingEstimate_def scheduleCloseInLoop_def bind_eq_Some_conv
      split: if_splits)

lemma inputBuffer_handleControlFrame:
  "handleControlFrame now p c = Some (r, c') \<Longrightarrow> inputBuffer c' = inputBuffer c"
  by (auto simp: handleControlFrame_def conn_send_def inputBuffer_sendInLoop split: if_splits)

text \<open>The inner loop of \<open>handleRead\<close>; the flag says that the handler returns (connection closed).\<close>

function parse_loop :: "int \<Rightarrow> tcp_conn \<Rightarrow> (bool \<times> tcp_conn) option" where
  "parse_loop now c =
     (case next_frame (maxFrameLen c) (inputBuffer c) of
        None \<Rightarrow> None
      | Some (NeedMore, b) \<Rightarrow> Some (False, c)
      | Some (Oversized, b) \<Rightarrow> Some (True, handleClose c)
      | Some (EmptyFrame, b) \<Rightarrow> parse_loop now (emit (MessageCallback []) (c\<lparr>inputBuffer := b\<rparr>))
      | Some (GotFrame p, b) \<Rightarrow>
          (case handleControlFrame now p (c\<lparr>inputBuffer := b\<rparr>) of
             None \<Rightarrow> None
           | Some (True, c') \<Rightarrow> parse_loop now c'
           | Some (False, c') \<Rightarrow>
               parse_loop now (emit (MessageCallback p) (c'\<lparr>lastActiveTime := now\<rparr>))))"
  by pat_completeness auto
termination
  by (relation "measure (\<lambda>(now, c). readableBytes (inputBuffer c))")
     (auto dest!: next_frame_shrinks inputBuffer_handleControlFrame)

declare parse_loop.simps [simp del]

text \<open>The outer loop over the results of \<open>readv\<close>; an exhausted list stands for \<open>EAGAIN\<close>.\<close>

fun handleRead :: "int \<Rightarrow> read_outcome list \<Rightarrow> tcp_conn \<Rightarrow> tcp_conn option" where
  "handleRead now [] c = Some c"
| "handleRead now (r # rs) c =
     (case readFd r (inputBuffer c) of
        (Inr n, b) \<Rightarrow>
          (case b of
             None \<Rightarrow> None
           | Some b' \<Rightarrow>
               if n > 0 then
                 (case parse_loop now (c\<lparr>inputBuffer := b'\<rparr>) of
                    None \<Rightarrow> None
                  | Some (True, c') \<Rightarrow> Some c'
                  | Some (False, c') \<Rightarrow> handleRead now rs c')
               else Some (handleClose (c\<lparr>inputBuffer := b'\<rparr>)))
      | (Inl e, b) \<Rightarrow>
          if e = EAGAIN \<or> e = EWOULDBLOCK then Some c
          else if e = EINTR then handleRead now rs c
          else Some (handleError c))"

subsection \<open>Set-up and heartbeat\<close>

text \<open>The three clock reads of \<open>startHeartbeat\<close> are taken as one.\<close>

definition startHeartbeat :: "int \<Rightarrow> tcp_conn \<Rightarrow> tcp_conn" where
  "startHeartbeat now c =
     emit (StartHeartbeat (heartbeatInterval c))
       (c\<lparr>lastPong := now, lastActiveTime := now, lastHeartbeatTime := now, heartbeatTimer := True\<rparr>)"

definition connectionEstablished :: "nat \<Rightarrow> int \<Rightarrow> tcp_conn \<Rightarrow> tcp_conn" where
  "connectionEstablished i now c =
     (let ch = channel_new i (conn_fd c) in
      case on_channel enableReading ch (c\<lparr>chan := Some ch\<rparr>) of
        (ok, c') \<Rightarrow> if ok then startHeartbeat now c' else handleClose c')"

text \<open>\<open>duration_cast<milliseconds>\<close> truncates toward zero.\<close>

definition to_ms :: "int \<Rightarrow> int" where
  "to_ms ns = (if ns \<ge> 0 then ns div 1000000 else - ((- ns) div 1000000))"

definition onHeartbeatTick :: "int \<Rightarrow> tcp_conn \<Rightarrow> tcp_conn option" where
  "onHeartbeatTick now c =
     (if to_ms (now - lastHeartbeatTime c) > heartbeatTimeout c then Some (handleClose c)
      else if to_ms (now - lastHeartbeatTime c) > heartbeatInterval c then conn_send True ''PING'' c
      else Some c)"

subsection \<open>Reserved frames\<close>

definition recordOverloadDrop :: "bool \<Rightarrow> tcp_conn \<Rightarrow> tcp_conn" where
  "recordOverloadDrop inLoop c =
     (let c1 = c\<lparr>droppedMessage := droppedMessage c + 1, overloadDropCount := overloadDropCount c + 1,
                isOverloaded := True\<rparr>
      in if overloadDropCount c1 \<ge> maxOverloadDropCount c1 then scheduleCloseInLoop inLoop c1 else c1)"

text \<open>
  \<open>tryReserveFrame\<close> retries a compare-and-swap; the turn that succeeds, from its loads to the swap,
  is one atomic step of the model.
\<close>

definition tryReserveFrame :: "bool \<Rightarrow> nat \<Rightarrow> tcp_conn \<Rightarrow> SendResult \<times> tcp_conn" where
  "tryReserveFrame inLoop n c =
     (if \<not> connected c then (Closed, c)
      else if pendingBytesEstimate c + queuedFrameBytes c + n > hardLimit c
      then (Overloaded, recordOverloadDrop inLoop c)
      else (SendOk, c\<lparr>queuedFrameBytes := queuedFrameBytes c + n\<rparr>))"

definition releaseReservedFrame :: "nat \<Rightarrow> tcp_conn \<Rightarrow> tcp_conn" where
  "releaseReservedFrame n c =
     c\<lparr>queuedFrameBytes := (if queuedFrameBytes c < n then 0 else queuedFrameBytes c - n)\<rparr>"

definition sendReservedFrameInLoop :: "outbound_frame option \<Rightarrow> tcp_conn \<Rightarrow> tcp_conn option" where
  "sendReservedFrameInLoop f c =
     (case f of
        None \<Rightarrow> Some c
      | Some f \<Rightarrow>
          if \<not> connected c then Some (releaseReservedFrame (frameBytes f) c)
          else do {
            b1 \<leftarrow> append_bytes (header f) (outputBuffer c);
            b2 \<leftarrow> append_bytes (payload f) b1;
            let c1 = releaseReservedFrame (frameBytes f) (updatePendingEstimate (c\<lparr>outputBuffer := b2\<rparr>));
            Some (requestWrite (markOverload (totalPendingEstimate c1 > highWaterMark c1) c1))
          })"

subsection \<open>No assertion fails, and the parser implements the specification\<close>

definition conn_ok :: "tcp_conn \<Rightarrow> bool" where
  "conn_ok c \<longleftrightarrow> buffer_ok (inputBuffer c) \<and> buffer_ok (outputBuffer c) \<and> maxFrameLen c + 4 < 2 ^ 32"

lemma unat_plus_4: "unat len + 4 < 2 ^ 32 \<Longrightarrow> unat (4 + len :: u32) = 4 + unat len"
  by (simp add: unat_word_ariths)

lemma word_eq_0_unat: "(w :: u32) = 0 \<longleftrightarrow> unat w = 0"
  by (simp add: unat_eq_0)

lemma next_frame_got:
  "4 \<le> readableBytes b \<Longrightarrow> peekUInt32 b = Some w \<Longrightarrow> w \<noteq> 0 \<Longrightarrow> unat w \<le> m \<Longrightarrow>
   unat (4 + w) \<le> readableBytes b \<Longrightarrow> unat w \<le> readableBytes (retrieve 4 b) \<Longrightarrow>
   next_frame m b =
     Some (GotFrame (take (unat w) (readable (retrieve 4 b))), retrieve (unat w) (retrieve 4 b))"
  by (simp add: next_frame_def retrieveUInt32_def retrieveAsString_readable linorder_not_less
      del: unat_word_ariths)

text \<open>One turn of the parser against one unfolding of the specification.\<close>

lemma next_frame_decode:
  assumes "buffer_ok b" "m + 4 < 2 ^ 32"
  obtains
    (NeedMore) "next_frame m b = Some (NeedMore, b)" "decode m (readable b) = ([], readable b, False)"
  | (Oversized) "next_frame m b = Some (Oversized, b)" "decode m (readable b) = ([], readable b, True)"
  | (Empty) b' where "next_frame m b = Some (EmptyFrame, b')" "buffer_ok b'"
      "decode m (readable b) = (case decode m (readable b') of (ps, r, bad) \<Rightarrow> ([] # ps, r, bad))"
  | (Got) p b' where "next_frame m b = Some (GotFrame p, b')" "buffer_ok b'" "p \<noteq> []"
      "decode m (readable b) = (case decode m (readable b') of (ps, r, bad) \<Rightarrow> (p # ps, r, bad))"
proof -
  let ?bs = "readable b" and ?n = "readableBytes b" and ?w = "of_be32 (take 4 (readable b))"
  note d = decode.simps [of m ?bs]
  consider "?n < 4" | "4 \<le> ?n" "?w = 0" | "4 \<le> ?n" "?w \<noteq> 0" "unat ?w > m"
    | "4 \<le> ?n" "?w \<noteq> 0" "unat ?w \<le> m" "?n < 4 + unat ?w"
    | "4 \<le> ?n" "?w \<noteq> 0" "unat ?w \<le> m" "4 + unat ?w \<le> ?n"
    by linarith
  then show ?thesis
  proof cases
    case 1
    with assms show ?thesis by (intro NeedMore) (auto simp: next_frame_def d)
  next
    case 2
    with assms show ?thesis
      by (intro Empty [of "retrieve 4 b"])
         (auto simp: next_frame_def buffer_simps retrieveUInt32_def d Let_def)
  next
    case 3
    with assms show ?thesis
      by (intro Oversized) (auto simp: next_frame_def buffer_simps d Let_def)
  next
    case 4
    with assms(2) have "unat (4 + ?w) = 4 + unat ?w" by (intro unat_plus_4) linarith
    with 4 assms show ?thesis
      by (intro NeedMore) (auto simp: next_frame_def buffer_simps d Let_def)
  next
    case 5
    with assms(2) have s: "unat (4 + ?w) = 4 + unat ?w" by (intro unat_plus_4) linarith
    have nz: "unat ?w \<noteq> 0" using 5 by (simp add: word_eq_0_unat)
    let ?p = "take (unat ?w) (drop 4 ?bs)" and ?b = "retrieve (unat ?w) (retrieve 4 b)"
    have r: "readable ?b = drop (4 + unat ?w) ?bs"
      using assms(1) by (simp add: readable_retrieve add.commute)
    have "peekUInt32 b = Some ?w"
      using 5 by (simp add: peekUInt32_readable)
    then have "next_frame m b = Some (GotFrame ?p, ?b)"
      using next_frame_got [of b ?w m] 5 s assms(1) by (simp add: readable_retrieve)
    moreover have "decode m ?bs = (case decode m (readable ?b) of (ps, r, bad) \<Rightarrow> (?p # ps, r, bad))"
      using 5 assms(1) by (simp add: d Let_def r)
    moreover have "?p \<noteq> []"
      using 5 nz assms(1) by (auto simp flip: length_0_conv)
    ultimately show ?thesis
      using assms(1) by (intro Got) auto
  qed
qed

subsection \<open>Everything but the parser is quiet\<close>

text \<open>
  \<open>quiet c c'\<close>: from \<open>c\<close> to \<open>c'\<close> no message was delivered, the input side and the limits are
  untouched, and the close callback ran exactly if the connection went from connected to closed.
\<close>

definition quiet :: "tcp_conn \<Rightarrow> tcp_conn \<Rightarrow> bool" where
  "quiet c c' \<longleftrightarrow>
     (\<exists>es. effects c' = effects c @ es \<and> payloads es = [] \<and>
           count_list es CloseCallback = (if connected c \<and> \<not> connected c' then 1 else 0)) \<and>
     (connected c' \<longrightarrow> connected c) \<and> inputBuffer c' = inputBuffer c \<and>
     maxFrameLen c' = maxFrameLen c \<and> hardLimit c' = hardLimit c"

lemma payloads_append [simp]: "payloads (es @ fs) = payloads es @ payloads fs"
  by (simp add: payloads_def)

lemma quiet_refl [simp, intro]: "quiet c c"
  by (simp add: quiet_def payloads_def)

lemma quiet_trans:
  assumes "quiet a b" "quiet b c"
  shows "quiet a c"
proof -
  from assms(1) obtain es where es: "effects b = effects a @ es" "payloads es = []"
    "count_list es CloseCallback = (if connected a \<and> \<not> connected b then 1 else 0)"
    unfolding quiet_def by blast
  from assms(2) obtain fs where fs: "effects c = effects b @ fs" "payloads fs = []"
    "count_list fs CloseCallback = (if connected b \<and> \<not> connected c then 1 else 0)"
    unfolding quiet_def by blast
  have "connected c \<longrightarrow> connected b" "connected b \<longrightarrow> connected a"
    using assms by (simp_all add: quiet_def)
  then have "count_list (es @ fs) CloseCallback = (if connected a \<and> \<not> connected c then 1 else 0)"
    using es(3) fs(3) by (cases "connected a"; cases "connected b"; cases "connected c") simp_all
  moreover have "effects c = effects a @ (es @ fs)" "payloads (es @ fs) = []"
    using es fs by simp_all
  ultimately have "\<exists>es. effects c = effects a @ es \<and> payloads es = [] \<and>
      count_list es CloseCallback = (if connected a \<and> \<not> connected c then 1 else 0)"
    by (intro exI [of _ "es @ fs"] conjI)
  moreover have "connected c \<longrightarrow> connected a" using \<open>connected c \<longrightarrow> connected b\<close> \<open>connected b \<longrightarrow> connected a\<close> by blast
  moreover have "inputBuffer c = inputBuffer a" "maxFrameLen c = maxFrameLen a" "hardLimit c = hardLimit a"
    using assms by (simp_all add: quiet_def)
  ultimately show ?thesis unfolding quiet_def by simp
qed

lemma quiet_handleClose [intro]: "quiet c (handleClose c)"
  by (rule handleClose_frame [of c]) (simp add: quiet_def)

lemma quiet_emit:
  "payloads [e] = [] \<Longrightarrow> e \<noteq> CloseCallback \<Longrightarrow> quiet c (emit e c)"
  by (simp add: quiet_def)

text \<open>Fields outside the ones \<open>quiet\<close> speaks of may be changed freely.\<close>

lemma quiet_sameI:
  "effects c' = effects c \<Longrightarrow> connected c' = connected c \<Longrightarrow> inputBuffer c' = inputBuffer c \<Longrightarrow>
   maxFrameLen c' = maxFrameLen c \<Longrightarrow> hardLimit c' = hardLimit c \<Longrightarrow> quiet c c'"
  by (simp add: quiet_def payloads_def)

lemma quiet_markOverload [intro]: "quiet c (markOverload a c)"
  by (simp add: quiet_def markOverload_def payloads_def emit_def)

lemma quiet_requestWrite [intro]: "quiet c (requestWrite c)"
proof (rule requestWrite_cases [of c])
  fix ep l ch
  let ?c = "c\<lparr>epoll := ep, loop := l, chan := ch\<rparr>"
  assume "requestWrite c = handleClose ?c"
  moreover have "quiet c ?c" by (rule quiet_sameI) simp_all
  ultimately show ?thesis using quiet_trans [OF _ quiet_handleClose, of c ?c] by simp
qed (auto intro: quiet_sameI)

text \<open>What \<open>sendInLoop\<close> does, on every path.\<close>

definition send_refused :: "string \<Rightarrow> tcp_conn \<Rightarrow> bool" where
  "send_refused msg c \<longleftrightarrow> \<not> connected c \<or> chan c = None \<or> length msg > maxFrameLen c"

lemma unat_len32:
  assumes "length msg \<le> maxFrameLen c" "conn_ok c"
  shows "unat (word_of_nat (length msg) :: u32) = length msg"
    and "unat (4 + word_of_nat (length msg) :: u32) = 4 + length msg"
proof -
  show l: "unat (word_of_nat (length msg) :: u32) = length msg"
    using assms by (simp add: conn_ok_def unsigned_of_nat take_bit_nat_eq_self)
  show "unat (4 + word_of_nat (length msg) :: u32) = 4 + length msg"
    using assms by (subst unat_plus_4) (simp_all add: l conn_ok_def)
qed

lemma sendInLoop_accept:
  assumes "conn_ok c" "connected c" "chan c \<noteq> None" "length msg \<le> maxFrameLen c"
    "canAccept (4 + length msg) c"
  obtains c' where "sendInLoop msg c = Some c'" "quiet c c'" "buffer_ok (outputBuffer c')"
    "readable (outputBuffer c') = readable (outputBuffer c) @ frame msg"
    "pendingBytesEstimate c' = readableBytes (outputBuffer c')" "queuedFrameBytes c' = queuedFrameBytes c"
proof -
  let ?len = "word_of_nat (length msg) :: u32"
  note u = unat_len32 [OF assms(4,1)]
  obtain b1 b2 where b: "append_bytes (be32 ?len) (outputBuffer c) = Some b1"
    "append_bytes msg b1 = Some b2" "buffer_ok b2"
    "readable b2 = readable (outputBuffer c) @ be32 ?len @ msg"
    using assms(1) unfolding conn_ok_def by (metis buffer_queue.push_two)
  let ?c1 = "updatePendingEstimate (c\<lparr>outputBuffer := b2\<rparr>)"
  let ?c2 = "markOverload (pendingBytesEstimate ?c1 \<ge> highWaterMark ?c1) ?c1"
  from assms(3) obtain ch where "chan c = Some ch" by blast
  then have "sendInLoop msg c = Some (requestWrite ?c2)"
    using assms(2,4,5) b(1,2) u
    by (simp add: sendInLoop_def appendUint32_def Let_def linorder_not_less del: updatePendingEstimate_fields)
  moreover have "quiet c (requestWrite ?c2)"
    by (rule quiet_trans [OF quiet_trans [OF quiet_sameI quiet_markOverload] quiet_requestWrite]) simp_all
  ultimately show ?thesis
    by (rule that [of "requestWrite ?c2"]) (simp_all add: frame_def b(3,4))
qed

lemma quiet_maxFrameLen: "quiet c c' \<Longrightarrow> maxFrameLen c' = maxFrameLen c"
  by (simp add: quiet_def)

lemma quiet_inputBuffer: "quiet c c' \<Longrightarrow> inputBuffer c' = inputBuffer c"
  by (simp add: quiet_def)

lemma quiet_delivered: "quiet c c' \<Longrightarrow> delivered c' = delivered c"
  by (auto simp: quiet_def delivered_def)

lemma conn_ok_quiet: "quiet c c' \<Longrightarrow> conn_ok c \<Longrightarrow> buffer_ok (outputBuffer c') \<Longrightarrow> conn_ok c'"
  by (simp add: conn_ok_def quiet_def)

text \<open>The three ways through \<open>sendInLoop\<close>, for any message.\<close>

lemma sendInLoop_cases:
  fixes msg :: string and c :: tcp_conn
  defines "len \<equiv> word_of_nat (length msg) :: u32"
    and "d \<equiv> c\<lparr>droppedMessage := droppedMessage c + 1, overloadDropCount := overloadDropCount c + 1\<rparr>"
  assumes "conn_ok c"
  obtains (same) "sendInLoop msg c = Some c"
    | (dropped) c' where "sendInLoop msg c = Some c'" "c' = d \<or> c' = handleClose d"
    | (taken) b2 where "sendInLoop msg c =
         Some (let c1 = updatePendingEstimate (c\<lparr>outputBuffer := b2\<rparr>) in
               requestWrite (markOverload (pendingBytesEstimate c1 \<ge> highWaterMark c1) c1))"
        "buffer_ok b2" "readable b2 = readable (outputBuffer c) @ be32 len @ take (unat len) msg"
        "pendingBytes c + 4 + unat len \<le> hardLimit c"
proof -
  consider "\<not> connected c \<or> chan c = None \<or> unat len > maxFrameLen c"
    | "connected c" "chan c \<noteq> None" "unat len \<le> maxFrameLen c" "\<not> canAccept (unat (4 + len)) c"
    | "connected c" "chan c \<noteq> None" "unat len \<le> maxFrameLen c" "canAccept (unat (4 + len)) c"
    by force
  then show ?thesis
  proof cases
    case 1
    then show ?thesis by (intro same) (auto simp: sendInLoop_def Let_def len_def)
  next
    case 2
    then show ?thesis
      by (intro dropped [of "if overloadDropCount d \<ge> maxOverloadDropCount d then handleClose d else d"])
         (auto simp: sendInLoop_def Let_def scheduleCloseInLoop_def len_def d_def)
  next
    case 3
    obtain b1 b2 where b: "append_bytes (be32 len) (outputBuffer c) = Some b1"
      "append_bytes (take (unat len) msg) b1 = Some b2" "buffer_ok b2"
      "readable b2 = readable (outputBuffer c) @ be32 len @ take (unat len) msg"
      using assms(3) unfolding conn_ok_def by (metis buffer_queue.push_two)
    have "unat (4 + len) = 4 + unat len"
      by (rule unat_plus_4) (use 3(3) assms(3) in \<open>simp add: conn_ok_def\<close>)
    then have "pendingBytes c + 4 + unat len \<le> hardLimit c" using 3(4) by (simp add: canAccept_def)
    moreover have "sendInLoop msg c =
         Some (let c1 = updatePendingEstimate (c\<lparr>outputBuffer := b2\<rparr>) in
               requestWrite (markOverload (pendingBytesEstimate c1 \<ge> highWaterMark c1) c1))"
      using 3 b(1,2)
      by (auto simp: sendInLoop_def appendUint32_def Let_def len_def simp del: updatePendingEstimate_fields)
    ultimately show ?thesis using b(3,4) by (intro taken [of b2])
  qed
qed

text \<open>No send ever trips an assertion, whatever the message and the state of the connection.\<close>

lemma sendInLoop_total:
  assumes "conn_ok c"
  obtains c' where "sendInLoop msg c = Some c'" "quiet c c'" "conn_ok c'"
  using assms
proof (cases rule: sendInLoop_cases [where c = c and msg = msg])
  case (dropped c')
  let ?d = "c\<lparr>droppedMessage := droppedMessage c + 1, overloadDropCount := overloadDropCount c + 1\<rparr>"
  have "quiet c ?d" by (rule quiet_sameI) simp_all
  then have "quiet c c'" using dropped(2) quiet_trans [OF _ quiet_handleClose, of c ?d] by auto
  moreover have "buffer_ok (outputBuffer c')" using assms dropped(2) by (auto simp: conn_ok_def)
  ultimately show ?thesis using dropped(1) by (intro that [of c'] conn_ok_quiet [OF _ assms])
next
  case (taken b2)
  let ?c1 = "updatePendingEstimate (c\<lparr>outputBuffer := b2\<rparr>)"
  let ?c' = "requestWrite (markOverload (pendingBytesEstimate ?c1 \<ge> highWaterMark ?c1) ?c1)"
  have "quiet c ?c'"
    by (rule quiet_trans [OF quiet_trans [OF quiet_sameI quiet_markOverload] quiet_requestWrite]) simp_all
  moreover have "buffer_ok (outputBuffer ?c')" using taken(2) by simp
  ultimately show ?thesis using taken(1) unfolding Let_def by (intro that [of ?c'] conn_ok_quiet [OF _ assms])
qed (use assms that in auto)

lemma conn_send_total:
  assumes "conn_ok c"
  obtains c' where "conn_send inLoop msg c = Some c'" "quiet c c'" "conn_ok c'"
proof (cases "connected c \<and> inLoop")
  case True
  with assms sendInLoop_total [OF assms, of msg] that show ?thesis by (auto simp: conn_send_def)
next
  case False
  let ?c' = "if connected c then emit (QueueSend msg) c else c"
  have "quiet c ?c'" by (simp add: quiet_emit payloads_def)
  with False assms that [of ?c'] show ?thesis by (auto simp: conn_send_def conn_ok_def)
qed

definition is_control :: "string \<Rightarrow> bool" where
  "is_control p \<longleftrightarrow> p = ''PING'' \<or> p = ''PONG''"

lemma handleControlFrame_spec:
  assumes "conn_ok c"
  obtains c' where "handleControlFrame now p c = Some (is_control p, c')" "quiet c c'" "conn_ok c'"
    "\<not> is_control p \<longrightarrow> c' = c"
proof (cases "p = ''PING''")
  case True
  obtain c' where "conn_send True ''PONG'' c = Some c'" "quiet c c'" "conn_ok c'"
    using assms by (rule conn_send_total)
  with True show ?thesis by (intro that [of c']) (simp_all add: handleControlFrame_def is_control_def)
next
  case False
  let ?c' = "if p = ''PONG'' then c\<lparr>lastHeartbeatTime := now\<rparr> else c"
  have "quiet c ?c'" by (rule quiet_sameI) simp_all
  then show ?thesis using False assms
    by (intro that [of ?c']) (simp_all add: handleControlFrame_def is_control_def conn_ok_def)
qed

text \<open>
  The parser loop consumes exactly what the specification decodes, hands exactly the payloads that
  are not control frames to the message callback, and closes exactly on an oversized length.
\<close>

definition app_payloads :: "string list \<Rightarrow> string list" where
  "app_payloads ps = filter (\<lambda>p. \<not> is_control p) ps"

lemma app_payloads_simps [simp]:
  "app_payloads [] = []" "app_payloads (ps @ qs) = app_payloads ps @ app_payloads qs"
  "app_payloads (p # ps) = (if is_control p then app_payloads ps else p # app_payloads ps)"
  by (simp_all add: app_payloads_def)

definition parsed :: "tcp_conn \<Rightarrow> string list \<Rightarrow> string \<Rightarrow> tcp_conn \<Rightarrow> bool" where
  "parsed c ps r c' \<longleftrightarrow>
     conn_ok c' \<and> maxFrameLen c' = maxFrameLen c \<and> readable (inputBuffer c') = r \<and>
     delivered c' = delivered c @ app_payloads ps"

lemma parsed_refl: "conn_ok c \<Longrightarrow> parsed c [] (readable (inputBuffer c)) c"
  by (simp add: parsed_def)

lemma parsed_handleClose: "parsed c ps r c' \<Longrightarrow> parsed c ps r (handleClose c')"
  using quiet_delivered [OF quiet_handleClose, of c'] by (simp add: parsed_def conn_ok_def)

lemma parsed_step:
  assumes "parsed c1 ps r c'" "maxFrameLen c1 = maxFrameLen c"
    "delivered c1 = delivered c @ app_payloads qs"
  shows "parsed c (qs @ ps) r c'"
  using assms by (simp add: parsed_def)

lemma delivered_emit [simp]: "delivered (emit (MessageCallback p) c) = delivered c @ [p]"
  by (simp add: delivered_def payloads_def)

lemma is_control_nonempty [simp]: "\<not> is_control []"
  by (simp add: is_control_def)

lemma parse_loop_spec:
  assumes "conn_ok c" "decode (maxFrameLen c) (readable (inputBuffer c)) = (ps, r, bad)"
  shows "\<exists>c'. parse_loop now c = Some (bad, c') \<and> parsed c ps r c' \<and> (bad \<longrightarrow> \<not> connected c')"
  using assms
proof (induction now c arbitrary: ps rule: parse_loop.induct)
  case (1 now c)
  let ?m = "maxFrameLen c" and ?b = "inputBuffer c"
  note pl = parse_loop.simps [of now c]
  from "1.prems"(1) have "buffer_ok ?b" "?m + 4 < 2 ^ 32" by (simp_all add: conn_ok_def)
  then show ?case
  proof (cases rule: next_frame_decode)
    case NeedMore
    with "1.prems" show ?thesis using parsed_refl [of c] by (auto simp: pl)
  next
    case Oversized
    with "1.prems" show ?thesis
      using parsed_handleClose [OF parsed_refl [of c]] by (auto simp: pl)
  next
    case (Empty b')
    let ?c = "emit (MessageCallback []) (c\<lparr>inputBuffer := b'\<rparr>)"
    from Empty(3) "1.prems"(2) obtain ps' where ps: "ps = [] # ps'" "decode ?m (readable b') = (ps', r, bad)"
      by (auto split: prod.splits)
    have ok: "conn_ok ?c" using "1.prems"(1) Empty(2) by (simp add: conn_ok_def)
    have "\<exists>c'. parse_loop now ?c = Some (bad, c') \<and> parsed ?c ps' r c' \<and> (bad \<longrightarrow> \<not> connected c')"
      using "1.IH"(1) [OF Empty(1) refl refl ok] ps(2) by simp
    moreover have "parse_loop now c = parse_loop now ?c" using Empty(1) by (simp add: pl)
    moreover have "maxFrameLen ?c = ?m" "delivered ?c = delivered c @ app_payloads [[]]"
      by (simp_all add: delivered_def payloads_def emit_def)
    ultimately show ?thesis using parsed_step [of ?c _ _ _ c "[[]]"] ps(1) by auto
  next
    case (Got p b')
    let ?c = "c\<lparr>inputBuffer := b'\<rparr>"
    from Got(4) "1.prems"(2) obtain ps' where ps: "ps = p # ps'" "decode ?m (readable b') = (ps', r, bad)"
      by (auto split: prod.splits)
    have ok: "conn_ok ?c" using "1.prems"(1) Got(2) by (simp add: conn_ok_def)
    then obtain c1 where c1: "handleControlFrame now p ?c = Some (is_control p, c1)" "quiet ?c c1" "conn_ok c1"
      "\<not> is_control p \<longrightarrow> c1 = ?c"
      by (rule handleControlFrame_spec)
    let ?c2 = "if is_control p then c1 else emit (MessageCallback p) (c1\<lparr>lastActiveTime := now\<rparr>)"
    have ok2: "conn_ok ?c2" using c1(3) by (simp add: conn_ok_def)
    have same: "maxFrameLen ?c2 = ?m" "inputBuffer ?c2 = b'"
      using quiet_maxFrameLen [OF c1(2)] quiet_inputBuffer [OF c1(2)] by simp_all
    have "delivered c1 = delivered c"
      using quiet_delivered [OF c1(2)] by (simp add: delivered_def)
    then have del: "delivered ?c2 = delivered c @ app_payloads [p]"
      by (simp add: delivered_def payloads_def emit_def)
    have "\<exists>c'. parse_loop now ?c2 = Some (bad, c') \<and> parsed ?c2 ps' r c' \<and> (bad \<longrightarrow> \<not> connected c')"
    proof (cases "is_control p")
      case True
      with c1(1) have hc: "handleControlFrame now p ?c = Some (True, c1)" by simp
      show ?thesis
        using "1.IH"(2) [OF Got(1) refl refl hc refl refl] ok2 ps(2) same True by simp
    next
      case False
      with c1(1) have hc: "handleControlFrame now p ?c = Some (False, c1)" by simp
      show ?thesis
        using "1.IH"(3) [OF Got(1) refl refl hc refl refl] ok2 ps(2) same False by simp
    qed
    moreover have "parse_loop now c = parse_loop now ?c2"
      using Got(1) c1(1) by (simp add: pl split: bool.splits)
    ultimately show ?thesis
      using parsed_step [OF _ same(1) del] ps(1) by auto
  qed
qed

subsection \<open>Reading a stream in pieces\<close>

text \<open>The reads of a healthy socket: data (never empty) or a signal. \<open>stream\<close> is what they carry.\<close>

fun live_read :: "read_outcome \<Rightarrow> bool" where
  "live_read (ReadBytes xs) \<longleftrightarrow> xs \<noteq> []"
| "live_read (ReadError e) \<longleftrightarrow> e = EINTR"

fun stream :: "read_outcome list \<Rightarrow> string" where
  "stream [] = []"
| "stream (ReadBytes xs # rs) = xs @ stream rs"
| "stream (ReadError e # rs) = stream rs"

text \<open>Between two reads the input buffer holds no complete frame.\<close>

definition input_idle :: "tcp_conn \<Rightarrow> bool" where
  "input_idle c \<longleftrightarrow>
     decode (maxFrameLen c) (readable (inputBuffer c)) = ([], readable (inputBuffer c), False)"

lemma handleRead_stream:
  assumes "conn_ok c" "input_idle c" "list_all live_read rs"
    "decode (maxFrameLen c) (readable (inputBuffer c) @ stream rs) = (ps, r, bad)"
  shows "\<exists>c'. handleRead now rs c = Some c' \<and> conn_ok c' \<and> maxFrameLen c' = maxFrameLen c \<and>
    delivered c' = delivered c @ app_payloads ps \<and>
    (if bad then \<not> connected c' else readable (inputBuffer c') = r \<and> input_idle c')"
  using assms
proof (induction rs arbitrary: c ps)
  case Nil
  then show ?case by (simp add: input_idle_def)
next
  case (Cons x rs)
  show ?case
  proof (cases x)
    case (ReadError e)
    with Cons.prems Cons.IH [of c ps] show ?thesis by (simp add: readFd_def)
  next
    case (ReadBytes xs)
    let ?m = "maxFrameLen c" and ?in = "readable (inputBuffer c)"
    have xs: "xs \<noteq> []" using Cons.prems(3) ReadBytes by simp
    obtain b' where b': "readFd (ReadBytes xs) (inputBuffer c) = (Inr (length xs), Some b')"
      "buffer_ok b'" "readable b' = ?in @ xs"
      using Cons.prems(1) unfolding conn_ok_def by (metis readFd_spec)
    let ?c = "c\<lparr>inputBuffer := b'\<rparr>"
    obtain ps1 r1 bad1 where d1: "decode ?m (?in @ xs) = (ps1, r1, bad1)" by (cases "decode ?m (?in @ xs)")
    have "conn_ok ?c" using Cons.prems(1) b'(2) by (simp add: conn_ok_def)
    then obtain c1 where c1: "parse_loop now ?c = Some (bad1, c1)" "parsed ?c ps1 r1 c1" "bad1 \<longrightarrow> \<not> connected c1"
      using parse_loop_spec [of ?c ps1 r1 bad1 now] d1 b'(3) by auto
    have hr: "handleRead now (x # rs) c = (if bad1 then Some c1 else handleRead now rs c1)"
      using ReadBytes b'(1) c1(1) xs by (simp split: bool.splits)
    have del: "delivered c1 = delivered c @ app_payloads ps1" and p1: "conn_ok c1" "maxFrameLen c1 = ?m"
      "readable (inputBuffer c1) = r1"
      using c1(2) by (simp_all add: parsed_def delivered_def)
    have da: "decode ?m ((?in @ xs) @ stream rs) = (ps, r, bad)"
      using Cons.prems(4) ReadBytes by simp
    show ?thesis
    proof (cases bad1)
      case True
      with d1 have "decode ?m ((?in @ xs) @ stream rs) = (ps1, r1 @ stream rs, True)"
        by (intro decode_append_bad) simp
      with da have "bad" "ps = ps1" by simp_all
      with True hr c1(3) del p1 show ?thesis by simp
    next
      case False
      with d1 have "decode ?m (?in @ xs) = (ps1, r1, False)" by simp
      from decode_append_good [OF this, of "stream rs"] da
      obtain qs where qs: "decode ?m (r1 @ stream rs) = (qs, r, bad)" "ps = ps1 @ qs"
        by (auto split: prod.splits)
      have "input_idle c1"
        using decode_rest_idle d1 False p1 by (auto simp: input_idle_def)
      then show ?thesis
        using Cons.IH [of c1 qs] Cons.prems(3) qs p1 del False hr by auto
    qed
  qed
qed

text \<open>Several readiness events, each with its own time and its own reads.\<close>

fun read_events :: "(int \<times> read_outcome list) list \<Rightarrow> tcp_conn \<Rightarrow> tcp_conn option" where
  "read_events [] c = Some c"
| "read_events ((now, rs) # evs) c = Option.bind (handleRead now rs c) (read_events evs)"

lemma read_events_stream:
  assumes "conn_ok c" "input_idle c" "list_all (\<lambda>(now, rs). list_all live_read rs) evs"
    "decode (maxFrameLen c) (readable (inputBuffer c) @ concat (map (\<lambda>(now, rs). stream rs) evs)) = (ps, r, False)"
  shows "\<exists>c'. read_events evs c = Some c' \<and> delivered c' = delivered c @ app_payloads ps \<and>
    readable (inputBuffer c') = r"
  using assms
proof (induction evs arbitrary: c ps)
  case Nil
  then show ?case by (simp add: input_idle_def)
next
  case (Cons ev evs)
  obtain now rs where ev: "ev = (now, rs)" by (cases ev)
  let ?m = "maxFrameLen c" and ?in = "readable (inputBuffer c)" and ?cs = "concat (map (\<lambda>(now, rs). stream rs) evs)"
  obtain ps1 r1 bad1 where d1: "decode ?m (?in @ stream rs) = (ps1, r1, bad1)"
    by (cases "decode ?m (?in @ stream rs)")
  have da: "decode ?m ((?in @ stream rs) @ ?cs) = (ps, r, False)" using Cons.prems(4) ev by simp
  have nb: "\<not> bad1"
  proof
    assume bad1
    with d1 have "decode ?m (?in @ stream rs) = (ps1, r1, True)" by simp
    from decode_append_bad [OF this, of ?cs] da show False by simp
  qed
  with d1 have "decode ?m (?in @ stream rs) = (ps1, r1, False)" by simp
  from decode_append_good [OF this, of ?cs] da
  obtain qs where qs: "decode ?m (r1 @ ?cs) = (qs, r, False)" "ps = ps1 @ qs"
    by (auto split: prod.splits)
  obtain c1 where c1: "handleRead now rs c = Some c1" "conn_ok c1" "maxFrameLen c1 = ?m"
    "delivered c1 = delivered c @ app_payloads ps1" "readable (inputBuffer c1) = r1" "input_idle c1"
    using handleRead_stream [OF Cons.prems(1,2), of rs ps1 r1 bad1 now] Cons.prems(3) ev d1 nb by auto
  with Cons.IH [of c1 qs] Cons.prems(3) qs ev show ?case by auto
qed

subsection \<open>Writing\<close>

text \<open>What every operation that only moves bytes or closes has in common.\<close>

definition steady :: "tcp_conn \<Rightarrow> tcp_conn \<Rightarrow> bool" where
  "steady c c' \<longleftrightarrow> quiet c c' \<and> queuedFrameBytes c' = queuedFrameBytes c \<and>
     (conn_ok c \<longrightarrow> conn_ok c') \<and>
     (pendingBytesEstimate c = pendingBytes c \<longrightarrow> pendingBytesEstimate c' = pendingBytes c')"

lemma steady_refl [simp]: "steady c c"
  by (simp add: steady_def)

lemma steady_trans: "steady a b \<Longrightarrow> steady b c \<Longrightarrow> steady a c"
  by (auto simp: steady_def intro: quiet_trans)

lemma steady_handleClose [simp]: "steady c (handleClose c)"
  by (auto simp: steady_def conn_ok_def pendingBytes_def)

lemma steady_sameI:
  "effects c' = effects c \<Longrightarrow> connected c' = connected c \<Longrightarrow> inputBuffer c' = inputBuffer c \<Longrightarrow>
   outputBuffer c' = outputBuffer c \<Longrightarrow> queuedFrameBytes c' = queuedFrameBytes c \<Longrightarrow>
   pendingBytesEstimate c' = pendingBytesEstimate c \<Longrightarrow>
   maxFrameLen c' = maxFrameLen c \<Longrightarrow> hardLimit c' = hardLimit c \<Longrightarrow> steady c c'"
  by (simp add: steady_def conn_ok_def pendingBytes_def quiet_sameI)

lemma on_channel_steady: "on_channel f ch c = (ok, c') \<Longrightarrow> steady c c' \<and> outputBuffer c' = outputBuffer c"
  by (erule on_channel_frame) (simp add: steady_sameI)

lemma stopWriting_steady: "steady c (stopWriting c) \<and> outputBuffer (stopWriting c) = outputBuffer c"
proof (cases "chan c")
  case (Some ch)
  obtain ok c' where oc: "on_channel disableWriting ch c = (ok, c')"
    by (cases "on_channel disableWriting ch c")
  from on_channel_steady [OF oc] oc Some show ?thesis
    by (auto simp: stopWriting_def intro: steady_trans)
qed (simp add: stopWriting_def)

lemma sentBytes_outputBuffer [simp]: "outputBuffer (sentBytes n c) = retrieve n (outputBuffer c)"
  by (simp add: sentBytes_def Let_def)

lemma sentBytes_steady: "steady c (sentBytes n c)"
proof -
  let ?c1 = "updatePendingEstimate (c\<lparr>outputBuffer := retrieve n (outputBuffer c)\<rparr>)"
  have "quiet c (sentBytes n c)"
    by (simp add: sentBytes_def Let_def quiet_def payloads_def updatePendingEstimate_def emit_def)
  then show ?thesis
    by (auto simp: steady_def sentBytes_def Let_def conn_ok_def pendingBytes_def)
qed

lemma handleWrite_steady:
  "handleWrite rs c = (w, c') \<Longrightarrow> conn_ok c \<Longrightarrow>
   steady c c' \<and> w @ readable (outputBuffer c') = readable (outputBuffer c)"
proof (induction rs arbitrary: c w)
  case (Cons r rs)
  show ?case
  proof (cases "readableBytes (outputBuffer c) = 0")
    case False
    note ne = this
    show ?thesis
    proof (cases r)
      case (SendError e)
      with Cons ne show ?thesis by (auto simp: handleError_def split: if_splits)
    next
      case (SendCount n)
      let ?c1 = "stopWriting (if n > 0 then sentBytes n c else c)"
      have c1: "steady c ?c1" "outputBuffer ?c1 = (if n > 0 then retrieve n (outputBuffer c) else outputBuffer c)"
        using steady_trans [OF sentBytes_steady, of n c "stopWriting (sentBytes n c)"] stopWriting_steady
        by simp_all
      then have ok: "conn_ok ?c1" "buffer_ok (outputBuffer c)"
        using Cons.prems(2) by (simp_all add: steady_def conn_ok_def)
      obtain w1 where w1: "handleWrite rs ?c1 = (w1, c')"
        "w = (if n > 0 then take n (readable (outputBuffer c)) else []) @ w1"
        using Cons.prems(1) SendCount ne by (auto split: prod.splits if_splits)
      have "steady ?c1 c'" "w1 @ readable (outputBuffer c') = readable (outputBuffer ?c1)"
        using Cons.IH [OF w1(1) ok(1)] by simp_all
      then show ?thesis
        using c1 w1(2) ok(2) by (auto intro: steady_trans simp: readable_retrieve)
    qed
  qed (use Cons.prems in simp)
qed simp

end
