(* ===== verification/ConnSystem.thy ===== *)
theory ConnSystem
  imports TcpConnection
begin

text \<open>
  The connection as a system: every operation of \<open>TcpConnection\<close> as a step, in any order, with the
  frames the server has reserved on it in flight between the two loops. The invariant gives the
  close-once and backpressure properties; the last part states the end-to-end properties of the
  byte stream in both directions.
\<close>

subsection \<open>All operations as a transition system\<close>

text \<open>
  A state is the connection and the sizes of the frames that were reserved on it and have neither
  been appended nor released yet: \<open>TcpServer\<close> reserves in the base loop and hands the frame to the
  connection's own loop, so any operation can happen in between.
\<close>

type_synonym conn_state = "tcp_conn \<times> nat list"

inductive conn_step :: "conn_state \<Rightarrow> conn_state \<Rightarrow> bool" where
  established: "conn_step (c, fl) (connectionEstablished i now c, fl)"
| read: "handleRead now rs c = Some c' \<Longrightarrow> conn_step (c, fl) (c', fl)"
| "write": "handleWrite rs c = (w, c') \<Longrightarrow> conn_step (c, fl) (c', fl)"
| close: "conn_step (c, fl) (handleClose c, fl)"
| error: "conn_step (c, fl) (handleError c, fl)"
| force: "conn_step (c, fl) (forceClose inLoop c, fl)"
| destroy: "conn_step (c, fl) (connectionDestroyed c, fl)"
| send: "conn_send inLoop msg c = Some c' \<Longrightarrow> conn_step (c, fl) (c', fl)"
| queued_send: "sendInLoop msg c = Some c' \<Longrightarrow> conn_step (c, fl) (c', fl)"
| tick: "onHeartbeatTick now c = Some c' \<Longrightarrow> conn_step (c, fl) (c', fl)"
| reserve: "tryReserveFrame inLoop n c = (r, c') \<Longrightarrow>
    conn_step (c, fl) (c', if r = SendOk then n # fl else fl)"
| reserved_send: "create_frame p m = Some f \<Longrightarrow> frameBytes f \<in> set fl \<Longrightarrow>
    sendReservedFrameInLoop (Some f) c = Some c' \<Longrightarrow> conn_step (c, fl) (c', remove1 (frameBytes f) fl)"
| release: "n \<in> set fl \<Longrightarrow> conn_step (c, fl) (releaseReservedFrame n c, remove1 n fl)"

text \<open>
  The invariant. The close callback runs exactly when the connection stops being connected; the
  reservation counter is the sum of what is in flight; the estimate read by the other thread is the
  real backlog; and the backlog is bounded by twice the hard limit.
\<close>

definition conn_inv :: "conn_state \<Rightarrow> bool" where
  "conn_inv = (\<lambda>(c, fl). conn_ok c \<and>
     count_list (effects c) CloseCallback = (if connected c then 0 else 1) \<and>
     queuedFrameBytes c = sum_list fl \<and> pendingBytesEstimate c = pendingBytes c \<and>
     queuedFrameBytes c \<le> hardLimit c \<and> pendingBytes c + queuedFrameBytes c \<le> 2 * hardLimit c)"

text \<open>
  \<open>calm c c'\<close>: what every operation but a reservation has in common. Delivering messages is
  allowed; adding to the backlog is allowed up to the hard limit.
\<close>

abbreviation closes :: "tcp_conn \<Rightarrow> nat" where
  "closes c \<equiv> count_list (effects c) CloseCallback"

definition calm :: "tcp_conn \<Rightarrow> tcp_conn \<Rightarrow> bool" where
  "calm c c' \<longleftrightarrow>
     closes c' = closes c + (if connected c \<and> \<not> connected c' then 1 else 0) \<and>
     (connected c' \<longrightarrow> connected c) \<and> hardLimit c' = hardLimit c \<and>
     queuedFrameBytes c' = queuedFrameBytes c \<and> (conn_ok c \<longrightarrow> conn_ok c') \<and>
     (pendingBytesEstimate c = pendingBytes c \<longrightarrow> pendingBytesEstimate c' = pendingBytes c') \<and>
     pendingBytes c' \<le> max (pendingBytes c) (hardLimit c)"

lemma calm_refl [simp]: "calm c c"
  by (simp add: calm_def)

lemma calm_trans:
  assumes "calm a b" "calm b c" shows "calm a c"
proof -
  have "pendingBytes b \<le> max (pendingBytes a) (hardLimit a)"
    "pendingBytes c \<le> max (pendingBytes b) (hardLimit a)"
    using assms by (simp_all add: calm_def)
  then have "pendingBytes c \<le> max (pendingBytes a) (hardLimit a)" by linarith
  moreover have "closes c = closes a + (if connected a \<and> \<not> connected c then 1 else 0)"
    using assms unfolding calm_def by (cases "connected a"; cases "connected b"; cases "connected c") simp_all
  ultimately show ?thesis using assms by (simp add: calm_def)
qed

lemma steady_calm:
  assumes "steady c c'" "pendingBytes c' \<le> max (pendingBytes c) (hardLimit c)" shows "calm c c'"
proof -
  have "closes c' = closes c + (if connected c \<and> \<not> connected c' then 1 else 0)"
    using assms(1) by (auto simp: steady_def quiet_def)
  with assms show ?thesis by (simp add: calm_def steady_def quiet_def)
qed

lemma conn_inv_calm: "conn_inv (c, fl) \<Longrightarrow> calm c c' \<Longrightarrow> conn_inv (c', fl)"
  unfolding conn_inv_def calm_def by (cases "connected c"; cases "connected c'") auto

lemma calm_sameI:
  "closes c' = closes c \<Longrightarrow> connected c' = connected c \<Longrightarrow> hardLimit c' = hardLimit c \<Longrightarrow>
   queuedFrameBytes c' = queuedFrameBytes c \<Longrightarrow> outputBuffer c' = outputBuffer c \<Longrightarrow>
   pendingBytesEstimate c' = pendingBytesEstimate c \<Longrightarrow> (conn_ok c \<Longrightarrow> conn_ok c') \<Longrightarrow> calm c c'"
  by (auto simp: calm_def pendingBytes_def)

lemma calm_handleClose [simp]: "calm c (handleClose c)"
  by (intro steady_calm) (simp_all add: pendingBytes_def)

lemma calm_emit: "e \<noteq> CloseCallback \<Longrightarrow> calm c (emit e c)"
  by (intro calm_sameI) (simp_all add: conn_ok_def)

lemma calm_on_channel: "on_channel f ch c = (ok, c') \<Longrightarrow> calm c c'"
  using on_channel_steady [of f ch c ok c'] by (auto intro!: steady_calm simp: pendingBytes_def)

lemma calm_scheduleCloseInLoop: "calm c (scheduleCloseInLoop inLoop c)"
  by (simp add: scheduleCloseInLoop_def calm_emit)

lemma calm_forceClose: "calm c (forceClose inLoop c)"
proof -
  have "connected c \<Longrightarrow> calm c (emit CloseCallback (c\<lparr>connected := False\<rparr>))"
    by (simp add: calm_def pendingBytes_def conn_ok_def)
  then show ?thesis by (simp add: forceClose_def forceCloseInLoop_def calm_emit)
qed

lemma calm_closeFd: "calm c (closeFd c)"
  by (auto simp: closeFd_def conn_ok_def intro: calm_sameI)

lemma calm_connectionDestroyed: "calm c (connectionDestroyed c)"
proof (cases "chan c")
  case (Some ch)
  obtain ok c1 where oc: "on_channel removeChannel (disableAll ch) c = (ok, c1)"
    by (cases "on_channel removeChannel (disableAll ch) c")
  from calm_on_channel [OF oc] have "calm c (closeFd c1)" by (rule calm_trans) (rule calm_closeFd)
  with Some oc show ?thesis by (simp add: connectionDestroyed_def calm_closeFd)
qed (simp add: connectionDestroyed_def calm_closeFd)

lemma calm_connectionEstablished: "calm c (connectionEstablished i now c)"
proof -
  let ?ch = "channel_new i (conn_fd c)"
  let ?c0 = "c\<lparr>chan := Some ?ch\<rparr>"
  obtain ok c1 where oc: "on_channel enableReading ?ch ?c0 = (ok, c1)"
    by (cases "on_channel enableReading ?ch ?c0")
  have "calm c ?c0" by (intro calm_sameI) (simp_all add: conn_ok_def)
  then have "calm c c1" using calm_on_channel [OF oc] by (rule calm_trans)
  moreover have "calm c1 (startHeartbeat now c1)"
    by (auto simp: startHeartbeat_def conn_ok_def intro!: calm_sameI)
  ultimately show ?thesis
    using oc by (auto simp: connectionEstablished_def Let_def intro: calm_trans)
qed

lemma calm_requestWrite: "calm c (requestWrite c)"
  using quiet_requestWrite [of c] quiet_maxFrameLen [OF quiet_requestWrite, of c]
  by (intro steady_calm) (auto simp: steady_def pendingBytes_def conn_ok_def)

lemma calm_markOverload: "calm c (markOverload a c)"
  by (intro calm_sameI) (auto simp: markOverload_def conn_ok_def)

text \<open>A send adds to the backlog only within the hard limit.\<close>

lemma calm_sendInLoop:
  assumes "sendInLoop msg c = Some c'" "conn_ok c"
  shows "calm c c'"
  using assms(2)
proof (cases rule: sendInLoop_cases [where c = c and msg = msg])
  case (dropped c1)
  let ?d = "c\<lparr>droppedMessage := droppedMessage c + 1, overloadDropCount := overloadDropCount c + 1\<rparr>"
  have "calm c ?d" by (intro calm_sameI) (simp_all add: conn_ok_def)
  then show ?thesis using dropped assms(1) calm_trans [OF _ calm_handleClose, of c ?d] by auto
next
  case (taken b2)
  have ob: "buffer_ok (outputBuffer c)" using assms(2) by (simp add: conn_ok_def)
  have "readableBytes b2 \<le> readableBytes (outputBuffer c) + 4 + unat (word_of_nat (length msg) :: u32)"
    using arg_cong [OF taken(3), of length] ob taken(2)
    by (simp only: length_append length_readable length_be32) simp
  then have "calm c (updatePendingEstimate (c\<lparr>outputBuffer := b2\<rparr>))"
    using taken(2,4) by (simp add: calm_def pendingBytes_def conn_ok_def)
  from calm_trans [OF calm_trans [OF this calm_markOverload] calm_requestWrite] show ?thesis
    using assms(1) taken(1) by (auto simp: Let_def simp del: updatePendingEstimate_fields)
qed (use assms in auto)

lemma calm_conn_send: "conn_send inLoop msg c = Some c' \<Longrightarrow> conn_ok c \<Longrightarrow> calm c c'"
  by (auto simp: conn_send_def calm_emit calm_sendInLoop split: if_splits)

lemma calm_onHeartbeatTick: "onHeartbeatTick now c = Some c' \<Longrightarrow> conn_ok c \<Longrightarrow> calm c c'"
  by (auto simp: onHeartbeatTick_def calm_conn_send split: if_splits)

lemma calm_handleWrite: "handleWrite rs c = (w, c') \<Longrightarrow> conn_ok c \<Longrightarrow> calm c c'"
proof -
  assume h: "handleWrite rs c = (w, c')" and ok: "conn_ok c"
  from handleWrite_steady [OF h ok] have st: "steady c c'"
    and w: "w @ readable (outputBuffer c') = readable (outputBuffer c)" by simp_all
  moreover have "conn_ok c'" using st ok by (simp add: steady_def)
  moreover have "length w + length (readable (outputBuffer c')) = length (readable (outputBuffer c))"
    using w by (metis length_append)
  ultimately have "pendingBytes c' \<le> pendingBytes c"
    using ok by (simp add: pendingBytes_def conn_ok_def)
  with st show ?thesis by (intro steady_calm) simp_all
qed

lemma calm_handleControlFrame: "handleControlFrame now p c = Some (r, c') \<Longrightarrow> conn_ok c \<Longrightarrow> calm c c'"
proof -
  have "calm c (c\<lparr>lastHeartbeatTime := now\<rparr>)" by (intro calm_sameI) (simp_all add: conn_ok_def)
  then show "handleControlFrame now p c = Some (r, c') \<Longrightarrow> conn_ok c \<Longrightarrow> calm c c'"
    by (auto simp: handleControlFrame_def calm_conn_send split: if_splits)
qed

lemma calm_inputBuffer: "buffer_ok b \<Longrightarrow> calm c (c\<lparr>inputBuffer := b\<rparr>)"
  by (intro calm_sameI) (simp_all add: conn_ok_def)

lemma calm_ok: "calm c c' \<Longrightarrow> conn_ok c \<Longrightarrow> conn_ok c'"
  by (simp add: calm_def)

lemma next_frame_ok:
  "next_frame m b = Some (s, b') \<Longrightarrow> buffer_ok b \<Longrightarrow> buffer_ok b'"
  by (auto simp: next_frame_def peekUInt32_def retrieveUInt32_def retrieveAsString_def Let_def bind_eq_Some_conv
      split: if_splits)

lemma calm_parse_loop: "parse_loop now c = Some (f, c') \<Longrightarrow> conn_ok c \<Longrightarrow> calm c c'"
proof (induction now c rule: parse_loop.induct)
  case (1 now c)
  note pl = "1.prems"(1) [unfolded parse_loop.simps [of now c]]
  from pl obtain s b where nf: "next_frame (maxFrameLen c) (inputBuffer c) = Some (s, b)"
    by (auto split: option.splits)
  have b: "buffer_ok b" using next_frame_ok [OF nf] "1.prems"(2) by (simp add: conn_ok_def)
  let ?c = "c\<lparr>inputBuffer := b\<rparr>"
  have c: "calm c ?c" using b by (rule calm_inputBuffer)
  show ?case
  proof (cases s)
    case EmptyFrame
    let ?e = "emit (MessageCallback []) ?c"
    have e: "calm c ?e" using c by (rule calm_trans) (simp add: calm_emit)
    have "calm ?e c'"
      using "1.IH"(1) [OF nf refl EmptyFrame] pl nf EmptyFrame calm_ok [OF e "1.prems"(2)] by simp
    with e show ?thesis by (rule calm_trans)
  next
    case (GotFrame p)
    obtain k c1 where hc: "handleControlFrame now p ?c = Some (k, c1)"
      using pl nf GotFrame by (auto split: option.splits)
    have c1: "calm c c1"
      using calm_trans [OF c calm_handleControlFrame [OF hc]] calm_ok [OF c "1.prems"(2)] .
    show ?thesis
    proof (cases k)
      case True
      with "1.IH"(2) [OF nf refl GotFrame hc refl] pl nf GotFrame hc calm_ok [OF c1 "1.prems"(2)]
      have "calm c1 c'" by simp
      with c1 show ?thesis by (rule calm_trans)
    next
      case False
      let ?e = "emit (MessageCallback p) (c1\<lparr>lastActiveTime := now\<rparr>)"
      have e: "calm c1 ?e" by (intro calm_sameI) (simp_all add: conn_ok_def)
      from c1 e have ce: "calm c ?e" by (rule calm_trans)
      have "calm ?e c'"
        using "1.IH"(3) [OF nf refl GotFrame hc refl] pl nf GotFrame hc False calm_ok [OF ce "1.prems"(2)]
        by simp
      with ce show ?thesis by (rule calm_trans)
    qed
  qed (use pl nf in auto)
qed

lemma calm_handleRead: "handleRead now rs c = Some c' \<Longrightarrow> conn_ok c \<Longrightarrow> calm c c'"
proof (induction rs arbitrary: c)
  case (Cons x rs)
  show ?case
  proof (cases x)
    case (ReadError e)
    with Cons show ?thesis by (auto simp: readFd_def handleError_def split: if_splits)
  next
    case (ReadBytes xs)
    obtain b where b: "readFd (ReadBytes xs) (inputBuffer c) = (Inr (length xs), Some b)" "buffer_ok b"
      using Cons.prems(2) unfolding conn_ok_def by (metis readFd_spec)
    let ?c = "c\<lparr>inputBuffer := b\<rparr>"
    have c: "calm c ?c" using b(2) by (rule calm_inputBuffer)
    show ?thesis
    proof (cases "xs = []")
      case True
      with Cons.prems ReadBytes b(1) show ?thesis using calm_trans [OF c calm_handleClose] by auto
    next
      case False
      with Cons.prems(1) ReadBytes b(1) obtain f c1 where pl: "parse_loop now ?c = Some (f, c1)"
        and rest: "if f then c' = c1 else handleRead now rs c1 = Some c'"
        by (auto split: option.splits bool.splits)
      have c1: "calm c c1" using calm_trans [OF c calm_parse_loop [OF pl calm_ok [OF c Cons.prems(2)]]] .
      with rest Cons.IH [of c1] calm_ok [OF c1 Cons.prems(2)] show ?thesis
        by (auto split: if_splits intro: calm_trans)
    qed
  qed
qed simp

lemma sum_list_remove1: "n \<in> set fl \<Longrightarrow> sum_list (remove1 n fl) + n = sum_list (fl :: nat list)"
  by (induction fl) auto

lemma in_flight_le: "conn_inv (c, fl) \<Longrightarrow> n \<in> set fl \<Longrightarrow> n \<le> queuedFrameBytes c"
  by (auto simp: conn_inv_def member_le_sum_list)

lemma conn_inv_release:
  assumes "conn_inv (c, fl)" "n \<in> set fl"
  shows "conn_inv (releaseReservedFrame n c, remove1 n fl)"
  using assms in_flight_le [OF assms] sum_list_remove1 [OF assms(2)]
  by (auto simp: conn_inv_def releaseReservedFrame_def conn_ok_def pendingBytes_def)

lemma conn_inv_reserve:
  assumes "conn_inv (c, fl)" "tryReserveFrame inLoop n c = (r, c')"
  shows "conn_inv (c', if r = SendOk then n # fl else fl)"
proof -
  let ?d = "c\<lparr>droppedMessage := droppedMessage c + 1, overloadDropCount := overloadDropCount c + 1,
              isOverloaded := True\<rparr>"
  have "calm c ?d" by (intro calm_sameI) (simp_all add: conn_ok_def)
  then have "calm c (recordOverloadDrop inLoop c)"
    using calm_trans [OF _ calm_scheduleCloseInLoop] by (simp add: recordOverloadDrop_def Let_def)
  then have "conn_inv (recordOverloadDrop inLoop c, fl)" by (rule conn_inv_calm [OF assms(1)])
  moreover have "pendingBytesEstimate c + queuedFrameBytes c + n \<le> hardLimit c \<Longrightarrow>
      conn_inv (c\<lparr>queuedFrameBytes := queuedFrameBytes c + n\<rparr>, n # fl)"
    using assms(1) by (simp add: conn_inv_def conn_ok_def pendingBytes_def)
  ultimately show ?thesis
    unfolding tryReserveFrame_def using assms
    by (cases "connected c"; cases "pendingBytesEstimate c + queuedFrameBytes c + n > hardLimit c")
       (simp_all add: tryReserveFrame_def prod_eq_iff linorder_not_less)
qed

lemma append_header_payload:
  assumes "create_frame p m = Some f" "buffer_ok b"
  obtains b1 b2 where "append_bytes (header f) b = Some b1" "append_bytes (payload f) b1 = Some b2"
    "buffer_ok b2" "readable b2 = readable b @ frame (payload f)"
    "readableBytes b2 = readableBytes b + frameBytes f"
proof -
  obtain q where q: "p = Some q" "header f @ payload f = frame q" "frameBytes f = length (frame q)" "payload f = q"
    using assms(1) by (auto simp: create_frame_def OutboundFrame_new_def frame_def split: option.splits if_splits)
  obtain b1 b2 where b: "append_bytes (header f) b = Some b1" "append_bytes (payload f) b1 = Some b2"
    "buffer_ok b2" "readable b2 = readable b @ header f @ payload f"
    using assms(2) by (metis buffer_queue.push_two)
  have "length (readable b2) = length (readable b) + frameBytes f" using b(4) q by simp
  then have "readableBytes b2 = readableBytes b + frameBytes f" using b(3) assms(2) by simp
  then show ?thesis using b q by (intro that [of b1 b2]) simp_all
qed

lemma conn_inv_reserved_send:
  assumes "conn_inv (c, fl)" "create_frame p m = Some f" "frameBytes f \<in> set fl"
    "sendReservedFrameInLoop (Some f) c = Some c'"
  shows "conn_inv (c', remove1 (frameBytes f) fl)"
proof (cases "connected c")
  case False
  with assms conn_inv_release [OF assms(1,3)] show ?thesis by (simp add: sendReservedFrameInLoop_def)
next
  case True
  have "buffer_ok (outputBuffer c)" using assms(1) by (simp add: conn_inv_def conn_ok_def)
  with assms(2) obtain b1 b2 where b: "append_bytes (header f) (outputBuffer c) = Some b1"
    "append_bytes (payload f) b1 = Some b2" "buffer_ok b2"
    "readableBytes b2 = readableBytes (outputBuffer c) + frameBytes f"
    by (rule append_header_payload)
  let ?c1 = "releaseReservedFrame (frameBytes f) (updatePendingEstimate (c\<lparr>outputBuffer := b2\<rparr>))"
  have "conn_inv (?c1, remove1 (frameBytes f) fl)"
    using assms(1) b(3,4) in_flight_le [OF assms(1,3)] sum_list_remove1 [OF assms(3)] True
    by (auto simp: conn_inv_def releaseReservedFrame_def conn_ok_def pendingBytes_def)
  moreover have "calm ?c1 c'"
    using assms(4) b True
    by (auto simp: sendReservedFrameInLoop_def Let_def intro!: calm_trans [OF calm_markOverload calm_requestWrite])
  ultimately show ?thesis by (rule conn_inv_calm)
qed

lemma conn_inv_ok: "conn_inv (c, fl) \<Longrightarrow> conn_ok c"
  by (simp add: conn_inv_def)

lemma conn_inv_step: "conn_step s s' \<Longrightarrow> conn_inv s \<Longrightarrow> conn_inv s'"
proof (induction rule: conn_step.induct)
  case (reserve inLoop n c r c' fl)
  then show ?case by (blast intro: conn_inv_reserve)
next
  case (reserved_send p m f fl c c')
  then show ?case by (blast intro: conn_inv_reserved_send)
next
  case (release n fl c)
  then show ?case by (blast intro: conn_inv_release)
qed ((simp only: handleError_def)?, blast intro: conn_inv_calm conn_inv_ok
      calm_handleClose calm_connectionEstablished calm_handleRead calm_handleWrite calm_forceClose
        calm_connectionDestroyed calm_conn_send calm_sendInLoop calm_onHeartbeatTick)+

text \<open>Reachable states of a fresh connection.\<close>

inductive conn_reachable :: "tcp_conn \<Rightarrow> conn_state \<Rightarrow> bool" for c0 :: tcp_conn where
  start: "conn_reachable c0 (c0, [])"
| step: "conn_reachable c0 s \<Longrightarrow> conn_step s s' \<Longrightarrow> conn_reachable c0 s'"

definition conn_fresh :: "tcp_conn \<Rightarrow> bool" where
  "conn_fresh c \<longleftrightarrow> conn_ok c \<and> connected c \<and> effects c = [] \<and> queuedFrameBytes c = 0 \<and>
     pendingBytesEstimate c = 0 \<and> pendingBytes c = 0"

lemma conn_fresh_new [simp]:
  "maxLen + 4 < 2 ^ 32 \<Longrightarrow> conn_fresh (TcpConnection_new fd beat tmo maxLen high low hard drops)"
  by (simp add: conn_fresh_def TcpConnection_new_def conn_ok_def pendingBytes_def readableBytes_def
      buffer_init_def buffer_ok_def kCheapPrepend_def)

lemma conn_reachable_inv: "conn_reachable c0 s \<Longrightarrow> conn_fresh c0 \<Longrightarrow> conn_inv s"
proof (induction rule: conn_reachable.induct)
  case start
  then show ?case by (simp add: conn_fresh_def conn_inv_def)
qed (blast intro: conn_inv_step)

subsection \<open>End to end\<close>

text \<open>Sending a list of messages in the loop thread.\<close>

fun send_all :: "string list \<Rightarrow> tcp_conn \<Rightarrow> tcp_conn option" where
  "send_all [] c = Some c"
| "send_all (m # ms) c = Option.bind (conn_send True m c) (send_all ms)"

text \<open>While \<open>epoll_ctl\<close> succeeds, asking for write events leaves the connection open.\<close>

lemma enableWriting_ok [simp]: "enableWriting EpollOk l ch \<noteq> (False, l', ch')"
  by (auto simp: enableWriting_def updateChannel_def Let_def)

lemma requestWrite_ok:
  assumes "epoll c = []"
  shows "connected (requestWrite c) = connected c" "epoll (requestWrite c) = []"
    "chan (requestWrite c) = None \<longleftrightarrow> chan c = None"
    "lastHeartbeatTime (requestWrite c) = lastHeartbeatTime c"
  using assms by (auto simp: requestWrite_def on_channel_def next_epoll_def split: option.splits prod.splits)

lemma markOverload_epoll [simp]: "epoll (markOverload a c) = epoll c"
  by (simp add: markOverload_def emit_def)

lemma sendInLoop_stays_open:
  assumes "sendInLoop msg c = Some c'" "epoll c = []" "connected c" "chan c \<noteq> None"
    "canAccept (4 + length msg) c" "length msg \<le> maxFrameLen c" "conn_ok c"
  shows "connected c' \<and> epoll c' = [] \<and> chan c' \<noteq> None"
proof -
  let ?len = "word_of_nat (length msg) :: u32"
  note u = unat_len32 [OF assms(6,7)]
  obtain b1 b2 where b: "append_bytes (be32 ?len) (outputBuffer c) = Some b1" "append_bytes msg b1 = Some b2"
    using assms(7) unfolding conn_ok_def by (metis buffer_queue.push_two)
  let ?c1 = "updatePendingEstimate (c\<lparr>outputBuffer := b2\<rparr>)"
  have "c' = requestWrite (markOverload (pendingBytesEstimate ?c1 \<ge> highWaterMark ?c1) ?c1)"
    using assms u b by (auto simp: sendInLoop_def appendUint32_def Let_def simp del: updatePendingEstimate_fields)
  with assms(2,3,4) show ?thesis
    by (simp add: requestWrite_ok updatePendingEstimate_def)
qed

text \<open>A list of messages that fits is queued as the concatenation of its frames.\<close>

lemma send_all_queues:
  assumes "conn_ok c" "connected c" "chan c \<noteq> None" "epoll c = []"
    "list_all (\<lambda>m. length m \<le> maxFrameLen c) ms"
    "pendingBytes c + length (concat (map frame ms)) \<le> hardLimit c"
  shows "\<exists>c'. send_all ms c = Some c' \<and> conn_ok c' \<and>
    readable (outputBuffer c') = readable (outputBuffer c) @ concat (map frame ms)"
  using assms
proof (induction ms arbitrary: c)
  case (Cons m ms)
  have len: "length m \<le> maxFrameLen c" and fits: "canAccept (4 + length m) c"
    using Cons.prems by (simp_all add: canAccept_def)
  obtain c1 where c1: "sendInLoop m c = Some c1" "quiet c c1" "buffer_ok (outputBuffer c1)"
    "readable (outputBuffer c1) = readable (outputBuffer c) @ frame m"
    using Cons.prems(1-3) len fits by (rule sendInLoop_accept)
  have open1: "connected c1" "epoll c1 = []" "chan c1 \<noteq> None"
    using sendInLoop_stays_open [OF c1(1) Cons.prems(4,2,3) fits len Cons.prems(1)] by simp_all
  have ok1: "conn_ok c1" using c1(2) Cons.prems(1) c1(3) by (rule conn_ok_quiet)
  have same: "maxFrameLen c1 = maxFrameLen c" "hardLimit c1 = hardLimit c"
    using c1(2) by (simp_all add: quiet_def)
  have "length (readable (outputBuffer c1)) = length (readable (outputBuffer c)) + length (frame m)"
    using c1(4) by simp
  then have "pendingBytes c1 = pendingBytes c + length (frame m)"
    using c1(3) Cons.prems(1) by (simp add: pendingBytes_def conn_ok_def)
  then have fits1: "pendingBytes c1 + length (concat (map frame ms)) \<le> hardLimit c1"
    using Cons.prems(6) same(2) by simp
  have "list_all (\<lambda>m. length m \<le> maxFrameLen c1) ms" using Cons.prems(5) same(1) by simp
  from Cons.IH [OF ok1 open1(1,3,2) this fits1] c1(1,4) Cons.prems(2) show ?case
    by (auto simp: conn_send_def)
qed auto

subsection \<open>Properties\<close>

text \<open>
  C1. However the peer's bytes are cut into reads, over however many readiness events and with
  signals in between, the message callback gets exactly the payloads of the frames that were sent,
  each once and in order, less the heartbeat frames; nothing stays behind in the input buffer.
\<close>

theorem handleRead_delivers_frames:
  assumes "conn_ok c" "readable (inputBuffer c) = []"
    and "list_all (\<lambda>p. length p \<le> maxFrameLen c) ps"
    and "list_all (\<lambda>(now, rs). list_all live_read rs) evs"
    and "concat (map (\<lambda>(now, rs). stream rs) evs) = concat (map frame ps)"
  shows "\<exists>c'. read_events evs c = Some c' \<and> delivered c' = delivered c @ app_payloads ps \<and>
    readable (inputBuffer c') = []"
proof (rule read_events_stream [OF assms(1) _ assms(4)])
  show "input_idle c" using assms(2) by (simp add: input_idle_def decode.simps)
  show "decode (maxFrameLen c) (readable (inputBuffer c) @ concat (map (\<lambda>(now, rs). stream rs) evs)) = (ps, [], False)"
    using decode_frames [of ps "maxFrameLen c"] assms(1,2,3,5) by (simp add: list_all_iff conn_ok_def)
qed

theorem handleRead_delivers_frames_witness:
  "\<exists>c'. read_events
      [(0, [ReadBytes (take 3 (concat (map frame [''hi'', ''PING'', ''yo'']))), ReadError EINTR]),
       (1, [ReadBytes (drop 3 (concat (map frame [''hi'', ''PING'', ''yo''])))])]
      (TcpConnection_new 5 30000 90000 1024 512 256 4096 10) = Some c' \<and>
    delivered c' = [''hi'', ''yo''] \<and> readable (inputBuffer c') = []"
  using handleRead_delivers_frames [of "TcpConnection_new 5 30000 90000 1024 512 256 4096 10"
      "[''hi'', ''PING'', ''yo'']"
      "[(0, [ReadBytes (take 3 (concat (map frame [''hi'', ''PING'', ''yo'']))), ReadError EINTR]),
        (1, [ReadBytes (drop 3 (concat (map frame [''hi'', ''PING'', ''yo''])))])]"]
  by (simp add: TcpConnection_new_def conn_ok_def frame_def be32_def is_control_def delivered_def payloads_def)

text \<open>
  A stream whose next length exceeds the frame limit closes the connection, and before that the
  callback got exactly the payloads of the frames that precede the bad length.
\<close>

theorem handleRead_oversized_closes:
  assumes "conn_ok c" "readable (inputBuffer c) = []" "list_all live_read rs"
    and "list_all (\<lambda>p. length p \<le> maxFrameLen c) ps" "unat w > maxFrameLen c"
    and "stream rs = concat (map frame ps) @ be32 w @ junk"
  shows "\<exists>c'. handleRead now rs c = Some c' \<and> \<not> connected c' \<and>
    delivered c' = delivered c @ app_payloads ps"
proof -
  let ?m = "maxFrameLen c"
  have "decode ?m (concat (map frame ps)) = (ps, [], False)"
    using decode_frames [of ps ?m] assms(1,4) by (simp add: list_all_iff conn_ok_def)
  moreover have "decode ?m (be32 w @ junk) = ([], be32 w @ junk, True)"
    using assms(5) by (simp add: decode.simps)
  ultimately have "decode ?m (readable (inputBuffer c) @ stream rs) = (ps, be32 w @ junk, True)"
    using decode_append_good [of ?m "concat (map frame ps)" ps "[]" "be32 w @ junk"] assms(2,6) by simp
  moreover have "input_idle c" using assms(2) by (simp add: input_idle_def decode.simps)
  ultimately show ?thesis using handleRead_stream [OF assms(1) _ assms(3), of ps _ True now] by auto
qed

theorem handleRead_oversized_closes_witness:
  "\<exists>c'. handleRead 7 [ReadBytes (frame ''hi'' @ be32 2000 @ ''xx'')]
      (TcpConnection_new 5 30000 90000 1024 512 256 4096 10) = Some c' \<and> \<not> connected c' \<and>
    delivered c' = [''hi'']"
  using handleRead_oversized_closes [of "TcpConnection_new 5 30000 90000 1024 512 256 4096 10"
      "[ReadBytes (frame ''hi'' @ be32 2000 @ ''xx'')]" "[''hi'']" 2000 "''xx''" 7]
  by (simp add: TcpConnection_new_def conn_ok_def frame_def be32_def is_control_def delivered_def payloads_def)

text \<open>
  C3. Over every interleaving of the operations of a connection, from its construction on, the
  close callback has run exactly once if the connection is closed, and never if it is connected.
\<close>

theorem close_callback_exactly_once:
  assumes "conn_fresh c0" "conn_reachable c0 (c, fl)"
  shows "count_list (effects c) CloseCallback = (if connected c then 0 else 1)"
  using conn_reachable_inv [OF assms(2,1)] by (simp add: conn_inv_def)

theorem close_callback_exactly_once_witness:
  "count_list (effects (handleClose (handleClose (TcpConnection_new 5 30000 90000 1024 512 256 4096 10))))
     CloseCallback = 1"
proof -
  let ?c = "TcpConnection_new 5 30000 90000 1024 512 256 4096 10"
  have "conn_reachable ?c (handleClose (handleClose ?c), [])"
    using conn_reachable.step [OF conn_reachable.step [OF conn_reachable.start conn_step.close] conn_step.close] .
  then show ?thesis using close_callback_exactly_once [of ?c "handleClose (handleClose ?c)" "[]"] by simp
qed



text \<open>
  C5. Writing neither loses, repeats nor reorders a byte: whatever the sequence of partial sends,
  signals and errors, the bytes handed to the socket followed by what is still buffered are what was
  buffered before.
\<close>

theorem handleWrite_conserves_bytes:
  assumes "conn_ok c" "handleWrite rs c = (wire, c')"
  shows "wire @ readable (outputBuffer c') = readable (outputBuffer c) \<and> conn_ok c' \<and>
    delivered c' = delivered c"
  using handleWrite_steady [OF assms(2,1)] assms(1) by (auto simp: steady_def quiet_delivered)

theorem handleWrite_conserves_bytes_witness:
  "let (wire, c') = handleWrite [SendError EINTR, SendCount 3]
         (the (sendReservedFrameInLoop (create_frame (Some ''hey'') 1024)
                (TcpConnection_new 5 30000 90000 1024 512 256 4096 10)))
   in wire @ readable (outputBuffer c') = frame ''hey''"
proof -
  let ?c = "TcpConnection_new 5 30000 90000 1024 512 256 4096 10"
  obtain f where f: "create_frame (Some ''hey'') 1024 = Some f" "payload f = ''hey''"
    by (simp add: create_frame_def UINT32_MAX_def OutboundFrame_new_def)
  have ok: "conn_ok ?c" "readable (outputBuffer ?c) = []" "connected ?c" "chan ?c = None"
    by (simp_all add: TcpConnection_new_def conn_ok_def)
  then obtain b1 b2 where b: "append_bytes (header f) (outputBuffer ?c) = Some b1"
    "append_bytes (payload f) b1 = Some b2" "buffer_ok b2" "readable b2 = frame ''hey''"
    using append_header_payload [OF f(1), of "outputBuffer ?c"] f(2) unfolding conn_ok_def
    by (metis append_Nil)
  let ?c1 = "releaseReservedFrame (frameBytes f) (updatePendingEstimate (?c\<lparr>outputBuffer := b2\<rparr>))"
  let ?c2 = "requestWrite (markOverload (totalPendingEstimate ?c1 > highWaterMark ?c1) ?c1)"
  have s: "sendReservedFrameInLoop (Some f) ?c = Some ?c2"
    using b ok by (simp add: sendReservedFrameInLoop_def Let_def del: updatePendingEstimate_fields)
  have "calm ?c1 ?c2" by (intro calm_trans [OF calm_markOverload calm_requestWrite])
  moreover have "conn_ok ?c1" using ok(1) b(3) by (simp add: releaseReservedFrame_def conn_ok_def)
  ultimately have "conn_ok ?c2" by (rule calm_ok)
  moreover have "readable (outputBuffer ?c2) = frame ''hey''"
    using b(4) by (simp add: releaseReservedFrame_def)
  ultimately show ?thesis
    using handleWrite_conserves_bytes [of ?c2 "[SendError EINTR, SendCount 3]"] s f
    by (auto split: prod.splits)
qed

text \<open>
  C2. What one side sends is what the other side delivers: messages that fit the limits, queued by
  the sender while its registration works, written out in any pattern of partial sends, cut into
  reads at will, arrive at the receiver's callback in order, heartbeat frames left out.
\<close>

theorem send_receive_roundtrip:
  assumes "conn_ok a" "connected a" "chan a \<noteq> None" "epoll a = []" "readable (outputBuffer a) = []"
    and "list_all (\<lambda>m. length m \<le> maxFrameLen a) ms" "length (concat (map frame ms)) \<le> hardLimit a"
    and "send_all ms a = Some a1" "handleWrite ws a1 = (wire, a2)" "readable (outputBuffer a2) = []"
    and "conn_ok b" "readable (inputBuffer b) = []" "maxFrameLen b = maxFrameLen a"
    and "list_all (\<lambda>(now, rs). list_all live_read rs) evs" "concat (map (\<lambda>(now, rs). stream rs) evs) = wire"
  shows "\<exists>b'. read_events evs b = Some b' \<and> delivered b' = delivered b @ app_payloads ms"
proof -
  have pb: "pendingBytes a = 0" using assms(1,5) length_readable [of "outputBuffer a"]
    by (simp add: pendingBytes_def conn_ok_def)
  obtain a1' where a1: "send_all ms a = Some a1'" "conn_ok a1'" "readable (outputBuffer a1') = concat (map frame ms)"
    using send_all_queues [OF assms(1-4,6)] pb assms(5,7) by auto
  then have "conn_ok a1" "readable (outputBuffer a1) = concat (map frame ms)" using assms(8) by simp_all
  then have "wire = concat (map frame ms)" using handleWrite_steady [OF assms(9)] assms(10) by simp
  then have "decode (maxFrameLen b) (readable (inputBuffer b) @ concat (map (\<lambda>(now, rs). stream rs) evs)) = (ms, [], False)"
    using decode_frames [of ms "maxFrameLen b"] assms(6,11,12,13,15) by (simp add: list_all_iff conn_ok_def)
  moreover have "input_idle b" using assms(12) by (simp add: input_idle_def decode.simps)
  ultimately show ?thesis using read_events_stream [OF assms(11) _ assms(14)] by blast
qed

definition demo_sender :: tcp_conn where
  "demo_sender = connectionEstablished 1 0 (TcpConnection_new 5 30000 90000 1024 512 256 4096 10)"

lemma demo_sender_fields:
  "conn_ok demo_sender" "connected demo_sender" "chan demo_sender \<noteq> None" "epoll demo_sender = []"
  "readable (outputBuffer demo_sender) = []" "maxFrameLen demo_sender = 1024" "hardLimit demo_sender = 4096"
  by (simp_all add: demo_sender_def connectionEstablished_def TcpConnection_new_def on_channel_def next_epoll_def
      enableReading_def updateChannel_def channel_new_def startHeartbeat_def conn_ok_def emit_def Let_def)

theorem send_receive_roundtrip_witness:
  "\<exists>a1 wire a2 b'. send_all [''hi'', ''yo''] demo_sender = Some a1 \<and>
     handleWrite [SendCount 12] a1 = (wire, a2) \<and>
     read_events [(0, [ReadBytes (take 5 wire), ReadBytes (drop 5 wire)])] demo_sender = Some b' \<and>
     delivered b' = [''hi'', ''yo'']"
proof -
  let ?ms = "[''hi'', ''yo'']"
  obtain a1 where a1: "send_all ?ms demo_sender = Some a1" "conn_ok a1"
    "readable (outputBuffer a1) = concat (map frame ?ms)"
    using send_all_queues [of demo_sender ?ms] demo_sender_fields by (auto simp: pendingBytes_def readableBytes_eq conn_ok_def)
  have len: "readableBytes (outputBuffer a1) = 12"
    using a1(2) arg_cong [OF a1(3), of length] by (simp add: conn_ok_def)
  obtain wire a2 where w: "handleWrite [SendCount 12] a1 = (wire, a2)" by (cases "handleWrite [SendCount 12] a1")
  have "wire = concat (map frame ?ms)"
    using w len a1(3) by (auto simp: Let_def)
  moreover have "wire @ readable (outputBuffer a2) = concat (map frame ?ms)"
    using handleWrite_steady [OF w a1(2)] a1(3) by simp
  ultimately have out: "readable (outputBuffer a2) = []" "length wire = 12" by simp_all
  then have ne: "wire \<noteq> []" by auto
  have "delivered demo_sender = []"
    by (simp add: demo_sender_def connectionEstablished_def TcpConnection_new_def on_channel_def next_epoll_def
      enableReading_def updateChannel_def channel_new_def startHeartbeat_def emit_def Let_def delivered_def payloads_def)
  moreover have "readable (inputBuffer demo_sender) = []"
    by (simp add: demo_sender_def connectionEstablished_def TcpConnection_new_def on_channel_def next_epoll_def
      enableReading_def updateChannel_def channel_new_def startHeartbeat_def emit_def Let_def)
  ultimately show ?thesis
    using send_receive_roundtrip [OF demo_sender_fields(1-5) _ _ a1(1) w out(1) demo_sender_fields(1), of
        "[(0, [ReadBytes (take 5 wire), ReadBytes (drop 5 wire)])]"] a1(1) w out(2) ne demo_sender_fields(6,7)
    by (auto simp: is_control_def simp del: read_events.simps handleWrite.simps send_all.simps)
qed

text \<open>
  The heartbeat decision: with the last heartbeat more than the timeout ago (in whole
  milliseconds) the tick closes the connection; within the timeout it never closes it by itself, and
  past the interval it queues a \<open>PING\<close> frame when the backlog admits one.
\<close>

theorem heartbeat_tick_decides:
  assumes "conn_ok c" "connected c" "chan c \<noteq> None" "epoll c = []" "canAccept 8 c" "4 \<le> maxFrameLen c"
  shows "\<exists>c'. onHeartbeatTick now c = Some c' \<and>
    (connected c' \<longleftrightarrow> to_ms (now - lastHeartbeatTime c) \<le> heartbeatTimeout c) \<and>
    readable (outputBuffer c') = readable (outputBuffer c) @
      (if heartbeatInterval c < to_ms (now - lastHeartbeatTime c) \<and>
          to_ms (now - lastHeartbeatTime c) \<le> heartbeatTimeout c then frame ''PING'' else [])"
proof -
  have l: "length ''PING'' \<le> maxFrameLen c" and a: "canAccept (4 + length ''PING'') c"
    using assms(5,6) by simp_all
  obtain c' where c': "sendInLoop ''PING'' c = Some c'"
    "readable (outputBuffer c') = readable (outputBuffer c) @ frame ''PING''"
    using assms(1-3) l a by (rule sendInLoop_accept)
  moreover have "connected c'"
    using sendInLoop_stays_open [OF c'(1) assms(4,2,3) a l assms(1)] by simp
  ultimately show ?thesis using assms(2) by (auto simp: onHeartbeatTick_def conn_send_def)
qed

theorem heartbeat_tick_decides_witness:
  "\<exists>c'. onHeartbeatTick 40000000000 demo_sender = Some c' \<and> connected c' \<and>
     readable (outputBuffer c') = frame ''PING''"
proof -
  have "heartbeatTimeout demo_sender = 90000" "heartbeatInterval demo_sender = 30000" "lastHeartbeatTime demo_sender = 0"
    "readableBytes (outputBuffer demo_sender) = 0"
    by (simp_all add: demo_sender_def connectionEstablished_def TcpConnection_new_def on_channel_def next_epoll_def
      enableReading_def updateChannel_def channel_new_def startHeartbeat_def emit_def Let_def readableBytes_def buffer_init_def)
  then show ?thesis
    using heartbeat_tick_decides [OF demo_sender_fields(1-4), of 40000000000] demo_sender_fields(5-7)
    by (simp add: to_ms_def canAccept_def pendingBytes_def)
qed

end
