(* ===== verification/TimerQueue.thy ===== *)
theory TimerQueue
  imports Buffer "HOL-Library.Product_Lexorder"
begin

text \<open>
  Timers of an event loop: \<open>src/include/timer/Timer.h\<close>, \<open>src/src/timer/Timer.cpp\<close>,
  \<open>src/include/timer/TimerQueue.h\<close>, \<open>src/src/timer/TimerQueue.cpp\<close>.

  Times are nanoseconds of \<open>steady_clock\<close>, intervals are milliseconds. \<open>timers_\<close> is an ordered set of
  pairs, here a strictly sorted list; \<open>timersOwned_\<close> is an association list. A callback may add and
  cancel timers of its own loop: what it does is given by a list of such operations (an exception
  cuts the list short, and is caught by the caller). The timerfd is the field \<open>armed\<close>: the time at
  which it will become readable. \<open>fired\<close> records the callbacks run.
\<close>

subsection \<open>Data\<close>

record timer =
  expiration :: int
  interval :: int
  repeat :: bool
  sequence :: u64
  canceled :: bool

datatype timer_op = OpAdd timer | OpCancel u64

datatype timer_functor = AddTimerInLoop timer | CancelInLoop u64

datatype timerfd_read = TfdCount | TfdShort | TfdError errno

type_synonym timer_entry = "int \<times> u64"

record timer_queue =
  timers :: "timer_entry list"
  timersOwned :: "(u64 \<times> timer) list"
  callingExpiredTimers :: bool
  activeExpiredTimers :: "u64 list"
  cancelingTimers :: "u64 list"
  pendingCancel :: "u64 list"
  pendingAddSequences :: "u64 list"
  functors :: "timer_functor list"
  armed :: "int option"
  settime_ok :: bool
  clk :: int
  fired :: "u64 list"

definition ms_ns :: int where
  "ms_ns = 1000000"

subsection \<open>One timer\<close>

text \<open>The constructor draws the sequence from a counter shared by all loops (\<open>s_numCreated\<close>).\<close>

definition Timer_new :: "int \<Rightarrow> int \<Rightarrow> u64 \<Rightarrow> timer \<times> u64" where
  "Timer_new when intv numCreated =
     (\<lparr>expiration = when, interval = intv, repeat = intv > 0, sequence = numCreated + 1, canceled = False\<rparr>,
      numCreated + 1)"

text \<open>\<open>TimePoint::min()\<close> is the least value of a 64-bit nanosecond count.\<close>

definition restart :: "int \<Rightarrow> timer \<Rightarrow> timer" where
  "restart now t =
     t\<lparr>expiration := (if repeat t then now + interval t * ms_ns else - (2 ^ 63))\<rparr>"

subsection \<open>The timerfd\<close>

text \<open>
  The split into seconds and nanoseconds is the one \<open>timerfd_settime\<close> takes; a failing call is only
  logged. \<open>settime_ok\<close> says whether the calls succeed.
\<close>

definition resetTimerfd :: "int \<Rightarrow> timer_queue \<Rightarrow> timer_queue" where
  "resetTimerfd nextExpire q =
     (let delta0 = nextExpire - clk q;
          delta = (if delta0 < ms_ns then ms_ns else delta0);
          tv_sec = delta div 1000000000;
          tv_nsec = delta mod 1000000000
      in if settime_ok q then q\<lparr>armed := Some (clk q + (tv_sec * 1000000000 + tv_nsec))\<rparr> else q)"

definition disarmTimerfd :: "timer_queue \<Rightarrow> timer_queue" where
  "disarmTimerfd q = (if settime_ok q then q\<lparr>armed := None\<rparr> else q)"

subsection \<open>Adding and cancelling\<close>

definition addTimerInLoop :: "timer \<Rightarrow> timer_queue \<Rightarrow> timer_queue" where
  "addTimerInLoop t q0 =
     (let q = q0\<lparr>pendingAddSequences := removeAll (sequence t) (pendingAddSequences q0)\<rparr> in
      if sequence t \<in> set (pendingCancel q)
      then q\<lparr>pendingCancel := removeAll (sequence t) (pendingCancel q)\<rparr>
      else
        let earliestChanged = (timers q = [] \<or> expiration t < fst (hd (timers q)));
            q1 = q\<lparr>timers := insort_insert (expiration t, sequence t) (timers q),
                   timersOwned := emplace (sequence t) t (timersOwned q)\<rparr>
        in if earliestChanged then resetTimerfd (expiration t) q1 else q1)"

definition cancelInLoop :: "u64 \<Rightarrow> timer_queue \<Rightarrow> timer_queue" where
  "cancelInLoop s q =
     (case map_of (timersOwned q) s of
        Some t \<Rightarrow>
          if callingExpiredTimers q \<and> s \<in> set (activeExpiredTimers q)
          then q\<lparr>timersOwned := AList.update s (t\<lparr>canceled := True\<rparr>) (timersOwned q),
                 cancelingTimers := List.insert s (cancelingTimers q)\<rparr>
          else
            (let wasEarliest = (timers q \<noteq> [] \<and> s = snd (hd (timers q)));
                 q1 = q\<lparr>timers := removeAll (expiration t, s) (timers q),
                        timersOwned := AList.delete s (timersOwned q)\<rparr>
             in if wasEarliest
                then (if timers q1 = [] then disarmTimerfd q1 else resetTimerfd (fst (hd (timers q1))) q1)
                else q1)
      | None \<Rightarrow>
          if s \<notin> set (pendingAddSequences q) then q
          else q\<lparr>pendingCancel := List.insert s (pendingCancel q)\<rparr>)"

text \<open>The public entry points; from another thread the work is queued on the loop.\<close>

definition addTimer :: "bool \<Rightarrow> int \<Rightarrow> int \<Rightarrow> u64 \<Rightarrow> timer_queue \<Rightarrow> u64 \<times> timer_queue" where
  "addTimer inLoop when intv numCreated q =
     (let t = fst (Timer_new when intv numCreated) in
      (sequence t,
       if inLoop then addTimerInLoop t q
       else q\<lparr>pendingAddSequences := List.insert (sequence t) (pendingAddSequences q),
              functors := functors q @ [AddTimerInLoop t]\<rparr>))"

text \<open>\<open>owner\<close>: the identifier belongs to this loop. Sequence 0 is the invalid identifier.\<close>

definition cancel_timer :: "bool \<Rightarrow> bool \<Rightarrow> u64 \<Rightarrow> timer_queue \<Rightarrow> timer_queue" where
  "cancel_timer inLoop owner s q =
     (if s = 0 \<or> \<not> owner then q
      else if inLoop then cancelInLoop s q
      else q\<lparr>functors := functors q @ [CancelInLoop s]\<rparr>)"

fun run_functor :: "timer_functor \<Rightarrow> timer_queue \<Rightarrow> timer_queue" where
  "run_functor (AddTimerInLoop t) q = addTimerInLoop t q"
| "run_functor (CancelInLoop s) q = cancelInLoop s q"

subsection \<open>Expiry\<close>

text \<open>\<open>upper_bound({now,UINT64_MAX})\<close> splits the ordered set.\<close>

definition getExpired :: "int \<Rightarrow> timer_queue \<Rightarrow> timer_entry list \<times> timer_queue" where
  "getExpired now q =
     (takeWhile (\<lambda>e. e \<le> (now, - 1)) (timers q),
      q\<lparr>timers := dropWhile (\<lambda>e. e \<le> (now, - 1)) (timers q)\<rparr>)"

fun exec_op :: "timer_op \<Rightarrow> timer_queue \<Rightarrow> timer_queue" where
  "exec_op (OpAdd t) q = addTimerInLoop t q"
| "exec_op (OpCancel s) q = cancel_timer True True s q"

fun run_expired :: "(u64 \<Rightarrow> timer_op list) \<Rightarrow> timer_entry list \<Rightarrow> timer_queue \<Rightarrow> timer_queue" where
  "run_expired cb [] q = q"
| "run_expired cb (e # es) q =
     (case map_of (timersOwned q) (snd e) of
        None \<Rightarrow> run_expired cb es q
      | Some t \<Rightarrow>
          if canceled t then run_expired cb es q
          else run_expired cb es (fold exec_op (cb (snd e)) (q\<lparr>fired := fired q @ [snd e]\<rparr>)))"

fun restart_expired :: "int \<Rightarrow> timer_entry list \<Rightarrow> timer_queue \<Rightarrow> timer_queue" where
  "restart_expired now [] q = q"
| "restart_expired now (e # es) q =
     restart_expired now es
       (let s = snd e in
        if s \<in> set (cancelingTimers q) then q\<lparr>timersOwned := AList.delete s (timersOwned q)\<rparr>
        else case map_of (timersOwned q) s of
               None \<Rightarrow> q
             | Some t \<Rightarrow>
                 if canceled t then q\<lparr>timersOwned := AList.delete s (timersOwned q)\<rparr>
                 else if repeat t
                 then (let t' = restart now t
                       in q\<lparr>timersOwned := AList.update s t' (timersOwned q),
                            timers := insort_insert (expiration t', sequence t') (timers q)\<rparr>)
                 else q\<lparr>timersOwned := AList.delete s (timersOwned q)\<rparr>)"

text \<open>Draining the timerfd: \<open>True\<close> when the handler goes on.\<close>

fun read_timerfd :: "timerfd_read list \<Rightarrow> bool" where
  "read_timerfd [] = False"
| "read_timerfd (TfdCount # rs) = True"
| "read_timerfd (TfdShort # rs) = False"
| "read_timerfd (TfdError e # rs) = (if e = EINTR then read_timerfd rs else False)"

text \<open>\<open>later\<close> is the clock at the end of the callbacks, when the timerfd is set again.\<close>

definition timer_handleRead ::
  "timerfd_read list \<Rightarrow> int \<Rightarrow> int \<Rightarrow> (u64 \<Rightarrow> timer_op list) \<Rightarrow> timer_queue \<Rightarrow> timer_queue" where
  "timer_handleRead rs now later cb q =
     (if \<not> read_timerfd rs then q
      else
        let (expire, q1) = getExpired now (q\<lparr>clk := now\<rparr>);
            q2 = q1\<lparr>activeExpiredTimers := remdups (activeExpiredTimers q1 @ map snd expire),
                    callingExpiredTimers := True, cancelingTimers := []\<rparr>;
            q3 = (run_expired cb expire q2)\<lparr>callingExpiredTimers := False\<rparr>;
            q4 = (restart_expired now expire q3)\<lparr>clk := later\<rparr>;
            q5 = (if timers q4 \<noteq> [] then resetTimerfd (fst (hd (timers q4))) q4 else disarmTimerfd q4)
        in q5\<lparr>activeExpiredTimers := [], cancelingTimers := []\<rparr>)"

subsection \<open>Invariant\<close>

text \<open>
  \<open>tq_split A q\<close>: the ordered set holds exactly the owned timers outside \<open>A\<close>, under their own
  expiration and sequence, and the marks of cancellation are inside \<open>A\<close>, where flag and set agree.
  Between two handlers \<open>A\<close> is empty; while expired timers are handled it is the rest of the batch.
\<close>

definition tq_split :: "u64 set \<Rightarrow> timer_queue \<Rightarrow> bool" where
  "tq_split A q \<longleftrightarrow>
     sorted_wrt (<) (timers q) \<and>
     (\<forall>s t. map_of (timersOwned q) s = Some t \<longrightarrow>
        sequence t = s \<and> (canceled t \<longleftrightarrow> s \<in> A \<and> s \<in> set (cancelingTimers q))) \<and>
     (\<forall>x s. (x, s) \<in> set (timers q) \<longleftrightarrow> s \<notin> A \<and> map_option expiration (map_of (timersOwned q) s) = Some x)"

definition armed_ok :: "timer_queue \<Rightarrow> bool" where
  "armed_ok q \<longleftrightarrow>
     (case timers q of
        [] \<Rightarrow> armed q = None
      | e # _ \<Rightarrow> (\<exists>a. armed q = Some a \<and> a \<le> max (fst e) (clk q + ms_ns)))"

definition tq_ok :: "timer_queue \<Rightarrow> bool" where
  "tq_ok q \<longleftrightarrow> tq_split {} q \<and> \<not> callingExpiredTimers q \<and> activeExpiredTimers q = [] \<and>
     cancelingTimers q = [] \<and> (settime_ok q \<longrightarrow> armed_ok q)"

lemma resetTimerfd_eq:
  "resetTimerfd n q = (if settime_ok q then q\<lparr>armed := Some (max n (clk q + ms_ns))\<rparr> else q)"
  by (auto simp: resetTimerfd_def Let_def max_def)

lemma resetTimerfd_fields [simp]:
  "timers (resetTimerfd n q) = timers q" "timersOwned (resetTimerfd n q) = timersOwned q"
  "callingExpiredTimers (resetTimerfd n q) = callingExpiredTimers q"
  "activeExpiredTimers (resetTimerfd n q) = activeExpiredTimers q"
  "cancelingTimers (resetTimerfd n q) = cancelingTimers q" "settime_ok (resetTimerfd n q) = settime_ok q"
  "clk (resetTimerfd n q) = clk q" "fired (resetTimerfd n q) = fired q"
  "pendingCancel (resetTimerfd n q) = pendingCancel q"
  "pendingAddSequences (resetTimerfd n q) = pendingAddSequences q"
  by (simp_all add: resetTimerfd_eq)

lemma disarmTimerfd_fields [simp]:
  "timers (disarmTimerfd q) = timers q" "timersOwned (disarmTimerfd q) = timersOwned q"
  "callingExpiredTimers (disarmTimerfd q) = callingExpiredTimers q"
  "activeExpiredTimers (disarmTimerfd q) = activeExpiredTimers q"
  "cancelingTimers (disarmTimerfd q) = cancelingTimers q" "settime_ok (disarmTimerfd q) = settime_ok q"
  "clk (disarmTimerfd q) = clk q" "fired (disarmTimerfd q) = fired q"
  "pendingCancel (disarmTimerfd q) = pendingCancel q"
  "pendingAddSequences (disarmTimerfd q) = pendingAddSequences q"
  by (simp_all add: disarmTimerfd_def)

lemma tq_split_cong:
  "timers q' = timers q \<Longrightarrow> timersOwned q' = timersOwned q \<Longrightarrow> cancelingTimers q' = cancelingTimers q \<Longrightarrow>
   tq_split A q' = tq_split A q"
  by (simp add: tq_split_def)

lemma strict_sorted_insort_insert:
  "sorted_wrt (<) xs \<Longrightarrow> sorted_wrt (<) (insort_insert x (xs :: 'a :: linorder list))"
  by (simp add: strict_sorted_iff sorted_insort_insert distinct_insort_insert)

lemma strict_sorted_removeAll: "sorted_wrt (<) xs \<Longrightarrow> sorted_wrt (<) (removeAll x (xs :: 'a :: linorder list))"
  by (simp add: removeAll_filter_not_eq sorted_wrt_filter)

lemma tq_split_timerD: "tq_split A q \<Longrightarrow> (x, s) \<in> set (timers q) \<Longrightarrow>
   s \<notin> A \<and> (\<exists>t. map_of (timersOwned q) s = Some t \<and> expiration t = x)"
  by (auto simp: tq_split_def)

text \<open>Adding a fresh timer keeps the split, inside and outside a round of callbacks.\<close>

lemma tq_split_add:
  assumes "tq_split A q" "map_of (timersOwned q) (sequence t) = None" "sequence t \<notin> A" "\<not> canceled t"
  shows "tq_split A (addTimerInLoop t q)"
proof (cases "sequence t \<in> set (pendingCancel q)")
  case True
  then show ?thesis using assms(1) by (simp add: addTimerInLoop_def Let_def tq_split_def)
next
  case False
  let ?e = "(expiration t, sequence t)"
  have "timers (addTimerInLoop t q) = insort_insert ?e (timers q)"
    "timersOwned (addTimerInLoop t q) = emplace (sequence t) t (timersOwned q)"
    "cancelingTimers (addTimerInLoop t q) = cancelingTimers q"
    using False by (simp_all add: addTimerInLoop_def Let_def)
  then show ?thesis
    using assms by (auto simp: tq_split_def strict_sorted_insort_insert set_insort_insert split: if_splits)
qed

text \<open>
  Cancelling during a round: a timer of the batch is only marked, any other one leaves both tables.
\<close>

lemma tq_split_cancel:
  assumes "tq_split A q" "\<And>s. (callingExpiredTimers q \<and> s \<in> set (activeExpiredTimers q)) = (s \<in> A)"
  shows "tq_split A (cancelInLoop s q)"
proof (cases "map_of (timersOwned q) s")
  case None
  then show ?thesis using assms(1) by (simp add: cancelInLoop_def tq_split_def)
next
  case (Some t)
  show ?thesis
  proof (cases "s \<in> A")
    case True
    then have "cancelInLoop s q = q\<lparr>timersOwned := AList.update s (t\<lparr>canceled := True\<rparr>) (timersOwned q),
                 cancelingTimers := List.insert s (cancelingTimers q)\<rparr>"
      using Some assms(2) by (simp add: cancelInLoop_def)
    with True Some assms(1) show ?thesis by (auto simp: tq_split_def)
  next
    case False
    then have "timers (cancelInLoop s q) = removeAll (expiration t, s) (timers q)"
      "timersOwned (cancelInLoop s q) = AList.delete s (timersOwned q)"
      "cancelingTimers (cancelInLoop s q) = cancelingTimers q"
      using Some assms(2) [of s] by (auto simp: cancelInLoop_def Let_def)
    with Some assms(1) show ?thesis
      by (auto simp: tq_split_def strict_sorted_removeAll)
  qed
qed

text \<open>What the operations of a callback leave alone.\<close>

lemma cancelInLoop_fields [simp]:
  "callingExpiredTimers (cancelInLoop s q) = callingExpiredTimers q"
  "activeExpiredTimers (cancelInLoop s q) = activeExpiredTimers q"
  "fired (cancelInLoop s q) = fired q" "clk (cancelInLoop s q) = clk q"
  "settime_ok (cancelInLoop s q) = settime_ok q"
  by (auto simp: cancelInLoop_def Let_def split: option.splits)

lemma addTimerInLoop_fields [simp]:
  "callingExpiredTimers (addTimerInLoop t q) = callingExpiredTimers q"
  "activeExpiredTimers (addTimerInLoop t q) = activeExpiredTimers q"
  "cancelingTimers (addTimerInLoop t q) = cancelingTimers q"
  "fired (addTimerInLoop t q) = fired q" "clk (addTimerInLoop t q) = clk q"
  "settime_ok (addTimerInLoop t q) = settime_ok q"
  by (auto simp: addTimerInLoop_def Let_def)

lemma exec_op_fields [simp]:
  "callingExpiredTimers (exec_op a q) = callingExpiredTimers q"
  "activeExpiredTimers (exec_op a q) = activeExpiredTimers q"
  "fired (exec_op a q) = fired q" "clk (exec_op a q) = clk q" "settime_ok (exec_op a q) = settime_ok q"
  by (cases a; simp add: cancel_timer_def)+

lemma fold_exec_op_fields [simp]:
  "callingExpiredTimers (fold exec_op ops q) = callingExpiredTimers q"
  "activeExpiredTimers (fold exec_op ops q) = activeExpiredTimers q"
  "fired (fold exec_op ops q) = fired q" "clk (fold exec_op ops q) = clk q"
  "settime_ok (fold exec_op ops q) = settime_ok q"
  by (induction ops arbitrary: q) simp_all

text \<open>
  The timers a callback creates are new: \<open>fresh_ops used ops\<close> says that they are not cancelled and
  that their sequences are outside \<open>used\<close> and pairwise distinct.
\<close>

fun fresh_ops :: "u64 set \<Rightarrow> timer_op list \<Rightarrow> bool" where
  "fresh_ops used [] \<longleftrightarrow> True"
| "fresh_ops used (OpAdd t # ops) \<longleftrightarrow>
     sequence t \<notin> used \<and> \<not> canceled t \<and> fresh_ops (insert (sequence t) used) ops"
| "fresh_ops used (OpCancel s # ops) \<longleftrightarrow> fresh_ops used ops"

fun new_seqs :: "timer_op list \<Rightarrow> u64 set" where
  "new_seqs [] = {}"
| "new_seqs (OpAdd t # ops) = insert (sequence t) (new_seqs ops)"
| "new_seqs (OpCancel s # ops) = new_seqs ops"

definition owned_seqs :: "timer_queue \<Rightarrow> u64 set" where
  "owned_seqs q = dom (map_of (timersOwned q))"

lemma owned_seqs_add: "owned_seqs (addTimerInLoop t q) \<subseteq> insert (sequence t) (owned_seqs q)"
  by (auto simp: addTimerInLoop_def Let_def owned_seqs_def split: option.splits if_splits)

lemma owned_seqs_cancel: "owned_seqs (cancelInLoop s q) \<subseteq> owned_seqs q"
  by (auto simp: cancelInLoop_def Let_def owned_seqs_def split: option.splits if_splits)

lemma tq_split_ops:
  assumes "tq_split A q" "\<And>s. (callingExpiredTimers q \<and> s \<in> set (activeExpiredTimers q)) = (s \<in> A)"
    "fresh_ops used ops" "owned_seqs q \<subseteq> used" "A \<subseteq> used"
  shows "tq_split A (fold exec_op ops q) \<and> owned_seqs (fold exec_op ops q) \<subseteq> used \<union> new_seqs ops"
  using assms
proof (induction ops arbitrary: q used)
  case (Cons a ops)
  show ?case
  proof (cases a)
    case (OpAdd t)
    then have t: "sequence t \<notin> used" "\<not> canceled t" "fresh_ops (insert (sequence t) used) ops"
      using Cons.prems(3) by simp_all
    have "tq_split A (addTimerInLoop t q)"
      using Cons.prems t by (intro tq_split_add) (auto simp: owned_seqs_def)
    then show ?thesis
      using Cons.IH [of "addTimerInLoop t q" "insert (sequence t) used"] Cons.prems t OpAdd owned_seqs_add [of t q]
      by auto
  next
    case (OpCancel s)
    then show ?thesis
      using Cons.IH [of "cancel_timer True True s q" used] Cons.prems tq_split_cancel [of A q s]
        owned_seqs_cancel [of s q]
      by (cases "s = 0") (auto simp: cancel_timer_def)
  qed
qed auto

subsection \<open>One round of expired timers\<close>

text \<open>
  The specification of a round. Callbacks run in the order of the batch; one whose timer was
  cancelled by an earlier callback of the round is skipped.
\<close>

definition cancels :: "timer_op list \<Rightarrow> u64 set" where
  "cancels ops = {s. OpCancel s \<in> set ops \<and> s \<noteq> 0}"

lemma cancels_simps [simp]:
  "cancels [] = {}" "cancels (OpAdd t # ops) = cancels ops"
  "cancels (OpCancel s # ops) = (if s = 0 then cancels ops else insert s (cancels ops))"
  by (auto simp: cancels_def)

fun round_fired :: "(u64 \<Rightarrow> timer_op list) \<Rightarrow> u64 list \<Rightarrow> u64 set \<Rightarrow> u64 list" where
  "round_fired cb [] C = []"
| "round_fired cb (s # ss) C =
     (if s \<in> C then round_fired cb ss C else s # round_fired cb ss (C \<union> cancels (cb s)))"

fun round_cancels :: "(u64 \<Rightarrow> timer_op list) \<Rightarrow> u64 list \<Rightarrow> u64 set \<Rightarrow> u64 set" where
  "round_cancels cb [] C = C"
| "round_cancels cb (s # ss) C =
     (if s \<in> C then round_cancels cb ss C else round_cancels cb ss (C \<union> cancels (cb s)))"

definition core :: "timer \<Rightarrow> bool \<times> int" where
  "core t = (repeat t, interval t)"

definition cores :: "timer_queue \<Rightarrow> u64 \<Rightarrow> (bool \<times> int) option" where
  "cores q s = map_option core (map_of (timersOwned q) s)"

text \<open>The state of a round: \<open>A\<close> is the batch, all of it owned, \<open>C\<close> what has been cancelled so far.\<close>

definition in_round :: "u64 set \<Rightarrow> u64 set \<Rightarrow> timer_queue \<Rightarrow> bool" where
  "in_round A C q \<longleftrightarrow> tq_split A q \<and>
     (\<forall>s. (callingExpiredTimers q \<and> s \<in> set (activeExpiredTimers q)) = (s \<in> A)) \<and>
     A \<subseteq> owned_seqs q \<and> set (cancelingTimers q) \<inter> A = C \<inter> A"

lemma in_round_cancel:
  assumes "in_round A C q" "s \<noteq> 0"
  shows "in_round A (insert s C) (cancelInLoop s q)" "\<forall>r \<in> A. cores (cancelInLoop s q) r = cores q r"
proof -
  have split: "tq_split A (cancelInLoop s q)"
    using assms(1) by (intro tq_split_cancel) (auto simp: in_round_def)
  have sA: "(callingExpiredTimers q \<and> s \<in> set (activeExpiredTimers q)) = (s \<in> A)"
    using assms(1) by (simp add: in_round_def)
  have own: "s \<in> A \<Longrightarrow> map_of (timersOwned q) s \<noteq> None"
    using assms(1) by (auto simp: in_round_def owned_seqs_def)
  have canc: "set (cancelingTimers (cancelInLoop s q)) \<inter> A = insert s C \<inter> A"
    using assms(1) sA own
    by (cases "s \<in> A") (auto simp: cancelInLoop_def Let_def in_round_def split: option.splits)
  show cores: "\<forall>r \<in> A. cores (cancelInLoop s q) r = cores q r"
    using sA own
    by (cases "s \<in> A") (auto simp: cancelInLoop_def Let_def cores_def core_def split: option.splits)
  have "A \<subseteq> owned_seqs (cancelInLoop s q)"
  proof
    fix r assume "r \<in> A"
    with assms(1) have "cores q r \<noteq> None" by (auto simp: in_round_def owned_seqs_def cores_def)
    with cores \<open>r \<in> A\<close> have "cores (cancelInLoop s q) r \<noteq> None" by simp
    then show "r \<in> owned_seqs (cancelInLoop s q)" by (auto simp: owned_seqs_def cores_def)
  qed
  with split canc assms(1) show "in_round A (insert s C) (cancelInLoop s q)" by (simp add: in_round_def)
qed

lemma in_round_add:
  assumes "in_round A C q" "sequence t \<notin> owned_seqs q" "\<not> canceled t"
  shows "in_round A C (addTimerInLoop t q)" "\<forall>r \<in> A. cores (addTimerInLoop t q) r = cores q r"
proof -
  have nA: "sequence t \<notin> A" using assms(1,2) by (auto simp: in_round_def)
  have own: "map_of (timersOwned q) (sequence t) = None" using assms(2) by (auto simp: owned_seqs_def)
  have split: "tq_split A (addTimerInLoop t q)"
    using assms nA own by (intro tq_split_add) (auto simp: in_round_def)
  have "\<forall>r \<in> A. map_of (timersOwned (addTimerInLoop t q)) r = map_of (timersOwned q) r"
    using nA own by (auto simp: addTimerInLoop_def Let_def)
  then show "\<forall>r \<in> A. cores (addTimerInLoop t q) r = cores q r"
    and "in_round A C (addTimerInLoop t q)"
    using split assms(1) by (auto simp: cores_def in_round_def owned_seqs_def)
qed

lemma in_round_ops:
  assumes "in_round A C q" "fresh_ops used ops" "owned_seqs q \<subseteq> used"
  shows "in_round A (C \<union> cancels ops) (fold exec_op ops q)"
    "\<forall>r \<in> A. cores (fold exec_op ops q) r = cores q r"
    "owned_seqs (fold exec_op ops q) \<subseteq> used \<union> new_seqs ops"
proof -
  have "in_round A (C \<union> cancels ops) (fold exec_op ops q) \<and>
      (\<forall>r \<in> A. cores (fold exec_op ops q) r = cores q r) \<and>
      owned_seqs (fold exec_op ops q) \<subseteq> used \<union> new_seqs ops"
    using assms
  proof (induction ops arbitrary: q used C)
    case Nil
    then show ?case by simp
  next
    case (Cons a ops)
    show ?case
    proof (cases a)
      case (OpAdd t)
      then have t: "sequence t \<notin> owned_seqs q" "\<not> canceled t" "fresh_ops (insert (sequence t) used) ops"
        using Cons.prems(2,3) by auto
      note add = in_round_add [OF Cons.prems(1) t(1,2)]
      have u: "owned_seqs (addTimerInLoop t q) \<subseteq> insert (sequence t) used"
        using owned_seqs_add [of t q] Cons.prems(3) by blast
      from Cons.IH [OF add(1) t(3) u] add(2) OpAdd show ?thesis by simp
    next
      case (OpCancel s)
      have f: "fresh_ops used ops" using Cons.prems(2) OpCancel by simp
      show ?thesis
      proof (cases "s = 0")
        case True
        with Cons.IH [OF Cons.prems(1) f Cons.prems(3)] OpCancel show ?thesis
          by (simp add: cancel_timer_def)
      next
        case False
        note can = in_round_cancel [OF Cons.prems(1) False]
        have "owned_seqs (cancelInLoop s q) \<subseteq> used" using owned_seqs_cancel [of s q] Cons.prems(3) by blast
        from Cons.IH [OF can(1) f this] can(2) OpCancel False
        have "in_round A (insert s C \<union> cancels ops) (fold exec_op (a # ops) q)"
          "\<forall>r\<in>A. cores (fold exec_op (a # ops) q) r = cores q r"
          "owned_seqs (fold exec_op (a # ops) q) \<subseteq> used \<union> new_seqs ops"
          by (simp_all add: cancel_timer_def)
        moreover have "insert s C \<union> cancels ops = C \<union> cancels (a # ops)"
          using OpCancel False by auto
        ultimately show ?thesis using OpCancel by simp
      qed
    qed
  qed
  then show "in_round A (C \<union> cancels ops) (fold exec_op ops q)"
    "\<forall>r \<in> A. cores (fold exec_op ops q) r = cores q r"
    "owned_seqs (fold exec_op ops q) \<subseteq> used \<union> new_seqs ops" by simp_all
qed

lemma fresh_ops_append: "fresh_ops used (xs @ ys) \<longleftrightarrow> fresh_ops used xs \<and> fresh_ops (used \<union> new_seqs xs) ys"
  by (induction used xs rule: fresh_ops.induct) auto

lemma fresh_ops_mono: "fresh_ops used ops \<Longrightarrow> used' \<subseteq> used \<Longrightarrow> fresh_ops used' ops"
proof (induction used ops arbitrary: used' rule: fresh_ops.induct)
  case (2 used t ops)
  then show ?case by (auto dest: insert_mono)
qed auto

lemma run_expired_round:
  assumes "in_round A C q" "snd ` set es \<subseteq> A" "owned_seqs q \<subseteq> used"
    "fresh_ops used (concat (map (\<lambda>e. cb (snd e)) es))"
  shows "in_round A (round_cancels cb (map snd es) C) (run_expired cb es q) \<and>
    (\<forall>r \<in> A. cores (run_expired cb es q) r = cores q r) \<and>
    fired (run_expired cb es q) = fired q @ round_fired cb (map snd es) C \<and>
    settime_ok (run_expired cb es q) = settime_ok q"
  using assms
proof (induction es arbitrary: q C used)
  case (Cons e es)
  obtain x s where e: "e = (x, s)" by (cases e)
  have sA: "s \<in> A" and esA: "snd ` set es \<subseteq> A" using Cons.prems(2) e by auto
  obtain t where t: "map_of (timersOwned q) s = Some t"
    using Cons.prems(1) sA by (auto simp: in_round_def owned_seqs_def)
  then have "canceled t \<longleftrightarrow> s \<in> set (cancelingTimers q)"
    using Cons.prems(1) sA by (simp add: in_round_def tq_split_def)
  moreover have "s \<in> set (cancelingTimers q) \<longleftrightarrow> s \<in> C" using Cons.prems(1) sA by (auto simp: in_round_def)
  ultimately have ct: "canceled t \<longleftrightarrow> s \<in> C" by simp
  have fr: "fresh_ops used (cb s)" "fresh_ops (used \<union> new_seqs (cb s)) (concat (map (\<lambda>e. cb (snd e)) es))"
    using Cons.prems(4) e by (simp_all add: fresh_ops_append)
  show ?case
  proof (cases "s \<in> C")
    case True
    have "fresh_ops used (concat (map (\<lambda>e. cb (snd e)) es))" by (rule fresh_ops_mono [OF fr(2)]) simp
    from Cons.IH [OF Cons.prems(1) esA Cons.prems(3) this] True e t ct show ?thesis by simp
  next
    case False
    let ?q = "q\<lparr>fired := fired q @ [s]\<rparr>"
    have q: "in_round A C ?q" "owned_seqs ?q \<subseteq> used" "\<forall>r. cores ?q r = cores q r"
      using Cons.prems(1,3) by (simp_all add: in_round_def tq_split_def owned_seqs_def cores_def)
    note ops = in_round_ops [OF q(1) fr(1) q(2)]
    from Cons.IH [OF ops(1) esA ops(3) fr(2)] ops(2) q(3) False e t ct show ?thesis by simp
  qed
qed simp

subsection \<open>Rescheduling after a round\<close>

definition rescheduled :: "int \<Rightarrow> timer_queue \<Rightarrow> u64 \<Rightarrow> timer option" where
  "rescheduled now q s =
     (case map_of (timersOwned q) s of
        Some t \<Rightarrow> if s \<notin> set (cancelingTimers q) \<and> \<not> canceled t \<and> repeat t then Some (restart now t) else None
      | None \<Rightarrow> None)"

definition restart_one :: "int \<Rightarrow> u64 \<Rightarrow> timer_queue \<Rightarrow> timer_queue" where
  "restart_one now s q =
     (case rescheduled now q s of
        None \<Rightarrow> q\<lparr>timersOwned := AList.delete s (timersOwned q)\<rparr>
      | Some t' \<Rightarrow> q\<lparr>timersOwned := AList.update s t' (timersOwned q),
                     timers := insort_insert (expiration t', sequence t') (timers q)\<rparr>)"

lemma delete_absent: "map_of al s = None \<Longrightarrow> AList.delete s al = al"
  by (induction al) (auto split: if_splits)

lemma restart_expired_Cons: "restart_expired now (e # es) q = restart_expired now es (restart_one now (snd e) q)"
  by (auto simp: restart_one_def rescheduled_def Let_def delete_absent split: option.splits)

lemma restart_one_split:
  assumes "tq_split (insert s A) q" "s \<notin> A"
  shows "tq_split A (restart_one now s q)"
proof (cases "rescheduled now q s")
  case None
  then show ?thesis
    using assms by (auto simp: restart_one_def rescheduled_def tq_split_def split: option.splits)
next
  case (Some t')
  then obtain t where t: "map_of (timersOwned q) s = Some t" "t' = restart now t" "\<not> canceled t"
    "s \<notin> set (cancelingTimers q)"
    by (auto simp: rescheduled_def split: option.splits if_splits)
  then have "sequence t' = s" "\<not> canceled t'" using assms(1) by (auto simp: tq_split_def restart_def)
  moreover have "\<forall>x. (x, s) \<notin> set (timers q)" using assms(1) by (auto simp: tq_split_def)
  ultimately show ?thesis
    using assms Some t
    by (auto simp: restart_one_def tq_split_def strict_sorted_insort_insert set_insort_insert)
qed

lemma restart_one_fields [simp]:
  "cancelingTimers (restart_one now s q) = cancelingTimers q" "fired (restart_one now s q) = fired q"
  "settime_ok (restart_one now s q) = settime_ok q"
  "callingExpiredTimers (restart_one now s q) = callingExpiredTimers q"
  "map_of (timersOwned (restart_one now s q)) = (map_of (timersOwned q))(s := rescheduled now q s)"
  by (auto simp: restart_one_def split: option.splits)

lemma restart_expired_split:
  assumes "tq_split (snd ` set es) q" "distinct (map snd es)"
  shows "tq_split {} (restart_expired now es q) \<and>
    map_of (timersOwned (restart_expired now es q)) =
      (\<lambda>s. if s \<in> snd ` set es then rescheduled now q s else map_of (timersOwned q) s) \<and>
    cancelingTimers (restart_expired now es q) = cancelingTimers q \<and>
    fired (restart_expired now es q) = fired q \<and> settime_ok (restart_expired now es q) = settime_ok q \<and>
    callingExpiredTimers (restart_expired now es q) = callingExpiredTimers q"
  using assms
proof (induction es arbitrary: q)
  case (Cons e es)
  let ?q = "restart_one now (snd e) q"
  have "tq_split (snd ` set es) ?q"
    using Cons.prems by (intro restart_one_split) auto
  moreover have "s \<in> snd ` set es \<Longrightarrow> rescheduled now ?q s = rescheduled now q s" for s
    using Cons.prems(2) by (cases "s = snd e"; cases "map_of (timersOwned q) s") (auto simp: rescheduled_def)
  ultimately show ?case
    using Cons.IH [of ?q] Cons.prems(2) unfolding restart_expired_Cons by (auto simp: fun_eq_iff)
qed simp

subsection \<open>The whole handler\<close>

definition due :: "int \<Rightarrow> timer_queue \<Rightarrow> timer_entry list" where
  "due now q = filter (\<lambda>e. fst e \<le> now) (timers q)"

lemma entry_le_max: "e \<le> (now :: int, - 1 :: u64) \<longleftrightarrow> fst e \<le> now"
  by (cases e) (auto simp: less_eq_prod_def)

lemma sorted_takeWhile_filter:
  "sorted_wrt (<) xs \<Longrightarrow> (\<And>x y. x < y \<Longrightarrow> P y \<Longrightarrow> P x) \<Longrightarrow>
   takeWhile P xs = filter P xs \<and> dropWhile P xs = filter (\<lambda>x. \<not> P x) xs"
proof (induction xs)
  case (Cons a xs)
  have "\<not> P a \<Longrightarrow> \<forall>x \<in> set xs. \<not> P x" using Cons.prems by auto
  with Cons show ?case by (auto simp: filter_empty_conv)
qed simp

lemma getExpired_due:
  assumes "tq_split A q"
  shows "getExpired now q = (due now q, q\<lparr>timers := filter (\<lambda>e. \<not> fst e \<le> now) (timers q)\<rparr>)"
proof -
  have "takeWhile (\<lambda>e. fst e \<le> now) (timers q) = due now q \<and>
      dropWhile (\<lambda>e. fst e \<le> now) (timers q) = filter (\<lambda>e. \<not> fst e \<le> now) (timers q)"
    unfolding due_def using assms
    by (intro sorted_takeWhile_filter) (auto simp: tq_split_def less_prod_def)
  then show ?thesis by (simp add: getExpired_def entry_le_max)
qed

lemma due_distinct:
  assumes "tq_split {} q"
  shows "distinct (map snd (due now q))"
proof -
  have "distinct (timers q)" using assms by (simp add: tq_split_def strict_sorted_iff)
  moreover have "inj_on snd (set (timers q))"
    using assms by (intro inj_onI) (auto simp: tq_split_def)
  ultimately show ?thesis
    by (auto simp: due_def distinct_map intro: inj_on_subset)
qed

lemma round_start:
  assumes "tq_split {} q"
  shows "in_round (snd ` set (due now q)) {}
     (q\<lparr>clk := now, timers := filter (\<lambda>e. \<not> fst e \<le> now) (timers q),
        activeExpiredTimers := remdups (map snd (due now q)), callingExpiredTimers := True, cancelingTimers := []\<rparr>)"
proof -
  have mem: "(x, s) \<in> set (timers q) \<longleftrightarrow> map_option expiration (map_of (timersOwned q) s) = Some x" for x s
    using assms by (simp add: tq_split_def)
  have "s \<in> snd ` set (due now q) \<longleftrightarrow> (\<exists>x \<le> now. map_option expiration (map_of (timersOwned q) s) = Some x)" for s
  proof
    assume "s \<in> snd ` set (due now q)"
    then obtain x where "(x, s) \<in> set (timers q)" "x \<le> now" by (auto simp: due_def)
    with mem show "\<exists>x \<le> now. map_option expiration (map_of (timersOwned q) s) = Some x" by blast
  next
    assume "\<exists>x \<le> now. map_option expiration (map_of (timersOwned q) s) = Some x"
    then obtain x where "(x, s) \<in> set (timers q)" "x \<le> now" using mem by blast
    then show "s \<in> snd ` set (due now q)" by (force simp: due_def)
  qed
  note A = this
  have "snd ` set (due now q) \<subseteq> owned_seqs q"
  proof
    fix s assume "s \<in> snd ` set (due now q)"
    with A show "s \<in> owned_seqs q" by (auto simp: owned_seqs_def)
  qed
  moreover have "(x, s) \<in> set (timers q) \<and> \<not> x \<le> now \<longleftrightarrow>
      s \<notin> snd ` set (due now q) \<and> map_option expiration (map_of (timersOwned q) s) = Some x" for x s
    using A mem by auto
  ultimately show ?thesis
    using assms by (simp add: in_round_def tq_split_def sorted_wrt_filter owned_seqs_def)
qed

lemma armed_ok_reset:
  "settime_ok q \<Longrightarrow> armed_ok (if timers q \<noteq> [] then resetTimerfd (fst (hd (timers q))) q else disarmTimerfd q)"
  by (cases "timers q") (auto simp: armed_ok_def resetTimerfd_eq disarmTimerfd_def)

text \<open>What a round leaves of the timers that were due.\<close>

definition after_round :: "int \<Rightarrow> u64 set \<Rightarrow> timer_queue \<Rightarrow> u64 \<Rightarrow> int option" where
  "after_round now C q s =
     (case map_of (timersOwned q) s of
        Some t \<Rightarrow> if repeat t \<and> s \<notin> C then Some (now + interval t * ms_ns) else None
      | None \<Rightarrow> None)"

lemma timer_round:
  fixes q :: timer_queue and now :: int
  defines "es \<equiv> due now q"
  assumes "tq_ok q" "read_timerfd rs" "fresh_ops (owned_seqs q) (concat (map (\<lambda>e. cb (snd e)) es))"
  shows "let q' = timer_handleRead rs now later cb q in
    tq_ok q' \<and> fired q' = fired q @ round_fired cb (map snd es) {} \<and>
    (\<forall>s \<in> snd ` set es. map_option expiration (map_of (timersOwned q') s) =
       after_round now (round_cancels cb (map snd es) {}) q s)"
proof -
  let ?A = "snd ` set es" and ?C = "round_cancels cb (map snd es) {}"
  define q2 where "q2 = q\<lparr>clk := now, timers := filter (\<lambda>e. \<not> fst e \<le> now) (timers q),
     activeExpiredTimers := remdups (map snd es), callingExpiredTimers := True, cancelingTimers := []\<rparr>"
  define q3 where "q3 = (run_expired cb es q2)\<lparr>callingExpiredTimers := False\<rparr>"
  define q4 where "q4 = (restart_expired now es q3)\<lparr>clk := later\<rparr>"
  let ?q' = "(if timers q4 \<noteq> [] then resetTimerfd (fst (hd (timers q4))) q4 else disarmTimerfd q4)
     \<lparr>activeExpiredTimers := [], cancelingTimers := []\<rparr>"
  have split: "tq_split {} q" "activeExpiredTimers q = []" using assms(2) by (simp_all add: tq_ok_def)
  have "getExpired now (q\<lparr>clk := now\<rparr>) = (es, q\<lparr>clk := now, timers := filter (\<lambda>e. \<not> fst e \<le> now) (timers q)\<rparr>)"
    using getExpired_due [of "{}" "q\<lparr>clk := now\<rparr>" now] split(1) by (simp add: es_def due_def tq_split_def)
  then have q': "timer_handleRead rs now later cb q = ?q'"
    using assms(3) split(2) by (simp add: timer_handleRead_def Let_def q2_def q3_def q4_def)
  have r2: "in_round ?A {} q2" unfolding q2_def es_def by (rule round_start [OF split(1)])
  have own: "owned_seqs q2 \<subseteq> owned_seqs q" by (simp add: q2_def owned_seqs_def)
  have r3: "in_round ?A ?C (run_expired cb es q2)" "\<forall>r \<in> ?A. cores (run_expired cb es q2) r = cores q2 r"
    "fired (run_expired cb es q2) = fired q2 @ round_fired cb (map snd es) {}"
    using run_expired_round [OF r2 _ own assms(4)] by simp_all
  have s3: "tq_split ?A q3" and c3: "set (cancelingTimers q3) \<inter> ?A = ?C \<inter> ?A"
    and k3: "\<forall>r \<in> ?A. cores q3 r = cores q r"
    using r3(1,2) by (simp_all add: q3_def in_round_def tq_split_def cores_def q2_def)
  note r4 = restart_expired_split [OF s3 due_distinct [OF split(1), of now, folded es_def], of now]
  have "tq_split {} q4" using r4 by (simp add: q4_def tq_split_def)
  then have "tq_split {} ?q'" by (cases "timers q4 = []") (simp_all add: tq_split_def)
  moreover have "settime_ok ?q' \<longrightarrow> armed_ok ?q'"
    using armed_ok_reset [of q4] by (cases "timers q4") (simp_all add: armed_ok_def)
  moreover have "\<not> callingExpiredTimers ?q'" using r4 by (simp add: q4_def q3_def)
  ultimately have ok: "tq_ok ?q'" by (simp add: tq_ok_def)
  have "map_option expiration (rescheduled now q3 s) = after_round now ?C q s" if "s \<in> ?A" for s
  proof -
    have "s \<in> owned_seqs (run_expired cb es q2)" using r3(1) that unfolding in_round_def by blast
    then obtain t where t: "map_of (timersOwned q3) s = Some t" by (auto simp: owned_seqs_def q3_def)
    moreover have "canceled t \<longleftrightarrow> s \<in> set (cancelingTimers q3)" using s3 t that by (simp add: tq_split_def)
    moreover have "s \<in> set (cancelingTimers q3) \<longleftrightarrow> s \<in> ?C" using c3 that by blast
    moreover have "cores q3 s = cores q s" using k3 that by blast
    ultimately show ?thesis
      by (auto simp: rescheduled_def after_round_def cores_def core_def restart_def split: option.splits)
  qed
  then have "\<forall>s \<in> ?A. map_option expiration (map_of (timersOwned ?q') s) = after_round now ?C q s"
    using r4 by (simp add: q4_def)
  moreover have "fired ?q' = fired q @ round_fired cb (map snd es) {}"
    using r4 r3(3) by (simp add: q4_def q3_def q2_def)
  ultimately show ?thesis unfolding q' Let_def using ok by simp
qed

subsection \<open>Outside a round\<close>

lemma hd_insort_insert:
  "hd (insort_insert x xs) = (if xs = [] \<or> (x :: 'a :: linorder) < hd xs then x else hd xs)"
  if "sorted_wrt (<) xs"
  using that by (cases xs) (auto simp: insort_insert_key_def not_less)

lemma armed_ok_hd:
  "armed_ok q \<longleftrightarrow> (if timers q = [] then armed q = None
     else \<exists>a. armed q = Some a \<and> a \<le> max (fst (hd (timers q))) (clk q + ms_ns))"
  by (cases "timers q") (simp_all add: armed_ok_def)

lemma tq_ok_add:
  assumes "tq_ok q" "sequence t \<notin> owned_seqs q" "\<not> canceled t"
  shows "tq_ok (addTimerInLoop t q)"
proof -
  have split: "tq_split {} q" using assms(1) by (simp add: tq_ok_def)
  have "tq_split {} (addTimerInLoop t q)"
    using split assms(2,3) by (intro tq_split_add) (auto simp: owned_seqs_def)
  moreover have "armed_ok (addTimerInLoop t q)" if ok: "armed_ok q" "settime_ok q"
  proof (cases "sequence t \<in> set (pendingCancel q)")
    case True
    with ok show ?thesis by (simp add: addTimerInLoop_def Let_def armed_ok_hd)
  next
    case False
    let ?e = "(expiration t, sequence t)"
    have hd: "hd (insort_insert ?e (timers q)) = (if timers q = [] \<or> ?e < hd (timers q) then ?e else hd (timers q))"
      using split by (intro hd_insort_insert) (simp add: tq_split_def)
    have ne: "insort_insert ?e (timers q) \<noteq> []"
      by (metis empty_iff empty_set insertI1 set_insort_insert)
    show ?thesis
    proof (cases "timers q = [] \<or> expiration t < fst (hd (timers q))")
      case True
      then have "?e < hd (timers q) \<or> timers q = []" by (cases "hd (timers q)") auto
      with True False hd ne ok(2) show ?thesis
        by (auto simp: addTimerInLoop_def Let_def armed_ok_hd resetTimerfd_eq)
    next
      case F: False
      then have "fst (hd (insort_insert ?e (timers q))) = fst (hd (timers q))"
        using hd by (cases "hd (timers q)") (auto simp: less_prod_def)
      with F False ok(1) ne show ?thesis
        by (auto simp: addTimerInLoop_def Let_def armed_ok_hd)
    qed
  qed
  ultimately show ?thesis using assms(1) by (simp add: tq_ok_def)
qed

lemma tq_ok_cancel:
  assumes "tq_ok q"
  shows "tq_ok (cancelInLoop s q)" "s \<notin> owned_seqs (cancelInLoop s q)"
proof -
  have split: "tq_split {} q" and idle: "\<not> callingExpiredTimers q" "cancelingTimers q = []"
    using assms by (simp_all add: tq_ok_def)
  have "tq_split {} (cancelInLoop s q)" using split idle by (intro tq_split_cancel) simp_all
  moreover have "armed_ok (cancelInLoop s q)" if ok: "armed_ok q" "settime_ok q"
  proof (cases "map_of (timersOwned q) s")
    case None
    with ok show ?thesis by (simp add: cancelInLoop_def armed_ok_hd)
  next
    case (Some t)
    let ?e = "(expiration t, s)"
    have mem: "?e \<in> set (timers q)" using split Some by (simp add: tq_split_def)
    then obtain e es where ts: "timers q = e # es" by (cases "timers q") auto
    show ?thesis
    proof (cases "snd e = s")
      case True
      then have "(fst e, s) \<in> set (timers q)" using ts by auto
      moreover have "(fst e, s) \<in> set (timers q) \<longleftrightarrow> map_option expiration (map_of (timersOwned q) s) = Some (fst e)"
        using split by (simp add: tq_split_def)
      ultimately have "fst e = expiration t" using Some by simp
      with True Some ok idle ts show ?thesis
        by (auto simp: cancelInLoop_def Let_def armed_ok_hd resetTimerfd_eq disarmTimerfd_def)
    next
      case False
      then have "e \<noteq> ?e" by auto
      with False Some ok idle ts show ?thesis
        by (auto simp: cancelInLoop_def Let_def armed_ok_hd)
    qed
  qed
  moreover have "cancelingTimers (cancelInLoop s q) = []"
    using idle by (auto simp: cancelInLoop_def Let_def split: option.splits)
  ultimately show "tq_ok (cancelInLoop s q)" using assms by (simp add: tq_ok_def)
  show "s \<notin> owned_seqs (cancelInLoop s q)"
    using idle by (auto simp: cancelInLoop_def Let_def owned_seqs_def split: option.splits)
qed

lemma round_fired_subset: "set (round_fired cb ss C) \<subseteq> set ss"
  by (induction cb ss C rule: round_fired.induct) auto

subsection \<open>Properties\<close>

text \<open>
  When the timerfd fires, the handler runs the callbacks of exactly the timers that are due, in
  the order of expiration and creation, leaving out those that an earlier callback of the same round
  cancelled; it leaves a repeating timer that was not cancelled scheduled one interval after now,
  drops every other timer of the round, and re-establishes the invariant of the queue, with the
  timerfd set no later than the earliest expiration (or one millisecond from now).
\<close>

theorem timer_round_exact:
  assumes "tq_ok q" "read_timerfd rs"
    and "fresh_ops (owned_seqs q) (concat (map (\<lambda>e. cb (snd e)) (due now q)))"
  shows "let q' = timer_handleRead rs now later cb q in
    tq_ok q' \<and> fired q' = fired q @ round_fired cb (map snd (due now q)) {} \<and>
    (\<forall>s \<in> snd ` set (due now q). map_option expiration (map_of (timersOwned q') s) =
       after_round now (round_cancels cb (map snd (due now q)) {}) q s)"
  by (rule timer_round [OF assms])

definition demo_queue :: timer_queue where
  "demo_queue =
     addTimerInLoop (fst (Timer_new 7 0 1)) (addTimerInLoop (fst (Timer_new 5 10 0))
       \<lparr>timers = [], timersOwned = [], callingExpiredTimers = False, activeExpiredTimers = [],
        cancelingTimers = [], pendingCancel = [], pendingAddSequences = [], functors = [], armed = None,
        settime_ok = True, clk = 0, fired = []\<rparr>)"

lemma demo_queue_ok: "tq_ok demo_queue" "owned_seqs demo_queue \<subseteq> {1, 2}" "fired demo_queue = []"
  "due 10 demo_queue = [(5, 1), (7, 2)]" "map_of (timersOwned demo_queue) 1 = Some (fst (Timer_new 5 10 0))"
proof -
  let ?q = "\<lparr>timers = [], timersOwned = [], callingExpiredTimers = False, activeExpiredTimers = [],
        cancelingTimers = [], pendingCancel = [], pendingAddSequences = [], functors = [], armed = None,
        settime_ok = True, clk = 0, fired = []\<rparr>"
  have "tq_ok ?q" by (simp add: tq_ok_def tq_split_def armed_ok_def)
  then have "tq_ok (addTimerInLoop (fst (Timer_new 5 10 0)) ?q)"
    by (rule tq_ok_add) (simp_all add: Timer_new_def owned_seqs_def)
  then show "tq_ok demo_queue" unfolding demo_queue_def
    by (rule tq_ok_add) (simp_all add: Timer_new_def owned_seqs_def addTimerInLoop_def Let_def emplace_def)
qed (simp_all add: demo_queue_def Timer_new_def owned_seqs_def addTimerInLoop_def Let_def emplace_def due_def
       insort_insert_key_def)

theorem timer_round_exact_witness:
  "let q' = timer_handleRead [TfdError EINTR, TfdCount] 10 12 (\<lambda>s. if s = 1 then [OpCancel 2] else []) demo_queue in
   fired q' = [1] \<and> map_option expiration (map_of (timersOwned q') 1) = Some 10000010 \<and>
   map_of (timersOwned q') 2 = None"
  using timer_round_exact [OF demo_queue_ok(1), of "[TfdError EINTR, TfdCount]"
      "\<lambda>s. if s = 1 then [OpCancel 2] else []" 10 12] demo_queue_ok(3,4,5)
  by (simp add: Let_def after_round_def Timer_new_def ms_ns_def split: option.splits)



text \<open>
  A cancellation that overtakes the queued addition of its timer wins: after the addition has
  run, the timer is not owned, the queue is otherwise unchanged and no mark is left behind.
\<close>

theorem cancel_before_add_wins:
  assumes "tq_ok q" "s \<notin> owned_seqs q" "s \<notin> set (pendingAddSequences q)" "s \<notin> set (pendingCancel q)"
    and "addTimer False when intv (s - 1) q = (s, q1)" "s \<noteq> 0"
    and "functors q1 = functors q @ [f]"
  shows "let q2 = run_functor f (cancel_timer True True s q1) in
    timers q2 = timers q \<and> timersOwned q2 = timersOwned q \<and> armed q2 = armed q \<and>
    s \<notin> set (pendingCancel q2) \<and> s \<notin> set (pendingAddSequences q2)"
proof -
  have q1: "q1 = q\<lparr>pendingAddSequences := List.insert s (pendingAddSequences q),
      functors := functors q @ [AddTimerInLoop (fst (Timer_new when intv (s - 1)))]\<rparr>"
    using assms(5) by (simp add: addTimer_def Timer_new_def Let_def)
  then have f: "f = AddTimerInLoop (fst (Timer_new when intv (s - 1)))" using assms(7) by simp
  have "map_of (timersOwned q) s = None" using assms(2) by (auto simp: owned_seqs_def)
  then show ?thesis
    using assms(4,6) by (simp add: f q1 cancel_timer_def cancelInLoop_def addTimerInLoop_def Timer_new_def Let_def)
qed

theorem cancel_before_add_wins_witness:
  "let q1 = snd (addTimer False 20 0 6 demo_queue);
       q2 = run_functor (hd (functors q1)) (cancel_timer True True 7 q1)
   in timers q2 = timers demo_queue \<and> pendingCancel q2 = []"
proof -
  have p: "pendingAddSequences demo_queue = []" "pendingCancel demo_queue = []" "functors demo_queue = []"
    by (simp_all add: demo_queue_def Timer_new_def addTimerInLoop_def Let_def emplace_def resetTimerfd_eq)
  let ?q1 = "snd (addTimer False 20 0 6 demo_queue)"
  let ?f = "AddTimerInLoop (fst (Timer_new 20 0 6))"
  have a: "addTimer False 20 0 (7 - 1) demo_queue = (7, ?q1)" "functors ?q1 = [?f]"
    using p by (simp_all add: addTimer_def Timer_new_def Let_def)
  have n: "(7 :: u64) \<notin> owned_seqs demo_queue" using demo_queue_ok(2) by auto
  have "pendingCancel (run_functor ?f (cancel_timer True True 7 ?q1)) = []"
    using p n by (simp add: addTimer_def Timer_new_def Let_def cancel_timer_def cancelInLoop_def addTimerInLoop_def
        owned_seqs_def domIff split: option.splits)
  with cancel_before_add_wins [OF demo_queue_ok(1) n _ _ a(1), of ?f] p a(2) show ?thesis by (simp add: Let_def)
qed

end
