(* ===== verification/Executor.thy ===== *)
theory Executor
  imports Prelude "HOL-Library.Multiset"
begin

text \<open>
  Task execution: \<open>src/include/infra/thread/ThreadSafeQueue.h\<close>, \<open>ThreadTypes.h\<close>, \<open>ThreadPool.h\<close>,
  \<open>KeyedSerialExecutor.h\<close> and \<open>src/src/infra/thread/*.cpp\<close>.

  Each critical section of the queue is one atomic operation. A pool is a step system: submitting
  threads, workers that take and finish tasks, and the thread that stops the pool interleave. The
  lists \<open>accepted\<close>, \<open>started\<close>, \<open>finished\<close> and \<open>discarded\<close> are history variables; everything else is a
  member of the class (the counters are unbounded here). \<open>fifo_queue\<close> is the interface the pool
  relies on.
\<close>

subsection \<open>The bounded queue\<close>

datatype QueuePushResult = PushOk | PushFull | PushClosed

datatype QueueCloseMode = Drain | Discard

record 'a ts_queue =
  items :: "'a list"
  capacity :: nat
  q_closed :: bool

definition queue_new :: "nat \<Rightarrow> 'a ts_queue" where
  "queue_new c = \<lparr>items = [], capacity = c, q_closed = False\<rparr>"

definition push :: "'a \<Rightarrow> 'a ts_queue \<Rightarrow> QueuePushResult \<times> 'a ts_queue" where
  "push v q =
     (if q_closed q then (PushClosed, q)
      else if capacity q \<noteq> 0 \<and> length (items q) \<ge> capacity q then (PushFull, q)
      else (PushOk, q\<lparr>items := items q @ [v]\<rparr>))"

definition tryPop :: "'a ts_queue \<Rightarrow> 'a option \<times> 'a ts_queue" where
  "tryPop q = (case items q of [] \<Rightarrow> (None, q) | x # xs \<Rightarrow> (Some x, q\<lparr>items := xs\<rparr>))"

text \<open>\<open>waitPop\<close> blocks while the queue is open and empty: the outer \<open>None\<close>.\<close>

definition waitPop :: "'a ts_queue \<Rightarrow> ('a option \<times> 'a ts_queue) option" where
  "waitPop q = (if q_closed q \<or> items q \<noteq> [] then Some (tryPop q) else None)"

definition close_queue :: "QueueCloseMode \<Rightarrow> 'a ts_queue \<Rightarrow> 'a ts_queue" where
  "close_queue mode q =
     (if q_closed q then q
      else q\<lparr>q_closed := True, items := (if mode = Discard then [] else items q)\<rparr>)"

subsection \<open>The interface of a queue\<close>

datatype 'a queue_op = Push 'a | Pop

locale fifo_queue =
  fixes contents :: "'q \<Rightarrow> 'a list"
    and enq :: "'a \<Rightarrow> 'q \<Rightarrow> bool \<times> 'q"
    and deq :: "'q \<Rightarrow> 'a option \<times> 'q"
  assumes enq_contents: "enq x q = (ok, q') \<Longrightarrow> contents q' = contents q @ (if ok then [x] else [])"
    and deq_contents: "deq q = (r, q') \<Longrightarrow> contents q = (case r of None \<Rightarrow> [] | Some x \<Rightarrow> [x]) @ contents q'"
    and deq_none: "deq q = (None, q') \<Longrightarrow> contents q = []"
begin

text \<open>A run of operations, with the values accepted and the values taken.\<close>

fun run :: "'a queue_op list \<Rightarrow> 'q \<Rightarrow> 'a list \<times> 'a list \<times> 'q" where
  "run [] q = ([], [], q)"
| "run (Push x # ops) q =
     (case enq x q of (ok, q') \<Rightarrow> case run ops q' of (acc, tak, q'') \<Rightarrow> ((if ok then x # acc else acc), tak, q''))"
| "run (Pop # ops) q =
     (case deq q of (r, q') \<Rightarrow> case run ops q' of (acc, tak, q'') \<Rightarrow>
        (acc, (case r of None \<Rightarrow> tak | Some x \<Rightarrow> x # tak), q''))"

text \<open>Whatever the interleaving of producers and consumers, values leave in the order they entered.\<close>

lemma run_fifo: "run ops q = (acc, tak, q') \<Longrightarrow> contents q @ acc = tak @ contents q'"
proof (induction ops q arbitrary: acc tak rule: run.induct)
  case (2 x ops q)
  obtain ok q1 where e: "enq x q = (ok, q1)" by (cases "enq x q")
  obtain a t where r: "run ops q1 = (a, t, q')" using 2(2) e by (auto split: prod.splits)
  with 2(1) [OF e [symmetric] r] 2(2) e enq_contents [OF e] show ?case by (auto split: if_splits)
next
  case (3 ops q)
  obtain v q1 where d: "deq q = (v, q1)" by (cases "deq q")
  obtain a t where r: "run ops q1 = (a, t, q')" using 3(2) d by (auto split: prod.splits)
  with 3(1) [OF d [symmetric] r] 3(2) d deq_contents [OF d] show ?case by (auto split: option.splits)
qed simp

end

definition push_ok :: "'a \<Rightarrow> 'a ts_queue \<Rightarrow> bool \<times> 'a ts_queue" where
  "push_ok x q = (case push x q of (r, q') \<Rightarrow> (r = PushOk, q'))"

interpretation task_queue: fifo_queue items push_ok tryPop
  by unfold_locales (auto simp: push_ok_def push_def tryPop_def split: if_splits list.splits)

lemma push_bounded:
  "push x q = (r, q') \<Longrightarrow> capacity q \<noteq> 0 \<Longrightarrow> length (items q) \<le> capacity q \<Longrightarrow>
   length (items q') \<le> capacity q' \<and> capacity q' = capacity q"
  by (auto simp: push_def split: if_splits)

subsection \<open>The thread pool\<close>

datatype ThreadPoolState = Running | Stopping | Stopped

datatype TaskSubmitResult = Accepted | QueueFull | SubmitStopping | InvalidTask

fun taskResultFromqueuePushResult :: "QueuePushResult \<Rightarrow> TaskSubmitResult" where
  "taskResultFromqueuePushResult PushOk = Accepted"
| "taskResultFromqueuePushResult PushFull = QueueFull"
| "taskResultFromqueuePushResult PushClosed = SubmitStopping"

record 'a thread_pool =
  taskQueue :: "'a ts_queue"
  workers :: nat
  pool_state :: ThreadPoolState
  active :: "'a list"
  submittedTasks :: nat
  completedTasks :: nat
  failedTasks :: nat
  rejectedFull :: nat
  rejectedStopped :: nat
  accepted :: "'a list"
  started :: "'a list"
  finished :: "'a list"
  discarded :: "'a list"

text \<open>The constructor throws (\<open>None\<close>) when no worker is asked for.\<close>

definition ThreadPool_new :: "nat \<Rightarrow> nat \<Rightarrow> 'a thread_pool option" where
  "ThreadPool_new threadCount queueCapacity =
     (if threadCount = 0 then None
      else Some \<lparr>taskQueue = queue_new queueCapacity, workers = threadCount, pool_state = Running, active = [],
        submittedTasks = 0, completedTasks = 0, failedTasks = 0, rejectedFull = 0, rejectedStopped = 0,
        accepted = [], started = [], finished = [], discarded = []\<rparr>)"

text \<open>The part of \<open>submit\<close> after the state test: another thread may stop the pool in between.\<close>

definition submit_push :: "'a \<Rightarrow> 'a thread_pool \<Rightarrow> TaskSubmitResult \<times> 'a thread_pool" where
  "submit_push t p =
     (case push t (taskQueue p) of (r, q) \<Rightarrow>
        let res = taskResultFromqueuePushResult r; p1 = p\<lparr>taskQueue := q\<rparr> in
        (res,
         if res = Accepted then p1\<lparr>submittedTasks := submittedTasks p + 1, accepted := accepted p @ [t]\<rparr>
         else if res = QueueFull then p1\<lparr>rejectedFull := rejectedFull p + 1\<rparr>
         else if res = SubmitStopping then p1\<lparr>rejectedStopped := rejectedStopped p + 1\<rparr>
         else p1))"

definition submit :: "'a option \<Rightarrow> 'a thread_pool \<Rightarrow> TaskSubmitResult \<times> 'a thread_pool" where
  "submit task p =
     (case task of
        None \<Rightarrow> (InvalidTask, p)
      | Some t \<Rightarrow> if pool_state p \<noteq> Running then (SubmitStopping, p) else submit_push t p)"

text \<open>
  A worker: the pop that opens an iteration of \<open>workerThread\<close>, and the end of the task, with the
  outcome (\<open>False\<close>: it threw).
\<close>

definition worker_take :: "'a thread_pool \<Rightarrow> 'a thread_pool option" where
  "worker_take p =
     (case waitPop (taskQueue p) of
        Some (Some t, q) \<Rightarrow>
          Some (p\<lparr>taskQueue := q, active := active p @ [t], started := started p @ [t]\<rparr>)
      | _ \<Rightarrow> None)"

definition worker_finish :: "'a \<Rightarrow> bool \<Rightarrow> 'a thread_pool \<Rightarrow> 'a thread_pool" where
  "worker_finish t ok p =
     (let p1 = p\<lparr>active := remove1 t (active p), finished := finished p @ [t]\<rparr>
      in if ok then p1\<lparr>completedTasks := completedTasks p + 1\<rparr>
         else p1\<lparr>failedTasks := failedTasks p + 1\<rparr>)"

text \<open>The first half of \<open>stop\<close>, up to closing the queue; \<open>None\<close> when another thread is at it.\<close>

definition stop_begin :: "QueueCloseMode \<Rightarrow> 'a thread_pool \<Rightarrow> 'a thread_pool option" where
  "stop_begin mode p =
     (if pool_state p \<noteq> Running then None
      else Some (p\<lparr>pool_state := Stopping, taskQueue := close_queue mode (taskQueue p),
                  discarded := (if mode = Discard \<and> \<not> q_closed (taskQueue p)
                                then discarded p @ items (taskQueue p) else discarded p)\<rparr>))"

text \<open>The second half: every worker has left its loop, which needs a closed and empty queue.\<close>

definition stop_end :: "'a thread_pool \<Rightarrow> 'a thread_pool option" where
  "stop_end p =
     (if pool_state p = Stopping \<and> q_closed (taskQueue p) \<and> items (taskQueue p) = [] \<and> active p = []
      then Some (p\<lparr>pool_state := Stopped\<rparr>) else None)"

inductive worker_step :: "'a thread_pool \<Rightarrow> 'a thread_pool \<Rightarrow> bool" where
  take: "length (active p) < workers p \<Longrightarrow> worker_take p = Some p' \<Longrightarrow> worker_step p p'"
| finish: "t \<in> set (active p) \<Longrightarrow> worker_step p (worker_finish t ok p)"

inductive pool_step :: "'a thread_pool \<Rightarrow> 'a thread_pool \<Rightarrow> bool" where
  submit: "submit task p = (r, p') \<Longrightarrow> pool_step p p'"
| late_push: "submit_push t p = (r, p') \<Longrightarrow> pool_step p p'"
| work: "worker_step p p' \<Longrightarrow> pool_step p p'"
| stop_begin: "stop_begin mode p = Some p' \<Longrightarrow> pool_step p p'"
| stop_end: "stop_end p = Some p' \<Longrightarrow> pool_step p p'"

inductive_cases worker_stepE: "worker_step p p'"
inductive_cases pool_stepE: "pool_step p p'"

text \<open>
  Nothing is lost or run twice: what was accepted is, in order, what was started, followed by what
  is still queued or was discarded; what was started is running or finished; the counters count.
\<close>

definition pool_inv :: "'a thread_pool \<Rightarrow> bool" where
  "pool_inv p \<longleftrightarrow>
     accepted p = started p @ discarded p @ items (taskQueue p) \<and>
     (discarded p \<noteq> [] \<longrightarrow> items (taskQueue p) = []) \<and>
     mset (started p) = mset (active p) + mset (finished p) \<and>
     submittedTasks p = length (accepted p) \<and>
     completedTasks p + failedTasks p = length (finished p) \<and>
     length (active p) \<le> workers p \<and>
     (capacity (taskQueue p) \<noteq> 0 \<longrightarrow> length (items (taskQueue p)) \<le> capacity (taskQueue p)) \<and>
     (pool_state p = Running \<longleftrightarrow> \<not> q_closed (taskQueue p)) \<and>
     (pool_state p = Running \<longrightarrow> discarded p = []) \<and>
     (pool_state p = Stopped \<longrightarrow> items (taskQueue p) = [] \<and> active p = [])"

lemma pool_inv_new: "ThreadPool_new n c = Some p \<Longrightarrow> pool_inv p"
  by (auto simp: ThreadPool_new_def pool_inv_def queue_new_def split: if_splits)

lemma pool_inv_push:
  assumes "pool_inv p" "submit_push t p = (r, p')"
  shows "pool_inv p'"
proof (cases "push t (taskQueue p)")
  case (Pair k q)
  show ?thesis
  proof (cases k)
    case PushOk
    with Pair have "\<not> q_closed (taskQueue p)" "q = (taskQueue p)\<lparr>items := items (taskQueue p) @ [t]\<rparr>"
      "capacity (taskQueue p) \<noteq> 0 \<longrightarrow> length (items (taskQueue p)) < capacity (taskQueue p)"
      by (auto simp: push_def split: if_splits)
    with assms Pair PushOk show ?thesis by (auto simp: submit_push_def pool_inv_def Let_def)
  qed (use assms Pair in \<open>auto simp: submit_push_def pool_inv_def Let_def push_def split: if_splits\<close>)
qed

lemma pool_inv_submit: "pool_inv p \<Longrightarrow> submit task p = (r, p') \<Longrightarrow> pool_inv p'"
  by (auto simp: submit_def intro: pool_inv_push split: option.splits if_splits)

lemma worker_take_Some:
  "worker_take p = Some p' \<longleftrightarrow>
   (\<exists>t ts. items (taskQueue p) = t # ts \<and>
      p' = p\<lparr>taskQueue := (taskQueue p)\<lparr>items := ts\<rparr>, active := active p @ [t], started := started p @ [t]\<rparr>)"
  by (auto simp: worker_take_def waitPop_def tryPop_def split: list.splits option.splits if_splits)

lemma pool_inv_take: "pool_inv p \<Longrightarrow> length (active p) < workers p \<Longrightarrow> worker_take p = Some p' \<Longrightarrow> pool_inv p'"
  by (auto simp: worker_take_Some pool_inv_def)

lemma worker_finish_fields:
  "taskQueue (worker_finish t ok p) = taskQueue p" "pool_state (worker_finish t ok p) = pool_state p"
  "active (worker_finish t ok p) = remove1 t (active p)" "workers (worker_finish t ok p) = workers p"
  "accepted (worker_finish t ok p) = accepted p" "started (worker_finish t ok p) = started p"
  "discarded (worker_finish t ok p) = discarded p" "finished (worker_finish t ok p) = finished p @ [t]"
  "submittedTasks (worker_finish t ok p) = submittedTasks p"
  "completedTasks (worker_finish t ok p) + failedTasks (worker_finish t ok p) = completedTasks p + failedTasks p + 1"
  by (simp_all add: worker_finish_def Let_def)

lemma pool_inv_finish: "pool_inv p \<Longrightarrow> t \<in> set (active p) \<Longrightarrow> pool_inv (worker_finish t ok p)"
  by (auto simp: pool_inv_def worker_finish_fields length_remove1)

lemma pool_inv_worker: "worker_step p p' \<Longrightarrow> pool_inv p \<Longrightarrow> pool_inv p'"
  by (erule worker_stepE) (auto intro: pool_inv_take pool_inv_finish)

lemma pool_inv_stop_begin: "pool_inv p \<Longrightarrow> stop_begin mode p = Some p' \<Longrightarrow> pool_inv p'"
  by (auto simp: stop_begin_def pool_inv_def close_queue_def split: if_splits)

lemma pool_inv_stop_end: "pool_inv p \<Longrightarrow> stop_end p = Some p' \<Longrightarrow> pool_inv p'"
  by (auto simp: stop_end_def pool_inv_def split: if_splits)

lemma pool_inv_step: "pool_step p p' \<Longrightarrow> pool_inv p \<Longrightarrow> pool_inv p'"
  by (erule pool_stepE)
     (blast intro: pool_inv_submit pool_inv_push pool_inv_worker pool_inv_stop_begin pool_inv_stop_end)+

lemma pool_inv_steps: "pool_step\<^sup>*\<^sup>* p p' \<Longrightarrow> pool_inv p \<Longrightarrow> pool_inv p'"
  by (induction rule: rtranclp_induct) (auto intro: pool_inv_step)

text \<open>With a single worker, tasks also finish in the order they were started.\<close>

definition serial :: "'a thread_pool \<Rightarrow> bool" where
  "serial p \<longleftrightarrow> workers p = 1 \<and> length (active p) \<le> 1 \<and> started p = finished p @ active p"

lemma serial_step: "pool_step p p' \<Longrightarrow> serial p \<Longrightarrow> serial p'"
proof (erule pool_stepE)
  assume "worker_step p p'" "serial p"
  then show "serial p'"
    by (cases "active p"; cases "tl (active p)")
       (auto elim!: worker_stepE simp: serial_def worker_take_Some worker_finish_fields)
qed (auto simp: serial_def submit_def submit_push_def stop_begin_def stop_end_def Let_def
      split: option.splits if_splits prod.splits)

text \<open>Draining makes progress: work left over can be taken or finished, and each step shrinks it.\<close>

definition work_left :: "'a thread_pool \<Rightarrow> nat" where
  "work_left p = 2 * length (items (taskQueue p)) + length (active p)"

lemma worker_step_shrinks: "worker_step p p' \<Longrightarrow> work_left p' < work_left p"
  using length_pos_if_in_set [of _ "active p"]
  by (auto elim!: worker_stepE simp: worker_take_Some work_left_def worker_finish_fields length_remove1)

lemma worker_can_step:
  "work_left p > 0 \<Longrightarrow> workers p > 0 \<Longrightarrow> length (active p) \<le> workers p \<Longrightarrow> \<exists>p'. worker_step p p'"
proof (cases "active p")
  case Nil
  assume "work_left p > 0" "workers p > 0"
  with Nil obtain t ts where "items (taskQueue p) = t # ts"
    by (cases "items (taskQueue p)") (auto simp: work_left_def)
  then obtain p' where "worker_take p = Some p'" by (auto simp: worker_take_Some)
  then have "worker_step p p'" using Nil \<open>workers p > 0\<close> by (intro worker_step.take) auto
  then show ?thesis by blast
next
  case (Cons t ts)
  then have "t \<in> set (active p)" by simp
  then have "worker_step p (worker_finish t True p)" by (rule worker_step.finish)
  then show ?thesis by blast
qed

lemma worker_step_keeps:
  "worker_step p p' \<Longrightarrow> workers p' = workers p \<and> pool_state p' = pool_state p \<and>
     q_closed (taskQueue p') = q_closed (taskQueue p) \<and> accepted p' = accepted p \<and> discarded p' = discarded p"
  by (auto elim!: worker_stepE simp: worker_take_Some worker_finish_fields)

text \<open>So the workers alone empty the queue.\<close>

lemma workers_drain:
  assumes "pool_inv p" "workers p > 0"
  obtains p' where "worker_step\<^sup>*\<^sup>* p p'" "work_left p' = 0" "pool_inv p'" "pool_state p' = pool_state p"
    "q_closed (taskQueue p') = q_closed (taskQueue p)" "accepted p' = accepted p" "discarded p' = discarded p"
proof -
  have "\<exists>p'. worker_step\<^sup>*\<^sup>* p p' \<and> work_left p' = 0 \<and> pool_inv p' \<and> pool_state p' = pool_state p \<and>
      q_closed (taskQueue p') = q_closed (taskQueue p) \<and> accepted p' = accepted p \<and> discarded p' = discarded p"
    using assms
  proof (induction "work_left p" arbitrary: p rule: less_induct)
    case less
    show ?case
    proof (cases "work_left p = 0")
      case False
      then obtain p1 where p1: "worker_step p p1"
        using worker_can_step [of p] less.prems by (auto simp: pool_inv_def)
      from less.hyps [OF worker_step_shrinks [OF p1] pool_inv_worker [OF p1 less.prems(1)]]
      show ?thesis using worker_step_keeps [OF p1] less.prems(2) p1
        by (metis converse_rtranclp_into_rtranclp)
    qed (use less.prems in blast)
  qed
  then show ?thesis using that by blast
qed

subsection \<open>Statistics\<close>

record pool_stats =
  st_state :: ThreadPoolState
  st_workerCount :: nat
  st_queuedTasks :: nat
  st_queueCapacity :: nat
  st_activeTasks :: nat
  st_submittedTasks :: nat
  st_completedTasks :: nat
  st_failedTasks :: nat
  st_rejectedFull :: nat
  st_rejectedStopped :: nat

definition stats :: "'a thread_pool \<Rightarrow> pool_stats" where
  "stats p =
     \<lparr>st_state = pool_state p, st_workerCount = workers p, st_queuedTasks = length (items (taskQueue p)),
      st_queueCapacity = capacity (taskQueue p), st_activeTasks = length (active p),
      st_submittedTasks = submittedTasks p, st_completedTasks = completedTasks p, st_failedTasks = failedTasks p,
      st_rejectedFull = rejectedFull p, st_rejectedStopped = rejectedStopped p\<rparr>"

subsection \<open>The keyed executor\<close>

text \<open>
  A task carries the key it was submitted under. \<open>hasher\<close> is \<open>std::hash\<close>, of which only that it is a
  function is used.
\<close>

record 'a keyed_exec =
  shards :: "(string \<times> 'a) thread_pool list"
  accepting :: bool

definition KeyedSerialExecutor_new :: "nat \<Rightarrow> nat \<Rightarrow> 'a keyed_exec option" where
  "KeyedSerialExecutor_new shardCount cap =
     (if shardCount = 0 \<or> cap = 0 then None
      else Some \<lparr>shards = replicate shardCount (the (ThreadPool_new 1 cap)), accepting = True\<rparr>)"

definition keyed_submit ::
  "(string \<Rightarrow> nat) \<Rightarrow> string \<Rightarrow> 'a option \<Rightarrow> 'a keyed_exec \<Rightarrow> TaskSubmitResult \<times> 'a keyed_exec" where
  "keyed_submit hasher key task kx =
     (case task of
        None \<Rightarrow> (InvalidTask, kx)
      | Some t \<Rightarrow>
          if \<not> accepting kx then (SubmitStopping, kx)
          else if shards kx = [] then (SubmitStopping, kx)
          else let index = hasher key mod length (shards kx) in
               case submit (Some (key, t)) (shards kx ! index) of
                 (r, p) \<Rightarrow> (r, kx\<lparr>shards := (shards kx)[index := p]\<rparr>))"

definition aggregateStats :: "'a keyed_exec \<Rightarrow> pool_stats" where
  "aggregateStats kx =
     (let ss = map stats (shards kx); total = (\<lambda>f. sum_list (map f ss)) in
      \<lparr>st_state = (if list_all (\<lambda>s. st_state s = Running) ss then Running
                   else if list_all (\<lambda>s. st_state s = Stopped) ss then Stopped else Stopping),
       st_workerCount = total st_workerCount, st_queuedTasks = total st_queuedTasks,
       st_queueCapacity = total st_queueCapacity, st_activeTasks = total st_activeTasks,
       st_submittedTasks = total st_submittedTasks, st_completedTasks = total st_completedTasks,
       st_failedTasks = total st_failedTasks, st_rejectedFull = total st_rejectedFull,
       st_rejectedStopped = total st_rejectedStopped\<rparr>)"

text \<open>\<open>stop\<close>: the exchange of \<open>accepting_\<close>; the shards are then stopped one by one.\<close>

definition keyed_stop_begin :: "'a keyed_exec \<Rightarrow> 'a keyed_exec option" where
  "keyed_stop_begin kx = (if accepting kx then Some (kx\<lparr>accepting := False\<rparr>) else None)"

inductive keyed_step :: "(string \<Rightarrow> nat) \<Rightarrow> 'a keyed_exec \<Rightarrow> 'a keyed_exec \<Rightarrow> bool" for hasher where
  submit: "keyed_submit hasher key task kx = (r, kx') \<Longrightarrow> keyed_step hasher kx kx'"
| work: "i < length (shards kx) \<Longrightarrow> worker_step (shards kx ! i) p \<Longrightarrow>
    keyed_step hasher kx (kx\<lparr>shards := (shards kx)[i := p]\<rparr>)"
| stop: "keyed_stop_begin kx = Some kx' \<Longrightarrow> keyed_step hasher kx kx'"
| stop_shard: "\<not> accepting kx \<Longrightarrow> i < length (shards kx) \<Longrightarrow>
    stop_begin mode (shards kx ! i) = Some p \<or> stop_end (shards kx ! i) = Some p \<Longrightarrow>
    keyed_step hasher kx (kx\<lparr>shards := (shards kx)[i := p]\<rparr>)"

definition shard_inv :: "(string \<Rightarrow> nat) \<Rightarrow> nat \<Rightarrow> nat \<Rightarrow> (string \<times> 'a) thread_pool \<Rightarrow> bool" where
  "shard_inv hasher n i p \<longleftrightarrow> pool_inv p \<and> serial p \<and>
     (\<forall>t \<in> set (accepted p). hasher (fst t) mod n = i)"

definition keyed_inv :: "(string \<Rightarrow> nat) \<Rightarrow> nat \<Rightarrow> 'a keyed_exec \<Rightarrow> bool" where
  "keyed_inv hasher n kx \<longleftrightarrow> length (shards kx) = n \<and> (\<forall>i < n. shard_inv hasher n i (shards kx ! i))"

lemma shard_inv_new: "ThreadPool_new 1 c = Some p \<Longrightarrow> shard_inv hasher n i p"
  using pool_inv_new [of 1 c p] by (auto simp: shard_inv_def serial_def ThreadPool_new_def)

lemma keyed_inv_new: "KeyedSerialExecutor_new n c = Some kx \<Longrightarrow> keyed_inv hasher n kx"
  using shard_inv_new [of c "the (ThreadPool_new 1 c)" hasher n]
  by (auto simp: KeyedSerialExecutor_new_def keyed_inv_def ThreadPool_new_def split: if_splits)

text \<open>A step of one shard that accepts nothing foreign keeps the invariant of the executor.\<close>

lemma keyed_inv_update:
  "keyed_inv hasher n kx \<Longrightarrow> i < n \<Longrightarrow> shard_inv hasher n i p \<Longrightarrow>
   keyed_inv hasher n (kx\<lparr>shards := (shards kx)[i := p]\<rparr>)"
  by (auto simp: keyed_inv_def nth_list_update)

lemma shard_inv_step:
  assumes "shard_inv hasher n i p" "pool_step p p'" "accepted p' = accepted p"
  shows "shard_inv hasher n i p'"
  using assms by (auto simp: shard_inv_def intro: pool_inv_step serial_step)

lemma shard_inv_submit:
  assumes "shard_inv hasher n i p" "submit (Some (key, t)) p = (r, p')" "hasher key mod n = i"
  shows "shard_inv hasher n i p'"
proof -
  have "pool_step p p'" using assms(2) by (rule pool_step.submit)
  moreover have "set (accepted p') \<subseteq> insert (key, t) (set (accepted p))"
    using assms(2) by (auto simp: submit_def submit_push_def Let_def split: if_splits prod.splits)
  ultimately show ?thesis using assms by (auto simp: shard_inv_def intro: pool_inv_step serial_step)
qed

lemma keyed_inv_step: "keyed_step hasher kx kx' \<Longrightarrow> keyed_inv hasher n kx \<Longrightarrow> keyed_inv hasher n kx'"
proof (induction rule: keyed_step.induct)
  case (submit key task kx r kx')
  show ?case
  proof (cases "task = None \<or> \<not> accepting kx \<or> shards kx = []")
    case True
    with submit show ?thesis by (auto simp: keyed_submit_def split: option.splits if_splits)
  next
    case False
    then obtain t where t: "task = Some t" "accepting kx" "shards kx \<noteq> []" by auto
    let ?i = "hasher key mod length (shards kx)"
    have n: "length (shards kx) = n" "?i < n" using submit.prems t(3) by (auto simp: keyed_inv_def)
    obtain p where p: "submit (Some (key, t)) (shards kx ! ?i) = (r, p)" "kx' = kx\<lparr>shards := (shards kx)[?i := p]\<rparr>"
      using submit.hyps t by (auto simp: keyed_submit_def Let_def split: prod.splits)
    have "shard_inv hasher n ?i (shards kx ! ?i)" using submit.prems n by (auto simp: keyed_inv_def)
    from shard_inv_submit [OF this p(1)] n show ?thesis
      unfolding p(2) by (intro keyed_inv_update [OF submit.prems n(2)]) simp
  qed
next
  case (work i kx p)
  then have "shard_inv hasher n i (shards kx ! i)" by (auto simp: keyed_inv_def)
  from shard_inv_step [OF this pool_step.work [OF work.hyps(2)]] worker_step_keeps [OF work.hyps(2)]
  show ?case using work by (intro keyed_inv_update) (auto simp: keyed_inv_def)
next
  case (stop kx kx')
  then show ?case by (auto simp: keyed_stop_begin_def keyed_inv_def split: if_splits)
next
  case (stop_shard kx i mode p)
  then have "shard_inv hasher n i (shards kx ! i)" by (auto simp: keyed_inv_def)
  moreover have "pool_step (shards kx ! i) p"
    using stop_shard.hyps(3) by (auto intro: pool_step.intros)
  moreover have "accepted p = accepted (shards kx ! i)"
    using stop_shard.hyps(3) by (auto simp: stop_begin_def stop_end_def split: if_splits)
  ultimately have "shard_inv hasher n i p" by (rule shard_inv_step)
  with stop_shard show ?case by (intro keyed_inv_update) (auto simp: keyed_inv_def)
qed

lemma keyed_inv_steps: "(keyed_step hasher)\<^sup>*\<^sup>* kx kx' \<Longrightarrow> keyed_inv hasher n kx \<Longrightarrow> keyed_inv hasher n kx'"
  by (induction rule: rtranclp_induct) (auto intro: keyed_inv_step)

text \<open>The tasks of one key, over all shards.\<close>

definition of_key :: "((string \<times> 'a) thread_pool \<Rightarrow> (string \<times> 'a) list) \<Rightarrow> string \<Rightarrow> 'a keyed_exec \<Rightarrow> 'a list" where
  "of_key f key kx = concat (map (\<lambda>p. map snd (filter (\<lambda>t. fst t = key) (f p))) (shards kx))"

lemma concat_map_single:
  "i < length xs \<Longrightarrow> (\<And>j. j < length xs \<Longrightarrow> j \<noteq> i \<Longrightarrow> f (xs ! j) = []) \<Longrightarrow> concat (map f xs) = f (xs ! i)"
proof (induction xs arbitrary: i)
  case (Cons x xs)
  show ?case
  proof (cases i)
    case 0
    have "f (xs ! j) = []" if "j < length xs" for j using Cons.prems(2) [of "Suc j"] that 0 by simp
    then have "concat (map f xs) = []" by (auto simp: in_set_conv_nth)
    with 0 show ?thesis by simp
  next
    case (Suc k)
    then have "concat (map f xs) = f (xs ! k)"
      using Cons.prems(1) Cons.prems(2) [of "Suc _"] by (intro Cons.IH) auto
    moreover have "f x = []" using Cons.prems(2) [of 0] Suc by simp
    ultimately show ?thesis using Suc by simp
  qed
qed simp

lemma of_key_shard:
  assumes "keyed_inv hasher n kx" "n > 0" "\<And>p. pool_inv p \<Longrightarrow> set (f p) \<subseteq> set (accepted p)"
  shows "of_key f key kx = map snd (filter (\<lambda>t. fst t = key) (f (shards kx ! (hasher key mod n))))"
  unfolding of_key_def
proof (rule concat_map_single)
  show "hasher key mod n < length (shards kx)" using assms(1,2) by (simp add: keyed_inv_def)
  fix j assume j: "j < length (shards kx)" "j \<noteq> hasher key mod n"
  then have "shard_inv hasher n j (shards kx ! j)" using assms(1) by (auto simp: keyed_inv_def)
  then have "\<forall>t \<in> set (f (shards kx ! j)). hasher (fst t) mod n = j"
    using assms(3) by (auto simp: shard_inv_def)
  with j show "map snd (filter (\<lambda>t. fst t = key) (f (shards kx ! j))) = []"
    by (auto simp: filter_empty_conv)
qed

lemma pool_inv_subsets:
  assumes "pool_inv p"
  shows "set (started p) \<subseteq> set (accepted p)" "set (active p) \<subseteq> set (accepted p)"
    "set (finished p) \<subseteq> set (accepted p)"
proof -
  have a: "accepted p = started p @ discarded p @ items (taskQueue p)"
    and m: "mset (started p) = mset (active p) + mset (finished p)" using assms by (simp_all add: pool_inv_def)
  from m have "set (started p) = set (active p) \<union> set (finished p)" by (metis set_mset_mset set_mset_union)
  with a show "set (started p) \<subseteq> set (accepted p)" "set (active p) \<subseteq> set (accepted p)"
    "set (finished p) \<subseteq> set (accepted p)" by auto
qed

subsection \<open>Properties\<close>

text \<open>
  C7. Tasks submitted to the keyed executor under one key run strictly one after the other, in the
  order in which they were accepted, under every interleaving of submitters, workers and shutdown:
  at most one is running, the ones finished so far and the one running are an initial part of the
  accepted ones.
\<close>

theorem keyed_tasks_serial:
  assumes "KeyedSerialExecutor_new n c = Some kx0" "(keyed_step hasher)\<^sup>*\<^sup>* kx0 kx"
  shows "(\<exists>rest. of_key accepted key kx = of_key finished key kx @ of_key active key kx @ rest) \<and>
    length (of_key active key kx) \<le> 1"
proof -
  have n: "n > 0" using assms(1) by (auto simp: KeyedSerialExecutor_new_def split: if_splits)
  have inv: "keyed_inv hasher n kx" using keyed_inv_steps [OF assms(2) keyed_inv_new [OF assms(1)]] .
  let ?p = "shards kx ! (hasher key mod n)"
  have "shard_inv hasher n (hasher key mod n) ?p" using inv n by (auto simp: keyed_inv_def)
  then have p: "pool_inv ?p" "serial ?p" by (simp_all add: shard_inv_def)
  have acc: "accepted ?p = finished ?p @ active ?p @ discarded ?p @ items (taskQueue ?p)"
    and one: "length (active ?p) \<le> 1" using p by (simp_all add: pool_inv_def serial_def)
  note k = of_key_shard [OF inv n, of _ key]
  have "of_key accepted key kx = map snd (filter (\<lambda>t. fst t = key) (accepted ?p))"
    "of_key finished key kx = map snd (filter (\<lambda>t. fst t = key) (finished ?p))"
    "of_key active key kx = map snd (filter (\<lambda>t. fst t = key) (active ?p))"
    using pool_inv_subsets by (intro k; blast)+
  with acc one show ?thesis by (auto intro: le_trans [OF length_filter_le])
qed

theorem keyed_tasks_serial_witness:
  "\<exists>kx0 kx. KeyedSerialExecutor_new 2 8 = Some kx0 \<and>
     kx = snd (keyed_submit length ''ab'' (Some (7 :: nat)) kx0) \<and>
     of_key accepted ''ab'' kx = [7] \<and> length (of_key active ''ab'' kx) \<le> 1"
proof -
  obtain kx0 :: "nat keyed_exec" where k0: "KeyedSerialExecutor_new 2 8 = Some kx0"
    by (simp add: KeyedSerialExecutor_new_def)
  let ?kx = "snd (keyed_submit length ''ab'' (Some 7) kx0)"
  have "keyed_submit length ''ab'' (Some 7) kx0 = (fst (keyed_submit length ''ab'' (Some 7) kx0), ?kx)" by simp
  then have "(keyed_step length)\<^sup>*\<^sup>* kx0 ?kx" by (intro r_into_rtranclp keyed_step.submit)
  moreover have "of_key accepted ''ab'' ?kx = [7]"
    using k0 by (auto simp: KeyedSerialExecutor_new_def keyed_submit_def of_key_def submit_def submit_push_def
        push_def ThreadPool_new_def queue_new_def Let_def numeral_2_eq_2)
  ultimately show ?thesis using keyed_tasks_serial [OF k0, of length ?kx "''ab''"] k0 by blast
qed

text \<open>
  A pool never holds more tasks than its capacity, and at every moment of every interleaving
  each accepted task is in exactly one place: running, finished (completed or failed), queued, or
  dropped by a discarding stop; the counters add up accordingly.
\<close>

theorem pool_conserves_tasks:
  assumes "ThreadPool_new n c = Some p0" "pool_step\<^sup>*\<^sup>* p0 p" "c \<noteq> 0"
  shows "length (items (taskQueue p)) \<le> capacity (taskQueue p) \<and>
    mset (accepted p) = mset (active p) + mset (finished p) + mset (discarded p) + mset (items (taskQueue p)) \<and>
    submittedTasks p = length (active p) + completedTasks p + failedTasks p + length (discarded p) +
      length (items (taskQueue p))"
proof -
  have inv: "pool_inv p" using pool_inv_steps [OF assms(2) pool_inv_new [OF assms(1)]] .
  have "capacity (taskQueue p) = c"
    using assms(2)
  proof (induction rule: rtranclp_induct)
    case base
    then show ?case using assms(1) by (auto simp: ThreadPool_new_def queue_new_def split: if_splits)
  next
    case (step y z)
    then show ?case
      by (auto elim!: pool_stepE worker_stepE simp: submit_def submit_push_def push_def worker_take_Some
          worker_finish_fields stop_begin_def stop_end_def close_queue_def Let_def split: option.splits if_splits prod.splits)
  qed
  moreover have m: "mset (started p) = mset (active p) + mset (finished p)" using inv by (simp add: pool_inv_def)
  have "length (started p) = length (active p) + length (finished p)"
    using arg_cong [OF m, of size] by simp
  ultimately show ?thesis using inv assms(3) m by (auto simp: pool_inv_def)
qed

theorem pool_conserves_tasks_witness:
  "\<exists>p0 p. ThreadPool_new 2 4 = Some p0 \<and> p = snd (submit (Some ''job'') p0) \<and>
     length (items (taskQueue p)) \<le> capacity (taskQueue p) \<and> accepted p = [''job'']"
proof -
  obtain p0 :: "string thread_pool" where p0: "ThreadPool_new 2 4 = Some p0" by (simp add: ThreadPool_new_def)
  let ?p = "snd (submit (Some ''job'') p0)"
  have "pool_step p0 ?p" by (rule pool_step.submit [of "Some ''job''" _ "fst (submit (Some ''job'') p0)"]) simp
  then have s: "pool_step\<^sup>*\<^sup>* p0 ?p" by blast
  have "accepted ?p = [''job'']"
    using p0 by (auto simp: ThreadPool_new_def submit_def submit_push_def push_def queue_new_def)
  with pool_conserves_tasks [OF p0 s] p0 show ?thesis by auto
qed



end
