(* ===== verification/SessionManager.thy ===== *)
theory SessionManager
  imports Prelude
begin

text \<open>
  Online sessions: \<open>src/include/im/Session.h\<close>, \<open>src/include/im/SessionManager.h\<close>,
  \<open>src/src/im/SessionManager.cpp\<close>, and the operations of \<open>src/src/im/ImService.cpp\<close> that bind and
  unbind a connection.

  The manager keeps a session per connection and two maps between accounts and connections that are
  meant to be inverse to each other. The message router asks them whom to deliver to, so the
  invariant \<open>sessions_inv\<close> is what makes delivery reach exactly the connections of an account.
\<close>

subsection \<open>Data\<close>

type_synonym connKey = u64

datatype ConnState = Connected | Authed | Closing

datatype AuthOperation = NoAuthOp | RegisterOp | PasswordLoginOp | TokenLoginOp | LogoutOp

record session =
  s_state :: ConnState
  s_username :: string
  s_accountId :: accountId
  joinedGroupIds :: "groupId list"
  s_userId :: u64
  s_peerIp :: string
  s_peerPort :: u16
  pendingAuthOperation :: AuthOperation
  authOperationId :: u64

definition Session_new :: session where
  "Session_new = \<lparr>s_state = Connected, s_username = [], s_accountId = [], joinedGroupIds = [], s_userId = 0,
     s_peerIp = [], s_peerPort = 0, pendingAuthOperation = NoAuthOp, authOperationId = 0\<rparr>"

record session_manager =
  sessions :: "(connKey \<times> session) list"
  accountConnMap :: "(accountId \<times> connKey list) list"
  connAccountMap :: "(connKey \<times> accountId) list"

definition SessionManager_new :: session_manager where
  "SessionManager_new = \<lparr>sessions = [], accountConnMap = [], connAccountMap = []\<rparr>"

subsection \<open>Operations\<close>

definition getOrCreate :: "connKey \<Rightarrow> session_manager \<Rightarrow> session \<times> session_manager" where
  "getOrCreate key m =
     (case map_of (sessions m) key of
        Some s \<Rightarrow> (s, m)
      | None \<Rightarrow> (Session_new, m\<lparr>sessions := AList.update key Session_new (sessions m)\<rparr>))"

definition find_session :: "connKey \<Rightarrow> session_manager \<Rightarrow> session option" where
  "find_session key m = map_of (sessions m) key"

text \<open>\<open>sessions_[key]\<close> creates a missing session, \<open>accountConnMap_[accountId]\<close> a missing set.\<close>

definition bindUser :: "connKey \<Rightarrow> u64 \<Rightarrow> accountId \<Rightarrow> string \<Rightarrow> session_manager \<Rightarrow> session_manager" where
  "bindUser key userId acc name m =
     (let s = fst (getOrCreate key m);
          s' = s\<lparr>s_userId := userId, s_accountId := acc, s_username := name, s_state := Authed\<rparr>;
          keys = (case map_of (accountConnMap m) acc of None \<Rightarrow> [] | Some ks \<Rightarrow> ks)
      in m\<lparr>sessions := AList.update key s' (sessions m),
           accountConnMap := AList.update acc (List.insert key keys) (accountConnMap m),
           connAccountMap := AList.update key acc (connAccountMap m)\<rparr>)"

definition unbindConn :: "connKey \<Rightarrow> session_manager \<Rightarrow> session_manager" where
  "unbindConn key m =
     (case map_of (connAccountMap m) key of
        None \<Rightarrow> m
      | Some acc \<Rightarrow>
          (let keys = (case map_of (accountConnMap m) acc of None \<Rightarrow> [] | Some ks \<Rightarrow> ks);
               keys' = removeAll key keys
           in m\<lparr>accountConnMap := (if keys' = [] then AList.delete acc (accountConnMap m)
                                   else AList.update acc keys' (accountConnMap m)),
                connAccountMap := AList.delete key (connAccountMap m)\<rparr>))"

definition connKeysByAccountId :: "accountId \<Rightarrow> session_manager \<Rightarrow> connKey list" where
  "connKeysByAccountId acc m = (case map_of (accountConnMap m) acc of None \<Rightarrow> [] | Some ks \<Rightarrow> ks)"

definition accountIdByConn :: "connKey \<Rightarrow> session_manager \<Rightarrow> accountId option" where
  "accountIdByConn key m = map_of (connAccountMap m) key"

definition isOnLine :: "accountId \<Rightarrow> session_manager \<Rightarrow> bool" where
  "isOnLine acc m = (case map_of (accountConnMap m) acc of None \<Rightarrow> False | Some ks \<Rightarrow> ks \<noteq> [])"

definition onLineUsers :: "session_manager \<Rightarrow> accountId list" where
  "onLineUsers m = map fst (accountConnMap m)"

definition erase_session :: "connKey \<Rightarrow> session_manager \<Rightarrow> session_manager" where
  "erase_session key m = m\<lparr>sessions := AList.delete key (sessions m)\<rparr>"

definition clear_sessions :: "session_manager \<Rightarrow> session_manager" where
  "clear_sessions m = SessionManager_new"

text \<open>Updating the sessions of all connections of an account, with the number of sessions found.\<close>

fun update_sessions ::
  "(session \<Rightarrow> session) \<Rightarrow> connKey list \<Rightarrow> (connKey \<times> session) list \<Rightarrow> nat \<times> (connKey \<times> session) list" where
  "update_sessions f [] ss = (0, ss)"
| "update_sessions f (k # ks) ss =
     (case map_of ss k of
        None \<Rightarrow> update_sessions f ks ss
      | Some s \<Rightarrow> (case update_sessions f ks (AList.update k (f s) ss) of (n, ss') \<Rightarrow> (n + 1, ss')))"

definition removeJoinedGroup :: "accountId \<Rightarrow> groupId \<Rightarrow> session_manager \<Rightarrow> nat \<times> session_manager" where
  "removeJoinedGroup acc g m =
     (case update_sessions (\<lambda>s. s\<lparr>joinedGroupIds := removeAll g (joinedGroupIds s)\<rparr>)
             (connKeysByAccountId acc m) (sessions m) of
        (n, ss) \<Rightarrow> (n, m\<lparr>sessions := ss\<rparr>))"

definition addJoinedGroup :: "accountId \<Rightarrow> groupId \<Rightarrow> session_manager \<Rightarrow> nat \<times> session_manager" where
  "addJoinedGroup acc g m =
     (case update_sessions (\<lambda>s. s\<lparr>joinedGroupIds := List.insert g (joinedGroupIds s)\<rparr>)
             (connKeysByAccountId acc m) (sessions m) of
        (n, ss) \<Rightarrow> (n, m\<lparr>sessions := ss\<rparr>))"

fun removeJoinedGroupForAccounts ::
  "accountId list \<Rightarrow> groupId \<Rightarrow> session_manager \<Rightarrow> nat \<times> session_manager" where
  "removeJoinedGroupForAccounts [] g m = (0, m)"
| "removeJoinedGroupForAccounts (a # as) g m =
     (case removeJoinedGroup a g m of (n, m') \<Rightarrow>
        case removeJoinedGroupForAccounts as g m' of (k, m'') \<Rightarrow> (n + k, m''))"

subsection \<open>Where the service binds and unbinds\<close>

text \<open>
  The paths of \<open>ImService\<close> that reach the manager. A login (by debug authentication, password or
  token, whose verdict is the argument) binds only a session that is not authenticated yet; a logout
  unbinds an authenticated one and resets it; a closed connection is unbound and erased.
\<close>

definition svc_login :: "connKey \<Rightarrow> u64 \<Rightarrow> accountId \<Rightarrow> string \<Rightarrow> session_manager \<Rightarrow> session_manager" where
  "svc_login key userId acc name m0 =
     (case getOrCreate key m0 of (s, m) \<Rightarrow>
        if s_state s = Authed then m else bindUser key userId acc name m)"

definition svc_logout :: "connKey \<Rightarrow> session_manager \<Rightarrow> session_manager" where
  "svc_logout key m0 =
     (case getOrCreate key m0 of (s, m) \<Rightarrow>
        if s_state s = Authed
        then (let m1 = unbindConn key m
              in m1\<lparr>sessions := AList.update key
                      (s\<lparr>s_accountId := [], s_state := Connected, joinedGroupIds := [], s_userId := 0\<rparr>)
                      (sessions m1)\<rparr>)
        else m)"

definition onDisconnect :: "connKey \<Rightarrow> session_manager \<Rightarrow> session_manager" where
  "onDisconnect key m = erase_session key (unbindConn key m)"

subsection \<open>Invariant\<close>

definition conns_of :: "session_manager \<Rightarrow> accountId \<Rightarrow> connKey list" where
  "conns_of m acc = connKeysByAccountId acc m"

text \<open>The account a session is bound to.\<close>

definition bound :: "session option \<Rightarrow> accountId option" where
  "bound os = (case os of Some s \<Rightarrow> if s_state s = Authed then Some (s_accountId s) else None | None \<Rightarrow> None)"

lemma bound_simps [simp]:
  "bound None = None" "s_state s = Authed \<Longrightarrow> bound (Some s) = Some (s_accountId s)"
  "s_state s \<noteq> Authed \<Longrightarrow> bound (Some s) = None"
  by (simp_all add: bound_def)

definition sessions_inv :: "session_manager \<Rightarrow> bool" where
  "sessions_inv m \<longleftrightarrow>
     (\<forall>k a. k \<in> set (conns_of m a) \<longleftrightarrow> map_of (connAccountMap m) k = Some a) \<and>
     (\<forall>a. distinct (conns_of m a) \<and> map_of (accountConnMap m) a \<noteq> Some []) \<and>
     (\<forall>k. map_of (connAccountMap m) k = bound (map_of (sessions m) k))"

lemma sessions_inv_new: "sessions_inv SessionManager_new"
  by (simp add: sessions_inv_def SessionManager_new_def conns_of_def connKeysByAccountId_def)

lemma conns_of_cong: "accountConnMap m' = accountConnMap m \<Longrightarrow> conns_of m' a = conns_of m a"
  by (simp add: conns_of_def connKeysByAccountId_def)

text \<open>Changing sessions keeps the invariant as long as their bindings stay.\<close>

lemma sessions_inv_rebind:
  assumes "sessions_inv m" "\<And>k. bound (map_of ss k) = bound (map_of (sessions m) k)"
  shows "sessions_inv (m\<lparr>sessions := ss\<rparr>)"
  using assms by (simp add: sessions_inv_def conns_of_cong [of "m\<lparr>sessions := ss\<rparr>" m])

lemma getOrCreate_inv: "sessions_inv m \<Longrightarrow> getOrCreate key m = (s, m') \<Longrightarrow> sessions_inv m'"
  by (auto simp: getOrCreate_def Session_new_def intro!: sessions_inv_rebind split: option.splits)

lemma getOrCreate_find: "getOrCreate key m = (s, m') \<Longrightarrow> map_of (sessions m') key = Some s"
  by (auto simp: getOrCreate_def split: option.splits)

lemma conns_of_bind: "conns_of (bindUser key u acc name m) a =
    (if a = acc then List.insert key (conns_of m acc) else conns_of m a)"
  by (auto simp: conns_of_def connKeysByAccountId_def bindUser_def Let_def split: option.splits)

lemma bindUser_maps:
  "map_of (connAccountMap (bindUser key u acc name m)) = (map_of (connAccountMap m))(key \<mapsto> acc)"
  "bound (map_of (sessions (bindUser key u acc name m)) k) = (if k = key then Some acc else bound (map_of (sessions m) k))"
  "map_of (accountConnMap (bindUser key u acc name m)) a = Some [] \<longleftrightarrow> a \<noteq> acc \<and> map_of (accountConnMap m) a = Some []"
  by (auto simp: bindUser_def Let_def List.insert_def split: option.splits if_splits)

lemma bindUser_inv:
  assumes "sessions_inv m" "map_of (connAccountMap m) key = None"
  shows "sessions_inv (bindUser key u acc name m)"
  using assms by (auto simp: sessions_inv_def conns_of_bind bindUser_maps)

lemma conns_of_unbind:
  "conns_of (unbindConn key m) a =
     (if map_of (connAccountMap m) key = Some a then removeAll key (conns_of m a) else conns_of m a)"
  by (auto simp: conns_of_def connKeysByAccountId_def unbindConn_def Let_def split: option.splits)

lemma unbindConn_maps:
  "map_of (connAccountMap (unbindConn key m)) = (map_of (connAccountMap m))(key := None)"
  "sessions (unbindConn key m) = sessions m"
  "map_of (accountConnMap m) a \<noteq> Some [] \<Longrightarrow> map_of (accountConnMap (unbindConn key m)) a \<noteq> Some []"
  by (auto simp: unbindConn_def Let_def fun_eq_iff split: option.splits if_splits)

text \<open>Unbinding leaves the invariant once the session itself is no longer authenticated.\<close>

lemma unbindConn_inv:
  assumes "sessions_inv m" "bound (map_of ss key) = None"
    "\<And>k. k \<noteq> key \<Longrightarrow> bound (map_of ss k) = bound (map_of (sessions m) k)"
  shows "sessions_inv ((unbindConn key m)\<lparr>sessions := ss\<rparr>)"
proof -
  let ?m = "(unbindConn key m)\<lparr>sessions := ss\<rparr>"
  have c: "conns_of ?m a = conns_of (unbindConn key m) a" for a by (rule conns_of_cong) simp
  show ?thesis
    using assms by (auto simp: sessions_inv_def c conns_of_unbind unbindConn_maps distinct_removeAll)
qed

lemma svc_login_inv: "sessions_inv m \<Longrightarrow> sessions_inv (svc_login key u acc name m)"
proof -
  assume inv: "sessions_inv m"
  obtain s m' where g: "getOrCreate key m = (s, m')" by (cases "getOrCreate key m")
  have inv': "sessions_inv m'" using getOrCreate_inv [OF inv g] .
  have "s_state s \<noteq> Authed \<Longrightarrow> map_of (connAccountMap m') key = None"
    using inv' getOrCreate_find [OF g] by (simp add: sessions_inv_def)
  with inv' show ?thesis by (auto simp: svc_login_def g intro: bindUser_inv)
qed

lemma svc_logout_inv: "sessions_inv m \<Longrightarrow> sessions_inv (svc_logout key m)"
proof -
  assume inv: "sessions_inv m"
  obtain s m' where g: "getOrCreate key m = (s, m')" by (cases "getOrCreate key m")
  have "sessions_inv m'" using getOrCreate_inv [OF inv g] .
  then show ?thesis by (auto simp: svc_logout_def g Let_def unbindConn_maps intro!: unbindConn_inv)
qed

lemma onDisconnect_inv: "sessions_inv m \<Longrightarrow> sessions_inv (onDisconnect key m)"
  using unbindConn_inv [of m "AList.delete key (sessions m)" key]
  by (simp add: onDisconnect_def erase_session_def unbindConn_maps)

text \<open>Joining and leaving groups changes only the group sets of the sessions concerned.\<close>

lemma update_sessions_bound:
  assumes "\<And>s. bound (Some (f s)) = bound (Some s)"
  shows "update_sessions f ks ss = (n, ss') \<Longrightarrow> bound (map_of ss' k) = bound (map_of ss k)"
proof (induction ks arbitrary: n ss)
  case (Cons k' ks)
  show ?case
  proof (cases "map_of ss k'")
    case None
    with Cons show ?thesis by simp
  next
    case (Some s)
    obtain n' where u: "update_sessions f ks (AList.update k' (f s) ss) = (n', ss')"
      using Cons.prems Some by (auto split: prod.splits)
    from Cons.IH [OF u] Some assms [of s] show ?thesis by (cases "k = k'") simp_all
  qed
qed simp

lemma bound_joined [simp]: "bound (Some (s\<lparr>joinedGroupIds := gs\<rparr>)) = bound (Some s)"
  by (cases "s_state s = Authed") simp_all

lemma removeJoinedGroup_inv: "sessions_inv m \<Longrightarrow> removeJoinedGroup a g m = (n, m') \<Longrightarrow> sessions_inv m'"
  using update_sessions_bound [of "\<lambda>s. s\<lparr>joinedGroupIds := removeAll g (joinedGroupIds s)\<rparr>"]
  by (auto simp: removeJoinedGroup_def bound_joined split: prod.splits intro!: sessions_inv_rebind)

lemma addJoinedGroup_inv: "sessions_inv m \<Longrightarrow> addJoinedGroup a g m = (n, m') \<Longrightarrow> sessions_inv m'"
  using update_sessions_bound [of "\<lambda>s. s\<lparr>joinedGroupIds := List.insert g (joinedGroupIds s)\<rparr>"]
  by (auto simp: addJoinedGroup_def bound_joined split: prod.splits intro!: sessions_inv_rebind)

lemma removeJoinedGroupForAccounts_inv:
  "sessions_inv m \<Longrightarrow> removeJoinedGroupForAccounts as g m = (n, m') \<Longrightarrow> sessions_inv m'"
  by (induction as arbitrary: m n) (auto split: prod.splits dest: removeJoinedGroup_inv)

text \<open>All that happens to the sessions of a running service.\<close>

inductive svc_step :: "session_manager \<Rightarrow> session_manager \<Rightarrow> bool" where
  message: "getOrCreate key m = (s, m') \<Longrightarrow> svc_step m m'"
| login: "svc_step m (svc_login key u acc name m)"
| logout: "svc_step m (svc_logout key m)"
| disconnect: "svc_step m (onDisconnect key m)"
| join: "addJoinedGroup a g m = (n, m') \<Longrightarrow> svc_step m m'"
| leave: "removeJoinedGroup a g m = (n, m') \<Longrightarrow> svc_step m m'"
| dissolve: "removeJoinedGroupForAccounts as g m = (n, m') \<Longrightarrow> svc_step m m'"
| shutdown: "svc_step m (clear_sessions m)"

lemma svc_step_inv: "svc_step m m' \<Longrightarrow> sessions_inv m \<Longrightarrow> sessions_inv m'"
  by (induction rule: svc_step.induct)
     (auto intro: getOrCreate_inv svc_login_inv svc_logout_inv onDisconnect_inv addJoinedGroup_inv
        removeJoinedGroup_inv removeJoinedGroupForAccounts_inv simp: clear_sessions_def sessions_inv_new)

lemma svc_steps_inv: "svc_step\<^sup>*\<^sup>* m m' \<Longrightarrow> sessions_inv m \<Longrightarrow> sessions_inv m'"
  by (induction rule: rtranclp_induct) (auto intro: svc_step_inv)

subsection \<open>Properties\<close>

text \<open>
  C9. However logins, logouts, disconnects and group changes interleave, the connections the router
  finds for an account are exactly the connections whose session is authenticated as that account,
  each listed once; an account is online exactly if it has such a connection.
\<close>

theorem routing_is_exact:
  assumes "svc_step\<^sup>*\<^sup>* SessionManager_new m"
  shows "distinct (connKeysByAccountId acc m) \<and>
    (\<forall>k. k \<in> set (connKeysByAccountId acc m) \<longleftrightarrow>
       (\<exists>s. find_session k m = Some s \<and> s_state s = Authed \<and> s_accountId s = acc)) \<and>
    (isOnLine acc m \<longleftrightarrow> connKeysByAccountId acc m \<noteq> [])"
proof -
  have inv: "sessions_inv m" using svc_steps_inv [OF assms sessions_inv_new] .
  have "k \<in> set (connKeysByAccountId acc m) \<longleftrightarrow> bound (map_of (sessions m) k) = Some acc" for k
    using inv by (simp add: sessions_inv_def conns_of_def)
  moreover have "bound (map_of (sessions m) k) = Some acc \<longleftrightarrow>
      (\<exists>s. find_session k m = Some s \<and> s_state s = Authed \<and> s_accountId s = acc)" for k
    by (auto simp: bound_def find_session_def split: option.splits if_splits)
  moreover have "distinct (connKeysByAccountId acc m)" using inv by (simp add: sessions_inv_def conns_of_def)
  moreover have "isOnLine acc m \<longleftrightarrow> connKeysByAccountId acc m \<noteq> []"
    by (simp add: isOnLine_def connKeysByAccountId_def split: option.splits)
  ultimately show ?thesis by simp
qed

theorem routing_is_exact_witness:
  "let m = onDisconnect 4 (svc_login 5 1 ''u'' ''bob'' (svc_login 4 1 ''u'' ''bob'' SessionManager_new))
   in connKeysByAccountId ''u'' m = [5] \<and> isOnLine ''u'' m"
proof -
  let ?m = "onDisconnect 4 (svc_login 5 1 ''u'' ''bob'' (svc_login 4 1 ''u'' ''bob'' SessionManager_new))"
  have "svc_step\<^sup>*\<^sup>* SessionManager_new ?m"
    by (meson svc_step.login svc_step.disconnect rtranclp.rtrancl_into_rtrancl rtranclp.rtrancl_refl)
  note r = routing_is_exact [OF this, of "''u''"]
  have "connKeysByAccountId ''u'' ?m = [5]" by code_simp
  with r show ?thesis by (simp add: Let_def)
qed

text \<open>
  Binding is reversible and local: binding a connection that is not bound and then closing it
  restores the connections of every account, and binding adds exactly that connection to exactly
  that account.
\<close>

lemma bind_unbind_roundtrip:
  assumes "sessions_inv m" "accountIdByConn key m = None"
  shows "connKeysByAccountId a (onDisconnect key (bindUser key u acc name m)) = connKeysByAccountId a m \<and>
    set (connKeysByAccountId a (bindUser key u acc name m)) =
      (if a = acc then insert key (set (connKeysByAccountId a m)) else set (connKeysByAccountId a m))"
proof -
  have n: "key \<notin> set (conns_of m a)" for a using assms by (simp add: sessions_inv_def accountIdByConn_def)
  have "conns_of (onDisconnect key (bindUser key u acc name m)) a = conns_of (unbindConn key (bindUser key u acc name m)) a"
    unfolding onDisconnect_def by (rule conns_of_cong) (simp add: erase_session_def)
  also have "\<dots> = conns_of m a" using n by (auto simp: conns_of_unbind conns_of_bind bindUser_maps)
  finally show ?thesis using conns_of_bind [of key u acc name m a] n by (auto simp: conns_of_def)
qed

lemma bind_unbind_roundtrip_witness:
  "connKeysByAccountId ''u'' (onDisconnect 4 (bindUser 4 1 ''u'' ''bob'' SessionManager_new)) = []"
  using bind_unbind_roundtrip [OF sessions_inv_new, of 4 "''u''" 1 "''u''" "''bob''"]
  by (simp add: accountIdByConn_def SessionManager_new_def connKeysByAccountId_def)

end
