(* ===== verification/Storage.thy ===== *)
theory Storage
  imports Prelude "HOL-Library.State_Monad"
begin

text \<open>
  The storage layer every repository is written against: the results it returns
  (\<open>src/include/storage/RepoResult.h\<close>, \<open>src/include/storage/RepoValueResult.h\<close>), the mapping of server errors
  (\<open>src/src/storage/sql/SqlErrorMapper.cpp\<close>), and how a repository talks to the database
  (\<open>src/src/storage/sql/SqlTransaction.cpp\<close>, and \<open>acquire\<close>, \<open>executePrepared\<close>, \<open>queryPrepared\<close> as its clients
  see them).

  The database is a value: the tables and the list of outcomes the environment gives to the coming
  interactions. An interaction is taking a connection, a statement, the start of a transaction or a
  commit; each consumes one outcome, \<open>None\<close> if it works and \<open>Some code\<close> if it fails with that server
  error code, and a list that has run out means that everything works from then on. So a theorem for
  every state of the database is a theorem for every pattern of failures. What is assumed of the
  server is that a statement or commit reported as failed has had no effect, and that a transaction
  that is not committed has had none. The texts of error messages are left out.
\<close>

subsection \<open>Results\<close>

datatype RepoStatus = Ok | AlreadyExists | NotFound | InvalidArgument | Conflict | SqlError | UserNotFound
  | JoinRequestNotFound | GroupNotFound | CannotAddYourself | AlreadyFriends | AlreadyHandled | Forbidden
  | NotFriends | NoPermission | TargetNotInGroup | OwnerCannotLeave | OwnerCannotBeKicked | InvalidGroupRole
  | GroupDissolved | CannotInivteSelf | InviteRequestsFriend | GroupMemberLimitReach | MessageNotFound | Internal

text \<open>\<open>RepoValueResult<T>\<close>: the status and the optional value.\<close>

type_synonym 'a repo_value = "RepoStatus \<times> 'a option"

text \<open>\<open>SqlResult\<close>: a server error code, or the rows or the number of affected rows.\<close>

type_synonym 'a sql_result = "int + 'a"

text \<open>\<open>getString\<close>: the connector prints a column as text, and the text \<open>NULL\<close> reads as a missing value.\<close>

definition getString :: "string \<Rightarrow> string" where
  "getString v = (if v = [] \<or> v = ''NULL'' then [] else v)"

definition mapSqlErrorToRepoStatus :: "'a sql_result \<Rightarrow> RepoStatus" where
  "mapSqlErrorToRepoStatus r =
     (case r of
        Inr _ \<Rightarrow> Ok
      | Inl code \<Rightarrow>
          if code = 1062 then AlreadyExists
          else if code = 1452 then NotFound
          else if code = 1451 then Conflict
          else SqlError)"

subsection \<open>The database\<close>

record 't database =
  tables :: 't
  outcomes :: "int option list"

type_synonym ('t, 'a) db = "('t database, 'a) state"

abbreviation ret :: "'a \<Rightarrow> ('s, 'a) state" where
  "ret \<equiv> State_Monad.return"

definition outcome :: "('t, int option) db" where
  "outcome = State (\<lambda>s. case outcomes s of [] \<Rightarrow> (None, s) | f # fs \<Rightarrow> (f, s\<lparr>outcomes := fs\<rparr>))"

text \<open>\<open>pool_->acquire()\<close> together with the test that the connection is there and connected.\<close>

definition acquire :: "('t, bool) db" where
  "acquire = do {f \<leftarrow> outcome; ret (f = None)}"

text \<open>A statement maps the tables to an error code or to the affected rows and the new tables.\<close>

definition executePrepared :: "('t \<Rightarrow> int + nat \<times> 't) \<Rightarrow> ('t, nat sql_result) db" where
  "executePrepared stmt = do {
     f \<leftarrow> outcome;
     case f of
       Some code \<Rightarrow> ret (Inl code)
     | None \<Rightarrow> do {
         s \<leftarrow> State_Monad.get;
         case stmt (tables s) of
           Inl code \<Rightarrow> ret (Inl code)
         | Inr (n, t) \<Rightarrow> do {State_Monad.set (s\<lparr>tables := t\<rparr>); ret (Inr n)}}}"

definition queryPrepared :: "('t \<Rightarrow> 'r list) \<Rightarrow> ('t, 'r list sql_result) db" where
  "queryPrepared sel = do {
     f \<leftarrow> outcome;
     case f of
       Some code \<Rightarrow> ret (Inl code)
     | None \<Rightarrow> do {s \<leftarrow> State_Monad.get; ret (Inr (sel (tables s)))}}"

text \<open>
  A block with a \<open>SqlTransaction\<close> on the stack inside \<open>try\<close>: the constructor begins or throws; the body
  either returns early (\<open>Inl r\<close>), which destroys the transaction and rolls back, or reaches \<open>commit\<close>
  (\<open>Inr r\<close>), which throws if it fails; what is thrown becomes the result \<open>exn\<close> of the handler.
\<close>

definition with_transaction :: "'r \<Rightarrow> ('t, 'r + 'r) db \<Rightarrow> ('t, 'r) db" where
  "with_transaction exn body = do {
     f \<leftarrow> outcome;
     if f \<noteq> None then ret exn
     else do {
       s0 \<leftarrow> State_Monad.get;
       x \<leftarrow> body;
       s1 \<leftarrow> State_Monad.get;
       let rollback = State_Monad.set (s1\<lparr>tables := tables s0\<rparr>) in
       case x of
         Inl r \<Rightarrow> do {_ \<leftarrow> rollback; ret r}
       | Inr r \<Rightarrow> do {
           c \<leftarrow> outcome;
           if c = None then ret r
           else do {s2 \<leftarrow> State_Monad.get; _ \<leftarrow> State_Monad.set (s2\<lparr>tables := tables s0\<rparr>); ret exn}}}}"

subsection \<open>Possible results\<close>

text \<open>
  Since failures may come in any pattern, what counts about a database program is which results and
  tables it may end with: \<open>may t m r t'\<close>. The rules below read a program statement by statement.
\<close>

definition may :: "'t \<Rightarrow> ('t, 'a) db \<Rightarrow> 'a \<Rightarrow> 't \<Rightarrow> bool" where
  "may t m r t' \<longleftrightarrow> (\<exists>s s'. run_state m s = (r, s') \<and> tables s = t \<and> tables s' = t')"

lemma mayI: "run_state m s = (r, s') \<Longrightarrow> may (tables s) m r (tables s')"
  by (auto simp: may_def)

lemma may_ret [simp]: "may t (ret x) r t' \<longleftrightarrow> r = x \<and> t' = t"
  by (auto simp: may_def) (metis database.select_convs(1))

lemma may_bindE [elim!]:
  assumes "may t (State_Monad.bind m f) r t'"
  obtains x t1 where "may t m x t1" "may t1 (f x) r t'"
proof -
  from assms obtain s s' where s: "run_state (State_Monad.bind m f) s = (r, s')" "tables s = t" "tables s' = t'"
    by (auto simp: may_def)
  obtain x s1 where "run_state m s = (x, s1)" by (cases "run_state m s")
  with s that [of x "tables s1"] show thesis by (auto simp: may_def)
qed

lemma outcome_tables: "run_state outcome s = (f, s') \<Longrightarrow> tables s' = tables s"
  by (auto simp: outcome_def split: list.splits)

lemma may_outcomeE [elim!]: "may t outcome f t' \<Longrightarrow> (t' = t \<Longrightarrow> thesis) \<Longrightarrow> thesis"
  by (auto simp: may_def dest: outcome_tables)

lemma may_getE [elim!]: "may t State_Monad.get s t' \<Longrightarrow> (tables s = t \<Longrightarrow> t' = t \<Longrightarrow> thesis) \<Longrightarrow> thesis"
  by (auto simp: may_def)

lemma may_setE [elim!]: "may t (State_Monad.set s) u t' \<Longrightarrow> (t' = tables s \<Longrightarrow> thesis) \<Longrightarrow> thesis"
  by (auto simp: may_def)

lemma may_acquireE [elim!]: "may t acquire b t' \<Longrightarrow> (t' = t \<Longrightarrow> thesis) \<Longrightarrow> thesis"
  by (auto simp: acquire_def)

lemma may_executePreparedE [elim!]:
  assumes "may t (executePrepared stmt) r t'"
  obtains (failed) code where "r = Inl code" "t' = t" | (worked) n where "r = Inr n" "stmt t = Inr (n, t')"
  using assms by (auto simp: executePrepared_def split: option.splits sum.splits)

lemma may_queryPreparedE [elim!]:
  assumes "may t (queryPrepared sel) r t'"
  obtains (failed) code where "r = Inl code" "t' = t" | (worked) "r = Inr (sel t)" "t' = t"
  using assms by (auto simp: queryPrepared_def split: option.splits)

text \<open>A transaction is all or nothing, whatever fails.\<close>

lemma may_with_transactionE [elim!]:
  assumes "may t (with_transaction exn body) r t'"
  obtains (exn) "r = exn" "t' = t"
    | (early) t1 where "may t body (Inl r) t1" "t' = t"
    | (commit) "may t body (Inr r) t'"
  using assms by (auto simp: with_transaction_def Let_def split: if_splits sum.splits)

end
