(* ===== verification/GroupManager.thy ===== *)
theory GroupManager
  imports Prelude
begin

text \<open>
  Groups in memory: \<open>src/include/im/GroupRole.h\<close>, \<open>src/include/im/Group.h\<close>, \<open>src/src/im/Group.cpp\<close>,
  \<open>src/include/im/GroupManager.h\<close>, \<open>src/src/im/GroupManager.cpp\<close>.

  A group keeps the role of every member and the account of its owner; the manager keeps the groups
  and, for every account, the groups it is in. The invariant says that a group has exactly one owner,
  the recorded one, and that the two directions of membership agree.
\<close>

subsection \<open>Roles\<close>

datatype GroupRole = Member | Admin | Owner

fun roleToString :: "GroupRole \<Rightarrow> string" where
  "roleToString Member = ''member''"
| "roleToString Admin = ''admin''"
| "roleToString Owner = ''owner''"

fun roleToUint :: "GroupRole \<Rightarrow> 8 word" where
  "roleToUint Member = 0"
| "roleToUint Admin = 1"
| "roleToUint Owner = 2"

definition roleFromUint :: "8 word \<Rightarrow> GroupRole option" where
  "roleFromUint r = (if r = 0 then Some Member else if r = 1 then Some Admin else if r = 2 then Some Owner else None)"

lemma roleFromUint_roleToUint [simp]: "roleFromUint (roleToUint r) = Some r"
  by (cases r) (simp_all add: roleFromUint_def)

subsection \<open>One group\<close>

record group =
  g_groupId :: groupId
  g_name :: string
  g_ownerAccountId :: accountId
  g_members :: "(accountId \<times> GroupRole) list"
  g_createAtMs :: u64

definition Group_new :: "u64 \<Rightarrow> groupId \<Rightarrow> string \<Rightarrow> accountId \<Rightarrow> group" where
  "Group_new nowMs gid name own =
     \<lparr>g_groupId = gid, g_name = name, g_ownerAccountId = own, g_members = [], g_createAtMs = nowMs\<rparr>"

definition hasMember :: "accountId \<Rightarrow> group \<Rightarrow> bool" where
  "hasMember a g \<longleftrightarrow> map_of (g_members g) a \<noteq> None"

definition addMember :: "accountId \<Rightarrow> GroupRole \<Rightarrow> group \<Rightarrow> bool \<times> group" where
  "addMember a r g =
     (if a = [] then (False, g)
      else if hasMember a g then (False, g)
      else (True, g\<lparr>g_members := emplace a r (g_members g)\<rparr>))"

definition removeMember :: "accountId \<Rightarrow> group \<Rightarrow> bool \<times> group" where
  "removeMember a g =
     (if \<not> hasMember a g then (False, g)
      else if a = g_ownerAccountId g then (False, g)
      else (True, g\<lparr>g_members := AList.delete a (g_members g)\<rparr>))"

definition memberCount :: "group \<Rightarrow> nat" where
  "memberCount g = length (g_members g)"

definition roleOf :: "accountId \<Rightarrow> group \<Rightarrow> GroupRole option" where
  "roleOf a g = map_of (g_members g) a"

definition isOwner :: "accountId \<Rightarrow> group \<Rightarrow> bool" where
  "isOwner a g \<longleftrightarrow> a = g_ownerAccountId g"

definition isAdminOrOwner :: "accountId \<Rightarrow> group \<Rightarrow> bool" where
  "isAdminOrOwner a g \<longleftrightarrow>
     (case map_of (g_members g) a of Some r \<Rightarrow> r = Admin \<or> r = Owner | None \<Rightarrow> False)"

definition setRole :: "accountId \<Rightarrow> GroupRole \<Rightarrow> group \<Rightarrow> bool \<times> group" where
  "setRole a r g =
     (if a = g_ownerAccountId g \<or> r = Owner then (False, g)
      else case map_of (g_members g) a of
             Some _ \<Rightarrow> (True, g\<lparr>g_members := AList.update a r (g_members g)\<rparr>)
           | None \<Rightarrow> (False, g))"

definition transFerOwner :: "accountId \<Rightarrow> accountId \<Rightarrow> group \<Rightarrow> bool \<times> group" where
  "transFerOwner old new g =
     (if old = new then (False, g)
      else if g_ownerAccountId g \<noteq> old then (False, g)
      else case map_of (g_members g) old of
             None \<Rightarrow> (False, g)
           | Some _ \<Rightarrow>
               (case map_of (g_members g) new of
                  None \<Rightarrow> (False, g)
                | Some _ \<Rightarrow>
                    (True, g\<lparr>g_members := AList.update new Owner (AList.update old Member (g_members g)),
                            g_ownerAccountId := new\<rparr>)))"

text \<open>What each operation does to the roles.\<close>

lemma roleOf_effects:
  "addMember a r g = (b, g') \<Longrightarrow> roleOf x g' = (if b \<and> x = a then Some r else roleOf x g)"
  "removeMember a g = (b, g') \<Longrightarrow> roleOf x g' = (if b \<and> x = a then None else roleOf x g)"
  "setRole a r g = (b, g') \<Longrightarrow> roleOf x g' = (if b \<and> x = a then Some r else roleOf x g)"
  "transFerOwner o1 o2 g = (b, g') \<Longrightarrow> roleOf x g' =
     (if b \<and> x = o2 then Some Owner else if b \<and> x = o1 then Some Member else roleOf x g)"
  by (auto simp: addMember_def removeMember_def setRole_def transFerOwner_def roleOf_def hasMember_def
      split: if_splits option.splits)

lemma results:
  "addMember a r g = (True, g') \<Longrightarrow> a \<noteq> [] \<and> roleOf a g = None"
  "removeMember a g = (True, g') \<Longrightarrow> a \<noteq> g_ownerAccountId g \<and> roleOf a g \<noteq> None"
  "setRole a r g = (True, g') \<Longrightarrow> a \<noteq> g_ownerAccountId g \<and> r \<noteq> Owner \<and> roleOf a g \<noteq> None"
  "transFerOwner o1 o2 g = (True, g') \<Longrightarrow> o1 \<noteq> o2 \<and> g_ownerAccountId g = o1 \<and> roleOf o2 g \<noteq> None"
  by (auto simp: addMember_def removeMember_def setRole_def transFerOwner_def roleOf_def hasMember_def
      split: if_splits option.splits)

lemma refusals:
  "addMember a r g = (False, g') \<Longrightarrow> g' = g" "removeMember a g = (False, g') \<Longrightarrow> g' = g"
  "setRole a r g = (False, g') \<Longrightarrow> g' = g" "transFerOwner o1 o2 g = (False, g') \<Longrightarrow> g' = g"
  by (auto simp: addMember_def removeMember_def setRole_def transFerOwner_def split: if_splits option.splits)

lemma owner_effects:
  "addMember a r g = (b, g') \<Longrightarrow> g_ownerAccountId g' = g_ownerAccountId g"
  "removeMember a g = (b, g') \<Longrightarrow> g_ownerAccountId g' = g_ownerAccountId g"
  "setRole a r g = (b, g') \<Longrightarrow> g_ownerAccountId g' = g_ownerAccountId g"
  "transFerOwner o1 o2 g = (b, g') \<Longrightarrow> g_ownerAccountId g' = (if b then o2 else g_ownerAccountId g)"
  by (auto simp: addMember_def removeMember_def setRole_def transFerOwner_def split: if_splits option.splits)

text \<open>Exactly one owner, the recorded one; no member without a name.\<close>

definition group_ok :: "group \<Rightarrow> bool" where
  "group_ok g \<longleftrightarrow> (\<forall>a. roleOf a g = Some Owner \<longleftrightarrow> a = g_ownerAccountId g) \<and> roleOf [] g = None"

lemma group_ok_owner: "group_ok g \<Longrightarrow> roleOf (g_ownerAccountId g) g = Some Owner"
  by (simp add: group_ok_def)

lemma group_ok_owner_named: "group_ok g \<Longrightarrow> g_ownerAccountId g \<noteq> []"
  using group_ok_owner [of g] unfolding group_ok_def by (metis option.distinct(1))

lemma addMember_ok:
  assumes "r \<noteq> Owner" "group_ok g" "addMember a r g = (b, g')"
  shows "group_ok g'"
proof (cases b)
  case True
  with assms have e: "addMember a r g = (True, g')" by simp
  have "roleOf x g' = (if x = a then Some r else roleOf x g)" for x
    using roleOf_effects(1) [OF e, of x] by simp
  moreover have ne: "a \<noteq> g_ownerAccountId g"
    using results(1) [OF e] group_ok_owner [OF assms(2)] by auto
  ultimately show ?thesis
    using assms(1,2) results(1) [OF e] owner_effects(1) [OF e] ne
    by (auto simp: group_ok_def)
next
  case False
  with assms have "addMember a r g = (False, g')" by simp
  then show ?thesis using refusals(1) assms(1,2) by blast
qed

lemma removeMember_ok:
  assumes "group_ok g" "removeMember a g = (b, g')"
  shows "group_ok g'"
proof (cases b)
  case True
  with assms have e: "removeMember a g = (True, g')" by simp
  have "roleOf x g' = (if x = a then None else roleOf x g)" for x
    using roleOf_effects(2) [OF e, of x] by simp
  then show ?thesis
    using assms(1) results(2) [OF e] owner_effects(2) [OF e] by (auto simp: group_ok_def)
next
  case False
  with assms have "removeMember a g = (False, g')" by simp
  then show ?thesis using refusals(2) assms(1) by blast
qed

lemma setRole_ok:
  assumes "group_ok g" "setRole a r g = (b, g')"
  shows "group_ok g'"
proof (cases b)
  case True
  with assms have e: "setRole a r g = (True, g')" by simp
  have "roleOf x g' = (if x = a then Some r else roleOf x g)" for x
    using roleOf_effects(3) [OF e, of x] by simp
  then show ?thesis
    using assms(1) results(3) [OF e] owner_effects(3) [OF e] by (auto simp: group_ok_def)
next
  case False
  with assms have "setRole a r g = (False, g')" by simp
  then show ?thesis using refusals(3) assms(1) by blast
qed

lemma transFerOwner_ok:
  assumes "group_ok g" "transFerOwner o1 o2 g = (b, g')"
  shows "group_ok g'"
proof (cases b)
  case True
  with assms have e: "transFerOwner o1 o2 g = (True, g')" by simp
  have "roleOf x g' = (if x = o2 then Some Owner else if x = o1 then Some Member else roleOf x g)" for x
    using roleOf_effects(4) [OF e, of x] by simp
  then show ?thesis
    using assms(1) results(4) [OF e] owner_effects(4) [OF e] group_ok_owner_named [OF assms(1)]
    by (auto simp: group_ok_def)
next
  case False
  with assms have "transFerOwner o1 o2 g = (False, g')" by simp
  then show ?thesis using refusals(4) assms(1) by blast
qed

lemma hasMember_roleOf: "hasMember a g \<longleftrightarrow> roleOf a g \<noteq> None"
  by (simp add: hasMember_def roleOf_def)

lemma hasMember_effects:
  "addMember a r g = (b, g') \<Longrightarrow> hasMember x g' \<longleftrightarrow> hasMember x g \<or> (b \<and> x = a)"
  "removeMember a g = (b, g') \<Longrightarrow> hasMember x g' \<longleftrightarrow> hasMember x g \<and> \<not> (b \<and> x = a)"
  "setRole a r g = (b, g') \<Longrightarrow> hasMember x g' \<longleftrightarrow> hasMember x g"
  "transFerOwner o1 o2 g = (b, g') \<Longrightarrow> hasMember x g' \<longleftrightarrow> hasMember x g"
  by (auto simp: addMember_def removeMember_def setRole_def transFerOwner_def hasMember_def
      split: if_splits option.splits)

lemma groupId_effects:
  "addMember a r g = (b, g') \<Longrightarrow> g_groupId g' = g_groupId g \<and> g_ownerAccountId g' = g_ownerAccountId g"
  "removeMember a g = (b, g') \<Longrightarrow> g_groupId g' = g_groupId g"
  "setRole a r g = (b, g') \<Longrightarrow> g_groupId g' = g_groupId g"
  "transFerOwner o1 o2 g = (b, g') \<Longrightarrow> g_groupId g' = g_groupId g"
  by (auto simp: addMember_def removeMember_def setRole_def transFerOwner_def split: if_splits option.splits)

subsection \<open>The manager\<close>

datatype JoinResult = OK_JOINED | OK_ALREADY_IN | JOIN_NO_SUCH_GROUP

datatype QuitResult = OK_LEFT | ERR_NOT_IN_GROUP | QUIT_NO_SUCH_GROUP

record group_manager =
  accountIdGroups :: "(accountId \<times> groupId list) list"
  groupsById :: "(groupId \<times> group) list"

record group_member_record =
  mr_groupId :: groupId
  mr_accountId :: accountId
  mr_role :: "8 word"
  mr_joinedAtMs :: int

definition GroupManager_new :: group_manager where
  "GroupManager_new = \<lparr>accountIdGroups = [], groupsById = []\<rparr>"

definition gm_createGroup :: "u64 \<Rightarrow> groupId \<Rightarrow> accountId \<Rightarrow> string \<Rightarrow> group_manager \<Rightarrow> bool \<times> group_manager" where
  "gm_createGroup nowMs gid own name m =
     (if gid = [] \<or> own = [] \<or> name = [] then (False, m)
      else case addMember own Owner (Group_new nowMs gid name own) of
             (ok, g) \<Rightarrow>
               if \<not> ok then (False, m)
               else if map_of (groupsById m) gid \<noteq> None then (False, m)
               else (True, m\<lparr>groupsById := emplace gid g (groupsById m),
                            accountIdGroups := mm_insert own gid (accountIdGroups m)\<rparr>))"

definition gm_isMember :: "groupId \<Rightarrow> accountId \<Rightarrow> group_manager \<Rightarrow> bool" where
  "gm_isMember gid a m = (case map_of (groupsById m) gid of None \<Rightarrow> False | Some g \<Rightarrow> hasMember a g)"

definition joinGroup :: "groupId \<Rightarrow> accountId \<Rightarrow> group_manager \<Rightarrow> JoinResult \<times> group_manager" where
  "joinGroup gid a m =
     (case map_of (groupsById m) gid of
        None \<Rightarrow> (JOIN_NO_SUCH_GROUP, m)
      | Some g \<Rightarrow>
          if gm_isMember gid a m then (OK_ALREADY_IN, m)
          else case addMember a Member g of
                 (False, g') \<Rightarrow> (OK_ALREADY_IN, m)
               | (True, g') \<Rightarrow>
                   (OK_JOINED, m\<lparr>groupsById := AList.update gid g' (groupsById m),
                                accountIdGroups := mm_insert a gid (accountIdGroups m)\<rparr>))"

definition leaveGroup :: "groupId \<Rightarrow> accountId \<Rightarrow> group_manager \<Rightarrow> QuitResult \<times> group_manager" where
  "leaveGroup gid a m =
     (case map_of (groupsById m) gid of
        None \<Rightarrow> (QUIT_NO_SUCH_GROUP, m)
      | Some g \<Rightarrow>
          (case removeMember a g of
             (False, g') \<Rightarrow> (ERR_NOT_IN_GROUP, m)
           | (True, g') \<Rightarrow>
               (OK_LEFT, m\<lparr>groupsById := AList.update gid g' (groupsById m),
                          accountIdGroups := mm_erase a gid (accountIdGroups m)\<rparr>)))"

definition gm_removeMember :: "groupId \<Rightarrow> accountId \<Rightarrow> group_manager \<Rightarrow> bool \<times> group_manager" where
  "gm_removeMember gid a m =
     (if gid = [] \<or> a = [] then (False, m)
      else case map_of (groupsById m) gid of
             None \<Rightarrow> (False, m)
           | Some g \<Rightarrow>
               (case removeMember a g of
                  (False, g') \<Rightarrow> (False, m)
                | (True, g') \<Rightarrow>
                    (True, m\<lparr>groupsById := AList.update gid g' (groupsById m),
                            accountIdGroups := mm_erase a gid (accountIdGroups m)\<rparr>)))"

text \<open>Taking a group out of the reverse map of all its members.\<close>

definition unlink :: "groupId \<Rightarrow> group \<Rightarrow> (accountId \<times> groupId list) list \<Rightarrow> (accountId \<times> groupId list) list" where
  "unlink gid g ag = fold (\<lambda>a. mm_erase a gid) (map fst (g_members g)) ag"

definition removeGroup :: "groupId \<Rightarrow> group_manager \<Rightarrow> bool \<times> group_manager" where
  "removeGroup gid m =
     (case map_of (groupsById m) gid of
        None \<Rightarrow> (False, m)
      | Some g \<Rightarrow>
          (True, m\<lparr>accountIdGroups := unlink gid g (accountIdGroups m),
                  groupsById := AList.delete gid (groupsById m)\<rparr>))"

definition groupsOfUser :: "accountId \<Rightarrow> group_manager \<Rightarrow> groupId list" where
  "groupsOfUser a m = mm_get a (accountIdGroups m)"

definition exists_group :: "groupId \<Rightarrow> group_manager \<Rightarrow> bool" where
  "exists_group gid m \<longleftrightarrow> map_of (groupsById m) gid \<noteq> None"

text \<open>
  The loop of \<open>restoreGroup\<close> over the stored records: \<open>None\<close> for the early \<open>return false\<close>, otherwise
  the rebuilt group and whether the owner had a record.
\<close>

fun restore_members :: "accountId \<Rightarrow> group_member_record list \<Rightarrow> bool \<Rightarrow> group \<Rightarrow> (bool \<times> group) option" where
  "restore_members own [] hasOwner g = Some (hasOwner, g)"
| "restore_members own (r # rs) hasOwner g =
     (if mr_accountId r = [] then restore_members own rs hasOwner g
      else case roleFromUint (mr_role r) of
             None \<Rightarrow> None
           | Some role \<Rightarrow>
               if mr_accountId r = own
               then restore_members own rs True (snd (addMember (mr_accountId r) Owner g))
               else if role = Owner then None
               else restore_members own rs hasOwner (snd (addMember (mr_accountId r) role g)))"

definition restoreGroup ::
  "u64 \<Rightarrow> groupId \<Rightarrow> string \<Rightarrow> accountId \<Rightarrow> group_member_record list \<Rightarrow> group_manager \<Rightarrow> bool \<times> group_manager" where
  "restoreGroup nowMs gid name own rs m =
     (if gid = [] \<or> name = [] \<or> own = [] then (False, m)
      else case restore_members own rs False (Group_new nowMs gid name own) of
             None \<Rightarrow> (False, m)
           | Some (hasOwner, g0) \<Rightarrow>
               let g = (if hasOwner then g0 else snd (addMember own Owner g0));
                   m1 = (case map_of (groupsById m) gid of
                           None \<Rightarrow> m
                         | Some old \<Rightarrow> m\<lparr>accountIdGroups := unlink gid old (accountIdGroups m),
                                         groupsById := AList.delete gid (groupsById m)\<rparr>)
               in (True, m1\<lparr>accountIdGroups := fold (\<lambda>a. mm_insert a gid) (map fst (g_members g)) (accountIdGroups m1),
                           groupsById := emplace gid g (groupsById m1)\<rparr>))"

definition gm_roleOf :: "groupId \<Rightarrow> accountId \<Rightarrow> group_manager \<Rightarrow> GroupRole option" where
  "gm_roleOf gid a m = (case map_of (groupsById m) gid of None \<Rightarrow> None | Some g \<Rightarrow> roleOf a g)"

definition gm_isOwner :: "groupId \<Rightarrow> accountId \<Rightarrow> group_manager \<Rightarrow> bool" where
  "gm_isOwner gid a m \<longleftrightarrow> gm_roleOf gid a m = Some Owner"

definition canManageMember :: "groupId \<Rightarrow> accountId \<Rightarrow> accountId \<Rightarrow> group_manager \<Rightarrow> bool" where
  "canManageMember gid op target m =
     (case (gm_roleOf gid op m, gm_roleOf gid target m) of
        (Some r, Some t) \<Rightarrow> r = Owner \<or> (r = Admin \<and> t = Member)
      | _ \<Rightarrow> False)"

definition setMemberRole :: "groupId \<Rightarrow> accountId \<Rightarrow> GroupRole \<Rightarrow> group_manager \<Rightarrow> bool \<times> group_manager" where
  "setMemberRole gid a r m =
     (if \<not> gm_isMember gid a m then (False, m)
      else case map_of (groupsById m) gid of
             None \<Rightarrow> (False, m)
           | Some g \<Rightarrow>
               (case setRole a r g of
                  (False, g') \<Rightarrow> (False, m)
                | (True, g') \<Rightarrow> (True, m\<lparr>groupsById := AList.update gid g' (groupsById m)\<rparr>)))"

definition memberInfos :: "groupId \<Rightarrow> group_manager \<Rightarrow> (accountId \<times> GroupRole) list" where
  "memberInfos gid m = (case map_of (groupsById m) gid of None \<Rightarrow> [] | Some g \<Rightarrow> g_members g)"

definition gm_transferOwner :: "groupId \<Rightarrow> accountId \<Rightarrow> accountId \<Rightarrow> group_manager \<Rightarrow> bool \<times> group_manager" where
  "gm_transferOwner gid old new m =
     (case map_of (groupsById m) gid of
        None \<Rightarrow> (False, m)
      | Some g \<Rightarrow>
          if isOwner old g
          then (case transFerOwner old new g of
                  (b, g') \<Rightarrow> (b, m\<lparr>groupsById := AList.update gid g' (groupsById m)\<rparr>))
          else (False, m))"

subsection \<open>Invariant of the manager\<close>

definition gm_ok :: "group_manager \<Rightarrow> bool" where
  "gm_ok m \<longleftrightarrow> mm_ok (accountIdGroups m) \<and>
     (\<forall>gid g. map_of (groupsById m) gid = Some g \<longrightarrow> group_ok g) \<and>
     (\<forall>a gid. gid \<in> set (groupsOfUser a m) \<longleftrightarrow> gm_isMember gid a m)"

lemma gm_ok_new: "gm_ok GroupManager_new"
  by (simp add: gm_ok_def GroupManager_new_def groupsOfUser_def gm_isMember_def)

text \<open>Replacing a group by one with the same members, one more, or one less.\<close>

lemma gm_ok_replace:
  assumes "gm_ok m" "group_ok g" "mm_ok ag"
    "\<And>a x. x \<in> set (mm_get a ag) \<longleftrightarrow> (if x = gid then hasMember a g else gm_isMember x a m)"
    "map_of gs = (map_of (groupsById m))(gid \<mapsto> g)"
  shows "gm_ok (m\<lparr>groupsById := gs, accountIdGroups := ag\<rparr>)"
  using assms by (auto simp: gm_ok_def groupsOfUser_def gm_isMember_def split: if_splits)

lemma gm_okD:
  assumes "gm_ok m"
  shows "mm_ok (accountIdGroups m)" "map_of (groupsById m) gid = Some g \<Longrightarrow> group_ok g"
    "gid \<in> set (mm_get a (accountIdGroups m)) \<longleftrightarrow> gm_isMember gid a m"
  using assms by (auto simp: gm_ok_def groupsOfUser_def)

lemma gm_ok_create:
  assumes "gm_ok m" "gm_createGroup now gid own name m = (b, m')"
  shows "gm_ok m'"
proof (cases b)
  case True
  let ?g = "(Group_new now gid name own)\<lparr>g_members := [(own, Owner)]\<rparr>"
  from assms(2) True have ne: "own \<noteq> []" "map_of (groupsById m) gid = None"
    and m': "m' = m\<lparr>groupsById := emplace gid ?g (groupsById m), accountIdGroups := mm_insert own gid (accountIdGroups m)\<rparr>"
    by (auto simp: gm_createGroup_def addMember_def hasMember_def Group_new_def emplace_def split: if_splits)
  have "group_ok ?g" using ne(1) by (auto simp: group_ok_def roleOf_def Group_new_def)
  moreover have "x \<in> set (mm_get a (mm_insert own gid (accountIdGroups m))) \<longleftrightarrow>
      (if x = gid then hasMember a ?g else gm_isMember x a m)" for a x
    using gm_okD(3) [OF assms(1)] ne by (auto simp: mm_get_insert hasMember_def gm_isMember_def)
  ultimately show ?thesis
    unfolding m' using assms(1) ne(2) by (intro gm_ok_replace) (auto simp: gm_okD(1))
next
  case False
  with assms show ?thesis by (auto simp: gm_createGroup_def split: if_splits prod.splits)
qed

lemma gm_ok_join:
  assumes "gm_ok m" "joinGroup gid a m = (r, m')"
  shows "gm_ok m'"
proof (cases "m' = m")
  case False
  with assms(2) obtain g g' where g: "map_of (groupsById m) gid = Some g" "addMember a Member g = (True, g')"
    and m': "m' = m\<lparr>groupsById := AList.update gid g' (groupsById m), accountIdGroups := mm_insert a gid (accountIdGroups m)\<rparr>"
    by (auto simp: joinGroup_def split: option.splits if_splits prod.splits bool.splits)
  have "group_ok g'" using addMember_ok [OF _ gm_okD(2) [OF assms(1) g(1)] g(2)] by simp
  moreover have "x \<in> set (mm_get y (mm_insert a gid (accountIdGroups m))) \<longleftrightarrow>
      (if x = gid then hasMember y g' else gm_isMember x y m)" for y x
    using gm_okD(3) [OF assms(1)] g hasMember_effects(1) [OF g(2)] by (auto simp: mm_get_insert gm_isMember_def)
  ultimately show ?thesis
    unfolding m' using assms(1) by (intro gm_ok_replace) (auto simp: gm_okD(1))
qed (use assms in simp)

lemma gm_ok_erase:
  assumes "gm_ok m" "map_of (groupsById m) gid = Some g" "removeMember a g = (True, g')"
  shows "gm_ok (m\<lparr>groupsById := AList.update gid g' (groupsById m), accountIdGroups := mm_erase a gid (accountIdGroups m)\<rparr>)"
proof -
  have "group_ok g'" using removeMember_ok [OF gm_okD(2) [OF assms(1,2)] assms(3)] .
  moreover have "x \<in> set (mm_get y (mm_erase a gid (accountIdGroups m))) \<longleftrightarrow>
      (if x = gid then hasMember y g' else gm_isMember x y m)" for y x
    using gm_okD(3) [OF assms(1)] assms(2) hasMember_effects(2) [OF assms(3)]
    by (auto simp: mm_get_erase gm_isMember_def)
  ultimately show ?thesis using assms(1) by (intro gm_ok_replace) (auto simp: gm_okD(1))
qed

lemma gm_ok_leave: "gm_ok m \<Longrightarrow> leaveGroup gid a m = (r, m') \<Longrightarrow> gm_ok m'"
  by (auto simp: leaveGroup_def intro: gm_ok_erase split: option.splits prod.splits bool.splits)

lemma gm_ok_removeMember: "gm_ok m \<Longrightarrow> gm_removeMember gid a m = (r, m') \<Longrightarrow> gm_ok m'"
  by (auto simp: gm_removeMember_def intro: gm_ok_erase split: if_splits option.splits prod.splits bool.splits)

lemma gm_ok_same_members:
  assumes "gm_ok m" "map_of (groupsById m) gid = Some g" "group_ok g'" "\<And>x. hasMember x g' = hasMember x g"
  shows "gm_ok (m\<lparr>groupsById := AList.update gid g' (groupsById m)\<rparr>)"
  using assms gm_okD(3) [OF assms(1)] by (auto simp: gm_ok_def groupsOfUser_def gm_isMember_def)

lemma gm_ok_setMemberRole:
  assumes "gm_ok m" "setMemberRole gid a r m = (b, m')"
  shows "gm_ok m'"
proof (cases "m' = m")
  case False
  with assms(2) obtain g g' where g: "map_of (groupsById m) gid = Some g" "setRole a r g = (True, g')"
    and m': "m' = m\<lparr>groupsById := AList.update gid g' (groupsById m)\<rparr>"
    by (auto simp: setMemberRole_def split: option.splits if_splits prod.splits bool.splits)
  show ?thesis unfolding m'
    by (rule gm_ok_same_members [OF assms(1) g(1) setRole_ok [OF gm_okD(2) [OF assms(1) g(1)] g(2)]
          hasMember_effects(3) [OF g(2)]])
qed (use assms in simp)

lemma gm_ok_transferOwner:
  assumes "gm_ok m" "gm_transferOwner gid o1 o2 m = (b, m')"
  shows "gm_ok m'"
proof (cases "m' = m")
  case False
  with assms(2) obtain g g' where g: "map_of (groupsById m) gid = Some g" "transFerOwner o1 o2 g = (b, g')"
    and m': "m' = m\<lparr>groupsById := AList.update gid g' (groupsById m)\<rparr>"
    by (auto simp: gm_transferOwner_def split: option.splits if_splits prod.splits)
  show ?thesis unfolding m'
    by (rule gm_ok_same_members [OF assms(1) g(1) transFerOwner_ok [OF gm_okD(2) [OF assms(1) g(1)] g(2)]
          hasMember_effects(4) [OF g(2)]])
qed (use assms in simp)

lemma in_members_hasMember: "a \<in> set (map fst (g_members g)) \<longleftrightarrow> hasMember a g"
  by (simp add: hasMember_def in_fst_set_iff)

lemma unlink_get:
  assumes "gm_ok m" "map_of (groupsById m) gid = Some g"
  shows "x \<in> set (mm_get a (unlink gid g (accountIdGroups m))) \<longleftrightarrow> x \<noteq> gid \<and> gm_isMember x a m"
  using gm_okD(3) [OF assms(1)] assms(2) in_members_hasMember [of a g]
  by (auto simp: unlink_def mm_get_fold_erase gm_isMember_def)

lemma mm_ok_unlink: "mm_ok ag \<Longrightarrow> mm_ok (unlink gid g ag)"
  by (simp add: unlink_def mm_ok_folds(2))

lemma gm_ok_removeGroup:
  assumes "gm_ok m" "removeGroup gid m = (b, m')"
  shows "gm_ok m'"
proof (cases "map_of (groupsById m) gid")
  case (Some g)
  then have m': "m' = m\<lparr>accountIdGroups := unlink gid g (accountIdGroups m), groupsById := AList.delete gid (groupsById m)\<rparr>"
    using assms(2) by (simp add: removeGroup_def)
  show ?thesis
    using unlink_get [OF assms(1) Some] mm_ok_unlink [OF gm_okD(1) [OF assms(1)]] gm_okD(2) [OF assms(1)]
    by (auto simp: m' gm_ok_def groupsOfUser_def gm_isMember_def split: if_splits)
qed (use assms in \<open>simp add: removeGroup_def\<close>)

text \<open>
  Rebuilding a group from its stored records, whatever they contain: either it is refused or the
  result has exactly the owner as owner. While the loop runs, only the owner can have the owner role.
\<close>

definition restoring :: "accountId \<Rightarrow> bool \<Rightarrow> group \<Rightarrow> bool" where
  "restoring own hasOwner g \<longleftrightarrow> g_ownerAccountId g = own \<and> roleOf [] g = None \<and>
     (\<forall>a. roleOf a g = Some Owner \<longleftrightarrow> a = own \<and> hasOwner) \<and> (\<not> hasOwner \<longrightarrow> roleOf own g = None)"

lemma restoring_add:
  assumes "restoring own h g" "a \<noteq> []" "(a = own \<longrightarrow> r = Owner) \<and> (a \<noteq> own \<longrightarrow> r \<noteq> Owner)"
  shows "restoring own (h \<or> a = own) (snd (addMember a r g))"
proof (cases "addMember a r g")
  case (Pair b g')
  show ?thesis
  proof (cases b)
    case True
    then have e: "addMember a r g = (True, g')" using Pair by simp
    have "roleOf x g' = (if x = a then Some r else roleOf x g)" for x using roleOf_effects(1) [OF e, of x] by simp
    then show ?thesis using assms results(1) [OF e] owner_effects(1) [OF e] Pair by (auto simp: restoring_def)
  next
    case False
    then have "hasMember a g" "g' = g" using Pair assms(2) by (auto simp: addMember_def split: if_splits)
    then have "(h \<or> a = own) = h" using assms(1) unfolding restoring_def hasMember_roleOf by metis
    then show ?thesis using assms(1) Pair \<open>g' = g\<close> by simp
  qed
qed

lemma restore_members_restoring:
  "restoring own h g \<Longrightarrow> restore_members own rs h g = Some (h', g') \<Longrightarrow> restoring own h' g'"
proof (induction own rs h g arbitrary: h' g' rule: restore_members.induct)
  case (2 own r rs h g)
  show ?case
  proof (cases "mr_accountId r = []")
    case True
    with 2 show ?thesis by simp
  next
    case False
    with "2.prems"(2) obtain role where role: "roleFromUint (mr_role r) = Some role" by (auto split: option.splits)
    show ?thesis
    proof (cases "mr_accountId r = own")
      case True
      then have "restoring own True (snd (addMember (mr_accountId r) Owner g))"
        using restoring_add [OF "2.prems"(1) False, of Owner] by simp
      with "2.IH"(2) [OF False role True] "2.prems"(2) False role True show ?thesis by simp
    next
      case ne: False
      with "2.prems"(2) False role have no: "role \<noteq> Owner" by (auto split: if_splits)
      then have "restoring own h (snd (addMember (mr_accountId r) role g))"
        using restoring_add [OF "2.prems"(1) False, of role] ne by simp
      with "2.IH"(3) [OF False role ne no] "2.prems"(2) False role ne no show ?thesis by simp
    qed
  qed
qed simp

lemma restored_group_ok:
  assumes "own \<noteq> []" "restore_members own rs False (Group_new now gid name own) = Some (h, g0)"
  shows "group_ok (if h then g0 else snd (addMember own Owner g0))"
proof -
  have "restoring own False (Group_new now gid name own)" by (simp add: restoring_def Group_new_def roleOf_def)
  from restore_members_restoring [OF this assms(2)] have r: "restoring own h g0" .
  then have "restoring own True (if h then g0 else snd (addMember own Owner g0))"
    using restoring_add [OF r assms(1), of Owner] by auto
  then show ?thesis by (auto simp: restoring_def group_ok_def)
qed

lemma gm_ok_restore:
  assumes "gm_ok m" "restoreGroup now gid name own rs m = (b, m')"
  shows "gm_ok m'"
proof (cases "restore_members own rs False (Group_new now gid name own)")
  case None
  with assms show ?thesis by (auto simp: restoreGroup_def split: if_splits)
next
  case (Some hg)
  obtain h g0 where hg: "hg = (h, g0)" by (cases hg)
  define g where "g = (if h then g0 else snd (addMember own Owner g0))"
  define m1 where "m1 = (case map_of (groupsById m) gid of
      None \<Rightarrow> m
    | Some old \<Rightarrow> m\<lparr>accountIdGroups := unlink gid old (accountIdGroups m), groupsById := AList.delete gid (groupsById m)\<rparr>)"
  show ?thesis
  proof (cases "gid = [] \<or> name = [] \<or> own = []")
    case True
    with assms show ?thesis by (simp add: restoreGroup_def)
  next
    case False
    then have m': "m' = m1\<lparr>accountIdGroups := fold (\<lambda>a. mm_insert a gid) (map fst (g_members g)) (accountIdGroups m1),
        groupsById := emplace gid g (groupsById m1)\<rparr>"
      using assms(2) Some hg by (simp add: restoreGroup_def g_def m1_def Let_def)
    have gok: "group_ok g" unfolding g_def using restored_group_ok [of own rs now gid name h g0] Some hg False by simp
    have m1: "gm_ok m1" "map_of (groupsById m1) gid = None"
      using gm_ok_removeGroup [OF assms(1), of gid] assms(1)
      by (auto simp: m1_def removeGroup_def split: option.splits)
    have "gm_ok (m1\<lparr>groupsById := emplace gid g (groupsById m1),
        accountIdGroups := fold (\<lambda>a. mm_insert a gid) (map fst (g_members g)) (accountIdGroups m1)\<rparr>)"
    proof (rule gm_ok_replace [OF m1(1) gok, of _ gid])
      show "mm_ok (fold (\<lambda>a. mm_insert a gid) (map fst (g_members g)) (accountIdGroups m1))"
        using gm_okD(1) [OF m1(1)] by (rule mm_ok_folds(1))
      show "map_of (emplace gid g (groupsById m1)) = (map_of (groupsById m1))(gid \<mapsto> g)" using m1(2) by simp
      show "x \<in> set (mm_get a (fold (\<lambda>a. mm_insert a gid) (map fst (g_members g)) (accountIdGroups m1))) \<longleftrightarrow>
          (if x = gid then hasMember a g else gm_isMember x a m1)" for a x
        using gm_okD(3) [OF m1(1)] in_members_hasMember [of a g] m1(2)
        by (auto simp: mm_get_fold_insert gm_isMember_def)
    qed
    moreover have "m1\<lparr>groupsById := emplace gid g (groupsById m1),
        accountIdGroups := fold (\<lambda>a. mm_insert a gid) (map fst (g_members g)) (accountIdGroups m1)\<rparr> = m'"
      unfolding m' by simp
    ultimately show ?thesis by simp
  qed
qed

subsection \<open>All operations\<close>

inductive gm_step :: "group_manager \<Rightarrow> group_manager \<Rightarrow> bool" where
  create: "gm_createGroup now gid own name m = (b, m') \<Longrightarrow> gm_step m m'"
| join: "joinGroup gid a m = (r, m') \<Longrightarrow> gm_step m m'"
| leave: "leaveGroup gid a m = (q, m') \<Longrightarrow> gm_step m m'"
| remove: "gm_removeMember gid a m = (b, m') \<Longrightarrow> gm_step m m'"
| dissolve: "removeGroup gid m = (b, m') \<Longrightarrow> gm_step m m'"
| restore: "restoreGroup now gid name own rs m = (b, m') \<Longrightarrow> gm_step m m'"
| role: "setMemberRole gid a role m = (b, m') \<Longrightarrow> gm_step m m'"
| transfer: "gm_transferOwner gid o1 o2 m = (b, m') \<Longrightarrow> gm_step m m'"

lemma gm_step_ok: "gm_step m m' \<Longrightarrow> gm_ok m \<Longrightarrow> gm_ok m'"
  by (induction rule: gm_step.induct)
     (blast intro: gm_ok_create gm_ok_join gm_ok_leave gm_ok_removeMember gm_ok_removeGroup gm_ok_restore
        gm_ok_setMemberRole gm_ok_transferOwner)+

lemma gm_steps_ok: "gm_step\<^sup>*\<^sup>* m m' \<Longrightarrow> gm_ok m \<Longrightarrow> gm_ok m'"
  by (induction rule: rtranclp_induct) (auto intro: gm_step_ok)

text \<open>The role a list of stored records gives an account: that of its first record.\<close>

fun first_role :: "group_member_record list \<Rightarrow> accountId \<Rightarrow> GroupRole option" where
  "first_role [] a = None"
| "first_role (r # rs) a = (if mr_accountId r = a then roleFromUint (mr_role r) else first_role rs a)"

lemma restore_members_roles:
  "restore_members own rs h g = Some (h', g') \<Longrightarrow> a \<noteq> own \<Longrightarrow> a \<noteq> [] \<Longrightarrow>
   roleOf a g' = (case roleOf a g of None \<Rightarrow> first_role rs a | Some r \<Rightarrow> Some r)"
proof (induction own rs h g arbitrary: h' g' rule: restore_members.induct)
  case (1 own h g)
  then show ?case by (auto split: option.splits)
next
  case (2 own r rs h g)
  show ?case
  proof (cases "mr_accountId r = []")
    case True
    with 2 show ?thesis by (cases "roleOf a g") simp_all
  next
    case False
    with "2.prems"(1) obtain role where role: "roleFromUint (mr_role r) = Some role" by (auto split: option.splits)
    have add: "roleOf a (snd (addMember (mr_accountId r) q g)) =
        (if a = mr_accountId r then (case roleOf a g of None \<Rightarrow> Some q | Some x \<Rightarrow> Some x) else roleOf a g)" for q
      using False by (auto simp: addMember_def hasMember_def roleOf_def split: option.splits)
    show ?thesis
    proof (cases "mr_accountId r = own")
      case True
      with "2.IH"(2) [OF False role True] "2.prems" False role add show ?thesis
        by (cases "roleOf a g") simp_all
    next
      case ne: False
      with "2.prems"(1) False role have no: "role \<noteq> Owner" by (auto split: if_splits)
      have "roleOf a g' = (case roleOf a (snd (addMember (mr_accountId r) role g)) of
          None \<Rightarrow> first_role rs a | Some r \<Rightarrow> Some r)"
        using "2.IH"(3) [OF False role ne no] "2.prems" False role ne no by simp
      then show ?thesis
        unfolding add using role by (cases "a = mr_accountId r"; cases "roleOf a g") auto
    qed
  qed
qed

subsection \<open>Properties\<close>

text \<open>
  Whatever sequence of operations the manager has gone through, every group has exactly one
  member with the owner role, the account recorded as its owner, and the list of groups of an
  account contains exactly the groups it is a member of, each once.
\<close>

theorem group_membership_consistent:
  assumes "gm_step\<^sup>*\<^sup>* GroupManager_new m"
  shows "(\<forall>gid g. map_of (groupsById m) gid = Some g \<longrightarrow>
      (\<forall>a. gm_isOwner gid a m \<longleftrightarrow> a = g_ownerAccountId g)) \<and>
    (\<forall>a gid. gid \<in> set (groupsOfUser a m) \<longleftrightarrow> gm_isMember gid a m) \<and> distinct (groupsOfUser a m)"
proof -
  have ok: "gm_ok m" using gm_steps_ok [OF assms gm_ok_new] .
  then have "distinct (groupsOfUser a m)" by (simp add: gm_ok_def mm_ok_def groupsOfUser_def)
  with ok show ?thesis
    by (auto simp: gm_ok_def group_ok_def gm_isOwner_def gm_roleOf_def)
qed

theorem group_membership_consistent_witness:
  "let m = snd (joinGroup ''g'' ''bob'' (snd (gm_createGroup 0 ''g'' ''amy'' ''Team'' GroupManager_new)))
   in gm_isOwner ''g'' ''amy'' m \<and> groupsOfUser ''bob'' m = [''g'']"
proof -
  let ?m1 = "snd (gm_createGroup 0 ''g'' ''amy'' ''Team'' GroupManager_new)"
  let ?m = "snd (joinGroup ''g'' ''bob'' ?m1)"
  have "gm_step GroupManager_new ?m1" by (rule gm_step.create) (rule surjective_pairing)
  moreover have "gm_step ?m1 ?m" by (rule gm_step.join) (rule surjective_pairing)
  ultimately have st: "gm_step\<^sup>*\<^sup>* GroupManager_new ?m" by (meson rtranclp.intros)
  obtain g where g: "map_of (groupsById ?m) ''g'' = Some g" "g_ownerAccountId g = ''amy''"
    by (simp add: joinGroup_def gm_createGroup_def addMember_def hasMember_def Group_new_def GroupManager_new_def
        emplace_def gm_isMember_def)
  have "groupsOfUser ''bob'' ?m = [''g'']"
    by (simp add: joinGroup_def gm_createGroup_def addMember_def hasMember_def Group_new_def GroupManager_new_def
        emplace_def gm_isMember_def groupsOfUser_def mm_get_insert)
  with group_membership_consistent [OF st] g show ?thesis by (simp add: Let_def)
qed

text \<open>
  Restoring a group from stored records either is refused and changes nothing, or installs a
  group in which the given owner is the owner and every other account has the role of its first
  record (and is not a member without one); it is refused exactly for empty names and for records
  with an unknown role or a second owner.
\<close>

theorem restoreGroup_faithful:
  assumes "gm_ok m" "restoreGroup now gid name own rs m = (b, m')"
  shows "gm_ok m' \<and> (\<not> b \<longrightarrow> m' = m) \<and>
    (b \<longrightarrow> gm_isOwner gid own m' \<and> (\<forall>a. a \<noteq> own \<longrightarrow> a \<noteq> [] \<longrightarrow> gm_roleOf gid a m' = first_role rs a))"
proof (cases "gid = [] \<or> name = [] \<or> own = [] \<or>
    restore_members own rs False (Group_new now gid name own) = None")
  case True
  with assms have "\<not> b" "m' = m" by (auto simp: restoreGroup_def split: if_splits)
  then show ?thesis using assms(1) by simp
next
  case False
  then obtain h g0 where r: "restore_members own rs False (Group_new now gid name own) = Some (h, g0)"
    and ne: "gid \<noteq> []" "name \<noteq> []" "own \<noteq> []" by auto
  define g where "g = (if h then g0 else snd (addMember own Owner g0))"
  have b: "b" and mg: "map_of (groupsById m') gid = Some g"
    using assms(2) r ne by (auto simp: restoreGroup_def Let_def g_def split: option.splits)
  have gok: "group_ok g" unfolding g_def using restored_group_ok [OF ne(3) r] .
  have ow: "g_ownerAccountId g = own"
    using restore_members_restoring [OF _ r] restoring_add [OF restore_members_restoring [OF _ r] ne(3), of Owner]
    by (auto simp: g_def restoring_def Group_new_def roleOf_def)
  have "roleOf a g = first_role rs a" if "a \<noteq> own" "a \<noteq> []" for a
  proof -
    have "roleOf a g0 = first_role rs a"
      using restore_members_roles [OF r that] by (simp add: Group_new_def roleOf_def)
    then show ?thesis
      using that by (auto simp: g_def addMember_def hasMember_def roleOf_def split: option.splits)
  qed
  then show ?thesis
    using b gm_ok_restore [OF assms] gok ow mg
    by (auto simp: gm_roleOf_def gm_isOwner_def group_ok_def)
qed

theorem restoreGroup_faithful_witness:
  "gm_roleOf ''g'' ''bob''
     (snd (restoreGroup 0 ''g'' ''Team'' ''amy'' [\<lparr>mr_groupId = ''g'', mr_accountId = ''bob'', mr_role = 1, mr_joinedAtMs = 7\<rparr>] GroupManager_new)) = Some Admin"
proof -
  let ?rs = "[\<lparr>mr_groupId = ''g'', mr_accountId = ''bob'', mr_role = 1, mr_joinedAtMs = 7\<rparr>]"
  obtain b m' where r: "restoreGroup 0 ''g'' ''Team'' ''amy'' ?rs GroupManager_new = (b, m')" by fastforce
  then have "b" by (simp add: restoreGroup_def roleFromUint_def Let_def split: option.splits)
  with restoreGroup_faithful [OF gm_ok_new r] r show ?thesis by (simp add: roleFromUint_def)
qed

fun role_rank :: "GroupRole \<Rightarrow> nat" where
  "role_rank Member = 0"
| "role_rank Admin = 1"
| "role_rank Owner = 2"

text \<open>
  The permission test follows the ranks: an account may manage another member exactly if both are
  members and its own role ranks strictly higher. The one exception is the owner, for whom the test
  also admits the owner's own account.
\<close>

theorem canManageMember_ranks:
  assumes "gm_ok m"
  shows "canManageMember gid op target m \<longleftrightarrow>
    (\<exists>r t. gm_roleOf gid op m = Some r \<and> gm_roleOf gid target m = Some t \<and>
       (role_rank r > role_rank t \<or> (op = target \<and> r = Owner)))"
proof -
  have "gm_roleOf gid op m = Some Owner \<Longrightarrow> gm_roleOf gid target m = Some Owner \<Longrightarrow> op = target"
    using assms by (auto simp: gm_roleOf_def gm_ok_def group_ok_def split: option.splits)
  then show ?thesis
    by (cases "gm_roleOf gid op m"; cases "gm_roleOf gid target m"; cases "the (gm_roleOf gid op m)";
        cases "the (gm_roleOf gid target m)") (auto simp: canManageMember_def)
qed

theorem canManageMember_ranks_witness:
  "\<not> canManageMember ''g'' ''amy'' ''bob'' GroupManager_new"
  using canManageMember_ranks [OF gm_ok_new, of "''g''" "''amy''" "''bob''"]
  by (simp add: gm_roleOf_def GroupManager_new_def)

end
