(* ===== verification/SqlGroupRepo.thy ===== *)
theory SqlGroupRepo
  imports Storage GroupManager
begin

text \<open>
  Groups in the database: \<open>src/src/storage/sql/SqlGroupRepo.cpp\<close> over the tables \<open>chat_groups\<close>,
  \<open>group_members\<close>, \<open>group_conversation_heads\<close>, \<open>user_group_cursors\<close> and \<open>offline_messages\<close> of
  \<open>src/sql/schema.sql\<close>, and the in-memory stand-in \<open>src/src/storage/memory/MemoryGroupRepo.cpp\<close>.

  A table is an association list on its unique key, so an insert of an existing key is the server's
  error 1062; an update reports the rows it changed, as the connector does. Identifiers are compared
  exactly; accounts that differ only in the case of a letter, which the collation of the schema would
  identify, cannot both exist because of the unique key of the user table. Limits on the length of
  columns are among the failures of the environment. The tables of join requests and of group messages
  belong to the same database and are written in the theories that model their stores.
\<close>

subsection \<open>Tables\<close>

datatype GroupStatus = Active | Dissolved

definition getGroupStatusFromUint :: "nat \<Rightarrow> GroupStatus option" where
  "getGroupStatusFromUint v = (if v = 0 then Some Active else if v = 1 then Some Dissolved else None)"

record chat_group_row =
  cg_name :: string
  cg_owner :: accountId
  cg_status :: nat
  cg_dissolved_at_ms :: "int option"

record member_row =
  gmr_role :: "8 word"
  gmr_joined_at :: int

record cursor_row =
  cur_last_read_seq :: nat
  cur_last_read_msg_id :: nat
  cur_last_read_at_ms :: nat
  cur_joined_seq :: nat

record offline_row =
  off_msg_type :: nat
  off_group_id :: groupId

record head_row =
  hd_last_seq :: nat
  hd_last_msg_id :: nat
  hd_last_preview :: string
  hd_last_sender_account_id :: accountId
  hd_last_sender_username :: string
  hd_last_ts_ms :: nat

text \<open>\<open>jr_reviewer\<close> and the times of a request that is not reviewed are empty and 0.\<close>

record join_request_row =
  jr_id :: nat
  jr_status :: nat
  jr_request_message :: string
  jr_reviewer :: accountId
  jr_created_at_ms :: int
  jr_reviewed_at_ms :: int

record message_row =
  msg_group_id :: groupId
  msg_group_seq :: nat
  msg_sender_account_id :: accountId
  msg_sender_username :: string
  msg_content :: string
  msg_server_ts_ms :: nat

text \<open>\<open>group_messages\<close> is the table \<open>messages\<close>, keyed by the message identifier.\<close>

record group_tables =
  chat_groups :: "(groupId \<times> chat_group_row) list"
  group_members :: "((groupId \<times> accountId) \<times> member_row) list"
  group_heads :: "(groupId \<times> head_row) list"
  group_cursors :: "((accountId \<times> groupId) \<times> cursor_row) list"
  offline_messages :: "offline_row list"
  group_join_requests :: "((groupId \<times> accountId) \<times> join_request_row) list"
  next_request_id :: nat
  group_messages :: "(nat \<times> message_row) list"
  clock :: int

record GroupSnapshot =
  gs_groupId :: groupId
  gs_groupName :: string
  gs_ownerAccountId :: accountId
  gs_status :: GroupStatus
  gs_dissolvedAtMs :: int

record GroupDissolveRecord =
  dr_changed :: bool
  dr_alreadyDissolved :: bool
  dr_memberAccountIds :: "accountId list"

subsection \<open>Statements\<close>

text \<open>\<open>INSERT INTO chat_groups(group_id,group_name,owner)\<close>: the status defaults to 0.\<close>

definition insert_chat_group :: "groupId \<Rightarrow> string \<Rightarrow> accountId \<Rightarrow> group_tables \<Rightarrow> int + nat \<times> group_tables" where
  "insert_chat_group gid name own t =
     (if map_of (chat_groups t) gid \<noteq> None then Inl 1062
      else Inr (1, t\<lparr>chat_groups := emplace gid
             \<lparr>cg_name = name, cg_owner = own, cg_status = 0, cg_dissolved_at_ms = None\<rparr> (chat_groups t)\<rparr>))"

definition insert_member :: "groupId \<Rightarrow> accountId \<Rightarrow> 8 word \<Rightarrow> group_tables \<Rightarrow> int + nat \<times> group_tables" where
  "insert_member gid a role t =
     (if map_of (group_members t) (gid, a) \<noteq> None then Inl 1062
      else Inr (1, t\<lparr>group_members := emplace (gid, a) \<lparr>gmr_role = role, gmr_joined_at = clock t\<rparr> (group_members t)\<rparr>))"

definition is_active :: "groupId \<Rightarrow> group_tables \<Rightarrow> bool" where
  "is_active gid t = (case map_of (chat_groups t) gid of None \<Rightarrow> False | Some row \<Rightarrow> cg_status row = 0)"

text \<open>\<open>INSERT INTO group_members ... SELECT ... WHERE status=0\<close>: no row for a group that is not active.\<close>

definition insert_member_if_active :: "groupId \<Rightarrow> accountId \<Rightarrow> 8 word \<Rightarrow> group_tables \<Rightarrow> int + nat \<times> group_tables" where
  "insert_member_if_active gid a role t = (if is_active gid t then insert_member gid a role t else Inr (0, t))"

definition update_member_role :: "groupId \<Rightarrow> accountId \<Rightarrow> 8 word \<Rightarrow> group_tables \<Rightarrow> int + nat \<times> group_tables" where
  "update_member_role gid a role t =
     (case map_of (group_members t) (gid, a) of
        None \<Rightarrow> Inr (0, t)
      | Some row \<Rightarrow>
          if gmr_role row = role then Inr (0, t)
          else Inr (1, t\<lparr>group_members := AList.update (gid, a) (row\<lparr>gmr_role := role\<rparr>) (group_members t)\<rparr>))"

definition update_owner :: "groupId \<Rightarrow> accountId \<Rightarrow> accountId \<Rightarrow> group_tables \<Rightarrow> int + nat \<times> group_tables" where
  "update_owner gid old new t =
     (case map_of (chat_groups t) gid of
        None \<Rightarrow> Inr (0, t)
      | Some row \<Rightarrow>
          if cg_owner row \<noteq> old \<or> old = new then Inr (0, t)
          else Inr (1, t\<lparr>chat_groups := AList.update gid (row\<lparr>cg_owner := new\<rparr>) (chat_groups t)\<rparr>))"

definition delete_member :: "groupId \<Rightarrow> accountId \<Rightarrow> group_tables \<Rightarrow> int + nat \<times> group_tables" where
  "delete_member gid a t =
     (if map_of (group_members t) (gid, a) = None then Inr (0, t)
      else Inr (1, t\<lparr>group_members := AList.delete (gid, a) (group_members t)\<rparr>))"

definition delete_cursor :: "accountId \<Rightarrow> groupId \<Rightarrow> group_tables \<Rightarrow> int + nat \<times> group_tables" where
  "delete_cursor a gid t =
     (if map_of (group_cursors t) (a, gid) = None then Inr (0, t)
      else Inr (1, t\<lparr>group_cursors := AList.delete (a, gid) (group_cursors t)\<rparr>))"

definition head_new :: head_row where
  "head_new = \<lparr>hd_last_seq = 0, hd_last_msg_id = 0, hd_last_preview = [], hd_last_sender_account_id = [],
     hd_last_sender_username = [], hd_last_ts_ms = 0\<rparr>"

definition insert_head :: "groupId \<Rightarrow> group_tables \<Rightarrow> int + nat \<times> group_tables" where
  "insert_head gid t =
     (if map_of (group_heads t) gid \<noteq> None then Inl 1062
      else Inr (1, t\<lparr>group_heads := emplace gid head_new (group_heads t)\<rparr>))"

definition insert_cursor :: "accountId \<Rightarrow> groupId \<Rightarrow> group_tables \<Rightarrow> int + nat \<times> group_tables" where
  "insert_cursor a gid t =
     (if map_of (group_cursors t) (a, gid) \<noteq> None then Inl 1062
      else Inr (1, t\<lparr>group_cursors := emplace (a, gid)
             \<lparr>cur_last_read_seq = 0, cur_last_read_msg_id = 0, cur_last_read_at_ms = 0, cur_joined_seq = 0\<rparr>
             (group_cursors t)\<rparr>))"

definition mark_dissolved :: "groupId \<Rightarrow> accountId \<Rightarrow> int \<Rightarrow> group_tables \<Rightarrow> int + nat \<times> group_tables" where
  "mark_dissolved gid own at t =
     (case map_of (chat_groups t) gid of
        None \<Rightarrow> Inr (0, t)
      | Some row \<Rightarrow>
          if cg_owner row \<noteq> own \<or> cg_status row \<noteq> 0 then Inr (0, t)
          else Inr (1, t\<lparr>chat_groups := AList.update gid (row\<lparr>cg_status := 1, cg_dissolved_at_ms := Some at\<rparr>) (chat_groups t)\<rparr>))"

definition members_of :: "groupId \<Rightarrow> group_tables \<Rightarrow> (accountId \<times> member_row) list" where
  "members_of gid t = map (\<lambda>((g, a), row). (a, row)) (filter (\<lambda>((g, a), row). g = gid) (group_members t))"

definition delete_members :: "groupId \<Rightarrow> group_tables \<Rightarrow> int + nat \<times> group_tables" where
  "delete_members gid t =
     Inr (length (members_of gid t), t\<lparr>group_members := filter (\<lambda>((g, a), row). g \<noteq> gid) (group_members t)\<rparr>)"

definition delete_offline :: "groupId \<Rightarrow> group_tables \<Rightarrow> int + nat \<times> group_tables" where
  "delete_offline gid t =
     (let gone = (\<lambda>r. off_msg_type r = 1 \<and> off_group_id r = gid)
      in Inr (length (filter gone (offline_messages t)), t\<lparr>offline_messages := filter (\<lambda>r. \<not> gone r) (offline_messages t)\<rparr>))"

definition delete_cursors :: "groupId \<Rightarrow> group_tables \<Rightarrow> int + nat \<times> group_tables" where
  "delete_cursors gid t =
     Inr (length (filter (\<lambda>((a, g), c). g = gid) (group_cursors t)),
          t\<lparr>group_cursors := filter (\<lambda>((a, g), c). g \<noteq> gid) (group_cursors t)\<rparr>)"

definition delete_head :: "groupId \<Rightarrow> group_tables \<Rightarrow> int + nat \<times> group_tables" where
  "delete_head gid t =
     (if map_of (group_heads t) gid = None then Inr (0, t)
      else Inr (1, t\<lparr>group_heads := AList.delete gid (group_heads t)\<rparr>))"

definition select_group :: "groupId \<Rightarrow> group_tables \<Rightarrow> (groupId \<times> chat_group_row) list" where
  "select_group gid t = (case map_of (chat_groups t) gid of None \<Rightarrow> [] | Some row \<Rightarrow> [(gid, row)])"

definition select_member :: "groupId \<Rightarrow> accountId \<Rightarrow> group_tables \<Rightarrow> member_row list" where
  "select_member gid a t = (case map_of (group_members t) (gid, a) of None \<Rightarrow> [] | Some row \<Rightarrow> [row])"

subsection \<open>Operations\<close>

type_synonym 'a gdb = "(group_tables, 'a) db"

definition sql_createGroup :: "groupId \<Rightarrow> string \<Rightarrow> accountId \<Rightarrow> RepoStatus gdb" where
  "sql_createGroup gid name own =
     (if gid = [] \<or> name = [] \<or> own = [] then ret InvalidArgument
      else do {
        c \<leftarrow> acquire;
        if \<not> c then ret SqlError
        else do {
          r \<leftarrow> executePrepared (insert_chat_group gid name own);
          case r of
            Inr _ \<Rightarrow> ret Ok
          | Inl _ \<Rightarrow> if mapSqlErrorToRepoStatus r = AlreadyExists then ret AlreadyExists else ret SqlError}})"

definition sql_groupExists :: "groupId \<Rightarrow> bool gdb" where
  "sql_groupExists gid =
     (if gid = [] then ret False
      else do {
        c \<leftarrow> acquire;
        if \<not> c then ret False
        else do {
          r \<leftarrow> queryPrepared (\<lambda>t. filter (\<lambda>(g, row). cg_status row = 0) (select_group gid t));
          case r of Inl _ \<Rightarrow> ret False | Inr rows \<Rightarrow> ret (rows \<noteq> [])}})"

definition sql_isMember :: "groupId \<Rightarrow> accountId \<Rightarrow> bool gdb" where
  "sql_isMember gid a =
     (if gid = [] \<or> a = [] then ret False
      else do {
        c \<leftarrow> acquire;
        if \<not> c then ret False
        else do {
          r \<leftarrow> queryPrepared (select_member gid a);
          case r of Inl _ \<Rightarrow> ret False | Inr rows \<Rightarrow> if rows = [] then ret False else ret True}})"

definition sql_addMember :: "groupId \<Rightarrow> accountId \<Rightarrow> 8 word \<Rightarrow> RepoStatus gdb" where
  "sql_addMember gid a role =
     (if gid = [] then ret InvalidArgument
      else if a = [] then ret InvalidArgument
      else do {
        c \<leftarrow> acquire;
        if \<not> c then ret SqlError
        else do {
          r \<leftarrow> executePrepared (insert_member_if_active gid a role);
          case r of
            Inr _ \<Rightarrow> ret Ok
          | Inl _ \<Rightarrow> if mapSqlErrorToRepoStatus r = AlreadyExists then ret AlreadyExists else ret SqlError}})"

definition sql_getMemberRole :: "groupId \<Rightarrow> accountId \<Rightarrow> 8 word repo_value gdb" where
  "sql_getMemberRole gid a =
     (if gid = [] \<or> a = [] then ret (InvalidArgument, None)
      else do {
        c \<leftarrow> acquire;
        if \<not> c then ret (Internal, None)
        else do {
          r \<leftarrow> queryPrepared (select_member gid a);
          case r of
            Inl _ \<Rightarrow> ret (SqlError, None)
          | Inr [] \<Rightarrow> ret (NotFound, None)
          | Inr (row # _) \<Rightarrow> ret (Ok, Some (gmr_role row))}})"

definition sql_updateMemberRole :: "groupId \<Rightarrow> accountId \<Rightarrow> 8 word \<Rightarrow> RepoStatus gdb" where
  "sql_updateMemberRole gid a role =
     (if gid = [] then ret InvalidArgument
      else if a = [] then ret InvalidArgument
      else if role > 2 then ret InvalidGroupRole
      else do {
        c \<leftarrow> acquire;
        if \<not> c then ret SqlError
        else do {
          r \<leftarrow> executePrepared (update_member_role gid a role);
          case r of
            Inl _ \<Rightarrow> ret SqlError
          | Inr n \<Rightarrow>
              if n = 0 then do {m \<leftarrow> sql_isMember gid a; if m then ret Ok else ret NotFound}
              else ret Ok}})"

definition sql_transferOwner :: "groupId \<Rightarrow> accountId \<Rightarrow> accountId \<Rightarrow> RepoStatus gdb" where
  "sql_transferOwner gid old new =
     (if gid = [] \<or> old = [] \<or> new = [] then ret InvalidArgument
      else do {
        c \<leftarrow> acquire;
        if \<not> c then ret Internal
        else with_transaction Internal (do {
          r1 \<leftarrow> executePrepared (update_owner gid old new);
          case r1 of Inl _ \<Rightarrow> ret (Inl SqlError) | Inr n1 \<Rightarrow>
          if n1 = 0 then ret (Inl NotFound) else do {
          r2 \<leftarrow> executePrepared (update_member_role gid new 2);
          case r2 of Inl _ \<Rightarrow> ret (Inl SqlError) | Inr n2 \<Rightarrow>
          if n2 = 0 then ret (Inl NotFound) else do {
          r3 \<leftarrow> executePrepared (update_member_role gid old 0);
          case r3 of Inl _ \<Rightarrow> ret (Inl SqlError) | Inr n3 \<Rightarrow>
          if n3 = 0 then ret (Inl NotFound) else ret (Inr Ok)}}})})"

definition sql_removeMember :: "groupId \<Rightarrow> accountId \<Rightarrow> RepoStatus gdb" where
  "sql_removeMember gid a =
     (if gid = [] then ret InvalidArgument
      else if a = [] then ret InvalidArgument
      else do {
        e \<leftarrow> sql_groupExists gid;
        if \<not> e then ret NotFound
        else do {
          c \<leftarrow> acquire;
          if \<not> c then ret Internal
          else with_transaction SqlError (do {
            r \<leftarrow> executePrepared (delete_member gid a);
            case r of Inl _ \<Rightarrow> ret (Inl SqlError) | Inr n \<Rightarrow>
            if n = 0 then ret (Inl NotFound) else do {
            r2 \<leftarrow> executePrepared (delete_cursor a gid);
            case r2 of Inl _ \<Rightarrow> ret (Inl SqlError) | Inr _ \<Rightarrow> ret (Inr Ok)}})}})"

text \<open>\<open>ORDER BY role DESC, joined_at ASC\<close>\<close>

definition sql_listMemberRecords :: "groupId \<Rightarrow> group_member_record list gdb" where
  "sql_listMemberRecords gid =
     (if gid = [] then ret []
      else do {
        c \<leftarrow> acquire;
        if \<not> c then ret []
        else do {
          r \<leftarrow> queryPrepared (\<lambda>t. sort_key (\<lambda>(a, row). - int (unat (gmr_role row)))
                                 (sort_key (\<lambda>(a, row). gmr_joined_at row) (members_of gid t)));
          case r of
            Inl _ \<Rightarrow> ret []
          | Inr rows \<Rightarrow> ret (map (\<lambda>(a, row). \<lparr>mr_groupId = getString gid, mr_accountId = getString a, mr_role = gmr_role row,
                                              mr_joinedAtMs = gmr_joined_at row * 1000\<rparr>) rows)}})"

definition snapshot_of :: "groupId \<times> chat_group_row \<Rightarrow> GroupStatus \<Rightarrow> int \<Rightarrow> GroupSnapshot" where
  "snapshot_of r st at = (case r of (gid, row) \<Rightarrow>
     \<lparr>gs_groupId = getString gid, gs_groupName = getString (cg_name row), gs_ownerAccountId = getString (cg_owner row),
      gs_status = st, gs_dissolvedAtMs = at\<rparr>)"

definition sql_listGroups :: "GroupSnapshot list gdb" where
  "sql_listGroups = do {
     c \<leftarrow> acquire;
     if \<not> c then ret []
     else do {
       r \<leftarrow> queryPrepared (\<lambda>t. filter (\<lambda>(g, row). cg_status row = 0) (chat_groups t));
       case r of
         Inl _ \<Rightarrow> ret []
       | Inr rows \<Rightarrow> ret (map (\<lambda>(g, row). snapshot_of (g, row)
             (case getGroupStatusFromUint (cg_status row) of None \<Rightarrow> Active | Some st \<Rightarrow> st)
             (case cg_dissolved_at_ms row of None \<Rightarrow> 0 | Some at \<Rightarrow> at)) rows)}}"

definition sql_findGroupsByIds :: "groupId list \<Rightarrow> GroupSnapshot list gdb" where
  "sql_findGroupsByIds gids =
     (if gids = [] then ret []
      else do {
        c \<leftarrow> acquire;
        if \<not> c then ret []
        else do {
          r \<leftarrow> queryPrepared (\<lambda>t. filter (\<lambda>(g, row). g \<in> set gids \<and> cg_status row = 0) (chat_groups t));
          case r of
            Inl _ \<Rightarrow> ret []
          | Inr rows \<Rightarrow> ret (map (\<lambda>r. snapshot_of r Active 0) rows)}})"

definition sql_createGroupWithOwner :: "groupId \<Rightarrow> string \<Rightarrow> accountId \<Rightarrow> RepoStatus gdb" where
  "sql_createGroupWithOwner gid name own =
     (if gid = [] \<or> name = [] \<or> own = [] then ret InvalidArgument
      else do {
        c \<leftarrow> acquire;
        if \<not> c then ret SqlError
        else with_transaction SqlError (do {
          r1 \<leftarrow> executePrepared (insert_chat_group gid name own);
          case r1 of
            Inl _ \<Rightarrow> if mapSqlErrorToRepoStatus r1 = AlreadyExists then ret (Inl AlreadyExists) else ret (Inl SqlError)
          | Inr _ \<Rightarrow> do {
          r2 \<leftarrow> executePrepared (insert_member gid own 2);
          case r2 of Inl _ \<Rightarrow> ret (Inl SqlError) | Inr n2 \<Rightarrow>
          if n2 = 0 then ret (Inl NotFound) else do {
          r3 \<leftarrow> executePrepared (insert_head gid);
          case r3 of Inl _ \<Rightarrow> ret (Inl SqlError) | Inr n3 \<Rightarrow>
          if n3 = 0 then ret (Inl NotFound) else do {
          r4 \<leftarrow> executePrepared (insert_cursor own gid);
          case r4 of Inl _ \<Rightarrow> ret (Inl SqlError) | Inr n4 \<Rightarrow>
          if n4 = 0 then ret (Inl NotFound) else ret (Inr Ok)}}}})})"

definition sql_findGroupById :: "groupId \<Rightarrow> GroupSnapshot repo_value gdb" where
  "sql_findGroupById gid =
     (if gid = [] then ret (InvalidArgument, None)
      else do {
        c \<leftarrow> acquire;
        if \<not> c then ret (SqlError, None)
        else do {
          r \<leftarrow> queryPrepared (select_group gid);
          case r of
            Inl _ \<Rightarrow> ret (SqlError, None)
          | Inr [] \<Rightarrow> ret (NotFound, None)
          | Inr ((g, row) # _) \<Rightarrow>
              (case getGroupStatusFromUint (cg_status row) of
                 None \<Rightarrow> ret (Internal, None)
               | Some st \<Rightarrow> ret (Ok, Some (snapshot_of (g, row) st
                     (case cg_dissolved_at_ms row of None \<Rightarrow> 0 | Some at \<Rightarrow> at))))}})"

definition sql_countMembers :: "groupId \<Rightarrow> nat repo_value gdb" where
  "sql_countMembers gid =
     (if gid = [] then ret (InvalidArgument, None)
      else do {
        c \<leftarrow> acquire;
        if \<not> c then ret (SqlError, None)
        else do {
          r \<leftarrow> queryPrepared (\<lambda>t. [length (members_of gid t)]);
          case r of
            Inl _ \<Rightarrow> ret (SqlError, None)
          | Inr [] \<Rightarrow> ret (NotFound, None)
          | Inr (n # _) \<Rightarrow> ret (Ok, Some n)}})"

definition sql_dissolveGroup :: "groupId \<Rightarrow> accountId \<Rightarrow> int \<Rightarrow> GroupDissolveRecord repo_value gdb" where
  "sql_dissolveGroup gid own at =
     (if gid = [] \<or> own = [] then ret (InvalidArgument, None)
      else do {
        c \<leftarrow> acquire;
        if \<not> c then ret (SqlError, None)
        else with_transaction (Internal, None) (do {
          r0 \<leftarrow> queryPrepared (select_group gid);
          case r0 of Inl _ \<Rightarrow> ret (Inl (SqlError, None)) | Inr [] \<Rightarrow> ret (Inl (NotFound, None)) | Inr ((_, row) # _) \<Rightarrow>
          if getString (cg_owner row) \<noteq> own then ret (Inl (NoPermission, None)) else
          (case getGroupStatusFromUint (cg_status row) of
             None \<Rightarrow> ret (Inl (Internal, None))
           | Some Dissolved \<Rightarrow>
               ret (Inl (Ok, Some \<lparr>dr_changed = False, dr_alreadyDissolved = True, dr_memberAccountIds = []\<rparr>))
           | Some Active \<Rightarrow> do {
          r1 \<leftarrow> queryPrepared (members_of gid);
          case r1 of Inl _ \<Rightarrow> ret (Inl (SqlError, None)) | Inr rows \<Rightarrow>
          if rows = [] then ret (Inl (NotFound, None)) else do {
          r2 \<leftarrow> executePrepared (mark_dissolved gid own at);
          case r2 of Inl _ \<Rightarrow> ret (Inl (SqlError, None)) | Inr n2 \<Rightarrow>
          if n2 = 0 then ret (Inl (NotFound, None)) else do {
          r3 \<leftarrow> executePrepared (delete_members gid);
          case r3 of Inl _ \<Rightarrow> ret (Inl (SqlError, None)) | Inr n3 \<Rightarrow>
          if n3 = 0 then ret (Inl (NotFound, None)) else do {
          r4 \<leftarrow> executePrepared (delete_offline gid);
          case r4 of Inl _ \<Rightarrow> ret (Inl (SqlError, None)) | Inr _ \<Rightarrow> do {
          r5 \<leftarrow> executePrepared (delete_cursors gid);
          case r5 of Inl _ \<Rightarrow> ret (Inl (SqlError, None)) | Inr _ \<Rightarrow> do {
          r6 \<leftarrow> executePrepared (delete_head gid);
          case r6 of Inl _ \<Rightarrow> ret (Inl (SqlError, None)) | Inr _ \<Rightarrow>
          ret (Inr (Ok, Some \<lparr>dr_changed = True, dr_alreadyDissolved = False,
                dr_memberAccountIds = filter (\<lambda>a. a \<noteq> []) (map (getString \<circ> fst) rows)\<rparr>))}}}}}})})})"

subsection \<open>The stored relation\<close>

text \<open>
  What the tables say: the active groups with their name, their owner and the role of every member.
\<close>

record group_view =
  gv_name :: string
  gv_owner :: accountId
  gv_roles :: "accountId \<Rightarrow> 8 word option"

definition role_in :: "group_tables \<Rightarrow> groupId \<Rightarrow> accountId \<Rightarrow> 8 word option" where
  "role_in t gid a = map_option gmr_role (map_of (group_members t) (gid, a))"

definition view :: "group_tables \<Rightarrow> groupId \<Rightarrow> group_view option" where
  "view t gid =
     (case map_of (chat_groups t) gid of
        None \<Rightarrow> None
      | Some row \<Rightarrow>
          if cg_status row = 0
          then Some \<lparr>gv_name = cg_name row, gv_owner = cg_owner row, gv_roles = role_in t gid\<rparr>
          else None)"

definition keys_ok :: "group_tables \<Rightarrow> bool" where
  "keys_ok t \<longleftrightarrow> distinct (map fst (group_members t)) \<and> distinct (map fst (chat_groups t))"

text \<open>
  The invariant: keys are unique, members belong to active groups and have a known role, and the member with the owner
  role is the owner the group records.
\<close>

definition store_ok :: "group_tables \<Rightarrow> bool" where
  "store_ok t \<longleftrightarrow>
     keys_ok t \<and>
     (\<forall>gid row. map_of (chat_groups t) gid = Some row \<longrightarrow>
        cg_status row \<le> 1 \<and> gid \<noteq> [] \<and> cg_name row \<noteq> [] \<and> cg_owner row \<noteq> [] \<and>
        (cg_status row = 0 \<longrightarrow> (\<forall>a. role_in t gid a = Some 2 \<longleftrightarrow> a = cg_owner row))) \<and>
     (\<forall>gid a r. role_in t gid a = Some r \<longrightarrow> a \<noteq> [] \<and> r \<le> 2 \<and> is_active gid t)"

definition Tables_new :: group_tables where
  "Tables_new = \<lparr>chat_groups = [], group_members = [], group_heads = [], group_cursors = [], offline_messages = [],
     group_join_requests = [], next_request_id = 1, group_messages = [], clock = 0\<rparr>"

lemma store_ok_new: "store_ok Tables_new"
  by (simp add: store_ok_def keys_ok_def Tables_new_def role_in_def)

lemma view_eqI:
  "map_of (chat_groups t') = map_of (chat_groups t) \<Longrightarrow> role_in t' = role_in t \<Longrightarrow> view t' = view t"
  by (auto simp: view_def fun_eq_iff split: option.splits)

lemma is_active_view: "is_active gid t \<longleftrightarrow> view t gid \<noteq> None"
  by (auto simp: is_active_def view_def split: option.splits)

lemma distinct_emplace: "distinct (map fst al) \<Longrightarrow> distinct (map fst (emplace k v al))"
  by (auto simp: emplace_def distinct_update split: option.splits)

text \<open>Reading statements: what a successful answer says about the tables.\<close>

lemma sql_groupExists_spec:
  "may t (sql_groupExists gid) b t' \<Longrightarrow> t' = t \<and> (b \<longrightarrow> view t gid \<noteq> None)"
  by (auto simp: sql_groupExists_def select_group_def view_def split: if_splits option.splits)

lemma sql_isMember_spec:
  "may t (sql_isMember gid a) b t' \<Longrightarrow> t' = t \<and> (b \<longrightarrow> role_in t gid a \<noteq> None)"
  by (auto simp: sql_isMember_def select_member_def role_in_def split: if_splits option.splits)

lemma sql_getMemberRole_spec:
  "may t (sql_getMemberRole gid a) (st, r) t' \<Longrightarrow> t' = t \<and> (st = Ok \<longrightarrow> r \<noteq> None \<and> role_in t gid a = r)"
  by (auto simp: sql_getMemberRole_def select_member_def role_in_def split: if_splits option.splits)

lemma sql_findGroupById_spec:
  "may t (sql_findGroupById gid) (st, r) t' \<Longrightarrow>
     t' = t \<and> (st = Ok \<longrightarrow> (\<exists>row. map_of (chat_groups t) gid = Some row \<and>
       (\<exists>g. r = Some g \<and> gs_groupName g = getString (cg_name row) \<and> gs_ownerAccountId g = getString (cg_owner row) \<and>
         (gs_status g = Active \<longleftrightarrow> cg_status row = 0))))"
  by (auto simp: sql_findGroupById_def select_group_def snapshot_of_def getGroupStatusFromUint_def
      split: if_splits option.splits)

lemma sql_countMembers_spec:
  "may t (sql_countMembers gid) (st, r) t' \<Longrightarrow> t' = t \<and> (st = Ok \<longrightarrow> r = Some (length (members_of gid t)))"
  by (auto simp: sql_countMembers_def split: if_splits)

text \<open>
  Writing operations: a failed one leaves the tables as they were; a successful one changes exactly the
  roles and the group row it names.
\<close>

definition set_role :: "groupId \<Rightarrow> accountId \<Rightarrow> 8 word option \<Rightarrow> group_tables \<Rightarrow> groupId \<Rightarrow> accountId \<Rightarrow> 8 word option" where
  "set_role gid a r t = (role_in t)(gid := (role_in t gid)(a := r))"

lemma insert_member_effect:
  assumes "insert_member gid a r t = Inr (n, t')"
  shows "n = 1 \<and> role_in t gid a = None \<and> chat_groups t' = chat_groups t \<and> role_in t' = set_role gid a (Some r) t \<and>
    (keys_ok t \<longrightarrow> keys_ok t')"
  using assms
  by (auto simp: insert_member_def role_in_def set_role_def fun_eq_iff keys_ok_def distinct_emplace split: if_splits)

lemma update_member_role_effect:
  assumes "update_member_role gid a r t = Inr (n, t')"
  shows "chat_groups t' = chat_groups t \<and> (keys_ok t \<longrightarrow> keys_ok t') \<and>
    (if role_in t gid a = None \<or> role_in t gid a = Some r then n = 0 \<and> t' = t
     else n = 1 \<and> role_in t' = set_role gid a (Some r) t)"
  using assms
  by (auto simp: update_member_role_def role_in_def set_role_def fun_eq_iff keys_ok_def distinct_update
      split: if_splits option.splits)

lemma delete_member_effect:
  assumes "delete_member gid a t = Inr (n, t')"
  shows "chat_groups t' = chat_groups t \<and> (keys_ok t \<longrightarrow> keys_ok t') \<and>
    (if role_in t gid a = None then n = 0 \<and> t' = t else n = 1 \<and> role_in t' = set_role gid a None t)"
  using assms
  by (auto simp: delete_member_def role_in_def set_role_def fun_eq_iff keys_ok_def distinct_delete split: if_splits)

lemma insert_chat_group_effect:
  assumes "insert_chat_group gid name own t = Inr (n, t')"
  shows "map_of (chat_groups t) gid = None \<and> role_in t' = role_in t \<and> (keys_ok t \<longrightarrow> keys_ok t') \<and>
    map_of (chat_groups t') = (map_of (chat_groups t))(gid \<mapsto>
      \<lparr>cg_name = name, cg_owner = own, cg_status = 0, cg_dissolved_at_ms = None\<rparr>)"
  using assms by (auto simp: insert_chat_group_def role_in_def fun_eq_iff keys_ok_def distinct_emplace split: if_splits)

lemma update_owner_effect:
  assumes "update_owner gid old new t = Inr (n, t')" "n \<noteq> 0"
  shows "old \<noteq> new \<and> role_in t' = role_in t \<and> (keys_ok t \<longrightarrow> keys_ok t') \<and>
    (\<exists>row. map_of (chat_groups t) gid = Some row \<and> cg_owner row = old \<and>
       map_of (chat_groups t') = (map_of (chat_groups t))(gid \<mapsto> row\<lparr>cg_owner := new\<rparr>))"
  using assms
  by (auto simp: update_owner_def role_in_def fun_eq_iff keys_ok_def distinct_update split: if_splits option.splits)

lemma mark_dissolved_effect:
  assumes "mark_dissolved gid own at t = Inr (n, t')" "n \<noteq> 0"
  shows "role_in t' = role_in t \<and> (keys_ok t \<longrightarrow> keys_ok t') \<and>
    (\<exists>row. map_of (chat_groups t) gid = Some row \<and> cg_owner row = own \<and> cg_status row = 0 \<and>
       map_of (chat_groups t') = (map_of (chat_groups t))(gid \<mapsto> row\<lparr>cg_status := 1, cg_dissolved_at_ms := Some at\<rparr>))"
  using assms
  by (auto simp: mark_dissolved_def role_in_def fun_eq_iff keys_ok_def distinct_update split: if_splits option.splits)

lemma map_of_filter_key: "map_of (filter (\<lambda>((g, a), row). g \<noteq> gid) al) (g, a) = (if g = gid then None else map_of al (g, a))"
  by (induction al) auto

lemma delete_members_effect:
  assumes "delete_members gid t = Inr (n, t')"
  shows "chat_groups t' = chat_groups t \<and> role_in t' = (role_in t)(gid := Map.empty) \<and> (keys_ok t \<longrightarrow> keys_ok t')"
  using assms
  by (auto simp: delete_members_def role_in_def fun_eq_iff map_of_filter_key keys_ok_def distinct_map_filter)

text \<open>The other tables do not show in the view.\<close>

definition same_relation :: "group_tables \<Rightarrow> group_tables \<Rightarrow> bool" where
  "same_relation t t' \<longleftrightarrow> chat_groups t' = chat_groups t \<and> group_members t' = group_members t"

lemma side_effects:
  "delete_cursor a gid t = Inr (n, t') \<Longrightarrow> same_relation t t'"
  "insert_head gid t = Inr (n, t') \<Longrightarrow> same_relation t t'"
  "insert_cursor a gid t = Inr (n, t') \<Longrightarrow> same_relation t t'"
  "delete_offline gid t = Inr (n, t') \<Longrightarrow> same_relation t t'"
  "delete_cursors gid t = Inr (n, t') \<Longrightarrow> same_relation t t'"
  "delete_head gid t = Inr (n, t') \<Longrightarrow> same_relation t t'"
  by (auto simp: same_relation_def delete_cursor_def insert_head_def insert_cursor_def delete_offline_def
      delete_cursors_def delete_head_def Let_def split: if_splits)

lemma same_relationD:
  "same_relation t t' \<Longrightarrow> chat_groups t' = chat_groups t \<and> role_in t' = role_in t \<and> (keys_ok t \<longrightarrow> keys_ok t')"
  by (auto simp: same_relation_def role_in_def keys_ok_def fun_eq_iff)

lemmas stmt_effects = insert_member_effect update_member_role_effect delete_member_effect insert_chat_group_effect
  update_owner_effect mark_dissolved_effect delete_members_effect side_effects [THEN same_relationD]

lemma sql_addMember_spec:
  assumes "may t (sql_addMember gid a r) st t'"
  shows "(st \<noteq> Ok \<longrightarrow> t' = t) \<and> (st = Ok \<longrightarrow> a \<noteq> [] \<and> chat_groups t' = chat_groups t \<and> (keys_ok t \<longrightarrow> keys_ok t') \<and>
    (if is_active gid t then role_in t gid a = None \<and> role_in t' = set_role gid a (Some r) t else t' = t))"
  using assms
  by (auto simp: sql_addMember_def insert_member_if_active_def split: if_splits dest!: stmt_effects)

lemma set_role_same [simp]: "role_in t gid a = r \<Longrightarrow> set_role gid a r t = role_in t"
  by (auto simp: set_role_def fun_upd_idem)

lemma sql_updateMemberRole_spec:
  assumes "may t (sql_updateMemberRole gid a r) st t'"
  shows "(st \<noteq> Ok \<longrightarrow> t' = t) \<and> (st = Ok \<longrightarrow> chat_groups t' = chat_groups t \<and> (keys_ok t \<longrightarrow> keys_ok t') \<and>
    role_in t' = set_role gid a (Some r) t \<and> role_in t gid a \<noteq> None \<and> r \<le> 2)"
  using assms
  by (auto simp: sql_updateMemberRole_def split: if_splits dest!: stmt_effects sql_isMember_spec)

lemma sql_removeMember_spec:
  assumes "may t (sql_removeMember gid a) st t'"
  shows "(st \<noteq> Ok \<longrightarrow> t' = t) \<and> (st = Ok \<longrightarrow> chat_groups t' = chat_groups t \<and> (keys_ok t \<longrightarrow> keys_ok t') \<and>
    is_active gid t \<and> role_in t gid a \<noteq> None \<and> role_in t' = set_role gid a None t)"
  using assms
  by (auto simp: sql_removeMember_def is_active_view split: if_splits dest!: stmt_effects sql_groupExists_spec)

lemma sql_transferOwner_spec:
  assumes "may t (sql_transferOwner gid old new) st t'"
  shows "(st \<noteq> Ok \<longrightarrow> t' = t) \<and> (st = Ok \<longrightarrow> (keys_ok t \<longrightarrow> keys_ok t') \<and> old \<noteq> new \<and> new \<noteq> [] \<and>
    role_in t gid old \<noteq> None \<and> role_in t gid new \<noteq> None \<and>
    role_in t' = (role_in t)(gid := (role_in t gid)(new := Some 2, old := Some 0)) \<and>
    (\<exists>row. map_of (chat_groups t) gid = Some row \<and> cg_owner row = old \<and>
       map_of (chat_groups t') = (map_of (chat_groups t))(gid \<mapsto> row\<lparr>cg_owner := new\<rparr>)))"
  using assms
  by (auto simp: sql_transferOwner_def set_role_def split: if_splits dest!: stmt_effects)

lemma sql_createGroupWithOwner_spec:
  assumes "may t (sql_createGroupWithOwner gid name own) st t'"
  shows "(st \<noteq> Ok \<longrightarrow> t' = t) \<and> (st = Ok \<longrightarrow> (keys_ok t \<longrightarrow> keys_ok t') \<and> gid \<noteq> [] \<and> name \<noteq> [] \<and> own \<noteq> [] \<and>
    map_of (chat_groups t) gid = None \<and> role_in t' = set_role gid own (Some 2) t \<and>
    map_of (chat_groups t') = (map_of (chat_groups t))(gid \<mapsto>
      \<lparr>cg_name = name, cg_owner = own, cg_status = 0, cg_dissolved_at_ms = None\<rparr>))"
  using assms
  by (auto simp: sql_createGroupWithOwner_def set_role_def split: if_splits dest!: stmt_effects)

lemma sql_dissolveGroup_spec:
  assumes "may t (sql_dissolveGroup gid own at) (st, r) t'"
  shows "(st \<noteq> Ok \<longrightarrow> t' = t) \<and> (st = Ok \<longrightarrow> (\<exists>d row. r = Some d \<and> map_of (chat_groups t) gid = Some row \<and>
    (if dr_alreadyDissolved d then t' = t \<and> cg_status row = 1 \<and> getString (cg_owner row) = own
     else cg_status row = 0 \<and> cg_owner row = own \<and> (keys_ok t \<longrightarrow> keys_ok t') \<and>
       dr_memberAccountIds d = filter (\<lambda>a. a \<noteq> []) (map (getString \<circ> fst) (members_of gid t)) \<and>
       role_in t' = (role_in t)(gid := Map.empty) \<and>
       map_of (chat_groups t') = (map_of (chat_groups t))(gid \<mapsto> row\<lparr>cg_status := 1, cg_dissolved_at_ms := Some at\<rparr>))))"
  using assms
  by (auto simp: sql_dissolveGroup_def select_group_def getGroupStatusFromUint_def
      split: if_splits option.splits GroupStatus.splits dest!: stmt_effects)

subsection \<open>The invariant is kept\<close>

lemma store_okD:
  assumes "store_ok t"
  shows "keys_ok t"
    and "map_of (chat_groups t) gid = Some row \<Longrightarrow> cg_status row \<le> 1 \<and> gid \<noteq> [] \<and> cg_name row \<noteq> [] \<and> cg_owner row \<noteq> []"
    and "map_of (chat_groups t) gid = Some row \<Longrightarrow> cg_status row = 0 \<Longrightarrow> role_in t gid a = Some 2 \<longleftrightarrow> a = cg_owner row"
    and "role_in t gid a = Some r \<Longrightarrow> a \<noteq> [] \<and> r \<le> 2 \<and> is_active gid t"
  using assms unfolding store_ok_def by blast+

lemma store_ok_set_role:
  assumes "store_ok t" "chat_groups t' = chat_groups t" "keys_ok t'" "role_in t' = set_role gid a ro t"
    and "role_in t gid a \<noteq> Some 2" "\<And>r. ro = Some r \<Longrightarrow> r < 2 \<and> a \<noteq> [] \<and> is_active gid t"
  shows "store_ok t'"
  unfolding store_ok_def
proof (intro conjI allI impI)
  show "keys_ok t'" by fact
next
  fix g row assume row: "map_of (chat_groups t') g = Some row"
  with assms(2) have row': "map_of (chat_groups t) g = Some row" by simp
  note ok = store_okD(2) [OF assms(1) row']
  show "cg_status row \<le> 1" "g \<noteq> []" "cg_name row \<noteq> []" "cg_owner row \<noteq> []" using ok by auto
  fix x assume "cg_status row = 0"
  then have "role_in t g x = Some 2 \<longleftrightarrow> x = cg_owner row" by (rule store_okD(3) [OF assms(1) row'])
  moreover have "ro \<noteq> Some 2" using assms(6) [of 2] by auto
  ultimately show "role_in t' g x = Some 2 \<longleftrightarrow> x = cg_owner row"
    using assms(4,5) by (auto simp: set_role_def split: if_splits)
next
  have act: "is_active g t' = is_active g t" for g using assms(2) by (simp add: is_active_def)
  fix g x r assume "role_in t' g x = Some r"
  then have "(g = gid \<and> x = a \<and> ro = Some r) \<or> role_in t g x = Some r"
    using assms(4) by (auto simp: set_role_def split: if_splits)
  then show "x \<noteq> []" "r \<le> 2" "is_active g t'"
    using assms(6) [of r] store_okD(4) [OF assms(1), of g x r] unfolding act by auto
qed

lemma store_ok_transfer:
  assumes "store_ok t" "keys_ok t'" "old \<noteq> new" "new \<noteq> []" "role_in t gid old \<noteq> None" "role_in t gid new \<noteq> None"
    and r: "role_in t' = (role_in t)(gid := (role_in t gid)(new := Some 2, old := Some 0))"
    and row: "map_of (chat_groups t) gid = Some row" "cg_owner row = old"
    and c: "map_of (chat_groups t') = (map_of (chat_groups t))(gid \<mapsto> row\<lparr>cg_owner := new\<rparr>)"
  shows "store_ok t'"
proof -
  have act: "is_active g t' = is_active g t" for g using c row by (simp add: is_active_def)
  obtain r0 r1 where r01: "role_in t gid old = Some r0" "role_in t gid new = Some r1" using assms(5,6) by auto
  have ne: "role_in t gid x \<noteq> Some 2" if "x \<noteq> old" for x
    using store_okD(3) [OF assms(1) row(1), of x] store_okD(4) [OF assms(1) r01(1)] that row
    by (auto simp: is_active_def)
  show ?thesis
    unfolding store_ok_def act
    using assms(1-4) ne r01 store_okD(4) [OF assms(1)] store_okD(2) [OF assms(1) row(1)]
    by (auto simp: store_ok_def r c split: if_splits)
qed

lemma store_ok_create:
  assumes "store_ok t" "keys_ok t'" "gid \<noteq> []" "name \<noteq> []" "own \<noteq> []" "map_of (chat_groups t) gid = None"
    and r: "role_in t' = set_role gid own (Some 2) t"
    and c: "map_of (chat_groups t') = (map_of (chat_groups t))(gid \<mapsto>
      \<lparr>cg_name = name, cg_owner = own, cg_status = 0, cg_dissolved_at_ms = None\<rparr>)"
  shows "store_ok t' \<and> role_in t gid = Map.empty"
proof -
  have e: "role_in t gid a = None" for a
  proof (rule ccontr)
    assume "role_in t gid a \<noteq> None"
    then obtain x where "role_in t gid a = Some x" by auto
    from store_okD(4) [OF assms(1) this] show False using assms(6) by (simp add: is_active_def)
  qed
  have act: "is_active g t' \<longleftrightarrow> g = gid \<or> is_active g t" for g using c by (simp add: is_active_def)
  show ?thesis
    unfolding store_ok_def act using assms(1-5) e
    by (auto simp: store_ok_def r c set_role_def split: if_splits)
qed

lemma store_ok_dissolve:
  assumes "store_ok t" "keys_ok t'" "map_of (chat_groups t) gid = Some row"
    and r: "role_in t' = (role_in t)(gid := Map.empty)"
    and c: "map_of (chat_groups t') = (map_of (chat_groups t))(gid \<mapsto> row\<lparr>cg_status := 1, cg_dissolved_at_ms := Some at\<rparr>)"
  shows "store_ok t'"
proof -
  have act: "g \<noteq> gid \<Longrightarrow> is_active g t' = is_active g t" for g using c by (simp add: is_active_def)
  show ?thesis
    unfolding store_ok_def using assms(1-3) act store_okD(2) [OF assms(1,3)]
    by (auto simp: store_ok_def r c split: if_splits)
qed

lemma length_members_of:
  assumes "keys_ok t"
  shows "length (members_of gid t) = card {a. role_in t gid a \<noteq> None}"
proof -
  have "((g, a), r1) \<in> set (group_members t) \<Longrightarrow> ((g, a), r2) \<in> set (group_members t) \<Longrightarrow> r1 = r2" for g a r1 r2
    using assms by (auto simp: keys_ok_def dest: eq_key_imp_eq_value)
  then have d: "distinct (map fst (members_of gid t))"
    using assms by (auto simp: keys_ok_def members_of_def distinct_map inj_on_def)
  have "fst ` set (members_of gid t) = {a. role_in t gid a \<noteq> None}"
    by (auto simp: members_of_def role_in_def image_iff dest: weak_map_of_SomeI) (metis map_of_SomeD)
  with d show ?thesis by (metis distinct_card length_map list.set_map)
qed

subsection \<open>Properties\<close>

lemma create_side_tables:
  "may t (sql_createGroupWithOwner gid name own) Ok t' \<Longrightarrow>
   map_of (group_heads t') gid = Some head_new \<and> map_of (group_cursors t') (own, gid) \<noteq> None"
  by (auto simp: sql_createGroupWithOwner_def insert_head_def insert_cursor_def split: if_splits)

text \<open>
  Creating a group is all or nothing: whatever fails on the way, either success is reported and the
  group row, the owner's membership with the owner role, the conversation head and the owner's read
  cursor are all there, or the tables are untouched. Without failures, and with an unused identifier,
  it succeeds.
\<close>

theorem create_group_all_or_nothing:
  assumes "run_state (sql_createGroupWithOwner gid name own) s = (st, s')"
  shows "(st \<noteq> Ok \<longrightarrow> tables s' = tables s) \<and>
    (st = Ok \<longrightarrow> is_active gid (tables s') \<and> role_in (tables s') gid own = Some 2 \<and>
       map_of (group_heads (tables s')) gid = Some head_new \<and> map_of (group_cursors (tables s')) (own, gid) \<noteq> None) \<and>
    (outcomes s = [] \<and> gid \<noteq> [] \<and> name \<noteq> [] \<and> own \<noteq> [] \<and> map_of (chat_groups (tables s)) gid = None \<and>
       map_of (group_members (tables s)) (gid, own) = None \<and> map_of (group_heads (tables s)) gid = None \<and>
       map_of (group_cursors (tables s)) (own, gid) = None \<longrightarrow> st = Ok)"
proof (intro conjI impI)
  note m = mayI [OF assms]
  show "tables s' = tables s" if "st \<noteq> Ok" using sql_createGroupWithOwner_spec [OF m] that by simp
  assume "st = Ok"
  with sql_createGroupWithOwner_spec [OF m] show "is_active gid (tables s')" "role_in (tables s') gid own = Some 2"
    by (auto simp: is_active_def set_role_def)
  from create_side_tables [OF m [unfolded \<open>st = Ok\<close>]]
  show "map_of (group_heads (tables s')) gid = Some head_new" "map_of (group_cursors (tables s')) (own, gid) \<noteq> None" by auto
next
  assume "outcomes s = [] \<and> gid \<noteq> [] \<and> name \<noteq> [] \<and> own \<noteq> [] \<and> map_of (chat_groups (tables s)) gid = None \<and>
       map_of (group_members (tables s)) (gid, own) = None \<and> map_of (group_heads (tables s)) gid = None \<and>
       map_of (group_cursors (tables s)) (own, gid) = None"
  with assms show "st = Ok"
    by (simp add: sql_createGroupWithOwner_def with_transaction_def acquire_def outcome_def executePrepared_def
        insert_chat_group_def insert_member_def insert_head_def insert_cursor_def Let_def)
qed

theorem create_group_all_or_nothing_witness:
  "tables (snd (run_state (sql_createGroupWithOwner ''7'' ''Team'' ''amy'')
     \<lparr>tables = Tables_new, outcomes = [None, None, None, None, Some 1205]\<rparr>)) = Tables_new"
proof -
  let ?s = "\<lparr>tables = Tables_new, outcomes = [None, None, None, None, Some 1205]\<rparr>"
  obtain st s' where r: "run_state (sql_createGroupWithOwner ''7'' ''Team'' ''amy'') ?s = (st, s')" by fastforce
  have "fst (run_state (sql_createGroupWithOwner ''7'' ''Team'' ''amy'') ?s) \<noteq> Ok" by code_simp
  with r have "st \<noteq> Ok" by simp
  with create_group_all_or_nothing [OF r] r show ?thesis by simp
qed

text \<open>
  Dissolving a group: reported success either means that the group was dissolved before, or that it
  was active, the caller its owner, and now it is dissolved with no membership, cursor or head left;
  anything else leaves the tables untouched.
\<close>

theorem dissolve_group_all_or_nothing:
  assumes "run_state (sql_dissolveGroup gid own at) s = ((st, r), s')"
  shows "let t = tables s; t' = tables s' in
    (st \<noteq> Ok \<longrightarrow> t' = t) \<and>
    (st = Ok \<longrightarrow> (\<exists>d row. r = Some d \<and> map_of (chat_groups t) gid = Some row \<and>
      (if dr_alreadyDissolved d then t' = t \<and> cg_status row = 1
       else cg_status row = 0 \<and> cg_owner row = own \<and> \<not> is_active gid t' \<and> role_in t' = (role_in t)(gid := Map.empty) \<and>
         map_of (group_heads t') gid = None \<and> (\<forall>a. map_of (group_cursors t') (a, gid) = None))))"
proof -
  define t t' where "t = tables s" and "t' = tables s'"
  have m: "may t (sql_dissolveGroup gid own at) (st, r) t'" unfolding t_def t'_def using assms by (rule mayI)
  have cur: "map_of (filter (\<lambda>((a, g), c). g \<noteq> gid) al) (a, gid) = None" for a and al :: "((accountId \<times> groupId) \<times> cursor_row) list"
    by (induction al) auto
  have side: "map_of (group_heads t') gid = None \<and> (\<forall>a. map_of (group_cursors t') (a, gid) = None)"
    if "st = Ok" "r = Some d" "\<not> dr_alreadyDissolved d" for d
    using m that
    by (auto simp: sql_dissolveGroup_def select_group_def getGroupStatusFromUint_def delete_head_def delete_cursors_def cur
        split: if_splits option.splits GroupStatus.splits)
  have inactive: "\<not> is_active gid t'"
    if "map_of (chat_groups t') = (map_of (chat_groups t))(gid \<mapsto> row\<lparr>cg_status := 1, cg_dissolved_at_ms := Some at\<rparr>)" for row
    using that by (simp add: is_active_def)
  show ?thesis
  proof (cases "st = Ok")
    case False
    with sql_dissolveGroup_spec [OF m] show ?thesis unfolding t_def [symmetric] t'_def [symmetric] by (simp add: Let_def)
  next
    case True
    with sql_dissolveGroup_spec [OF m] obtain d row where d: "r = Some d" "map_of (chat_groups t) gid = Some row"
      "if dr_alreadyDissolved d then t' = t \<and> cg_status row = 1
       else cg_status row = 0 \<and> cg_owner row = own \<and> role_in t' = (role_in t)(gid := Map.empty) \<and>
         map_of (chat_groups t') = (map_of (chat_groups t))(gid \<mapsto> row\<lparr>cg_status := 1, cg_dissolved_at_ms := Some at\<rparr>)"
      by (auto split: if_splits)
    then show ?thesis
      using True side [OF True d(1)] inactive unfolding t_def [symmetric] t'_def [symmetric]
      by (cases "dr_alreadyDissolved d") (simp_all add: Let_def)
  qed
qed

theorem dissolve_group_all_or_nothing_witness:
  "let s = snd (run_state (sql_createGroupWithOwner ''7'' ''Team'' ''amy'') \<lparr>tables = Tables_new, outcomes = []\<rparr>);
       s' = snd (run_state (sql_dissolveGroup ''7'' ''amy'' 5) s)
   in role_in (tables s) ''7'' ''amy'' = Some 2 \<and> role_in (tables s') ''7'' ''amy'' = None"
proof -
  define s where "s = snd (run_state (sql_createGroupWithOwner ''7'' ''Team'' ''amy'') \<lparr>tables = Tables_new, outcomes = []\<rparr>)"
  obtain st r s' where run: "run_state (sql_dissolveGroup ''7'' ''amy'' 5) s = ((st, r), s')" by (metis surj_pair)
  have "fst (fst (run_state (sql_dissolveGroup ''7'' ''amy'' 5) s)) = Ok"
    "map_option dr_alreadyDissolved (snd (fst (run_state (sql_dissolveGroup ''7'' ''amy'' 5) s))) = Some False"
    "role_in (tables s) ''7'' ''amy'' = Some 2" unfolding s_def by code_simp+
  with dissolve_group_all_or_nothing [OF run] run show ?thesis
    unfolding s_def [symmetric] by (auto simp: Let_def)
qed

end
