(* ===== verification/GroupService.thy ===== *)
theory GroupService
  imports SqlGroupRepo
begin

text \<open>
  The group service: \<open>src/include/im/GroupService.h\<close>, \<open>src/src/im/GroupService.cpp\<close>, on the repository interface
  \<open>src/include/storage/GroupRepo.h\<close>.

  The virtual functions of the interface are the fields of the record \<open>group_repo\<close>, and every operation of
  the service takes the repository it was constructed with, as the C++ object does. The service writes
  the database first and then brings the group manager into line; the locale \<open>group_store\<close> says what it
  relies on, and the theorems are that the two never disagree, whatever fails in the database.
\<close>

subsection \<open>The repository interface\<close>

record 's group_repo =
  groupExists :: "groupId \<Rightarrow> ('s, bool) state"
  isMember :: "groupId \<Rightarrow> accountId \<Rightarrow> ('s, bool) state"
  repo_addMember :: "groupId \<Rightarrow> accountId \<Rightarrow> 8 word \<Rightarrow> ('s, RepoStatus) state"
  repo_removeMember :: "groupId \<Rightarrow> accountId \<Rightarrow> ('s, RepoStatus) state"
  getMemberRole :: "groupId \<Rightarrow> accountId \<Rightarrow> ('s, 8 word repo_value) state"
  updateMemberRole :: "groupId \<Rightarrow> accountId \<Rightarrow> 8 word \<Rightarrow> ('s, RepoStatus) state"
  repo_transferOwner :: "groupId \<Rightarrow> accountId \<Rightarrow> accountId \<Rightarrow> ('s, RepoStatus) state"
  listMemberRecords :: "groupId \<Rightarrow> ('s, group_member_record list) state"
  createGroupWithOwner :: "groupId \<Rightarrow> string \<Rightarrow> accountId \<Rightarrow> ('s, RepoStatus) state"
  findGroupsByIds :: "groupId list \<Rightarrow> ('s, GroupSnapshot list) state"
  findGroupById :: "groupId \<Rightarrow> ('s, GroupSnapshot repo_value) state"
  countMembers :: "groupId \<Rightarrow> ('s, nat repo_value) state"
  repo_dissolveGroup :: "groupId \<Rightarrow> accountId \<Rightarrow> int \<Rightarrow> ('s, GroupDissolveRecord repo_value) state"

definition sql_group_repo :: "group_tables database group_repo" where
  "sql_group_repo = \<lparr>groupExists = sql_groupExists, isMember = sql_isMember, repo_addMember = sql_addMember,
     repo_removeMember = sql_removeMember, getMemberRole = sql_getMemberRole, updateMemberRole = sql_updateMemberRole,
     repo_transferOwner = sql_transferOwner, listMemberRecords = sql_listMemberRecords,
     createGroupWithOwner = sql_createGroupWithOwner, findGroupsByIds = sql_findGroupsByIds,
     findGroupById = sql_findGroupById, countMembers = sql_countMembers, repo_dissolveGroup = sql_dissolveGroup\<rparr>"

subsection \<open>The service\<close>

text \<open>
  The state the service works on, and what it gets from the user and friend repositories and from its
  configuration. \<open>areFriends\<close> is \<open>None\<close> if the service was built without a friend repository; the
  constructor refuses to build it without the other two.
\<close>

record UserProfile =
  up_accountId :: accountId
  up_username :: string
  up_nickname :: string
  up_avatarUrl :: string

record 's group_state =
  store :: 's
  manager :: group_manager

record group_deps =
  findByAccountId :: "accountId \<Rightarrow> UserProfile option"
  findByAccountIds :: "accountId list \<Rightarrow> UserProfile list"
  areFriends :: "(accountId \<Rightarrow> accountId \<Rightarrow> bool) option"
  requireFriendForInvite :: bool
  maxGroupMembers :: nat

type_synonym ('s, 'a) svc = "('s group_state, 'a) state"

definition in_store :: "('s, 'a) state \<Rightarrow> ('s, 'a) svc" where
  "in_store m = State (\<lambda>s. case run_state m (store s) of (x, st) \<Rightarrow> (x, s\<lparr>store := st\<rparr>))"

definition in_manager :: "(group_manager \<Rightarrow> 'a \<times> group_manager) \<Rightarrow> ('s, 'a) svc" where
  "in_manager f = State (\<lambda>s. case f (manager s) of (x, m) \<Rightarrow> (x, s\<lparr>manager := m\<rparr>))"

definition reloadGroup :: "'s group_repo \<Rightarrow> u64 \<Rightarrow> groupId \<Rightarrow> ('s, RepoStatus) svc" where
  "reloadGroup repo nowMs gid =
     (if gid = [] then ret InvalidArgument
      else do {
        result \<leftarrow> in_store (findGroupsByIds repo [gid]);
        case result of
          [] \<Rightarrow> do {_ \<leftarrow> in_manager (removeGroup gid); ret NotFound}
        | g # _ \<Rightarrow> do {
            members \<leftarrow> in_store (listMemberRecords repo gid);
            ok \<leftarrow> in_manager (restoreGroup nowMs (gs_groupId g) (gs_groupName g) (gs_ownerAccountId g) members);
            if \<not> ok then ret Internal else ret Ok}})"

text \<open>\<open>if(!groupManager_.x(...)) { if(!reloadGroup(groupId).ok()) return Internal; }\<close>, then the result.\<close>

definition sync_or_reload :: "'s group_repo \<Rightarrow> u64 \<Rightarrow> groupId \<Rightarrow> (group_manager \<Rightarrow> bool \<times> group_manager) \<Rightarrow> ('s, RepoStatus) svc" where
  "sync_or_reload repo nowMs gid f = do {
     ok \<leftarrow> in_manager f;
     if ok then ret Ok
     else do {
       r \<leftarrow> reloadGroup repo nowMs gid;
       if r \<noteq> Ok then ret Internal else ret Ok}}"

definition kickMember :: "'s group_repo \<Rightarrow> u64 \<Rightarrow> groupId \<Rightarrow> accountId \<Rightarrow> accountId \<Rightarrow> ('s, RepoStatus) svc" where
  "kickMember repo nowMs gid op target =
     (if gid = [] \<or> op = [] \<or> target = [] then ret InvalidArgument
      else do {
        e \<leftarrow> in_store (groupExists repo gid);
        if \<not> e then ret NotFound else do {
        m1 \<leftarrow> in_store (isMember repo gid target);
        if \<not> m1 then ret TargetNotInGroup else do {
        m2 \<leftarrow> in_store (isMember repo gid op);
        if \<not> m2 then ret TargetNotInGroup else do {
        (st1, r1) \<leftarrow> in_store (getMemberRole repo gid op);
        if st1 \<noteq> Ok \<or> r1 = None then ret st1 else do {
        (st2, r2) \<leftarrow> in_store (getMemberRole repo gid target);
        if st2 \<noteq> Ok \<or> r2 = None then ret st2
        else if \<not> (roleFromUint (the r1) = Some Owner \<or>
                  (roleFromUint (the r1) = Some Admin \<and> roleFromUint (the r2) = Some Member)) then ret NoPermission
        else do {
        result \<leftarrow> in_store (repo_removeMember repo gid target);
        if result \<noteq> Ok then ret result
        else sync_or_reload repo nowMs gid (gm_removeMember gid target)}}}}}})"

definition setAdmin :: "'s group_repo \<Rightarrow> u64 \<Rightarrow> groupId \<Rightarrow> accountId \<Rightarrow> accountId \<Rightarrow> bool \<Rightarrow> ('s, RepoStatus) svc" where
  "setAdmin repo nowMs gid op target enable =
     (if gid = [] \<or> op = [] \<or> target = [] then ret InvalidArgument
      else if op = target then ret InvalidGroupRole
      else do {
        (st1, r1) \<leftarrow> in_store (getMemberRole repo gid op);
        if st1 \<noteq> Ok \<or> r1 = None then ret st1
        else if roleFromUint (the r1) \<noteq> Some Owner then ret NoPermission
        else do {
        m \<leftarrow> in_store (isMember repo gid target);
        if \<not> m then ret TargetNotInGroup
        else if enable then do {
          result \<leftarrow> in_store (updateMemberRole repo gid target 1);
          if result \<noteq> Ok then ret result
          else sync_or_reload repo nowMs gid (setMemberRole gid target Admin)}
        else do {
          result \<leftarrow> in_store (updateMemberRole repo gid target 0);
          if result \<noteq> Ok then ret result
          else sync_or_reload repo nowMs gid (setMemberRole gid target Member)}}})"

definition transferOwner :: "'s group_repo \<Rightarrow> u64 \<Rightarrow> groupId \<Rightarrow> accountId \<Rightarrow> accountId \<Rightarrow> ('s, RepoStatus) svc" where
  "transferOwner repo nowMs gid old new =
     (if gid = [] \<or> old = [] \<or> new = [] then ret InvalidArgument
      else if old = new then ret InvalidArgument
      else do {
        (st1, r1) \<leftarrow> in_store (getMemberRole repo gid old);
        if st1 \<noteq> Ok \<or> r1 = None then ret st1
        else if the r1 \<noteq> roleToUint Owner then ret NoPermission
        else do {
        m \<leftarrow> in_store (isMember repo gid new);
        if \<not> m then ret TargetNotInGroup
        else do {
        result \<leftarrow> in_store (repo_transferOwner repo gid old new);
        if result \<noteq> Ok then ret result
        else sync_or_reload repo nowMs gid (gm_transferOwner gid old new)}}})"

record GroupMemberView =
  mv_accountId :: accountId
  mv_username :: string
  mv_nickname :: string
  mv_avatarUrl :: string
  mv_role :: GroupRole

definition listMemberViews :: "group_deps \<Rightarrow> groupId \<Rightarrow> group_manager \<Rightarrow> GroupMemberView list" where
  "listMemberViews deps gid m =
     (if gid = [] then []
      else let members = memberInfos gid m;
               byAccount = fold (\<lambda>p. emplace (up_accountId p) p) (findByAccountIds deps (map fst members)) []
           in map (\<lambda>(a, r).
                case map_of byAccount a of
                  None \<Rightarrow> \<lparr>mv_accountId = a, mv_username = [], mv_nickname = [], mv_avatarUrl = [], mv_role = r\<rparr>
                | Some p \<Rightarrow> \<lparr>mv_accountId = a, mv_username = up_username p, mv_nickname = up_nickname p,
                            mv_avatarUrl = up_avatarUrl p, mv_role = r\<rparr>) members)"

record GroupCreateResult =
  gc_groupId :: groupId
  gc_groupName :: string
  gc_ownerAccountId :: accountId

text \<open>The identifier the generator returns is an argument.\<close>

definition createGroup :: "'s group_repo \<Rightarrow> u64 \<Rightarrow> groupId \<Rightarrow> accountId \<Rightarrow> string \<Rightarrow> ('s, GroupCreateResult repo_value) svc" where
  "createGroup repo nowMs newId own name =
     (if own = [] then ret (InvalidArgument, None)
      else if newId = [] then ret (Internal, None)
      else do {
        result \<leftarrow> in_store (createGroupWithOwner repo newId name own);
        if result \<noteq> Ok then ret (result, None)
        else do {
          r \<leftarrow> sync_or_reload repo nowMs newId (gm_createGroup nowMs newId own name);
          if r \<noteq> Ok then ret (Internal, None)
          else ret (Ok, Some \<lparr>gc_groupId = newId, gc_groupName = name, gc_ownerAccountId = own\<rparr>)}})"

record GroupInviteResult =
  gi_joined :: bool
  gi_alreadyIn :: bool
  gi_groupId :: groupId
  gi_targetAccountId :: accountId

definition inviteMember :: "'s group_repo \<Rightarrow> group_deps \<Rightarrow> u64 \<Rightarrow> groupId \<Rightarrow> accountId \<Rightarrow> accountId \<Rightarrow> ('s, GroupInviteResult repo_value) svc" where
  "inviteMember repo deps nowMs gid inviter target =
     (if gid = [] \<or> inviter = [] \<or> target = [] then ret (InvalidArgument, None)
      else if inviter = target then ret (CannotInivteSelf, None)
      else do {
        (st, g) \<leftarrow> in_store (findGroupById repo gid);
        if st \<noteq> Ok then ret (st, None)
        else case g of None \<Rightarrow> ret (NotFound, None) | Some g \<Rightarrow>
        if gs_status g = Dissolved then ret (GroupDissolved, None) else do {
        m1 \<leftarrow> in_store (isMember repo gid inviter);
        if \<not> m1 then ret (TargetNotInGroup, None)
        else if findByAccountId deps target = None then ret (UserNotFound, None) else do {
        m2 \<leftarrow> in_store (isMember repo gid target);
        if m2 then ret (Ok, Some \<lparr>gi_joined = False, gi_alreadyIn = True, gi_groupId = gid, gi_targetAccountId = target\<rparr>)
        else if requireFriendForInvite deps \<and> areFriends deps = None then ret (Internal, None)
        else if requireFriendForInvite deps \<and> \<not> the (areFriends deps) inviter target then ret (InviteRequestsFriend, None)
        else do {
        (st2, n) \<leftarrow> in_store (countMembers repo gid);
        if st2 \<noteq> Ok then ret (st2, None)
        else case n of None \<Rightarrow> ret (Internal, None) | Some n \<Rightarrow>
        if n \<ge> maxGroupMembers deps then ret (GroupMemberLimitReach, None) else do {
        added \<leftarrow> in_store (repo_addMember repo gid target (roleToUint Member));
        if added \<noteq> Ok then
          (if added = AlreadyExists
           then ret (Ok, Some \<lparr>gi_joined = False, gi_alreadyIn = False, gi_groupId = [], gi_targetAccountId = []\<rparr>)
           else ret (added, None))
        else do {
          r \<leftarrow> sync_or_reload repo nowMs gid (\<lambda>m. case joinGroup gid target m of (j, m') \<Rightarrow> (j = OK_JOINED, m'));
          if r \<noteq> Ok then ret (Internal, None)
          else ret (Ok, Some \<lparr>gi_joined = True, gi_alreadyIn = False, gi_groupId = gid, gi_targetAccountId = target\<rparr>)}}}}}})"

record GroupDissolveResult =
  gd_dissolved :: bool
  gd_alreadyDissolved :: bool
  gd_groupId :: groupId
  gd_affectedAccountIds :: "accountId list"

definition dissolveGroup :: "'s group_repo \<Rightarrow> groupId \<Rightarrow> accountId \<Rightarrow> int \<Rightarrow> ('s, GroupDissolveResult repo_value) svc" where
  "dissolveGroup repo gid op nowMs =
     (if gid = [] \<or> op = [] then ret (InvalidArgument, None)
      else do {
        (st, g) \<leftarrow> in_store (findGroupById repo gid);
        if st \<noteq> Ok then ret (st, None)
        else case g of None \<Rightarrow> ret (NotFound, None) | Some g \<Rightarrow>
        if gs_status g = Dissolved
        then ret (Ok, Some \<lparr>gd_dissolved = False, gd_alreadyDissolved = True, gd_groupId = gid, gd_affectedAccountIds = []\<rparr>)
        else if gs_ownerAccountId g \<noteq> op then ret (NoPermission, None)
        else do {
        (st2, d) \<leftarrow> in_store (repo_dissolveGroup repo gid op nowMs);
        if st2 \<noteq> Ok then ret (st2, None)
        else case d of None \<Rightarrow> ret (Internal, None) | Some d \<Rightarrow>
        if dr_alreadyDissolved d
        then ret (Ok, Some \<lparr>gd_dissolved = False, gd_alreadyDissolved = True, gd_groupId = gid, gd_affectedAccountIds = []\<rparr>)
        else do {
          _ \<leftarrow> in_manager (removeGroup gid);
          ret (Ok, Some \<lparr>gd_dissolved = True, gd_alreadyDissolved = False, gd_groupId = gid,
                       gd_affectedAccountIds = dr_memberAccountIds d\<rparr>)}}})"

record GroupSearchResult =
  sr_groupId :: groupId
  sr_groupName :: string
  sr_ownerAccountId :: accountId
  sr_memberCount :: nat
  sr_alreadyMember :: bool

definition searchGroupById :: "'s group_repo \<Rightarrow> groupId \<Rightarrow> accountId \<Rightarrow> ('s, GroupSearchResult repo_value) svc" where
  "searchGroupById repo gid requester =
     (if gid = [] \<or> requester = [] then ret (InvalidArgument, None)
      else do {
        (st, g) \<leftarrow> in_store (findGroupById repo gid);
        if st \<noteq> Ok then ret (st, None)
        else case g of None \<Rightarrow> ret (NotFound, None) | Some g \<Rightarrow>
        if gs_status g = Dissolved then ret (GroupDissolved, None) else do {
        (st2, n) \<leftarrow> in_store (countMembers repo gid);
        if st2 \<noteq> Ok then ret (st2, None)
        else case n of None \<Rightarrow> ret (Internal, None) | Some n \<Rightarrow> do {
        m \<leftarrow> in_store (isMember repo gid requester);
        ret (Ok, Some \<lparr>sr_groupId = gid, sr_groupName = gs_groupName g, sr_ownerAccountId = gs_ownerAccountId g,
                     sr_memberCount = n, sr_alreadyMember = m\<rparr>)}}})"

subsection \<open>What the service relies on\<close>

locale group_store =
  fixes repo :: "'s group_repo" and ok :: "'s \<Rightarrow> bool" and V :: "'s \<Rightarrow> groupId \<Rightarrow> group_view option"
  assumes view_law: "ok s \<Longrightarrow> V s gid = Some v \<Longrightarrow>
        gid \<noteq> [] \<and> gv_name v \<noteq> [] \<and> gv_owner v \<noteq> [] \<and> finite (dom (gv_roles v)) \<and>
        (\<forall>a. gv_roles v a = Some 2 \<longleftrightarrow> a = gv_owner v) \<and> (\<forall>a r. gv_roles v a = Some r \<longrightarrow> a \<noteq> [] \<and> r \<le> 2)"
    and exists_law: "ok s \<Longrightarrow> run_state (groupExists repo gid) s = (b, s') \<Longrightarrow>
        ok s' \<and> V s' = V s \<and> (b \<longrightarrow> V s gid \<noteq> None)"
    and member_law: "ok s \<Longrightarrow> run_state (isMember repo gid a) s = (b, s') \<Longrightarrow>
        ok s' \<and> V s' = V s \<and> (b \<longrightarrow> (\<exists>v. V s gid = Some v \<and> gv_roles v a \<noteq> None))"
    and role_law: "ok s \<Longrightarrow> run_state (getMemberRole repo gid a) s = ((st, r), s') \<Longrightarrow>
        ok s' \<and> V s' = V s \<and> (st = Ok \<longrightarrow> r \<noteq> None \<and> (\<exists>v. V s gid = Some v \<and> gv_roles v a = r))"
    and find_law: "ok s \<Longrightarrow> run_state (findGroupById repo gid) s = ((st, g), s') \<Longrightarrow>
        ok s' \<and> V s' = V s \<and> (st = Ok \<longrightarrow> (\<exists>x. g = Some x \<and>
          (gs_status x = Active \<longleftrightarrow> V s gid \<noteq> None) \<and> (\<forall>v. V s gid = Some v \<longrightarrow> gs_ownerAccountId x = getString (gv_owner v))))"
    and count_law: "ok s \<Longrightarrow> run_state (countMembers repo gid) s = ((st, n), s') \<Longrightarrow>
        ok s' \<and> V s' = V s \<and> (st = Ok \<longrightarrow> n \<noteq> None \<and> (\<forall>v. V s gid = Some v \<longrightarrow> n = Some (card (dom (gv_roles v)))))"
    and remove_law: "ok s \<Longrightarrow> run_state (repo_removeMember repo gid a) s = (st, s') \<Longrightarrow>
        (st \<noteq> Ok \<longrightarrow> ok s' \<and> V s' = V s) \<and>
        (st = Ok \<longrightarrow> (\<exists>v. V s gid = Some v \<and> gv_roles v a \<noteq> None \<and> (a \<noteq> gv_owner v \<longrightarrow> ok s') \<and>
          V s' = (V s)(gid \<mapsto> v\<lparr>gv_roles := (gv_roles v)(a := None)\<rparr>)))"
    and add_law: "ok s \<Longrightarrow> run_state (repo_addMember repo gid a w) s = (st, s') \<Longrightarrow> w < 2 \<Longrightarrow>
        ok s' \<and> (st \<noteq> Ok \<longrightarrow> V s' = V s) \<and>
        (st = Ok \<longrightarrow> (\<forall>v. V s gid = Some v \<longrightarrow> gv_roles v a = None \<and> a \<noteq> [] \<and>
          V s' = (V s)(gid \<mapsto> v\<lparr>gv_roles := (gv_roles v)(a \<mapsto> w)\<rparr>)))"
    and update_law: "ok s \<Longrightarrow> run_state (updateMemberRole repo gid a w) s = (st, s') \<Longrightarrow> w < 2 \<Longrightarrow>
        (st \<noteq> Ok \<longrightarrow> ok s' \<and> V s' = V s) \<and>
        (st = Ok \<longrightarrow> (\<exists>v. V s gid = Some v \<and> gv_roles v a \<noteq> None \<and> (a \<noteq> gv_owner v \<longrightarrow> ok s') \<and>
          V s' = (V s)(gid \<mapsto> v\<lparr>gv_roles := (gv_roles v)(a \<mapsto> w)\<rparr>)))"
    and transfer_law: "ok s \<Longrightarrow> run_state (repo_transferOwner repo gid old new) s = (st, s') \<Longrightarrow>
        ok s' \<and> (st \<noteq> Ok \<longrightarrow> V s' = V s) \<and>
        (st = Ok \<longrightarrow> (\<exists>v. V s gid = Some v \<and> gv_owner v = old \<and> old \<noteq> new \<and> gv_roles v new \<noteq> None \<and>
          V s' = (V s)(gid \<mapsto> v\<lparr>gv_owner := new, gv_roles := (gv_roles v)(new \<mapsto> 2, old \<mapsto> 0)\<rparr>)))"
    and create_law: "ok s \<Longrightarrow> run_state (createGroupWithOwner repo gid name own) s = (st, s') \<Longrightarrow>
        ok s' \<and> (st \<noteq> Ok \<longrightarrow> V s' = V s) \<and>
        (st = Ok \<longrightarrow> V s gid = None \<and> gid \<noteq> [] \<and> name \<noteq> [] \<and> own \<noteq> [] \<and>
          V s' = (V s)(gid \<mapsto> \<lparr>gv_name = name, gv_owner = own, gv_roles = [own \<mapsto> 2]\<rparr>))"
    and dissolve_law: "ok s \<Longrightarrow> run_state (repo_dissolveGroup repo gid own at) s = ((st, d), s') \<Longrightarrow>
        ok s' \<and> (st \<noteq> Ok \<longrightarrow> V s' = V s) \<and>
        (st = Ok \<longrightarrow> (\<exists>x. d = Some x \<and>
          (if dr_alreadyDissolved x then V s' = V s \<and> V s gid = None
           else V s' = (V s)(gid := None) \<and> (\<exists>v. V s gid = Some v \<and> gv_owner v = own))))"

text \<open>The SQL repository is such a store.\<close>

lemma view_set_role:
  assumes "chat_groups t' = chat_groups t" "role_in t' = set_role gid a ro t" "view t gid = Some v"
  shows "view t' = (view t)(gid \<mapsto> v\<lparr>gv_roles := (gv_roles v)(a := ro)\<rparr>)"
proof
  fix g
  show "view t' g = ((view t)(gid \<mapsto> v\<lparr>gv_roles := (gv_roles v)(a := ro)\<rparr>)) g"
    using assms(3) by (auto simp: view_def assms(1,2) set_role_def split: option.splits if_splits)
qed

lemma view_roles: "view t gid = Some v \<Longrightarrow> gv_roles v = role_in t gid"
  by (auto simp: view_def split: option.splits if_splits)

lemma view_owner: "view t gid = Some v \<Longrightarrow> \<exists>row. map_of (chat_groups t) gid = Some row \<and> cg_status row = 0 \<and> cg_owner row = gv_owner v"
  by (auto simp: view_def split: option.splits if_splits)

lemma store_ok_member_view:
  assumes "store_ok t" "role_in t gid a \<noteq> None"
  obtains v where "view t gid = Some v" "gv_roles v a \<noteq> None"
proof -
  from assms(2) obtain r where "role_in t gid a = Some r" by auto
  from store_okD(4) [OF assms(1) this] obtain v where "view t gid = Some v" by (auto simp: is_active_view)
  with assms(2) that show thesis by (auto simp: view_roles)
qed

lemma store_ok_view:
  assumes "store_ok t" "view t gid = Some v"
  shows "gid \<noteq> [] \<and> gv_name v \<noteq> [] \<and> gv_owner v \<noteq> [] \<and> finite (dom (gv_roles v)) \<and>
        (\<forall>a. gv_roles v a = Some 2 \<longleftrightarrow> a = gv_owner v) \<and> (\<forall>a r. gv_roles v a = Some r \<longrightarrow> a \<noteq> [] \<and> r \<le> 2)"
proof -
  have "dom (role_in t gid) \<subseteq> snd ` fst ` set (group_members t)"
    by (auto simp: role_in_def image_iff dest!: map_of_SomeD) force
  then have "finite (dom (role_in t gid))" by (rule finite_subset) simp
  moreover obtain row where "map_of (chat_groups t) gid = Some row" "cg_status row = 0"
    "v = \<lparr>gv_name = cg_name row, gv_owner = cg_owner row, gv_roles = role_in t gid\<rparr>"
    using assms(2) by (auto simp: view_def split: option.splits if_splits)
  ultimately show ?thesis
    using store_okD(2,3) [OF assms(1)] store_okD(4) [OF assms(1), of gid] by auto
qed

lemma remove_view:
  assumes "store_ok t" "may t (sql_removeMember gid a) Ok t'"
  shows "\<exists>v. view t gid = Some v \<and> gv_roles v a \<noteq> None \<and> (a \<noteq> gv_owner v \<longrightarrow> store_ok t') \<and>
    view t' = (view t)(gid \<mapsto> v\<lparr>gv_roles := (gv_roles v)(a := None)\<rparr>)"
proof -
  from sql_removeMember_spec [OF assms(2)] have
    c: "chat_groups t' = chat_groups t" and k: "keys_ok t'" and m: "role_in t gid a \<noteq> None"
    and r: "role_in t' = set_role gid a None t" using store_okD(1) [OF assms(1)] by auto
  from store_ok_member_view [OF assms(1) m] obtain v where v: "view t gid = Some v" "gv_roles v a \<noteq> None" .
  moreover have "store_ok t'" if "a \<noteq> gv_owner v"
    using store_ok_set_role [OF assms(1) c k r] store_ok_view [OF assms(1) v(1)] that v(1)
    by (auto simp: view_roles [OF v(1), symmetric])
  ultimately show ?thesis using view_set_role [OF c r v(1)] by auto
qed

lemma update_view:
  assumes "store_ok t" "may t (sql_updateMemberRole gid a w) Ok t'" "w < 2"
  shows "\<exists>v. view t gid = Some v \<and> gv_roles v a \<noteq> None \<and> (a \<noteq> gv_owner v \<longrightarrow> store_ok t') \<and>
    view t' = (view t)(gid \<mapsto> v\<lparr>gv_roles := (gv_roles v)(a \<mapsto> w)\<rparr>)"
proof -
  from sql_updateMemberRole_spec [OF assms(2)] have
    c: "chat_groups t' = chat_groups t" and k: "keys_ok t'" and m: "role_in t gid a \<noteq> None"
    and r: "role_in t' = set_role gid a (Some w) t" using store_okD(1) [OF assms(1)] by auto
  from store_ok_member_view [OF assms(1) m] obtain v where v: "view t gid = Some v" "gv_roles v a \<noteq> None" .
  moreover have "store_ok t'" if "a \<noteq> gv_owner v"
    using store_ok_set_role [OF assms(1) c k r] store_ok_view [OF assms(1) v(1)] that v assms(3)
    by (auto simp: view_roles [OF v(1), symmetric] is_active_view)
  ultimately show ?thesis using view_set_role [OF c r v(1)] by auto
qed

lemma add_view:
  assumes "store_ok t" "may t (sql_addMember gid a w) st t'" "w < 2"
  shows "store_ok t' \<and> (st \<noteq> Ok \<longrightarrow> view t' = view t) \<and>
    (st = Ok \<longrightarrow> (\<forall>v. view t gid = Some v \<longrightarrow> gv_roles v a = None \<and> a \<noteq> [] \<and>
       view t' = (view t)(gid \<mapsto> v\<lparr>gv_roles := (gv_roles v)(a \<mapsto> w)\<rparr>)))"
proof (cases "st = Ok \<and> is_active gid t")
  case False
  with sql_addMember_spec [OF assms(2)] assms(1) show ?thesis by (auto simp: is_active_view split: if_splits)
next
  case True
  with sql_addMember_spec [OF assms(2)] have
    c: "chat_groups t' = chat_groups t" and k: "keys_ok t'" and m: "role_in t gid a = None" and a: "a \<noteq> []"
    and r: "role_in t' = set_role gid a (Some w) t" using store_okD(1) [OF assms(1)] by auto
  have "store_ok t'" using store_ok_set_role [OF assms(1) c k r] m a True assms(3) by auto
  then show ?thesis using view_set_role [OF c r] True m a by (auto simp: view_roles)
qed

lemma transfer_view:
  assumes "store_ok t" "may t (sql_transferOwner gid old new) st t'"
  shows "store_ok t' \<and> (st \<noteq> Ok \<longrightarrow> view t' = view t) \<and>
    (st = Ok \<longrightarrow> (\<exists>v. view t gid = Some v \<and> gv_owner v = old \<and> old \<noteq> new \<and> gv_roles v new \<noteq> None \<and>
       view t' = (view t)(gid \<mapsto> v\<lparr>gv_owner := new, gv_roles := (gv_roles v)(new \<mapsto> 2, old \<mapsto> 0)\<rparr>)))"
proof (cases "st = Ok")
  case False
  with sql_transferOwner_spec [OF assms(2)] assms(1) show ?thesis by auto
next
  case True
  with sql_transferOwner_spec [OF assms(2)] obtain row where
    k: "keys_ok t'" and ne: "old \<noteq> new" "new \<noteq> []" and m: "role_in t gid old \<noteq> None" "role_in t gid new \<noteq> None"
    and r: "role_in t' = (role_in t)(gid := (role_in t gid)(new := Some 2, old := Some 0))"
    and row: "map_of (chat_groups t) gid = Some row" "cg_owner row = old"
    and c: "map_of (chat_groups t') = (map_of (chat_groups t))(gid \<mapsto> row\<lparr>cg_owner := new\<rparr>)"
    using store_okD(1) [OF assms(1)] by auto
  from store_ok_member_view [OF assms(1) m(2)] obtain v where v: "view t gid = Some v" "gv_roles v new \<noteq> None" .
  have "view t' = (view t)(gid \<mapsto> v\<lparr>gv_owner := new, gv_roles := (gv_roles v)(new \<mapsto> 2, old \<mapsto> 0)\<rparr>)" (is "_ = ?V")
  proof
    fix g show "view t' g = ?V g" using v(1) row by (auto simp: view_def r c split: option.splits if_splits)
  qed
  moreover have "gv_owner v = old" using v row by (auto simp: view_def split: if_splits)
  ultimately show ?thesis using store_ok_transfer [OF assms(1) k ne m r row c] v ne True by auto
qed

lemma create_view:
  assumes "store_ok t" "may t (sql_createGroupWithOwner gid name own) st t'"
  shows "store_ok t' \<and> (st \<noteq> Ok \<longrightarrow> view t' = view t) \<and>
    (st = Ok \<longrightarrow> view t gid = None \<and> gid \<noteq> [] \<and> name \<noteq> [] \<and> own \<noteq> [] \<and>
       view t' = (view t)(gid \<mapsto> \<lparr>gv_name = name, gv_owner = own, gv_roles = [own \<mapsto> 2]\<rparr>))"
proof (cases "st = Ok")
  case False
  with sql_createGroupWithOwner_spec [OF assms(2)] assms(1) show ?thesis by auto
next
  case True
  with sql_createGroupWithOwner_spec [OF assms(2)] have
    k: "keys_ok t'" and ne: "gid \<noteq> []" "name \<noteq> []" "own \<noteq> []" and n: "map_of (chat_groups t) gid = None"
    and r: "role_in t' = set_role gid own (Some 2) t"
    and c: "map_of (chat_groups t') = (map_of (chat_groups t))(gid \<mapsto>
      \<lparr>cg_name = name, cg_owner = own, cg_status = 0, cg_dissolved_at_ms = None\<rparr>)"
    using store_okD(1) [OF assms(1)] by auto
  from store_ok_create [OF assms(1) k ne n r c] have s: "store_ok t'" "role_in t gid = Map.empty" by auto
  have "view t' = (view t)(gid \<mapsto> \<lparr>gv_name = name, gv_owner = own, gv_roles = [own \<mapsto> 2]\<rparr>)" (is "_ = ?V")
  proof
    fix g show "view t' g = ?V g" using s(2) by (auto simp: view_def r c set_role_def split: option.splits)
  qed
  then show ?thesis using True ne n s by (auto simp: view_def)
qed

lemma dissolve_view:
  assumes "store_ok t" "may t (sql_dissolveGroup gid own at) (st, d) t'"
  shows "store_ok t' \<and> (st \<noteq> Ok \<longrightarrow> view t' = view t) \<and>
    (st = Ok \<longrightarrow> (\<exists>x. d = Some x \<and>
       (if dr_alreadyDissolved x then view t' = view t \<and> view t gid = None
        else view t' = (view t)(gid := None) \<and> (\<exists>v. view t gid = Some v \<and> gv_owner v = own))))"
proof (cases "st = Ok")
  case False
  with sql_dissolveGroup_spec [OF assms(2)] assms(1) show ?thesis by auto
next
  case ok: True
  with sql_dissolveGroup_spec [OF assms(2)] obtain x row where
    x: "d = Some x" and row: "map_of (chat_groups t) gid = Some row"
    and cases: "if dr_alreadyDissolved x then t' = t \<and> cg_status row = 1
     else cg_status row = 0 \<and> cg_owner row = own \<and> keys_ok t' \<and> role_in t' = (role_in t)(gid := Map.empty) \<and>
       map_of (chat_groups t') = (map_of (chat_groups t))(gid \<mapsto> row\<lparr>cg_status := 1, cg_dissolved_at_ms := Some at\<rparr>)"
    using store_okD(1) [OF assms(1)] by (auto split: if_splits)
  show ?thesis
  proof (cases "dr_alreadyDissolved x")
    case True
    with cases row x assms(1) ok show ?thesis by (auto simp: view_def)
  next
    case False
    with cases have c: "role_in t' = (role_in t)(gid := Map.empty)" "keys_ok t'" "cg_status row = 0" "cg_owner row = own"
      "map_of (chat_groups t') = (map_of (chat_groups t))(gid \<mapsto> row\<lparr>cg_status := 1, cg_dissolved_at_ms := Some at\<rparr>)" by auto
    have "view t' g = ((view t)(gid := None)) g" for g using c(1,5) by (auto simp: view_def split: option.splits)
    then have "view t' = (view t)(gid := None)" by blast
    then show ?thesis
      using False ok x row c store_ok_dissolve [OF assms(1) c(2) row c(1) c(5)] by (auto simp: view_def)
  qed
qed

interpretation sql_store: group_store sql_group_repo "\<lambda>s. store_ok (tables s)" "\<lambda>s. view (tables s)"
proof (unfold_locales, goal_cases)
  case (1 s gid v)
  then show ?case by (rule store_ok_view)
next
  case (2 s gid b s')
  then show ?case by (auto simp: sql_group_repo_def dest!: mayI sql_groupExists_spec)
next
  case (3 s gid a b s')
  then show ?case
    by (auto simp: sql_group_repo_def dest!: mayI sql_isMember_spec elim: store_ok_member_view)
next
  case (4 s gid a st r s')
  then show ?case
    by (auto simp: sql_group_repo_def view_roles dest!: mayI sql_getMemberRole_spec elim: store_ok_member_view)
next
  case (5 s gid st g s')
  then show ?case
    by (auto simp: sql_group_repo_def view_def dest!: mayI sql_findGroupById_spec)
next
  case (6 s gid st n s')
  then show ?case
    by (auto simp: sql_group_repo_def length_members_of [OF store_okD(1)] dom_def view_roles dest!: mayI sql_countMembers_spec)
next
  case (7 s gid a st s')
  then have m: "may (tables s) (sql_removeMember gid a) st (tables s')" by (auto simp: sql_group_repo_def dest: mayI)
  show ?case
    using remove_view [OF 7(1)] sql_removeMember_spec [OF m] m 7(1) by (cases "st = Ok") auto
next
  case (8 s gid a w st s')
  then show ?case by (auto simp: sql_group_repo_def dest!: mayI dest: add_view)
next
  case (9 s gid a w st s')
  then have m: "may (tables s) (sql_updateMemberRole gid a w) st (tables s')" by (auto simp: sql_group_repo_def dest: mayI)
  show ?case
    using update_view [OF 9(1) _ 9(3)] sql_updateMemberRole_spec [OF m] m 9(1) by (cases "st = Ok") auto
next
  case (10 s gid old new st s')
  then show ?case using transfer_view [OF 10(1) mayI] by (simp add: sql_group_repo_def)
next
  case (11 s gid name own st s')
  then show ?case using create_view [OF 11(1) mayI] by (simp add: sql_group_repo_def)
next
  case (12 s gid own at st d s')
  then show ?case using dissolve_view [OF 12(1) mayI] by (simp add: sql_group_repo_def)
qed

subsection \<open>Memory follows the store\<close>

definition agrees :: "group \<Rightarrow> group_view \<Rightarrow> bool" where
  "agrees g v \<longleftrightarrow> g_name g = gv_name v \<and> g_ownerAccountId g = gv_owner v \<and>
     (\<forall>a. map_option roleToUint (roleOf a g) = gv_roles v a)"

definition synced :: "group_manager \<Rightarrow> (groupId \<Rightarrow> group_view option) \<Rightarrow> bool" where
  "synced m W \<longleftrightarrow> (\<forall>gid. rel_option agrees (map_of (groupsById m) gid) (W gid))"

definition svc_ok :: "('s \<Rightarrow> bool) \<Rightarrow> ('s \<Rightarrow> groupId \<Rightarrow> group_view option) \<Rightarrow> 's group_state \<Rightarrow> bool" where
  "svc_ok ok V S \<longleftrightarrow> ok (store S) \<and> gm_ok (manager S) \<and> synced (manager S) (V (store S))"

lemma syncedE:
  assumes "synced m W" "W gid = Some v"
  obtains g where "map_of (groupsById m) gid = Some g" "agrees g v"
  using assms unfolding synced_def by (metis option.rel_cases option.distinct(1) option.inject)

lemma synced_None: "synced m W \<Longrightarrow> map_of (groupsById m) gid = None \<longleftrightarrow> W gid = None"
  unfolding synced_def by (metis option.rel_distinct option.exhaust)

lemma synced_upd:
  "synced m W \<Longrightarrow> map_of (groupsById m') = (map_of (groupsById m))(gid := x) \<Longrightarrow> rel_option agrees x y \<Longrightarrow>
   synced m' (W(gid := y))"
  by (auto simp: synced_def)

lemma agrees_member: "agrees g v \<Longrightarrow> hasMember a g \<longleftrightarrow> gv_roles v a \<noteq> None"
  unfolding agrees_def hasMember_def roleOf_def by (metis option.map_disc_iff)

lemma gm_removeMember_synced:
  assumes "synced m W" "W gid = Some v" "gv_roles v a \<noteq> None" "a \<noteq> gv_owner v" "gid \<noteq> []" "a \<noteq> []"
  shows "\<exists>m'. gm_removeMember gid a m = (True, m') \<and> synced m' (W(gid \<mapsto> v\<lparr>gv_roles := (gv_roles v)(a := None)\<rparr>))"
proof -
  obtain g where g: "map_of (groupsById m) gid = Some g" "agrees g v" using syncedE [OF assms(1,2)] .
  define g' where "g' = g\<lparr>g_members := AList.delete a (g_members g)\<rparr>"
  have "removeMember a g = (True, g')"
    using agrees_member [OF g(2)] assms(3,4) g(2) by (auto simp: removeMember_def g'_def agrees_def)
  moreover have "agrees g' (v\<lparr>gv_roles := (gv_roles v)(a := None)\<rparr>)"
    using g(2) by (auto simp: agrees_def g'_def roleOf_def)
  ultimately show ?thesis
    using g(1) assms(5,6) by (auto simp: gm_removeMember_def intro!: synced_upd [OF assms(1)])
qed

lemma setMemberRole_synced:
  assumes "synced m W" "W gid = Some v" "gv_roles v a \<noteq> None" "a \<noteq> gv_owner v" "r \<noteq> Owner"
  shows "\<exists>m'. setMemberRole gid a r m = (True, m') \<and> synced m' (W(gid \<mapsto> v\<lparr>gv_roles := (gv_roles v)(a \<mapsto> roleToUint r)\<rparr>))"
proof -
  obtain g where g: "map_of (groupsById m) gid = Some g" "agrees g v" using syncedE [OF assms(1,2)] .
  have h: "hasMember a g" using agrees_member [OF g(2)] assms(3) by simp
  then obtain r0 where r0: "map_of (g_members g) a = Some r0" by (auto simp: hasMember_def)
  define g' where "g' = g\<lparr>g_members := AList.update a r (g_members g)\<rparr>"
  have "setRole a r g = (True, g')"
    using assms(4,5) g(2) r0 by (auto simp: setRole_def g'_def agrees_def)
  moreover have "agrees g' (v\<lparr>gv_roles := (gv_roles v)(a \<mapsto> roleToUint r)\<rparr>)"
    using g(2) by (auto simp: agrees_def g'_def roleOf_def)
  ultimately show ?thesis
    using g(1) h by (auto simp: setMemberRole_def gm_isMember_def intro!: synced_upd [OF assms(1)])
qed

lemma gm_transferOwner_synced:
  assumes "synced m W" "W gid = Some v" "gv_owner v = old" "gv_roles v old \<noteq> None" "gv_roles v new \<noteq> None" "old \<noteq> new"
  shows "\<exists>m'. gm_transferOwner gid old new m = (True, m') \<and>
    synced m' (W(gid \<mapsto> v\<lparr>gv_owner := new, gv_roles := (gv_roles v)(new \<mapsto> 2, old \<mapsto> 0)\<rparr>))"
proof -
  obtain g where g: "map_of (groupsById m) gid = Some g" "agrees g v" using syncedE [OF assms(1,2)] .
  have h: "hasMember old g" "hasMember new g" using agrees_member [OF g(2)] assms(4,5) by simp_all
  obtain g' where g': "transFerOwner old new g = (True, g')" "agrees g' (v\<lparr>gv_owner := new, gv_roles := (gv_roles v)(new \<mapsto> 2, old \<mapsto> 0)\<rparr>)"
    using h g(2) assms(3,6) by (auto simp: transFerOwner_def hasMember_def agrees_def roleOf_def split: option.splits)
  then show ?thesis
    using g assms(3) by (auto simp: gm_transferOwner_def isOwner_def agrees_def intro!: synced_upd [OF assms(1)])
qed

lemma gm_createGroup_synced:
  assumes "synced m W" "W gid = None" "gid \<noteq> []" "own \<noteq> []" "name \<noteq> []"
  shows "\<exists>m'. gm_createGroup now gid own name m = (True, m') \<and>
    synced m' (W(gid \<mapsto> \<lparr>gv_name = name, gv_owner = own, gv_roles = [own \<mapsto> 2]\<rparr>))"
proof -
  have n: "map_of (groupsById m) gid = None" using synced_None [OF assms(1)] assms(2) by simp
  then show ?thesis
    using assms(3-5)
    by (auto simp: gm_createGroup_def addMember_def Group_new_def hasMember_def intro!: synced_upd [OF assms(1)])
      (auto simp: agrees_def roleOf_def)
qed

lemma joinGroup_synced:
  assumes "synced m W" "W gid = Some v" "gv_roles v a = None" "a \<noteq> []"
  shows "\<exists>m'. joinGroup gid a m = (OK_JOINED, m') \<and> synced m' (W(gid \<mapsto> v\<lparr>gv_roles := (gv_roles v)(a \<mapsto> 0)\<rparr>))"
proof -
  obtain g where g: "map_of (groupsById m) gid = Some g" "agrees g v" using syncedE [OF assms(1,2)] .
  have h: "\<not> hasMember a g" using agrees_member [OF g(2)] assms(3) by simp
  define g' where "g' = g\<lparr>g_members := emplace a Member (g_members g)\<rparr>"
  have "addMember a Member g = (True, g')" using h assms(4) by (simp add: addMember_def g'_def)
  moreover have "agrees g' (v\<lparr>gv_roles := (gv_roles v)(a \<mapsto> 0)\<rparr>)"
    using g(2) h by (auto simp: agrees_def g'_def roleOf_def hasMember_def)
  ultimately show ?thesis
    using g(1) h by (auto simp: joinGroup_def gm_isMember_def intro!: synced_upd [OF assms(1)])
qed

lemma removeGroup_synced:
  assumes "synced m W"
  shows "synced (snd (removeGroup gid m)) (W(gid := None))"
  using synced_None [OF assms, of gid]
  by (cases "map_of (groupsById m) gid")
     (auto simp: removeGroup_def fun_upd_idem assms intro!: synced_upd [OF assms])

subsection \<open>Reading a run of the service\<close>

lemma run_bindE:
  assumes "run_state (State_Monad.bind m f) s = (r, s'')"
  obtains x s' where "run_state m s = (x, s')" "run_state (f x) s' = (r, s'')"
  using assms by (auto split: prod.splits)

lemma in_storeE:
  assumes "run_state (in_store m) s = (x, s')"
  obtains st where "run_state m (store s) = (x, st)" "s' = s\<lparr>store := st\<rparr>"
  using assms by (auto simp: in_store_def split: prod.splits)

lemma in_managerE:
  assumes "run_state (in_manager f) s = (x, s')"
  obtains m where "f (manager s) = (x, m)" "s' = s\<lparr>manager := m\<rparr>"
  using assms by (auto simp: in_manager_def split: prod.splits)

lemmas run_elims = run_bindE in_storeE in_managerE

lemma sync_or_reload_ok:
  "f (manager s) = (True, m) \<Longrightarrow> run_state (sync_or_reload repo now gid f) s = (Ok, s\<lparr>manager := m\<rparr>)"
  by (simp add: sync_or_reload_def in_manager_def)

lemma roleFromUint_Some: "roleFromUint w = Some r \<longleftrightarrow> w = roleToUint r"
  by (cases r) (auto simp: roleFromUint_def)

text \<open>Nothing visible has changed.\<close>

definition kept :: "('s \<Rightarrow> bool) \<Rightarrow> ('s \<Rightarrow> groupId \<Rightarrow> group_view option) \<Rightarrow> 's group_state \<Rightarrow> 's group_state \<Rightarrow> bool" where
  "kept ok V S S' \<longleftrightarrow> ok (store S') \<and> V (store S') = V (store S) \<and> manager S' = manager S"

lemma kept_svc_ok: "kept ok V S S' \<Longrightarrow> svc_ok ok V S \<Longrightarrow> svc_ok ok V S' \<and> V (store S') = V (store S)"
  by (simp add: kept_def svc_ok_def)

lemma word01: "(0 :: 8 word) < 2" "(1 :: 8 word) < 2"
  by simp_all

context group_store
begin

lemmas read_laws = exists_law [rotated] member_law [rotated] role_law [rotated] find_law [rotated] count_law [rotated]

lemma write_failed:
  "run_state (repo_removeMember repo gid a) s = (st, s') \<Longrightarrow> ok s \<Longrightarrow> st \<noteq> Ok \<Longrightarrow> ok s' \<and> V s' = V s"
  "run_state (repo_addMember repo gid a w) s = (st, s') \<Longrightarrow> ok s \<Longrightarrow> w < 2 \<Longrightarrow> st \<noteq> Ok \<Longrightarrow> ok s' \<and> V s' = V s"
  "run_state (updateMemberRole repo gid a w) s = (st, s') \<Longrightarrow> ok s \<Longrightarrow> w < 2 \<Longrightarrow> st \<noteq> Ok \<Longrightarrow> ok s' \<and> V s' = V s"
  "run_state (repo_transferOwner repo gid old new) s = (st, s') \<Longrightarrow> ok s \<Longrightarrow> st \<noteq> Ok \<Longrightarrow> ok s' \<and> V s' = V s"
  "run_state (createGroupWithOwner repo gid name own) s = (st, s') \<Longrightarrow> ok s \<Longrightarrow> st \<noteq> Ok \<Longrightarrow> ok s' \<and> V s' = V s"
  "run_state (repo_dissolveGroup repo gid own at) s = ((st, d), s') \<Longrightarrow> ok s \<Longrightarrow> st \<noteq> Ok \<Longrightarrow> ok s' \<and> V s' = V s"
  using remove_law [of s gid a st s'] add_law [of s gid a w st s'] update_law [of s gid a w st s']
    transfer_law [of s gid old new st s'] create_law [of s gid name own st s'] dissolve_law [of s gid own at st d s'] by simp_all

text \<open>Expelling a member: either nothing changes, or the caller outranks the member and the row is deleted.\<close>

lemma kickMember_cases:
  assumes "ok (store S)" and "run_state (kickMember repo now gid op target) S = (st, S')"
  shows "kept ok V S S' \<and> st \<noteq> Ok \<or>
    (\<exists>s1 s2 v ro rt. ok s1 \<and> V s1 = V (store S) \<and> V (store S) gid = Some v \<and> gv_roles v op = Some ro \<and>
       gv_roles v target = Some rt \<and> (ro \<noteq> 2 \<longrightarrow> ro = 1 \<and> rt = 0) \<and> run_state (repo_removeMember repo gid target) s1 = (Ok, s2) \<and>
       run_state (sync_or_reload repo now gid (gm_removeMember gid target)) (S\<lparr>store := s2\<rparr>) = (st, S'))"
  using assms(2,1) unfolding kickMember_def
  by (auto simp: kept_def roleFromUint_Some simp del: run_state_bind split: if_splits elim!: run_elims
      dest!: read_laws) (metis write_failed(1) word01)+

lemma setAdmin_cases:
  assumes "ok (store S)" and "run_state (setAdmin repo now gid op target enable) S = (st, S')"
  shows "kept ok V S S' \<and> st \<noteq> Ok \<or>
    (\<exists>s1 s2 v. ok s1 \<and> V s1 = V (store S) \<and> V (store S) gid = Some v \<and> gv_roles v op = Some 2 \<and> op \<noteq> target \<and>
       run_state (updateMemberRole repo gid target (if enable then 1 else 0)) s1 = (Ok, s2) \<and>
       run_state (sync_or_reload repo now gid (setMemberRole gid target (if enable then Admin else Member)))
         (S\<lparr>store := s2\<rparr>) = (st, S'))"
  using assms(2,1) unfolding setAdmin_def
  by (auto simp: kept_def roleFromUint_Some simp del: run_state_bind split: if_splits elim!: run_elims
      dest!: read_laws) (metis write_failed(3) word01)+

lemma transferOwner_cases:
  assumes "ok (store S)" and "run_state (transferOwner repo now gid old new) S = (st, S')"
  shows "kept ok V S S' \<and> st \<noteq> Ok \<or>
    (\<exists>s1 s2. ok s1 \<and> V s1 = V (store S) \<and> run_state (repo_transferOwner repo gid old new) s1 = (Ok, s2) \<and>
       run_state (sync_or_reload repo now gid (gm_transferOwner gid old new)) (S\<lparr>store := s2\<rparr>) = (st, S'))"
  using assms(2,1) unfolding transferOwner_def
  by (auto simp: kept_def simp del: run_state_bind split: if_splits elim!: run_elims dest!: read_laws) (metis write_failed(4) word01)+

lemma createGroup_cases:
  assumes "ok (store S)" and "run_state (createGroup repo now gid own name) S = ((st, r), S')"
  shows "kept ok V S S' \<and> st \<noteq> Ok \<or>
    (\<exists>s2 st2. run_state (createGroupWithOwner repo gid name own) (store S) = (Ok, s2) \<and>
       run_state (sync_or_reload repo now gid (gm_createGroup now gid own name)) (S\<lparr>store := s2\<rparr>) = (st2, S') \<and>
       (st2 = Ok \<longrightarrow> st = Ok))"
  using assms(2,1) unfolding createGroup_def
  by (auto simp: kept_def simp del: run_state_bind split: if_splits elim!: run_elims dest!: read_laws) (metis write_failed(5) word01)+

lemma inviteMember_cases:
  assumes "ok (store S)" and "run_state (inviteMember repo deps now gid inviter target) S = ((st, r), S')"
  shows "kept ok V S S' \<and> (\<forall>x. r = Some x \<longrightarrow> \<not> gi_joined x) \<or>
    (\<exists>s2 v st2. V (store S) gid = Some v \<and> gv_roles v inviter \<noteq> None \<and> findByAccountId deps target \<noteq> None \<and>
       (requireFriendForInvite deps \<longrightarrow> (\<exists>f. areFriends deps = Some f \<and> f inviter target)) \<and>
       card (dom (gv_roles v)) < maxGroupMembers deps \<and> gv_roles v target = None \<and> target \<noteq> [] \<and> ok s2 \<and>
       V s2 = (V (store S))(gid \<mapsto> v\<lparr>gv_roles := (gv_roles v)(target \<mapsto> 0)\<rparr>) \<and>
       run_state (sync_or_reload repo now gid (\<lambda>m. case joinGroup gid target m of (j, m') \<Rightarrow> (j = OK_JOINED, m')))
         (S\<lparr>store := s2\<rparr>) = (st2, S') \<and>
       (st2 = Ok \<longrightarrow> st = Ok \<and> (\<exists>x. r = Some x \<and> gi_joined x)))"
proof -
  obtain st1 g s1 where r1: "run_state (findGroupById repo gid) (store S) = ((st1, g), s1)" by (metis surj_pair)
  obtain m1 s2 where r2: "run_state (isMember repo gid inviter) s1 = (m1, s2)" by (metis surj_pair)
  obtain m2 s3 where r3: "run_state (isMember repo gid target) s2 = (m2, s3)" by (metis surj_pair)
  obtain st4 n s4 where r4: "run_state (countMembers repo gid) s3 = ((st4, n), s4)" by (metis surj_pair)
  obtain st5 s5 where r5: "run_state (repo_addMember repo gid target 0) s4 = (st5, s5)" by (metis surj_pair)
  note l1 = find_law [OF assms(1) r1]
  note l2 = member_law [OF l1 [THEN conjunct1] r2]
  note l3 = member_law [OF l2 [THEN conjunct1] r3]
  note l4 = count_law [OF l3 [THEN conjunct1] r4]
  note l5 = add_law [OF l4 [THEN conjunct1] r5 word01(1)]
  have V: "V s1 = V (store S)" "V s2 = V (store S)" "V s3 = V (store S)" "V s4 = V (store S)"
    using l1 l2 l3 l4 by auto
  have ok: "ok s1" "ok s2" "ok s3" "ok s4" "ok s5" "st5 \<noteq> Ok \<longrightarrow> V s5 = V (store S)"
    using l1 l2 l3 l4 l5 V by auto
  let ?refused = "gid = [] \<or> inviter = [] \<or> target = [] \<or> inviter = target \<or> st1 \<noteq> Ok \<or> gs_status (the g) = Dissolved \<or> \<not> m1 \<or>
    findByAccountId deps target = None \<or> m2 \<or> (requireFriendForInvite deps \<and> areFriends deps = None) \<or>
    (requireFriendForInvite deps \<and> \<not> the (areFriends deps) inviter target) \<or> st4 \<noteq> Ok \<or> the n \<ge> maxGroupMembers deps \<or> st5 \<noteq> Ok"
  have g: "st1 = Ok \<Longrightarrow> g \<noteq> None" "st4 = Ok \<Longrightarrow> n \<noteq> None" using l1 l4 by auto
  show ?thesis
  proof (cases ?refused)
    case True
    have "manager S' = manager S \<and> (store S' \<in> {store S, s1, s2, s3, s4} \<or> store S' = s5 \<and> st5 \<noteq> Ok) \<and>
        (\<forall>x. r = Some x \<longrightarrow> \<not> gi_joined x)"
      using assms(2) True r1 r2 r3 r4 r5 g
      by (simp add: inviteMember_def in_store_def split: if_splits option.splits) auto
    with ok V assms(1) show ?thesis by (auto simp: kept_def)
  next
    case False
    then obtain x k where x: "g = Some x" "n = Some k" using g by auto
    have "run_state (do {
          q \<leftarrow> sync_or_reload repo now gid (\<lambda>m. case joinGroup gid target m of (j, m') \<Rightarrow> (j = OK_JOINED, m'));
          if q \<noteq> Ok then ret (Internal, None)
          else ret (Ok, Some \<lparr>gi_joined = True, gi_alreadyIn = False, gi_groupId = gid, gi_targetAccountId = target\<rparr>)})
        (S\<lparr>store := s5\<rparr>) = ((st, r), S')"
    proof -
      have c: "gid \<noteq> []" "inviter \<noteq> []" "target \<noteq> []" "inviter \<noteq> target" "st1 = Ok" "gs_status x \<noteq> Dissolved" "m1"
        "findByAccountId deps target \<noteq> None" "\<not> m2" "st4 = Ok" "\<not> k \<ge> maxGroupMembers deps" "st5 = Ok" using False x by auto
      show ?thesis
      proof (cases "requireFriendForInvite deps")
        case True
        with False obtain f where "areFriends deps = Some f" "f inviter target" by auto
        with assms(2) c r1 r2 r3 r4 r5 x show ?thesis by (simp add: inviteMember_def in_store_def)
      next
        case False
        with assms(2) c r1 r2 r3 r4 r5 x show ?thesis by (simp add: inviteMember_def in_store_def)
      qed
    qed
    then obtain st2 where s2: "run_state (sync_or_reload repo now gid (\<lambda>m. case joinGroup gid target m of (j, m') \<Rightarrow> (j = OK_JOINED, m')))
        (S\<lparr>store := s5\<rparr>) = (st2, S')" "st2 = Ok \<longrightarrow> st = Ok \<and> (\<exists>x. r = Some x \<and> gi_joined x)"
      by (auto simp del: run_state_bind split: if_splits elim!: run_bindE)
    obtain v where "V (store S) gid = Some v" "gv_roles v inviter \<noteq> None" using l2 False V by auto
    with s2 l5 l4 ok False x V show ?thesis by auto
  qed
qed

lemma dissolveGroup_cases:
  assumes "ok (store S)" and "run_state (dissolveGroup repo gid op at) S = ((st, r), S')"
  shows "kept ok V S S' \<and> (\<forall>x. r = Some x \<longrightarrow> \<not> gd_dissolved x) \<or>
    (\<exists>v. V (store S) gid = Some v \<and> gv_owner v = op \<and> ok (store S') \<and> V (store S') = (V (store S))(gid := None) \<and>
       manager S' = snd (removeGroup gid (manager S)) \<and> st = Ok \<and> (\<exists>x. r = Some x \<and> gd_dissolved x))"
  using assms(2,1) unfolding dissolveGroup_def
  by (auto simp: kept_def simp del: run_state_bind split: if_splits option.splits elim!: run_elims
      dest!: read_laws dissolve_law [rotated])

text \<open>With the manager in line before, it is in line after, and the reload is never needed.\<close>

lemma synced_step:
  assumes "svc_ok ok V S" "ok s2" "gm_ok m'" "f (manager S) = (True, m')" "synced m' (V s2)"
    and "run_state (sync_or_reload repo now gid f) (S\<lparr>store := s2\<rparr>) = (st, S')"
  shows "svc_ok ok V S' \<and> st = Ok \<and> V (store S') = V s2"
  using assms sync_or_reload_ok [of f "S\<lparr>store := s2\<rparr>" m' repo now gid] by (auto simp: svc_ok_def)

lemma kickMember_effect:
  assumes S: "svc_ok ok V S" and run: "run_state (kickMember repo now gid op target) S = (st, S')"
    and other: "op \<noteq> target"
  shows "svc_ok ok V S' \<and>
    (if st = Ok
     then \<exists>v ro rt. V (store S) gid = Some v \<and> gv_roles v op = Some ro \<and> gv_roles v target = Some rt \<and> rt < ro \<and>
       V (store S') = (V (store S))(gid \<mapsto> v\<lparr>gv_roles := (gv_roles v)(target := None)\<rparr>)
     else V (store S') = V (store S))"
proof -
  have o: "ok (store S)" and y: "synced (manager S) (V (store S))" and g: "gm_ok (manager S)"
    using S by (auto simp: svc_ok_def)
  from kickMember_cases [OF o run] show ?thesis
  proof (elim disjE exE conjE)
    assume "kept ok V S S'" "st \<noteq> Ok"
    with kept_svc_ok [of ok V S S'] S show ?thesis by auto
  next
    fix s1 s2 v ro rt
    assume a: "ok s1" "V s1 = V (store S)" "V (store S) gid = Some v" "gv_roles v op = Some ro" "gv_roles v target = Some rt"
      "ro \<noteq> 2 \<longrightarrow> ro = 1 \<and> rt = 0" "run_state (repo_removeMember repo gid target) s1 = (Ok, s2)"
      and r: "run_state (sync_or_reload repo now gid (gm_removeMember gid target)) (S\<lparr>store := s2\<rparr>) = (st, S')"
    note vl = view_law [OF o a(3)]
    have not_owner: "gv_owner v \<noteq> target"
    proof
      assume "gv_owner v = target"
      with vl a(5) have "rt = 2" by (metis option.inject)
      with a(6) have "ro = 2" by auto
      with vl a(4) \<open>gv_owner v = target\<close> other show False by blast
    qed
    have ok2: "ok s2" and V2: "V s2 = (V (store S))(gid \<mapsto> v\<lparr>gv_roles := (gv_roles v)(target := None)\<rparr>)"
      using remove_law [OF a(1,7)] a(2,3) not_owner by auto
    have t: "target \<noteq> []" "rt \<noteq> 2" "rt \<le> 2" "gv_roles v target \<noteq> None" "target \<noteq> gv_owner v" "gid \<noteq> []"
      using vl not_owner a(5) by auto
    from gm_removeMember_synced [OF y a(3) t(4,5,6,1)] V2
    obtain m' where m': "gm_removeMember gid target (manager S) = (True, m')" "synced m' (V s2)" by auto
    have "rt < ro" using a(6) t(2,3) by (cases "ro = 2") auto
    then show ?thesis
      using synced_step [OF S ok2 gm_ok_removeMember [OF g m'(1)] m' r] a(3-5) V2 by auto
  qed
qed

text \<open>Leaving takes the member out of the memory and of the store.\<close>

lemma leave_effect:
  assumes S: "svc_ok ok V S" and m: "leaveGroup gid a (manager S) = (OK_LEFT, m)" "\<not> gm_isOwner gid a (manager S)"
    and run: "run_state (repo_removeMember repo gid a) (store S) = (Ok, s')"
  shows "svc_ok ok V (S\<lparr>store := s', manager := m\<rparr>)"
proof -
  have o: "ok (store S)" and y: "synced (manager S) (V (store S))" and g: "gm_ok (manager S)"
    using S by (auto simp: svc_ok_def)
  from remove_law [OF o run] obtain v where v: "V (store S) gid = Some v" "gv_roles v a \<noteq> None" "a \<noteq> gv_owner v \<Longrightarrow> ok s'"
    "V s' = (V (store S))(gid \<mapsto> v\<lparr>gv_roles := (gv_roles v)(a := None)\<rparr>)" by blast
  note vl = view_law [OF o v(1)]
  have ne: "gid \<noteq> []" "a \<noteq> []" using vl v(2) by auto
  have owner: "a \<noteq> gv_owner v"
  proof
    assume "a = gv_owner v"
    with vl have "gv_roles v a = Some 2" by blast
    obtain x where x: "map_of (groupsById (manager S)) gid = Some x" "agrees x v" using syncedE [OF y v(1)] .
    then have "map_option roleToUint (roleOf a x) = Some 2" using \<open>gv_roles v a = Some 2\<close> by (simp add: agrees_def)
    then obtain r where r: "roleOf a x = Some r" "roleToUint r = 2" by auto
    then have "r = Owner" by (cases r) auto
    with r x(1) m(2) show False by (simp add: gm_isOwner_def gm_roleOf_def)
  qed
  obtain m' where m': "gm_removeMember gid a (manager S) = (True, m')" "synced m' (V s')"
    using gm_removeMember_synced [OF y v(1,2) owner ne] v(4) by auto
  have "m = m'" using m(1) m'(1) ne by (auto simp: leaveGroup_def gm_removeMember_def split: option.splits prod.splits bool.splits)
  with gm_ok_removeMember [OF g m'(1)] m'(2) v(3) [OF owner] show ?thesis by (simp add: svc_ok_def)
qed

lemma setAdmin_effect:
  assumes S: "svc_ok ok V S" and run: "run_state (setAdmin repo now gid op target enable) S = (st, S')"
  shows "svc_ok ok V S' \<and>
    (if st = Ok
     then \<exists>v. V (store S) gid = Some v \<and> gv_owner v = op \<and> op \<noteq> target \<and> gv_roles v target \<noteq> None \<and>
       V (store S') = (V (store S))(gid \<mapsto> v\<lparr>gv_roles := (gv_roles v)(target \<mapsto> if enable then 1 else 0)\<rparr>)
     else V (store S') = V (store S))"
proof -
  have o: "ok (store S)" and y: "synced (manager S) (V (store S))" and g: "gm_ok (manager S)"
    using S by (auto simp: svc_ok_def)
  from setAdmin_cases [OF o run] show ?thesis
  proof (elim disjE exE conjE)
    assume "kept ok V S S'" "st \<noteq> Ok"
    with kept_svc_ok [of ok V S S'] S show ?thesis by auto
  next
    fix s1 s2 v
    let ?w = "if enable then 1 else 0 :: 8 word" and ?r = "if enable then Admin else Member"
    assume a: "ok s1" "V s1 = V (store S)" "V (store S) gid = Some v" "gv_roles v op = Some 2" "op \<noteq> target"
      "run_state (updateMemberRole repo gid target ?w) s1 = (Ok, s2)"
      and run2: "run_state (sync_or_reload repo now gid (setMemberRole gid target ?r)) (S\<lparr>store := s2\<rparr>) = (st, S')"
    have own: "gv_owner v = op" using view_law [OF o a(3)] a(4) by auto
    have "?w < 2" by simp
    from update_law [OF a(1,6) this] have ok2: "ok s2" and t: "gv_roles v target \<noteq> None"
      and V2: "V s2 = (V (store S))(gid \<mapsto> v\<lparr>gv_roles := (gv_roles v)(target \<mapsto> ?w)\<rparr>)"
      using a(2,3,5) own by auto
    have w: "?w = roleToUint ?r" and r: "?r \<noteq> Owner" and ne: "target \<noteq> gv_owner v" using own a(5) by auto
    from setMemberRole_synced [OF y a(3) t ne r] V2
    obtain m' where m': "setMemberRole gid target ?r (manager S) = (True, m')" "synced m' (V s2)" unfolding w by auto
    show ?thesis
      using synced_step [OF S ok2 gm_ok_setMemberRole [OF g m'(1)] m' run2] a(3,5) own t V2 by auto
  qed
qed

lemma transferOwner_effect:
  assumes S: "svc_ok ok V S" and run: "run_state (transferOwner repo now gid old new) S = (st, S')"
  shows "svc_ok ok V S' \<and>
    (if st = Ok
     then \<exists>v. V (store S) gid = Some v \<and> gv_owner v = old \<and> old \<noteq> new \<and> gv_roles v new \<noteq> None \<and>
       V (store S') = (V (store S))(gid \<mapsto> v\<lparr>gv_owner := new, gv_roles := (gv_roles v)(new \<mapsto> 2, old \<mapsto> 0)\<rparr>)
     else V (store S') = V (store S))"
proof -
  have o: "ok (store S)" and y: "synced (manager S) (V (store S))" and g: "gm_ok (manager S)"
    using S by (auto simp: svc_ok_def)
  from transferOwner_cases [OF o run] show ?thesis
  proof (elim disjE exE conjE)
    assume "kept ok V S S'" "st \<noteq> Ok"
    with kept_svc_ok [of ok V S S'] S show ?thesis by auto
  next
    fix s1 s2
    assume a: "ok s1" "V s1 = V (store S)" "run_state (repo_transferOwner repo gid old new) s1 = (Ok, s2)"
      and r: "run_state (sync_or_reload repo now gid (gm_transferOwner gid old new)) (S\<lparr>store := s2\<rparr>) = (st, S')"
    from transfer_law [OF a(1,3)] a(2) obtain v where ok2: "ok s2" and v: "V (store S) gid = Some v" "gv_owner v = old" "old \<noteq> new"
      "gv_roles v new \<noteq> None" and V2: "V s2 = (V (store S))(gid \<mapsto> v\<lparr>gv_owner := new, gv_roles := (gv_roles v)(new \<mapsto> 2, old \<mapsto> 0)\<rparr>)"
      by auto
    have "gv_roles v old = Some 2" using view_law [OF o v(1)] v(2) by auto
    then obtain m' where m': "gm_transferOwner gid old new (manager S) = (True, m')" "synced m' (V s2)"
      using gm_transferOwner_synced [OF y v(1,2) _ v(4,3)] V2 by auto
    show ?thesis
      using synced_step [OF S ok2 gm_ok_transferOwner [OF g m'(1)] m' r] v V2 by auto
  qed
qed

lemma createGroup_effect:
  assumes S: "svc_ok ok V S" and run: "run_state (createGroup repo now gid own name) S = ((st, r), S')"
  shows "svc_ok ok V S' \<and>
    (if st = Ok
     then V (store S) gid = None \<and> V (store S') = (V (store S))(gid \<mapsto> \<lparr>gv_name = name, gv_owner = own, gv_roles = [own \<mapsto> 2]\<rparr>)
     else V (store S') = V (store S))"
proof -
  have o: "ok (store S)" and y: "synced (manager S) (V (store S))" and g: "gm_ok (manager S)"
    using S by (auto simp: svc_ok_def)
  from createGroup_cases [OF o run] show ?thesis
  proof (elim disjE exE conjE)
    assume "kept ok V S S'" "st \<noteq> Ok"
    with kept_svc_ok [of ok V S S'] S show ?thesis by auto
  next
    fix s2 st2
    assume a: "run_state (createGroupWithOwner repo gid name own) (store S) = (Ok, s2)" "st2 = Ok \<longrightarrow> st = Ok"
      and r: "run_state (sync_or_reload repo now gid (gm_createGroup now gid own name)) (S\<lparr>store := s2\<rparr>) = (st2, S')"
    from create_law [OF o a(1)] have ok2: "ok s2" and n: "V (store S) gid = None" "gid \<noteq> []" "own \<noteq> []" "name \<noteq> []"
      and V2: "V s2 = (V (store S))(gid \<mapsto> \<lparr>gv_name = name, gv_owner = own, gv_roles = [own \<mapsto> 2]\<rparr>)" by auto
    obtain m' where m': "gm_createGroup now gid own name (manager S) = (True, m')" "synced m' (V s2)"
      using gm_createGroup_synced [OF y n] V2 by auto
    show ?thesis
      using synced_step [OF S ok2 gm_ok_create [OF g m'(1)] m' r] a(2) n V2 by auto
  qed
qed

lemma inviteMember_effect:
  assumes S: "svc_ok ok V S" and run: "run_state (inviteMember repo deps now gid inviter target) S = ((st, r), S')"
  shows "svc_ok ok V S' \<and>
    (if \<exists>x. r = Some x \<and> gi_joined x
     then \<exists>v. st = Ok \<and> V (store S) gid = Some v \<and> gv_roles v inviter \<noteq> None \<and> gv_roles v target = None \<and>
       (requireFriendForInvite deps \<longrightarrow> (\<exists>f. areFriends deps = Some f \<and> f inviter target)) \<and>
       card (dom (gv_roles v)) < maxGroupMembers deps \<and>
       V (store S') = (V (store S))(gid \<mapsto> v\<lparr>gv_roles := (gv_roles v)(target \<mapsto> 0)\<rparr>)
     else V (store S') = V (store S))"
proof -
  have o: "ok (store S)" and y: "synced (manager S) (V (store S))" and g: "gm_ok (manager S)"
    using S by (auto simp: svc_ok_def)
  from inviteMember_cases [OF o run] show ?thesis
  proof (elim disjE exE conjE)
    assume "kept ok V S S'" "\<forall>x. r = Some x \<longrightarrow> \<not> gi_joined x"
    with kept_svc_ok [of ok V S S'] S show ?thesis by auto
  next
    fix s2 v st2
    let ?f = "\<lambda>m. case joinGroup gid target m of (j, m') \<Rightarrow> (j = OK_JOINED, m')"
    assume v: "V (store S) gid = Some v" "gv_roles v inviter \<noteq> None" "gv_roles v target = None" "target \<noteq> []"
      and lim: "card (dom (gv_roles v)) < maxGroupMembers deps"
        "requireFriendForInvite deps \<longrightarrow> (\<exists>f. areFriends deps = Some f \<and> f inviter target)"
      and s2: "ok s2" and V2: "V s2 = (V (store S))(gid \<mapsto> v\<lparr>gv_roles := (gv_roles v)(target \<mapsto> 0)\<rparr>)"
      and r: "run_state (sync_or_reload repo now gid ?f) (S\<lparr>store := s2\<rparr>) = (st2, S')"
        "st2 = Ok \<longrightarrow> st = Ok \<and> (\<exists>x. r = Some x \<and> gi_joined x)"
    obtain m' where j: "joinGroup gid target (manager S) = (OK_JOINED, m')" "synced m' (V s2)"
      using joinGroup_synced [OF y v(1,3,4)] V2 by auto
    then have "?f (manager S) = (True, m')" by simp
    from synced_step [OF S s2 gm_ok_join [OF g j(1)] this j(2) r(1)] show ?thesis
      using r(2) v lim V2 by auto
  qed
qed

lemma dissolveGroup_effect:
  assumes S: "svc_ok ok V S" and run: "run_state (dissolveGroup repo gid op at) S = ((st, r), S')"
  shows "svc_ok ok V S' \<and>
    (if \<exists>x. r = Some x \<and> gd_dissolved x
     then \<exists>v. st = Ok \<and> V (store S) gid = Some v \<and> gv_owner v = op \<and> V (store S') = (V (store S))(gid := None)
     else V (store S') = V (store S))"
proof -
  have o: "ok (store S)" and y: "synced (manager S) (V (store S))" and g: "gm_ok (manager S)"
    using S by (auto simp: svc_ok_def)
  from dissolveGroup_cases [OF o run] show ?thesis
  proof (elim disjE exE conjE)
    assume "kept ok V S S'" "\<forall>x. r = Some x \<longrightarrow> \<not> gd_dissolved x"
    with kept_svc_ok [of ok V S S'] S show ?thesis by auto
  next
    fix v x
    assume "V (store S) gid = Some v" "gv_owner v = op" "ok (store S')" "V (store S') = (V (store S))(gid := None)"
      "manager S' = snd (removeGroup gid (manager S))" "st = Ok" "r = Some x" "gd_dissolved x"
    then show ?thesis
      using removeGroup_synced [OF y, of gid] gm_ok_removeGroup [OF g surjective_pairing, of gid] by (auto simp: svc_ok_def)
  qed
qed

end

subsection \<open>The service on the SQL repository\<close>

type_synonym group_system = "group_tables database group_state"

abbreviation group_system_ok :: "group_system \<Rightarrow> bool" where
  "group_system_ok \<equiv> svc_ok (\<lambda>s. store_ok (tables s)) (\<lambda>s. view (tables s))"

text \<open>
  Any operation of the service, with any failures in the database, apart from an account expelling
  itself, which the handler refuses; a member leaving, where the repository carried it out; and the environment, which decides the coming outcomes and the clock.
\<close>

inductive group_step :: "group_system \<Rightarrow> group_system \<Rightarrow> bool" where
  kick: "run_state (kickMember sql_group_repo now gid op target) S = (st, S') \<Longrightarrow> op \<noteq> target \<Longrightarrow> group_step S S'"
| admin: "run_state (setAdmin sql_group_repo now gid op target enable) S = (st, S') \<Longrightarrow> group_step S S'"
| transfer: "run_state (transferOwner sql_group_repo now gid old new) S = (st, S') \<Longrightarrow> group_step S S'"
| create: "run_state (createGroup sql_group_repo now newId own name) S = (r, S') \<Longrightarrow> group_step S S'"
| invite: "run_state (inviteMember sql_group_repo deps now gid inviter target) S = (r, S') \<Longrightarrow> group_step S S'"
| dissolve: "run_state (dissolveGroup sql_group_repo gid op at) S = (r, S') \<Longrightarrow> group_step S S'"
| leave: "leaveGroup gid a (manager S) = (OK_LEFT, m) \<Longrightarrow> \<not> gm_isOwner gid a (manager S) \<Longrightarrow>
    run_state (sql_removeMember gid a) (store S) = (Ok, D) \<Longrightarrow> group_step S (S\<lparr>store := D, manager := m\<rparr>)"
| environment: "group_step S (S\<lparr>store := \<lparr>tables = (tables (store S))\<lparr>clock := c\<rparr>, outcomes = os\<rparr>\<rparr>)"

definition group_system_new :: group_system where
  "group_system_new = \<lparr>store = \<lparr>tables = Tables_new, outcomes = []\<rparr>, manager = GroupManager_new\<rparr>"

lemma group_system_new_ok: "group_system_ok group_system_new"
proof -
  have "synced GroupManager_new (view Tables_new)"
    by (simp add: synced_def view_def Tables_new_def GroupManager_new_def)
  then show ?thesis by (simp add: svc_ok_def group_system_new_def store_ok_new gm_ok_new)
qed

lemma clock_view: "view (t\<lparr>clock := c\<rparr>) = view t" "store_ok (t\<lparr>clock := c\<rparr>) = store_ok t"
proof -
  have r: "role_in (t\<lparr>clock := c\<rparr>) = role_in t" by (simp add: role_in_def fun_eq_iff)
  show "view (t\<lparr>clock := c\<rparr>) = view t" 
    by (rule ext) (simp add: view_def r split: option.split)
  show "store_ok (t\<lparr>clock := c\<rparr>) = store_ok t" by (simp add: store_ok_def keys_ok_def is_active_def r)
qed

lemma group_step_ok: "group_step S S' \<Longrightarrow> group_system_ok S \<Longrightarrow> group_system_ok S'"
proof (induction rule: group_step.induct)
  case (kick now gid op target S st S')
  then show ?case using sql_store.kickMember_effect [OF kick(3,1)] by blast
next
  case (admin now gid op target enable S st S')
  then show ?case using sql_store.setAdmin_effect by blast
next
  case (transfer now gid old new S st S')
  then show ?case using sql_store.transferOwner_effect by blast
next
  case (create now newId own name S r S')
  then show ?case using sql_store.createGroup_effect by (metis surj_pair)
next
  case (invite deps now gid inviter target S r S')
  then show ?case using sql_store.inviteMember_effect by (metis surj_pair)
next
  case (dissolve gid op at S r S')
  then show ?case using sql_store.dissolveGroup_effect by (metis surj_pair)
next
  case (leave gid a S m D)
  then show ?case using sql_store.leave_effect [OF leave(4,1,2)] by (simp add: sql_group_repo_def)
next
  case (environment S c os)
  then show ?case by (simp add: svc_ok_def clock_view)
qed

lemma group_steps_ok: "group_step\<^sup>*\<^sup>* S S' \<Longrightarrow> group_system_ok S \<Longrightarrow> group_system_ok S'"
  by (induction rule: rtranclp_induct) (auto intro: group_step_ok)

subsection \<open>Properties\<close>

lemma group_system_matches:
  assumes "group_system_ok S"
  shows "exists_group gid (manager S) \<longleftrightarrow> is_active gid (tables (store S))"
    and "map_option roleToUint (gm_roleOf gid a (manager S)) = role_in (tables (store S)) gid a"
proof -
  define t m where "t = tables (store S)" and "m = manager S"
  from assms have ok: "store_ok t" and y: "synced m (view t)" by (simp_all add: svc_ok_def t_def m_def)
  show "exists_group gid (manager S) \<longleftrightarrow> is_active gid (tables (store S))"
    using synced_None [OF y, of gid] by (auto simp: exists_group_def is_active_view t_def m_def)
  have "map_option roleToUint (gm_roleOf gid a m) = role_in t gid a"
  proof (cases "view t gid")
    case None
    then have "role_in t gid a = None"
      using store_okD(4) [OF ok, of gid a] by (cases "role_in t gid a") (auto simp: is_active_view)
    with None synced_None [OF y, of gid] show ?thesis by (simp add: gm_roleOf_def)
  next
    case (Some v)
    from syncedE [OF y this] obtain g where "map_of (groupsById m) gid = Some g" "agrees g v" .
    with Some show ?thesis by (simp add: gm_roleOf_def agrees_def view_roles)
  qed
  then show "map_option roleToUint (gm_roleOf gid a (manager S)) = role_in (tables (store S)) gid a" by (simp add: t_def m_def)
qed



text \<open>A group of two on which the operations are tried out.\<close>

definition demo_deps :: group_deps where
  "demo_deps = \<lparr>findByAccountId = (\<lambda>a. Some \<lparr>up_accountId = a, up_username = a, up_nickname = [], up_avatarUrl = []\<rparr>),
     findByAccountIds = map (\<lambda>a. \<lparr>up_accountId = a, up_username = a, up_nickname = [], up_avatarUrl = []\<rparr>),
     areFriends = Some (\<lambda>a b. True), requireFriendForInvite = True, maxGroupMembers = 3\<rparr>"

definition demo_created :: group_system where
  "demo_created = snd (run_state (createGroup sql_group_repo 0 ''7'' ''amy'' ''Team'') group_system_new)"

definition demo_system :: group_system where
  "demo_system = snd (run_state (inviteMember sql_group_repo demo_deps 0 ''7'' ''amy'' ''bob'') demo_created)"

lemma demo_created_ok: "group_system_ok demo_created"
  using group_step_ok [OF group_step.create group_system_new_ok] unfolding demo_created_def by (metis prod.collapse)

lemma demo_system_ok: "group_system_ok demo_system"
  using group_step_ok [OF group_step.invite demo_created_ok] unfolding demo_system_def by (metis prod.collapse)

lemma role_in_view: "store_ok t \<Longrightarrow> role_in t gid a = (case view t gid of None \<Rightarrow> None | Some v \<Rightarrow> gv_roles v a)"
  using store_okD(4) [of t gid a]
  by (cases "role_in t gid a") (auto simp: is_active_view view_roles split: option.splits)



text \<open>
  An invitation adds an account only if the inviter is a member, the account is not, the friendship
  the configuration asks for exists, and the group is below its limit, so it never grows beyond it; the
  newcomer is an ordinary member and no other role changes.
\<close>

theorem invite_respects_limit:
  assumes "group_system_ok S" "run_state (inviteMember sql_group_repo deps now gid inviter target) S = ((st, r), S')"
  shows "let t = tables (store S); t' = tables (store S') in
    (if \<exists>x. r = Some x \<and> gi_joined x
     then st = Ok \<and> role_in t gid inviter \<noteq> None \<and> role_in t gid target = None \<and>
       (requireFriendForInvite deps \<longrightarrow> (\<exists>f. areFriends deps = Some f \<and> f inviter target)) \<and>
       role_in t' = (role_in t)(gid := (role_in t gid)(target \<mapsto> 0)) \<and>
       card {a. role_in t' gid a \<noteq> None} \<le> maxGroupMembers deps
     else role_in t' = role_in t)"
proof -
  note e = sql_store.inviteMember_effect [OF assms]
  define t t' where "t = tables (store S)" and "t' = tables (store S')"
  have s: "store_ok t" "store_ok t'" using assms(1) e by (auto simp: svc_ok_def t_def t'_def)
  show ?thesis
  proof (cases "\<exists>x. r = Some x \<and> gi_joined x")
    case False
    with e have "view t' = view t" by (simp add: t_def t'_def split: if_splits)
    then have "role_in t' = role_in t" by (simp add: fun_eq_iff role_in_view [OF s(1)] role_in_view [OF s(2)])
    with False show ?thesis unfolding t_def [symmetric] t'_def [symmetric] by (auto simp: Let_def)
  next
    case True
    with e obtain v where v: "st = Ok" "view t gid = Some v" "gv_roles v inviter \<noteq> None" "gv_roles v target = None"
      "requireFriendForInvite deps \<longrightarrow> (\<exists>f. areFriends deps = Some f \<and> f inviter target)"
      "card (dom (gv_roles v)) < maxGroupMembers deps"
      "view t' = (view t)(gid \<mapsto> v\<lparr>gv_roles := (gv_roles v)(target \<mapsto> 0)\<rparr>)"
      unfolding t_def [symmetric] t'_def [symmetric] by auto
    have r: "role_in t gid = gv_roles v" using v(2) by (simp add: view_roles)
    have r': "role_in t' = (role_in t)(gid := (role_in t gid)(target \<mapsto> 0))"
      using v(2,7) by (auto simp: fun_eq_iff role_in_view [OF s(1)] role_in_view [OF s(2)])
    have "{a. role_in t' gid a \<noteq> None} = insert target (dom (gv_roles v))" by (auto simp: r' r)
    moreover have "finite (dom (gv_roles v))" using store_ok_view [OF s(1) v(2)] by simp
    ultimately have "card {a. role_in t' gid a \<noteq> None} \<le> maxGroupMembers deps"
      using v(6) card_insert_le_m1 [of "maxGroupMembers deps" "dom (gv_roles v)" target] by (simp add: card_insert_if)
    with True v r r' show ?thesis unfolding t_def [symmetric] t'_def [symmetric] by (simp add: Let_def)
  qed
qed

theorem invite_respects_limit_witness:
  "role_in (tables (store demo_system)) ''7'' ''bob'' = Some 0 \<and> card {a. role_in (tables (store demo_system)) ''7'' a \<noteq> None} \<le> 3"
proof -
  obtain st x S' where r: "run_state (inviteMember sql_group_repo demo_deps 0 ''7'' ''amy'' ''bob'') demo_created = ((st, x), S')"
    by (metis surj_pair)
  have "map_option gi_joined (snd (fst (run_state (inviteMember sql_group_repo demo_deps 0 ''7'' ''amy'' ''bob'') demo_created))) = Some True"
    by code_simp
  with r have j: "\<exists>y. x = Some y \<and> gi_joined y" by auto
  have S': "S' = demo_system" using r by (simp add: demo_system_def)
  have m: "maxGroupMembers demo_deps = 3" by (simp add: demo_deps_def)
  note i = invite_respects_limit [OF demo_created_ok r, unfolded Let_def if_P [OF j]]
  then have "role_in (tables (store S')) = (role_in (tables (store demo_created)))
      (''7'' := (role_in (tables (store demo_created)) ''7'')(''bob'' \<mapsto> 0))" by blast
  then have "role_in (tables (store S')) ''7'' ''bob'' = Some 0" by simp
  moreover from i have "card {a. role_in (tables (store S')) ''7'' a \<noteq> None} \<le> maxGroupMembers demo_deps" by blast
  ultimately show ?thesis unfolding S' m by blast
qed

text \<open>
  The permission test lets the owner expel himself. The row is deleted and success is reported, but
  the manager refuses to remove an owner and the reload puts him back, so the owner of the running
  server has no row in the database.
\<close>

lemma owner_self_kick_diverges:
  "let (st, S') = run_state (kickMember sql_group_repo 0 ''7'' ''amy'' ''amy'') demo_system
   in st = Ok \<and> role_in (tables (store S')) ''7'' ''amy'' = None \<and> gm_roleOf ''7'' ''amy'' (manager S') = Some Owner"
  by code_simp

text \<open>
  A reload does not tell an empty answer from a failed query: if the query for the member rows
  fails, the reload reports success and the manager has lost every member except the owner.
\<close>

lemma reload_forgets_members:
  "let (st, S') = run_state (reloadGroup sql_group_repo 0 ''7'')
         (demo_system\<lparr>store := (store demo_system)\<lparr>outcomes := [None, None, None, Some 2013]\<rparr>\<rparr>)
   in st = Ok \<and> role_in (tables (store S')) ''7'' ''bob'' = Some 0 \<and> gm_roleOf ''7'' ''bob'' (manager S') = None"
  by code_simp

end
