(* ===== verification/JoinRequests.thy ===== *)
theory JoinRequests
  imports GroupService
begin

text \<open>
  Requests to join a group: the repository \<open>src/src/storage/sql/SqlGroupJoinRequestRepo.cpp\<close> over the table
  \<open>group_join_requests\<close>, and the service \<open>src/src/im/GroupJoinService.cpp\<close> that reviews requests and keeps the
  group manager in step. Identifiers of requests come from an auto-increment column; that a rolled back
  insert leaves a gap in them is not represented.
\<close>

subsection \<open>Types\<close>

datatype GroupJoinRequestStatus = Pending | Approved | Rejected

definition getGroupJoinRequestStatus :: "nat \<Rightarrow> GroupJoinRequestStatus option" where
  "getGroupJoinRequestStatus v =
     (if v = 0 then Some Pending else if v = 1 then Some Approved else if v = 2 then Some Rejected else None)"

record GroupJoinRequestRecord =
  rr_requestId :: nat
  rr_groupId :: groupId
  rr_applicantAccountId :: accountId
  rr_status :: GroupJoinRequestStatus
  rr_requestMessage :: string
  rr_reviewerAccountId :: accountId
  rr_createdAtMs :: int
  rr_reviewedAtMs :: int

record GroupJoinApplyResult =
  ja_submitted :: bool
  ja_alreadyPending :: bool
  ja_alreadyIn :: bool
  ja_groupId :: groupId
  ja_applicantAccountId :: accountId

record GroupJoinReviewResult =
  jv_approved :: bool
  jv_rejected :: bool
  jv_memberAdded :: bool
  jv_alreadyHandled :: bool
  jv_groupId :: groupId
  jv_applicantAccountId :: accountId

subsection \<open>Statements\<close>

definition select_active_group :: "groupId \<Rightarrow> group_tables \<Rightarrow> chat_group_row list" where
  "select_active_group gid t = map snd (filter (\<lambda>(g, row). cg_status row = 0) (select_group gid t))"

definition select_request :: "groupId \<Rightarrow> accountId \<Rightarrow> group_tables \<Rightarrow> join_request_row list" where
  "select_request gid a t = (case map_of (group_join_requests t) (gid, a) of None \<Rightarrow> [] | Some row \<Rightarrow> [row])"

text \<open>An update of the rows that satisfy the condition; the conditions below only select rows that change.\<close>

definition update_requests ::
  "(accountId \<Rightarrow> join_request_row \<Rightarrow> bool) \<Rightarrow> (join_request_row \<Rightarrow> join_request_row) \<Rightarrow> group_tables \<Rightarrow> int + nat \<times> group_tables" where
  "update_requests P f t =
     Inr (length (filter (\<lambda>((g, a), row). P a row) (group_join_requests t)),
          t\<lparr>group_join_requests := map (\<lambda>((g, a), row). ((g, a), if P a row then f row else row)) (group_join_requests t)\<rparr>)"

definition reopen_request :: "string \<Rightarrow> int \<Rightarrow> nat \<Rightarrow> group_tables \<Rightarrow> int + nat \<times> group_tables" where
  "reopen_request message nowMs rid =
     update_requests (\<lambda>a row. jr_id row = rid)
       (\<lambda>row. row\<lparr>jr_status := 0, jr_request_message := message, jr_reviewer := [], jr_created_at_ms := nowMs, jr_reviewed_at_ms := 0\<rparr>)"

definition insert_request :: "groupId \<Rightarrow> accountId \<Rightarrow> string \<Rightarrow> int \<Rightarrow> group_tables \<Rightarrow> int + nat \<times> group_tables" where
  "insert_request gid a message nowMs t =
     (if map_of (group_join_requests t) (gid, a) \<noteq> None then Inl 1062
      else Inr (1, t\<lparr>group_join_requests := emplace (gid, a)
             \<lparr>jr_id = next_request_id t, jr_status = 0, jr_request_message = message, jr_reviewer = [],
              jr_created_at_ms = nowMs, jr_reviewed_at_ms = 0\<rparr> (group_join_requests t),
             next_request_id := next_request_id t + 1\<rparr>))"

text \<open>\<open>UPDATE group_join_requests SET status=s ... WHERE id=? AND applicant_account_id=? AND status=0\<close>.\<close>

definition settle_request :: "nat \<Rightarrow> accountId \<Rightarrow> int \<Rightarrow> nat \<Rightarrow> accountId \<Rightarrow> group_tables \<Rightarrow> int + nat \<times> group_tables" where
  "settle_request st reviewer nowMs rid applicant =
     update_requests (\<lambda>a row. jr_id row = rid \<and> a = applicant \<and> jr_status row = 0)
       (\<lambda>row. row\<lparr>jr_status := st, jr_reviewer := reviewer, jr_reviewed_at_ms := nowMs\<rparr>)"

text \<open>The cursor of a new member starts at the head of the group, so that its history is not unread.\<close>

definition insert_cursor_at_head :: "accountId \<Rightarrow> groupId \<Rightarrow> group_tables \<Rightarrow> int + nat \<times> group_tables" where
  "insert_cursor_at_head a gid t =
     (case map_of (group_heads t) gid of
        None \<Rightarrow> Inr (0, t)
      | Some h \<Rightarrow>
          if map_of (group_cursors t) (a, gid) \<noteq> None then Inl 1062
          else Inr (1, t\<lparr>group_cursors := emplace (a, gid)
                 \<lparr>cur_last_read_seq = hd_last_seq h, cur_last_read_msg_id = hd_last_msg_id h, cur_last_read_at_ms = 0,
                  cur_joined_seq = hd_last_seq h\<rparr> (group_cursors t)\<rparr>))"

text \<open>The rows the clean-up deletes: handled before the cut-off, the oldest first, at most \<open>limit\<close>.\<close>

definition handled_before :: "int \<Rightarrow> nat \<Rightarrow> group_tables \<Rightarrow> (groupId \<times> accountId) list" where
  "handled_before cutoff limit t =
     map fst (take limit (sort_key (\<lambda>(k, row). jr_reviewed_at_ms row)
       (filter (\<lambda>(k, row). (jr_status row = 1 \<or> jr_status row = 2) \<and> 0 < jr_reviewed_at_ms row \<and> jr_reviewed_at_ms row < cutoff)
         (group_join_requests t))))"

definition delete_handled :: "int \<Rightarrow> nat \<Rightarrow> group_tables \<Rightarrow> int + nat \<times> group_tables" where
  "delete_handled cutoff limit t =
     (let ks = handled_before cutoff limit t
      in Inr (length ks, t\<lparr>group_join_requests := filter (\<lambda>(k, row). k \<notin> set ks) (group_join_requests t)\<rparr>))"

subsection \<open>The repository\<close>

definition apply_result :: "bool \<Rightarrow> bool \<Rightarrow> bool \<Rightarrow> groupId \<Rightarrow> accountId \<Rightarrow> GroupJoinApplyResult repo_value" where
  "apply_result submitted pending already gid a =
     (Ok, Some \<lparr>ja_submitted = submitted, ja_alreadyPending = pending, ja_alreadyIn = already, ja_groupId = gid, ja_applicantAccountId = a\<rparr>)"

definition sql_submit :: "groupId \<Rightarrow> accountId \<Rightarrow> string \<Rightarrow> int \<Rightarrow> GroupJoinApplyResult repo_value gdb" where
  "sql_submit gid a message nowMs =
     (if gid = [] \<or> a = [] then ret (InvalidArgument, None)
      else do {
        c \<leftarrow> acquire;
        if \<not> c then ret (Internal, None)
        else with_transaction (SqlError, None) (do {
          r1 \<leftarrow> queryPrepared (select_active_group gid);
          case r1 of Inl _ \<Rightarrow> ret (Inl (SqlError, None)) | Inr gs \<Rightarrow>
          if gs = [] then ret (Inl (GroupNotFound, None)) else do {
          r2 \<leftarrow> queryPrepared (select_member gid a);
          case r2 of Inl _ \<Rightarrow> ret (Inl (SqlError, None)) | Inr ms \<Rightarrow>
          if ms \<noteq> [] then ret (Inl (apply_result False False True [] [])) else do {
          r3 \<leftarrow> queryPrepared (select_request gid a);
          case r3 of Inl _ \<Rightarrow> ret (Inl (SqlError, None))
          | Inr (row # _) \<Rightarrow>
              (case getGroupJoinRequestStatus (jr_status row) of
                 None \<Rightarrow> ret (Inl (Internal, None))
               | Some Pending \<Rightarrow> ret (Inl (apply_result False True False gid a))
               | Some _ \<Rightarrow> do {
                   u \<leftarrow> executePrepared (reopen_request message nowMs (jr_id row));
                   case u of Inl _ \<Rightarrow> ret (Inl (SqlError, None)) | Inr n \<Rightarrow>
                   if n = 0 then ret (Inl (NotFound, None)) else ret (Inr (apply_result True False False gid a))})
          | Inr [] \<Rightarrow> do {
              i \<leftarrow> executePrepared (insert_request gid a message nowMs);
              case i of Inl _ \<Rightarrow> ret (Inl (SqlError, None)) | Inr _ \<Rightarrow> ret (Inr (apply_result True False False gid a))}}}})})"

definition sql_listPending :: "groupId \<Rightarrow> nat \<Rightarrow> GroupJoinRequestRecord list repo_value gdb" where
  "sql_listPending gid limit =
     (if gid = [] \<or> limit = 0 then ret (InvalidArgument, None)
      else do {
        c \<leftarrow> acquire;
        if \<not> c then ret (Internal, None)
        else do {
          r \<leftarrow> queryPrepared (\<lambda>t. take (if limit > 100 then 100 else limit)
                 (sort_key (\<lambda>(k, row). jr_created_at_ms row) (sort_key (\<lambda>(k, row). jr_id row)
                   (filter (\<lambda>((g, a), row). g = gid \<and> jr_status row = 0) (group_join_requests t)))));
          case r of Inl _ \<Rightarrow> ret (SqlError, None) | Inr rows \<Rightarrow>
          ret (Ok, Some (map (\<lambda>((g, a), row).
            \<lparr>rr_requestId = jr_id row, rr_groupId = getString g, rr_applicantAccountId = getString a, rr_status = Pending,
             rr_requestMessage = getString (jr_request_message row), rr_reviewerAccountId = getString (jr_reviewer row),
             rr_createdAtMs = jr_created_at_ms row, rr_reviewedAtMs = jr_reviewed_at_ms row\<rparr>) rows))}})"

definition review_result :: "bool \<Rightarrow> bool \<Rightarrow> bool \<Rightarrow> bool \<Rightarrow> groupId \<Rightarrow> accountId \<Rightarrow> GroupJoinReviewResult" where
  "review_result approved rejected added handled gid a =
     \<lparr>jv_approved = approved, jv_rejected = rejected, jv_memberAdded = added, jv_alreadyHandled = handled, jv_groupId = gid, jv_applicantAccountId = a\<rparr>"

text \<open>The part of \<open>review\<close> after a pending request was found, for a rejection and for an approval.\<close>

definition reject_request ::
  "groupId \<Rightarrow> accountId \<Rightarrow> accountId \<Rightarrow> int \<Rightarrow> nat \<Rightarrow> (GroupJoinReviewResult repo_value + GroupJoinReviewResult repo_value) gdb" where
  "reject_request gid a reviewer nowMs rid = do {
     u \<leftarrow> executePrepared (settle_request 2 reviewer nowMs rid a);
     case u of Inl _ \<Rightarrow> ret (Inl (SqlError, None)) | Inr n \<Rightarrow>
     if n = 0 then ret (Inl (JoinRequestNotFound, None))
     else ret (Inr (Ok, Some (review_result False True False False gid a)))}"

definition approve_request ::
  "groupId \<Rightarrow> accountId \<Rightarrow> accountId \<Rightarrow> nat \<Rightarrow> int \<Rightarrow> nat \<Rightarrow> (GroupJoinReviewResult repo_value + GroupJoinReviewResult repo_value) gdb" where
  "approve_request gid a reviewer maxMembers nowMs rid = do {
     c \<leftarrow> queryPrepared (\<lambda>t. [length (members_of gid t)]);
     case c of Inl _ \<Rightarrow> ret (Inl (SqlError, None)) | Inr counts \<Rightarrow>
     if counts = [] then ret (Inl (NotFound, None))
     else if hd counts \<ge> maxMembers then ret (Inl (GroupMemberLimitReach, None)) else do {
     i \<leftarrow> executePrepared (insert_member_if_active gid a 0);
     case i of
       Inl _ \<Rightarrow>
         if mapSqlErrorToRepoStatus i = AlreadyExists then do {
           u \<leftarrow> executePrepared (settle_request 1 reviewer nowMs rid a);
           case u of Inl _ \<Rightarrow> ret (Inl (SqlError, None)) | Inr n \<Rightarrow>
           if n = 0 then ret (Inl (JoinRequestNotFound, None))
           else ret (Inl (Ok, Some (review_result False False False True [] [])))}
         else ret (Inl (SqlError, None))
     | Inr n1 \<Rightarrow>
         if n1 = 0 then ret (Inl (GroupNotFound, None)) else do {
         k \<leftarrow> executePrepared (insert_cursor_at_head a gid);
         case k of Inl _ \<Rightarrow> ret (Inl (SqlError, None)) | Inr n2 \<Rightarrow>
         if n2 = 0 then ret (Inl (NotFound, None)) else do {
         u \<leftarrow> executePrepared (settle_request 1 reviewer nowMs rid a);
         case u of Inl _ \<Rightarrow> ret (Inl (SqlError, None)) | Inr n3 \<Rightarrow>
         if n3 = 0 then ret (Inl (JoinRequestNotFound, None))
         else ret (Inr (Ok, Some (review_result True False True False gid a)))}}}}"

definition review_pending ::
  "groupId \<Rightarrow> accountId \<Rightarrow> accountId \<Rightarrow> bool \<Rightarrow> nat \<Rightarrow> int \<Rightarrow> nat \<Rightarrow> (GroupJoinReviewResult repo_value + GroupJoinReviewResult repo_value) gdb" where
  "review_pending gid a reviewer approve maxMembers nowMs rid =
     (if \<not> approve then reject_request gid a reviewer nowMs rid else approve_request gid a reviewer maxMembers nowMs rid)"

definition sql_review :: "groupId \<Rightarrow> accountId \<Rightarrow> accountId \<Rightarrow> bool \<Rightarrow> nat \<Rightarrow> int \<Rightarrow> GroupJoinReviewResult repo_value gdb" where
  "sql_review gid a reviewer approve maxMembers nowMs =
     (if gid = [] \<or> a = [] \<or> reviewer = [] then ret (InvalidArgument, None)
      else do {
        c \<leftarrow> acquire;
        if \<not> c then ret (Internal, None)
        else with_transaction (SqlError, None) (do {
          r1 \<leftarrow> queryPrepared (select_active_group gid);
          case r1 of Inl _ \<Rightarrow> ret (Inl (SqlError, None)) | Inr gs \<Rightarrow>
          if gs = [] then ret (Inl (GroupNotFound, None)) else do {
          r2 \<leftarrow> queryPrepared (select_member gid reviewer);
          case r2 of Inl _ \<Rightarrow> ret (Inl (SqlError, None)) | Inr ms \<Rightarrow>
          if ms = [] then ret (Inl (UserNotFound, None))
          else if gmr_role (hd ms) \<noteq> 1 \<and> gmr_role (hd ms) \<noteq> 2 then ret (Inl (NoPermission, None)) else do {
          r3 \<leftarrow> queryPrepared (select_request gid a);
          case r3 of Inl _ \<Rightarrow> ret (Inl (SqlError, None)) | Inr rs \<Rightarrow>
          if rs = [] then ret (Inl (JoinRequestNotFound, None)) else
          (case getGroupJoinRequestStatus (jr_status (hd rs)) of
             None \<Rightarrow> ret (Inl (Internal, None))
           | Some status \<Rightarrow>
               if status \<noteq> Pending then
                 (if status = (if approve then Approved else Rejected)
                  then ret (Inl (Ok, Some (review_result approve (\<not> approve) False True gid a)))
                  else ret (Inl (AlreadyHandled, Some (review_result (\<not> approve) approve False True gid a))))
               else review_pending gid a reviewer approve maxMembers nowMs (jr_id (hd rs)))}}})})"

definition sql_deleteHandledBefore :: "int \<Rightarrow> nat \<Rightarrow> nat repo_value gdb" where
  "sql_deleteHandledBefore cutoff limit =
     (if cutoff < 0 then ret (InvalidArgument, None)
      else do {
        c \<leftarrow> acquire;
        if \<not> c then ret (Internal, None)
        else do {
          r \<leftarrow> executePrepared (delete_handled cutoff limit);
          case r of Inl _ \<Rightarrow> ret (SqlError, None) | Inr n \<Rightarrow> ret (Ok, Some n)}})"

subsection \<open>The service\<close>

definition applyToJoin :: "group_deps \<Rightarrow> groupId \<Rightarrow> accountId \<Rightarrow> string \<Rightarrow> int \<Rightarrow> (group_tables database, GroupJoinApplyResult repo_value) svc" where
  "applyToJoin deps gid a message nowMs =
     (if gid = [] \<or> a = [] then ret (InvalidArgument, None)
      else if findByAccountId deps a = None then ret (UserNotFound, None)
      else in_store (sql_submit gid a message nowMs))"

definition listPendingRequests :: "groupId \<Rightarrow> accountId \<Rightarrow> nat \<Rightarrow> (group_tables database, GroupJoinRequestRecord list repo_value) svc" where
  "listPendingRequests gid op limit =
     (if gid = [] \<or> op = [] then ret (InvalidArgument, None)
      else do {
        (st, r) \<leftarrow> in_store (sql_getMemberRole gid op);
        if st \<noteq> Ok then ret (st, None)
        else case r of None \<Rightarrow> ret (Internal, None) | Some w \<Rightarrow>
        if roleFromUint w \<noteq> Some Owner \<and> roleFromUint w \<noteq> Some Admin then ret (NoPermission, None)
        else in_store (sql_listPending gid limit)})"

text \<open>The private \<open>reloadGroup\<close> of this class repeats that of \<open>GroupService\<close>.\<close>

definition join_reloadGroup :: "u64 \<Rightarrow> groupId \<Rightarrow> (group_tables database, RepoStatus) svc" where
  "join_reloadGroup = reloadGroup sql_group_repo"

definition reviewRequest :: "group_deps \<Rightarrow> u64 \<Rightarrow> groupId \<Rightarrow> accountId \<Rightarrow> accountId \<Rightarrow> bool \<Rightarrow> int \<Rightarrow> (group_tables database, GroupJoinReviewResult repo_value) svc" where
  "reviewRequest deps clockMs gid a reviewer approve nowMs =
     (if gid = [] \<or> a = [] \<or> reviewer = [] then ret (InvalidArgument, None)
      else do {
        (st, v) \<leftarrow> in_store (sql_review gid a reviewer approve (maxGroupMembers deps) nowMs);
        if st \<noteq> Ok then ret (st, v)
        else case v of None \<Rightarrow> ret (Internal, None) | Some x \<Rightarrow>
        if jv_approved x \<and> jv_memberAdded x then do {
          j \<leftarrow> in_manager (joinGroup gid a);
          if j \<noteq> OK_JOINED then do {
            rl \<leftarrow> join_reloadGroup clockMs gid;
            if rl \<noteq> Ok then ret (Internal, None) else ret (st, v)}
          else ret (st, v)}
        else ret (st, v)})"

subsection \<open>What the statements do\<close>

definition request_status :: "group_tables \<Rightarrow> groupId \<times> accountId \<Rightarrow> GroupJoinRequestStatus option" where
  "request_status t k = Option.bind (map_of (group_join_requests t) k) (getGroupJoinRequestStatus \<circ> jr_status)"

definition requests_ok :: "group_tables \<Rightarrow> bool" where
  "requests_ok t \<longleftrightarrow> distinct (map fst (group_join_requests t)) \<and> distinct (map (jr_id \<circ> snd) (group_join_requests t)) \<and>
     (\<forall>(k, row) \<in> set (group_join_requests t). jr_id row < next_request_id t \<and> jr_status row \<le> 2)"

text \<open>Two states of the database that differ at most in the requests.\<close>

definition same_groups :: "group_tables \<Rightarrow> group_tables \<Rightarrow> bool" where
  "same_groups t t' \<longleftrightarrow> chat_groups t' = chat_groups t \<and> group_members t' = group_members t \<and>
     group_heads t' = group_heads t \<and> group_cursors t' = group_cursors t \<and> group_messages t' = group_messages t"

lemma map_of_map_row: "map_of (map (\<lambda>((g, a), row). ((g, a), f a row)) al) (g, a) = map_option (f a) (map_of al (g, a))"
  by (induction al) auto

lemma ids_unique:
  assumes "requests_ok t" "map_of (group_join_requests t) k = Some row" "map_of (group_join_requests t) k' = Some row'" "jr_id row' = jr_id row"
  shows "k' = k"
proof -
  have "inj_on (jr_id \<circ> snd) (set (group_join_requests t))" using assms(1) by (simp add: requests_ok_def distinct_map)
  from inj_onD [OF this _ map_of_SomeD [OF assms(3)] map_of_SomeD [OF assms(2)]] assms(4) show ?thesis by simp
qed

lemma update_requests_effect:
  assumes "requests_ok t" "map_of (group_join_requests t) (gid, a) = Some row" "P a row"
    and "\<And>a' row'. P a' row' \<Longrightarrow> jr_id row' = jr_id row" and "jr_id (f row) = jr_id row" "jr_status (f row) \<le> 2"
    and "update_requests P f t = Inr (n, t')"
  shows "map_of (group_join_requests t') = (map_of (group_join_requests t))((gid, a) \<mapsto> f row) \<and> same_groups t t' \<and> requests_ok t'"
proof -
  let ?g = "\<lambda>((g, a), row). ((g, a), if P a row then f row else row)"
  have t': "t' = t\<lparr>group_join_requests := map ?g (group_join_requests t)\<rparr>" using assms(7) by (simp add: update_requests_def)
  have m: "map_of (group_join_requests t') (g', a') = map_option (\<lambda>row. if P a' row then f row else row) (map_of (group_join_requests t) (g', a'))" for g' a'
    by (simp add: t' map_of_map_row [where f = "\<lambda>a row. if P a row then f row else row"])
  have "map_of (group_join_requests t') k' = ((map_of (group_join_requests t))((gid, a) \<mapsto> f row)) k'" for k'
  proof (cases k')
    case (Pair g' a')
    show ?thesis
    proof (cases "k' = (gid, a)")
      case True
      then show ?thesis using assms(2,3) m [of gid a] by simp
    next
      case False
      have "\<not> P a' row'" if "map_of (group_join_requests t) (g', a') = Some row'" for row'
        using ids_unique [OF assms(1,2) that] assms(4) False Pair by auto
      then have "map_option (\<lambda>row. if P a' row then f row else row) (map_of (group_join_requests t) (g', a')) = map_of (group_join_requests t) (g', a')"
        by (cases "map_of (group_join_requests t) (g', a')") auto
      with False m [of g' a'] Pair show ?thesis by auto
    qed
  qed
  moreover have "requests_ok t'"
  proof -
    have fst: "map fst (map ?g xs) = map fst xs" for xs by (induction xs) auto
    have row: "jr_id row' = jr_id row \<and> row' = row \<or> \<not> P a' row'" if "((g', a'), row') \<in> set (group_join_requests t)" for g' a' row'
    proof -
      have r: "map_of (group_join_requests t) (g', a') = Some row'" using that assms(1) by (simp add: requests_ok_def)
      show ?thesis
      proof (cases "P a' row'")
        case True
        from ids_unique [OF assms(1,2) r assms(4) [OF True]] r assms(2) show ?thesis by simp
      qed simp
    qed
    have "jr_id (f row') = jr_id row'" if "((g', a'), row') \<in> set (group_join_requests t)" "P a' row'" for g' a' row'
      using row [OF that(1)] that(2) assms(5) by auto
    then have ids: "map (jr_id \<circ> snd) (map ?g (group_join_requests t)) = map (jr_id \<circ> snd) (group_join_requests t)" by auto
    have b: "jr_id r < next_request_id t \<and> jr_status r \<le> 2" if "((g', a'), r) \<in> set (group_join_requests t)" for g' a' r
      using assms(1) that by (auto simp: requests_ok_def)
    have b': "case x of (k, r) \<Rightarrow> jr_id r < next_request_id t \<and> jr_status r \<le> 2" if "x \<in> set (map ?g (group_join_requests t))" for x
    proof -
      from that obtain g' a' r' where r': "((g', a'), r') \<in> set (group_join_requests t)" "x = ((g', a'), if P a' r' then f r' else r')" by auto
      with row [OF r'(1)] b [OF r'(1)] assms(5,6) show ?thesis by auto
    qed
    have "distinct (map fst (map ?g (group_join_requests t)))" "distinct (map (jr_id \<circ> snd) (map ?g (group_join_requests t)))"
      unfolding fst ids using assms(1) by (simp_all add: requests_ok_def)
    with b' show ?thesis unfolding requests_ok_def t' by (simp del: map_map set_map)
  qed
  ultimately show ?thesis by (auto simp: t' same_groups_def)
qed

lemma settle_request_effect:
  assumes "requests_ok t" "map_of (group_join_requests t) (gid, a) = Some row" "jr_status row = 0" "st \<le> 2"
    and "settle_request st reviewer now (jr_id row) a t = Inr (n, t')"
  shows "map_of (group_join_requests t') = (map_of (group_join_requests t))
      ((gid, a) \<mapsto> row\<lparr>jr_status := st, jr_reviewer := reviewer, jr_reviewed_at_ms := now\<rparr>) \<and> same_groups t t' \<and> requests_ok t'"
  using assms(3-5) unfolding settle_request_def
  by (intro update_requests_effect [OF assms(1,2), where n = n]) auto

lemma reopen_request_effect:
  assumes "requests_ok t" "map_of (group_join_requests t) (gid, a) = Some row"
    and "reopen_request message now (jr_id row) t = Inr (n, t')"
  shows "map_of (group_join_requests t') = (map_of (group_join_requests t))
      ((gid, a) \<mapsto> row\<lparr>jr_status := 0, jr_request_message := message, jr_reviewer := [], jr_created_at_ms := now, jr_reviewed_at_ms := 0\<rparr>) \<and>
    same_groups t t' \<and> requests_ok t'"
  using assms(3) unfolding reopen_request_def
  by (intro update_requests_effect [OF assms(1,2), where n = n]) auto

lemma emplace_fresh: "map_of al k = None \<Longrightarrow> emplace k v al = al @ [(k, v)]"
  by (induction al) (auto simp: emplace_def)

lemma insert_request_effect:
  assumes "requests_ok t" "insert_request gid a message now t = Inr (n, t')"
  shows "map_of (group_join_requests t) (gid, a) = None \<and> same_groups t t' \<and> requests_ok t' \<and>
    map_of (group_join_requests t') = (map_of (group_join_requests t))
      ((gid, a) \<mapsto> \<lparr>jr_id = next_request_id t, jr_status = 0, jr_request_message = message, jr_reviewer = [], jr_created_at_ms = now, jr_reviewed_at_ms = 0\<rparr>)"
proof -
  have n: "map_of (group_join_requests t) (gid, a) = None" using assms(2) by (auto simp: insert_request_def split: if_splits)
  note e = emplace_fresh [OF n]
  have "next_request_id t \<notin> (jr_id \<circ> snd) ` set (group_join_requests t)"
    using assms(1) by (fastforce simp: requests_ok_def)
  moreover have "(gid, a) \<notin> fst ` set (group_join_requests t)" using n by (simp add: map_of_eq_None_iff)
  ultimately have "requests_ok t'"
    using assms n by (auto simp: insert_request_def requests_ok_def e less_Suc_eq)
  with assms n show ?thesis by (auto simp: insert_request_def same_groups_def)
qed

lemma select_active_group_ne: "select_active_group gid t \<noteq> [] \<longleftrightarrow> is_active gid t"
  by (auto simp: select_active_group_def select_group_def is_active_def split: option.splits)

lemma select_member_hd: "select_member gid a t \<noteq> [] \<Longrightarrow> role_in t gid a = Some (gmr_role (hd (select_member gid a t)))"
  by (auto simp: select_member_def role_in_def split: option.splits)

lemma select_member_Nil: "select_member gid a t = [] \<longleftrightarrow> role_in t gid a = None"
  by (auto simp: select_member_def role_in_def split: option.splits)

lemma select_request_hd: "select_request gid a t \<noteq> [] \<Longrightarrow> map_of (group_join_requests t) (gid, a) = Some (hd (select_request gid a t))"
  by (auto simp: select_request_def split: option.splits)

lemma select_request_Nil: "select_request gid a t = [] \<longleftrightarrow> map_of (group_join_requests t) (gid, a) = None"
  by (auto simp: select_request_def split: option.splits)

lemma select_request_Cons: "select_request gid a t = row # rows \<Longrightarrow> map_of (group_join_requests t) (gid, a) = Some row"
  by (auto simp: select_request_def split: option.splits)

lemma status_Pending: "getGroupJoinRequestStatus v = Some Pending \<longleftrightarrow> v = 0"
  by (simp add: getGroupJoinRequestStatus_def)

lemma sql_submit_cases:
  assumes "may t (sql_submit gid a message now) (st, r) t'"
  obtains (none) "t' = t" "\<forall>x. st = Ok \<and> r = Some x \<longrightarrow> \<not> ja_submitted x"
    | (again) row n where "is_active gid t" "role_in t gid a = None" "map_of (group_join_requests t) (gid, a) = Some row" "jr_status row \<noteq> 0"
        "reopen_request message now (jr_id row) t = Inr (n, t')" "(st, r) = apply_result True False False gid a"
    | (first) n where "is_active gid t" "role_in t gid a = None" "insert_request gid a message now t = Inr (n, t')"
        "(st, r) = apply_result True False False gid a"
  using assms unfolding sql_submit_def
  by (auto simp: select_active_group_ne [symmetric] select_member_Nil [symmetric] apply_result_def status_Pending [symmetric]
      split: if_splits list.splits option.splits GroupJoinRequestStatus.splits dest!: select_request_Cons)

lemma reject_request_cases:
  assumes "may t (reject_request gid a reviewer now rid) x t'"
  shows "(\<exists>r. x = Inl r \<and> fst r \<noteq> Ok) \<or>
    (\<exists>n. settle_request 2 reviewer now rid a t = Inr (n, t') \<and> x = Inr (Ok, Some (review_result False True False False gid a)))"
  using assms unfolding reject_request_def by (auto split: if_splits)

lemma approve_request_cases:
  assumes "may t (approve_request gid a reviewer mx now rid) x t'"
  shows "(\<exists>r. x = Inl r \<and> (fst r = Ok \<longrightarrow> snd r = Some (review_result False False False True [] []))) \<or>
    (\<exists>n1 t1 n2 t2 n3. length (members_of gid t) < mx \<and> insert_member_if_active gid a 0 t = Inr (n1, t1) \<and> n1 \<noteq> 0 \<and>
       insert_cursor_at_head a gid t1 = Inr (n2, t2) \<and> n2 \<noteq> 0 \<and> settle_request 1 reviewer now rid a t2 = Inr (n3, t') \<and>
       x = Inr (Ok, Some (review_result True False True False gid a)))"
  using assms unfolding approve_request_def by (auto split: if_splits)

definition may_review :: "group_tables \<Rightarrow> groupId \<Rightarrow> accountId \<Rightarrow> accountId \<Rightarrow> join_request_row \<Rightarrow> bool" where
  "may_review t gid a reviewer row \<longleftrightarrow> is_active gid t \<and> (role_in t gid reviewer = Some 1 \<or> role_in t gid reviewer = Some 2) \<and>
     map_of (group_join_requests t) (gid, a) = Some row \<and> jr_status row = 0"

lemma sql_review_reads:
  assumes "may t (sql_review gid a reviewer approve mx now) (st, v) t'"
  shows "(t' = t \<and> (\<forall>x. st = Ok \<and> v = Some x \<longrightarrow> jv_alreadyHandled x \<and> \<not> jv_memberAdded x)) \<or>
    (\<exists>row x t1. may_review t gid a reviewer row \<and> may t (review_pending gid a reviewer approve mx now (jr_id row)) x t1 \<and>
       (x = Inl (st, v) \<and> t' = t \<or> x = Inr (st, v) \<and> t' = t1))"
proof -
  have permitted: "may_review t gid a reviewer (hd (select_request gid a t))"
    if "select_active_group gid t \<noteq> []" "select_member gid reviewer t \<noteq> []"
      "gmr_role (hd (select_member gid reviewer t)) \<noteq> 1 \<longrightarrow> gmr_role (hd (select_member gid reviewer t)) = 2"
      "select_request gid a t \<noteq> []" "getGroupJoinRequestStatus (jr_status (hd (select_request gid a t))) = Some Pending"
    using that select_member_hd [OF that(2)] select_request_hd [OF that(4)]
    by (auto simp: may_review_def select_active_group_ne status_Pending)
  show ?thesis
    using assms unfolding sql_review_def
    by (auto simp: review_result_def split: if_splits option.splits) (use permitted in blast)+
qed

lemma sql_review_cases:
  assumes "may t (sql_review gid a reviewer approve mx now) (st, v) t'"
  obtains (none) "t' = t" "\<forall>x. st = Ok \<and> v = Some x \<longrightarrow> jv_alreadyHandled x \<and> \<not> jv_memberAdded x"
    | (rejected) row n where "\<not> approve" "may_review t gid a reviewer row" "settle_request 2 reviewer now (jr_id row) a t = Inr (n, t')"
        "st = Ok" "v = Some (review_result False True False False gid a)"
    | (approved) row n1 t1 n2 t2 n3 where "approve" "may_review t gid a reviewer row" "length (members_of gid t) < mx"
        "insert_member_if_active gid a 0 t = Inr (n1, t1)" "n1 \<noteq> 0" "insert_cursor_at_head a gid t1 = Inr (n2, t2)" "n2 \<noteq> 0"
        "settle_request 1 reviewer now (jr_id row) a t2 = Inr (n3, t')" "st = Ok" "v = Some (review_result True False True False gid a)"
  using sql_review_reads [OF assms]
proof (elim disjE exE conjE)
  fix row x t1
  assume row: "may_review t gid a reviewer row" and run: "may t (review_pending gid a reviewer approve mx now (jr_id row)) x t1"
    and res: "x = Inl (st, v)" "t' = t"
  from run show thesis
    by (cases approve) (auto simp: review_pending_def res review_result_def intro!: none dest!: approve_request_cases reject_request_cases)
next
  fix row x t1
  assume row: "may_review t gid a reviewer row" and run: "may t (review_pending gid a reviewer approve mx now (jr_id row)) x t1"
    and res: "x = Inr (st, v)" "t' = t1"
  show thesis
  proof (cases approve)
    case True
    with run show thesis by (auto simp: review_pending_def res intro: approved [OF True row] dest!: approve_request_cases)
  next
    case False
    with run show thesis by (auto simp: review_pending_def res intro: rejected [OF False row] dest!: reject_request_cases)
  qed
qed (rule none)

lemma requests_ok_cong:
  "group_join_requests t' = group_join_requests t \<Longrightarrow> next_request_id t' = next_request_id t \<Longrightarrow> requests_ok t' = requests_ok t"
  by (simp add: requests_ok_def)

lemma same_groupsD:
  "same_groups t t' \<Longrightarrow> chat_groups t' = chat_groups t \<and> role_in t' = role_in t \<and> keys_ok t' = keys_ok t \<and>
     group_heads t' = group_heads t \<and> group_cursors t' = group_cursors t \<and> group_messages t' = group_messages t"
  by (auto simp: same_groups_def role_in_def keys_ok_def fun_eq_iff)

lemma same_groups_store:
  assumes "same_groups t t'"
  shows "store_ok t' = store_ok t" "view t' = view t"
proof -
  note e = same_groupsD [OF assms]
  show "store_ok t' = store_ok t" using e by (simp add: store_ok_def is_active_def)
  show "view t' = view t" by (rule view_eqI) (use e in auto)
qed

lemma admit_effect:
  assumes "requests_ok t" "may_review t gid a reviewer row"
    and "insert_member_if_active gid a 0 t = Inr (n1, t1)" "n1 \<noteq> 0" "insert_cursor_at_head a gid t1 = Inr (n2, t2)" "n2 \<noteq> 0"
    and "settle_request 1 reviewer now (jr_id row) a t2 = Inr (n3, t')"
  shows "chat_groups t' = chat_groups t \<and> role_in t gid a = None \<and> role_in t' = set_role gid a (Some 0) t \<and>
    (keys_ok t \<longrightarrow> keys_ok t') \<and> requests_ok t' \<and>
    map_of (group_join_requests t') = (map_of (group_join_requests t))
      ((gid, a) \<mapsto> row\<lparr>jr_status := 1, jr_reviewer := reviewer, jr_reviewed_at_ms := now\<rparr>) \<and>
    (\<exists>h. map_of (group_heads t') gid = Some h \<and> map_option cur_joined_seq (map_of (group_cursors t') (a, gid)) = Some (hd_last_seq h))"
proof -
  have i: "insert_member gid a 0 t = Inr (n1, t1)" using assms(3,4) by (simp add: insert_member_if_active_def split: if_splits)
  have m: "role_in t gid a = None" "chat_groups t1 = chat_groups t" "role_in t1 = set_role gid a (Some 0) t" "keys_ok t \<longrightarrow> keys_ok t1"
    using insert_member_effect [OF i] by blast+
  have t1: "group_join_requests t1 = group_join_requests t" "next_request_id t1 = next_request_id t"
    using i by (auto simp: insert_member_def split: if_splits)
  have t2: "group_join_requests t2 = group_join_requests t1" "next_request_id t2 = next_request_id t1" "same_relation t1 t2"
    and h: "\<exists>h. map_of (group_heads t2) gid = Some h \<and> map_option cur_joined_seq (map_of (group_cursors t2) (a, gid)) = Some (hd_last_seq h)"
    using assms(5,6) by (auto simp: insert_cursor_at_head_def same_relation_def split: option.splits if_splits)
  have row: "map_of (group_join_requests t2) (gid, a) = Some row" "jr_status row = 0"
    using assms(2) t1 t2 by (simp_all add: may_review_def)
  have ok: "requests_ok t2" using assms(1) t1 t2 by (simp add: requests_ok_cong [of t2 t])
  note s = settle_request_effect [OF ok row _ assms(7), simplified]
  note g = same_groupsD [OF s [THEN conjunct2, THEN conjunct1]]
  note r = same_relationD [OF t2(3)]
  have "chat_groups t' = chat_groups t" "role_in t' = set_role gid a (Some 0) t" "keys_ok t \<longrightarrow> keys_ok t'" using g r m by auto
  with s h g m(1) t1(1) t2(1) show ?thesis by simp
qed

lemma delete_handled_effect:
  assumes "requests_ok t" "delete_handled cutoff limit t = Inr (n, t')"
  shows "same_groups t t' \<and> requests_ok t' \<and> n \<le> limit \<and>
    (\<forall>k. map_of (group_join_requests t') k = map_of (group_join_requests t) k \<or> map_of (group_join_requests t') k = None \<and>
       (\<exists>row. map_of (group_join_requests t) k = Some row \<and> (jr_status row = 1 \<or> jr_status row = 2) \<and> jr_reviewed_at_ms row < cutoff))"
proof -
  let ?ks = "handled_before cutoff limit t" let ?R = "group_join_requests t"
  have t': "t' = t\<lparr>group_join_requests := filter (\<lambda>(k, row). k \<notin> set ?ks) ?R\<rparr>" "n = length ?ks"
    using assms(2) by (auto simp: delete_handled_def Let_def)
  have d: "distinct (map fst ?R)" using assms(1) by (simp add: requests_ok_def)
  have m: "map_of (filter (\<lambda>(k, row). k \<notin> set ks) al) k = (if k \<in> set ks then None else map_of al k)" for ks k and al :: "((groupId \<times> accountId) \<times> join_request_row) list"
    by (induction al) auto
  have "\<exists>row. map_of ?R k = Some row \<and> (jr_status row = 1 \<or> jr_status row = 2) \<and> jr_reviewed_at_ms row < cutoff" if "k \<in> set ?ks" for k
  proof -
    from that obtain row where "(k, row) \<in> set ?R" "jr_status row = 1 \<or> jr_status row = 2" "jr_reviewed_at_ms row < cutoff"
      by (auto simp: handled_before_def dest!: in_set_takeD)
    with d show ?thesis by auto
  qed
  moreover have "requests_ok t'"
    using assms(1) by (auto simp: requests_ok_def t' distinct_map_filter)
  moreover have "n \<le> limit" by (simp add: t' handled_before_def)
  ultimately show ?thesis using t' by (auto simp: m same_groups_def)
qed

subsection \<open>Invariants of the tables\<close>

text \<open>
  A predicate on the tables that every writing operation of the group repository keeps is kept by every
  operation of the group service, whatever else the service does.
\<close>

definition svc_keeps :: "(group_tables \<Rightarrow> bool) \<Rightarrow> (group_tables database, 'a) svc \<Rightarrow> bool" where
  "svc_keeps I m \<longleftrightarrow> (\<forall>S r S'. run_state m S = (r, S') \<longrightarrow> I (tables (store S)) \<longrightarrow> I (tables (store S')))"

lemma svc_keeps_bind [intro!]: "svc_keeps I m \<Longrightarrow> (\<And>x. svc_keeps I (f x)) \<Longrightarrow> svc_keeps I (State_Monad.bind m f)"
  unfolding svc_keeps_def by (metis run_bindE)

lemma svc_keeps_pure [intro!, simp]: "svc_keeps I (in_manager f)" "svc_keeps I (ret x)"
  by (auto simp: svc_keeps_def in_manager_def split: prod.splits)

lemma svc_keeps_store: "(\<And>t r t'. I t \<Longrightarrow> may t m r t' \<Longrightarrow> I t') \<Longrightarrow> svc_keeps I (in_store m)"
  by (auto simp: svc_keeps_def in_store_def split: prod.splits dest!: mayI)

lemma repo_reads:
  "may t (groupExists sql_group_repo gid) r t' \<Longrightarrow> t' = t"
  "may t (isMember sql_group_repo gid a) r t' \<Longrightarrow> t' = t"
  "may t (getMemberRole sql_group_repo gid a) v t' \<Longrightarrow> t' = t"
  "may t (findGroupById sql_group_repo gid) g t' \<Longrightarrow> t' = t"
  "may t (countMembers sql_group_repo gid) n t' \<Longrightarrow> t' = t"
  "may t (findGroupsByIds sql_group_repo gids) gs t' \<Longrightarrow> t' = t"
  "may t (listMemberRecords sql_group_repo gid) ms t' \<Longrightarrow> t' = t"
  by (auto simp: sql_group_repo_def sql_groupExists_def sql_isMember_def sql_getMemberRole_def sql_findGroupById_def
      sql_countMembers_def sql_findGroupsByIds_def sql_listMemberRecords_def Let_def split: if_splits option.splits list.splits)

locale table_invariant =
  fixes I :: "group_tables \<Rightarrow> bool"
  assumes add: "I t \<Longrightarrow> may t (sql_addMember gid a w) st t' \<Longrightarrow> I t'"
    and update: "I t \<Longrightarrow> may t (sql_updateMemberRole gid a w) st t' \<Longrightarrow> I t'"
    and transfer: "I t \<Longrightarrow> may t (sql_transferOwner gid old new) st t' \<Longrightarrow> I t'"
    and create: "I t \<Longrightarrow> may t (sql_createGroupWithOwner gid name own) st t' \<Longrightarrow> I t'"
    and remove: "I t \<Longrightarrow> may t (sql_removeMember gid a) st t' \<Longrightarrow> I t'"
    and dissolve: "I t \<Longrightarrow> may t (sql_dissolveGroup gid own at) d t' \<Longrightarrow> I t'"
    and clock: "I t \<Longrightarrow> I (t\<lparr>clock := c\<rparr>)"
begin

lemma repo_keeps [simp, intro!]:
  "svc_keeps I (in_store (groupExists sql_group_repo gid))"
  "svc_keeps I (in_store (isMember sql_group_repo gid a))"
  "svc_keeps I (in_store (getMemberRole sql_group_repo gid a))"
  "svc_keeps I (in_store (findGroupById sql_group_repo gid))"
  "svc_keeps I (in_store (countMembers sql_group_repo gid))"
  "svc_keeps I (in_store (findGroupsByIds sql_group_repo gids))"
  "svc_keeps I (in_store (listMemberRecords sql_group_repo gid))"
  "svc_keeps I (in_store (repo_addMember sql_group_repo gid a w))"
  "svc_keeps I (in_store (updateMemberRole sql_group_repo gid a w))"
  "svc_keeps I (in_store (repo_transferOwner sql_group_repo gid old new))"
  "svc_keeps I (in_store (createGroupWithOwner sql_group_repo gid name own))"
  "svc_keeps I (in_store (repo_removeMember sql_group_repo gid a))"
  "svc_keeps I (in_store (repo_dissolveGroup sql_group_repo gid own at))"
  by (auto intro!: svc_keeps_store dest: repo_reads)
    (simp_all add: sql_group_repo_def, (erule add update transfer create remove dissolve, assumption)+)

lemma reload_keeps [intro!]: "svc_keeps I (reloadGroup sql_group_repo now gid)"
  unfolding reloadGroup_def by (auto split: list.splits)

lemma sync_keeps [intro!]: "svc_keeps I (sync_or_reload sql_group_repo now gid f)"
  unfolding sync_or_reload_def by auto

lemma group_op_keeps:
  "svc_keeps I (kickMember sql_group_repo now gid op target)"
  "svc_keeps I (setAdmin sql_group_repo now gid op target enable)"
  "svc_keeps I (transferOwner sql_group_repo now gid old new)"
  "svc_keeps I (createGroup sql_group_repo now gid own name)"
  "svc_keeps I (inviteMember sql_group_repo deps now gid inviter target)"
  "svc_keeps I (dissolveGroup sql_group_repo gid op at)"
  unfolding kickMember_def setAdmin_def transferOwner_def createGroup_def inviteMember_def dissolveGroup_def
  by (auto split: prod.splits option.splits)

lemma group_step_keeps: "group_step S S' \<Longrightarrow> I (tables (store S)) \<Longrightarrow> I (tables (store S'))"
proof (induction rule: group_step.induct)
  case (leave gid a S m D)
  then show ?case using remove [OF _ mayI [OF leave(3)]] by simp
qed (use group_op_keeps in \<open>auto simp: svc_keeps_def clock\<close>)

end

text \<open>The operations on groups leave the requests alone.\<close>

definition requests_of :: "group_tables \<Rightarrow> ((groupId \<times> accountId) \<times> join_request_row) list \<times> nat" where
  "requests_of t = (group_join_requests t, next_request_id t)"

lemma stmt_frames:
  "insert_chat_group gid name own t = Inr (n, t') \<Longrightarrow> requests_of t' = requests_of t"
  "insert_member gid a w t = Inr (n, t') \<Longrightarrow> requests_of t' = requests_of t"
  "update_member_role gid a w t = Inr (n, t') \<Longrightarrow> requests_of t' = requests_of t"
  "update_owner gid old new t = Inr (n, t') \<Longrightarrow> requests_of t' = requests_of t"
  "delete_member gid a t = Inr (n, t') \<Longrightarrow> requests_of t' = requests_of t"
  "delete_cursor a gid t = Inr (n, t') \<Longrightarrow> requests_of t' = requests_of t"
  "insert_head gid t = Inr (n, t') \<Longrightarrow> requests_of t' = requests_of t"
  "insert_cursor a gid t = Inr (n, t') \<Longrightarrow> requests_of t' = requests_of t"
  "mark_dissolved gid own at t = Inr (n, t') \<Longrightarrow> requests_of t' = requests_of t"
  "delete_members gid t = Inr (n, t') \<Longrightarrow> requests_of t' = requests_of t"
  "delete_offline gid t = Inr (n, t') \<Longrightarrow> requests_of t' = requests_of t"
  "delete_cursors gid t = Inr (n, t') \<Longrightarrow> requests_of t' = requests_of t"
  "delete_head gid t = Inr (n, t') \<Longrightarrow> requests_of t' = requests_of t"
  by (auto simp: requests_of_def insert_chat_group_def insert_member_def update_member_role_def update_owner_def delete_member_def
      delete_cursor_def insert_head_def insert_cursor_def mark_dissolved_def delete_members_def delete_offline_def delete_cursors_def
      delete_head_def Let_def split: if_splits option.splits)

interpretation requests_kept: table_invariant "\<lambda>t. requests_of t = x" for x
proof
  fix t gid a w st t' assume "requests_of t = x" "may t (sql_addMember gid a w) st t'"
  then show "requests_of t' = x" by (auto simp: sql_addMember_def insert_member_if_active_def split: if_splits dest!: stmt_frames)
next
  fix t gid a w st t' assume "requests_of t = x" "may t (sql_updateMemberRole gid a w) st t'"
  then show "requests_of t' = x" by (auto simp: sql_updateMemberRole_def sql_isMember_def split: if_splits dest!: stmt_frames)
next
  fix t gid old new st t' assume "requests_of t = x" "may t (sql_transferOwner gid old new) st t'"
  then show "requests_of t' = x" by (auto simp: sql_transferOwner_def split: if_splits dest!: stmt_frames)
next
  fix t gid name own st t' assume "requests_of t = x" "may t (sql_createGroupWithOwner gid name own) st t'"
  then show "requests_of t' = x" by (auto simp: sql_createGroupWithOwner_def split: if_splits dest!: stmt_frames)
next
  fix t gid a st t' assume "requests_of t = x" "may t (sql_removeMember gid a) st t'"
  then show "requests_of t' = x" by (auto simp: sql_removeMember_def sql_groupExists_def split: if_splits dest!: stmt_frames)
next
  fix t gid own at d t' assume "requests_of t = x" "may t (sql_dissolveGroup gid own at) d t'"
  then show "requests_of t' = x"
    by (auto simp: sql_dissolveGroup_def split: if_splits option.splits list.splits GroupStatus.splits dest!: stmt_frames)
qed (simp add: requests_of_def)

lemma group_step_requests: "group_step S S' \<Longrightarrow> requests_of (tables (store S')) = requests_of (tables (store S))"
  by (rule requests_kept.group_step_keeps [OF _ refl])

subsection \<open>The service keeps memory and database in step\<close>

lemma submit_effect:
  assumes "requests_ok t" "may t (sql_submit gid a message now) (st, r) t'"
  shows "same_groups t t' \<and> requests_ok t' \<and>
    (t' = t \<or> role_in t gid a = None \<and> is_active gid t \<and> request_status t (gid, a) \<noteq> Some Pending \<and>
       (\<exists>row. jr_status row = 0 \<and> jr_request_message row = message \<and>
          map_of (group_join_requests t') = (map_of (group_join_requests t))((gid, a) \<mapsto> row)))"
  using assms(2)
proof (cases rule: sql_submit_cases)
  case none
  then show ?thesis using assms(1) by (simp add: same_groups_def)
next
  case (again row n)
  have "request_status t (gid, a) \<noteq> Some Pending" using again(3,4) by (simp add: request_status_def status_Pending)
  with again(1,2) reopen_request_effect [OF assms(1) again(3,5)] show ?thesis
    by (intro conjI disjI2 exI [where x = "row\<lparr>jr_status := 0, jr_request_message := message, jr_reviewer := [], jr_created_at_ms := now, jr_reviewed_at_ms := 0\<rparr>"])
      simp_all
next
  case (first n)
  from insert_request_effect [OF assms(1) first(3)] have "request_status t (gid, a) \<noteq> Some Pending" by (simp add: request_status_def)
  with first(1,2) insert_request_effect [OF assms(1) first(3)] show ?thesis
    by (intro conjI disjI2 exI [where x = "\<lparr>jr_id = next_request_id t, jr_status = 0, jr_request_message = message, jr_reviewer = [],
        jr_created_at_ms = now, jr_reviewed_at_ms = 0\<rparr>"]) simp_all
qed

lemma review_effect:
  assumes "requests_ok t" "may t (sql_review gid a reviewer approve mx now) (st, v) t'"
  shows "requests_ok t' \<and>
    ((\<exists>x. st = Ok \<and> v = Some x \<and> jv_approved x \<and> jv_memberAdded x) \<and>
       (\<exists>row. may_review t gid a reviewer row) \<and> chat_groups t' = chat_groups t \<and> length (members_of gid t) < mx \<and>
       role_in t gid a = None \<and> role_in t' = set_role gid a (Some 0) t \<and> (keys_ok t \<longrightarrow> keys_ok t') \<and>
       (\<exists>h. map_of (group_heads t') gid = Some h \<and> map_option cur_joined_seq (map_of (group_cursors t') (a, gid)) = Some (hd_last_seq h)) \<and>
       request_status t' = (request_status t)((gid, a) \<mapsto> Approved)
     \<or> \<not> (\<exists>x. st = Ok \<and> v = Some x \<and> jv_memberAdded x) \<and> same_groups t t' \<and>
       (t' = t \<or> request_status t (gid, a) = Some Pending \<and> request_status t' = (request_status t)((gid, a) \<mapsto> Rejected)))"
  using assms(2)
proof (cases rule: sql_review_cases)
  case none
  then show ?thesis using assms(1) by (auto simp: same_groups_def)
next
  case (rejected row n)
  have row: "map_of (group_join_requests t) (gid, a) = Some row" "jr_status row = 0" using rejected(2) by (simp_all add: may_review_def)
  note s = settle_request_effect [OF assms(1) row _ rejected(3), simplified]
  then have "request_status t' = (request_status t)((gid, a) \<mapsto> Rejected)"
    by (auto simp: request_status_def fun_eq_iff getGroupJoinRequestStatus_def)
  moreover have "request_status t (gid, a) = Some Pending" using row by (simp add: request_status_def status_Pending)
  ultimately show ?thesis using s rejected(4,5) by (simp add: review_result_def)
next
  case (approved row n1 t1 n2 t2 n3)
  note e = admit_effect [OF assms(1) approved(2,4-8)]
  then have "request_status t' = (request_status t)((gid, a) \<mapsto> Approved)"
    by (auto simp: request_status_def fun_eq_iff getGroupJoinRequestStatus_def)
  moreover have "\<exists>x. st = Ok \<and> v = Some x \<and> jv_approved x \<and> jv_memberAdded x" using approved(9,10) by (simp add: review_result_def)
  ultimately show ?thesis using e approved(2,3) by blast
qed

lemma reviewRequest_effect:
  assumes "group_system_ok S" "requests_ok (tables (store S))"
    and run: "run_state (reviewRequest deps clockMs gid a reviewer approve now) S = ((st, v), S')"
  shows "group_system_ok S' \<and> requests_ok (tables (store S')) \<and>
    (if \<exists>x. st = Ok \<and> v = Some x \<and> jv_memberAdded x
     then length (members_of gid (tables (store S))) < maxGroupMembers deps \<and>
       (\<exists>row. may_review (tables (store S)) gid a reviewer row) \<and> role_in (tables (store S)) gid a = None \<and>
       role_in (tables (store S')) = set_role gid a (Some 0) (tables (store S)) \<and>
       (\<exists>h. map_of (group_heads (tables (store S'))) gid = Some h \<and>
          map_option cur_joined_seq (map_of (group_cursors (tables (store S'))) (a, gid)) = Some (hd_last_seq h)) \<and>
       request_status (tables (store S')) = (request_status (tables (store S)))((gid, a) \<mapsto> Approved)
     else same_groups (tables (store S)) (tables (store S')) \<and>
       (tables (store S') = tables (store S) \<or> request_status (tables (store S)) (gid, a) = Some Pending \<and>
        request_status (tables (store S')) = (request_status (tables (store S)))((gid, a) \<mapsto> Rejected)))"
proof (cases "gid = [] \<or> a = [] \<or> reviewer = []")
  case True
  with run assms(1,2) show ?thesis by (auto simp: reviewRequest_def same_groups_def)
next
  case False
  obtain st1 v1 d1 where r1: "run_state (sql_review gid a reviewer approve (maxGroupMembers deps) now) (store S) = ((st1, v1), d1)"
    by (metis surj_pair)
  note e = review_effect [OF assms(2) mayI [OF r1]]
  have S: "store_ok (tables (store S))" "synced (manager S) (view (tables (store S)))" "gm_ok (manager S)"
    using assms(1) by (simp_all add: svc_ok_def)
  show ?thesis
  proof (cases "\<exists>x. st1 = Ok \<and> v1 = Some x \<and> jv_memberAdded x")
    case added: True
    with e obtain x row where x: "st1 = Ok" "v1 = Some x" "jv_approved x" "jv_memberAdded x"
      and t: "may_review (tables (store S)) gid a reviewer row" "chat_groups (tables d1) = chat_groups (tables (store S))"
        "role_in (tables (store S)) gid a = None" "role_in (tables d1) = set_role gid a (Some 0) (tables (store S))"
        "keys_ok (tables (store S)) \<longrightarrow> keys_ok (tables d1)" by blast
    obtain u where u: "view (tables (store S)) gid = Some u" using t(1) by (auto simp: may_review_def is_active_view)
    have "gv_roles u a = None" using t(3) u by (simp add: view_roles)
    with joinGroup_synced [OF S(2) u _] False obtain m' where m': "joinGroup gid a (manager S) = (OK_JOINED, m')"
      "synced m' ((view (tables (store S)))(gid \<mapsto> u\<lparr>gv_roles := (gv_roles u)(a \<mapsto> 0)\<rparr>))" by blast
    have S': "S' = S\<lparr>store := d1, manager := m'\<rparr>" "st = st1" "v = v1"
      using run False x m'(1) r1 by (auto simp: reviewRequest_def in_store_def in_manager_def)
    have "store_ok (tables d1)"
      using store_ok_set_role [OF S(1) t(2) _ t(4)] t(1,3,5) False store_okD(1) [OF S(1)] by (simp add: may_review_def)
    then have "group_system_ok S'"
      using m' gm_ok_join [OF S(3) m'(1)] view_set_role [OF t(2,4) u] by (simp add: svc_ok_def S'(1))
    moreover have c: "\<exists>x. st = Ok \<and> v = Some x \<and> jv_memberAdded x" using added S' by simp
    ultimately show ?thesis unfolding if_P [OF c] using e added by (simp add: S'(1)) blast
  next
    case no: False
    then have S': "S' = S\<lparr>store := d1\<rparr>" "st = Ok \<longrightarrow> st1 = Ok \<and> v = v1"
      using run False r1 by (auto simp: reviewRequest_def in_store_def split: if_splits option.splits)
    have c: "\<not> (\<exists>x. st = Ok \<and> v = Some x \<and> jv_memberAdded x)" using S'(2) no by blast
    have k: "requests_ok (tables d1)" "same_groups (tables (store S)) (tables d1)"
      "tables d1 = tables (store S) \<or> request_status (tables (store S)) (gid, a) = Some Pending \<and>
        request_status (tables d1) = (request_status (tables (store S)))((gid, a) \<mapsto> Rejected)" using e no by blast+
    have "group_system_ok S'" using S by (simp add: svc_ok_def S'(1) same_groups_store [OF k(2)])
    with k show ?thesis unfolding if_not_P [OF c] by (simp add: S'(1))
  qed
qed

subsection \<open>Groups and requests together\<close>

text \<open>The life of a request: submitted, decided, perhaps submitted again or cleaned up.\<close>

fun request_move :: "GroupJoinRequestStatus option \<Rightarrow> GroupJoinRequestStatus option \<Rightarrow> bool" where
  "request_move None (Some Pending) = True"
| "request_move (Some Pending) (Some Approved) = True"
| "request_move (Some Pending) (Some Rejected) = True"
| "request_move (Some Approved) (Some Pending) = True"
| "request_move (Some Rejected) (Some Pending) = True"
| "request_move (Some Approved) None = True"
| "request_move (Some Rejected) None = True"
| "request_move _ _ = False"

inductive join_step :: "group_deps \<Rightarrow> group_system \<Rightarrow> group_system \<Rightarrow> bool" for deps where
  group: "group_step S S' \<Longrightarrow> join_step deps S S'"
| submitted: "run_state (applyToJoin deps gid a message now) S = (r, S') \<Longrightarrow> join_step deps S S'"
| reviewed: "run_state (reviewRequest deps clockMs gid a reviewer approve now) S = (r, S') \<Longrightarrow> join_step deps S S'"
| cleaned: "run_state (in_store (sql_deleteHandledBefore cutoff limit)) S = (r, S') \<Longrightarrow> join_step deps S S'"

abbreviation join_system_ok :: "group_system \<Rightarrow> bool" where
  "join_system_ok S \<equiv> group_system_ok S \<and> requests_ok (tables (store S))"

lemma applyToJoin_may:
  assumes "run_state (applyToJoin deps gid a message now) S = (r, S')"
  shows "S' = S \<or> (\<exists>d. may (tables (store S)) (sql_submit gid a message now) r (tables d) \<and> S' = S\<lparr>store := d\<rparr>)"
  using assms by (auto simp: applyToJoin_def in_store_def split: if_splits prod.splits dest!: mayI)

lemma cleaned_may:
  assumes "run_state (in_store (sql_deleteHandledBefore cutoff limit)) S = (r, S')"
  shows "\<exists>d. S' = S\<lparr>store := d\<rparr> \<and> (tables d = tables (store S) \<or> (\<exists>n. delete_handled cutoff limit (tables (store S)) = Inr (n, tables d)))"
proof -
  from assms obtain d where d: "run_state (sql_deleteHandledBefore cutoff limit) (store S) = (r, d)" "S' = S\<lparr>store := d\<rparr>" by (rule in_storeE)
  have "tables d = tables (store S) \<or> (\<exists>n. delete_handled cutoff limit (tables (store S)) = Inr (n, tables d))"
    using mayI [OF d(1)] by (auto simp: sql_deleteHandledBefore_def split: if_splits)
  with d(2) show ?thesis by blast
qed

lemma same_groups_system:
  "group_system_ok S \<Longrightarrow> same_groups (tables (store S)) (tables d) \<Longrightarrow> group_system_ok (S\<lparr>store := d\<rparr>)"
  by (simp add: svc_ok_def same_groups_store)

lemma request_status_cong: "map_of (group_join_requests t') k = map_of (group_join_requests t) k \<Longrightarrow> request_status t' k = request_status t k"
  by (simp add: request_status_def)

text \<open>What every step does to the requests, together with the invariant.\<close>

lemma join_step_effect:
  assumes "join_step deps S S'" "join_system_ok S"
  shows "join_system_ok S' \<and>
    (\<forall>k. request_status (tables (store S')) k = request_status (tables (store S)) k \<or>
       request_move (request_status (tables (store S)) k) (request_status (tables (store S')) k)) \<and>
    (\<forall>gid a. request_status (tables (store S)) (gid, a) \<noteq> Some Approved \<and> request_status (tables (store S')) (gid, a) = Some Approved \<longrightarrow>
       role_in (tables (store S)) gid a = None \<and> role_in (tables (store S')) = set_role gid a (Some 0) (tables (store S)) \<and>
       length (members_of gid (tables (store S))) < maxGroupMembers deps)"
  using assms
proof (induction rule: join_step.induct)
  case (group S S')
  have "requests_of (tables (store S')) = requests_of (tables (store S))" by (rule group_step_requests [OF group(1)])
  then have "requests_ok (tables (store S')) = requests_ok (tables (store S))" "request_status (tables (store S')) = request_status (tables (store S))"
    by (simp_all add: requests_of_def requests_ok_def request_status_def fun_eq_iff)
  with group_step_ok [OF group(1)] group(2) show ?case by simp
next
  case (submitted gid a message now S r S')
  from applyToJoin_may [OF submitted(1)] show ?case
  proof (elim disjE exE conjE)
    fix d assume d: "may (tables (store S)) (sql_submit gid a message now) r (tables d)" "S' = S\<lparr>store := d\<rparr>"
    obtain st v where r: "r = (st, v)" by (cases r)
    note e = submit_effect [OF submitted(2) [THEN conjunct2] d(1) [unfolded r]]
    have ok: "join_system_ok S'" using e same_groups_system [OF submitted(2) [THEN conjunct1]] by (simp add: d(2))
    have status: "request_status (tables (store S')) k = request_status (tables (store S)) k \<or>
       request_move (request_status (tables (store S)) k) (request_status (tables (store S')) k) \<and>
       request_status (tables (store S')) k \<noteq> Some Approved" for k
    proof (cases "tables d = tables (store S)")
      case False
      with e obtain row where row: "jr_status row = 0" "request_status (tables (store S)) (gid, a) \<noteq> Some Pending"
        "map_of (group_join_requests (tables d)) = (map_of (group_join_requests (tables (store S))))((gid, a) \<mapsto> row)" by blast
      show ?thesis
      proof (cases "k = (gid, a)")
        case True
        with row have "request_status (tables (store S')) k = Some Pending" by (simp add: request_status_def status_Pending d(2))
        moreover have "request_move s (Some Pending)" if "s \<noteq> Some Pending" for s
          using that by (cases "(s, Some Pending)" rule: request_move.cases) auto
        ultimately show ?thesis using row(2) True by simp
      next
        case False
        with row(3) show ?thesis by (simp add: request_status_def d(2))
      qed
    qed (simp add: d(2))
    show ?thesis using ok status by (intro conjI allI impI; metis)
  qed (use submitted(2) in simp)
next
  case (reviewed clockMs gid a reviewer approve now S r S')
  obtain st v where r: "r = (st, v)" by (cases r)
  note e = reviewRequest_effect [OF reviewed(2) [THEN conjunct1] reviewed(2) [THEN conjunct2] reviewed(1) [unfolded r]]
  show ?case
  proof (cases "\<exists>x. st = Ok \<and> v = Some x \<and> jv_memberAdded x")
    case True
    with e obtain row where row: "may_review (tables (store S)) gid a reviewer row"
      "request_status (tables (store S')) = (request_status (tables (store S)))((gid, a) \<mapsto> Approved)" by auto
    then have "request_status (tables (store S)) (gid, a) = Some Pending"
      by (simp add: may_review_def request_status_def status_Pending)
    with e row True show ?thesis by auto
  next
    case False
    from e [unfolded if_not_P [OF False]] show ?thesis by (auto split: if_splits)
  qed
next
  case (cleaned cutoff limit S r S')
  from cleaned_may [OF cleaned(1)] obtain d where d: "S' = S\<lparr>store := d\<rparr>"
    "tables d = tables (store S) \<or> (\<exists>n. delete_handled cutoff limit (tables (store S)) = Inr (n, tables d))" by blast
  from d(2) show ?case
  proof (elim disjE exE)
    assume "tables d = tables (store S)"
    with cleaned(2) d(1) show ?thesis by (simp add: svc_ok_def)
  next
    fix n assume "delete_handled cutoff limit (tables (store S)) = Inr (n, tables d)"
    note e = delete_handled_effect [OF cleaned(2) [THEN conjunct2] this]
    have "join_system_ok S'" using e same_groups_system [OF cleaned(2) [THEN conjunct1]] by (simp add: d(1))
    moreover have "request_status (tables (store S')) k = request_status (tables (store S)) k \<or>
       request_status (tables (store S')) k = None \<and> request_move (request_status (tables (store S)) k) None" for k
    proof -
      from e have "map_of (group_join_requests (tables d)) k = map_of (group_join_requests (tables (store S))) k \<or>
        map_of (group_join_requests (tables d)) k = None \<and>
        (\<exists>row. map_of (group_join_requests (tables (store S))) k = Some row \<and> (jr_status row = 1 \<or> jr_status row = 2))" by blast
      then show ?thesis by (auto simp: request_status_def getGroupJoinRequestStatus_def d(1))
    qed
    ultimately show ?thesis by (intro conjI allI impI; metis option.distinct(1))
  qed
qed

lemma join_system_new_ok: "join_system_ok group_system_new"
  using group_system_new_ok by (simp add: group_system_new_def Tables_new_def requests_ok_def)

lemma join_steps_ok: "(join_step deps)\<^sup>*\<^sup>* group_system_new S \<Longrightarrow> join_system_ok S"
  by (induction rule: rtranclp_induct) (use join_system_new_ok join_step_effect in blast)+

lemma admitted_card:
  assumes "keys_ok t" "role_in t gid a = None" "role_in t' = set_role gid a (Some 0) t" "length (members_of gid t) < n"
  shows "card {b. role_in t' gid b \<noteq> None} \<le> n"
proof -
  have "{b. role_in t' gid b \<noteq> None} = insert a {b. role_in t gid b \<noteq> None}" by (auto simp: assms(3) set_role_def)
  moreover have "card {b. role_in t gid b \<noteq> None} < n" using assms(4) length_members_of [OF assms(1)] by simp
  ultimately show ?thesis using card_insert_le_m1 [of n "{b. role_in t gid b \<noteq> None}" a] assms(2) by (simp add: card_insert_if)
qed

subsection \<open>Properties\<close>

text \<open>
  C13. Whatever is done to groups and requests, with whatever failures of the database, a request only
  moves along its protocol (submitted, decided once, submitted again or cleaned up once it is decided),
  and it becomes approved only together with the admission of the applicant as an ordinary member of a
  group that stays within its limit.
\<close>

theorem requests_follow_protocol:
  assumes "(join_step deps)\<^sup>*\<^sup>* group_system_new S" "join_step deps S S'"
  shows "let t = tables (store S); t' = tables (store S') in
    (\<forall>k. request_status t' k = request_status t k \<or> request_move (request_status t k) (request_status t' k)) \<and>
    (\<forall>gid a. request_status t (gid, a) \<noteq> Some Approved \<and> request_status t' (gid, a) = Some Approved \<longrightarrow>
       role_in t gid a = None \<and> role_in t' gid a = Some 0 \<and> card {b. role_in t' gid b \<noteq> None} \<le> maxGroupMembers deps)"
proof -
  note ok = join_steps_ok [OF assms(1)]
  have "keys_ok (tables (store S))" using ok by (simp add: svc_ok_def store_ok_def)
  note c = admitted_card [OF this]
  note e = join_step_effect [OF assms(2) ok]
  have "role_in (tables (store S)) gid a = None \<and> role_in (tables (store S')) gid a = Some 0 \<and>
      card {b. role_in (tables (store S')) gid b \<noteq> None} \<le> maxGroupMembers deps"
    if "request_status (tables (store S)) (gid, a) \<noteq> Some Approved" "request_status (tables (store S')) (gid, a) = Some Approved" for gid a
  proof -
    from e that have r: "role_in (tables (store S)) gid a = None" "role_in (tables (store S')) = set_role gid a (Some 0) (tables (store S))"
      "length (members_of gid (tables (store S))) < maxGroupMembers deps" by blast+
    with c [OF r] show ?thesis by (simp add: set_role_def)
  qed
  with e show ?thesis unfolding Let_def by blast
qed

text \<open>
  A review that admits the applicant was made by an administrator or the owner of the active group
  for a pending request; afterwards the applicant is an ordinary member in the database and in memory
  alike, no other role has changed, and the new member's cursor starts at the head of the group, so that
  none of its history counts as unread. Any other review leaves all roles as they were.
\<close>

theorem review_admits_member:
  assumes "(join_step deps)\<^sup>*\<^sup>* group_system_new S"
    and "run_state (reviewRequest deps clockMs gid a reviewer approve now) S = ((st, v), S')"
  shows "let t = tables (store S); t' = tables (store S') in
    (\<forall>g b. map_option roleToUint (gm_roleOf g b (manager S')) = role_in t' g b) \<and>
    (if \<exists>x. st = Ok \<and> v = Some x \<and> jv_memberAdded x
     then role_in t gid reviewer \<in> {Some 1, Some 2} \<and> request_status t (gid, a) = Some Pending \<and>
       role_in t' = (role_in t)(gid := (role_in t gid)(a \<mapsto> 0)) \<and>
       map_option cur_joined_seq (map_of (group_cursors t') (a, gid)) = map_option hd_last_seq (map_of (group_heads t') gid)
     else role_in t' = role_in t)"
proof -
  note ok = join_steps_ok [OF assms(1)]
  note e = reviewRequest_effect [OF ok [THEN conjunct1] ok [THEN conjunct2] assms(2)]
  note m = group_system_matches [OF e [THEN conjunct1]]
  show ?thesis
  proof (cases "\<exists>x. st = Ok \<and> v = Some x \<and> jv_memberAdded x")
    case True
    from e [unfolded if_P [OF True]] m show ?thesis
      unfolding Let_def if_P [OF True]
      by (auto simp: may_review_def set_role_def request_status_def status_Pending)
  next
    case False
    from e [unfolded if_not_P [OF False]] m same_groupsD [of "tables (store S)" "tables (store S')"] show ?thesis
      unfolding Let_def if_not_P [OF False] by simp
  qed
qed

text \<open>A group with an owner and a pending applicant.\<close>

definition demo_applied :: group_system where
  "demo_applied = snd (run_state (applyToJoin demo_deps ''7'' ''bob'' ''hi'' 5) demo_created)"

lemma demo_applied_reached: "(join_step demo_deps)\<^sup>*\<^sup>* group_system_new demo_applied"
proof -
  have "join_step demo_deps group_system_new demo_created"
    unfolding demo_created_def by (rule join_step.group, rule group_step.create) (rule prod.collapse [symmetric])
  moreover have "join_step demo_deps demo_created demo_applied"
    unfolding demo_applied_def by (rule join_step.submitted) (rule prod.collapse [symmetric])
  ultimately show ?thesis by auto
qed

theorem requests_follow_protocol_witness:
  "let t' = tables (store (snd (run_state (reviewRequest demo_deps 0 ''7'' ''bob'' ''amy'' True 6) demo_applied)))
   in request_status t' (''7'', ''bob'') = Some Approved \<and> role_in t' ''7'' ''bob'' = Some 0"
proof -
  define S' where "S' = snd (run_state (reviewRequest demo_deps 0 ''7'' ''bob'' ''amy'' True 6) demo_applied)"
  have s: "join_step demo_deps demo_applied S'" unfolding S'_def by (rule join_step.reviewed) (rule prod.collapse [symmetric])
  have "request_status (tables (store demo_applied)) (''7'', ''bob'') = Some Pending"
    "request_status (tables (store S')) (''7'', ''bob'') = Some Approved" unfolding S'_def by code_simp+
  with requests_follow_protocol [OF demo_applied_reached s] show ?thesis unfolding S'_def [symmetric] by (simp add: Let_def)
qed

theorem review_admits_member_witness:
  "let S' = snd (run_state (reviewRequest demo_deps 0 ''7'' ''bob'' ''amy'' True 6) demo_applied)
   in map_option jv_memberAdded (snd (fst (run_state (reviewRequest demo_deps 0 ''7'' ''bob'' ''amy'' True 6) demo_applied))) = Some True \<and>
      map_option roleToUint (gm_roleOf ''7'' ''bob'' (manager S')) = Some 0"
proof -
  obtain st v S' where r: "run_state (reviewRequest demo_deps 0 ''7'' ''bob'' ''amy'' True 6) demo_applied = ((st, v), S')" by (metis surj_pair)
  have a: "map_option jv_memberAdded (snd (fst (run_state (reviewRequest demo_deps 0 ''7'' ''bob'' ''amy'' True 6) demo_applied))) = Some True"
    "fst (fst (run_state (reviewRequest demo_deps 0 ''7'' ''bob'' ''amy'' True 6) demo_applied)) = Ok" by code_simp+
  with r have c: "\<exists>x. st = Ok \<and> v = Some x \<and> jv_memberAdded x" by auto
  from review_admits_member [OF demo_applied_reached r, unfolded Let_def if_P [OF c]]
  have "map_option roleToUint (gm_roleOf ''7'' ''bob'' (manager S')) = Some 0" by auto
  with a r show ?thesis by simp
qed

text \<open>
  Approving a request of someone who has become a member in the meantime is reported as handled, but
  the update of the request is rolled back: it stays pending.
\<close>

theorem approval_of_member_is_lost:
  "let S = snd (run_state (inviteMember sql_group_repo demo_deps 0 ''7'' ''amy'' ''bob'') demo_applied);
       ((st, v), S') = run_state (reviewRequest demo_deps 0 ''7'' ''bob'' ''amy'' True 6) S
   in st = Ok \<and> map_option jv_alreadyHandled v = Some True \<and> request_status (tables (store S')) (''7'', ''bob'') = Some Pending"
  by code_simp

end
