(* ===== verification/GroupMessages.thy ===== *)
theory GroupMessages
  imports JoinRequests
begin

text \<open>
  Group messages: \<open>src/src/storage/sql/SqlGroupMessageWriteStore.cpp\<close>, which numbers and stores a message,
  \<open>src/src/im/GroupMessagePersistenceService.cpp\<close>, the group part of
  \<open>src/src/storage/sql/SqlConversationReadWriteStore.cpp\<close>, which moves a reader's cursor, and the group part of
  the conversation list of \<open>src/src/storage/sql/SqlConversationRepo.cpp\<close>, which shows the unread count.
  Sequence numbers, message identifiers and times are natural numbers: the columns hold 64 bits and a
  group does not get 2^64 messages.
\<close>

subsection \<open>Storing a message\<close>

record GroupMessageWriteCommand =
  gc_msgId :: nat
  gc_serverTsMs :: nat
  gc_groupId :: groupId
  gc_senderAccountId :: accountId
  gc_senderUsername :: string
  gc_content :: string

definition preview_of :: "string \<Rightarrow> string" where
  "preview_of content = (if length content > 200 then take 200 content else content)"

definition select_head :: "groupId \<Rightarrow> group_tables \<Rightarrow> head_row list" where
  "select_head gid t = (case map_of (group_heads t) gid of None \<Rightarrow> [] | Some h \<Rightarrow> [h])"

text \<open>Both the message identifier and the pair of group and sequence number are unique keys.\<close>

definition insert_message :: "GroupMessageWriteCommand \<Rightarrow> nat \<Rightarrow> group_tables \<Rightarrow> int + nat \<times> group_tables" where
  "insert_message c seq t =
     (if map_of (group_messages t) (gc_msgId c) \<noteq> None \<or>
         (\<exists>(i, m) \<in> set (group_messages t). msg_group_id m = gc_groupId c \<and> msg_group_seq m = seq) then Inl 1062
      else Inr (1, t\<lparr>group_messages := emplace (gc_msgId c)
             \<lparr>msg_group_id = gc_groupId c, msg_group_seq = seq, msg_sender_account_id = gc_senderAccountId c,
              msg_sender_username = gc_senderUsername c, msg_content = gc_content c, msg_server_ts_ms = gc_serverTsMs c\<rparr>
             (group_messages t)\<rparr>))"

definition update_head :: "GroupMessageWriteCommand \<Rightarrow> nat \<Rightarrow> group_tables \<Rightarrow> int + nat \<times> group_tables" where
  "update_head c seq t =
     (case map_of (group_heads t) (gc_groupId c) of
        None \<Rightarrow> Inr (0, t)
      | Some h \<Rightarrow>
          let h' = \<lparr>hd_last_seq = seq, hd_last_msg_id = gc_msgId c, hd_last_preview = preview_of (gc_content c),
                    hd_last_sender_account_id = gc_senderAccountId c, hd_last_sender_username = gc_senderUsername c,
                    hd_last_ts_ms = gc_serverTsMs c\<rparr>
          in if h' = h then Inr (0, t)
             else Inr (1, t\<lparr>group_heads := AList.update (gc_groupId c) h' (group_heads t)\<rparr>))"

text \<open>The cursor of an account is replaced by \<open>f\<close> of it; an unchanged row does not count as affected.\<close>

definition update_cursor :: "accountId \<Rightarrow> groupId \<Rightarrow> (cursor_row \<Rightarrow> cursor_row) \<Rightarrow> group_tables \<Rightarrow> int + nat \<times> group_tables" where
  "update_cursor a gid f t =
     (case map_of (group_cursors t) (a, gid) of
        None \<Rightarrow> Inr (0, t)
      | Some c \<Rightarrow> if f c = c then Inr (0, t) else Inr (1, t\<lparr>group_cursors := AList.update (a, gid) (f c) (group_cursors t)\<rparr>))"

definition sender_cursor :: "nat \<Rightarrow> nat \<Rightarrow> nat \<Rightarrow> cursor_row \<Rightarrow> cursor_row" where
  "sender_cursor seq msgId ts c =
     c\<lparr>cur_last_read_seq := max (cur_last_read_seq c) seq, cur_last_read_msg_id := msgId,
       cur_last_read_at_ms := max (cur_last_read_at_ms c) ts\<rparr>"

definition group_commit :: "GroupMessageWriteCommand \<Rightarrow> nat repo_value gdb" where
  "group_commit c =
     (if gc_msgId c = 0 \<or> gc_groupId c = [] \<or> gc_senderAccountId c = [] then ret (InvalidArgument, None)
      else do {
        ok \<leftarrow> acquire;
        if \<not> ok then ret (Internal, None)
        else with_transaction (SqlError, None) (do {
          r1 \<leftarrow> queryPrepared (select_head (gc_groupId c));
          case r1 of Inl _ \<Rightarrow> ret (Inl (SqlError, None)) | Inr hs \<Rightarrow>
          if hs = [] then ret (Inl (NotFound, None)) else
          let groupSeq = hd_last_seq (hd hs) + 1 in do {
          r2 \<leftarrow> executePrepared (insert_message c groupSeq);
          case r2 of Inl _ \<Rightarrow> ret (Inl (SqlError, None)) | Inr n2 \<Rightarrow>
          if n2 = 0 then ret (Inl (NotFound, None)) else do {
          r3 \<leftarrow> executePrepared (update_head c groupSeq);
          case r3 of Inl _ \<Rightarrow> ret (Inl (SqlError, None)) | Inr n3 \<Rightarrow>
          if n3 = 0 then ret (Inl (NotFound, None)) else do {
          r4 \<leftarrow> executePrepared (update_cursor (gc_senderAccountId c) (gc_groupId c) (sender_cursor groupSeq (gc_msgId c) (gc_serverTsMs c)));
          case r4 of Inl _ \<Rightarrow> ret (Inl (SqlError, None)) | Inr n4 \<Rightarrow>
          if n4 = 0 then ret (Inl (NotFound, None)) else ret (Inr (Ok, Some groupSeq))}}}})})"

record GroupMessageWriteResult =
  gw_commitResult :: RepoStatus
  gw_groupSeq :: nat

definition durable :: "GroupMessageWriteResult \<Rightarrow> bool" where
  "durable r \<longleftrightarrow> gw_commitResult r = Ok \<and> gw_groupSeq r > 0"

text \<open>\<open>persist\<close>, without the measured time; the store does not throw.\<close>

definition group_persist :: "GroupMessageWriteCommand \<Rightarrow> GroupMessageWriteResult gdb" where
  "group_persist c =
     (if gc_groupId c = [] \<or> gc_msgId c = 0 \<or> gc_senderAccountId c = []
      then ret \<lparr>gw_commitResult = InvalidArgument, gw_groupSeq = 0\<rparr>
      else do {
        (st, v) \<leftarrow> group_commit c;
        ret \<lparr>gw_commitResult = st, gw_groupSeq = (case v of Some n \<Rightarrow> if st = Ok then n else 0 | None \<Rightarrow> 0)\<rparr>})"

subsection \<open>Reading\<close>

record ConversationReadResult =
  rd_targetId :: string
  rd_readMsgId :: nat
  rd_readAtMs :: nat
  rd_receiptUpdated :: nat

definition select_cursor :: "accountId \<Rightarrow> groupId \<Rightarrow> group_tables \<Rightarrow> cursor_row list" where
  "select_cursor a gid t = (case map_of (group_cursors t) (a, gid) of None \<Rightarrow> [] | Some c \<Rightarrow> [c])"

definition select_message_seq :: "groupId \<Rightarrow> nat \<Rightarrow> group_tables \<Rightarrow> nat list" where
  "select_message_seq gid i t =
     (case map_of (group_messages t) i of None \<Rightarrow> [] | Some m \<Rightarrow> if msg_group_id m = gid then [msg_group_seq m] else [])"

definition read_cursor :: "nat \<Rightarrow> nat \<Rightarrow> nat \<Rightarrow> cursor_row \<Rightarrow> cursor_row" where
  "read_cursor seq msgId at c =
     c\<lparr>cur_last_read_seq := seq, cur_last_read_msg_id := msgId, cur_last_read_at_ms := max (cur_last_read_at_ms c) at\<rparr>"

definition commitGroup :: "accountId \<Rightarrow> groupId \<Rightarrow> nat \<Rightarrow> nat \<Rightarrow> ConversationReadResult repo_value gdb" where
  "commitGroup a gid readMsgId readAtMs = do {
     r1 \<leftarrow> queryPrepared (select_cursor a gid);
     case r1 of Inl _ \<Rightarrow> ret (SqlError, None) | Inr cs \<Rightarrow>
     if cs = [] then ret (TargetNotInGroup, None) else do {
     r2 \<leftarrow> queryPrepared (select_message_seq gid readMsgId);
     case r2 of Inl _ \<Rightarrow> ret (SqlError, None) | Inr ss \<Rightarrow>
     if ss = [] then ret (MessageNotFound, None)
     else if hd ss \<le> cur_last_read_seq (hd cs)
     then ret (Ok, Some \<lparr>rd_targetId = gid, rd_readMsgId = cur_last_read_msg_id (hd cs), rd_readAtMs = cur_last_read_at_ms (hd cs), rd_receiptUpdated = 0\<rparr>)
     else do {
     u \<leftarrow> executePrepared (update_cursor a gid (read_cursor (hd ss) readMsgId readAtMs));
     case u of Inl _ \<Rightarrow> ret (SqlError, None) | Inr n \<Rightarrow>
     if n = 0 then ret (Conflict, None)
     else ret (Ok, Some \<lparr>rd_targetId = gid, rd_readMsgId = readMsgId, rd_readAtMs = readAtMs, rd_receiptUpdated = 0\<rparr>)}}}"

text \<open>The group rows of the conversation list: the cursor joined with the head, and the unread count computed from both.\<close>

record ConversationSummary =
  cs_type :: nat
  cs_targetId :: string
  cs_lastMsgId :: nat
  cs_lastPreview :: string
  cs_lastSenderAccountId :: accountId
  cs_lastSenderUsername :: string
  cs_lastTsMs :: nat
  cs_unreadCount :: nat
  cs_lastReadMsgId :: nat
  cs_lastReadAtMs :: nat

definition group_summary :: "groupId \<Rightarrow> cursor_row \<Rightarrow> head_row \<Rightarrow> ConversationSummary" where
  "group_summary gid c h = \<lparr>cs_type = 2, cs_targetId = gid, cs_lastMsgId = hd_last_msg_id h, cs_lastPreview = hd_last_preview h,
     cs_lastSenderAccountId = hd_last_sender_account_id h, cs_lastSenderUsername = hd_last_sender_username h, cs_lastTsMs = hd_last_ts_ms h,
     cs_unreadCount = (if hd_last_seq h > max (cur_last_read_seq c) (cur_joined_seq c)
                       then hd_last_seq h - max (cur_last_read_seq c) (cur_joined_seq c) else 0),
     cs_lastReadMsgId = cur_last_read_msg_id c, cs_lastReadAtMs = cur_last_read_at_ms c\<rparr>"

definition group_summaries :: "accountId \<Rightarrow> group_tables \<Rightarrow> ConversationSummary list" where
  "group_summaries a t =
     List.map_filter (\<lambda>((b, gid), c). if b = a then map_option (group_summary gid c) (map_of (group_heads t) gid) else None) (group_cursors t)"

text \<open>
  \<open>commit\<close> of the read store: the command is checked, and the handler of its conversation type runs in a
  transaction that is committed if the handler succeeds.
\<close>

definition read_transaction :: "('t, ConversationReadResult repo_value) db \<Rightarrow> ('t, ConversationReadResult repo_value) db" where
  "read_transaction body = do {
     c \<leftarrow> acquire;
     if \<not> c then ret (SqlError, None)
     else with_transaction (SqlError, None) (do {
       r \<leftarrow> body;
       if fst r \<noteq> Ok \<or> snd r = None then ret (Inl r) else ret (Inr r)})}"

definition group_read_commit :: "accountId \<Rightarrow> groupId \<Rightarrow> nat \<Rightarrow> nat \<Rightarrow> ConversationReadResult repo_value gdb" where
  "group_read_commit a gid readMsgId readAtMs =
     (if a = [] \<or> gid = [] \<or> readMsgId = 0 then ret (InvalidArgument, None)
      else read_transaction (commitGroup a gid readMsgId readAtMs))"

subsection \<open>The log of a group\<close>

definition seqs_of :: "groupId \<Rightarrow> group_tables \<Rightarrow> nat list" where
  "seqs_of gid t = map (msg_group_seq \<circ> snd) (filter (\<lambda>(i, m). msg_group_id m = gid) (group_messages t))"

text \<open>
  The messages of a group are numbered from 1 without a gap in the order they were stored, the head
  holds the last number, no cursor points beyond it, and a group that was never created has none of
  these.
\<close>

definition log_ok :: "group_tables \<Rightarrow> bool" where
  "log_ok t \<longleftrightarrow>
     (\<forall>gid h. map_of (group_heads t) gid = Some h \<longrightarrow> seqs_of gid t = [1..<Suc (hd_last_seq h)] \<and>
        (\<forall>a c. map_of (group_cursors t) (a, gid) = Some c \<longrightarrow> cur_last_read_seq c \<le> hd_last_seq h \<and> cur_joined_seq c \<le> hd_last_seq h)) \<and>
     (\<forall>gid. map_of (chat_groups t) gid = None \<longrightarrow>
        map_of (group_heads t) gid = None \<and> seqs_of gid t = [] \<and> (\<forall>a. map_of (group_cursors t) (a, gid) = None))"

lemma log_okD:
  "log_ok t \<Longrightarrow> map_of (group_heads t) gid = Some h \<Longrightarrow> seqs_of gid t = [1..<Suc (hd_last_seq h)]"
  "log_ok t \<Longrightarrow> map_of (group_heads t) gid = Some h \<Longrightarrow> map_of (group_cursors t) (a, gid) = Some c \<Longrightarrow>
     cur_last_read_seq c \<le> hd_last_seq h \<and> cur_joined_seq c \<le> hd_last_seq h"
  unfolding log_ok_def by blast+

text \<open>A change that only removes heads and cursors, or adds groups.\<close>

definition log_le :: "group_tables \<Rightarrow> group_tables \<Rightarrow> bool" where
  "log_le t t' \<longleftrightarrow> group_messages t' = group_messages t \<and> map_of (group_heads t') \<subseteq>\<^sub>m map_of (group_heads t) \<and>
     map_of (group_cursors t') \<subseteq>\<^sub>m map_of (group_cursors t) \<and> dom (map_of (chat_groups t)) \<subseteq> dom (map_of (chat_groups t'))"

lemma map_le_Some: "m \<subseteq>\<^sub>m m' \<Longrightarrow> m k = Some v \<Longrightarrow> m' k = Some v"
  by (metis domI map_le_def)

lemma map_le_None: "m \<subseteq>\<^sub>m m' \<Longrightarrow> m' k = None \<Longrightarrow> m k = None"
  by (metis map_le_Some not_None_eq option.distinct(1))

lemma log_ok_le:
  assumes "log_ok t" "log_le t t'"
  shows "log_ok t'"
proof -
  have s: "seqs_of gid t' = seqs_of gid t" for gid using assms(2) by (simp add: log_le_def seqs_of_def)
  have h: "map_of (group_heads t') \<subseteq>\<^sub>m map_of (group_heads t)" and c: "map_of (group_cursors t') \<subseteq>\<^sub>m map_of (group_cursors t)"
    and g: "map_of (chat_groups t') gid = None \<Longrightarrow> map_of (chat_groups t) gid = None" for gid
    using assms(2) by (auto simp: log_le_def)
  show ?thesis
    unfolding log_ok_def
  proof (intro conjI allI impI)
    fix gid hr assume "map_of (group_heads t') gid = Some hr"
    with h have hr: "map_of (group_heads t) gid = Some hr" by (rule map_le_Some)
    with assms(1) show "seqs_of gid t' = [1..<Suc (hd_last_seq hr)]" by (auto simp: log_ok_def s)
    fix a cr assume "map_of (group_cursors t') (a, gid) = Some cr"
    with c have "map_of (group_cursors t) (a, gid) = Some cr" by (rule map_le_Some)
    with assms(1) hr show "cur_last_read_seq cr \<le> hd_last_seq hr" "cur_joined_seq cr \<le> hd_last_seq hr" unfolding log_ok_def by blast+
  next
    fix gid assume "map_of (chat_groups t') gid = None"
    with assms(1) g have n: "map_of (group_heads t) gid = None" "seqs_of gid t = []" "\<And>a. map_of (group_cursors t) (a, gid) = None"
      unfolding log_ok_def by blast+
    show "map_of (group_heads t') gid = None" "seqs_of gid t' = []" using map_le_None [OF h n(1)] n(2) s by simp_all
    show "map_of (group_cursors t') (a, gid) = None" for a using map_le_None [OF c n(3)] .
  qed
qed

lemma log_le_refl [simp]: "log_le t t" by (simp add: log_le_def)

lemma map_le_delete: "m(k := None) \<subseteq>\<^sub>m m"
  by (auto simp: map_le_def)

lemma map_of_filter_cursor: "map_of (filter (\<lambda>((a, g), c). g \<noteq> gid) al) (a, g) = (if g = gid then None else map_of al (a, g))"
  by (induction al) auto

lemma delete_cursors_le: "map_of (filter (\<lambda>((a, g), c). g \<noteq> gid) al) \<subseteq>\<^sub>m map_of al"
  by (auto simp: map_le_def map_of_filter_cursor split: if_splits)

lemma stmt_log_le:
  "insert_chat_group gid name own t = Inr (n, t') \<Longrightarrow> log_le t t'"
  "insert_member gid a w t = Inr (n, t') \<Longrightarrow> log_le t t'"
  "update_member_role gid a w t = Inr (n, t') \<Longrightarrow> log_le t t'"
  "update_owner gid old new t = Inr (n, t') \<Longrightarrow> log_le t t'"
  "delete_member gid a t = Inr (n, t') \<Longrightarrow> log_le t t'"
  "delete_cursor a gid t = Inr (n, t') \<Longrightarrow> log_le t t'"
  "mark_dissolved gid own at t = Inr (n, t') \<Longrightarrow> log_le t t'"
  "delete_members gid t = Inr (n, t') \<Longrightarrow> log_le t t'"
  "delete_offline gid t = Inr (n, t') \<Longrightarrow> log_le t t'"
  "delete_cursors gid t = Inr (n, t') \<Longrightarrow> log_le t t'"
  "delete_head gid t = Inr (n, t') \<Longrightarrow> log_le t t'"
  "update_requests P f t = Inr (n, t') \<Longrightarrow> log_le t t'"
  by (auto simp: log_le_def insert_chat_group_def insert_member_def update_member_role_def update_owner_def delete_member_def
      delete_cursor_def mark_dissolved_def delete_members_def delete_offline_def delete_cursors_def delete_head_def update_requests_def
      Let_def map_le_delete delete_cursors_le split: if_splits option.splits)

lemma same_groups_log_le: "same_groups t t' \<Longrightarrow> log_le t t'"
  by (simp add: same_groups_def log_le_def)

lemmas log_kept = stmt_log_le [THEN log_ok_le [rotated]]

lemma create_log_ok:
  assumes "log_ok t" "insert_chat_group gid name own t = Inr (n1, t1)" "insert_member gid own 2 t1 = Inr (n2, t2)"
    and "insert_head gid t2 = Inr (n3, t3)" "insert_cursor own gid t3 = Inr (n4, t4)"
  shows "log_ok t4"
proof -
  have n: "map_of (chat_groups t) gid = None" using assms(2) by (auto simp: insert_chat_group_def split: if_splits)
  with assms(1) have e: "seqs_of gid t = []" "\<And>a. map_of (group_cursors t) (a, gid) = None" "map_of (group_heads t) gid = None"
    unfolding log_ok_def by blast+
  have d: "map_of (chat_groups t4) g = None \<Longrightarrow> map_of (chat_groups t) g = None \<and> g \<noteq> gid" for g
    using assms(2-5) n by (auto simp: insert_chat_group_def insert_member_def insert_head_def insert_cursor_def split: if_splits)
  have t4: "group_messages t4 = group_messages t" "map_of (group_heads t4) = (map_of (group_heads t))(gid \<mapsto> head_new)"
    "map_of (group_cursors t4) = (map_of (group_cursors t))((own, gid) \<mapsto>
       \<lparr>cur_last_read_seq = 0, cur_last_read_msg_id = 0, cur_last_read_at_ms = 0, cur_joined_seq = 0\<rparr>)"
    using assms(2-5) by (auto simp: insert_chat_group_def insert_member_def insert_head_def insert_cursor_def split: if_splits)
  then have s: "seqs_of g t4 = seqs_of g t" for g by (simp add: seqs_of_def)
  show ?thesis
    unfolding log_ok_def
  proof (intro conjI allI impI)
    fix g h assume h: "map_of (group_heads t4) g = Some h"
    show "seqs_of g t4 = [1..<Suc (hd_last_seq h)]"
      using h e(1) assms(1) by (auto simp: t4 s log_ok_def head_new_def split: if_splits)
    fix a c assume "map_of (group_cursors t4) (a, g) = Some c"
    then show "cur_last_read_seq c \<le> hd_last_seq h" "cur_joined_seq c \<le> hd_last_seq h"
      using h e(2) assms(1) by (auto simp: t4 log_ok_def split: if_splits)
  next
    fix g assume "map_of (chat_groups t4) g = None"
    from d [OF this] have g: "map_of (chat_groups t) g = None" "g \<noteq> gid" by simp_all
    with assms(1) show "map_of (group_heads t4) g = None" "seqs_of g t4 = []" "map_of (group_cursors t4) (a, g) = None" for a
      by (auto simp: t4 s log_ok_def)
  qed
qed

interpretation log_kept: table_invariant log_ok
proof
  fix t gid a w st t' assume ok: "log_ok t" and "may t (sql_addMember gid a w) st t'"
  then have "t' = t \<or> (\<exists>n. insert_member gid a w t = Inr (n, t'))"
    by (auto simp: sql_addMember_def insert_member_if_active_def split: if_splits)
  then show "log_ok t'" using ok log_kept(2) [of gid a w t _ t'] by auto
next
  fix t gid a w st t' assume "log_ok t" "may t (sql_updateMemberRole gid a w) st t'"
  then show "log_ok t'" by (auto simp: sql_updateMemberRole_def sql_isMember_def split: if_splits dest!: stmt_log_le) (metis log_ok_le)+
next
  fix t gid old new st t' assume "log_ok t" "may t (sql_transferOwner gid old new) st t'"
  then show "log_ok t'" by (auto simp: sql_transferOwner_def split: if_splits dest!: stmt_log_le) (metis log_ok_le)+
next
  fix t gid name own st t' assume "log_ok t" "may t (sql_createGroupWithOwner gid name own) st t'"
  then show "log_ok t'" by (auto simp: sql_createGroupWithOwner_def split: if_splits) (blast intro: create_log_ok)
next
  fix t gid a st t' assume "log_ok t" "may t (sql_removeMember gid a) st t'"
  then show "log_ok t'" by (auto simp: sql_removeMember_def sql_groupExists_def split: if_splits dest!: stmt_log_le) (metis log_ok_le)+
next
  fix t gid own at d t' assume "log_ok t" "may t (sql_dissolveGroup gid own at) d t'"
  then show "log_ok t'"
    by (auto simp: sql_dissolveGroup_def split: if_splits option.splits list.splits GroupStatus.splits dest!: stmt_log_le) (metis log_ok_le)+
qed (rule log_ok_le, auto simp: log_le_def)

lemma insert_cursor_at_head_log:
  assumes "log_ok t" "insert_cursor_at_head a gid t = Inr (n, t')"
  shows "log_ok t'"
proof (cases "map_of (group_heads t) gid")
  case None
  with assms show ?thesis by (simp add: insert_cursor_at_head_def)
next
  case (Some h)
  define c where "c = \<lparr>cur_last_read_seq = hd_last_seq h, cur_last_read_msg_id = hd_last_msg_id h, cur_last_read_at_ms = 0, cur_joined_seq = hd_last_seq h\<rparr>"
  have t': "t' = t\<lparr>group_cursors := emplace (a, gid) c (group_cursors t)\<rparr>" "map_of (group_cursors t) (a, gid) = None"
    using assms(2) Some by (auto simp: insert_cursor_at_head_def c_def split: if_splits)
  then have m: "map_of (group_cursors t') = (map_of (group_cursors t))((a, gid) \<mapsto> c)" by simp
  have s: "seqs_of g t' = seqs_of g t" for g by (simp add: t' seqs_of_def)
  have g: "map_of (chat_groups t) gid \<noteq> None" using assms(1) Some by (auto simp: log_ok_def)
  show ?thesis
    using assms(1) Some g unfolding log_ok_def m s by (auto simp: t'(1) c_def)
qed

lemma review_log:
  assumes "log_ok t" "may t (sql_review gid a reviewer approve mx now) (st, v) t'"
  shows "log_ok t'"
  using assms(2)
proof (cases rule: sql_review_cases)
  case none
  with assms(1) show ?thesis by simp
next
  case (rejected row n)
  from log_kept(12) [OF rejected(3) [unfolded settle_request_def]] assms(1) show ?thesis .
next
  case (approved row n1 t1 n2 t2 n3)
  have "insert_member gid a 0 t = Inr (n1, t1)" using approved(4,5) by (simp add: insert_member_if_active_def split: if_splits)
  from log_kept(2) [OF this assms(1)] have "log_ok t1" .
  from insert_cursor_at_head_log [OF this approved(6)] have "log_ok t2" .
  from log_kept(12) [OF approved(8) [unfolded settle_request_def] this] show ?thesis .
qed

subsection \<open>Posting and reading keep the log\<close>

definition stored_message :: "GroupMessageWriteCommand \<Rightarrow> nat \<Rightarrow> message_row" where
  "stored_message c seq = \<lparr>msg_group_id = gc_groupId c, msg_group_seq = seq, msg_sender_account_id = gc_senderAccountId c,
     msg_sender_username = gc_senderUsername c, msg_content = gc_content c, msg_server_ts_ms = gc_serverTsMs c\<rparr>"

lemma group_commit_cases:
  assumes "may t (group_commit c) (st, v) t'"
  obtains (none) "st \<noteq> Ok" "t' = t"
    | (stored) h cr h' where "st = Ok" "v = Some (Suc (hd_last_seq h))" "map_of (group_heads t) (gc_groupId c) = Some h"
        "map_of (group_cursors t) (gc_senderAccountId c, gc_groupId c) = Some cr" "hd_last_seq h' = Suc (hd_last_seq h)"
        "map_of (group_messages t) (gc_msgId c) = None"
        "t' = t\<lparr>group_messages := group_messages t @ [(gc_msgId c, stored_message c (Suc (hd_last_seq h)))],
               group_heads := AList.update (gc_groupId c) h' (group_heads t),
               group_cursors := AList.update (gc_senderAccountId c, gc_groupId c)
                 (sender_cursor (Suc (hd_last_seq h)) (gc_msgId c) (gc_serverTsMs c) cr) (group_cursors t)\<rparr>"
proof -
  have "st \<noteq> Ok \<and> t' = t \<or>
    (\<exists>n2 t1 n3 t2 n4. let seq = Suc (hd_last_seq (hd (select_head (gc_groupId c) t))) in select_head (gc_groupId c) t \<noteq> [] \<and>
       insert_message c seq t = Inr (n2, t1) \<and> update_head c seq t1 = Inr (n3, t2) \<and> n3 \<noteq> 0 \<and>
       update_cursor (gc_senderAccountId c) (gc_groupId c) (sender_cursor seq (gc_msgId c) (gc_serverTsMs c)) t2 = Inr (n4, t') \<and> n4 \<noteq> 0 \<and>
       st = Ok \<and> v = Some seq)"
    using assms by (auto simp: group_commit_def Let_def split: if_splits)
  then show thesis
  proof (elim disjE exE, goal_cases)
    case 1
    then show ?case using none by blast
  next
    case (2 n2 t1 n3 t2 n4)
    then obtain h where h: "map_of (group_heads t) (gc_groupId c) = Some h" "hd (select_head (gc_groupId c) t) = h"
      by (auto simp: Let_def select_head_def split: option.splits)
    define h' where "h' = \<lparr>hd_last_seq = Suc (hd_last_seq h), hd_last_msg_id = gc_msgId c, hd_last_preview = preview_of (gc_content c),
        hd_last_sender_account_id = gc_senderAccountId c, hd_last_sender_username = gc_senderUsername c, hd_last_ts_ms = gc_serverTsMs c\<rparr>"
    from 2 h have s: "insert_message c (Suc (hd_last_seq h)) t = Inr (n2, t1)" "update_head c (Suc (hd_last_seq h)) t1 = Inr (n3, t2)" "n3 \<noteq> 0"
      "update_cursor (gc_senderAccountId c) (gc_groupId c) (sender_cursor (Suc (hd_last_seq h)) (gc_msgId c) (gc_serverTsMs c)) t2 = Inr (n4, t')"
      "n4 \<noteq> 0" "st = Ok" "v = Some (Suc (hd_last_seq h))" by (simp_all add: Let_def)
    have n: "map_of (group_messages t) (gc_msgId c) = None" using s(1) by (auto simp: insert_message_def split: if_splits)
    have t1: "t1 = t\<lparr>group_messages := group_messages t @ [(gc_msgId c, stored_message c (Suc (hd_last_seq h)))]\<rparr>"
      using s(1) n by (auto simp: insert_message_def emplace_fresh stored_message_def split: if_splits)
    have t2: "t2 = t1\<lparr>group_heads := AList.update (gc_groupId c) h' (group_heads t1)\<rparr>"
      using s(2,3) h(1) by (auto simp: update_head_def Let_def t1 h'_def split: if_splits)
    obtain cr where cr: "map_of (group_cursors t) (gc_senderAccountId c, gc_groupId c) = Some cr"
      "t' = t2\<lparr>group_cursors := AList.update (gc_senderAccountId c, gc_groupId c)
                 (sender_cursor (Suc (hd_last_seq h)) (gc_msgId c) (gc_serverTsMs c) cr) (group_cursors t2)\<rparr>"
      using s(4,5) by (auto simp: update_cursor_def t1 t2 split: option.splits if_splits)
    show ?case by (rule stored [OF s(6,7) h(1) cr(1) _ n, of h']) (simp_all add: h'_def cr(2) t2 t1)
  qed
qed

lemma seqs_of_append: "seqs_of gid (t\<lparr>group_messages := group_messages t @ [(i, m)]\<rparr>) =
    seqs_of gid t @ (if msg_group_id m = gid then [msg_group_seq m] else [])"
  by (simp add: seqs_of_def)

lemma group_commit_log:
  assumes "log_ok t" "may t (group_commit c) r t'"
  shows "log_ok t'"
proof -
  obtain st v where "r = (st, v)" by (cases r)
  with assms(2) have "may t (group_commit c) (st, v) t'" by simp
  then show ?thesis
  proof (cases rule: group_commit_cases)
    case none
    with assms(1) show ?thesis by simp
  next
    case (stored h cr h')
    let ?gid = "gc_groupId c"
    have s: "seqs_of g t' = seqs_of g t @ (if g = ?gid then [Suc (hd_last_seq h)] else [])" for g
      unfolding stored(7) by (simp add: seqs_of_def stored_message_def)
    have hs: "map_of (group_heads t') = (map_of (group_heads t))(?gid \<mapsto> h')"
      and cs: "map_of (group_cursors t') = (map_of (group_cursors t))((gc_senderAccountId c, ?gid) \<mapsto>
        sender_cursor (Suc (hd_last_seq h)) (gc_msgId c) (gc_serverTsMs c) cr)" and cg: "chat_groups t' = chat_groups t"
      by (simp_all add: stored(7))
    have old: "seqs_of ?gid t = [1..<Suc (hd_last_seq h)]"
      "\<And>a k. map_of (group_cursors t) (a, ?gid) = Some k \<Longrightarrow> cur_last_read_seq k \<le> hd_last_seq h \<and> cur_joined_seq k \<le> hd_last_seq h"
      using assms(1) stored(3) unfolding log_ok_def by blast+
    have g: "map_of (chat_groups t) ?gid \<noteq> None" using assms(1) stored(3) unfolding log_ok_def by fastforce
    show ?thesis
      unfolding log_ok_def
    proof (intro conjI allI impI)
      fix g hr assume hr: "map_of (group_heads t') g = Some hr"
      show "seqs_of g t' = [1..<Suc (hd_last_seq hr)]"
        using hr old(1) stored(5) assms(1) by (auto simp: hs s log_ok_def split: if_splits)
      fix a k assume k: "map_of (group_cursors t') (a, g) = Some k"
      have "cur_last_read_seq k \<le> hd_last_seq hr \<and> cur_joined_seq k \<le> hd_last_seq hr"
      proof (cases "g = ?gid")
        case True
        with hr have "hr = h'" by (simp add: hs)
        moreover have "cur_last_read_seq k \<le> Suc (hd_last_seq h) \<and> cur_joined_seq k \<le> Suc (hd_last_seq h)"
          using k True old(2) [of a k] old(2) [OF stored(4)] by (auto simp: cs sender_cursor_def split: if_splits)
        ultimately show ?thesis using stored(5) by simp
      next
        case False
        with hr k assms(1) show ?thesis by (auto simp: hs cs log_ok_def split: if_splits)
      qed
      then show "cur_last_read_seq k \<le> hd_last_seq hr" "cur_joined_seq k \<le> hd_last_seq hr" by auto
    next
      fix g assume "map_of (chat_groups t') g = None"
      with cg g have "map_of (chat_groups t) g = None" "g \<noteq> ?gid" by auto
      with assms(1) show "map_of (group_heads t') g = None" "seqs_of g t' = []" "map_of (group_cursors t') (a, g) = None" for a
        by (auto simp: hs cs s log_ok_def)
    qed
  qed
qed

lemma may_read_transaction:
  assumes "may t (read_transaction body) (st, v) t'"
  shows "t' = t \<or> may t body (st, v) t' \<and> st = Ok"
  using assms by (auto simp: read_transaction_def split: if_splits)

lemma commitGroup_cases:
  assumes "may t (commitGroup a gid i at) (Ok, v) t'"
  obtains (none) "t' = t"
    | (moved) cr m where "map_of (group_cursors t) (a, gid) = Some cr" "map_of (group_messages t) i = Some m" "msg_group_id m = gid"
        "cur_last_read_seq cr < msg_group_seq m"
        "t' = t\<lparr>group_cursors := AList.update (a, gid) (read_cursor (msg_group_seq m) i at cr) (group_cursors t)\<rparr>"
proof -
  have "t' = t \<or> (\<exists>n. select_cursor a gid t \<noteq> [] \<and> select_message_seq gid i t \<noteq> [] \<and>
      cur_last_read_seq (hd (select_cursor a gid t)) < hd (select_message_seq gid i t) \<and>
      update_cursor a gid (read_cursor (hd (select_message_seq gid i t)) i at) t = Inr (n, t') \<and> n \<noteq> 0)"
    using assms by (auto simp: commitGroup_def split: if_splits)
  then show thesis
  proof (elim disjE exE conjE)
    fix n assume s: "select_cursor a gid t \<noteq> []" "select_message_seq gid i t \<noteq> []"
      "cur_last_read_seq (hd (select_cursor a gid t)) < hd (select_message_seq gid i t)"
      "update_cursor a gid (read_cursor (hd (select_message_seq gid i t)) i at) t = Inr (n, t')" "n \<noteq> 0"
    obtain cr where cr: "map_of (group_cursors t) (a, gid) = Some cr" "hd (select_cursor a gid t) = cr"
      using s(1) by (auto simp: select_cursor_def split: option.splits)
    obtain m where m: "map_of (group_messages t) i = Some m" "msg_group_id m = gid" "hd (select_message_seq gid i t) = msg_group_seq m"
      using s(2) by (auto simp: select_message_seq_def split: option.splits if_splits)
    show thesis using s(3-5) cr m by (intro moved [of cr m]) (auto simp: update_cursor_def split: if_splits)
  qed (rule none)
qed

lemma message_seq_in: "map_of (group_messages t) i = Some m \<Longrightarrow> msg_group_seq m \<in> set (seqs_of (msg_group_id m) t)"
  by (force simp: seqs_of_def dest!: map_of_SomeD)

lemma commitGroup_log:
  assumes "log_ok t" "may t (commitGroup a gid i at) (Ok, v) t'"
  shows "log_ok t'"
  using assms(2)
proof (cases rule: commitGroup_cases)
  case none
  with assms(1) show ?thesis by simp
next
  case (moved cr m)
  have s: "seqs_of g t' = seqs_of g t" for g by (simp add: moved(5) seqs_of_def)
  have c: "map_of (group_cursors t') = (map_of (group_cursors t))((a, gid) \<mapsto> read_cursor (msg_group_seq m) i at cr)"
    and o: "group_heads t' = group_heads t" "chat_groups t' = chat_groups t" by (simp_all add: moved(5))
  have le: "msg_group_seq m \<le> hd_last_seq h" if "map_of (group_heads t) gid = Some h" for h
    using message_seq_in [OF moved(2)] log_okD(1) [OF assms(1) that] moved(3) by auto
  have g: "map_of (chat_groups t) gid \<noteq> None" using assms(1) moved(1) unfolding log_ok_def by fastforce
  have cur: "cur_last_read_seq k \<le> hd_last_seq h \<and> cur_joined_seq k \<le> hd_last_seq h"
    if "map_of (group_heads t) g = Some h" "map_of (group_cursors t') (b, g) = Some k" for b g h k
    using that le log_okD(2) [OF assms(1) that(1)] moved(1) by (auto simp: c read_cursor_def split: if_splits)
  have none: "map_of (group_cursors t') (b, g) = None" if "map_of (chat_groups t) g = None" for b g
    using that assms(1) \<open>map_of (chat_groups t) gid \<noteq> None\<close> by (auto simp: c log_ok_def)
  show ?thesis
    unfolding log_ok_def o s using assms(1) none cur unfolding log_ok_def by blast
qed

inductive chat_step :: "group_deps \<Rightarrow> group_system \<Rightarrow> group_system \<Rightarrow> bool" for deps where
  membership: "join_step deps S S' \<Longrightarrow> chat_step deps S S'"
| posted: "run_state (in_store (group_persist c)) S = (r, S') \<Longrightarrow> chat_step deps S S'"
| read: "run_state (in_store (group_read_commit a gid i at)) S = (v, S') \<Longrightarrow> chat_step deps S S'"

lemma group_persist_may:
  assumes "may t (group_persist c) r t'"
  shows "t' = t \<and> gw_commitResult r \<noteq> Ok \<or> (\<exists>st v. may t (group_commit c) (st, v) t' \<and>
    r = \<lparr>gw_commitResult = st, gw_groupSeq = (case v of Some n \<Rightarrow> if st = Ok then n else 0 | None \<Rightarrow> 0)\<rparr>)"
  using assms by (auto simp: group_persist_def split: if_splits)

lemma join_step_log:
  assumes "join_step deps S S'" "join_system_ok S" "log_ok (tables (store S))"
  shows "log_ok (tables (store S'))"
  using assms
proof (induction rule: join_step.induct)
  case (group S S')
  then show ?case using log_kept.group_step_keeps by blast
next
  case (submitted gid a message now S r S')
  obtain st v where r: "r = (st, v)" by (cases r)
  from applyToJoin_may [OF submitted(1)] show ?case
  proof (elim disjE exE conjE)
    fix d assume d: "may (tables (store S)) (sql_submit gid a message now) r (tables d)" "S' = S\<lparr>store := d\<rparr>"
    from submit_effect [OF submitted(2) [THEN conjunct2] d(1) [unfolded r]] have "log_le (tables (store S)) (tables d)"
      by (blast intro: same_groups_log_le)
    from log_ok_le [OF submitted(3) this] show ?thesis by (simp add: d(2))
  qed (use submitted(3) in simp)
next
  case (reviewed clockMs gid a reviewer approve now S r S')
  have "svc_keeps log_ok (reviewRequest deps clockMs gid a reviewer approve now)"
    unfolding reviewRequest_def join_reloadGroup_def
    by (auto split: prod.splits option.splits intro!: svc_keeps_store) (metis review_log surj_pair)
  with reviewed(1,3) show ?case unfolding svc_keeps_def by blast
next
  case (cleaned cutoff limit S r S')
  from cleaned_may [OF cleaned(1)] obtain d where d: "S' = S\<lparr>store := d\<rparr>"
    "tables d = tables (store S) \<or> (\<exists>n. delete_handled cutoff limit (tables (store S)) = Inr (n, tables d))" by blast
  have "log_le (tables (store S)) (tables d)"
    using d(2) delete_handled_effect [OF cleaned(2) [THEN conjunct2]] same_groups_log_le by (metis log_le_refl)
  from log_ok_le [OF cleaned(3) this] show ?case by (simp add: d(1))
qed

lemma same_membership:
  assumes "chat_groups t' = chat_groups t" "group_members t' = group_members t"
    "group_join_requests t' = group_join_requests t" "next_request_id t' = next_request_id t"
  shows "requests_ok t' = requests_ok t" "store_ok t' = store_ok t" "view t' = view t"
proof -
  have r: "role_in t' = role_in t" using assms(2) by (simp add: role_in_def fun_eq_iff)
  show "view t' = view t" by (rule view_eqI) (simp_all add: r assms)
  show "requests_ok t' = requests_ok t" "store_ok t' = store_ok t"
    by (simp_all add: requests_ok_def store_ok_def keys_ok_def is_active_def r assms)
qed

lemma group_commit_membership:
  assumes "may t (group_commit c) (st, v) t'"
  shows "chat_groups t' = chat_groups t \<and> group_members t' = group_members t \<and>
    group_join_requests t' = group_join_requests t \<and> next_request_id t' = next_request_id t"
  using assms by (cases rule: group_commit_cases) auto

lemma commitGroup_membership:
  assumes "may t (commitGroup a gid i at) (Ok, v) t'"
  shows "chat_groups t' = chat_groups t \<and> group_members t' = group_members t \<and>
    group_join_requests t' = group_join_requests t \<and> next_request_id t' = next_request_id t"
  using assms by (cases rule: commitGroup_cases) auto

lemma join_system_store:
  assumes "join_system_ok S" "chat_groups (tables d) = chat_groups (tables (store S)) \<and> group_members (tables d) = group_members (tables (store S)) \<and>
    group_join_requests (tables d) = group_join_requests (tables (store S)) \<and> next_request_id (tables d) = next_request_id (tables (store S))"
  shows "join_system_ok (S\<lparr>store := d\<rparr>)"
  using assms same_membership [of "tables d" "tables (store S)"] by (simp add: svc_ok_def)

lemma chat_step_ok:
  assumes "chat_step deps S S'" "join_system_ok S \<and> log_ok (tables (store S))"
  shows "join_system_ok S' \<and> log_ok (tables (store S'))"
  using assms
proof (induction rule: chat_step.induct)
  case (membership S S')
  then show ?case using join_step_effect join_step_log by blast
next
  case (posted c S r S')
  from posted(1) obtain d where d: "run_state (group_persist c) (store S) = (r, d)" "S' = S\<lparr>store := d\<rparr>" by (rule in_storeE)
  from group_persist_may [OF mayI [OF d(1)]] show ?case
  proof (elim disjE exE conjE)
    assume "tables d = tables (store S)"
    with posted(2) d(2) show ?thesis by (simp add: svc_ok_def)
  next
    fix st v assume m: "may (tables (store S)) (group_commit c) (st, v) (tables d)"
    show ?thesis using join_system_store [OF _ group_commit_membership [OF m]] group_commit_log [OF _ m] posted(2) by (simp add: d(2))
  qed
next
  case (read a gid i at S v S')
  from read(1) obtain d where d: "run_state (group_read_commit a gid i at) (store S) = (v, d)" "S' = S\<lparr>store := d\<rparr>" by (rule in_storeE)
  obtain st w where v: "v = (st, w)" by (cases v)
  have "tables d = tables (store S) \<or> may (tables (store S)) (commitGroup a gid i at) (Ok, w) (tables d)"
    using mayI [OF d(1)] may_read_transaction [of "tables (store S)" "commitGroup a gid i at" st w "tables d"]
    by (auto simp: group_read_commit_def v split: if_splits)
  then show ?case
  proof
    assume "tables d = tables (store S)"
    with read(2) d(2) show ?thesis by (simp add: svc_ok_def)
  next
    assume m: "may (tables (store S)) (commitGroup a gid i at) (Ok, w) (tables d)"
    show ?thesis using join_system_store [OF _ commitGroup_membership [OF m]] commitGroup_log [OF _ m] read(2) by (simp add: d(2))
  qed
qed

lemma chat_steps_ok: "(chat_step deps)\<^sup>*\<^sup>* group_system_new S \<Longrightarrow> join_system_ok S \<and> log_ok (tables (store S))"
proof (induction rule: rtranclp_induct)
  case base
  then show ?case using join_system_new_ok by (simp add: log_ok_def group_system_new_def Tables_new_def seqs_of_def)
qed (use chat_step_ok in blast)

lemma count_above: "k \<le> n \<Longrightarrow> length (filter (\<lambda>s. k < s) [1..<Suc n]) = n - k"
proof (induction n)
  case (Suc n)
  show ?case
  proof (cases "k \<le> n")
    case True
    with Suc.IH show ?thesis by simp
  next
    case False
    with Suc.prems have "k = Suc n" by simp
    then have "filter (\<lambda>s. k < s) [1..<Suc (Suc n)] = []" by (auto simp: filter_empty_conv)
    with \<open>k = Suc n\<close> show ?thesis by simp
  qed
qed simp

lemma count_messages_above:
  "length (filter (\<lambda>(i, m). msg_group_id m = gid \<and> k < msg_group_seq m) (group_messages t)) = length (filter (\<lambda>s. k < s) (seqs_of gid t))"
proof -
  have "length (filter (\<lambda>(i, m). msg_group_id m = gid \<and> k < msg_group_seq m) ms) =
    length (filter (\<lambda>s. k < s) (map (msg_group_seq \<circ> snd) (filter (\<lambda>(i, m). msg_group_id m = gid) ms)))" for ms :: "(nat \<times> message_row) list"
    by (induction ms) auto
  then show ?thesis by (simp add: seqs_of_def)
qed

subsection \<open>Properties\<close>

text \<open>
  C14. In every state the server can reach, with groups, memberships, posts and reads interleaved in any
  way and the database failing at any point, the messages of a group are numbered 1, 2, 3, ... without a
  gap or a repetition, and the unread count that the conversation list shows to a member is exactly the
  number of messages after both the member's read position and the point of joining.
\<close>

theorem group_unread_exact:
  assumes "(chat_step deps)\<^sup>*\<^sup>* group_system_new S"
  shows "let t = tables (store S) in
    \<forall>gid h. map_of (group_heads t) gid = Some h \<longrightarrow> seqs_of gid t = [1..<Suc (hd_last_seq h)] \<and>
      (\<forall>a c. map_of (group_cursors t) (a, gid) = Some c \<longrightarrow>
         cs_unreadCount (group_summary gid c h) =
           length (filter (\<lambda>(i, m). msg_group_id m = gid \<and> max (cur_last_read_seq c) (cur_joined_seq c) < msg_group_seq m) (group_messages t)))"
proof -
  note ok = chat_steps_ok [OF assms, THEN conjunct2]
  have "cs_unreadCount (group_summary gid c h) = length (filter (\<lambda>s. max (cur_last_read_seq c) (cur_joined_seq c) < s) (seqs_of gid (tables (store S))))"
    if "map_of (group_heads (tables (store S))) gid = Some h" "map_of (group_cursors (tables (store S))) (a, gid) = Some c" for a gid c h
  proof -
    have "max (cur_last_read_seq c) (cur_joined_seq c) \<le> hd_last_seq h" using log_okD(2) [OF ok that] by simp
    note n = count_above [OF this]
    have "cs_unreadCount (group_summary gid c h) = hd_last_seq h - max (cur_last_read_seq c) (cur_joined_seq c)"
      by (auto simp: group_summary_def)
    then show ?thesis unfolding log_okD(1) [OF ok that(1)] n .
  qed
  then show ?thesis unfolding Let_def count_messages_above using log_okD(1) [OF ok] by blast
qed

text \<open>
  A post reported as durable has been appended to the log of its group with the next number, which
  is the one reported, and the sender has nothing unread; a post not reported as durable has left the
  database as it was.
\<close>

theorem durable_post_is_logged:
  assumes "(chat_step deps)\<^sup>*\<^sup>* group_system_new S" "run_state (in_store (group_persist c)) S = (r, S')"
  shows "let t = tables (store S); t' = tables (store S'); gid = gc_groupId c in
    (if durable r
     then gw_groupSeq r = Suc (length (seqs_of gid t)) \<and>
       group_messages t' = group_messages t @ [(gc_msgId c, stored_message c (gw_groupSeq r))] \<and>
       (\<exists>h k. map_of (group_heads t') gid = Some h \<and> hd_last_seq h = gw_groupSeq r \<and>
          map_of (group_cursors t') (gc_senderAccountId c, gid) = Some k \<and> cs_unreadCount (group_summary gid k h) = 0)
     else t' = t)"
proof -
  note ok = chat_steps_ok [OF assms(1), THEN conjunct2]
  from assms(2) obtain d where d: "run_state (group_persist c) (store S) = (r, d)" "S' = S\<lparr>store := d\<rparr>" by (rule in_storeE)
  from group_persist_may [OF mayI [OF d(1)]] show ?thesis
  proof (elim disjE exE conjE)
    assume "tables d = tables (store S)" "gw_commitResult r \<noteq> Ok"
    then show ?thesis by (simp add: d(2) durable_def Let_def)
  next
    fix st v assume m: "may (tables (store S)) (group_commit c) (st, v) (tables d)"
      and r: "r = \<lparr>gw_commitResult = st, gw_groupSeq = (case v of Some n \<Rightarrow> if st = Ok then n else 0 | None \<Rightarrow> 0)\<rparr>"
    from m show ?thesis
    proof (cases rule: group_commit_cases)
      case none
      then show ?thesis by (simp add: d(2) durable_def Let_def r)
    next
      case (stored h cr h')
      have "gw_groupSeq r = Suc (hd_last_seq h)" "durable r" by (simp_all add: r stored(1,2) durable_def)
      moreover have "length (seqs_of (gc_groupId c) (tables (store S))) = hd_last_seq h" using log_okD(1) [OF ok stored(3)] by simp
      ultimately show ?thesis using stored(5) by (simp add: d(2) Let_def stored(7) group_summary_def sender_cursor_def)
    qed
  qed
qed

definition demo_post :: "accountId \<Rightarrow> nat \<Rightarrow> GroupMessageWriteCommand" where
  "demo_post a i = \<lparr>gc_msgId = i, gc_serverTsMs = 9, gc_groupId = ''7'', gc_senderAccountId = a, gc_senderUsername = a, gc_content = ''hello''\<rparr>"

definition demo_posted :: group_system where
  "demo_posted = snd (run_state (in_store (group_persist (demo_post ''amy'' 100))) demo_created)"

lemma demo_created_reached: "(chat_step demo_deps)\<^sup>*\<^sup>* group_system_new demo_created"
proof -
  have "chat_step demo_deps group_system_new demo_created"
    unfolding demo_created_def by (rule chat_step.membership, rule join_step.group, rule group_step.create) (rule prod.collapse [symmetric])
  then show ?thesis by auto
qed

lemma demo_posted_reached: "(chat_step demo_deps)\<^sup>*\<^sup>* group_system_new demo_posted"
proof -
  have "chat_step demo_deps demo_created demo_posted"
    unfolding demo_posted_def by (rule chat_step.posted) (rule prod.collapse [symmetric])
  with demo_created_reached show ?thesis by (rule rtranclp.rtrancl_into_rtrancl)
qed

theorem group_unread_exact_witness:
  "map_option hd_last_seq (map_of (group_heads (tables (store demo_posted))) ''7'') = Some 1 \<and> seqs_of ''7'' (tables (store demo_posted)) = [1]"
proof -
  have "map_option hd_last_seq (map_of (group_heads (tables (store demo_posted))) ''7'') = Some 1" by code_simp
  with group_unread_exact [OF demo_posted_reached] show ?thesis by (auto simp: Let_def)
qed

theorem durable_post_is_logged_witness:
  "group_messages (tables (store demo_posted)) = [(100, stored_message (demo_post ''amy'' 100) 1)]"
proof -
  obtain r where r: "run_state (in_store (group_persist (demo_post ''amy'' 100))) demo_created = (r, demo_posted)"
    unfolding demo_posted_def by (metis prod.collapse)
  have "durable (fst (run_state (in_store (group_persist (demo_post ''amy'' 100))) demo_created))"
    "gw_groupSeq (fst (run_state (in_store (group_persist (demo_post ''amy'' 100))) demo_created)) = 1"
    "group_messages (tables (store demo_created)) = []" by code_simp+
  with durable_post_is_logged [OF demo_created_reached r] r show ?thesis
    by (simp add: Let_def demo_post_def)
qed

text \<open>
  A member who came by invitation has no cursor, because the invitation only inserts the membership;
  so every post of that member is refused, although the member is in the group for the database and for
  the server's memory alike.
\<close>

theorem invited_member_cannot_post:
  "let (r, S') = run_state (in_store (group_persist (demo_post ''bob'' 101))) demo_system
   in gm_roleOf ''7'' ''bob'' (manager demo_system) = Some Member \<and> role_in (tables (store demo_system)) ''7'' ''bob'' = Some 0 \<and>
      gw_commitResult r = NotFound \<and> \<not> durable r \<and> group_messages (tables (store S')) = []"
  by code_simp

end
