(* ===== verification/DirectMessages.thy ===== *)
theory DirectMessages
  imports GroupMessages "HOL-Library.Char_ord" "HOL-Library.List_Lexorder"
begin

text \<open>
  Direct messages: the key of a conversation (\<open>src/include/common/ConversationKey.h\<close>), the store that saves a
  message with everything that follows from it (\<open>src/src/storage/sql/SqlDirectMessageWriteStore.cpp\<close>), the
  service around it (\<open>src/src/im/DirectMessagePersistenceService.cpp\<close>) and the direct part of the read store
  (\<open>src/src/storage/sql/SqlConversationReadWriteStore.cpp\<close>). The tables are those of \<open>src/sql/schema.sql\<close> these
  transactions touch: of \<open>conversations\<close> the rows of direct conversations, of \<open>offline_messages\<close> the rows of
  direct messages. Strings are ordered by their bytes, as \<open>std::string\<close> orders them.
\<close>

subsection \<open>Conversation keys\<close>

definition buildDirectConversationKey :: "accountId \<Rightarrow> accountId \<Rightarrow> string" where
  "buildDirectConversationKey a b =
     (if a = [] \<or> b = [] then []
      else if a < b then a @ ''#'' @ b
      else b @ ''#'' @ a)"

lemma key_sym: "buildDirectConversationKey a b = buildDirectConversationKey b a"
  by (auto simp: buildDirectConversationKey_def)

lemma split_at_hash:
  assumes "u @ CHR ''#'' # v = u' @ CHR ''#'' # v'" "CHR ''#'' \<notin> set u" "CHR ''#'' \<notin> set u'"
  shows "u = u' \<and> v = v'"
  using assms by (induction u arbitrary: u') (auto simp: Cons_eq_append_conv append_eq_Cons_conv)

lemma key_split: "a \<noteq> [] \<Longrightarrow> b \<noteq> [] \<Longrightarrow> \<exists>u v. buildDirectConversationKey a b = u @ CHR ''#'' # v \<and> {u, v} = {a, b}"
  by (cases "a < b") (auto simp: buildDirectConversationKey_def)

lemma key_inj:
  assumes "CHR ''#'' \<notin> set a \<union> set b \<union> set c \<union> set d" "a \<noteq> []" "b \<noteq> []" "c \<noteq> []" "d \<noteq> []"
  shows "buildDirectConversationKey a b = buildDirectConversationKey c d \<longleftrightarrow> {a, b} = {c, d}"
proof
  assume e: "buildDirectConversationKey a b = buildDirectConversationKey c d"
  obtain u v where u: "buildDirectConversationKey a b = u @ CHR ''#'' # v" "{u, v} = {a, b}" using key_split [OF assms(2,3)] by blast
  obtain u' v' where u': "buildDirectConversationKey c d = u' @ CHR ''#'' # v'" "{u', v'} = {c, d}" using key_split [OF assms(4,5)] by blast
  have "CHR ''#'' \<notin> set u" "CHR ''#'' \<notin> set u'" using assms(1) u(2) u'(2) by (auto simp: doubleton_eq_iff)
  with split_at_hash e u(1) u'(1) have "u = u' \<and> v = v'" by metis
  with u(2) u'(2) show "{a, b} = {c, d}" by simp
next
  assume "{a, b} = {c, d}"
  then show "buildDirectConversationKey a b = buildDirectConversationKey c d" by (auto simp: doubleton_eq_iff key_sym)
qed

subsection \<open>Tables and statements\<close>

record direct_message_row =
  dm_conversation_key :: string
  dm_sender_account_id :: accountId
  dm_receiver_account_id :: accountId
  dm_sender_username :: string
  dm_content :: string
  dm_server_ts_ms :: nat

record conversation_row =
  cv_last_msg_id :: nat
  cv_last_preview :: string
  cv_last_sender_account_id :: accountId
  cv_last_sender_username :: string
  cv_last_ts_ms :: nat
  cv_unread_count :: nat
  cv_last_read_msg_id :: nat
  cv_last_read_at_ms :: nat

record receipt_row =
  rc_delivered_at_ms :: nat
  rc_read_at_ms :: nat

record direct_tables =
  user_profiles :: "accountId list"
  friend_relations :: "((accountId \<times> accountId) \<times> nat) list"
  direct_messages :: "(nat \<times> direct_message_row) list"
  conversations :: "((accountId \<times> accountId) \<times> conversation_row) list"
  message_receipts :: "((nat \<times> accountId) \<times> receipt_row) list"
  direct_offline :: "((accountId \<times> nat) \<times> accountId) list"

type_synonym 'a ddb = "(direct_tables, 'a) db"

record DirectMessageWriteCommand =
  dc_msgId :: nat
  dc_serverTsMs :: nat
  dc_conversationKey :: string
  dc_senderAccountId :: accountId
  dc_receiverAccountId :: accountId
  dc_senderUsername :: string
  dc_content :: string

definition insert_direct_message :: "DirectMessageWriteCommand \<Rightarrow> direct_tables \<Rightarrow> int + nat \<times> direct_tables" where
  "insert_direct_message c t =
     (if map_of (direct_messages t) (dc_msgId c) \<noteq> None then Inl 1062
      else Inr (1, t\<lparr>direct_messages := emplace (dc_msgId c)
             \<lparr>dm_conversation_key = dc_conversationKey c, dm_sender_account_id = dc_senderAccountId c,
              dm_receiver_account_id = dc_receiverAccountId c, dm_sender_username = dc_senderUsername c,
              dm_content = dc_content c, dm_server_ts_ms = dc_serverTsMs c\<rparr> (direct_messages t)\<rparr>))"

text \<open>\<open>INSERT ... ON DUPLICATE KEY UPDATE\<close> for the conversation of the sender and for that of the receiver.\<close>

definition upsert_sender :: "DirectMessageWriteCommand \<Rightarrow> direct_tables \<Rightarrow> int + nat \<times> direct_tables" where
  "upsert_sender c t =
     Inr (1, t\<lparr>conversations := AList.update (dc_senderAccountId c, dc_receiverAccountId c)
       \<lparr>cv_last_msg_id = dc_msgId c, cv_last_preview = preview_of (dc_content c), cv_last_sender_account_id = dc_senderAccountId c,
        cv_last_sender_username = dc_senderUsername c, cv_last_ts_ms = dc_serverTsMs c, cv_unread_count = 0,
        cv_last_read_msg_id = dc_msgId c, cv_last_read_at_ms = dc_serverTsMs c\<rparr> (conversations t)\<rparr>)"

definition upsert_receiver :: "DirectMessageWriteCommand \<Rightarrow> direct_tables \<Rightarrow> int + nat \<times> direct_tables" where
  "upsert_receiver c t =
     (let k = (dc_receiverAccountId c, dc_senderAccountId c);
          old = (case map_of (conversations t) k of
                   None \<Rightarrow> (0, 0, 0) | Some row \<Rightarrow> (cv_unread_count row, cv_last_read_msg_id row, cv_last_read_at_ms row))
      in Inr (1, t\<lparr>conversations := AList.update k
       \<lparr>cv_last_msg_id = dc_msgId c, cv_last_preview = preview_of (dc_content c), cv_last_sender_account_id = dc_senderAccountId c,
        cv_last_sender_username = dc_senderUsername c, cv_last_ts_ms = dc_serverTsMs c, cv_unread_count = fst old + 1,
        cv_last_read_msg_id = fst (snd old), cv_last_read_at_ms = snd (snd old)\<rparr> (conversations t)\<rparr>))"

definition insert_pending_delivery :: "DirectMessageWriteCommand \<Rightarrow> direct_tables \<Rightarrow> int + nat \<times> direct_tables" where
  "insert_pending_delivery c t =
     Inr (1, t\<lparr>direct_offline := AList.update (dc_receiverAccountId c, dc_msgId c) (dc_senderAccountId c) (direct_offline t)\<rparr>)"

definition direct_commit :: "DirectMessageWriteCommand \<Rightarrow> RepoStatus ddb" where
  "direct_commit c =
     (if dc_msgId c = 0 \<or> dc_senderAccountId c = [] \<or> dc_receiverAccountId c = [] \<or> dc_conversationKey c = [] then ret InvalidArgument
      else do {
        ok \<leftarrow> acquire;
        if \<not> ok then ret Internal
        else with_transaction SqlError (do {
          r1 \<leftarrow> queryPrepared (\<lambda>t. filter (\<lambda>a. a = dc_receiverAccountId c) (user_profiles t));
          case r1 of Inl _ \<Rightarrow> ret (Inl SqlError) | Inr us \<Rightarrow>
          if us = [] then ret (Inl UserNotFound) else do {
          r2 \<leftarrow> queryPrepared (\<lambda>t. filter (\<lambda>(k, st). k = (dc_senderAccountId c, dc_receiverAccountId c) \<and> st = 1) (friend_relations t));
          case r2 of Inl _ \<Rightarrow> ret (Inl SqlError) | Inr fs \<Rightarrow>
          if fs = [] then ret (Inl NotFriends) else do {
          r3 \<leftarrow> executePrepared (insert_direct_message c);
          case r3 of Inl _ \<Rightarrow> ret (Inl SqlError) | Inr n3 \<Rightarrow>
          if n3 = 0 then ret (Inl NotFound) else do {
          r4 \<leftarrow> executePrepared (upsert_sender c);
          case r4 of Inl _ \<Rightarrow> ret (Inl SqlError) | Inr _ \<Rightarrow> do {
          r5 \<leftarrow> executePrepared (upsert_receiver c);
          case r5 of Inl _ \<Rightarrow> ret (Inl SqlError) | Inr _ \<Rightarrow> do {
          r6 \<leftarrow> executePrepared (insert_pending_delivery c);
          case r6 of Inl _ \<Rightarrow> ret (Inl SqlError) | Inr _ \<Rightarrow> ret (Inr Ok)}}}}}})})"

text \<open>\<open>persist\<close> of the service, without the measured time; the store does not throw.\<close>

definition direct_persist :: "DirectMessageWriteCommand \<Rightarrow> RepoStatus ddb" where
  "direct_persist c =
     (if dc_conversationKey c = [] \<or> dc_msgId c = 0 \<or> dc_senderAccountId c = [] \<or> dc_receiverAccountId c = [] then ret InvalidArgument
      else direct_commit c)"

subsection \<open>Reading\<close>

definition select_conversation :: "accountId \<Rightarrow> accountId \<Rightarrow> direct_tables \<Rightarrow> conversation_row list" where
  "select_conversation a b t = (case map_of (conversations t) (a, b) of None \<Rightarrow> [] | Some row \<Rightarrow> [row])"

definition select_in_conversation :: "string \<Rightarrow> nat \<Rightarrow> direct_tables \<Rightarrow> nat list" where
  "select_in_conversation key i t =
     (case map_of (direct_messages t) i of None \<Rightarrow> [] | Some m \<Rightarrow> if dm_conversation_key m = key then [i] else [])"

text \<open>The messages for \<open>a\<close> in a conversation with identifiers after \<open>lo\<close> up to \<open>hi\<close>.\<close>

definition received_between :: "string \<Rightarrow> accountId \<Rightarrow> nat \<Rightarrow> nat \<Rightarrow> direct_tables \<Rightarrow> nat list" where
  "received_between key a lo hi t =
     map fst (filter (\<lambda>(i, m). dm_conversation_key m = key \<and> dm_receiver_account_id m = a \<and> lo < i \<and> i \<le> hi) (direct_messages t))"

definition add_receipt :: "accountId \<Rightarrow> nat \<Rightarrow> nat \<Rightarrow> ((nat \<times> accountId) \<times> receipt_row) list \<Rightarrow> ((nat \<times> accountId) \<times> receipt_row) list" where
  "add_receipt a at i rs =
     (case map_of rs (i, a) of
        None \<Rightarrow> AList.update (i, a) \<lparr>rc_delivered_at_ms = at, rc_read_at_ms = at\<rparr> rs
      | Some r \<Rightarrow> AList.update (i, a) \<lparr>rc_delivered_at_ms = max (rc_delivered_at_ms r) at, rc_read_at_ms = max (rc_read_at_ms r) at\<rparr> rs)"

definition insert_read_receipts :: "string \<Rightarrow> accountId \<Rightarrow> nat \<Rightarrow> nat \<Rightarrow> nat \<Rightarrow> direct_tables \<Rightarrow> int + nat \<times> direct_tables" where
  "insert_read_receipts key a at lo hi t =
     (let is = received_between key a lo hi t
      in Inr (length is, t\<lparr>message_receipts := fold (add_receipt a at) is (message_receipts t)\<rparr>))"

definition update_unread :: "accountId \<Rightarrow> accountId \<Rightarrow> nat \<Rightarrow> nat \<Rightarrow> nat \<Rightarrow> direct_tables \<Rightarrow> int + nat \<times> direct_tables" where
  "update_unread a b newRead at newly t =
     (case map_of (conversations t) (a, b) of
        None \<Rightarrow> Inr (0, t)
      | Some row \<Rightarrow>
          let row' = row\<lparr>cv_last_read_msg_id := newRead, cv_last_read_at_ms := max (cv_last_read_at_ms row) at,
                         cv_unread_count := (if cv_unread_count row > newly then cv_unread_count row - newly else 0)\<rparr>
          in if row' = row then Inr (0, t) else Inr (1, t\<lparr>conversations := AList.update (a, b) row' (conversations t)\<rparr>))"

definition commitDirect :: "accountId \<Rightarrow> accountId \<Rightarrow> nat \<Rightarrow> nat \<Rightarrow> ConversationReadResult repo_value ddb" where
  "commitDirect a b readMsgId readAtMs = do {
     r1 \<leftarrow> queryPrepared (select_conversation a b);
     case r1 of Inl _ \<Rightarrow> ret (SqlError, None) | Inr rows \<Rightarrow>
     if rows = [] then ret (MessageNotFound, None) else
     let key = buildDirectConversationKey a b in do {
     r2 \<leftarrow> queryPrepared (select_in_conversation key readMsgId);
     case r2 of Inl _ \<Rightarrow> ret (SqlError, None) | Inr ids \<Rightarrow>
     if ids = [] then ret (MessageNotFound, None) else
     let old = cv_last_read_msg_id (hd rows); new = max old readMsgId in
     if new = old
     then ret (Ok, Some \<lparr>rd_targetId = b, rd_readMsgId = old, rd_readAtMs = cv_last_read_at_ms (hd rows), rd_receiptUpdated = 0\<rparr>)
     else do {
     r3 \<leftarrow> queryPrepared (\<lambda>t. [length (received_between key a old new t)]);
     case r3 of Inl _ \<Rightarrow> ret (SqlError, None) | Inr counts \<Rightarrow>
     if counts = [] then ret (MessageNotFound, None) else do {
     r4 \<leftarrow> executePrepared (insert_read_receipts key a readAtMs old new);
     case r4 of Inl _ \<Rightarrow> ret (SqlError, None) | Inr _ \<Rightarrow> do {
     r5 \<leftarrow> executePrepared (update_unread a b new readAtMs (hd counts));
     case r5 of Inl _ \<Rightarrow> ret (SqlError, None) | Inr n5 \<Rightarrow>
     if n5 = 0 then ret (Conflict, None)
     else ret (Ok, Some \<lparr>rd_targetId = b, rd_readMsgId = new, rd_readAtMs = readAtMs, rd_receiptUpdated = hd counts\<rparr>)}}}}}"

definition direct_read_commit :: "accountId \<Rightarrow> accountId \<Rightarrow> nat \<Rightarrow> nat \<Rightarrow> ConversationReadResult repo_value ddb" where
  "direct_read_commit a b readMsgId readAtMs =
     (if a = [] \<or> b = [] \<or> readMsgId = 0 then ret (InvalidArgument, None)
      else read_transaction (commitDirect a b readMsgId readAtMs))"

subsection \<open>What a message changes\<close>

definition direct_row :: "DirectMessageWriteCommand \<Rightarrow> direct_message_row" where
  "direct_row c = \<lparr>dm_conversation_key = dc_conversationKey c, dm_sender_account_id = dc_senderAccountId c,
     dm_receiver_account_id = dc_receiverAccountId c, dm_sender_username = dc_senderUsername c,
     dm_content = dc_content c, dm_server_ts_ms = dc_serverTsMs c\<rparr>"

definition summary_row :: "DirectMessageWriteCommand \<Rightarrow> nat \<Rightarrow> nat \<Rightarrow> nat \<Rightarrow> conversation_row" where
  "summary_row c unread readId readAt = \<lparr>cv_last_msg_id = dc_msgId c, cv_last_preview = preview_of (dc_content c),
     cv_last_sender_account_id = dc_senderAccountId c, cv_last_sender_username = dc_senderUsername c, cv_last_ts_ms = dc_serverTsMs c,
     cv_unread_count = unread, cv_last_read_msg_id = readId, cv_last_read_at_ms = readAt\<rparr>"

definition unread_of :: "direct_tables \<Rightarrow> accountId \<Rightarrow> accountId \<Rightarrow> nat" where
  "unread_of t a b = (case map_of (conversations t) (a, b) of None \<Rightarrow> 0 | Some row \<Rightarrow> cv_unread_count row)"

definition last_read_of :: "direct_tables \<Rightarrow> accountId \<Rightarrow> accountId \<Rightarrow> nat" where
  "last_read_of t a b = (case map_of (conversations t) (a, b) of None \<Rightarrow> 0 | Some row \<Rightarrow> cv_last_read_msg_id row)"

lemma direct_persist_cases:
  assumes "may t (direct_persist c) st t'" "dc_senderAccountId c \<noteq> dc_receiverAccountId c"
  obtains (none) "st \<noteq> Ok" "t' = t"
    | (stored) at where "st = Ok" "dc_receiverAccountId c \<in> set (user_profiles t)"
        "((dc_senderAccountId c, dc_receiverAccountId c), 1) \<in> set (friend_relations t)"
        "dc_senderAccountId c \<noteq> []" "dc_receiverAccountId c \<noteq> []"
        "map_of (direct_messages t) (dc_msgId c) = None" "dc_msgId c \<noteq> 0"
        "direct_messages t' = direct_messages t @ [(dc_msgId c, direct_row c)]"
        "map_of (conversations t') = (map_of (conversations t))
           ((dc_senderAccountId c, dc_receiverAccountId c) \<mapsto> summary_row c 0 (dc_msgId c) (dc_serverTsMs c),
            (dc_receiverAccountId c, dc_senderAccountId c) \<mapsto>
              summary_row c (unread_of t (dc_receiverAccountId c) (dc_senderAccountId c) + 1) (last_read_of t (dc_receiverAccountId c) (dc_senderAccountId c)) at)"
        "map_of (direct_offline t') = (map_of (direct_offline t))((dc_receiverAccountId c, dc_msgId c) \<mapsto> dc_senderAccountId c)"
proof -
  have "st \<noteq> Ok \<and> t' = t \<or> st = Ok \<and> dc_msgId c \<noteq> 0 \<and> dc_senderAccountId c \<noteq> [] \<and> dc_receiverAccountId c \<noteq> [] \<and>
    dc_receiverAccountId c \<in> set (user_profiles t) \<and> ((dc_senderAccountId c, dc_receiverAccountId c), 1) \<in> set (friend_relations t) \<and>
    (\<exists>n3 t1 n4 t2 n5 t3 n6. insert_direct_message c t = Inr (n3, t1) \<and> upsert_sender c t1 = Inr (n4, t2) \<and>
       upsert_receiver c t2 = Inr (n5, t3) \<and> insert_pending_delivery c t3 = Inr (n6, t'))"
    using assms(1) by (auto simp: direct_persist_def direct_commit_def filter_empty_conv split: if_splits)
  then show thesis
  proof (elim disjE conjE exE, goal_cases)
    case 1
    then show ?case using none by blast
  next
    case (2 n3 t1 n4 t2 n5 t3 n6)
    have n: "map_of (direct_messages t) (dc_msgId c) = None" using 2(7) by (auto simp: insert_direct_message_def split: if_splits)
    have t1: "t1 = t\<lparr>direct_messages := direct_messages t @ [(dc_msgId c, direct_row c)]\<rparr>"
      using 2(7) n by (auto simp: insert_direct_message_def emplace_fresh direct_row_def split: if_splits)
    have t2: "t2 = t1\<lparr>conversations := AList.update (dc_senderAccountId c, dc_receiverAccountId c)
        (summary_row c 0 (dc_msgId c) (dc_serverTsMs c)) (conversations t1)\<rparr>"
      using 2(8) by (simp add: upsert_sender_def summary_row_def)
    obtain at where t3: "t3 = t2\<lparr>conversations := AList.update (dc_receiverAccountId c, dc_senderAccountId c)
        (summary_row c (unread_of t (dc_receiverAccountId c) (dc_senderAccountId c) + 1)
          (last_read_of t (dc_receiverAccountId c) (dc_senderAccountId c)) at) (conversations t2)\<rparr>"
      using 2(9) assms(2) by (auto simp: upsert_receiver_def summary_row_def t1 t2 Let_def unread_of_def last_read_of_def split: option.splits)
    have t': "t' = t3\<lparr>direct_offline := AList.update (dc_receiverAccountId c, dc_msgId c) (dc_senderAccountId c) (direct_offline t3)\<rparr>"
      using 2(10) by (simp add: insert_pending_delivery_def)
    show ?case by (rule stored [OF 2(1,5,6,3,4) n 2(2), of at]) (simp_all add: t' t3 t2 t1)
  qed
qed

subsection \<open>Unread counts\<close>

definition received_after :: "string \<Rightarrow> accountId \<Rightarrow> nat \<Rightarrow> direct_tables \<Rightarrow> (nat \<times> direct_message_row) list" where
  "received_after key a lo t = filter (\<lambda>(i, m). dm_conversation_key m = key \<and> dm_receiver_account_id m = a \<and> lo < i) (direct_messages t)"

definition named :: "accountId \<Rightarrow> bool" where
  "named a \<longleftrightarrow> a \<noteq> [] \<and> CHR ''#'' \<notin> set a"

definition direct_ok :: "direct_tables \<Rightarrow> bool" where
  "direct_ok t \<longleftrightarrow>
     (\<forall>a b row. map_of (conversations t) (a, b) = Some row \<longrightarrow> named a \<and> named b \<and> a \<noteq> b \<and>
        cv_unread_count row = length (received_after (buildDirectConversationKey a b) a (cv_last_read_msg_id row) t) \<and>
        (cv_last_read_msg_id row = 0 \<or>
         (\<exists>m. (cv_last_read_msg_id row, m) \<in> set (direct_messages t) \<and> dm_conversation_key m = buildDirectConversationKey a b))) \<and>
     (\<forall>(i, m) \<in> set (direct_messages t). \<exists>a b. named a \<and> named b \<and> dm_conversation_key m = buildDirectConversationKey a b \<and>
        map_of (conversations t) (a, b) \<noteq> None \<and> map_of (conversations t) (b, a) \<noteq> None)"

text \<open>
  What the service guarantees about a command: the key is that of the two accounts, which are
  different accounts, and the identifier is greater than those of the conversation, because the
  identifiers of the generator increase and the commands of a conversation are executed in order.
\<close>

definition well_formed :: "direct_tables \<Rightarrow> DirectMessageWriteCommand \<Rightarrow> bool" where
  "well_formed t c \<longleftrightarrow> named (dc_senderAccountId c) \<and> named (dc_receiverAccountId c) \<and> dc_senderAccountId c \<noteq> dc_receiverAccountId c \<and>
     dc_conversationKey c = buildDirectConversationKey (dc_senderAccountId c) (dc_receiverAccountId c) \<and>
     (\<forall>(i, m) \<in> set (direct_messages t). dm_conversation_key m = dc_conversationKey c \<longrightarrow> i < dc_msgId c)"

lemma key_inj_named:
  "named a \<Longrightarrow> named b \<Longrightarrow> named c \<Longrightarrow> named d \<Longrightarrow>
   buildDirectConversationKey a b = buildDirectConversationKey c d \<longleftrightarrow> {a, b} = {c, d}"
  by (rule key_inj) (auto simp: named_def)

lemma direct_okD:
  assumes "direct_ok t" "map_of (conversations t) (a, b) = Some row"
  shows "named a" "named b" "a \<noteq> b"
    "cv_unread_count row = length (received_after (buildDirectConversationKey a b) a (cv_last_read_msg_id row) t)"
    "cv_last_read_msg_id row = 0 \<or> (\<exists>m. (cv_last_read_msg_id row, m) \<in> set (direct_messages t) \<and> dm_conversation_key m = buildDirectConversationKey a b)"
  using assms unfolding direct_ok_def by blast+

lemma direct_ok_messageD:
  assumes "direct_ok t" "(i, m) \<in> set (direct_messages t)"
  obtains a b where "named a" "named b" "dm_conversation_key m = buildDirectConversationKey a b"
    "map_of (conversations t) (a, b) \<noteq> None" "map_of (conversations t) (b, a) \<noteq> None"
  using assms unfolding direct_ok_def by blast

lemma no_row_no_messages:
  assumes "direct_ok t" "named a" "named b" "map_of (conversations t) (a, b) = None"
  shows "received_after (buildDirectConversationKey a b) a lo t = []"
proof -
  have "dm_conversation_key m \<noteq> buildDirectConversationKey a b" if im: "(i, m) \<in> set (direct_messages t)" for i m
  proof
    assume k: "dm_conversation_key m = buildDirectConversationKey a b"
    from direct_ok_messageD [OF assms(1) im] obtain a' b' where ab: "named a'" "named b'" "dm_conversation_key m = buildDirectConversationKey a' b'"
      "map_of (conversations t) (a', b') \<noteq> None" "map_of (conversations t) (b', a') \<noteq> None" .
    with k key_inj_named [OF assms(2,3) ab(1,2)] have "{a, b} = {a', b'}" by simp
    with ab(4,5) assms(4) show False by (auto simp: doubleton_eq_iff)
  qed
  then show ?thesis by (auto simp: received_after_def filter_empty_conv)
qed

lemma unread_of_exact:
  assumes "direct_ok t" "named a" "named b"
  shows "unread_of t a b = length (received_after (buildDirectConversationKey a b) a (last_read_of t a b) t)"
  using direct_okD(4) [OF assms(1)] no_row_no_messages [OF assms]
  by (auto simp: unread_of_def last_read_of_def split: option.splits)

lemma send_ok:
  assumes "direct_ok t" "well_formed t c" "may t (direct_persist c) st t'"
  shows "direct_ok t'"
proof -
  let ?s = "dc_senderAccountId c" let ?r = "dc_receiverAccountId c" let ?K = "dc_conversationKey c"
  have w: "named ?s" "named ?r" "?s \<noteq> ?r" "?K = buildDirectConversationKey ?s ?r"
    and new: "\<And>i m. (i, m) \<in> set (direct_messages t) \<Longrightarrow> dm_conversation_key m = ?K \<Longrightarrow> i < dc_msgId c"
    using assms(2) by (auto simp: well_formed_def)
  have K': "?K = buildDirectConversationKey ?r ?s" using w(4) key_sym by metis
  from assms(3) w(3) show ?thesis
  proof (cases rule: direct_persist_cases)
    case none
    with assms(1) show ?thesis by simp
  next
    case (stored at)
    have rec: "received_after k a lo t' = received_after k a lo t @ (if k = ?K \<and> a = ?r \<and> lo < dc_msgId c then [(dc_msgId c, direct_row c)] else [])" for k a lo
      by (auto simp: received_after_def stored(8) direct_row_def)
    have key_ne: "buildDirectConversationKey a b \<noteq> ?K" if "named a" "named b" "(a, b) \<noteq> (?s, ?r)" "(a, b) \<noteq> (?r, ?s)" for a b
      using that key_inj_named [OF that(1,2) w(1,2)] w(4) by (auto simp: doubleton_eq_iff)
    have last: "last_read_of t ?r ?s < dc_msgId c"
    proof (cases "map_of (conversations t) (?r, ?s)")
      case None
      with stored(7) show ?thesis by (simp add: last_read_of_def)
    next
      case (Some row)
      with direct_okD(5) [OF assms(1) Some] new K' stored(7) show ?thesis by (auto simp: last_read_of_def)
    qed
    have row: "named a \<and> named b \<and> a \<noteq> b \<and>
        cv_unread_count row = length (received_after (buildDirectConversationKey a b) a (cv_last_read_msg_id row) t') \<and>
        (cv_last_read_msg_id row = 0 \<or>
         (\<exists>m. (cv_last_read_msg_id row, m) \<in> set (direct_messages t') \<and> dm_conversation_key m = buildDirectConversationKey a b))"
      if m: "map_of (conversations t') (a, b) = Some row" for a b row
    proof -
      consider (sender) "a = ?s" "b = ?r" | (receiver) "a = ?r" "b = ?s" | (other) "(a, b) \<noteq> (?s, ?r)" "(a, b) \<noteq> (?r, ?s)" by blast
      then show ?thesis
      proof cases
        case sender
        then have "row = summary_row c 0 (dc_msgId c) (dc_serverTsMs c)" using m w(3) by (simp add: stored(9))
        moreover have "received_after ?K ?s (dc_msgId c) t = []" using new by (fastforce simp: received_after_def filter_empty_conv)
        moreover have "(dc_msgId c, direct_row c) \<in> set (direct_messages t')" "dm_conversation_key (direct_row c) = ?K"
          by (simp_all add: stored(8) direct_row_def)
        ultimately show ?thesis using sender w(1-3) rec [of ?K ?s "dc_msgId c"] by (auto simp: summary_row_def w(4) [symmetric])
      next
        case receiver
        then have r: "row = summary_row c (unread_of t ?r ?s + 1) (last_read_of t ?r ?s) at" using m w(3) by (simp add: stored(9))
        have "length (received_after ?K ?r (last_read_of t ?r ?s) t') = unread_of t ?r ?s + 1"
          using unread_of_exact [OF assms(1) w(2,1)] last by (simp add: rec K' [symmetric])
        moreover have "last_read_of t ?r ?s = 0 \<or> (\<exists>m. (last_read_of t ?r ?s, m) \<in> set (direct_messages t') \<and> dm_conversation_key m = ?K)"
          using direct_okD(5) [OF assms(1), of ?r ?s] by (auto simp: last_read_of_def stored(8) K' split: option.splits)
        ultimately show ?thesis using receiver w(1-3) r by (auto simp: summary_row_def K' [symmetric])
      next
        case other
        then have old: "map_of (conversations t) (a, b) = Some row" using m by (auto simp: stored(9) split: if_splits)
        note d = direct_okD [OF assms(1) old]
        from key_ne [OF d(1,2) other] d show ?thesis by (auto simp: rec stored(8))
      qed
    qed
    have msg: "\<exists>a b. named a \<and> named b \<and> dm_conversation_key m = buildDirectConversationKey a b \<and>
        map_of (conversations t') (a, b) \<noteq> None \<and> map_of (conversations t') (b, a) \<noteq> None"
      if im: "(i, m) \<in> set (direct_messages t')" for i m
    proof (cases "(i, m) \<in> set (direct_messages t)")
      case True
      have kept: "map_of (conversations t') k \<noteq> None" if "map_of (conversations t) k \<noteq> None" for k
        using that by (simp add: stored(9))
      from direct_ok_messageD [OF assms(1) True] obtain a b where "named a" "named b" "dm_conversation_key m = buildDirectConversationKey a b"
        "map_of (conversations t) (a, b) \<noteq> None" "map_of (conversations t) (b, a) \<noteq> None" .
      with kept show ?thesis by blast
    next
      case False
      with im have "dm_conversation_key m = ?K" by (auto simp: stored(8) direct_row_def)
      moreover have "map_of (conversations t') (?s, ?r) \<noteq> None" "map_of (conversations t') (?r, ?s) \<noteq> None"
        using w(3) by (simp_all add: stored(9) fun_upd_def)
      ultimately show ?thesis using w(1,2,4) by (intro exI [of _ ?s] exI [of _ ?r] conjI) simp_all
    qed
    show ?thesis unfolding direct_ok_def using row msg by blast
  qed
qed

subsection \<open>What reading changes\<close>

definition receipts_read :: "accountId \<Rightarrow> nat \<Rightarrow> nat list \<Rightarrow> direct_tables \<Rightarrow> bool" where
  "receipts_read a at is t \<longleftrightarrow> (\<forall>i \<in> set is. \<exists>r. map_of (message_receipts t) (i, a) = Some r \<and> at \<le> rc_read_at_ms r)"

lemma add_receipt_le: "map_of rs k = Some r \<Longrightarrow> \<exists>r'. map_of (add_receipt a at i rs) k = Some r' \<and> rc_read_at_ms r \<le> rc_read_at_ms r'"
  by (auto simp: add_receipt_def split: option.splits)

lemma fold_add_receipt_le:
  "map_of rs k = Some r \<Longrightarrow> \<exists>r'. map_of (fold (add_receipt a at) is rs) k = Some r' \<and> rc_read_at_ms r \<le> rc_read_at_ms r'"
proof (induction "is" arbitrary: rs r)
  case (Cons i "is")
  from add_receipt_le [OF Cons.prems] obtain r1 where "map_of (add_receipt a at i rs) k = Some r1" "rc_read_at_ms r \<le> rc_read_at_ms r1" by blast
  with Cons.IH [OF this(1)] show ?case by fastforce
qed simp

lemma fold_add_receipt_in:
  "i \<in> set is \<Longrightarrow> \<exists>r. map_of (fold (add_receipt a at) is rs) (i, a) = Some r \<and> at \<le> rc_read_at_ms r"
proof (induction "is" arbitrary: rs)
  case (Cons j "is")
  have "\<exists>r. map_of (add_receipt a at j rs) (j, a) = Some r \<and> at \<le> rc_read_at_ms r"
    by (auto simp: add_receipt_def split: option.splits)
  with fold_add_receipt_le have "\<exists>r. map_of (fold (add_receipt a at) is (add_receipt a at j rs)) (j, a) = Some r \<and> at \<le> rc_read_at_ms r"
    by (meson le_trans)
  with Cons show ?case by auto
qed simp

lemma commitDirect_cases:
  assumes "may t (commitDirect a b i at) (Ok, v) t'"
  obtains (none) row where "map_of (conversations t) (a, b) = Some row" "i \<le> cv_last_read_msg_id row" "t' = t"
        "v = Some \<lparr>rd_targetId = b, rd_readMsgId = cv_last_read_msg_id row, rd_readAtMs = cv_last_read_at_ms row, rd_receiptUpdated = 0\<rparr>"
    | (moved) row m where "map_of (conversations t) (a, b) = Some row" "map_of (direct_messages t) i = Some m"
        "dm_conversation_key m = buildDirectConversationKey a b" "cv_last_read_msg_id row < i"
        "v = Some \<lparr>rd_targetId = b, rd_readMsgId = i, rd_readAtMs = at,
           rd_receiptUpdated = length (received_between (buildDirectConversationKey a b) a (cv_last_read_msg_id row) i t)\<rparr>"
        "t' = t\<lparr>message_receipts := fold (add_receipt a at) (received_between (buildDirectConversationKey a b) a (cv_last_read_msg_id row) i t) (message_receipts t),
               conversations := AList.update (a, b)
                 (row\<lparr>cv_last_read_msg_id := i, cv_last_read_at_ms := max (cv_last_read_at_ms row) at,
                      cv_unread_count := cv_unread_count row - length (received_between (buildDirectConversationKey a b) a (cv_last_read_msg_id row) i t)\<rparr>)
                 (conversations t)\<rparr>"
proof -
  let ?K = "buildDirectConversationKey a b" let ?old = "cv_last_read_msg_id (hd (select_conversation a b t))"
  have "select_conversation a b t \<noteq> [] \<and> select_in_conversation ?K i t \<noteq> [] \<and>
     (i \<le> ?old \<and> t' = t \<and> v = Some \<lparr>rd_targetId = b, rd_readMsgId = ?old, rd_readAtMs = cv_last_read_at_ms (hd (select_conversation a b t)), rd_receiptUpdated = 0\<rparr> \<or>
      ?old < i \<and> v = Some \<lparr>rd_targetId = b, rd_readMsgId = i, rd_readAtMs = at, rd_receiptUpdated = length (received_between ?K a ?old i t)\<rparr> \<and>
      (\<exists>n4 t1 n5. insert_read_receipts ?K a at ?old i t = Inr (n4, t1) \<and> update_unread a b i at (length (received_between ?K a ?old i t)) t1 = Inr (n5, t') \<and> n5 \<noteq> 0))"
    using assms by (auto simp: commitDirect_def Let_def max_def split: if_splits)
  moreover from calculation obtain row where row: "map_of (conversations t) (a, b) = Some row" "hd (select_conversation a b t) = row"
    by (auto simp: select_conversation_def split: option.splits)
  moreover from calculation obtain m where m: "map_of (direct_messages t) i = Some m" "dm_conversation_key m = ?K"
    by (auto simp: select_in_conversation_def split: option.splits if_splits)
  ultimately consider "i \<le> cv_last_read_msg_id row" "t' = t"
      "v = Some \<lparr>rd_targetId = b, rd_readMsgId = cv_last_read_msg_id row, rd_readAtMs = cv_last_read_at_ms row, rd_receiptUpdated = 0\<rparr>"
    | n4 t1 n5 where "cv_last_read_msg_id row < i"
      "v = Some \<lparr>rd_targetId = b, rd_readMsgId = i, rd_readAtMs = at, rd_receiptUpdated = length (received_between ?K a (cv_last_read_msg_id row) i t)\<rparr>"
      "insert_read_receipts ?K a at (cv_last_read_msg_id row) i t = Inr (n4, t1)"
      "update_unread a b i at (length (received_between ?K a (cv_last_read_msg_id row) i t)) t1 = Inr (n5, t')" "n5 \<noteq> 0" by auto
  then show thesis
  proof cases
    case 1
    with none [OF row(1)] show ?thesis by blast
  next
    case (2 n4 t1 n5)
    have t1: "t1 = t\<lparr>message_receipts := fold (add_receipt a at) (received_between ?K a (cv_last_read_msg_id row) i t) (message_receipts t)\<rparr>"
      using 2(3) by (simp add: insert_read_receipts_def Let_def)
    have sub: "(if m < (n::nat) then n - m else 0) = n - m" for m n by simp
    show ?thesis
      using 2(4,5) row(1) unfolding update_unread_def sub Let_def
      by (intro moved [OF row(1) m 2(1,2)]) (auto simp: t1 split: if_splits)
  qed
qed

lemma received_split:
  "lo \<le> i \<Longrightarrow> length (received_after k a lo t) = length (received_between k a lo i t) + length (received_after k a i t)"
proof -
  assume "lo \<le> i"
  then have "length (filter (\<lambda>(j, m). P m \<and> lo < j) ms) =
      length (filter (\<lambda>(j, m). P m \<and> lo < j \<and> j \<le> i) ms) + length (filter (\<lambda>(j, m). P m \<and> i < j) ms)"
    for P and ms :: "(nat \<times> direct_message_row) list"
    by (induction ms) auto
  from this [of "\<lambda>m. dm_conversation_key m = k \<and> dm_receiver_account_id m = a"] show ?thesis
    by (simp add: received_after_def received_between_def conj_assoc)
qed

lemma read_ok:
  assumes "direct_ok t" "may t (commitDirect a b i at) (Ok, v) t'"
  shows "direct_ok t'"
  using assms(2)
proof (cases rule: commitDirect_cases)
  case none
  with assms(1) show ?thesis by simp
next
  case (moved row m)
  let ?n = "length (received_between (buildDirectConversationKey a b) a (cv_last_read_msg_id row) i t)"
  define row' where "row' = row\<lparr>cv_last_read_msg_id := i, cv_last_read_at_ms := max (cv_last_read_at_ms row) at, cv_unread_count := cv_unread_count row - ?n\<rparr>"
  note d = direct_okD [OF assms(1) moved(1)]
  have ms: "direct_messages t' = direct_messages t" and cv: "map_of (conversations t') = (map_of (conversations t))((a, b) \<mapsto> row')"
    by (simp_all add: moved(6) row'_def)
  have ra: "received_after k c lo t' = received_after k c lo t" for k c lo by (simp add: received_after_def ms)
  have row': "named a \<and> named b \<and> a \<noteq> b \<and> cv_unread_count row' = length (received_after (buildDirectConversationKey a b) a (cv_last_read_msg_id row') t) \<and>
      (\<exists>m. (cv_last_read_msg_id row', m) \<in> set (direct_messages t) \<and> dm_conversation_key m = buildDirectConversationKey a b)"
    using d received_split [of "cv_last_read_msg_id row" i "buildDirectConversationKey a b" a t] moved(2-4)
    by (auto simp: row'_def intro: map_of_SomeD)
  have kept: "map_of (conversations t') k \<noteq> None" if "map_of (conversations t) k \<noteq> None" for k using that by (simp add: cv)
  have rows: "named c \<and> named e \<and> c \<noteq> e \<and> cv_unread_count r = length (received_after (buildDirectConversationKey c e) c (cv_last_read_msg_id r) t') \<and>
      (cv_last_read_msg_id r = 0 \<or> (\<exists>m. (cv_last_read_msg_id r, m) \<in> set (direct_messages t') \<and> dm_conversation_key m = buildDirectConversationKey c e))"
    if r: "map_of (conversations t') (c, e) = Some r" for c e r
  proof (cases "(c, e) = (a, b)")
    case True
    with r row' show ?thesis by (simp add: cv ra ms)
  next
    case False
    with r have "map_of (conversations t) (c, e) = Some r" by (auto simp: cv split: if_splits)
    from direct_okD [OF assms(1) this] show ?thesis by (simp add: ra ms)
  qed
  have msgs: "\<exists>c e. named c \<and> named e \<and> dm_conversation_key x = buildDirectConversationKey c e \<and>
      map_of (conversations t') (c, e) \<noteq> None \<and> map_of (conversations t') (e, c) \<noteq> None" if x: "(j, x) \<in> set (direct_messages t')" for j x
  proof -
    from x have "(j, x) \<in> set (direct_messages t)" by (simp add: ms)
    from direct_ok_messageD [OF assms(1) this] kept show ?thesis by metis
  qed
  show ?thesis unfolding direct_ok_def using rows msgs by blast
qed

subsection \<open>Direct chats as a system\<close>

definition direct_tables_new :: direct_tables where
  "direct_tables_new = \<lparr>user_profiles = [], friend_relations = [], direct_messages = [], conversations = [], message_receipts = [], direct_offline = []\<rparr>"

text \<open>
  One step of the direct chats: a message is saved, a conversation is read, or another service changes
  the accounts and friendships, or the deliveries and receipts, or the environment decides which of the
  coming interactions with the database will fail.
\<close>

inductive direct_step :: "direct_tables database \<Rightarrow> direct_tables database \<Rightarrow> bool" where
  sent: "well_formed (tables D) c \<Longrightarrow> run_state (direct_persist c) D = (st, D') \<Longrightarrow> direct_step D D'"
| read: "run_state (direct_read_commit a b i at) D = (v, D') \<Longrightarrow> direct_step D D'"
| accounts: "direct_step D (D\<lparr>tables := tables D\<lparr>user_profiles := us, friend_relations := fs\<rparr>\<rparr>)"
| deliveries: "direct_step D (D\<lparr>tables := tables D\<lparr>direct_offline := os, message_receipts := rs\<rparr>\<rparr>)"
| environment: "direct_step D (D\<lparr>outcomes := fails\<rparr>)"

lemma direct_ok_frame:
  "direct_messages t' = direct_messages t \<Longrightarrow> conversations t' = conversations t \<Longrightarrow> direct_ok t \<Longrightarrow> direct_ok t'"
  by (simp add: direct_ok_def received_after_def)

lemma direct_read_commit_may:
  assumes "may t (direct_read_commit a b i at) (st, v) t'"
  shows "t' = t \<or> may t (commitDirect a b i at) (Ok, v) t' \<and> st = Ok"
  using assms may_read_transaction [of t "commitDirect a b i at" st v t'] by (auto simp: direct_read_commit_def split: if_splits)

lemma direct_read_commit_ok:
  assumes "may t (direct_read_commit a b i at) (Ok, v) t'"
  shows "may t (commitDirect a b i at) (Ok, v) t'"
proof -
  have "may t (read_transaction (commitDirect a b i at)) (Ok, v) t'" using assms by (auto simp: direct_read_commit_def split: if_splits)
  then have "may t (commitDirect a b i at) (Ok, v) t' \<or> (v = None \<and> (\<exists>t1. may t (commitDirect a b i at) (Ok, v) t1))"
    by (auto simp: read_transaction_def split: if_splits) (erule exI)
  then show ?thesis by (metis commitDirect_cases option.distinct(1))
qed

lemma direct_step_ok: "direct_step D D' \<Longrightarrow> direct_ok (tables D) \<Longrightarrow> direct_ok (tables D')"
proof (induction rule: direct_step.induct)
  case (sent D c st D')
  from send_ok [OF sent(3,1) mayI [OF sent(2)]] show ?case .
next
  case (read a b i at D v D')
  from mayI [OF read(1)] direct_read_commit_may [of "tables D" a b i at "fst v" "snd v" "tables D'"]
  show ?case using read_ok [OF read(2)] read(2) by auto
qed (auto intro: direct_ok_frame)

lemma direct_steps_ok:
  assumes "direct_step\<^sup>*\<^sup>* \<lparr>tables = direct_tables_new, outcomes = os\<rparr> D"
  shows "direct_ok (tables D)"
  using assms
proof (induction rule: rtranclp_induct)
  case base
  then show ?case by (simp add: direct_ok_def direct_tables_new_def)
qed (rule direct_step_ok)

subsection \<open>Properties\<close>

text \<open>
  Two pairs of account names have the same conversation key exactly when they are the same two
  accounts, in either order: the key identifies the conversation. The names are not empty and do not
  contain the separator, as the account numbers of the server.
\<close>

theorem conversation_key_identifies:
  assumes "named a" "named b" "named c" "named d"
  shows "buildDirectConversationKey a b = buildDirectConversationKey c d \<longleftrightarrow> {a, b} = {c, d}"
  using key_inj_named [OF assms] .

theorem conversation_key_identifies_witness:
  "buildDirectConversationKey ''10'' ''9'' = buildDirectConversationKey ''9'' ''10'' \<and>
   buildDirectConversationKey ''10'' ''9'' \<noteq> buildDirectConversationKey ''1'' ''09''"
  using conversation_key_identifies [of "''10''" "''9''" "''9''" "''10''"] conversation_key_identifies [of "''10''" "''9''" "''1''" "''09''"]
  by (auto simp: named_def doubleton_eq_iff)

text \<open>
  C15. In every state the direct chats can reach, with messages and reads of all conversations interleaved
  and the database failing at any point, the unread count stored for an account is exactly the number of
  messages it received in the conversation after the last one it has read.
\<close>

theorem direct_unread_exact:
  assumes "direct_step\<^sup>*\<^sup>* \<lparr>tables = direct_tables_new, outcomes = os\<rparr> D" "named a" "named b"
  shows "unread_of (tables D) a b = length (received_after (buildDirectConversationKey a b) a (last_read_of (tables D) a b) (tables D))"
  by (rule unread_of_exact [OF direct_steps_ok [OF assms(1)] assms(2,3)])

text \<open>
  C16. Saving a message either succeeds, and then the receiver exists and is a friend of the sender, the
  message is stored, the sender's conversation shows it as read, the receiver's counts one more unread
  message, and a delivery is pending; or it fails and has changed nothing, whichever statement failed.
\<close>

theorem direct_send_all_or_nothing:
  assumes "run_state (direct_persist c) D = (st, D')" "dc_senderAccountId c \<noteq> dc_receiverAccountId c"
  shows "let t = tables D; t' = tables D'; s = dc_senderAccountId c; r = dc_receiverAccountId c in
    if st = Ok
    then r \<in> set (user_profiles t) \<and> ((s, r), 1) \<in> set (friend_relations t) \<and>
      direct_messages t' = direct_messages t @ [(dc_msgId c, direct_row c)] \<and>
      unread_of t' s r = 0 \<and> last_read_of t' s r = dc_msgId c \<and>
      unread_of t' r s = unread_of t r s + 1 \<and> last_read_of t' r s = last_read_of t r s \<and>
      map_of (direct_offline t') (r, dc_msgId c) = Some s
    else t' = t"
  using mayI [OF assms(1)] assms(2)
proof (cases rule: direct_persist_cases)
  case none
  then show ?thesis by simp
next
  case (stored at)
  have "map_of (conversations (tables D')) (dc_senderAccountId c, dc_receiverAccountId c) = Some (summary_row c 0 (dc_msgId c) (dc_serverTsMs c))"
    using assms(2) by (simp add: stored(9))
  then show ?thesis
    using stored(1-3) by (simp add: Let_def stored(8-10) unread_of_def last_read_of_def summary_row_def)
qed

text \<open>
  A successful read moves the last read message forward, never back; it reports the number of
  messages that became read, the unread count goes down by that number, and each of these messages has
  a receipt with a reading time not before that of the request. A read that fails changes nothing.
\<close>

theorem direct_read_moves_forward:
  assumes "direct_step\<^sup>*\<^sup>* \<lparr>tables = direct_tables_new, outcomes = os\<rparr> D"
    and "run_state (direct_read_commit a b i at) D = ((st, v), D')"
  shows "let t = tables D; t' = tables D' in
    if st = Ok
    then last_read_of t' a b = max (last_read_of t a b) i \<and>
      (\<exists>res. v = Some res \<and> rd_readMsgId res = last_read_of t' a b \<and> unread_of t a b = unread_of t' a b + rd_receiptUpdated res) \<and>
      receipts_read a at (received_between (buildDirectConversationKey a b) a (last_read_of t a b) i t) t'
    else t' = t"
proof (cases "st = Ok")
  case False
  with direct_read_commit_may [OF mayI [OF assms(2)]] show ?thesis by simp
next
  case True
  note ok = direct_steps_ok [OF assms(1)]
  have "may (tables D) (commitDirect a b i at) (Ok, v) (tables D')"
    using direct_read_commit_ok mayI [OF assms(2)] True by blast
  then show ?thesis
  proof (cases rule: commitDirect_cases)
    case (none row)
    then show ?thesis
      using True by (auto simp: Let_def last_read_of_def unread_of_def receipts_read_def received_between_def max_def)
  next
    case (moved row m)
    let ?is = "received_between (buildDirectConversationKey a b) a (cv_last_read_msg_id row) i (tables D)"
    have n: "length ?is \<le> cv_unread_count row"
      using direct_okD(4) [OF ok moved(1)] received_split [of "cv_last_read_msg_id row" i] moved(4) by simp
    have "receipts_read a at ?is (tables D')" using fold_add_receipt_in by (simp add: receipts_read_def moved(6))
    with n show ?thesis
      using True moved(1,4) by (simp add: Let_def last_read_of_def unread_of_def moved(5,6))
  qed
qed

definition demo_message :: "nat \<Rightarrow> DirectMessageWriteCommand" where
  "demo_message i = \<lparr>dc_msgId = i, dc_serverTsMs = 5, dc_conversationKey = ''1001#1002'', dc_senderAccountId = ''1001'',
     dc_receiverAccountId = ''1002'', dc_senderUsername = ''amy'', dc_content = ''hello''\<rparr>"

definition demo_empty :: "direct_tables database" where
  "demo_empty = \<lparr>tables = direct_tables_new, outcomes = []\<rparr>"

definition demo_friends :: "direct_tables database" where
  "demo_friends = demo_empty\<lparr>tables := tables demo_empty\<lparr>user_profiles := [''1001'', ''1002''], friend_relations := [((''1001'', ''1002''), 1)]\<rparr>\<rparr>"

definition demo_sent :: "direct_tables database" where
  "demo_sent = snd (run_state (direct_persist (demo_message 40)) demo_friends)"

definition demo_read :: "direct_tables database" where
  "demo_read = snd (run_state (direct_read_commit ''1002'' ''1001'' 40 8) demo_sent)"

lemma demo_well_formed: "well_formed (tables demo_friends) (demo_message 40)"
proof -
  have "''1001'' < (''1002'' :: string)" by code_simp
  then show ?thesis
    by (simp add: well_formed_def named_def demo_message_def demo_friends_def demo_empty_def direct_tables_new_def buildDirectConversationKey_def)
qed

lemma demo_sent_reached: "direct_step\<^sup>*\<^sup>* \<lparr>tables = direct_tables_new, outcomes = []\<rparr> demo_sent"
proof -
  have "direct_step demo_empty demo_friends" unfolding demo_friends_def by (rule direct_step.accounts)
  moreover have "direct_step demo_friends demo_sent"
    unfolding demo_sent_def by (rule direct_step.sent [OF demo_well_formed]) (rule prod.collapse [symmetric])
  ultimately show ?thesis unfolding demo_empty_def by (meson r_into_rtranclp rtranclp_trans)
qed

theorem direct_unread_exact_witness:
  "length (received_after (buildDirectConversationKey ''1002'' ''1001'') ''1002'' (last_read_of (tables demo_sent) ''1002'' ''1001'') (tables demo_sent)) = 1"
proof -
  have "unread_of (tables demo_sent) ''1002'' ''1001'' = 1" by code_simp
  with direct_unread_exact [OF demo_sent_reached, of "''1002''" "''1001''"] show ?thesis by (simp add: named_def)
qed

theorem direct_send_all_or_nothing_witness:
  "map_of (direct_offline (tables demo_sent)) (''1002'', 40) = Some ''1001''"
proof -
  obtain st where st: "run_state (direct_persist (demo_message 40)) demo_friends = (st, demo_sent)"
    unfolding demo_sent_def by (metis prod.collapse)
  have "fst (run_state (direct_persist (demo_message 40)) demo_friends) = Ok" by code_simp
  with st direct_send_all_or_nothing [OF st] show ?thesis by (simp add: Let_def demo_message_def)
qed

theorem direct_read_moves_forward_witness:
  "last_read_of (tables demo_read) ''1002'' ''1001'' = 40 \<and> unread_of (tables demo_read) ''1002'' ''1001'' = 0"
proof -
  obtain st v where st: "run_state (direct_read_commit ''1002'' ''1001'' 40 8) demo_sent = ((st, v), demo_read)"
    unfolding demo_read_def by (metis prod.collapse)
  have "fst (fst (run_state (direct_read_commit ''1002'' ''1001'' 40 8) demo_sent)) = Ok"
    "last_read_of (tables demo_sent) ''1002'' ''1001'' = 0" "unread_of (tables demo_read) ''1002'' ''1001'' = 0" by code_simp+
  with st direct_read_moves_forward [OF demo_sent_reached st] show ?thesis by (simp add: Let_def)
qed

end
