(* ===== verification/Snowflake.thy ===== *)
theory Snowflake
  imports Prelude
begin

text \<open>
  The generator of message and group identifiers (\<open>src/include/id/SnowflakeGenerator.h\<close>,
  \<open>src/src/id/SnowflakeIdGenerator.cpp\<close>). An identifier packs the milliseconds since an epoch, a node number
  of 10 bits and a sequence number of 12 bits into 64 bits. The system clock is the list of the values
  that the successive calls of \<open>currentMs\<close> return; it may repeat, jump and go back. A call that is still
  waiting when the list ends is \<open>None\<close>; the mutex makes calls atomic.
\<close>

unbundle bit_operations_syntax

subsection \<open>The generator\<close>

record generator =
  nodeId :: u16
  epochMs :: u64
  lastTimestampMs :: u64
  gen_sequence :: u16

datatype id_error = InvalidNodeOrEpoch | MovedBackwards | BeforeEpoch

type_synonym clock = "u64 list"

definition newGenerator :: "u16 \<Rightarrow> u64 \<Rightarrow> u64 \<Rightarrow> id_error + generator" where
  "newGenerator node epoch nowMs =
     (if node > 1023 \<or> epoch \<ge> nowMs then Inl InvalidNodeOrEpoch
      else Inr \<lparr>nodeId = node, epochMs = epoch, lastTimestampMs = 0, gen_sequence = 0\<rparr>)"

text \<open>The loop \<open>while(nowMs<=lastTimestampMs_)\<close>, which sleeps and reads the clock again.\<close>

fun wait_past :: "u64 \<Rightarrow> u64 \<Rightarrow> clock \<Rightarrow> (u64 \<times> clock) option" where
  "wait_past lastMs nowMs [] = (if nowMs \<le> lastMs then None else Some (nowMs, []))"
| "wait_past lastMs nowMs (c # cs) = (if nowMs \<le> lastMs then wait_past lastMs c cs else Some (nowMs, c # cs))"

definition make_id :: "u64 \<Rightarrow> u16 \<Rightarrow> u64 \<Rightarrow> u16 \<Rightarrow> u64" where
  "make_id epoch node nowMs sq =
     (let timestampPart = push_bit 22 (nowMs - epoch); nodePart = push_bit 12 (ucast node)
      in timestampPart OR nodePart OR ucast sq)"

text \<open>The last part of \<open>nextId\<close>: the timestamp is stored before the epoch is checked.\<close>

definition finish_id :: "generator \<Rightarrow> u64 \<Rightarrow> u16 \<Rightarrow> clock \<Rightarrow> (id_error + u64) \<times> generator \<times> clock" where
  "finish_id g nowMs sq cs =
     (let g' = g\<lparr>lastTimestampMs := nowMs, gen_sequence := sq\<rparr>
      in (if nowMs < epochMs g then Inl BeforeEpoch else Inr (make_id (epochMs g) (nodeId g) nowMs sq), g', cs))"

definition nextId :: "generator \<Rightarrow> clock \<Rightarrow> ((id_error + u64) \<times> generator \<times> clock) option" where
  "nextId g clk =
     (case clk of
        [] \<Rightarrow> None
      | nowMs # cs \<Rightarrow>
          if nowMs < lastTimestampMs g
          then if lastTimestampMs g - nowMs \<le> 5
               then map_option (\<lambda>(nowMs, cs). finish_id g nowMs 0 cs) (wait_past (lastTimestampMs g) nowMs cs)
               else Some (Inl MovedBackwards, g, cs)
          else if nowMs = lastTimestampMs g
          then let sq = (gen_sequence g + 1) AND 4095
               in if sq = 0
                  then map_option (\<lambda>(nowMs, cs). finish_id g nowMs sq cs) (wait_past (lastTimestampMs g) nowMs cs)
                  else Some (finish_id g nowMs sq cs)
          else Some (finish_id g nowMs 0 cs))"

text \<open>\<open>std::to_string\<close> of an unsigned number, and \<open>nextStringId\<close>.\<close>

fun to_string :: "nat \<Rightarrow> string" where
  "to_string n = (if n < 10 then [char_of (48 + n)] else to_string (n div 10) @ [char_of (48 + n mod 10)])"

declare to_string.simps [simp del]

definition nextStringId :: "string \<Rightarrow> generator \<Rightarrow> clock \<Rightarrow> ((id_error + string) \<times> generator \<times> clock) option" where
  "nextStringId prefix g clk = map_option (apfst (map_sum id (\<lambda>i. prefix @ to_string (unat i)))) (nextId g clk)"

subsection \<open>Waiting\<close>

lemma wait_past_Some:
  "wait_past lastMs nowMs cs = Some (now', cs') \<Longrightarrow> lastMs < now' \<and> now' \<in> insert nowMs (set cs) \<and> set cs' \<subseteq> set cs"
  by (induction lastMs nowMs cs rule: wait_past.induct) (auto split: if_splits)

lemma wait_past_returns: "\<exists>c \<in> insert nowMs (set cs). lastMs < c \<Longrightarrow> \<exists>r. wait_past lastMs nowMs cs = Some r"
  by (induction lastMs nowMs cs rule: wait_past.induct) (auto simp: not_le)

subsection \<open>The layout of an identifier\<close>

lemma take_bit_unat_eq: "unat (b :: 'a :: len word) < 2 ^ k \<Longrightarrow> take_bit k b = b"
  by (simp add: word_unat_eq_iff unsigned_take_bit_eq take_bit_nat_eq_self)

lemma or_disjoint:
  fixes a b :: u64
  assumes "unat b < 2 ^ k"
  shows "push_bit k a OR b = push_bit k a + b"
proof -
  have "\<not> bit b n" if "k \<le> n" for n
    using take_bit_unat_eq [OF assms] that by (metis bit_take_bit_iff leD)
  then show ?thesis by (intro disjunctive_add_eq_or [symmetric] bit_eqI) (auto simp: bit_simps)
qed

lemma unat_push_bit: "unat (a :: u64) * 2 ^ k < 2 ^ 64 \<Longrightarrow> unat (push_bit k a) = unat a * 2 ^ k"
  by (simp add: unsigned_push_bit_eq push_bit_nat_def take_bit_nat_eq_self)

lemma unat_ucast16: "unat (ucast (w :: u16) :: u64) = unat w"
  by (simp add: unsigned_ucast_eq unsigned_take_bit_eq take_bit_nat_eq_self less_trans [OF unsigned_less])

definition gen_ok :: "generator \<Rightarrow> bool" where
  "gen_ok g \<longleftrightarrow> unat (nodeId g) < 2 ^ 10 \<and> unat (gen_sequence g) < 2 ^ 12"

lemma unat_make_id:
  assumes "epoch \<le> nowMs" "unat nowMs < unat epoch + 2 ^ 42" "unat node < 2 ^ 10" "unat sq < 2 ^ 12"
  shows "unat (make_id epoch node nowMs sq) = (unat nowMs - unat epoch) * 2 ^ 22 + unat node * 2 ^ 12 + unat sq"
proof -
  let ?low = "push_bit 12 (ucast node) OR ucast sq :: u64"
  have t: "unat (nowMs - epoch) = unat nowMs - unat epoch" using assms(1) by (simp add: unat_sub)
  have p: "unat (push_bit 12 (ucast node :: u64)) = unat node * 2 ^ 12"
    using assms(3) by (subst unat_push_bit) (simp_all add: unat_ucast16)
  have "?low = push_bit 12 (ucast node) + ucast sq" using assms(4) by (intro or_disjoint) (simp add: unat_ucast16)
  then have low: "unat ?low = unat node * 2 ^ 12 + unat sq"
    using p assms(3,4) by (simp add: unat_word_ariths unat_ucast16)
  have "unat (push_bit 22 (nowMs - epoch)) = (unat nowMs - unat epoch) * 2 ^ 22"
    using assms(2) by (subst unat_push_bit) (simp_all add: t)
  moreover have "push_bit 22 (nowMs - epoch) OR ?low = push_bit 22 (nowMs - epoch) + ?low"
    using low assms(3,4) by (intro or_disjoint) simp
  ultimately show ?thesis
    using assms(2-4) low by (simp add: make_id_def or.assoc unat_word_ariths)
qed

lemma make_id_node:
  assumes "unat node < 2 ^ 10" "unat sq < 2 ^ 12"
  shows "take_bit 10 (drop_bit 12 (make_id epoch node nowMs sq)) = ucast node"
proof -
  have n: "take_bit 10 (ucast node :: u64) = ucast node" and s: "take_bit 12 (ucast sq :: u64) = ucast sq"
    using assms by (intro take_bit_unat_eq; simp add: unat_ucast16)+
  show ?thesis
    by (subst n [symmetric], subst make_id_def, subst s [symmetric], rule bit_eqI) (auto simp: bit_simps Let_def)
qed

subsection \<open>One call\<close>

text \<open>The identifier a generator state stands for, read from the start of the clock instead of the epoch.\<close>

definition position :: "generator \<Rightarrow> nat" where
  "position g = unat (lastTimestampMs g) * 2 ^ 22 + unat (nodeId g) * 2 ^ 12 + unat (gen_sequence g)"

lemma seq_step:
  fixes s :: u16
  assumes "unat s < 2 ^ 12"
  shows "(s + 1) AND 4095 = 0 \<or> unat ((s + 1) AND 4095) = Suc (unat s) \<and> unat ((s + 1) AND 4095) < 2 ^ 12"
proof -
  have m: "(s + 1) AND 4095 = take_bit 12 (s + 1)"
    by (simp add: take_bit_eq_mask mask_eq_exp_minus_1)
  have "unat (s + 1) = Suc (unat s)" using assms by (simp add: unat_word_ariths)
  then have "unat (take_bit 12 (s + 1)) = Suc (unat s) mod 2 ^ 12" 
    by (simp only: unsigned_take_bit_eq) (simp add: take_bit_eq_mod)
  moreover have "Suc (unat s) mod 2 ^ 12 = 0 \<or> Suc (unat s) mod 2 ^ 12 = Suc (unat s) \<and> Suc (unat s) < 2 ^ 12"
    using assms by (cases "Suc (unat s) = 2 ^ 12") auto
  ultimately show ?thesis unfolding m by (auto simp: unat_eq_zero)
qed

lemma finish_id_moves:
  assumes "gen_ok g" "unat sq < 2 ^ 12"
    and "lastTimestampMs g < nowMs \<or> nowMs = lastTimestampMs g \<and> unat (gen_sequence g) < unat sq"
    and "finish_id g nowMs sq cs = (r, g', cs')"
  shows "gen_ok g' \<and> nodeId g' = nodeId g \<and> epochMs g' = epochMs g \<and> lastTimestampMs g' = nowMs \<and> cs' = cs \<and> position g < position g' \<and>
    r = (if nowMs < epochMs g then Inl BeforeEpoch else Inr (make_id (epochMs g') (nodeId g') (lastTimestampMs g') (gen_sequence g')))"
proof -
  have g': "g' = g\<lparr>lastTimestampMs := nowMs, gen_sequence := sq\<rparr>" using assms(4) by (simp add: finish_id_def Let_def)
  have "position g < position g'"
    using assms(3)
  proof
    assume "lastTimestampMs g < nowMs"
    then have "Suc (unat (lastTimestampMs g)) * 2 ^ 22 \<le> unat nowMs * 2 ^ 22" by (simp add: word_less_nat_alt)
    then show ?thesis using assms(1) by (simp add: g' position_def gen_ok_def)
  qed (simp add: g' position_def)
  with assms(1,2,4) show ?thesis by (auto simp: finish_id_def Let_def g' gen_ok_def)
qed

lemma nextId_cases:
  assumes "nextId g clk = Some (r, g', cs)" "gen_ok g"
  obtains (refused) "r = Inl MovedBackwards" "g' = g" "set cs \<subseteq> set clk"
    | (moved) "gen_ok g'" "nodeId g' = nodeId g" "epochMs g' = epochMs g" "lastTimestampMs g' \<in> set clk" "set cs \<subseteq> set clk" "position g < position g'"
        "r = (if lastTimestampMs g' < epochMs g then Inl BeforeEpoch
              else Inr (make_id (epochMs g') (nodeId g') (lastTimestampMs g') (gen_sequence g')))"
proof -
  obtain c cs0 where clk: "clk = c # cs0" using assms(1) by (cases clk) (auto simp: nextId_def)
  note sq = seq_step [OF assms(2) [unfolded gen_ok_def, THEN conjunct2]]
  define ok where "ok = (\<lambda>now cs1 s. finish_id g now s cs1 = (r, g', cs) \<and> unat s < 2 ^ 12 \<and> now \<in> set clk \<and> set cs1 \<subseteq> set clk \<and>
    (lastTimestampMs g < now \<or> now = lastTimestampMs g \<and> unat (gen_sequence g) < unat s))"
  have wait: "ok now cs1 0" if "wait_past (lastTimestampMs g) c cs0 = Some (now, cs1)" "finish_id g now 0 cs1 = (r, g', cs)" for now cs1
    using wait_past_Some [OF that(1)] that(2) by (auto simp: clk ok_def)
  have go: "ok c cs0 s" if "finish_id g c s cs0 = (r, g', cs)" "unat s < 2 ^ 12"
      "lastTimestampMs g < c \<or> c = lastTimestampMs g \<and> unat (gen_sequence g) < unat s" for s
    using that by (auto simp: clk ok_def)
  have "r = Inl MovedBackwards \<and> g' = g \<and> cs = cs0 \<or> (\<exists>now cs1 s. ok now cs1 s)"
  proof (cases "c < lastTimestampMs g")
    case True
    with assms(1) wait show ?thesis by (auto simp: nextId_def clk split: if_splits)
  next
    case False
    let ?s = "(gen_sequence g + 1) AND 4095"
    consider "c = lastTimestampMs g" "?s = 0" | "c = lastTimestampMs g" "?s \<noteq> 0" | "lastTimestampMs g < c" using False by fastforce
    then show ?thesis
    proof cases
      case 1
      with assms(1) wait show ?thesis by (auto simp: nextId_def clk Let_def)
    next
      case 2
      with assms(1) have "finish_id g c ?s cs0 = (r, g', cs)" by (simp add: nextId_def clk Let_def)
      with go [OF this] sq 2 show ?thesis by fastforce
    next
      case 3
      then have "c \<noteq> lastTimestampMs g" by auto
      with assms(1) False have "finish_id g c 0 cs0 = (r, g', cs)" by (simp add: nextId_def clk)
      with go [OF this] 3 show ?thesis by fastforce
    qed
  qed
  then consider "r = Inl MovedBackwards" "g' = g" "cs = cs0"
    | now cs1 s where "finish_id g now s cs1 = (r, g', cs)" "unat s < 2 ^ 12" "now \<in> set clk" "set cs1 \<subseteq> set clk"
        "lastTimestampMs g < now \<or> now = lastTimestampMs g \<and> unat (gen_sequence g) < unat s"
    unfolding ok_def by blast
  then show thesis
  proof cases
    case 1
    with refused show ?thesis by (auto simp: clk)
  next
    case (2 now cs1 s)
    from finish_id_moves [OF assms(2) 2(2,5,1)] 2(3,4) moved show ?thesis by auto
  qed
qed

subsection \<open>Many calls\<close>

text \<open>The identifiers that \<open>n\<close> calls return; calls that throw are skipped.\<close>

fun run_ids :: "nat \<Rightarrow> generator \<Rightarrow> clock \<Rightarrow> u64 list" where
  "run_ids 0 g clk = []"
| "run_ids (Suc n) g clk =
     (case nextId g clk of
        None \<Rightarrow> []
      | Some (Inl e, g', cs) \<Rightarrow> run_ids n g' cs
      | Some (Inr i, g', cs) \<Rightarrow> i # run_ids n g' cs)"

lemma newGenerator_ok: "newGenerator node epoch now0 = Inr g \<Longrightarrow> gen_ok g \<and> nodeId g = node \<and> epochMs g = epoch"
  by (auto simp: newGenerator_def gen_ok_def not_less word_le_nat_alt split: if_splits)

lemma run_ids_from:
  assumes "gen_ok g" "\<forall>c \<in> set clk. unat c < unat (epochMs g) + 2 ^ 42"
  shows "sorted_wrt (<) (run_ids n g clk) \<and> (\<forall>i \<in> set (run_ids n g clk). position g < unat i + unat (epochMs g) * 2 ^ 22)"
  using assms
proof (induction n arbitrary: g clk)
  case (Suc n)
  show ?case
  proof (cases "nextId g clk")
    case (Some x)
    then obtain r g' cs where x: "nextId g clk = Some (r, g', cs)" by (cases x) auto
    from this Suc.prems(1) show ?thesis
    proof (cases rule: nextId_cases)
      case refused
      with Suc.IH [OF Suc.prems(1), of cs] Suc.prems(2) show ?thesis by (auto simp: x)
    next
      case moved
      have IH: "sorted_wrt (<) (run_ids n g' cs)" "\<And>i. i \<in> set (run_ids n g' cs) \<Longrightarrow> position g' < unat i + unat (epochMs g) * 2 ^ 22"
        using Suc.IH [OF moved(1), of cs] Suc.prems(2) moved(3,5) by auto
      show ?thesis
      proof (cases "lastTimestampMs g' < epochMs g")
        case True
        with IH moved(6,7) show ?thesis by (auto simp: x intro: less_trans)
      next
        case False
        let ?i = "make_id (epochMs g') (nodeId g') (lastTimestampMs g') (gen_sequence g')"
        have e: "epochMs g' \<le> lastTimestampMs g'" "unat (lastTimestampMs g') < unat (epochMs g') + 2 ^ 42"
          using False moved(3,4) Suc.prems(2) by auto
        then have "unat (epochMs g) \<le> unat (lastTimestampMs g')" using moved(3) by (simp add: word_le_nat_alt)
        then have i: "unat ?i + unat (epochMs g) * 2 ^ 22 = position g'"
          using unat_make_id [OF e] moved(1,3) by (simp add: gen_ok_def position_def diff_mult_distrib)
        have "?i < j" if "j \<in> set (run_ids n g' cs)" for j using IH(2) [OF that] i by (simp add: word_less_nat_alt)
        with IH moved(6,7) i False show ?thesis by (auto simp: x intro: less_trans)
      qed
    qed
  qed simp
qed simp

lemma run_ids_node:
  assumes "gen_ok g" "i \<in> set (run_ids n g clk)"
  shows "take_bit 10 (drop_bit 12 i) = ucast (nodeId g)"
  using assms
proof (induction n arbitrary: g clk)
  case (Suc n)
  then obtain r g' cs where x: "nextId g clk = Some (r, g', cs)" by (cases "nextId g clk") auto
  from this Suc.prems(1) show ?case
  proof (cases rule: nextId_cases)
    case refused
    with Suc x show ?thesis by auto
  next
    case moved
    have "take_bit 10 (drop_bit 12 (make_id (epochMs g') (nodeId g') (lastTimestampMs g') (gen_sequence g'))) = ucast (nodeId g')"
      using moved(1) by (intro make_id_node) (auto simp: gen_ok_def)
    with Suc.IH [OF moved(1), of cs] Suc.prems(2) moved(2,7) show ?thesis by (auto simp: x split: if_splits)
  qed
qed simp

subsection \<open>Decimal numbers\<close>

definition of_string :: "string \<Rightarrow> nat" where
  "of_string s = foldl (\<lambda>n c. 10 * n + (of_char c - 48)) 0 s"

lemma of_string_to_string: "of_string (to_string n) = n"
proof (induction n rule: to_string.induct)
  case (1 n)
  show ?case
  proof (cases "n < 10")
    case True
    then show ?thesis by (simp add: to_string.simps [of n] of_string_def)
  next
    case False
    with 1 show ?thesis by (simp add: to_string.simps [of n] of_string_def)
  qed
qed

text \<open>String identifiers with the same prefix are as unique as the numbers they show.\<close>

lemma nextStringId_Inr:
  "nextStringId prefix g clk = Some (Inr s, g', cs) \<longleftrightarrow> (\<exists>i. nextId g clk = Some (Inr i, g', cs) \<and> s = prefix @ to_string (unat i))"
proof -
  have "map_sum id (\<lambda>i. prefix @ to_string (unat i)) r = Inr s \<longleftrightarrow> (\<exists>i. r = Inr i \<and> s = prefix @ to_string (unat i))" for r :: "id_error + u64"
    by (cases r) auto
  then show ?thesis by (auto simp: nextStringId_def)
qed

lemma string_ids_faithful:
  assumes "nextStringId prefix g clk = Some (Inr s, g1, cs)" "nextStringId prefix h clk' = Some (Inr s, h1, cs')"
  shows "\<exists>i. nextId g clk = Some (Inr i, g1, cs) \<and> nextId h clk' = Some (Inr i, h1, cs')"
  using assms of_string_to_string unfolding nextStringId_Inr by (metis same_append_eq word_unat_eq_iff)

subsection \<open>Properties\<close>

text \<open>
  C17. The identifiers of a generator strictly increase, whatever the clock does: repeat a value, jump
  forward or go back, and however many calls throw. The clock must stay within the 42 bits that the
  layout has for the milliseconds since the epoch.
\<close>

theorem ids_strictly_increase:
  assumes "newGenerator node epoch now0 = Inr g" "\<forall>c \<in> set clk. unat c < unat epoch + 2 ^ 42"
  shows "sorted_wrt (<) (run_ids n g clk)"
  using run_ids_from newGenerator_ok [OF assms(1)] assms(2) by blast

theorem ids_strictly_increase_witness:
  "sorted_wrt (<) (run_ids 4 \<lparr>nodeId = 3, epochMs = 10, lastTimestampMs = 0, gen_sequence = 0\<rparr> [20, 20, 17, 19, 21, 9])"
proof (rule ids_strictly_increase [of 3 10 20])
  show "newGenerator 3 10 20 = Inr \<lparr>nodeId = 3, epochMs = 10, lastTimestampMs = 0, gen_sequence = 0\<rparr>"
    by (simp add: newGenerator_def)
qed simp

text \<open>
  Generators with different node numbers never produce the same identifier, whatever their clocks
  and epochs.
\<close>

theorem ids_unique_across_nodes:
  assumes "newGenerator node epoch now0 = Inr g" "newGenerator node' epoch' now0' = Inr g'" "node \<noteq> node'"
  shows "set (run_ids n g clk) \<inter> set (run_ids m g' clk') = {}"
proof -
  have "(ucast node :: u64) \<noteq> ucast node'" using assms(3) by (metis unat_ucast16 word_unat_eq_iff)
  then show ?thesis
    using run_ids_node [of g _ n clk] run_ids_node [of g' _ m clk'] newGenerator_ok [OF assms(1)] newGenerator_ok [OF assms(2)] by fastforce
qed

theorem ids_unique_across_nodes_witness:
  "set (run_ids 1 \<lparr>nodeId = 3, epochMs = 10, lastTimestampMs = 0, gen_sequence = 0\<rparr> [20]) \<inter>
   set (run_ids 1 \<lparr>nodeId = 4, epochMs = 10, lastTimestampMs = 0, gen_sequence = 0\<rparr> [20]) = {}"
  by (rule ids_unique_across_nodes [of 3 10 20 _ 4 10 20]) (simp_all add: newGenerator_def)

text \<open>
  C18. A call returns as soon as the clock shows a time after the last one used: the waiting loops end.
  It refuses to wait exactly when the first reading is more than five milliseconds behind.
\<close>

theorem nextId_returns:
  assumes "c \<in> set clk" "lastTimestampMs g < c"
  shows "nextId g clk \<noteq> None \<and>
    (fst (the (nextId g clk)) = Inl MovedBackwards \<longleftrightarrow> hd clk < lastTimestampMs g \<and> 5 < lastTimestampMs g - hd clk)"
proof -
  obtain now cs where clk: "clk = now # cs" using assms(1) by (cases clk) auto
  have "\<exists>r. wait_past (lastTimestampMs g) now cs = Some r" by (rule wait_past_returns) (use assms clk in auto)
  moreover have "fst (finish_id g n s cs) \<noteq> Inl MovedBackwards" for n s cs by (simp add: finish_id_def Let_def)
  ultimately show ?thesis by (auto simp: nextId_def clk Let_def not_le finish_id_def)
qed

theorem nextId_returns_witness:
  "nextId \<lparr>nodeId = 3, epochMs = 10, lastTimestampMs = 20, gen_sequence = 4095\<rparr> [20, 20, 19, 21] \<noteq> None"
  using nextId_returns [of 21 "[20, 20, 19, 21]" "\<lparr>nodeId = 3, epochMs = 10, lastTimestampMs = 20, gen_sequence = 4095\<rparr>"] by simp

end
