(* ===== verification/Protocol.thy ===== *)
theory Protocol
  imports Prelude
begin

text \<open>
  The vocabulary of the wire protocol: the message types of \<open>src/include/im/MsgType.h\<close> with their
  numbers, and the error codes of \<open>src/include/im/ErrorCode.h\<close> with their numbers and texts.
\<close>

subsection \<open>Message types\<close>

datatype (plugins only: code) MsgType =
    AUTH_REQ | AUTH_RESP | ECHO_REQ | ECHO_RESP | DM_REQ | DM_RESP | DM_PUSH | LIST_USERS_REQ
       | LIST_USERS_RESP | CREATE_GROUP_REQ | CREATE_GROUP_RESP | JOIN_GROUP_REQ | JOIN_GROUP_RESP
       | LEAVE_GROUP_REQ | LEAVE_GROUP_RESP | GROUP_MEMBERS_REQ | GROUP_MEMBERS_RESP | LIST_GROUPS_REQ
       | LIST_GROUPS_RESP | GROUP_EVENT_PUSH | GROUP_MSG_REQ | GROUP_MSG_RESP | GROUP_MSG_PUSH
       | GROUP_HISTORY_REQ | GROUP_HISTORY_RESP | OFFLINE_LIST_REQ | OFFLINE_LIST_RESP | OFFLINE_ACK_REQ
       | OFFLINE_ACK_RESP | REGISTER_REQ | REGISTER_RESP | LOGIN_REQ | LOGIN_RESP | TOKEN_LOGIN_REQ
       | TOKEN_LOGIN_RESP | LOGOUT_REQ | LOGOUT_RESP | GET_PROFILE_REQ | GET_PROFILE_RESP | UPDATE_PROFILE_REQ
       | UPDATE_PROFILE_RESP | SEARCH_USER_REQ | SEARCH_USER_RESP | LIST_FRIENDS_REQ | LIST_FRIENDS_RESP
       | SEND_FRIEND_REQUEST_REQ | SEND_FRIEND_REQUEST_RESP | LIST_FRIEND_REQUEST_REQ
       | LIST_FRIEND_REQUEST_RESP | ACCEPT_FRIEND_REQUEST_REQ | ACCEPT_FRIEND_REQUEST_RESP
       | REJECT_FRIEND_REQUEST_REQ | REJECT_FRIEND_REQUEST_RESP | REMOVE_FRIEND_REQ | REMOVE_FRIEND_RESP
       | FRIEND_EVENT_PUSH | DM_HISTORY_REQ | DM_HISTORY_RESP | CONVERSATION_LIST_REQ | CONVERSATION_LIST_RESP
       | CONVERSATION_READ_REQ | CONVERSATION_READ_RESP | SYNC_REQ | SYNC_RESP | MESSAGE_ACK_REQ
       | MESSAGE_ACK_RESP | KICK_GROUP_MEMBER_REQ | KICK_GROUP_MEMBER_RESP | SET_GROUP_ADMIN_REQ
       | SET_GROUP_ADMIN_RESP | TRANSFER_GROUP_OWNER_REQ | TRANSFER_GROUP_OWNER_RESP | INVITE_GROUP_MEMBER_REQ
       | INVITE_GROUP_MEMBER_RESP | DISSOLVE_GROUP_REQ | DISSOLVE_GROUP_RESP | APPLY_GROUP_JOIN_REQ
       | APPLY_GROUP_JOIN_RESP | LIST_GROUP_JOIN_REQUESTS_REQ | LIST_GROUP_JOIN_REQUESTS_RESP
       | REVIEW_GROUP_JOIN_REQUEST_REQ | REVIEW_GROUP_JOIN_REQUEST_RESP | SEARCH_PUBLIC_GROUPS_REQ
       | SEARCH_PUBLIC_GROUPS_RESP | ERR

primrec msgTypeToInt :: "MsgType \<Rightarrow> u32" where
  "msgTypeToInt AUTH_REQ = 1"
| "msgTypeToInt AUTH_RESP = 2"
| "msgTypeToInt ECHO_REQ = 3"
| "msgTypeToInt ECHO_RESP = 4"
| "msgTypeToInt DM_REQ = 5"
| "msgTypeToInt DM_RESP = 6"
| "msgTypeToInt DM_PUSH = 7"
| "msgTypeToInt LIST_USERS_REQ = 8"
| "msgTypeToInt LIST_USERS_RESP = 9"
| "msgTypeToInt CREATE_GROUP_REQ = 10"
| "msgTypeToInt CREATE_GROUP_RESP = 11"
| "msgTypeToInt JOIN_GROUP_REQ = 12"
| "msgTypeToInt JOIN_GROUP_RESP = 13"
| "msgTypeToInt LEAVE_GROUP_REQ = 14"
| "msgTypeToInt LEAVE_GROUP_RESP = 15"
| "msgTypeToInt GROUP_MEMBERS_REQ = 16"
| "msgTypeToInt GROUP_MEMBERS_RESP = 17"
| "msgTypeToInt LIST_GROUPS_REQ = 18"
| "msgTypeToInt LIST_GROUPS_RESP = 19"
| "msgTypeToInt GROUP_EVENT_PUSH = 20"
| "msgTypeToInt GROUP_MSG_REQ = 21"
| "msgTypeToInt GROUP_MSG_RESP = 22"
| "msgTypeToInt GROUP_MSG_PUSH = 23"
| "msgTypeToInt GROUP_HISTORY_REQ = 24"
| "msgTypeToInt GROUP_HISTORY_RESP = 25"
| "msgTypeToInt OFFLINE_LIST_REQ = 26"
| "msgTypeToInt OFFLINE_LIST_RESP = 27"
| "msgTypeToInt OFFLINE_ACK_REQ = 28"
| "msgTypeToInt OFFLINE_ACK_RESP = 29"
| "msgTypeToInt REGISTER_REQ = 30"
| "msgTypeToInt REGISTER_RESP = 31"
| "msgTypeToInt LOGIN_REQ = 32"
| "msgTypeToInt LOGIN_RESP = 33"
| "msgTypeToInt TOKEN_LOGIN_REQ = 34"
| "msgTypeToInt TOKEN_LOGIN_RESP = 35"
| "msgTypeToInt LOGOUT_REQ = 36"
| "msgTypeToInt LOGOUT_RESP = 37"
| "msgTypeToInt GET_PROFILE_REQ = 38"
| "msgTypeToInt GET_PROFILE_RESP = 39"
| "msgTypeToInt UPDATE_PROFILE_REQ = 40"
| "msgTypeToInt UPDATE_PROFILE_RESP = 41"
| "msgTypeToInt SEARCH_USER_REQ = 42"
| "msgTypeToInt SEARCH_USER_RESP = 43"
| "msgTypeToInt LIST_FRIENDS_REQ = 44"
| "msgTypeToInt LIST_FRIENDS_RESP = 45"
| "msgTypeToInt SEND_FRIEND_REQUEST_REQ = 46"
| "msgTypeToInt SEND_FRIEND_REQUEST_RESP = 47"
| "msgTypeToInt LIST_FRIEND_REQUEST_REQ = 48"
| "msgTypeToInt LIST_FRIEND_REQUEST_RESP = 49"
| "msgTypeToInt ACCEPT_FRIEND_REQUEST_REQ = 50"
| "msgTypeToInt ACCEPT_FRIEND_REQUEST_RESP = 51"
| "msgTypeToInt REJECT_FRIEND_REQUEST_REQ = 52"
| "msgTypeToInt REJECT_FRIEND_REQUEST_RESP = 53"
| "msgTypeToInt REMOVE_FRIEND_REQ = 54"
| "msgTypeToInt REMOVE_FRIEND_RESP = 55"
| "msgTypeToInt FRIEND_EVENT_PUSH = 56"
| "msgTypeToInt DM_HISTORY_REQ = 57"
| "msgTypeToInt DM_HISTORY_RESP = 58"
| "msgTypeToInt CONVERSATION_LIST_REQ = 59"
| "msgTypeToInt CONVERSATION_LIST_RESP = 60"
| "msgTypeToInt CONVERSATION_READ_REQ = 61"
| "msgTypeToInt CONVERSATION_READ_RESP = 62"
| "msgTypeToInt SYNC_REQ = 63"
| "msgTypeToInt SYNC_RESP = 64"
| "msgTypeToInt MESSAGE_ACK_REQ = 65"
| "msgTypeToInt MESSAGE_ACK_RESP = 66"
| "msgTypeToInt KICK_GROUP_MEMBER_REQ = 67"
| "msgTypeToInt KICK_GROUP_MEMBER_RESP = 68"
| "msgTypeToInt SET_GROUP_ADMIN_REQ = 69"
| "msgTypeToInt SET_GROUP_ADMIN_RESP = 70"
| "msgTypeToInt TRANSFER_GROUP_OWNER_REQ = 71"
| "msgTypeToInt TRANSFER_GROUP_OWNER_RESP = 72"
| "msgTypeToInt INVITE_GROUP_MEMBER_REQ = 73"
| "msgTypeToInt INVITE_GROUP_MEMBER_RESP = 74"
| "msgTypeToInt DISSOLVE_GROUP_REQ = 75"
| "msgTypeToInt DISSOLVE_GROUP_RESP = 76"
| "msgTypeToInt APPLY_GROUP_JOIN_REQ = 77"
| "msgTypeToInt APPLY_GROUP_JOIN_RESP = 78"
| "msgTypeToInt LIST_GROUP_JOIN_REQUESTS_REQ = 79"
| "msgTypeToInt LIST_GROUP_JOIN_REQUESTS_RESP = 80"
| "msgTypeToInt REVIEW_GROUP_JOIN_REQUEST_REQ = 81"
| "msgTypeToInt REVIEW_GROUP_JOIN_REQUEST_RESP = 82"
| "msgTypeToInt SEARCH_PUBLIC_GROUPS_REQ = 83"
| "msgTypeToInt SEARCH_PUBLIC_GROUPS_RESP = 84"
| "msgTypeToInt ERR = 255"

text \<open>The cases of the switch in \<open>msgTypeFromInt\<close>.\<close>

definition msg_type_table :: "(u32 \<times> MsgType) list" where
  "msg_type_table = [
     (1, AUTH_REQ), (2, AUTH_RESP), (3, ECHO_REQ), (4, ECHO_RESP), (5, DM_REQ), (6, DM_RESP), (7, DM_PUSH)
       , (8, LIST_USERS_REQ), (9, LIST_USERS_RESP), (10, CREATE_GROUP_REQ), (11, CREATE_GROUP_RESP)
       , (12, JOIN_GROUP_REQ), (13, JOIN_GROUP_RESP), (14, LEAVE_GROUP_REQ), (15, LEAVE_GROUP_RESP)
       , (16, GROUP_MEMBERS_REQ), (17, GROUP_MEMBERS_RESP), (18, LIST_GROUPS_REQ), (19, LIST_GROUPS_RESP)
       , (20, GROUP_EVENT_PUSH), (21, GROUP_MSG_REQ), (22, GROUP_MSG_RESP), (23, GROUP_MSG_PUSH)
       , (24, GROUP_HISTORY_REQ), (25, GROUP_HISTORY_RESP), (26, OFFLINE_LIST_REQ), (27, OFFLINE_LIST_RESP)
       , (28, OFFLINE_ACK_REQ), (29, OFFLINE_ACK_RESP), (30, REGISTER_REQ), (31, REGISTER_RESP)
       , (32, LOGIN_REQ), (33, LOGIN_RESP), (34, TOKEN_LOGIN_REQ), (35, TOKEN_LOGIN_RESP), (36, LOGOUT_REQ)
       , (37, LOGOUT_RESP), (38, GET_PROFILE_REQ), (39, GET_PROFILE_RESP), (40, UPDATE_PROFILE_REQ)
       , (41, UPDATE_PROFILE_RESP), (42, SEARCH_USER_REQ), (43, SEARCH_USER_RESP), (44, LIST_FRIENDS_REQ)
       , (45, LIST_FRIENDS_RESP), (46, SEND_FRIEND_REQUEST_REQ), (47, SEND_FRIEND_REQUEST_RESP)
       , (48, LIST_FRIEND_REQUEST_REQ), (49, LIST_FRIEND_REQUEST_RESP), (50, ACCEPT_FRIEND_REQUEST_REQ)
       , (51, ACCEPT_FRIEND_REQUEST_RESP), (52, REJECT_FRIEND_REQUEST_REQ), (53, REJECT_FRIEND_REQUEST_RESP)
       , (54, REMOVE_FRIEND_REQ), (55, REMOVE_FRIEND_RESP), (56, FRIEND_EVENT_PUSH), (57, DM_HISTORY_REQ)
       , (58, DM_HISTORY_RESP), (59, CONVERSATION_LIST_REQ), (60, CONVERSATION_LIST_RESP)
       , (61, CONVERSATION_READ_REQ), (62, CONVERSATION_READ_RESP), (63, SYNC_REQ), (64, SYNC_RESP)
       , (65, MESSAGE_ACK_REQ), (66, MESSAGE_ACK_RESP), (67, KICK_GROUP_MEMBER_REQ)
       , (68, KICK_GROUP_MEMBER_RESP), (69, SET_GROUP_ADMIN_REQ), (70, SET_GROUP_ADMIN_RESP)
       , (71, TRANSFER_GROUP_OWNER_REQ), (72, TRANSFER_GROUP_OWNER_RESP), (73, INVITE_GROUP_MEMBER_REQ)
       , (74, INVITE_GROUP_MEMBER_RESP), (75, DISSOLVE_GROUP_REQ), (76, DISSOLVE_GROUP_RESP)
       , (77, APPLY_GROUP_JOIN_REQ), (78, APPLY_GROUP_JOIN_RESP), (79, LIST_GROUP_JOIN_REQUESTS_REQ)
       , (80, LIST_GROUP_JOIN_REQUESTS_RESP), (81, REVIEW_GROUP_JOIN_REQUEST_REQ)
       , (82, REVIEW_GROUP_JOIN_REQUEST_RESP), (83, SEARCH_PUBLIC_GROUPS_REQ), (84, SEARCH_PUBLIC_GROUPS_RESP)
       , (255, ERR)]"

definition msgTypeFromInt :: "u32 \<Rightarrow> MsgType option" where
  "msgTypeFromInt v = map_of msg_type_table v"

definition isValidMsgType :: "u32 \<Rightarrow> bool" where
  "isValidMsgType v \<longleftrightarrow> msgTypeFromInt v \<noteq> None"

subsection \<open>Error codes\<close>

text \<open>The enumerator \<open>Conflict\<close> of the code is \<open>CONFLICT\<close> here.\<close>

datatype (plugins only: code) ErrorCode =
    OK | BAD_JSON | MISSING_FIELD | UNSUPPORTED_VER | UNKNOWN_TYPE | NOT_AUTHED | USER_EXISTS | BAD_REQUEST
       | NO_SUCH_USER | NO_SUCH_GROUP | ALREADY_IN_GROUP | NOT_IN_GROUP | GROUP_NAME_INVALID | USER_NOT_FOUND
       | BAD_PASSWORD | WEAK_PASSWORD | TOKEN_INVALID | TOKEN_EXPIRED | TOKEN_REVOKED | PROFILE_NOT_FOUND
       | NICKNAME_INVALID | SIGNATURE_TOO_LONG | AVATAR_URL_TOO_LONG | CANNOT_ADD_SELF | ALREADY_FRIENDS
       | FRIEND_REQUEST_EXISTS | FRIEND_REQUEST_NOT_FOUND | FRIEND_REQUEST_ALREADY_HANDLED
       | FRIEND_REQUEST_FORBIDDEN | NOT_FRIENDS | RECIPIENT_OFFLINE | DELIVERY_OVERLOADED
       | INVALID_ACK_PAYLOAD | ACK_BATCH_TOO_LARGE | MESSAGE_NOT_FOUND | MESSAGE_ACK_FORBIDDEN | NO_PERMISSION
       | TARGET_NOT_IN_GROUP | OWNER_CANNOT_LEAVE | OWNER_CANNOT_BE_KICKED | INVALID_GROUP_ROLE
       | CANNOT_KICK_SELF | GROUP_DISSOLVED | CANNOT_INVITE_SELF | INVITE_REQUIRES_FRIEND
       | GROUP_MEMBER_LIMIT_REACHED | JOIN_REQUEST_NOT_FOUND | RATE_LIMITED | CONFLICT | INTERNAL

primrec errCodeToInt :: "ErrorCode \<Rightarrow> u16" where
  "errCodeToInt OK = 0"
| "errCodeToInt BAD_JSON = 1"
| "errCodeToInt MISSING_FIELD = 2"
| "errCodeToInt UNSUPPORTED_VER = 3"
| "errCodeToInt UNKNOWN_TYPE = 4"
| "errCodeToInt NOT_AUTHED = 5"
| "errCodeToInt USER_EXISTS = 6"
| "errCodeToInt BAD_REQUEST = 7"
| "errCodeToInt NO_SUCH_USER = 8"
| "errCodeToInt NO_SUCH_GROUP = 9"
| "errCodeToInt ALREADY_IN_GROUP = 10"
| "errCodeToInt NOT_IN_GROUP = 11"
| "errCodeToInt GROUP_NAME_INVALID = 12"
| "errCodeToInt USER_NOT_FOUND = 13"
| "errCodeToInt BAD_PASSWORD = 14"
| "errCodeToInt WEAK_PASSWORD = 15"
| "errCodeToInt TOKEN_INVALID = 16"
| "errCodeToInt TOKEN_EXPIRED = 17"
| "errCodeToInt TOKEN_REVOKED = 18"
| "errCodeToInt PROFILE_NOT_FOUND = 19"
| "errCodeToInt NICKNAME_INVALID = 20"
| "errCodeToInt SIGNATURE_TOO_LONG = 21"
| "errCodeToInt AVATAR_URL_TOO_LONG = 22"
| "errCodeToInt CANNOT_ADD_SELF = 23"
| "errCodeToInt ALREADY_FRIENDS = 24"
| "errCodeToInt FRIEND_REQUEST_EXISTS = 25"
| "errCodeToInt FRIEND_REQUEST_NOT_FOUND = 26"
| "errCodeToInt FRIEND_REQUEST_ALREADY_HANDLED = 27"
| "errCodeToInt FRIEND_REQUEST_FORBIDDEN = 28"
| "errCodeToInt NOT_FRIENDS = 29"
| "errCodeToInt RECIPIENT_OFFLINE = 30"
| "errCodeToInt DELIVERY_OVERLOADED = 31"
| "errCodeToInt INVALID_ACK_PAYLOAD = 32"
| "errCodeToInt ACK_BATCH_TOO_LARGE = 33"
| "errCodeToInt MESSAGE_NOT_FOUND = 34"
| "errCodeToInt MESSAGE_ACK_FORBIDDEN = 35"
| "errCodeToInt NO_PERMISSION = 36"
| "errCodeToInt TARGET_NOT_IN_GROUP = 37"
| "errCodeToInt OWNER_CANNOT_LEAVE = 38"
| "errCodeToInt OWNER_CANNOT_BE_KICKED = 39"
| "errCodeToInt INVALID_GROUP_ROLE = 40"
| "errCodeToInt CANNOT_KICK_SELF = 41"
| "errCodeToInt GROUP_DISSOLVED = 42"
| "errCodeToInt CANNOT_INVITE_SELF = 43"
| "errCodeToInt INVITE_REQUIRES_FRIEND = 44"
| "errCodeToInt GROUP_MEMBER_LIMIT_REACHED = 45"
| "errCodeToInt JOIN_REQUEST_NOT_FOUND = 46"
| "errCodeToInt RATE_LIMITED = 47"
| "errCodeToInt CONFLICT = 48"
| "errCodeToInt INTERNAL = 49"

primrec errCodeToString :: "ErrorCode \<Rightarrow> string" where
  "errCodeToString OK = ''OK''"
| "errCodeToString BAD_JSON = ''Bad JSON''"
| "errCodeToString MISSING_FIELD = ''Missing Field''"
| "errCodeToString UNSUPPORTED_VER = ''Unsupported Version''"
| "errCodeToString UNKNOWN_TYPE = ''Unknown Type''"
| "errCodeToString NOT_AUTHED = ''Not Authenticated''"
| "errCodeToString USER_EXISTS = ''User exists''"
| "errCodeToString BAD_REQUEST = ''Request Error''"
| "errCodeToString NO_SUCH_USER = ''User do not exist''"
| "errCodeToString NO_SUCH_GROUP = ''Group do not exist''"
| "errCodeToString ALREADY_IN_GROUP = ''User is already in the group''"
| "errCodeToString NOT_IN_GROUP = ''The user is not in the group''"
| "errCodeToString GROUP_NAME_INVALID = ''Group name is invalid''"
| "errCodeToString USER_NOT_FOUND = ''User is not exist''"
| "errCodeToString BAD_PASSWORD = ''Password is wrong''"
| "errCodeToString WEAK_PASSWORD = ''Password is too weak''"
| "errCodeToString TOKEN_INVALID = ''Token is invalid''"
| "errCodeToString TOKEN_EXPIRED = ''Token is expired''"
| "errCodeToString TOKEN_REVOKED = ''Token is revoked''"
| "errCodeToString PROFILE_NOT_FOUND = ''Profile not found''"
| "errCodeToString NICKNAME_INVALID = ''Nickname is invalid''"
| "errCodeToString SIGNATURE_TOO_LONG = ''Signature is too long''"
| "errCodeToString AVATAR_URL_TOO_LONG = ''Avatar URL is too long''"
| "errCodeToString CANNOT_ADD_SELF = ''Cannot add self as friend''"
| "errCodeToString ALREADY_FRIENDS = ''Already friends''"
| "errCodeToString FRIEND_REQUEST_EXISTS = ''Friend request already exists''"
| "errCodeToString FRIEND_REQUEST_NOT_FOUND = ''Friend request not found''"
| "errCodeToString FRIEND_REQUEST_ALREADY_HANDLED = ''Friend request already handled''"
| "errCodeToString FRIEND_REQUEST_FORBIDDEN = ''Friend request forbidden''"
| "errCodeToString NOT_FRIENDS = ''Not friends''"
| "errCodeToString RECIPIENT_OFFLINE = ''Recipient is offline''"
| "errCodeToString DELIVERY_OVERLOADED = ''Server is overloaded, try again later''"
| "errCodeToString INVALID_ACK_PAYLOAD = ''Invalid ACK payload''"
| "errCodeToString ACK_BATCH_TOO_LARGE = ''ACK batch size is too large''"
| "errCodeToString MESSAGE_NOT_FOUND = ''Message not found''"
| "errCodeToString MESSAGE_ACK_FORBIDDEN = ''You are not allowed to ACK this message''"
| "errCodeToString NO_PERMISSION = ''No permission''"
| "errCodeToString TARGET_NOT_IN_GROUP = ''Target user is not in the group''"
| "errCodeToString OWNER_CANNOT_LEAVE = ''Group owner cannot leave the group''"
| "errCodeToString OWNER_CANNOT_BE_KICKED = ''Group owner cannot be kicked''"
| "errCodeToString INVALID_GROUP_ROLE = ''Invalid group role''"
| "errCodeToString CANNOT_KICK_SELF = ''Cannot kick yourself''"
| "errCodeToString GROUP_DISSOLVED = ''The group has been dissolved''"
| "errCodeToString CANNOT_INVITE_SELF = ''Cannot invite yourself''"
| "errCodeToString INVITE_REQUIRES_FRIEND = ''Only friends can be invited''"
| "errCodeToString GROUP_MEMBER_LIMIT_REACHED = ''Group member limit reached''"
| "errCodeToString JOIN_REQUEST_NOT_FOUND = ''Group join request not found''"
| "errCodeToString RATE_LIMITED = ''rate limited''"
| "errCodeToString CONFLICT = ''conflict''"
| "errCodeToString INTERNAL = ''Internal Server Error''"

subsection \<open>The numbers identify the enumerators\<close>

lemma table_sound: "list_all (\<lambda>(v, t). msgTypeToInt t = v) msg_type_table"
  by (simp add: msg_type_table_def)

lemma table_complete: "(msgTypeToInt t, t) \<in> set msg_type_table"
  by (cases t) (simp_all add: msg_type_table_def)

lemma table_distinct: "distinct (map fst msg_type_table)"
  by (simp add: msg_type_table_def)

lemma msgTypeFromInt_toInt [simp]: "msgTypeFromInt (msgTypeToInt t) = Some t"
  unfolding msgTypeFromInt_def using table_distinct table_complete by (rule map_of_is_SomeI)

lemma msgTypeFromInt_sound: "msgTypeFromInt v = Some t \<Longrightarrow> v = msgTypeToInt t"
  using table_sound unfolding msgTypeFromInt_def by (auto dest!: map_of_SomeD simp: list_all_iff)

text \<open>
  Decoding a message type number inverts encoding it: every type is recognised from its number, and
  a number is recognised only as the type that has it. So no two types share a number, and exactly the
  numbers of types are valid.
\<close>

theorem msgType_roundtrip:
  "(msgTypeFromInt v = Some t \<longleftrightarrow> v = msgTypeToInt t) \<and> (isValidMsgType v \<longleftrightarrow> v \<in> range msgTypeToInt)"
  by (auto simp: isValidMsgType_def dest: msgTypeFromInt_sound)

end
