(* ===== verification/Codec.thy ===== *)
theory Codec
  imports Protocol
begin

text \<open>
  Parsing and building of protocol messages: \<open>src/src/im/ImCodec.cpp\<close> with \<open>src/include/im/ImMessage.h\<close>,
  \<open>src/include/im/ImCodec.h\<close>, \<open>src/include/im/SyncModels.h\<close>, \<open>src/include/im/HistoryQuery.h\<close>.

  The JSON library is vendored; its text parser and printer are the arguments \<open>parse\<close> and \<open>dump\<close> of the
  operations that use them, and its value type is \<open>json\<close>. The conversions \<open>get<T>()\<close> are those of the
  library: between arithmetic types they are C++ casts, so a number that does not fit is reduced modulo
  the width; on any other kind of value they throw a \<open>type_error\<close>. A floating-point number is kept as its
  value truncated towards zero, the only part of it the program reads.
\<close>

subsection \<open>JSON values\<close>

datatype json = JNull | JBool bool | JInt u64 | JUInt u64 | JFloat int | JString string
  | JArray "json list" | JObject "(string \<times> json) list"

definition field :: "string \<Rightarrow> json \<Rightarrow> json option" where
  "field k j = (case j of JObject kvs \<Rightarrow> map_of kvs k | _ \<Rightarrow> None)"

definition contains :: "string \<Rightarrow> json \<Rightarrow> bool" where
  "contains k j \<longleftrightarrow> field k j \<noteq> None"

text \<open>\<open>get<uint64_t>\<close>, \<open>get<uint32_t>\<close> (which also accepts booleans) and \<open>get<std::string>\<close>; \<open>None\<close> is \<open>type_error\<close>.\<close>

definition get_uint64 :: "json \<Rightarrow> u64 option" where
  "get_uint64 j = (case j of JUInt w \<Rightarrow> Some w | JInt w \<Rightarrow> Some w | JFloat i \<Rightarrow> Some (word_of_int i) | _ \<Rightarrow> None)"

definition get_uint32 :: "json \<Rightarrow> u32 option" where
  "get_uint32 j = (case j of JBool b \<Rightarrow> Some (if b then 1 else 0) | _ \<Rightarrow> map_option ucast (get_uint64 j))"

definition get_string :: "json \<Rightarrow> string option" where
  "get_string j = (case j of JString s \<Rightarrow> Some s | _ \<Rightarrow> None)"

subsection \<open>Requests and responses\<close>

record request =
  req_ver :: u32
  req_type :: MsgType
  req_id :: u64
  req_seq :: u64
  req_from :: string
  req_to :: string
  req_body :: json

record response =
  resp_ver :: u32
  resp_req_id :: u64
  resp_type :: MsgType
  resp_ok :: bool
  resp_code :: ErrorCode
  resp_msg :: string
  resp_data :: json

text \<open>A parsed request, the response to a refused one, or an exception the parser lets through.\<close>

datatype parse_outcome = Parsed request | Refused response | Throws

definition refusal :: "u32 \<Rightarrow> ErrorCode \<Rightarrow> string \<Rightarrow> parse_outcome" where
  "refusal ver code msg = Refused \<lparr>resp_ver = ver, resp_req_id = 0, resp_type = ERR, resp_ok = False,
     resp_code = code, resp_msg = msg, resp_data = JNull\<rparr>"

text \<open>An optional member with a default.\<close>

definition optional_field :: "string \<Rightarrow> (json \<Rightarrow> 'a option) \<Rightarrow> 'a \<Rightarrow> json \<Rightarrow> 'a option" where
  "optional_field k get dflt j = (case field k j of None \<Rightarrow> Some dflt | Some v \<Rightarrow> get v)"

definition tryParse :: "(string \<Rightarrow> json option) \<Rightarrow> string \<Rightarrow> parse_outcome" where
  "tryParse parse payload =
     (case parse payload of
        None \<Rightarrow> refusal 1 BAD_JSON ''Invalid JSON format''
      | Some j \<Rightarrow>
          if \<not> contains ''ver'' j \<or> \<not> contains ''type'' j \<or> \<not> contains ''req_id'' j
          then refusal 1 MISSING_FIELD ''Missing required field''
          else case get_uint32 (the (field ''ver'' j)) of None \<Rightarrow> Throws | Some ver \<Rightarrow>
          if ver \<noteq> 1 then refusal ver UNSUPPORTED_VER ''Unsupported protocol version''
          else case get_uint32 (the (field ''type'' j)) of None \<Rightarrow> Throws | Some type_int \<Rightarrow>
          (case msgTypeFromInt type_int of
             None \<Rightarrow> refusal ver UNKNOWN_TYPE ''Unknown message type''
           | Some type \<Rightarrow>
          (case get_uint64 (the (field ''req_id'' j)) of None \<Rightarrow> Throws | Some rid \<Rightarrow>
          (case optional_field ''seq'' get_uint64 0 j of None \<Rightarrow> Throws | Some seq \<Rightarrow>
          (case optional_field ''from'' get_string [] j of None \<Rightarrow> Throws | Some from \<Rightarrow>
          (case optional_field ''to'' get_string [] j of None \<Rightarrow> Throws | Some to \<Rightarrow>
             Parsed \<lparr>req_ver = ver, req_type = type, req_id = rid, req_seq = seq, req_from = from, req_to = to, req_body = j\<rparr>))))))"

text \<open>The members of an object are printed in the order of their keys.\<close>

definition response_json :: "response \<Rightarrow> json" where
  "response_json r = JObject [(''code'', JUInt (ucast (errCodeToInt (resp_code r)))), (''data'', resp_data r), (''msg'', JString (resp_msg r)),
     (''ok'', JBool (resp_ok r)), (''req_id'', JUInt (resp_req_id r)), (''type'', JUInt (ucast (msgTypeToInt (resp_type r)))),
     (''ver'', JUInt (ucast (resp_ver r)))]"

definition encodeResponse :: "(json \<Rightarrow> string) \<Rightarrow> response \<Rightarrow> string" where
  "encodeResponse dump r = dump (response_json r)"

definition makeErr :: "request \<Rightarrow> ErrorCode \<Rightarrow> string \<Rightarrow> json \<Rightarrow> response" where
  "makeErr req code msg data = \<lparr>resp_ver = req_ver req, resp_req_id = req_id req, resp_type = ERR, resp_ok = False,
     resp_code = code, resp_msg = msg, resp_data = data\<rparr>"

definition makeOk :: "request \<Rightarrow> MsgType \<Rightarrow> json \<Rightarrow> string \<Rightarrow> response" where
  "makeOk req type data msg = \<lparr>resp_ver = req_ver req, resp_req_id = req_id req, resp_type = type, resp_ok = True,
     resp_code = OK, resp_msg = msg, resp_data = data\<rparr>"

datatype DispatchMode = Immediate | Deferred

record DispatchResult =
  dr_mode :: DispatchMode
  dr_response :: "response option"

definition immediate :: "response \<Rightarrow> DispatchResult" where
  "immediate r = \<lparr>dr_mode = Immediate, dr_response = Some r\<rparr>"

definition deferred :: DispatchResult where
  "deferred = \<lparr>dr_mode = Deferred, dr_response = None\<rparr>"

definition shouldRespond :: "DispatchResult \<Rightarrow> bool" where
  "shouldRespond d \<longleftrightarrow> dr_mode d = Immediate \<and> dr_response d \<noteq> None"

subsection \<open>Numbers in requests\<close>

text \<open>
  \<open>is_number_unsigned() ? get<uint64_t>() : is_number_integer() && get<int64_t>() > 0 ? ... : error\<close>.
  The members of a request that count or identify something are all read this way.
\<close>

definition read_count :: "json \<Rightarrow> u64 option" where
  "read_count v = (case v of JUInt w \<Rightarrow> Some w | JInt w \<Rightarrow> if sint w > 0 then Some w else None | _ \<Rightarrow> None)"

text \<open>The same with \<open>>= 0\<close>, for \<open>lastMsgId\<close> of a cursor.\<close>

definition read_msg_id :: "json \<Rightarrow> u64 option" where
  "read_msg_id v = (case v of JUInt w \<Rightarrow> Some w | JInt w \<Rightarrow> if sint w \<ge> 0 then Some w else None | _ \<Rightarrow> None)"

definition parseLimit :: "request \<Rightarrow> string \<Rightarrow> u64 \<Rightarrow> u64 \<Rightarrow> u64" where
  "parseLimit req key dflt lim =
     (case field key (req_body req) of
        None \<Rightarrow> dflt
      | Some v \<Rightarrow> let result = (case read_count v of None \<Rightarrow> dflt | Some w \<Rightarrow> w) in if result > lim then lim else result)"

subsection \<open>Synchronisation cursors\<close>

datatype ConversationType = UnknownConv | Direct | GroupConv

record SyncCursor =
  cur_type :: ConversationType
  cur_targetId :: string
  cur_lastMsgId :: u64
  cur_limit :: u64

definition parse_cursor :: "u64 \<Rightarrow> u64 \<Rightarrow> json \<Rightarrow> ErrorCode + SyncCursor" where
  "parse_cursor dflt maxLimit item =
     (case item of JObject _ \<Rightarrow>
        (case field ''conversationType'' item of
           None \<Rightarrow> Inl MISSING_FIELD
         | Some (JString typeStr) \<Rightarrow>
             if typeStr \<noteq> ''direct'' \<and> typeStr \<noteq> ''group'' then Inl BAD_REQUEST else
             (case field ''targetId'' item of
                None \<Rightarrow> Inl MISSING_FIELD
              | Some (JString target) \<Rightarrow>
                  if target = [] then Inl BAD_REQUEST else
                  (case optional_field ''lastMsgId'' read_msg_id 0 item of None \<Rightarrow> Inl BAD_REQUEST | Some lastId \<Rightarrow>
                  (case optional_field ''limit'' read_count dflt item of None \<Rightarrow> Inl BAD_REQUEST | Some lim \<Rightarrow>
                     let lim1 = (if lim = 0 then dflt else lim);
                         lim2 = (if lim1 > maxLimit then maxLimit else lim1)
                     in Inr \<lparr>cur_type = (if typeStr = ''direct'' then Direct else GroupConv), cur_targetId = target,
                             cur_lastMsgId = lastId, cur_limit = lim2\<rparr>))
              | Some _ \<Rightarrow> Inl BAD_REQUEST)
         | Some _ \<Rightarrow> Inl BAD_REQUEST)
      | _ \<Rightarrow> Inl BAD_REQUEST)"

text \<open>The loop over the array; \<open>Inl\<close> is the early return with \<open>ok=false\<close>.\<close>

fun parse_cursors :: "u64 \<Rightarrow> u64 \<Rightarrow> json list \<Rightarrow> ErrorCode + SyncCursor list" where
  "parse_cursors dflt maxLimit [] = Inr []"
| "parse_cursors dflt maxLimit (item # items) =
     (case parse_cursor dflt maxLimit item of
        Inl e \<Rightarrow> Inl e
      | Inr c \<Rightarrow> (case parse_cursors dflt maxLimit items of Inl e \<Rightarrow> Inl e | Inr cs \<Rightarrow> Inr (c # cs)))"

definition parseSyncCursors :: "request \<Rightarrow> u64 \<Rightarrow> u64 \<Rightarrow> ErrorCode + SyncCursor list" where
  "parseSyncCursors req dflt maxLimit =
     (case field ''cursors'' (req_body req) of
        None \<Rightarrow> Inr []
      | Some (JArray items) \<Rightarrow> parse_cursors dflt maxLimit items
      | Some _ \<Rightarrow> Inl BAD_REQUEST)"

subsection \<open>Acknowledgements\<close>

text \<open>
  \<open>parseUint64ArrayField\<close> answers with an error response or nothing, and fills \<open>out\<close>, of which an error
  in the middle leaves the part read so far.
\<close>

fun collect_ids :: "request \<Rightarrow> string \<Rightarrow> json list \<Rightarrow> u64 list \<Rightarrow> response option \<times> u64 list" where
  "collect_ids req fld [] out = (None, out)"
| "collect_ids req fld (item # items) out =
     (case (case item of JUInt w \<Rightarrow> if w > 0 then Some w else if sint w > 0 then Some w else None
                       | JInt w \<Rightarrow> if sint w > 0 then Some w else None | _ \<Rightarrow> None) of
        None \<Rightarrow> (Some (makeErr req BAD_REQUEST (''Invalid value for field: '' @ fld) JNull), out)
      | Some w \<Rightarrow> collect_ids req fld items (out @ [w]))"

definition parseUint64ArrayField :: "request \<Rightarrow> string \<Rightarrow> u64 list \<Rightarrow> nat \<Rightarrow> response option \<times> u64 list" where
  "parseUint64ArrayField req fld out maxBatch =
     (case field fld (req_body req) of
        None \<Rightarrow> (None, out)
      | Some (JArray items) \<Rightarrow>
          if items = [] then (Some (makeErr req BAD_REQUEST (''Array is empty: '' @ fld) JNull), out)
          else if length items > maxBatch then (Some (makeErr req ACK_BATCH_TOO_LARGE (''Batch size is too large: '' @ fld) JNull), out)
          else collect_ids req fld items []
      | Some _ \<Rightarrow> (Some (makeErr req BAD_REQUEST (''Field is not an array: '' @ fld) JNull), out))"

record MessageAckPayload =
  ack_msgIds :: "u64 list"
  ack_offlineMsgIds :: "u64 list"

definition parseMessageAck :: "request \<Rightarrow> nat \<Rightarrow> ErrorCode + MessageAckPayload" where
  "parseMessageAck req maxBatch =
     (case parseUint64ArrayField req ''msgIds'' [] maxBatch of
        (Some r, _) \<Rightarrow> Inl (resp_code r)
      | (None, msgIds) \<Rightarrow>
          (case parseUint64ArrayField req ''offlineMsgIds'' [] maxBatch of
             (Some r, _) \<Rightarrow> Inl (resp_code r)
           | (None, offlineIds) \<Rightarrow>
               if msgIds = [] \<and> offlineIds = [] then Inl INVALID_ACK_PAYLOAD
               else Inr \<lparr>ack_msgIds = msgIds, ack_offlineMsgIds = offlineIds\<rparr>))"

subsection \<open>History queries\<close>

datatype HistoryQueryMode = Latest | Before | After

record HistoryQuery =
  hq_mode :: HistoryQueryMode
  hq_beforeMsgId :: u64
  hq_lastMsgId :: u64
  hq_limit :: u64

fun historyQueryModeToString :: "HistoryQueryMode \<Rightarrow> string" where
  "historyQueryModeToString Latest = ''latest''"
| "historyQueryModeToString Before = ''before''"
| "historyQueryModeToString After = ''after''"

definition parseHistoryQuery :: "request \<Rightarrow> u64 \<Rightarrow> u64 \<Rightarrow> ErrorCode + HistoryQuery" where
  "parseHistoryQuery req dflt maxLimit =
     (case optional_field ''limit'' read_count dflt (req_body req) of None \<Rightarrow> Inl BAD_REQUEST | Some lim0 \<Rightarrow>
      let lim = (if lim0 > maxLimit then maxLimit else lim0) in
      (case optional_field ''beforeMsgId'' read_count 0 (req_body req) of None \<Rightarrow> Inl BAD_REQUEST | Some before \<Rightarrow>
      (case optional_field ''lastMsgId'' read_count 0 (req_body req) of None \<Rightarrow> Inl BAD_REQUEST | Some lastId \<Rightarrow>
       if before > 0 \<and> lastId > 0 then Inl BAD_REQUEST
       else let mode = (if before = 0 \<and> lastId = 0 then Latest else if before > 0 \<and> lastId = 0 then Before else After)
            in Inr \<lparr>hq_mode = mode, hq_beforeMsgId = before, hq_lastMsgId = lastId, hq_limit = lim\<rparr>)))"

subsection \<open>Properties\<close>

lemma msgTypeFromInt_eq: "msgTypeFromInt v = Some t \<longleftrightarrow> v = msgTypeToInt t"
  by (metis msgTypeFromInt_sound msgTypeFromInt_toInt)

lemma ucast_ucast_id_32: "ucast (ucast (w :: u32) :: u64) = w"
  by (rule bit_word_eqI) (simp add: bit_simps)

lemma ucast_16_64_32: "ucast (ucast (w :: u16) :: u64) = (ucast w :: u32)"
  by (rule bit_word_eqI) (auto simp: bit_simps dest: bit_imp_le_length)

text \<open>
  What it takes for a payload to become a request: it is JSON with the three required members, the
  version reads as 1, the type number is that of the request's type, and the request carries exactly the
  identifier, sequence number, sender and receiver of the payload (0 and empty when absent) and the
  whole JSON value as its body.
\<close>

theorem tryParse_accepts:
  "tryParse parse payload = Parsed r \<longleftrightarrow>
     (\<exists>j v t i. parse payload = Some j \<and> field ''ver'' j = Some v \<and> field ''type'' j = Some t \<and> field ''req_id'' j = Some i \<and>
        get_uint32 v = Some 1 \<and> get_uint32 t = Some (msgTypeToInt (req_type r)) \<and> get_uint64 i = Some (req_id r) \<and>
        optional_field ''seq'' get_uint64 0 j = Some (req_seq r) \<and> optional_field ''from'' get_string [] j = Some (req_from r) \<and>
        optional_field ''to'' get_string [] j = Some (req_to r) \<and> req_ver r = 1 \<and> req_body r = j)"
  (is "?L \<longleftrightarrow> ?R")
proof
  assume ?L
  then show ?R
    by (auto simp: tryParse_def refusal_def contains_def msgTypeFromInt_eq split: option.splits if_splits)
next
  assume ?R
  then show ?L by (auto simp: tryParse_def contains_def)
qed

text \<open>
  Every refused payload is answered with a failure response of type \<open>ERR\<close> that names its reason; the
  parser throws instead, past the handlers of the caller, exactly when a member is present but of a type
  that does not convert.
\<close>

theorem tryParse_rejects:
  "(tryParse parse payload = Refused e \<longrightarrow> resp_type e = ERR \<and> \<not> resp_ok e \<and> resp_req_id e = 0 \<and>
      (resp_code e = BAD_JSON \<longleftrightarrow> parse payload = None) \<and>
      resp_code e \<in> {BAD_JSON, MISSING_FIELD, UNSUPPORTED_VER, UNKNOWN_TYPE}) \<and>
   (tryParse parse payload = Throws \<longleftrightarrow>
      (\<exists>j v t i. parse payload = Some j \<and> field ''ver'' j = Some v \<and> field ''type'' j = Some t \<and> field ''req_id'' j = Some i \<and>
         (get_uint32 v = None \<or> get_uint32 v = Some 1 \<and>
            (get_uint32 t = None \<or> (\<exists>n. get_uint32 t = Some n \<and> msgTypeFromInt n \<noteq> None) \<and>
               (get_uint64 i = None \<or> optional_field ''seq'' get_uint64 0 j = None \<or>
                optional_field ''from'' get_string [] j = None \<or> optional_field ''to'' get_string [] j = None)))))"
proof -
  have "resp_type e = ERR \<and> \<not> resp_ok e \<and> resp_req_id e = 0 \<and> (resp_code e = BAD_JSON \<longleftrightarrow> parse payload = None) \<and>
      resp_code e \<in> {BAD_JSON, MISSING_FIELD, UNSUPPORTED_VER, UNKNOWN_TYPE}" if "tryParse parse payload = Refused e"
    using that by (auto simp: tryParse_def refusal_def split: option.splits if_splits)
  moreover have "tryParse parse payload = Throws \<longleftrightarrow>
      (\<exists>j v t i. parse payload = Some j \<and> field ''ver'' j = Some v \<and> field ''type'' j = Some t \<and> field ''req_id'' j = Some i \<and>
         (get_uint32 v = None \<or> get_uint32 v = Some 1 \<and>
            (get_uint32 t = None \<or> (\<exists>n. get_uint32 t = Some n \<and> msgTypeFromInt n \<noteq> None) \<and>
               (get_uint64 i = None \<or> optional_field ''seq'' get_uint64 0 j = None \<or>
                optional_field ''from'' get_string [] j = None \<or> optional_field ''to'' get_string [] j = None))))" (is "?L \<longleftrightarrow> ?R")
  proof
    assume ?L
    then show ?R by (auto simp: tryParse_def refusal_def contains_def split: option.splits if_splits)
  next
    assume ?R
    then show ?L by (auto simp: tryParse_def contains_def split: option.splits)
  qed
  ultimately show ?thesis by blast
qed

theorem tryParse_rejects_witness:
  "tryParse (\<lambda>_. Some (JObject [(''ver'', JString ''1''), (''type'', JUInt 3), (''req_id'', JUInt 9)])) ''x'' = Throws"
proof -
  let ?j = "JObject [(''ver'', JString ''1''), (''type'', JUInt 3), (''req_id'', JUInt 9)]"
  have "field ''ver'' ?j = Some (JString ''1'')" "field ''type'' ?j = Some (JUInt 3)" "field ''req_id'' ?j = Some (JUInt 9)"
    "get_uint32 (JString ''1'') = None"
    by (simp_all add: field_def get_uint32_def get_uint64_def)
  then show ?thesis using tryParse_rejects [of "\<lambda>_. Some ?j" "''x''"] by blast
qed

text \<open>
  The version and the type are read as 32-bit numbers without a range check, so a payload of version
  4294967297 is accepted as version 1.
\<close>

lemma tryParse_wraps_version:
  "case tryParse (\<lambda>_. Some (JObject [(''ver'', JUInt 4294967297), (''type'', JUInt 3), (''req_id'', JUInt 9)])) ''x'' of
     Parsed r \<Rightarrow> req_ver r = 1 \<and> req_id r = 9 | _ \<Rightarrow> False"
  by code_simp



lemma parse_cursor_ok:
  assumes "parse_cursor dflt maxLimit item = Inr c" "0 < dflt" "0 < maxLimit"
  shows "cur_type c \<in> {Direct, GroupConv} \<and> cur_targetId c \<noteq> [] \<and> 0 < cur_limit c \<and> cur_limit c \<le> maxLimit"
proof (cases item)
  case (JObject kvs)
  with assms show ?thesis
    by (auto simp: parse_cursor_def Let_def word_gt_0 split: option.splits json.splits if_splits)
qed (use assms in \<open>simp_all add: parse_cursor_def\<close>)

text \<open>
  A synchronisation request that parses gives one cursor per array element, each for a named direct
  or group conversation with a page size between 1 and the maximum.
\<close>

theorem sync_cursors_bounded:
  assumes "parseSyncCursors req dflt maxLimit = Inr cs" "0 < dflt" "0 < maxLimit"
  shows "(\<forall>c \<in> set cs. cur_type c \<in> {Direct, GroupConv} \<and> cur_targetId c \<noteq> [] \<and> 0 < cur_limit c \<and> cur_limit c \<le> maxLimit) \<and>
    (\<forall>items. field ''cursors'' (req_body req) = Some (JArray items) \<longrightarrow> length cs = length items)"
proof -
  have loop: "(\<forall>c \<in> set cs. cur_type c \<in> {Direct, GroupConv} \<and> cur_targetId c \<noteq> [] \<and> 0 < cur_limit c \<and> cur_limit c \<le> maxLimit) \<and>
      length cs = length items" if "parse_cursors dflt maxLimit items = Inr cs" for items cs
    using that
  proof (induction items arbitrary: cs)
    case (Cons item items)
    then obtain c cs' where c: "parse_cursor dflt maxLimit item = Inr c" "parse_cursors dflt maxLimit items = Inr cs'" "cs = c # cs'"
      by (auto split: sum.splits)
    with Cons.IH [OF c(2)] parse_cursor_ok [OF c(1) assms(2,3)] show ?case by simp
  qed simp
  show ?thesis
  proof (cases "field ''cursors'' (req_body req)")
    case None
    with assms(1) show ?thesis by (simp add: parseSyncCursors_def)
  next
    case (Some v)
    with assms(1) obtain items where "v = JArray items" "parse_cursors dflt maxLimit items = Inr cs"
      by (auto simp: parseSyncCursors_def split: json.splits)
    with loop [of items cs] Some show ?thesis by simp
  qed
qed

definition demo_request :: "json \<Rightarrow> request" where
  "demo_request b = \<lparr>req_ver = 1, req_type = ECHO_REQ, req_id = 1, req_seq = 0, req_from = [], req_to = [], req_body = b\<rparr>"

theorem sync_cursors_bounded_witness:
  "\<exists>c. parseSyncCursors (demo_request (JObject [(''cursors'', JArray [JObject [(''conversationType'', JString ''group''),
      (''targetId'', JString ''G1''), (''limit'', JUInt 900)]])])) 50 100 = Inr [c] \<and> cur_limit c \<le> 100"
proof -
  let ?req = "demo_request (JObject [(''cursors'', JArray [JObject [(''conversationType'', JString ''group''),
      (''targetId'', JString ''G1''), (''limit'', JUInt 900)]])])"
  obtain cs where cs: "parseSyncCursors ?req 50 100 = Inr cs"
    by (simp add: parseSyncCursors_def parse_cursor_def demo_request_def field_def optional_field_def read_count_def Let_def)
  have "length cs = 1" "\<forall>c \<in> set cs. cur_limit c \<le> 100"
    using sync_cursors_bounded [OF cs] by (auto simp: demo_request_def field_def)
  with cs show ?thesis by (cases cs) auto
qed

lemma sint_pos_nonzero: "0 < sint (w :: u64) \<Longrightarrow> w \<noteq> 0"
  by auto

lemma collect_ids_ok:
  "collect_ids req fld items out = (None, ids) \<Longrightarrow> (\<forall>w \<in> set out. 0 < w) \<Longrightarrow>
   (\<forall>w \<in> set ids. 0 < w) \<and> length ids = length out + length items"
proof (induction items arbitrary: out)
  case (Cons item items)
  from Cons.prems(1) obtain w where "collect_ids req fld items (out @ [w]) = (None, ids)" "0 < w"
    by (cases item) (auto split: if_splits simp: word_gt_0 dest: sint_pos_nonzero)
  with Cons.IH [of "out @ [w]"] Cons.prems(2) show ?case by auto
qed simp

lemma parseUint64ArrayField_ok:
  assumes "parseUint64ArrayField req fld [] maxBatch = (None, ids)"
  shows "(\<forall>w \<in> set ids. 0 < w) \<and> length ids \<le> maxBatch"
proof (cases "field fld (req_body req)")
  case None
  with assms show ?thesis by (simp add: parseUint64ArrayField_def)
next
  case (Some v)
  with assms show ?thesis
    by (cases v) (auto simp: parseUint64ArrayField_def split: if_splits dest!: collect_ids_ok)
qed

text \<open>
  An acknowledgement that parses names at least one message, no list is longer than the batch limit,
  and every identifier is positive.
\<close>

lemma message_ack_bounded:
  assumes "parseMessageAck req maxBatch = Inr p"
  shows "(ack_msgIds p \<noteq> [] \<or> ack_offlineMsgIds p \<noteq> []) \<and> length (ack_msgIds p) \<le> maxBatch \<and>
    length (ack_offlineMsgIds p) \<le> maxBatch \<and> (\<forall>w \<in> set (ack_msgIds p @ ack_offlineMsgIds p). 0 < w)"
proof -
  obtain a b where ab: "parseUint64ArrayField req ''msgIds'' [] maxBatch = (None, a)"
    "parseUint64ArrayField req ''offlineMsgIds'' [] maxBatch = (None, b)" "p = \<lparr>ack_msgIds = a, ack_offlineMsgIds = b\<rparr>" "a \<noteq> [] \<or> b \<noteq> []"
    using assms by (auto simp: parseMessageAck_def split: prod.splits option.splits if_splits)
  then show ?thesis using parseUint64ArrayField_ok [OF ab(1)] parseUint64ArrayField_ok [OF ab(2)] by auto
qed

lemma message_ack_bounded_witness:
  "\<exists>p. parseMessageAck (demo_request (JObject [(''msgIds'', JArray [JUInt 4, JUInt 6])])) 10 = Inr p \<and> length (ack_msgIds p) \<le> 10"
proof -
  obtain p where p: "parseMessageAck (demo_request (JObject [(''msgIds'', JArray [JUInt 4, JUInt 6])])) 10 = Inr p"
    by (simp add: parseMessageAck_def parseUint64ArrayField_def demo_request_def field_def)
  with message_ack_bounded [OF p] show ?thesis by blast
qed

text \<open>
  A history query that parses asks for at most the maximum number of messages and in one direction
  only, and its mode is the one its cursors determine.
\<close>

lemma history_query_bounded:
  assumes "parseHistoryQuery req dflt maxLimit = Inr q"
  shows "hq_limit q \<le> maxLimit \<and> \<not> (hq_beforeMsgId q > 0 \<and> hq_lastMsgId q > 0) \<and>
    (hq_mode q = Before \<longleftrightarrow> hq_beforeMsgId q > 0) \<and> (hq_mode q = After \<longleftrightarrow> hq_lastMsgId q > 0)"
  using assms by (auto simp: parseHistoryQuery_def Let_def word_gt_0 split: option.splits if_splits)

lemma history_query_bounded_witness:
  "\<exists>q. parseHistoryQuery (demo_request (JObject [(''limit'', JUInt 1000), (''beforeMsgId'', JUInt 8)])) 50 200 = Inr q \<and> hq_limit q \<le> 200"
proof -
  obtain q where q: "parseHistoryQuery (demo_request (JObject [(''limit'', JUInt 1000), (''beforeMsgId'', JUInt 8)])) 50 200 = Inr q"
    by (simp add: parseHistoryQuery_def demo_request_def field_def optional_field_def read_count_def Let_def)
  with history_query_bounded [OF q] show ?thesis by blast
qed

end
