(* ===== verification/MessageService.thy ===== *)
theory MessageService
  imports DirectMessages Codec Executor SessionManager Frame Snowflake "HOL-Library.Multiset"
begin

text \<open>
  The message paths of the service, \<open>src/src/im/ImService.cpp\<close> with \<open>src/include/im/PendingContextTypes.h\<close>: a
  group or direct message is checked on the base loop, goes through the rate limit on a Redis thread,
  is saved on a message thread, and is pushed and answered back on the base loop. Between these steps
  everything else may happen: logins, disconnects, changes of membership, other messages, a stop.

  The threads are three lists of waiting tasks. A task of the keyed executors runs when no earlier task
  with its ordering key waits (theory \<open>Executor\<close>); the base loop runs its tasks in order and swallows
  what they throw (\<open>EventLoop::doPendingFunctors\<close>). A \<open>TcpConnection\<close> object is a number, under which the
  state records its descriptor and whether it is closed; an object that is gone is a weak pointer that
  no longer locks. What comes from outside (identifiers, the time, the verdicts of the rate limiter,
  the acceptance of a task, the fate of a sent frame) is read from \<open>im_env\<close> at the running number \<open>tick\<close>
  of the consultation; for identifiers the theory \<open>Snowflake\<close> says what the values are.
\<close>

subsection \<open>Data\<close>

record RateLimitResult =
  rl_allowed :: bool
  rl_backendAvailable :: bool
  rl_remaining :: nat
  rl_retryAfterMs :: u64

record AsyncRateLimitResult =
  al_decision :: RateLimitResult
  al_exceptionMessage :: string

record PendingGroupMessageContext =
  pg_senderConnection :: nat
  pg_senderKey :: connKey
  pg_request :: request
  pg_senderAccountId :: accountId
  pg_senderUsername :: string
  pg_groupId :: groupId
  pg_content :: string

record PendingDirectMessageContext =
  pd_senderConnection :: nat
  pd_senderKey :: connKey
  pd_request :: request
  pd_senderAccountId :: accountId
  pd_senderUsername :: string
  pd_receiverAccountId :: accountId
  pd_conversationKey :: string
  pd_content :: string

datatype redis_task = CheckGroup PendingGroupMessageContext | CheckDirect PendingDirectMessageContext

datatype message_task = SaveGroup PendingGroupMessageContext GroupMessageWriteCommand
  | SaveDirect PendingDirectMessageContext DirectMessageWriteCommand

datatype loop_task = LimitDone redis_task AsyncRateLimitResult
  | GroupSaved PendingGroupMessageContext GroupMessageWriteCommand GroupMessageWriteResult
  | DirectSaved PendingDirectMessageContext DirectMessageWriteCommand RepoStatus

datatype im_exn = IdError id_error | TypeError

record im_env =
  requireGroupIdForSend :: bool
  maxMessageLen :: nat
  hasMessageExecutor :: bool
  hasPoster :: bool
  hasGroupPersistence :: bool
  hasDirectPersistence :: bool
  hasRateLimiter :: bool
  hasRedisExecutor :: bool
  hasBatchSender :: bool
  redisFailOpen :: bool
  peerOf :: "nat \<Rightarrow> string \<times> u16"
  what :: "im_exn \<Rightarrow> string"
  idAt :: "nat \<Rightarrow> id_error + u64"
  nowAt :: "nat \<Rightarrow> u64"
  submitAt :: "nat \<Rightarrow> TaskSubmitResult"
  postAt :: "nat \<Rightarrow> bool"
  textAt :: "nat \<Rightarrow> string"
  limitAt :: "nat \<Rightarrow> string + RateLimitResult"
  deliverAt :: "nat \<Rightarrow> connKey \<Rightarrow> SendResult"

text \<open>What happened, as seen from outside: a request came in, an answer to it or a push was handed to the network.\<close>

datatype im_event = Received connKey request | Replied connKey request response | Pushed "connKey list" response
  | Complained connKey response

record im_state =
  im_sessions :: session_manager
  im_groups :: group_system
  im_directs :: "direct_tables database"
  im_accepting :: bool
  im_conns :: "(nat \<times> (connKey \<times> bool)) list"
  redisTasks :: "(string \<times> redis_task) list"
  messageTasks :: "(string \<times> message_task) list"
  loopTasks :: "loop_task list"
  tick :: nat
  im_trace :: "im_event list"

type_synonym 'a im = "im_state \<Rightarrow> (im_exn + 'a) \<times> im_state"

definition emit_event :: "im_event \<Rightarrow> im_state \<Rightarrow> im_state" where
  "emit_event e S = S\<lparr>im_trace := im_trace S @ [e]\<rparr>"

definition consult :: "im_state \<Rightarrow> im_state" where
  "consult S = S\<lparr>tick := tick S + 1\<rparr>"

subsection \<open>Responses\<close>

text \<open>
  \<open>j[k]=v\<close> on a JSON value: an object keeps its members in the order of their keys, null becomes an
  object, anything else throws a \<open>type_error\<close>.
\<close>

definition set_member :: "string \<Rightarrow> json \<Rightarrow> (string \<times> json) list \<Rightarrow> (string \<times> json) list" where
  "set_member k v kvs = (if map_of kvs k = None then insort_key fst (k, v) kvs else AList.update k v kvs)"

definition json_set :: "string \<Rightarrow> json \<Rightarrow> json \<Rightarrow> json option" where
  "json_set k v j = (case j of JObject kvs \<Rightarrow> Some (JObject (set_member k v kvs)) | JNull \<Rightarrow> Some (JObject [(k, v)]) | _ \<Rightarrow> None)"

text \<open>An object given by its members, in any order.\<close>

definition json_object :: "(string \<times> json) list \<Rightarrow> json" where
  "json_object kvs = JObject (fold (\<lambda>(k, v). set_member k v) kvs [])"

definition put_member :: "string \<Rightarrow> json \<Rightarrow> json \<Rightarrow> im_exn + json" where
  "put_member k v j = (case json_set k v j of None \<Rightarrow> Inl TypeError | Some j' \<Rightarrow> Inr j')"

definition stamp_id :: "im_env \<Rightarrow> u64 option \<Rightarrow> json \<Rightarrow> json im" where
  "stamp_id env msgId d S =
     (case msgId of
        Some i \<Rightarrow> (put_member ''msgId'' (JUInt i) d, S)
      | None \<Rightarrow> if contains ''msgId'' d then (Inr d, S)
               else (case idAt env (tick S) of Inl e \<Rightarrow> Inl (IdError e) | Inr i \<Rightarrow> put_member ''msgId'' (JUInt i) d, consult S))"

definition stamp_time :: "im_env \<Rightarrow> json \<Rightarrow> json im" where
  "stamp_time env d S =
     (if contains ''serverTsMs'' d then (Inr d, S)
      else (put_member ''serverTsMs'' (JUInt (nowAt env (tick S))) d, consult S))"

definition decorate :: "im_env \<Rightarrow> u64 option \<Rightarrow> u64 option \<Rightarrow> response \<Rightarrow> response im" where
  "decorate env msgId clientReqId resp S =
     (case stamp_id env msgId (resp_data resp) S of (Inl e, S1) \<Rightarrow> (Inl e, S1) | (Inr d1, S1) \<Rightarrow>
     (case stamp_time env d1 S1 of (Inl e, S2) \<Rightarrow> (Inl e, S2) | (Inr d2, S2) \<Rightarrow>
        (map_sum id (\<lambda>d. resp\<lparr>resp_data := d\<rparr>)
           (case clientReqId of None \<Rightarrow> Inr d2 | Some r \<Rightarrow> put_member ''clientReqId'' (JUInt r) d2), S2)))"

definition sendEncodedPayload :: "im_env \<Rightarrow> connKey list \<Rightarrow> im_state \<Rightarrow> batch_result \<times> im_state" where
  "sendEncodedPayload env targets S =
     (if targets = [] then (batch_empty, S)
      else if \<not> hasBatchSender env then (batch_empty\<lparr>failed := length targets\<rparr>, S)
      else (fold (\<lambda>k. batch_add (deliverAt env (tick S) k)) targets batch_empty, consult S))"

definition sendResponseWithLog :: "im_env \<Rightarrow> connKey \<Rightarrow> request \<Rightarrow> response \<Rightarrow> SendResult im" where
  "sendResponseWithLog env key req resp S =
     (case decorate env None (Some (req_id req)) resp S of
        (Inl e, S1) \<Rightarrow> (Inl e, S1)
      | (Inr resp', S1) \<Rightarrow>
          (case sendEncodedPayload env [key] (emit_event (Replied key req resp') S1) of (b, S2) \<Rightarrow> (Inr (singleResult b), S2)))"

fun repoStatusToErrorCode :: "RepoStatus \<Rightarrow> ErrorCode" where
  "repoStatusToErrorCode RepoStatus.Ok = OK"
| "repoStatusToErrorCode AlreadyExists = USER_EXISTS"
| "repoStatusToErrorCode InvalidArgument = BAD_REQUEST"
| "repoStatusToErrorCode SqlError = INTERNAL"
| "repoStatusToErrorCode NotFound = NO_SUCH_GROUP"
| "repoStatusToErrorCode CannotAddYourself = CANNOT_ADD_SELF"
| "repoStatusToErrorCode AlreadyFriends = ALREADY_FRIENDS"
| "repoStatusToErrorCode AlreadyHandled = FRIEND_REQUEST_ALREADY_HANDLED"
| "repoStatusToErrorCode Forbidden = FRIEND_REQUEST_FORBIDDEN"
| "repoStatusToErrorCode NotFriends = NOT_FRIENDS"
| "repoStatusToErrorCode NoPermission = NO_PERMISSION"
| "repoStatusToErrorCode TargetNotInGroup = TARGET_NOT_IN_GROUP"
| "repoStatusToErrorCode OwnerCannotLeave = OWNER_CANNOT_LEAVE"
| "repoStatusToErrorCode OwnerCannotBeKicked = OWNER_CANNOT_BE_KICKED"
| "repoStatusToErrorCode InvalidGroupRole = INVALID_GROUP_ROLE"
| "repoStatusToErrorCode GroupDissolved = GROUP_DISSOLVED"
| "repoStatusToErrorCode CannotInivteSelf = CANNOT_INVITE_SELF"
| "repoStatusToErrorCode InviteRequestsFriend = INVITE_REQUIRES_FRIEND"
| "repoStatusToErrorCode GroupMemberLimitReach = GROUP_MEMBER_LIMIT_REACHED"
| "repoStatusToErrorCode UserNotFound = NO_SUCH_USER"
| "repoStatusToErrorCode JoinRequestNotFound = JOIN_REQUEST_NOT_FOUND"
| "repoStatusToErrorCode GroupNotFound = NO_SUCH_GROUP"
| "repoStatusToErrorCode RepoStatus.Conflict = CONFLICT"
| "repoStatusToErrorCode MessageNotFound = MESSAGE_NOT_FOUND"
| "repoStatusToErrorCode Internal = INTERNAL"

definition makeRepoError :: "request \<Rightarrow> RepoStatus \<Rightarrow> string \<Rightarrow> response" where
  "makeRepoError req st fallbackMsg =
     makeErr req (repoStatusToErrorCode st) (if st = SqlError then ''Storage internal error'' else fallbackMsg) JNull"

subsection \<open>Guards\<close>

text \<open>\<open>Some\<close> is the refusal.\<close>

definition guardAuthenticated :: "request \<Rightarrow> session \<Rightarrow> response option" where
  "guardAuthenticated req s =
     (if s_state s = Authed then None else Some (makeErr req NOT_AUTHED ''Unauthed, please authenticate first'' JNull))"

definition guardInGroup :: "request \<Rightarrow> session \<Rightarrow> groupId \<Rightarrow> group_manager \<Rightarrow> response option" where
  "guardInGroup req s gid m =
     (if gid \<noteq> [] \<and> gm_isMember gid (s_accountId s) m then None
      else Some (makeErr req NOT_IN_GROUP ''Not in group,please join the group first'' JNull))"

definition getStringField :: "request \<Rightarrow> string \<Rightarrow> bool \<Rightarrow> response + string" where
  "getStringField req fld allowEmpty =
     (case field fld (req_body req) of
        None \<Rightarrow> Inl (makeErr req MISSING_FIELD (''Missing field'' @ fld) JNull)
      | Some (JString str) \<Rightarrow>
          if \<not> allowEmpty \<and> str = [] then Inl (makeErr req MISSING_FIELD ''Field is empty'' JNull) else Inr str
      | Some _ \<Rightarrow> Inl (makeErr req BAD_REQUEST ''Bad request'' JNull))"

definition is_string :: "json option \<Rightarrow> bool" where
  "is_string v = (case v of Some (JString _) \<Rightarrow> True | _ \<Rightarrow> False)"

definition conn_closed :: "nat \<Rightarrow> im_state \<Rightarrow> bool" where
  "conn_closed c S = (case map_of (im_conns S) c of None \<Rightarrow> True | Some (_, cl) \<Rightarrow> cl)"

definition resolvePendingSender :: "nat \<Rightarrow> connKey \<Rightarrow> accountId \<Rightarrow> im_state \<Rightarrow> session option" where
  "resolvePendingSender c key acc S =
     (if conn_closed c S then None
      else case find_session key (im_sessions S) of
             None \<Rightarrow> None
           | Some s \<Rightarrow> if s_accountId s \<noteq> acc then None else Some s)"

definition makeRateLimitError :: "request \<Rightarrow> RateLimitResult \<Rightarrow> response" where
  "makeRateLimitError req r = makeErr req RATE_LIMITED ''too many requests'' (json_object [(''retryAfterMs'', JInt (rl_retryAfterMs r))])"

definition evaluateRateLimitResult :: "im_env \<Rightarrow> request \<Rightarrow> AsyncRateLimitResult \<Rightarrow> response option" where
  "evaluateRateLimitResult env req r =
     (if \<not> rl_backendAvailable (al_decision r) \<or> al_exceptionMessage r \<noteq> []
      then if redisFailOpen env then None
           else Some (makeErr req INTERNAL ''rate limit service unavailable'' (json_object [(''retryable'', JBool True)]))
      else if \<not> rl_allowed (al_decision r) then Some (makeRateLimitError req (al_decision r))
      else None)"

subsection \<open>Submitting tasks\<close>

definition submitResultMapToDispatchResult :: "request \<Rightarrow> TaskSubmitResult \<Rightarrow> string \<Rightarrow> DispatchResult" where
  "submitResultMapToDispatchResult req r pipeline =
     (let data = json_object [(''retryable'', JBool True), (''pipeline'', JString pipeline)] in
      case r of
        Accepted \<Rightarrow> deferred
      | QueueFull \<Rightarrow> immediate (makeErr req DELIVERY_OVERLOADED (pipeline @ '' queue is full'') data)
      | SubmitStopping \<Rightarrow> immediate (makeErr req INTERNAL (pipeline @ '' Message service is stopping'') data)
      | InvalidTask \<Rightarrow> immediate (makeErr req INTERNAL (''Invalid '' @ pipeline @ '' task'') data))"

definition submitRateLimitCheck :: "im_env \<Rightarrow> accountId \<Rightarrow> redis_task \<Rightarrow> im_state \<Rightarrow> TaskSubmitResult \<times> im_state" where
  "submitRateLimitCheck env subject task S =
     (if \<not> hasRedisExecutor env \<or> \<not> hasPoster env \<or> \<not> hasRateLimiter env then (InvalidTask, S)
      else let r = submitAt env (tick S); S1 = consult S in
           (r, if r = Accepted then S1\<lparr>redisTasks := redisTasks S1 @ [(''account:'' @ subject, task)]\<rparr> else S1))"

text \<open>\<open>submitMessageTask_\<close>, the keyed executor of the message threads.\<close>

definition submitMessageTask :: "im_env \<Rightarrow> string \<Rightarrow> message_task \<Rightarrow> im_state \<Rightarrow> TaskSubmitResult \<times> im_state" where
  "submitMessageTask env orderingKey task S =
     (let r = submitAt env (tick S); S1 = consult S in
      (r, if r = Accepted then S1\<lparr>messageTasks := messageTasks S1 @ [(orderingKey, task)]\<rparr> else S1))"

definition submitGroupMessagePersistence :: "im_env \<Rightarrow> PendingGroupMessageContext \<Rightarrow> TaskSubmitResult im" where
  "submitGroupMessagePersistence env ctx S =
     (if \<not> hasMessageExecutor env \<or> \<not> hasPoster env \<or> \<not> hasGroupPersistence env then (Inr InvalidTask, S)
      else if \<not> im_accepting S then (Inr SubmitStopping, S)
      else let serverTsMs = nowAt env (tick S); S1 = consult S in
           case idAt env (tick S1) of
             Inl e \<Rightarrow> (Inl (IdError e), consult S1)
           | Inr msgId \<Rightarrow>
               let cmd = \<lparr>gc_msgId = unat msgId, gc_serverTsMs = unat serverTsMs, gc_groupId = pg_groupId ctx,
                          gc_senderAccountId = pg_senderAccountId ctx, gc_senderUsername = pg_senderUsername ctx, gc_content = pg_content ctx\<rparr>
               in apfst Inr (submitMessageTask env (''group:'' @ pg_groupId ctx) (SaveGroup ctx cmd) (consult S1)))"

definition submitDirectMessagePersistence :: "im_env \<Rightarrow> PendingDirectMessageContext \<Rightarrow> TaskSubmitResult im" where
  "submitDirectMessagePersistence env ctx S =
     (if \<not> hasMessageExecutor env \<or> \<not> hasPoster env \<or> \<not> hasDirectPersistence env then (Inr InvalidTask, S)
      else if \<not> im_accepting S then (Inr SubmitStopping, S)
      else let serverTsMs = nowAt env (tick S); S1 = consult S in
           case idAt env (tick S1) of
             Inl e \<Rightarrow> (Inl (IdError e), consult S1)
           | Inr msgId \<Rightarrow>
               let cmd = \<lparr>dc_msgId = unat msgId, dc_serverTsMs = unat serverTsMs, dc_conversationKey = pd_conversationKey ctx,
                          dc_senderAccountId = pd_senderAccountId ctx, dc_receiverAccountId = pd_receiverAccountId ctx,
                          dc_senderUsername = pd_senderUsername ctx, dc_content = pd_content ctx\<rparr>
               in apfst Inr (submitMessageTask env (''dm:'' @ pd_conversationKey ctx) (SaveDirect ctx cmd) (consult S1)))"

subsection \<open>Handlers\<close>

text \<open>
  A message that passed its checks: straight to the message threads without a rate limiter, else
  to the Redis threads.
\<close>

definition start_message ::
  "im_env \<Rightarrow> request \<Rightarrow> accountId \<Rightarrow> (im_state \<Rightarrow> (im_exn + TaskSubmitResult) \<times> im_state) \<Rightarrow> redis_task \<Rightarrow> DispatchResult im" where
  "start_message env req acc persist check S =
     (if \<not> hasRateLimiter env
      then apfst (map_sum id (\<lambda>r. submitResultMapToDispatchResult req r ''message'')) (persist S)
      else if \<not> hasRedisExecutor env
      then (Inr (immediate (makeErr req INTERNAL ''redis rate-limit pipeline unavailable'' JNull)), S)
      else case submitRateLimitCheck env acc check S of (r, S1) \<Rightarrow> (Inr (submitResultMapToDispatchResult req r ''redis''), S1))"

definition handleGroupMessageAsync :: "im_env \<Rightarrow> request \<Rightarrow> connKey \<Rightarrow> session \<Rightarrow> nat \<Rightarrow> DispatchResult im" where
  "handleGroupMessageAsync env req key s conn S =
     (case guardAuthenticated req s of Some r \<Rightarrow> (Inr (immediate r), S) | None \<Rightarrow>
      if \<not> hasMessageExecutor env \<or> \<not> hasPoster env \<or> \<not> hasGroupPersistence env
      then (Inr (immediate (makeErr req INTERNAL ''group message pipeline unavailable'' JNull)), S)
      else if \<not> im_accepting S then (Inr (immediate (makeErr req INTERNAL ''Message service is stopping'' JNull)), S)
      else if conn_closed conn S then (Inr (immediate (makeErr req INTERNAL ''Connection is closed'' JNull)), S)
      else if requireGroupIdForSend env \<and> \<not> is_string (field ''groupId'' (req_body req))
      then (Inr (immediate (makeErr req MISSING_FIELD ''groupId can not be empty'' JNull)), S)
      else case getStringField req ''groupId'' False of Inl r \<Rightarrow> (Inr (immediate r), S) | Inr gid \<Rightarrow>
      (case guardInGroup req s gid (manager (im_groups S)) of Some r \<Rightarrow> (Inr (immediate r), S) | None \<Rightarrow>
      (case getStringField req ''content'' False of Inl r \<Rightarrow> (Inr (immediate r), S) | Inr content \<Rightarrow>
      if length content > maxMessageLen env then (Inr (immediate (makeErr req BAD_REQUEST ''Message content is too long'' JNull)), S)
      else let ctx = \<lparr>pg_senderConnection = conn, pg_senderKey = key, pg_request = req, pg_senderAccountId = s_accountId s,
                      pg_senderUsername = s_username s, pg_groupId = gid, pg_content = content\<rparr>
           in start_message env req (s_accountId s) (submitGroupMessagePersistence env ctx) (CheckGroup ctx) S)))"

definition handleDmAsync :: "im_env \<Rightarrow> request \<Rightarrow> connKey \<Rightarrow> session \<Rightarrow> nat \<Rightarrow> DispatchResult im" where
  "handleDmAsync env req key s conn S =
     (case guardAuthenticated req s of Some r \<Rightarrow> (Inr (immediate r), S) | None \<Rightarrow>
      if \<not> hasMessageExecutor env \<or> \<not> hasPoster env \<or> \<not> hasDirectPersistence env
      then (Inr (immediate (makeErr req INTERNAL ''direct message pipeline unavailable'' JNull)), S)
      else if \<not> im_accepting S then (Inr (immediate (makeErr req INTERNAL ''Message service is stopping'' JNull)), S)
      else if conn_closed conn S then (Inr (immediate (makeErr req INTERNAL ''Connection is closed'' JNull)), S)
      else if req_to req = [] then (Inr (immediate (makeErr req MISSING_FIELD ''Missing message recipient'' JNull)), S)
      else case getStringField req ''content'' False of Inl r \<Rightarrow> (Inr (immediate r), S) | Inr content \<Rightarrow>
      if length content > maxMessageLen env then (Inr (immediate (makeErr req BAD_REQUEST ''Message content is too long'' JNull)), S)
      else let ctx = \<lparr>pd_senderConnection = conn, pd_senderKey = key, pd_request = req, pd_senderAccountId = s_accountId s,
                      pd_senderUsername = s_username s, pd_receiverAccountId = req_to req,
                      pd_conversationKey = buildDirectConversationKey (s_accountId s) (req_to req), pd_content = content\<rparr>
           in start_message env req (s_accountId s) (submitDirectMessagePersistence env ctx) (CheckDirect ctx) S)"

text \<open>
  What \<open>onMessage\<close> does with a parsed request: the answer of an immediate result is sent; an exception,
  also one thrown while sending it, is answered with an internal error.
\<close>

definition answer_request :: "im_env \<Rightarrow> (request \<Rightarrow> connKey \<Rightarrow> session \<Rightarrow> nat \<Rightarrow> DispatchResult im) \<Rightarrow> nat \<Rightarrow> connKey \<Rightarrow> session \<Rightarrow> request \<Rightarrow> unit im" where
  "answer_request env dispatch conn key s req S =
     (let (x, S1) =
            (case dispatch req key s conn S of
               (Inl e, S1) \<Rightarrow> (Inl e, S1)
             | (Inr d, S1) \<Rightarrow>
                 if shouldRespond d then apfst (map_sum id (\<lambda>_. ())) (sendResponseWithLog env key req (the (dr_response d)) S1)
                 else (Inr (), S1))
      in case x of
           Inr _ \<Rightarrow> (x, S1)
         | Inl e \<Rightarrow> apfst (map_sum id (\<lambda>_. ()))
             (sendResponseWithLog env key req (makeErr req INTERNAL (''Internal server error:'' @ what env e) JNull) S1))"

definition sendParseErrorWithLog :: "im_env \<Rightarrow> connKey \<Rightarrow> response \<Rightarrow> SendResult im" where
  "sendParseErrorWithLog env key resp S =
     (case decorate env None None resp S of
        (Inl e, S1) \<Rightarrow> (Inl e, S1)
      | (Inr resp', S1) \<Rightarrow>
          (case sendEncodedPayload env [key] (emit_event (Complained key resp') S1) of (b, S2) \<Rightarrow> (Inr (singleResult b), S2)))"

text \<open>\<open>parse\<close> is the parser of the JSON library; an exception that leaves \<open>tryParse\<close> leaves \<open>onMessage\<close> too.\<close>

definition onMessage ::
  "im_env \<Rightarrow> (string \<Rightarrow> json option) \<Rightarrow> (request \<Rightarrow> connKey \<Rightarrow> session \<Rightarrow> nat \<Rightarrow> DispatchResult im) \<Rightarrow> nat \<Rightarrow> connKey \<Rightarrow> string \<Rightarrow> unit im" where
  "onMessage env parse dispatch conn key msg S0 =
     (let (s0, m) = getOrCreate key (im_sessions S0);
          s = (if s_peerIp s0 = [] then s0\<lparr>s_peerIp := fst (peerOf env conn), s_peerPort := snd (peerOf env conn)\<rparr> else s0);
          S = S0\<lparr>im_sessions := m\<lparr>sessions := AList.update key s (sessions m)\<rparr>\<rparr>
      in case tryParse parse msg of
           Throws \<Rightarrow> (Inl TypeError, S)
         | Refused resp \<Rightarrow> apfst (map_sum id (\<lambda>_. ())) (sendParseErrorWithLog env key resp S)
         | Parsed req \<Rightarrow> answer_request env dispatch conn key s req (emit_event (Received key req) S))"

subsection \<open>Worker threads\<close>

text \<open>A worker hands its result to the base loop; if that is refused the result is lost.\<close>

definition post :: "im_env \<Rightarrow> loop_task \<Rightarrow> im_state \<Rightarrow> im_state" where
  "post env task S = (if postAt env (tick S) then (consult S)\<lparr>loopTasks := loopTasks S @ [task]\<rparr> else consult S)"

definition run_redis_task :: "im_env \<Rightarrow> redis_task \<Rightarrow> im_state \<Rightarrow> im_state" where
  "run_redis_task env task S =
     (let dflt = \<lparr>rl_allowed = True, rl_backendAvailable = True, rl_remaining = 0, rl_retryAfterMs = 0\<rparr>;
          result = (case limitAt env (tick S) of
                      Inl text \<Rightarrow> \<lparr>al_decision = dflt\<lparr>rl_backendAvailable := False\<rparr>, al_exceptionMessage = text\<rparr>
                    | Inr d \<Rightarrow> \<lparr>al_decision = d, al_exceptionMessage = []\<rparr>)
      in post env (LimitDone task result) (consult S))"

fun run_message_task :: "im_env \<Rightarrow> message_task \<Rightarrow> im_state \<Rightarrow> im_state" where
  "run_message_task env (SaveGroup ctx cmd) S =
     (case run_state (in_store (group_persist cmd)) (im_groups S) of
        (r, G) \<Rightarrow> post env (GroupSaved ctx cmd r) (S\<lparr>im_groups := G\<rparr>))"
| "run_message_task env (SaveDirect ctx cmd) S =
     (case run_state (direct_persist cmd) (im_directs S) of
        (r, D) \<Rightarrow> post env (DirectSaved ctx cmd r) (S\<lparr>im_directs := D\<rparr>))"

subsection \<open>Completions on the base loop\<close>

definition collect_member :: "connKey \<Rightarrow> session_manager \<Rightarrow> accountId \<Rightarrow> connKey list \<Rightarrow> connKey list" where
  "collect_member excluded m a keys =
     fold (\<lambda>k ks. if k = excluded \<or> k \<in> set ks then ks else ks @ [k]) (connKeysByAccountId a m) keys"

definition collectGroupTargets :: "groupId \<Rightarrow> connKey \<Rightarrow> group_manager \<Rightarrow> session_manager \<Rightarrow> connKey list" where
  "collectGroupTargets gid excluded gm m = fold (\<lambda>(a, r). collect_member excluded m a) (memberInfos gid gm) []"

text \<open>The identifier of a group push is that of its data, if it has one.\<close>

definition broadcastToGroup :: "im_env \<Rightarrow> groupId \<Rightarrow> connKey \<Rightarrow> response \<Rightarrow> batch_result im" where
  "broadcastToGroup env gid senderKey msg S =
     (let push1 = msg\<lparr>resp_req_id := 0\<rparr>;
          msgId = (case field ''msgId'' (resp_data push1) of None \<Rightarrow> Inr None | Some v \<Rightarrow> (case get_uint64 v of None \<Rightarrow> Inl TypeError | Some i \<Rightarrow> Inr (Some i)))
      in case msgId of
           Inl e \<Rightarrow> (Inl e, S)
         | Inr mi \<Rightarrow>
             (case decorate env mi None push1 S of
                (Inl e, S1) \<Rightarrow> (Inl e, S1)
              | (Inr push2, S1) \<Rightarrow>
                  let targets = collectGroupTargets gid senderKey (manager (im_groups S1)) (im_sessions S1)
                  in apfst Inr (sendEncodedPayload env targets (emit_event (Pushed targets push2) S1))))"

record AccountPushResult =
  ap_sent :: nat
  ap_noSuchConnection :: nat
  ap_closed :: nat
  ap_overloaded :: nat
  ap_internalFailed :: nat

definition AccountPushResult_new :: AccountPushResult where
  "AccountPushResult_new = \<lparr>ap_sent = 0, ap_noSuchConnection = 0, ap_closed = 0, ap_overloaded = 0, ap_internalFailed = 0\<rparr>"

definition ap_failed :: "AccountPushResult \<Rightarrow> nat" where
  "ap_failed r = ap_noSuchConnection r + ap_closed r + ap_overloaded r + ap_internalFailed r"

definition ap_delivered :: "AccountPushResult \<Rightarrow> bool" where
  "ap_delivered r \<longleftrightarrow> ap_sent r > 0"

definition pushToAccount :: "im_env \<Rightarrow> accountId \<Rightarrow> response \<Rightarrow> AccountPushResult im" where
  "pushToAccount env target msg S =
     (let keys = connKeysByAccountId target (im_sessions S) in
      if keys = [] then (Inr AccountPushResult_new, S)
      else case decorate env None None msg S of
             (Inl e, S1) \<Rightarrow> (Inl e, S1)
           | (Inr push1, S1) \<Rightarrow>
               (case sendEncodedPayload env keys (emit_event (Pushed keys push1) S1) of (b, S2) \<Rightarrow>
                  (Inr \<lparr>ap_sent = sent b, ap_noSuchConnection = noSuchConnection b, ap_closed = closed b,
                        ap_overloaded = overloaded_count b, ap_internalFailed = 0\<rparr>, S2)))"

text \<open>Sending an answer as the last thing a completion does; what it throws ends the completion.\<close>

definition reply :: "im_env \<Rightarrow> connKey \<Rightarrow> request \<Rightarrow> response \<Rightarrow> im_state \<Rightarrow> im_state" where
  "reply env key req resp S = snd (sendResponseWithLog env key req resp S)"

definition jnum :: "nat \<Rightarrow> json" where
  "jnum n = JUInt (of_nat n)"

definition group_push :: "PendingGroupMessageContext \<Rightarrow> GroupMessageWriteCommand \<Rightarrow> GroupMessageWriteResult \<Rightarrow> response" where
  "group_push ctx cmd r = \<lparr>resp_ver = req_ver (pg_request ctx), resp_req_id = 0, resp_type = GROUP_MSG_PUSH, resp_ok = True, resp_code = OK,
     resp_msg = ''New group message'', resp_data = json_object [(''fromAccountId'', JString (gc_senderAccountId cmd)),
       (''fromUsername'', JString (gc_senderUsername cmd)), (''groupId'', JString (gc_groupId cmd)), (''content'', JString (gc_content cmd)),
       (''msgId'', jnum (gc_msgId cmd)), (''serverTsMs'', jnum (gc_serverTsMs cmd)), (''groupSeq'', jnum (gw_groupSeq r))]\<rparr>"

text \<open>The times \<open>queueWaitUs\<close> and \<open>persistUs\<close> come from the environment.\<close>

definition group_answer :: "request \<Rightarrow> GroupMessageWriteCommand \<Rightarrow> batch_result \<Rightarrow> u64 \<Rightarrow> response" where
  "group_answer req cmd b us = makeOk req GROUP_MSG_RESP (json_object [(''groupId'', JString (gc_groupId cmd)),
     (''msgId'', jnum (gc_msgId cmd)), (''serverTsMs'', jnum (gc_serverTsMs cmd)), (''queueWaitUs'', JInt us),
     (''persistUs'', JInt us), (''fanoutSent'', jnum (sent b)), (''fanoutDropped'', jnum (batch_dropped b)),
     (''fanoutClosed'', jnum (closed b)), (''fanoutOverloaded'', jnum (overloaded_count b)), (''fanoutFailed'', jnum (failed b))]) ''Ok''"

definition completeGroupMessage :: "im_env \<Rightarrow> PendingGroupMessageContext \<Rightarrow> GroupMessageWriteCommand \<Rightarrow> GroupMessageWriteResult \<Rightarrow> im_state \<Rightarrow> im_state" where
  "completeGroupMessage env ctx cmd r S =
     (let current = resolvePendingSender (pg_senderConnection ctx) (pg_senderKey ctx) (pg_senderAccountId ctx) S;
          key = pg_senderKey ctx; req = pg_request ctx
      in if \<not> durable r
         then if current = None then S else reply env key req (makeRepoError req (gw_commitResult r) (textAt env (tick S))) S
         else case broadcastToGroup env (gc_groupId cmd) key (group_push ctx cmd r) S of
                (Inl e, S1) \<Rightarrow> S1
              | (Inr b, S1) \<Rightarrow>
                  if current = None then S1
                  else reply env key req (group_answer req cmd b (nowAt env (tick S1))) S1)"

definition direct_push :: "PendingDirectMessageContext \<Rightarrow> DirectMessageWriteCommand \<Rightarrow> response" where
  "direct_push ctx cmd = \<lparr>resp_ver = req_ver (pd_request ctx), resp_req_id = 0, resp_type = DM_PUSH, resp_ok = True, resp_code = OK,
     resp_msg = ''New direct message'', resp_data = json_object [(''fromAccountId'', JString (dc_senderAccountId cmd)),
       (''fromUsername'', JString (dc_senderUsername cmd)), (''toAccountId'', JString (dc_receiverAccountId cmd)),
       (''conversationKey'', JString (dc_conversationKey cmd)), (''content'', JString (dc_content cmd)),
       (''msgId'', jnum (dc_msgId cmd)), (''serverTsMs'', jnum (dc_serverTsMs cmd))]\<rparr>"

definition direct_answer :: "request \<Rightarrow> DirectMessageWriteCommand \<Rightarrow> AccountPushResult \<Rightarrow> u64 \<Rightarrow> response" where
  "direct_answer req cmd p us = makeOk req DM_RESP (json_object [(''conversationKey'', JString (dc_conversationKey cmd)),
     (''msgId'', jnum (dc_msgId cmd)), (''serverTsMs'', jnum (dc_serverTsMs cmd)), (''queueWaitUs'', JInt us),
     (''persistUs'', JInt us), (''delivered'', JBool (ap_delivered p)), (''queuedOffline'', JBool (\<not> ap_delivered p)),
     (''sent'', jnum (ap_sent p)), (''failed'', jnum (ap_failed p)), (''closed'', jnum (ap_closed p)), (''overloaded'', jnum (ap_overloaded p))]) ''Ok''"

definition completeDirectMessage :: "im_env \<Rightarrow> PendingDirectMessageContext \<Rightarrow> DirectMessageWriteCommand \<Rightarrow> RepoStatus \<Rightarrow> im_state \<Rightarrow> im_state" where
  "completeDirectMessage env ctx cmd st S =
     (let current = resolvePendingSender (pd_senderConnection ctx) (pd_senderKey ctx) (pd_senderAccountId ctx) S;
          key = pd_senderKey ctx; req = pd_request ctx
      in if st \<noteq> RepoStatus.Ok
         then if current = None then S else reply env key req (makeRepoError req st (textAt env (tick S))) S
         else case pushToAccount env (dc_receiverAccountId cmd) (direct_push ctx cmd) S of
                (Inl e, S1) \<Rightarrow> S1
              | (Inr p, S1) \<Rightarrow>
                  if current = None then S1
                  else reply env key req (direct_answer req cmd p (nowAt env (tick S1))) S1)"

definition sendDeferredSubmitFailure :: "im_env \<Rightarrow> nat \<Rightarrow> connKey \<Rightarrow> accountId \<Rightarrow> request \<Rightarrow> TaskSubmitResult \<Rightarrow> string \<Rightarrow> im_state \<Rightarrow> im_state" where
  "sendDeferredSubmitFailure env conn key acc req r pipeline S =
     (if resolvePendingSender conn key acc S = None then S
      else let d = submitResultMapToDispatchResult req r pipeline
           in if \<not> shouldRespond d then S else reply env key req (the (dr_response d)) S)"

text \<open>The end of both rate limit completions: the message goes to the message threads.\<close>

definition persist_or_fail ::
  "im_env \<Rightarrow> nat \<Rightarrow> connKey \<Rightarrow> accountId \<Rightarrow> request \<Rightarrow> (im_state \<Rightarrow> (im_exn + TaskSubmitResult) \<times> im_state) \<Rightarrow> im_state \<Rightarrow> im_state" where
  "persist_or_fail env conn key acc req persist S =
     (case persist S of
        (Inl e, S1) \<Rightarrow> S1
      | (Inr r, S1) \<Rightarrow> if r = Accepted then S1 else sendDeferredSubmitFailure env conn key acc req r ''message'' S1)"

definition completeGroupMessageRateLimit :: "im_env \<Rightarrow> PendingGroupMessageContext \<Rightarrow> AsyncRateLimitResult \<Rightarrow> im_state \<Rightarrow> im_state" where
  "completeGroupMessageRateLimit env ctx r S =
     (let key = pg_senderKey ctx; req = pg_request ctx; acc = pg_senderAccountId ctx in
      if resolvePendingSender (pg_senderConnection ctx) key acc S = None then S
      else if \<not> im_accepting S then S
      else case evaluateRateLimitResult env req r of
             Some err \<Rightarrow> reply env key req err S
           | None \<Rightarrow>
               if \<not> gm_isMember (pg_groupId ctx) acc (manager (im_groups S))
               then reply env key req (makeErr req NOT_IN_GROUP ''the user is no longer in the group'' JNull) S
               else persist_or_fail env (pg_senderConnection ctx) key acc req (submitGroupMessagePersistence env ctx) S)"

definition completeDirectMessageRateLimit :: "im_env \<Rightarrow> PendingDirectMessageContext \<Rightarrow> AsyncRateLimitResult \<Rightarrow> im_state \<Rightarrow> im_state" where
  "completeDirectMessageRateLimit env ctx r S =
     (let key = pd_senderKey ctx; req = pd_request ctx; acc = pd_senderAccountId ctx in
      if resolvePendingSender (pd_senderConnection ctx) key acc S = None then S
      else if \<not> im_accepting S then S
      else case evaluateRateLimitResult env req r of
             Some err \<Rightarrow> reply env key req err S
           | None \<Rightarrow> persist_or_fail env (pd_senderConnection ctx) key acc req (submitDirectMessagePersistence env ctx) S)"

fun run_loop_task :: "im_env \<Rightarrow> loop_task \<Rightarrow> im_state \<Rightarrow> im_state" where
  "run_loop_task env (LimitDone (CheckGroup ctx) r) S = completeGroupMessageRateLimit env ctx r S"
| "run_loop_task env (LimitDone (CheckDirect ctx) r) S = completeDirectMessageRateLimit env ctx r S"
| "run_loop_task env (GroupSaved ctx cmd r) S = completeGroupMessage env ctx cmd r S"
| "run_loop_task env (DirectSaved ctx cmd st) S = completeDirectMessage env ctx cmd st S"

subsection \<open>What the operations change\<close>

text \<open>
  On the base loop an operation adds tasks for the worker threads and events, and consults the
  environment; \<open>base S rt mt ev n\<close> is the state after that.
\<close>

definition base :: "im_state \<Rightarrow> (string \<times> redis_task) list \<Rightarrow> (string \<times> message_task) list \<Rightarrow> im_event list \<Rightarrow> nat \<Rightarrow> im_state" where
  "base S rt mt ev n = S\<lparr>redisTasks := redisTasks S @ rt, messageTasks := messageTasks S @ mt, tick := n, im_trace := im_trace S @ ev\<rparr>"

lemma base_simps [simp]:
  "im_sessions (base S rt mt ev n) = im_sessions S" "im_groups (base S rt mt ev n) = im_groups S"
  "im_directs (base S rt mt ev n) = im_directs S" "im_accepting (base S rt mt ev n) = im_accepting S"
  "im_conns (base S rt mt ev n) = im_conns S" "redisTasks (base S rt mt ev n) = redisTasks S @ rt"
  "messageTasks (base S rt mt ev n) = messageTasks S @ mt" "loopTasks (base S rt mt ev n) = loopTasks S"
  "tick (base S rt mt ev n) = n" "im_trace (base S rt mt ev n) = im_trace S @ ev"
  by (simp_all add: base_def)

lemma base_base [simp]: "base (base S rt mt ev n) rt' mt' ev' n' = base S (rt @ rt') (mt @ mt') (ev @ ev') n'"
  by (simp add: base_def)

lemma base_self: "base S [] [] [] (tick S) = S"
  by (simp add: base_def)

lemma consult_base: "consult S = base S [] [] [] (tick S + 1)"
  by (simp add: consult_def base_def)

lemma emit_base: "emit_event e S = base S [] [] [e] (tick S)"
  by (simp add: emit_event_def base_def)

lemma map_of_set_member [simp]: "map_of (set_member k v kvs) = (map_of kvs)(k \<mapsto> v)"
proof -
  have "map_of kvs k = None \<Longrightarrow> map_of (insort_key fst (k, v) kvs) = (map_of kvs)(k \<mapsto> v)"
    by (induction kvs) (auto simp: fun_upd_twist split: if_splits)
  then show ?thesis by (simp add: set_member_def)
qed

lemma field_json_object: "field k (json_object kvs) = map_of (rev kvs) k"
proof -
  have "map_of (fold (\<lambda>(k, v). set_member k v) kvs acc) = map_of acc ++ map_of (rev kvs)" for acc
    by (induction kvs arbitrary: acc) (auto simp: map_add_def fun_eq_iff split: option.splits)
  then show ?thesis by (simp add: json_object_def field_def)
qed

lemma field_json_set: "json_set k v j = Some j' \<Longrightarrow> field k' j' = (if k' = k then Some v else field k' j)"
  by (auto simp: json_set_def field_def split: json.splits)

text \<open>The members that \<open>decorate\<close> may add or change.\<close>

definition decoration :: "response \<Rightarrow> response \<Rightarrow> bool" where
  "decoration r r' \<longleftrightarrow> (\<exists>d. r' = r\<lparr>resp_data := d\<rparr>) \<and>
     (\<forall>k. k \<notin> {''msgId'', ''serverTsMs'', ''clientReqId''} \<longrightarrow> field k (resp_data r') = field k (resp_data r))"

lemma decoration_type: "decoration r r' \<Longrightarrow> resp_type r' = resp_type r"
  unfolding decoration_def by (elim conjE exE) simp

lemma decoration_field:
  "decoration r r' \<Longrightarrow> k \<notin> {''msgId'', ''serverTsMs'', ''clientReqId''} \<Longrightarrow> field k (resp_data r') = field k (resp_data r)"
  unfolding decoration_def by blast

lemma field_put_member: "put_member k v j = Inr j' \<Longrightarrow> field k' j' = (if k' = k then Some v else field k' j)"
  by (auto simp: put_member_def field_json_set split: option.splits)

lemma stamp_id_effect:
  assumes "stamp_id env mi d S = (x, S')"
  shows "S' = base S [] [] [] (tick S')" "tick S \<le> tick S'"
    "x = Inr d' \<Longrightarrow> k \<noteq> ''msgId'' \<Longrightarrow> field k d' = field k d"
    "x = Inr d' \<Longrightarrow> mi = Some i \<Longrightarrow> field ''msgId'' d' = Some (JUInt i)"
    "x = Inr d' \<Longrightarrow> mi = None \<Longrightarrow> field ''msgId'' d = Some v \<Longrightarrow> field ''msgId'' d' = Some v"
  using assms
  by (auto simp: stamp_id_def consult_base base_self contains_def dest: field_put_member split: option.splits if_splits sum.splits)

lemma stamp_time_effect:
  assumes "stamp_time env d S = (x, S')"
  shows "S' = base S [] [] [] (tick S')" "tick S \<le> tick S'"
    "x = Inr d' \<Longrightarrow> k \<noteq> ''serverTsMs'' \<Longrightarrow> field k d' = field k d"
    "x = Inr d' \<Longrightarrow> field ''serverTsMs'' d = Some v \<Longrightarrow> field ''serverTsMs'' d' = Some v"
  using assms
  by (auto simp: stamp_time_def consult_base base_self contains_def dest: field_put_member split: if_splits)

lemma decorate_cases:
  assumes "decorate env mi cr resp S = (x, S')"
  obtains (thrown) e n where "x = Inl e" "tick S \<le> n" "S' = base S [] [] [] n"
    | (decorated) resp' n where "x = Inr resp'" "decoration resp resp'" "tick S \<le> n" "S' = base S [] [] [] n"
        "\<And>v. field ''msgId'' (resp_data resp) = Some v \<Longrightarrow> mi = None \<Longrightarrow> field ''msgId'' (resp_data resp') = Some v"
        "\<And>i. mi = Some i \<Longrightarrow> field ''msgId'' (resp_data resp') = Some (JUInt i)"
        "\<And>v. field ''serverTsMs'' (resp_data resp) = Some v \<Longrightarrow> field ''serverTsMs'' (resp_data resp') = Some v"
proof -
  obtain x1 S1 where s1: "stamp_id env mi (resp_data resp) S = (x1, S1)" by (cases "stamp_id env mi (resp_data resp) S")
  note e1 = stamp_id_effect [OF s1]
  show thesis
  proof (cases x1)
    case (Inl e)
    with assms s1 e1(1,2) show ?thesis by (intro thrown [of e "tick S'"]) (auto simp: decorate_def)
  next
    case d1: (Inr d1)
    obtain x2 S2 where s2: "stamp_time env d1 S1 = (x2, S2)" by (cases "stamp_time env d1 S1")
    note e2 = stamp_time_effect [OF s2]
    have S2: "S2 = base S [] [] [] (tick S2)" "tick S \<le> tick S2" using e1(1,2) e2(1,2) by (metis base_base append_Nil, simp)
    show ?thesis
    proof (cases x2)
      case (Inl e)
      with assms s1 s2 d1 S2 show ?thesis by (intro thrown [of e "tick S2"]) (auto simp: decorate_def)
    next
      case d2: (Inr d2)
      define y where "y = (case cr of None \<Rightarrow> Inr d2 | Some r \<Rightarrow> put_member ''clientReqId'' (JUInt r) d2)"
      have xS: "x = map_sum id (\<lambda>d. resp\<lparr>resp_data := d\<rparr>) y" "S' = S2" using assms s1 s2 d1 d2 by (simp_all add: decorate_def y_def)
      show ?thesis
      proof (cases y)
        case (Inl e)
        with xS S2 show ?thesis by (intro thrown [of e "tick S2"]) simp_all
      next
        case (Inr d3)
        have d3: "k \<noteq> ''clientReqId'' \<Longrightarrow> field k d3 = field k d2" for k
          using Inr field_put_member [of "''clientReqId''" _ d2 d3 k] by (auto simp: y_def split: option.splits)
        show ?thesis
        proof (rule decorated [of "resp\<lparr>resp_data := d3\<rparr>" "tick S2"])
          show "decoration resp (resp\<lparr>resp_data := d3\<rparr>)"
            using d3 e1(3) [OF d1] e2(3) [OF d2] by (auto simp: decoration_def)
        qed (use xS Inr S2 d3 e1(4,5) [OF d1] e1(3) [OF d1] e2(3,4) [OF d2] in \<open>simp_all\<close>)
      qed
    qed
  qed
qed

lemma sendEncodedPayload_state:
  assumes "sendEncodedPayload env ts S = (b, S')"
  obtains n where "S' = base S [] [] [] n" "tick S \<le> n"
proof -
  have "S' = base S [] [] [] (tick S) \<or> S' = base S [] [] [] (tick S + 1)"
    using assms by (auto simp: sendEncodedPayload_def consult_base base_self split: if_splits)
  then show thesis using that by (elim disjE) simp_all
qed

lemma sendResponse_cases:
  assumes "sendResponseWithLog env key req resp S = (x, S')"
  obtains (thrown) e n where "x = Inl e" "S' = base S [] [] [] n" "tick S \<le> n"
    | (replied) r resp' n where "x = Inr r" "decoration resp resp'" "S' = base S [] [] [Replied key req resp'] n" "tick S \<le> n"
        "\<And>v. field ''msgId'' (resp_data resp) = Some v \<Longrightarrow> field ''msgId'' (resp_data resp') = Some v"
proof -
  obtain y S1 where d: "decorate env None (Some (req_id req)) resp S = (y, S1)" by (cases "decorate env None (Some (req_id req)) resp S")
  from d show thesis
  proof (cases rule: decorate_cases)
    case (thrown e n)
    with d assms show ?thesis by (intro that(1) [of e n]) (auto simp: sendResponseWithLog_def)
  next
    case (decorated resp' n)
    obtain b S2 where b: "sendEncodedPayload env [key] (emit_event (Replied key req resp') S1) = (b, S2)"
      by (cases "sendEncodedPayload env [key] (emit_event (Replied key req resp') S1)")
    have "S' = S2" "x = Inr (singleResult b)" using assms d b decorated(1) by (simp_all add: sendResponseWithLog_def)
    moreover obtain m where "S2 = base (emit_event (Replied key req resp') S1) [] [] [] m" "tick (emit_event (Replied key req resp') S1) \<le> m"
      using sendEncodedPayload_state [OF b] .
    ultimately show ?thesis using decorated by (intro that(2) [of "singleResult b" resp' m]) (auto simp: emit_base)
  qed
qed

text \<open>
  A message under way is in exactly one place; \<open>ticket\<close> is the connection and the request it came from.
\<close>

type_synonym ticket = "connKey \<times> request"

fun redis_ticket :: "redis_task \<Rightarrow> ticket" where
  "redis_ticket (CheckGroup c) = (pg_senderKey c, pg_request c)"
| "redis_ticket (CheckDirect c) = (pd_senderKey c, pd_request c)"

fun message_ticket :: "message_task \<Rightarrow> ticket" where
  "message_ticket (SaveGroup c _) = (pg_senderKey c, pg_request c)"
| "message_ticket (SaveDirect c _) = (pd_senderKey c, pd_request c)"

fun loop_ticket :: "loop_task \<Rightarrow> ticket" where
  "loop_ticket (LimitDone task _) = redis_ticket task"
| "loop_ticket (GroupSaved c _ _) = (pg_senderKey c, pg_request c)"
| "loop_ticket (DirectSaved c _ _) = (pd_senderKey c, pd_request c)"

text \<open>What the checks of the handlers have established about a context.\<close>

definition group_ctx_ok :: "im_env \<Rightarrow> PendingGroupMessageContext \<Rightarrow> bool" where
  "group_ctx_ok env c \<longleftrightarrow> pg_content c \<noteq> [] \<and> length (pg_content c) \<le> maxMessageLen env"

definition direct_ctx_ok :: "im_env \<Rightarrow> PendingDirectMessageContext \<Rightarrow> bool" where
  "direct_ctx_ok env c \<longleftrightarrow> pd_content c \<noteq> [] \<and> length (pd_content c) \<le> maxMessageLen env \<and> named (pd_senderAccountId c) \<and>
     pd_conversationKey c = buildDirectConversationKey (pd_senderAccountId c) (pd_receiverAccountId c)"

fun redis_ok :: "im_env \<Rightarrow> redis_task \<Rightarrow> bool" where
  "redis_ok env (CheckGroup c) = group_ctx_ok env c"
| "redis_ok env (CheckDirect c) = direct_ctx_ok env c"

fun message_ok :: "im_env \<Rightarrow> string \<times> message_task \<Rightarrow> bool" where
  "message_ok env (k, SaveGroup c cmd) \<longleftrightarrow> group_ctx_ok env c \<and> k = ''group:'' @ gc_groupId cmd \<and> gc_groupId cmd = pg_groupId c \<and>
     gc_senderAccountId cmd = pg_senderAccountId c \<and> gc_content cmd = pg_content c"
| "message_ok env (k, SaveDirect c cmd) \<longleftrightarrow> direct_ctx_ok env c \<and> k = ''dm:'' @ dc_conversationKey cmd \<and> dc_conversationKey cmd = pd_conversationKey c \<and>
     dc_senderAccountId cmd = pd_senderAccountId c \<and> dc_receiverAccountId cmd = pd_receiverAccountId c \<and> dc_content cmd = pd_content c"

fun message_id :: "message_task \<Rightarrow> nat" where
  "message_id (SaveGroup _ cmd) = gc_msgId cmd"
| "message_id (SaveDirect _ cmd) = dc_msgId cmd"

definition given :: "im_env \<Rightarrow> nat \<Rightarrow> nat \<Rightarrow> nat \<Rightarrow> bool" where
  "given env lo hi i \<longleftrightarrow> (\<exists>m w. lo \<le> m \<and> m < hi \<and> idAt env m = Inr w \<and> i = unat w)"

text \<open>
  How an operation on the base loop disposes of a ticket: nothing, an error answer, a task for the
  Redis threads, or a task for the message threads with a new identifier.
\<close>

inductive disposes :: "im_env \<Rightarrow> ticket \<Rightarrow> im_state \<Rightarrow> im_state \<Rightarrow> bool" for env tk S where
  dropped: "tick S \<le> n \<Longrightarrow> disposes env tk S (base S [] [] [] n)"
| refused: "tick S \<le> n \<Longrightarrow> resp_type resp = ERR \<Longrightarrow> disposes env tk S (base S [] [] [Replied (fst tk) (snd tk) resp] n)"
| limited: "tick S \<le> n \<Longrightarrow> redis_ok env task \<Longrightarrow> redis_ticket task = tk \<Longrightarrow> disposes env tk S (base S [(k, task)] [] [] n)"
| saving: "tick S \<le> n \<Longrightarrow> message_ok env (k, task) \<Longrightarrow> message_ticket task = tk \<Longrightarrow> given env (tick S) n (message_id task) \<Longrightarrow>
    disposes env tk S (base S [] [(k, task)] [] n)"

lemma disposes_refl: "disposes env tk S S"
  using disposes.dropped [of S "tick S"] by (simp add: base_self)

text \<open>An operation that only consulted the environment before.\<close>

lemma disposes_after:
  assumes "disposes env tk (base S [] [] [] n) S'" "tick S \<le> n"
  shows "disposes env tk S S'"
  using assms(1)
proof cases
  case (dropped m)
  with assms(2) disposes.dropped [of S m] show ?thesis by simp
next
  case (refused m resp)
  with assms(2) disposes.refused [of S m resp] show ?thesis by simp
next
  case (limited m task k)
  with assms(2) disposes.limited [of S m env task tk k] show ?thesis by simp
next
  case (saving m k task)
  then have "given env (tick S) m (message_id task)" using assms(2) unfolding given_def base_simps by (metis le_trans)
  with saving assms(2) disposes.saving [of S m env k task tk] show ?thesis by simp
qed

lemma disposes_reply:
  assumes "resp_type resp = ERR"
  shows "disposes env (key, req) S (reply env key req resp S)"
proof -
  obtain x S' where s: "sendResponseWithLog env key req resp S = (x, S')" by (cases "sendResponseWithLog env key req resp S")
  then have r: "reply env key req resp S = S'" by (simp add: reply_def)
  from s show ?thesis
  proof (cases rule: sendResponse_cases)
    case (thrown e n)
    then show ?thesis using disposes.dropped [of S n] by (simp add: r)
  next
    case (replied y resp' n)
    have "resp_type resp' = ERR" using decoration_type [OF replied(2)] assms by simp
    from disposes.refused [OF replied(4) this, of env "(key, req)"] replied(3) show ?thesis by (simp add: r)
  qed
qed

lemma makeErr_type [simp]: "resp_type (makeErr req c m d) = ERR" "resp_type (makeRepoError req st m) = ERR"
  by (simp_all add: makeErr_def makeRepoError_def)

lemma submitMessageTask_cases:
  assumes "submitMessageTask env k task S = (r, S')"
  shows "S' = base S [] (if r = Accepted then [(k, task)] else []) [] (tick S + 1)"
  using assms by (auto simp: submitMessageTask_def Let_def consult_def base_def split: if_splits)

lemma submitGroup_reads:
  assumes "submitGroupMessagePersistence env ctx S = (x, S')" "group_ctx_ok env ctx"
  obtains n where "x \<noteq> Inr Accepted" "S' = base S [] [] [] n" "tick S \<le> n"
    | r w cmd where "idAt env (tick S + 1) = Inr w" "gc_msgId cmd = unat w" "message_ok env (''group:'' @ pg_groupId ctx, SaveGroup ctx cmd)"
        "submitMessageTask env (''group:'' @ pg_groupId ctx) (SaveGroup ctx cmd) (base S [] [] [] (tick S + 2)) = (r, S')" "x = Inr r"
proof (cases "hasMessageExecutor env \<and> hasPoster env \<and> hasGroupPersistence env \<and> im_accepting S")
  case False
  with assms(1) show ?thesis by (intro that(1) [of "tick S"]) (auto simp: submitGroupMessagePersistence_def base_self split: if_splits)
next
  case True
  let ?cmd = "\<lambda>w. \<lparr>gc_msgId = unat w, gc_serverTsMs = unat (nowAt env (tick S)), gc_groupId = pg_groupId ctx,
      gc_senderAccountId = pg_senderAccountId ctx, gc_senderUsername = pg_senderUsername ctx, gc_content = pg_content ctx\<rparr>"
  show ?thesis
  proof (cases "idAt env (tick S + 1)")
    case (Inl e)
    with True assms(1) show ?thesis by (intro that(1) [of "tick S + 2"]) (auto simp: submitGroupMessagePersistence_def Let_def consult_base)
  next
    case (Inr w)
    obtain r S2 where r: "submitMessageTask env (''group:'' @ pg_groupId ctx) (SaveGroup ctx (?cmd w)) (base S [] [] [] (tick S + 2)) = (r, S2)"
      by (cases "submitMessageTask env (''group:'' @ pg_groupId ctx) (SaveGroup ctx (?cmd w)) (base S [] [] [] (tick S + 2))")
    with True Inr assms(1) have "x = Inr r" "S' = S2" by (auto simp: submitGroupMessagePersistence_def Let_def consult_base)
    with r Inr assms(2) show ?thesis by (intro that(2) [of w "?cmd w" r]) simp_all
  qed
qed

lemma submitDirect_reads:
  assumes "submitDirectMessagePersistence env ctx S = (x, S')" "direct_ctx_ok env ctx"
  obtains n where "x \<noteq> Inr Accepted" "S' = base S [] [] [] n" "tick S \<le> n"
    | r w cmd where "idAt env (tick S + 1) = Inr w" "dc_msgId cmd = unat w" "message_ok env (''dm:'' @ pd_conversationKey ctx, SaveDirect ctx cmd)"
        "submitMessageTask env (''dm:'' @ pd_conversationKey ctx) (SaveDirect ctx cmd) (base S [] [] [] (tick S + 2)) = (r, S')" "x = Inr r"
proof (cases "hasMessageExecutor env \<and> hasPoster env \<and> hasDirectPersistence env \<and> im_accepting S")
  case False
  with assms(1) show ?thesis by (intro that(1) [of "tick S"]) (auto simp: submitDirectMessagePersistence_def base_self split: if_splits)
next
  case True
  let ?cmd = "\<lambda>w. \<lparr>dc_msgId = unat w, dc_serverTsMs = unat (nowAt env (tick S)), dc_conversationKey = pd_conversationKey ctx,
      dc_senderAccountId = pd_senderAccountId ctx, dc_receiverAccountId = pd_receiverAccountId ctx,
      dc_senderUsername = pd_senderUsername ctx, dc_content = pd_content ctx\<rparr>"
  show ?thesis
  proof (cases "idAt env (tick S + 1)")
    case (Inl e)
    with True assms(1) show ?thesis by (intro that(1) [of "tick S + 2"]) (auto simp: submitDirectMessagePersistence_def Let_def consult_base)
  next
    case (Inr w)
    obtain r S2 where r: "submitMessageTask env (''dm:'' @ pd_conversationKey ctx) (SaveDirect ctx (?cmd w)) (base S [] [] [] (tick S + 2)) = (r, S2)"
      by (cases "submitMessageTask env (''dm:'' @ pd_conversationKey ctx) (SaveDirect ctx (?cmd w)) (base S [] [] [] (tick S + 2))")
    with True Inr assms(1) have "x = Inr r" "S' = S2" by (auto simp: submitDirectMessagePersistence_def Let_def consult_base)
    with r Inr assms(2) show ?thesis by (intro that(2) [of w "?cmd w" r]) simp_all
  qed
qed

lemma submitGroup_cases:
  assumes "submitGroupMessagePersistence env ctx S = (x, S')" "group_ctx_ok env ctx"
  obtains (other) n where "x \<noteq> Inr Accepted" "S' = base S [] [] [] n" "tick S \<le> n"
    | (accepted) "x = Inr Accepted" "disposes env (pg_senderKey ctx, pg_request ctx) S S'"
proof -
  consider n where "x \<noteq> Inr Accepted" "S' = base S [] [] [] n" "tick S \<le> n"
    | r w cmd where "idAt env (tick S + 1) = Inr w" "gc_msgId cmd = unat w" "message_ok env (''group:'' @ pg_groupId ctx, SaveGroup ctx cmd)"
        "submitMessageTask env (''group:'' @ pg_groupId ctx) (SaveGroup ctx cmd) (base S [] [] [] (tick S + 2)) = (r, S')" "x = Inr r"
    using assms
    by (rule submitGroup_reads)
  then show thesis
  proof cases
    case 2
    note s = submitMessageTask_cases [OF 2(4)]
    show ?thesis
    proof (cases "r = Accepted")
      case True
      have "given env (tick S) (tick S + 3) (gc_msgId cmd)" unfolding given_def by (intro exI [of _ "tick S + 1"] exI [of _ w]) (use 2(1,2) in simp)
      then have "disposes env (pg_senderKey ctx, pg_request ctx) S (base S [] [(''group:'' @ pg_groupId ctx, SaveGroup ctx cmd)] [] (tick S + 3))"
        by (intro disposes.saving 2(3)) simp_all
      with True s 2(5) show ?thesis by (intro accepted) (simp_all add: numeral_3_eq_3)
    next
      case False
      with s 2(5) show ?thesis by (intro other [of "tick S + 3"]) (simp_all add: numeral_3_eq_3)
    qed
  qed (rule other)
qed

lemma submitDirect_cases:
  assumes "submitDirectMessagePersistence env ctx S = (x, S')" "direct_ctx_ok env ctx"
  obtains (other) n where "x \<noteq> Inr Accepted" "S' = base S [] [] [] n" "tick S \<le> n"
    | (accepted) "x = Inr Accepted" "disposes env (pd_senderKey ctx, pd_request ctx) S S'"
proof -
  consider n where "x \<noteq> Inr Accepted" "S' = base S [] [] [] n" "tick S \<le> n"
    | r w cmd where "idAt env (tick S + 1) = Inr w" "dc_msgId cmd = unat w" "message_ok env (''dm:'' @ pd_conversationKey ctx, SaveDirect ctx cmd)"
        "submitMessageTask env (''dm:'' @ pd_conversationKey ctx) (SaveDirect ctx cmd) (base S [] [] [] (tick S + 2)) = (r, S')" "x = Inr r"
    using assms
    by (rule submitDirect_reads)
  then show thesis
  proof cases
    case 2
    note s = submitMessageTask_cases [OF 2(4)]
    show ?thesis
    proof (cases "r = Accepted")
      case True
      have "given env (tick S) (tick S + 3) (dc_msgId cmd)" unfolding given_def by (intro exI [of _ "tick S + 1"] exI [of _ w]) (use 2(1,2) in simp)
      then have "disposes env (pd_senderKey ctx, pd_request ctx) S (base S [] [(''dm:'' @ pd_conversationKey ctx, SaveDirect ctx cmd)] [] (tick S + 3))"
        by (intro disposes.saving 2(3)) simp_all
      with True s 2(5) show ?thesis by (intro accepted) (simp_all add: numeral_3_eq_3)
    next
      case False
      with s 2(5) show ?thesis by (intro other [of "tick S + 3"]) (simp_all add: numeral_3_eq_3)
    qed
  qed (rule other)
qed

subsection \<open>Handlers\<close>

inductive handled :: "im_env \<Rightarrow> ticket \<Rightarrow> im_state \<Rightarrow> im_exn + DispatchResult \<Rightarrow> im_state \<Rightarrow> bool" for env tk S where
  waits: "\<not> shouldRespond d \<Longrightarrow> disposes env tk S S' \<Longrightarrow> handled env tk S (Inr d) S'"
| answers: "resp_type r = ERR \<Longrightarrow> tick S \<le> n \<Longrightarrow> handled env tk S (Inr (immediate r)) (base S [] [] [] n)"
| throws: "tick S \<le> n \<Longrightarrow> handled env tk S (Inl e) (base S [] [] [] n)"

lemma handled_refusal: "resp_type r = ERR \<Longrightarrow> handled env tk S (Inr (immediate r)) S"
  using handled.answers [of r S "tick S"] by (simp add: base_self)

lemma shouldRespond_simps [simp]: "shouldRespond (immediate r)" "\<not> shouldRespond deferred" "the (dr_response (immediate r)) = r"
  by (simp_all add: shouldRespond_def immediate_def deferred_def)

lemma submitResultMap_cases:
  "r = Accepted \<and> submitResultMapToDispatchResult req r p = deferred \<or>
   r \<noteq> Accepted \<and> (\<exists>resp. submitResultMapToDispatchResult req r p = immediate resp \<and> resp_type resp = ERR)"
  by (cases r) (auto simp: submitResultMapToDispatchResult_def Let_def)

lemma submitResult_handled:
  assumes "r = Accepted \<Longrightarrow> disposes env tk S S'" "r \<noteq> Accepted \<Longrightarrow> \<exists>n. tick S \<le> n \<and> S' = base S [] [] [] n"
  shows "handled env tk S (Inr (submitResultMapToDispatchResult req r p)) S'"
  using submitResultMap_cases [of r req p]
proof (elim disjE conjE exE)
  assume "r = Accepted" "submitResultMapToDispatchResult req r p = deferred"
  with assms(1) show ?thesis using handled.waits [of deferred] by simp
next
  fix resp assume r: "r \<noteq> Accepted" "submitResultMapToDispatchResult req r p = immediate resp" "resp_type resp = ERR"
  from assms(2) [OF r(1)] obtain n where "tick S \<le> n" "S' = base S [] [] [] n" by blast
  with r show ?thesis using handled.answers [of resp S n] by simp
qed

lemma submitRateLimitCheck_cases:
  assumes "submitRateLimitCheck env acc task S = (r, S')"
  shows "\<exists>n. tick S \<le> n \<and> S' = base S (if r = Accepted then [(''account:'' @ acc, task)] else []) [] [] n"
proof (cases "hasRedisExecutor env \<and> hasPoster env \<and> hasRateLimiter env")
  case True
  with assms show ?thesis
    by (intro exI [of _ "tick S + 1"]) (auto simp: submitRateLimitCheck_def Let_def consult_def base_def)
next
  case False
  with assms show ?thesis by (intro exI [of _ "tick S"]) (auto simp: submitRateLimitCheck_def base_self)
qed

lemma start_message_handled:
  assumes "start_message env req acc persist check S = (x, S')"
    and "redis_ok env check" "redis_ticket check = tk"
    and "\<And>y S1. persist S = (y, S1) \<Longrightarrow> (y \<noteq> Inr Accepted \<and> (\<exists>n. tick S \<le> n \<and> S1 = base S [] [] [] n)) \<or> y = Inr Accepted \<and> disposes env tk S S1"
  shows "handled env tk S x S'"
proof -
  consider (direct) "\<not> hasRateLimiter env" | (missing) "hasRateLimiter env" "\<not> hasRedisExecutor env" | (redis) "hasRateLimiter env" "hasRedisExecutor env"
    by blast
  then show ?thesis
  proof cases
    case direct
    obtain y S1 where p: "persist S = (y, S1)" by (cases "persist S")
    with direct assms(1) have x: "x = map_sum id (\<lambda>r. submitResultMapToDispatchResult req r ''message'') y" "S' = S1"
      by (simp_all add: start_message_def)
    show ?thesis
    proof (cases y)
      case (Inl e)
      with assms(4) [OF p] x show ?thesis using handled.throws [of S _ env tk e] by auto
    next
      case (Inr r)
      have "handled env tk S (Inr (submitResultMapToDispatchResult req r ''message'')) S1"
        by (rule submitResult_handled) (use assms(4) [OF p] Inr in auto)
      with x Inr show ?thesis by simp
    qed
  next
    case missing
    with assms(1) show ?thesis by (auto simp: start_message_def intro: handled_refusal)
  next
    case redis
    obtain r S1 where c: "submitRateLimitCheck env acc check S = (r, S1)" by (cases "submitRateLimitCheck env acc check S")
    obtain n where n: "tick S \<le> n" "S1 = base S (if r = Accepted then [(''account:'' @ acc, check)] else []) [] [] n"
      using submitRateLimitCheck_cases [OF c] by blast
    have "handled env tk S (Inr (submitResultMapToDispatchResult req r ''redis'')) S1"
      by (rule submitResult_handled) (use n assms(2,3) disposes.limited [OF n(1) assms(2,3)] in auto)
    with redis assms(1) c show ?thesis by (simp add: start_message_def)
  qed
qed

lemma getStringField_Inl: "getStringField req f b = Inl r \<Longrightarrow> resp_type r = ERR"
  by (auto simp: getStringField_def split: option.splits json.splits if_splits)

lemma getStringField_nonempty: "getStringField req f False = Inr v \<Longrightarrow> v \<noteq> []"
  by (auto simp: getStringField_def split: option.splits json.splits if_splits)

lemma guards_type: "guardAuthenticated req s = Some r \<Longrightarrow> resp_type r = ERR" "guardInGroup req s g m = Some r \<Longrightarrow> resp_type r = ERR"
  by (auto simp: guardAuthenticated_def guardInGroup_def split: if_splits)

lemmas refusals = handled_refusal getStringField_Inl guards_type makeErr_type

lemma group_start_handled:
  assumes "start_message env req acc (submitGroupMessagePersistence env ctx) (CheckGroup ctx) S = (x, S')"
    and ok: "group_ctx_ok env ctx" and "pg_senderKey ctx = key" "pg_request ctx = req"
  shows "handled env (key, req) S x S'"
proof (rule start_message_handled [OF assms(1)])
  fix y S1 assume "submitGroupMessagePersistence env ctx S = (y, S1)"
  then show "(y \<noteq> Inr Accepted \<and> (\<exists>n. tick S \<le> n \<and> S1 = base S [] [] [] n)) \<or> y = Inr Accepted \<and> disposes env (key, req) S S1"
    by (rule submitGroup_cases [OF _ ok]) (use assms(3,4) in auto)
qed (use assms in simp_all)

lemma direct_start_handled:
  assumes "start_message env req acc (submitDirectMessagePersistence env ctx) (CheckDirect ctx) S = (x, S')"
    and ok: "direct_ctx_ok env ctx" and "pd_senderKey ctx = key" "pd_request ctx = req"
  shows "handled env (key, req) S x S'"
proof (rule start_message_handled [OF assms(1)])
  fix y S1 assume "submitDirectMessagePersistence env ctx S = (y, S1)"
  then show "(y \<noteq> Inr Accepted \<and> (\<exists>n. tick S \<le> n \<and> S1 = base S [] [] [] n)) \<or> y = Inr Accepted \<and> disposes env (key, req) S S1"
    by (rule submitDirect_cases [OF _ ok]) (use assms(3,4) in auto)
qed (use assms in simp_all)

lemma handleGroup_handled:
  assumes "handleGroupMessageAsync env req key s conn S = (x, S')"
  shows "handled env (key, req) S x S'"
proof -
  have started: "handled env (key, req) S x S'"
    if "start_message env req (s_accountId s) (submitGroupMessagePersistence env ctx) (CheckGroup ctx) S = (x, S')"
      "ctx = \<lparr>pg_senderConnection = conn, pg_senderKey = key, pg_request = req, pg_senderAccountId = s_accountId s,
         pg_senderUsername = s_username s, pg_groupId = gid, pg_content = content\<rparr>" "content \<noteq> []" "length content \<le> maxMessageLen env" for ctx gid content
    using that(2-4) by (intro group_start_handled [OF that(1)]) (simp_all add: group_ctx_ok_def)
  show ?thesis
    using assms unfolding handleGroupMessageAsync_def Let_def
    by (auto split: option.splits if_splits sum.splits intro: handled_refusal started dest: guards_type getStringField_Inl getStringField_nonempty)
qed

lemma handleDm_handled:
  assumes "handleDmAsync env req key s conn S = (x, S')" "s_state s = Authed \<Longrightarrow> named (s_accountId s)"
  shows "handled env (key, req) S x S'"
proof -
  have started: "handled env (key, req) S x S'"
    if "start_message env req (s_accountId s) (submitDirectMessagePersistence env ctx) (CheckDirect ctx) S = (x, S')"
      "ctx = \<lparr>pd_senderConnection = conn, pd_senderKey = key, pd_request = req, pd_senderAccountId = s_accountId s,
         pd_senderUsername = s_username s, pd_receiverAccountId = req_to req,
         pd_conversationKey = buildDirectConversationKey (s_accountId s) (req_to req), pd_content = content\<rparr>"
      "content \<noteq> []" "length content \<le> maxMessageLen env" "named (s_accountId s)" for ctx content
    using that(2-5) by (intro direct_start_handled [OF that(1)]) (simp_all add: direct_ctx_ok_def)
  have "guardAuthenticated req s = None \<Longrightarrow> named (s_accountId s)" using assms(2) by (auto simp: guardAuthenticated_def split: if_splits)
  then show ?thesis
    using assms(1) unfolding handleDmAsync_def Let_def
    by (auto split: option.splits if_splits sum.splits intro: handled_refusal started dest: guards_type getStringField_Inl getStringField_nonempty)
qed

lemma answer_request_disposes:
  assumes "answer_request env dispatch conn key s req S = (u, S')"
    and "\<And>x S1. dispatch req key s conn S = (x, S1) \<Longrightarrow> handled env (key, req) S x S1"
  shows "disposes env (key, req) S S'"
proof -
  obtain x S1 where d: "dispatch req key s conn S = (x, S1)" by (cases "dispatch req key s conn S")
  let ?err = "\<lambda>e. makeErr req INTERNAL (''Internal server error:'' @ what env e) JNull"
  have err: "disposes env (key, req) S (snd (sendResponseWithLog env key req (?err e) (base S [] [] [] n)))" if "tick S \<le> n" for e n
    using disposes_after [OF disposes_reply [of "?err e" env key req "base S [] [] [] n", unfolded reply_def] that] by simp
  from assms(2) [OF d] show ?thesis
  proof cases
    case (waits r)
    with assms(1) d show ?thesis by (simp add: answer_request_def)
  next
    case (answers r n)
    obtain y S2 where s: "sendResponseWithLog env key req r (base S [] [] [] n) = (y, S2)" by (cases "sendResponseWithLog env key req r (base S [] [] [] n)")
    from s show ?thesis
    proof (cases rule: sendResponse_cases)
      case (thrown e m)
      with assms(1) d answers s have "S' = snd (sendResponseWithLog env key req (?err e) (base S [] [] [] m))"
        by (auto simp: answer_request_def apfst_def map_prod_def split: prod.splits)
      moreover have "tick S \<le> m" using thrown(3) answers(4) by simp
      ultimately show ?thesis using err by simp
    next
      case (replied z resp' m)
      with assms(1) d answers s have "S' = reply env key req r (base S [] [] [] n)" by (simp add: answer_request_def reply_def)
      with disposes_after [OF disposes_reply [OF answers(3)] answers(4)] show ?thesis by simp
    qed
  next
    case (throws n e)
    with assms(1) d have "S' = snd (sendResponseWithLog env key req (?err e) (base S [] [] [] n))"
      by (auto simp: answer_request_def apfst_def map_prod_def split: prod.splits)
    with err [OF throws(3)] show ?thesis by simp
  qed
qed

subsection \<open>Completions\<close>

lemma persist_or_fail_disposes:
  assumes "\<And>y S1. persist S = (y, S1) \<Longrightarrow> (y \<noteq> Inr Accepted \<and> (\<exists>n. tick S \<le> n \<and> S1 = base S [] [] [] n)) \<or> y = Inr Accepted \<and> disposes env (key, req) S S1"
  shows "disposes env (key, req) S (persist_or_fail env conn key acc req persist S)"
proof -
  obtain y S1 where p: "persist S = (y, S1)" by (cases "persist S")
  have drop: "disposes env (key, req) S (base S [] [] [] n)" if "tick S \<le> n" for n using disposes.dropped [OF that] .
  have fail: "disposes env (key, req) S (sendDeferredSubmitFailure env conn key acc req r ''message'' (base S [] [] [] n))"
    if n: "tick S \<le> n" and r: "r \<noteq> Accepted" for n r
  proof -
    obtain resp where "submitResultMapToDispatchResult req r ''message'' = immediate resp" "resp_type resp = ERR"
      using submitResultMap_cases [of r req "''message''"] r by blast
    then show ?thesis
      using drop [OF n] disposes_after [OF disposes_reply n] by (simp add: sendDeferredSubmitFailure_def Let_def)
  qed
  show ?thesis
  proof (cases y)
    case (Inl e)
    with assms [OF p] p drop show ?thesis by (auto simp: persist_or_fail_def)
  next
    case (Inr r)
    with assms [OF p] p fail show ?thesis by (auto simp: persist_or_fail_def)
  qed
qed

lemma group_limit_disposes:
  assumes "group_ctx_ok env ctx"
  shows "disposes env (pg_senderKey ctx, pg_request ctx) S (completeGroupMessageRateLimit env ctx r S)"
proof -
  have e: "evaluateRateLimitResult env q r = Some err \<Longrightarrow> resp_type err = ERR" for q err
    by (auto simp: evaluateRateLimitResult_def makeRateLimitError_def split: if_splits)
  have p: "disposes env (pg_senderKey ctx, pg_request ctx) S
      (persist_or_fail env conn (pg_senderKey ctx) acc (pg_request ctx) (submitGroupMessagePersistence env ctx) S)" for conn acc
  proof (rule persist_or_fail_disposes)
    fix y S1 assume "submitGroupMessagePersistence env ctx S = (y, S1)"
    then show "(y \<noteq> Inr Accepted \<and> (\<exists>n. tick S \<le> n \<and> S1 = base S [] [] [] n)) \<or> y = Inr Accepted \<and> disposes env (pg_senderKey ctx, pg_request ctx) S S1"
      by (rule submitGroup_cases [OF _ assms]) auto
  qed
  show ?thesis
    unfolding completeGroupMessageRateLimit_def Let_def
    by (auto simp: disposes_refl intro: disposes_reply e p split: option.splits)
qed

lemma direct_limit_disposes:
  assumes "direct_ctx_ok env ctx"
  shows "disposes env (pd_senderKey ctx, pd_request ctx) S (completeDirectMessageRateLimit env ctx r S)"
proof -
  have e: "evaluateRateLimitResult env q r = Some err \<Longrightarrow> resp_type err = ERR" for q err
    by (auto simp: evaluateRateLimitResult_def makeRateLimitError_def split: if_splits)
  have p: "disposes env (pd_senderKey ctx, pd_request ctx) S
      (persist_or_fail env conn (pd_senderKey ctx) acc (pd_request ctx) (submitDirectMessagePersistence env ctx) S)" for conn acc
  proof (rule persist_or_fail_disposes)
    fix y S1 assume "submitDirectMessagePersistence env ctx S = (y, S1)"
    then show "(y \<noteq> Inr Accepted \<and> (\<exists>n. tick S \<le> n \<and> S1 = base S [] [] [] n)) \<or> y = Inr Accepted \<and> disposes env (pd_senderKey ctx, pd_request ctx) S S1"
      by (rule submitDirect_cases [OF _ assms]) auto
  qed
  show ?thesis
    unfolding completeDirectMessageRateLimit_def Let_def
    by (auto simp: disposes_refl intro: disposes_reply e p split: option.splits)
qed

text \<open>What a push says about the message it announces.\<close>

definition group_shown :: "GroupMessageWriteCommand \<Rightarrow> nat \<Rightarrow> response \<Rightarrow> bool" where
  "group_shown cmd sq p \<longleftrightarrow> resp_type p = GROUP_MSG_PUSH \<and> field ''msgId'' (resp_data p) = Some (jnum (gc_msgId cmd)) \<and>
     field ''groupSeq'' (resp_data p) = Some (jnum sq) \<and> field ''groupId'' (resp_data p) = Some (JString (gc_groupId cmd)) \<and>
     field ''fromAccountId'' (resp_data p) = Some (JString (gc_senderAccountId cmd)) \<and> field ''content'' (resp_data p) = Some (JString (gc_content cmd))"

definition direct_shown :: "DirectMessageWriteCommand \<Rightarrow> response \<Rightarrow> bool" where
  "direct_shown cmd p \<longleftrightarrow> resp_type p = DM_PUSH \<and> field ''msgId'' (resp_data p) = Some (jnum (dc_msgId cmd)) \<and>
     field ''conversationKey'' (resp_data p) = Some (JString (dc_conversationKey cmd)) \<and>
     field ''fromAccountId'' (resp_data p) = Some (JString (dc_senderAccountId cmd)) \<and> field ''toAccountId'' (resp_data p) = Some (JString (dc_receiverAccountId cmd)) \<and>
     field ''content'' (resp_data p) = Some (JString (dc_content cmd))"

text \<open>
  A completion of a saved message: nothing if the connection of a failed message is gone, an error
  answer, or a push followed by an answer with the identifier.
\<close>

inductive announces :: "ticket \<Rightarrow> bool \<Rightarrow> connKey list \<Rightarrow> (response \<Rightarrow> bool) \<Rightarrow> MsgType \<Rightarrow> nat \<Rightarrow> im_event list \<Rightarrow> bool" for tk ok ts P ty i where
  nothing: "announces tk ok ts P ty i []"
| failed: "\<not> ok \<Longrightarrow> resp_type r = ERR \<Longrightarrow> announces tk ok ts P ty i [Replied (fst tk) (snd tk) r]"
| pushed: "ok \<Longrightarrow> P p \<Longrightarrow> announces tk ok ts P ty i [Pushed ts p]"
| answered: "ok \<Longrightarrow> resp_type r = ty \<Longrightarrow> field ''msgId'' (resp_data r) = Some (jnum i) \<Longrightarrow> announces tk ok ts P ty i [Replied (fst tk) (snd tk) r]"
| both: "ok \<Longrightarrow> P p \<Longrightarrow> resp_type r = ty \<Longrightarrow> field ''msgId'' (resp_data r) = Some (jnum i) \<Longrightarrow>
    announces tk ok ts P ty i [Pushed ts p, Replied (fst tk) (snd tk) r]"

lemma reply_announces:
  obtains (silent) n where "reply env key req r S = base S [] [] [] n" "tick S \<le> n"
    | (said) r' n where "reply env key req r S = base S [] [] [Replied key req r'] n" "tick S \<le> n" "resp_type r' = resp_type r"
        "\<And>v. field ''msgId'' (resp_data r) = Some v \<Longrightarrow> field ''msgId'' (resp_data r') = Some v"
proof -
  obtain x S' where s: "sendResponseWithLog env key req r S = (x, S')" by (cases "sendResponseWithLog env key req r S")
  then have r: "reply env key req r S = S'" by (simp add: reply_def)
  from s show thesis
  proof (cases rule: sendResponse_cases)
    case (thrown e n)
    with silent [of n] show ?thesis by (simp add: r)
  next
    case (replied y r' n)
    show ?thesis by (rule said [of r' n]) (use replied(3,4,5) decoration_type [OF replied(2)] in \<open>simp_all add: r\<close>)
  qed
qed

lemma broadcast_cases:
  assumes "broadcastToGroup env gid key msg S = (x, S')" "field ''msgId'' (resp_data msg) = Some (jnum i)"
  obtains (thrown) e n where "x = Inl e" "S' = base S [] [] [] n" "tick S \<le> n"
    | (sent) b p n where "x = Inr b" "S' = base S [] [] [Pushed (collectGroupTargets gid key (manager (im_groups S)) (im_sessions S)) p] n" "tick S \<le> n"
        "resp_type p = resp_type msg" "field ''msgId'' (resp_data p) = Some (jnum i)"
        "\<And>k. k \<notin> {''msgId'', ''serverTsMs'', ''clientReqId''} \<Longrightarrow> field k (resp_data p) = field k (resp_data msg)"
proof -
  let ?m = "msg\<lparr>resp_req_id := 0\<rparr>"
  have mi: "get_uint64 (jnum i) = Some (of_nat i)" by (simp add: jnum_def get_uint64_def)
  obtain y S1 where d: "decorate env (Some (of_nat i)) None ?m S = (y, S1)" by (cases "decorate env (Some (of_nat i)) None ?m S")
  from d show thesis
  proof (cases rule: decorate_cases)
    case (thrown e n)
    with d mi assms show ?thesis by (intro that(1) [of e n]) (auto simp: broadcastToGroup_def Let_def)
  next
    case (decorated p n)
    let ?ts = "collectGroupTargets gid key (manager (im_groups S)) (im_sessions S)"
    obtain b S2 where b: "sendEncodedPayload env ?ts (emit_event (Pushed ?ts p) S1) = (b, S2)" by (cases "sendEncodedPayload env ?ts (emit_event (Pushed ?ts p) S1)")
    from sendEncodedPayload_state [OF b] obtain m where m: "S2 = base (emit_event (Pushed ?ts p) S1) [] [] [] m" "tick (emit_event (Pushed ?ts p) S1) \<le> m" .
    have xS: "x = Inr b" "S' = S2" using assms d mi b decorated(1,4) by (simp_all add: broadcastToGroup_def Let_def)
    show ?thesis
    proof (rule that(2) [of b p m])
      show "field k (resp_data p) = field k (resp_data msg)" if "k \<notin> {''msgId'', ''serverTsMs'', ''clientReqId''}" for k
        using decoration_field [OF decorated(2) that] by simp
    qed (use xS m decorated(3,4) decorated(6) [OF refl] decoration_type [OF decorated(2)] in \<open>simp_all add: emit_base jnum_def\<close>)
  qed
qed

lemma push_cases:
  assumes "pushToAccount env target msg S = (x, S')" "field ''msgId'' (resp_data msg) = Some (jnum i)"
  obtains (thrown) e n where "x = Inl e" "S' = base S [] [] [] n" "tick S \<le> n"
    | (offline) r where "x = Inr r" "S' = S" "connKeysByAccountId target (im_sessions S) = []"
    | (sent) b p n where "x = Inr b" "S' = base S [] [] [Pushed (connKeysByAccountId target (im_sessions S)) p] n" "tick S \<le> n"
        "resp_type p = resp_type msg" "field ''msgId'' (resp_data p) = Some (jnum i)"
        "\<And>k. k \<notin> {''msgId'', ''serverTsMs'', ''clientReqId''} \<Longrightarrow> field k (resp_data p) = field k (resp_data msg)"
proof -
  let ?ts = "connKeysByAccountId target (im_sessions S)"
  obtain y S1 where d: "decorate env None None msg S = (y, S1)" by (cases "decorate env None None msg S")
  show thesis
  proof (cases "?ts = []")
    case True
    with assms(1) show ?thesis by (intro offline) (auto simp: pushToAccount_def)
  next
    case False
    from d show ?thesis
    proof (cases rule: decorate_cases)
      case (thrown e n)
      with d False assms show ?thesis by (intro that(1) [of e n]) (auto simp: pushToAccount_def Let_def)
    next
      case (decorated p n)
      obtain b S2 where b: "sendEncodedPayload env ?ts (emit_event (Pushed ?ts p) S1) = (b, S2)" by (cases "sendEncodedPayload env ?ts (emit_event (Pushed ?ts p) S1)")
      from sendEncodedPayload_state [OF b] obtain m where m: "S2 = base (emit_event (Pushed ?ts p) S1) [] [] [] m" "tick (emit_event (Pushed ?ts p) S1) \<le> m" .
      have xS: "\<exists>r. x = Inr r" "S' = S2" using assms(1) d b decorated(1) False by (auto simp: pushToAccount_def Let_def)
      then obtain r where r: "x = Inr r" by blast
      show ?thesis
        by (rule sent [OF r, of p m])
          (use xS m decorated(3,4) decorated(5) [OF assms(2) refl] decoration_type [OF decorated(2)] decoration_field [OF decorated(2)] in \<open>simp_all add: emit_base\<close>)
    qed
  qed
qed

lemma complete_with:
  fixes S :: im_state
  assumes "S1 = base S [] [] ev0 n" "tick S \<le> n" "ev0 = [] \<or> (\<exists>p. ev0 = [Pushed ts p] \<and> P p)"
    and "resp_type r = ty" "field ''msgId'' (resp_data r) = Some (jnum i)"
  shows "\<exists>ev m. (if c then S1 else reply env key req r S1) = base S [] [] ev m \<and> tick S \<le> m \<and> announces (key, req) True ts P ty i ev"
proof (cases c)
  case True
  with assms(1-3) show ?thesis by (auto intro: announces.intros)
next
  case False
  have "\<exists>ev m. reply env key req r S1 = base S [] [] ev m \<and> tick S \<le> m \<and> announces (key, req) True ts P ty i ev"
  proof (cases rule: reply_announces [of env key req r S1])
    case (silent m)
    then have "reply env key req r S1 = base S [] [] ev0 m" "tick S \<le> m" using assms(1,2) by simp_all
    moreover have "announces (key, req) True ts P ty i ev0" using assms(3) by (auto intro: announces.intros)
    ultimately show ?thesis by blast
  next
    case (said r' m)
    then have "reply env key req r S1 = base S [] [] (ev0 @ [Replied key req r']) m" "tick S \<le> m" using assms(1,2) by simp_all
    moreover have "announces (key, req) True ts P ty i (ev0 @ [Replied key req r'])"
      using assms(3) announces.answered [of True r' ty i "(key, req)"] announces.both [of True P _ r' ty i "(key, req)"] said(3) said(4) [OF assms(5)] assms(4) by auto
    ultimately show ?thesis by blast
  qed
  with False show ?thesis by simp
qed

lemma error_reply_announces:
  assumes "resp_type r = ERR"
  shows "\<exists>ev m. (if c then S else reply env key req r S) = base S [] [] ev m \<and> tick S \<le> m \<and> announces (key, req) False ts P ty i ev"
proof (cases c)
  case True
  then show ?thesis by (intro exI [of _ "[]"] exI [of _ "tick S"]) (simp add: base_self announces.nothing)
next
  case False
  have "\<exists>ev m. reply env key req r S = base S [] [] ev m \<and> tick S \<le> m \<and> announces (key, req) False ts P ty i ev"
  proof (cases rule: reply_announces [of env key req r S])
    case (silent m)
    then show ?thesis using announces.nothing by blast
  next
    case (said r' m)
    then show ?thesis using announces.failed [of False r' "(key, req)" ts P ty i] assms by fastforce
  qed
  with False show ?thesis by simp
qed

lemma answer_fields:
  "resp_type (group_answer req cmd b us) = GROUP_MSG_RESP" "field ''msgId'' (resp_data (group_answer req cmd b us)) = Some (jnum (gc_msgId cmd))"
  "resp_type (direct_answer req dmd p us) = DM_RESP" "field ''msgId'' (resp_data (direct_answer req dmd p us)) = Some (jnum (dc_msgId dmd))"
  by (simp_all add: group_answer_def direct_answer_def makeOk_def field_json_object)

lemma completeGroup_announces:
  "\<exists>ev m. completeGroupMessage env ctx cmd r S = base S [] [] ev m \<and> tick S \<le> m \<and>
     announces (pg_senderKey ctx, pg_request ctx) (durable r)
       (collectGroupTargets (gc_groupId cmd) (pg_senderKey ctx) (manager (im_groups S)) (im_sessions S))
       (group_shown cmd (gw_groupSeq r)) GROUP_MSG_RESP (gc_msgId cmd) ev"
proof (cases "durable r")
  case False
  then show ?thesis by (simp add: completeGroupMessage_def Let_def error_reply_announces)
next
  case True
  let ?push = "group_push ctx cmd r"
  have i: "field ''msgId'' (resp_data ?push) = Some (jnum (gc_msgId cmd))" by (simp add: group_push_def field_json_object)
  have shown: "group_shown cmd (gw_groupSeq r) p"
    if "resp_type p = resp_type ?push" "field ''msgId'' (resp_data p) = Some (jnum (gc_msgId cmd))"
      "\<And>k. k \<notin> {''msgId'', ''serverTsMs'', ''clientReqId''} \<Longrightarrow> field k (resp_data p) = field k (resp_data ?push)" for p
    using that(1,2) that(3) [of "''groupSeq''"] that(3) [of "''groupId''"] that(3) [of "''fromAccountId''"] that(3) [of "''content''"]
    by (simp add: group_shown_def group_push_def field_json_object)
  obtain x S1 where b: "broadcastToGroup env (gc_groupId cmd) (pg_senderKey ctx) ?push S = (x, S1)"
    by (cases "broadcastToGroup env (gc_groupId cmd) (pg_senderKey ctx) ?push S")
  from b i show ?thesis
  proof (cases rule: broadcast_cases)
    case (thrown e n)
    with True b show ?thesis
      by (intro exI [of _ "[]"] exI [of _ n]) (simp add: completeGroupMessage_def Let_def announces.nothing)
  next
    case (sent bb p n)
    show ?thesis
      using True b complete_with [OF sent(2,3) _ answer_fields(1,2), where P="group_shown cmd (gw_groupSeq r)"] shown [OF sent(4,5,6)]
      unfolding completeGroupMessage_def Let_def sent(1) by simp
  qed
qed

lemma completeDirect_announces:
  "\<exists>ev m. completeDirectMessage env ctx cmd st S = base S [] [] ev m \<and> tick S \<le> m \<and>
     announces (pd_senderKey ctx, pd_request ctx) (st = RepoStatus.Ok) (connKeysByAccountId (dc_receiverAccountId cmd) (im_sessions S))
       (direct_shown cmd) DM_RESP (dc_msgId cmd) ev"
proof (cases "st = RepoStatus.Ok")
  case False
  then show ?thesis by (simp add: completeDirectMessage_def Let_def error_reply_announces)
next
  case True
  let ?push = "direct_push ctx cmd"
  have i: "field ''msgId'' (resp_data ?push) = Some (jnum (dc_msgId cmd))" by (simp add: direct_push_def field_json_object)
  have shown: "direct_shown cmd p"
    if "resp_type p = resp_type ?push" "field ''msgId'' (resp_data p) = Some (jnum (dc_msgId cmd))"
      "\<And>k. k \<notin> {''msgId'', ''serverTsMs'', ''clientReqId''} \<Longrightarrow> field k (resp_data p) = field k (resp_data ?push)" for p
    using that(1,2) that(3) [of "''conversationKey''"] that(3) [of "''toAccountId''"] that(3) [of "''fromAccountId''"] that(3) [of "''content''"]
    by (simp add: direct_shown_def direct_push_def field_json_object)
  obtain x S1 where b: "pushToAccount env (dc_receiverAccountId cmd) ?push S = (x, S1)" by (cases "pushToAccount env (dc_receiverAccountId cmd) ?push S")
  from b i show ?thesis
  proof (cases rule: push_cases)
    case (thrown e n)
    with True b show ?thesis
      by (intro exI [of _ "[]"] exI [of _ n]) (simp add: completeDirectMessage_def Let_def announces.nothing)
  next
    case (offline r)
    have "S1 = base S [] [] [] (tick S)" by (simp add: offline(2) base_self)
    note w = complete_with [OF this le_refl]
    show ?thesis
      using True b w [OF _ answer_fields(3,4), where P="direct_shown cmd"] unfolding completeDirectMessage_def Let_def offline(1) by simp
  next
    case (sent bb p n)
    show ?thesis
      using True b complete_with [OF sent(2,3) _ answer_fields(3,4), where P="direct_shown cmd"] shown [OF sent(4,5,6)]
      unfolding completeDirectMessage_def Let_def sent(1) by simp
  qed
qed

end
