(* ===== verification/MessageFlow.thy ===== *)
theory MessageFlow
  imports MessageService
begin

text \<open>
  The message paths as a transition system: the base loop, the Redis threads and the message threads
  interleave with logins, disconnects, membership changes, reads and a stop in any order. The theorems
  say what every run guarantees: no request is answered twice, what is pushed or confirmed has been
  saved, a group push goes to the connections of the members, what is saved has passed the checks, and
  the runs of the service are runs of the chat systems of \<open>DirectMessages\<close> and \<open>GroupMessages\<close>, so that
  their theorems hold for the service.
\<close>

subsection \<open>Steps\<close>

text \<open>The two cases of \<open>dispatchRequest\<close> for messages.\<close>

definition message_dispatch :: "im_env \<Rightarrow> request \<Rightarrow> connKey \<Rightarrow> session \<Rightarrow> nat \<Rightarrow> DispatchResult im" where
  "message_dispatch env req key s conn S =
     (if req_type req = DM_REQ then handleDmAsync env req key s conn S else handleGroupMessageAsync env req key s conn S)"

text \<open>
  The other handlers of the service answer at once. Of them it matters here that they may change the
  session of their connection, that accounts that are logged in have proper names, that a request is
  answered at most once, and that neither answers nor pushes look like those of messages.
\<close>

fun event_received :: "im_event \<Rightarrow> ticket multiset" where
  "event_received (Received k r) = {#(k, r)#}"
| "event_received _ = {#}"

fun event_replied :: "im_event \<Rightarrow> ticket multiset" where
  "event_replied (Replied k r _) = {#(k, r)#}"
| "event_replied _ = {#}"

definition sessions_named :: "session_manager \<Rightarrow> bool" where
  "sessions_named m \<longleftrightarrow> sessions_inv m \<and> (\<forall>k s. map_of (sessions m) k = Some s \<longrightarrow> s_state s = Authed \<longrightarrow> named (s_accountId s))"

fun other_event :: "im_event \<Rightarrow> bool" where
  "other_event (Pushed ts p) = (resp_type p \<noteq> GROUP_MSG_PUSH \<and> resp_type p \<noteq> DM_PUSH)"
| "other_event (Replied k q r) = (resp_type r \<noteq> GROUP_MSG_RESP \<and> resp_type r \<noteq> DM_RESP)"
| "other_event (Received k q) = False"
| "other_event (Complained k r) = True"

inductive im_step :: "im_env \<Rightarrow> group_deps \<Rightarrow> im_state \<Rightarrow> im_state \<Rightarrow> bool" for env deps where
  request: "map_of (im_conns S) c = Some (key, cl) \<Longrightarrow>
    \<forall>req. tryParse parse msg = Parsed req \<longrightarrow> req_type req = DM_REQ \<or> req_type req = GROUP_MSG_REQ \<Longrightarrow>
    onMessage env parse (message_dispatch env) c key msg S = (u, S') \<Longrightarrow> im_step env deps S S'"
| redis: "redisTasks S = xs @ (k, task) # ys \<Longrightarrow> k \<notin> fst ` set xs \<Longrightarrow>
    im_step env deps S (run_redis_task env task (S\<lparr>redisTasks := xs @ ys\<rparr>))"
| message: "messageTasks S = xs @ (k, task) # ys \<Longrightarrow> k \<notin> fst ` set xs \<Longrightarrow>
    im_step env deps S (run_message_task env task (S\<lparr>messageTasks := xs @ ys\<rparr>))"
| loop: "loopTasks S = task # ts \<Longrightarrow> im_step env deps S (run_loop_task env task (S\<lparr>loopTasks := ts\<rparr>))"
| other: "sessions_named m \<Longrightarrow> tick S \<le> n \<Longrightarrow> \<forall>e \<in> set ev. other_event e \<Longrightarrow>
    sum_list (map event_replied ev) \<subseteq># {#(key, req)#} \<Longrightarrow>
    im_step env deps S (base (S\<lparr>im_sessions := m\<rparr>) [] [] (Received key req # ev) n)"
| stop: "im_step env deps S (S\<lparr>im_accepting := False\<rparr>)"
| discard: "im_step env deps S (S\<lparr>redisTasks := [], messageTasks := []\<rparr>)"
| login: "named acc \<Longrightarrow> im_step env deps S (S\<lparr>im_sessions := svc_login key uid acc name (im_sessions S)\<rparr>)"
| logout: "im_step env deps S (S\<lparr>im_sessions := svc_logout key (im_sessions S)\<rparr>)"
| disconnect: "im_step env deps S (S\<lparr>im_sessions := onDisconnect key (im_sessions S)\<rparr>)"
| connections: "im_step env deps S (S\<lparr>im_conns := cs\<rparr>)"
| membership: "join_step deps (im_groups S) G \<Longrightarrow> im_step env deps S (S\<lparr>im_groups := G\<rparr>)"
| group_read: "run_state (in_store (group_read_commit a gid i at)) (im_groups S) = (v, G) \<Longrightarrow> im_step env deps S (S\<lparr>im_groups := G\<rparr>)"
| direct_read: "run_state (direct_read_commit a b i at) (im_directs S) = (v, D) \<Longrightarrow> im_step env deps S (S\<lparr>im_directs := D\<rparr>)"
| accounts: "\<forall>a \<in> set us. named a \<Longrightarrow> \<forall>(p, st) \<in> set fs. fst p \<noteq> snd p \<Longrightarrow>
    im_step env deps S (S\<lparr>im_directs := (im_directs S)\<lparr>tables := tables (im_directs S)\<lparr>user_profiles := us, friend_relations := fs\<rparr>\<rparr>\<rparr>)"
| deliveries: "im_step env deps S
    (S\<lparr>im_directs := (im_directs S)\<lparr>tables := tables (im_directs S)\<lparr>direct_offline := os, message_receipts := rs\<rparr>\<rparr>\<rparr>)"

definition im_new :: "int option list \<Rightarrow> im_state" where
  "im_new os = \<lparr>im_sessions = SessionManager_new, im_groups = group_system_new, im_directs = \<lparr>tables = direct_tables_new, outcomes = os\<rparr>,
     im_accepting = True, im_conns = [], redisTasks = [], messageTasks = [], loopTasks = [], tick = 0, im_trace = []\<rparr>"

abbreviation reachable :: "im_env \<Rightarrow> group_deps \<Rightarrow> im_state \<Rightarrow> bool" where
  "reachable env deps S \<equiv> \<exists>os. (im_step env deps)\<^sup>*\<^sup>* (im_new os) S"

subsection \<open>Messages in the tables\<close>

abbreviation group_log :: "im_state \<Rightarrow> (nat \<times> message_row) list" where
  "group_log S \<equiv> group_messages (tables (store (im_groups S)))"

abbreviation direct_log :: "im_state \<Rightarrow> (nat \<times> direct_message_row) list" where
  "direct_log S \<equiv> direct_messages (tables (im_directs S))"

lemma stmt_messages:
  "insert_chat_group gid name own t = Inr (n, t') \<Longrightarrow> group_messages t' = group_messages t"
  "insert_head gid t = Inr (n, t') \<Longrightarrow> group_messages t' = group_messages t"
  "insert_cursor a gid t = Inr (n, t') \<Longrightarrow> group_messages t' = group_messages t"
  "insert_member gid a w t = Inr (n, t') \<Longrightarrow> group_messages t' = group_messages t"
  "insert_member_if_active gid a w t = Inr (n, t') \<Longrightarrow> group_messages t' = group_messages t"
  "insert_cursor_at_head a gid t = Inr (n, t') \<Longrightarrow> group_messages t' = group_messages t"
  "insert_request gid a msg now t = Inr (n, t') \<Longrightarrow> group_messages t' = group_messages t"
  "delete_handled cutoff limit t = Inr (n, t') \<Longrightarrow> group_messages t' = group_messages t"
  by (auto simp: insert_chat_group_def insert_head_def insert_cursor_def insert_member_def insert_member_if_active_def insert_cursor_at_head_def
      insert_request_def delete_handled_def Let_def split: if_splits option.splits)

lemmas stmt_messages_le = stmt_log_le [unfolded log_le_def, THEN conjunct1]

interpretation messages_kept: table_invariant "\<lambda>t. group_messages t = G" for G
proof
  fix t gid a w st t' assume "group_messages t = G" "may t (sql_addMember gid a w) st t'"
  then show "group_messages t' = G" by (auto simp: sql_addMember_def split: if_splits dest!: stmt_messages)
next
  fix t gid a w st t' assume "group_messages t = G" "may t (sql_updateMemberRole gid a w) st t'"
  then show "group_messages t' = G" by (auto simp: sql_updateMemberRole_def sql_isMember_def split: if_splits dest!: stmt_messages_le)
next
  fix t gid old new st t' assume "group_messages t = G" "may t (sql_transferOwner gid old new) st t'"
  then show "group_messages t' = G" by (auto simp: sql_transferOwner_def split: if_splits dest!: stmt_messages_le)
next
  fix t gid name own st t' assume "group_messages t = G" "may t (sql_createGroupWithOwner gid name own) st t'"
  then show "group_messages t' = G" by (auto simp: sql_createGroupWithOwner_def split: if_splits dest!: stmt_messages)
next
  fix t gid a st t' assume "group_messages t = G" "may t (sql_removeMember gid a) st t'"
  then show "group_messages t' = G" by (auto simp: sql_removeMember_def sql_groupExists_def split: if_splits dest!: stmt_messages_le)
next
  fix t gid own at d t' assume "group_messages t = G" "may t (sql_dissolveGroup gid own at) d t'"
  then show "group_messages t' = G"
    by (auto simp: sql_dissolveGroup_def split: if_splits option.splits list.splits GroupStatus.splits dest!: stmt_messages_le)
qed simp

lemma review_messages:
  assumes "may t (sql_review gid a reviewer approve mx now) (st, v) t'"
  shows "group_messages t' = group_messages t"
  using assms
proof (cases rule: sql_review_cases)
  case (rejected row n)
  from stmt_messages_le(12) [OF rejected(3) [unfolded settle_request_def]] show ?thesis .
next
  case (approved row n1 t1 n2 t2 n3)
  from stmt_messages(5) [OF approved(4)] stmt_messages(6) [OF approved(6)] stmt_messages_le(12) [OF approved(8) [unfolded settle_request_def]]
  show ?thesis by simp
qed simp

lemma join_step_messages:
  assumes "join_step deps S S'"
  shows "group_messages (tables (store S')) = group_messages (tables (store S))"
  using assms
proof (induction rule: join_step.induct)
  case (group S S')
  then show ?case using messages_kept.group_step_keeps by blast
next
  case (submitted gid a message now S r S')
  have "may t (sql_submit gid a message now) r t' \<Longrightarrow> group_messages t' = group_messages t" for t t'
    by (auto simp: sql_submit_def reopen_request_def split: if_splits option.splits list.splits GroupJoinRequestStatus.splits dest!: stmt_messages stmt_messages_le)
  with applyToJoin_may [OF submitted] show ?case by auto
next
  case (reviewed clockMs gid a reviewer approve now S r S')
  have "svc_keeps (\<lambda>t. group_messages t = G) (reviewRequest deps clockMs gid a reviewer approve now)" for G
    unfolding reviewRequest_def join_reloadGroup_def
    by (auto split: prod.splits option.splits intro!: svc_keeps_store) (metis review_messages surj_pair)
  with reviewed show ?case unfolding svc_keeps_def by blast
next
  case (cleaned cutoff limit S r S')
  with cleaned_may [OF cleaned] show ?case by (auto dest: stmt_messages)
qed

lemma group_read_messages:
  assumes "run_state (in_store (group_read_commit a gid i at)) S = (v, S')"
  shows "group_messages (tables (store S')) = group_messages (tables (store S))"
proof -
  from assms obtain d where d: "run_state (group_read_commit a gid i at) (store S) = (v, d)" "S' = S\<lparr>store := d\<rparr>" by (rule in_storeE)
  obtain st w where v: "v = (st, w)" by (cases v)
  have "tables d = tables (store S) \<or> may (tables (store S)) (commitGroup a gid i at) (RepoStatus.Ok, w) (tables d)"
    using mayI [OF d(1)] may_read_transaction [of "tables (store S)" "commitGroup a gid i at" st w "tables d"]
    by (auto simp: group_read_commit_def v split: if_splits)
  then show ?thesis by (auto simp: d(2) elim: commitGroup_cases)
qed

lemma group_persist_messages:
  assumes "run_state (in_store (group_persist cmd)) S = (r, S')"
  obtains (saved) "durable r" "group_messages (tables (store S')) = group_messages (tables (store S)) @ [(gc_msgId cmd, stored_message cmd (gw_groupSeq r))]"
    | (same) "\<not> durable r" "group_messages (tables (store S')) = group_messages (tables (store S))"
proof -
  from assms obtain d where d: "run_state (group_persist cmd) (store S) = (r, d)" "S' = S\<lparr>store := d\<rparr>" by (rule in_storeE)
  from group_persist_may [OF mayI [OF d(1)]] show thesis
  proof (elim disjE exE conjE)
    assume "tables d = tables (store S)" "gw_commitResult r \<noteq> RepoStatus.Ok"
    then show thesis by (intro same) (simp_all add: d(2) durable_def)
  next
    fix st v assume m: "may (tables (store S)) (group_commit cmd) (st, v) (tables d)"
      and r: "r = \<lparr>gw_commitResult = st, gw_groupSeq = (case v of Some n \<Rightarrow> if st = RepoStatus.Ok then n else 0 | None \<Rightarrow> 0)\<rparr>"
    from m show thesis
    proof (cases rule: group_commit_cases)
      case none
      then show ?thesis by (intro same) (simp_all add: r d(2) durable_def)
    next
      case (stored h cr h')
      then show ?thesis by (intro saved) (simp_all add: r d(2) durable_def)
    qed
  qed
qed

definition accounts_of :: "direct_tables \<Rightarrow> accountId list \<times> ((accountId \<times> accountId) \<times> nat) list" where
  "accounts_of t = (user_profiles t, friend_relations t)"

lemma direct_read_messages:
  assumes "run_state (direct_read_commit a b i at) D = (v, D')"
  shows "direct_messages (tables D') = direct_messages (tables D) \<and> accounts_of (tables D') = accounts_of (tables D)"
proof -
  obtain st w where v: "v = (st, w)" by (cases v)
  from direct_read_commit_may [OF mayI [OF assms [unfolded v]]] show ?thesis
  proof (elim disjE conjE)
    assume "may (tables D) (commitDirect a b i at) (RepoStatus.Ok, w) (tables D')"
    then show ?thesis
    proof (cases rule: commitDirect_cases)
      case (moved row m)
      show ?thesis by (simp add: moved(6) accounts_of_def)
    qed simp
  qed simp
qed

lemma stmt_accounts:
  "insert_direct_message c t = Inr (n, t') \<Longrightarrow> accounts_of t' = accounts_of t"
  "upsert_sender c t = Inr (n, t') \<Longrightarrow> accounts_of t' = accounts_of t"
  "upsert_receiver c t = Inr (n, t') \<Longrightarrow> accounts_of t' = accounts_of t"
  "insert_pending_delivery c t = Inr (n, t') \<Longrightarrow> accounts_of t' = accounts_of t"
  by (auto simp: insert_direct_message_def upsert_sender_def upsert_receiver_def insert_pending_delivery_def accounts_of_def Let_def split: if_splits)

lemma direct_persist_accounts:
  assumes "run_state (direct_persist cmd) D = (st, D')"
  shows "accounts_of (tables D') = accounts_of (tables D)"
  using mayI [OF assms] by (auto simp: direct_persist_def direct_commit_def dest!: stmt_accounts split: if_splits)

lemma direct_persist_unknown:
  assumes "run_state (direct_persist cmd) D = (st, D')"
    and "dc_receiverAccountId cmd \<notin> set (user_profiles (tables D)) \<or> (\<forall>st. ((dc_senderAccountId cmd, dc_receiverAccountId cmd), st) \<notin> set (friend_relations (tables D)))"
  shows "st \<noteq> RepoStatus.Ok \<and> tables D' = tables D"
  using mayI [OF assms(1)] assms(2)
  by (auto simp: direct_persist_def direct_commit_def filter_empty_conv split: if_splits)

subsection \<open>Tickets\<close>

text \<open>Requests received and answered according to the trace, and requests under way.\<close>

definition received :: "im_state \<Rightarrow> ticket multiset" where
  "received S = sum_list (map event_received (im_trace S))"

definition replied :: "im_state \<Rightarrow> ticket multiset" where
  "replied S = sum_list (map event_replied (im_trace S))"

definition pending :: "im_state \<Rightarrow> ticket multiset" where
  "pending S = mset (map (redis_ticket \<circ> snd) (redisTasks S)) + mset (map (message_ticket \<circ> snd) (messageTasks S)) + mset (map loop_ticket (loopTasks S))"

definition tickets_ok :: "ticket multiset \<Rightarrow> im_state \<Rightarrow> bool" where
  "tickets_ok X S \<longleftrightarrow> replied S + pending S + X \<subseteq># received S"

lemma tickets_weaken: "tickets_ok X S \<Longrightarrow> Y \<subseteq># X \<Longrightarrow> tickets_ok Y S"
  unfolding tickets_ok_def by (meson subset_mset.add_left_mono subset_mset.order_trans)

lemma tickets_base:
  "received (base S rt mt ev n) = received S + sum_list (map event_received ev)"
  "replied (base S rt mt ev n) = replied S + sum_list (map event_replied ev)"
  "pending (base S rt mt ev n) = pending S + mset (map (redis_ticket \<circ> snd) rt) + mset (map (message_ticket \<circ> snd) mt)"
  by (simp_all add: received_def replied_def pending_def)

lemma tickets_disposes:
  assumes "disposes env tk S S'" "tickets_ok (add_mset tk X) S"
  shows "tickets_ok X S'"
  using assms(1)
proof cases
  case (dropped n)
  with tickets_weaken [OF assms(2), of X] show ?thesis by (simp add: tickets_ok_def tickets_base)
qed (use assms(2) in \<open>simp_all add: tickets_ok_def tickets_base\<close>)

lemma tickets_announces:
  assumes "announces tk ok ts P ty i ev" "tickets_ok (add_mset tk X) S"
  shows "tickets_ok X (base S [] [] ev n)"
  using assms(1)
proof cases
  case nothing
  with tickets_weaken [OF assms(2), of X] show ?thesis by (simp add: tickets_ok_def tickets_base)
next
  case (pushed p)
  with tickets_weaken [OF assms(2), of X] show ?thesis by (simp add: tickets_ok_def tickets_base)
qed (use assms(2) in \<open>simp_all add: tickets_ok_def tickets_base\<close>)

lemma tickets_post:
  assumes "tickets_ok (add_mset (loop_ticket task) X) S"
  shows "tickets_ok X (post env task S)"
proof (cases "postAt env (tick S)")
  case True
  with assms show ?thesis by (simp add: post_def tickets_ok_def received_def replied_def pending_def consult_def)
next
  case False
  with tickets_weaken [OF assms, of X] show ?thesis by (simp add: post_def tickets_ok_def received_def replied_def pending_def consult_def)
qed

lemma tickets_frame:
  "im_trace S' = im_trace S \<Longrightarrow> redisTasks S' = redisTasks S \<Longrightarrow> messageTasks S' = messageTasks S \<Longrightarrow> loopTasks S' = loopTasks S \<Longrightarrow>
   tickets_ok X S \<Longrightarrow> tickets_ok X S'"
  by (simp add: tickets_ok_def received_def replied_def pending_def)

subsection \<open>Invariants\<close>

definition increasing :: "im_env \<Rightarrow> bool" where
  "increasing env \<longleftrightarrow> (\<forall>m n i j. m < n \<longrightarrow> idAt env m = Inr i \<longrightarrow> idAt env n = Inr j \<longrightarrow> i < j)"

lemma given_less: "increasing env \<Longrightarrow> given env lo n i \<Longrightarrow> given env n hi j \<Longrightarrow> i < j"
  unfolding given_def increasing_def by (meson less_le_trans unat_mono)

lemma given_mono: "given env lo hi i \<Longrightarrow> lo' \<le> lo \<Longrightarrow> hi \<le> hi' \<Longrightarrow> given env lo' hi' i"
  unfolding given_def by (elim exE conjE) (metis le_trans less_le_trans)

text \<open>Tasks come from checked contexts, and the identifiers of messages were generated.\<close>

definition tasks_ok :: "im_env \<Rightarrow> im_state \<Rightarrow> bool" where
  "tasks_ok env S \<longleftrightarrow> (\<forall>x \<in> set (redisTasks S). redis_ok env (snd x)) \<and>
     (\<forall>x \<in> set (messageTasks S). message_ok env x \<and> given env 0 (tick S) (message_id (snd x))) \<and>
     (\<forall>t r. LimitDone t r \<in> set (loopTasks S) \<longrightarrow> redis_ok env t)"

text \<open>Waiting messages are in the order of their identifiers, which are greater than those already stored in the same conversation.\<close>

definition before_task :: "(nat \<times> message_row) list \<Rightarrow> (nat \<times> direct_message_row) list \<Rightarrow> message_task \<Rightarrow> bool" where
  "before_task gs ds task \<longleftrightarrow> (case task of
       SaveGroup _ cmd \<Rightarrow> \<forall>(i, m) \<in> set gs. msg_group_id m = gc_groupId cmd \<longrightarrow> i < gc_msgId cmd
     | SaveDirect _ cmd \<Rightarrow> \<forall>(i, m) \<in> set ds. dm_conversation_key m = dc_conversationKey cmd \<longrightarrow> i < dc_msgId cmd)"

definition order_ok :: "im_env \<Rightarrow> im_state \<Rightarrow> bool" where
  "order_ok env S \<longleftrightarrow> sorted_wrt (<) (map (message_id \<circ> snd) (messageTasks S)) \<and>
     (\<forall>x \<in> set (messageTasks S). before_task (group_log S) (direct_log S) (snd x)) \<and>
     (\<forall>(i, m) \<in> set (group_log S). given env 0 (tick S) i) \<and> (\<forall>(i, m) \<in> set (direct_log S). given env 0 (tick S) i)"

text \<open>A completion that reports a message as saved, and an event that shows one, are about messages in the tables.\<close>

fun completion_true :: "(nat \<times> message_row) set \<Rightarrow> (nat \<times> direct_message_row) set \<Rightarrow> loop_task \<Rightarrow> bool" where
  "completion_true G D (LimitDone _ _) = True"
| "completion_true G D (GroupSaved _ cmd r) = (durable r \<longrightarrow> (gc_msgId cmd, stored_message cmd (gw_groupSeq r)) \<in> G)"
| "completion_true G D (DirectSaved _ cmd st) = (st = RepoStatus.Ok \<longrightarrow> (dc_msgId cmd, direct_row cmd) \<in> D)"

definition push_true :: "(nat \<times> message_row) set \<Rightarrow> (nat \<times> direct_message_row) set \<Rightarrow> response \<Rightarrow> bool" where
  "push_true G D p \<longleftrightarrow> (resp_type p = GROUP_MSG_PUSH \<longrightarrow> (\<exists>cmd n. group_shown cmd n p \<and> (gc_msgId cmd, stored_message cmd n) \<in> G)) \<and>
     (resp_type p = DM_PUSH \<longrightarrow> (\<exists>cmd. direct_shown cmd p \<and> (dc_msgId cmd, direct_row cmd) \<in> D))"

lemma push_trueI:
  "group_shown cmd n p \<Longrightarrow> (gc_msgId cmd, stored_message cmd n) \<in> G \<Longrightarrow> push_true G D p"
  "direct_shown cmd' p \<Longrightarrow> (dc_msgId cmd', direct_row cmd') \<in> D \<Longrightarrow> push_true G D p"
proof -
  assume "group_shown cmd n p" "(gc_msgId cmd, stored_message cmd n) \<in> G"
  moreover from this have "resp_type p = GROUP_MSG_PUSH" by (simp add: group_shown_def)
  ultimately show "push_true G D p" by (auto simp: push_true_def)
next
  assume "direct_shown cmd' p" "(dc_msgId cmd', direct_row cmd') \<in> D"
  moreover from this have "resp_type p = DM_PUSH" by (simp add: direct_shown_def)
  ultimately show "push_true G D p" by (auto simp: push_true_def)
qed

definition reply_true :: "(nat \<times> message_row) set \<Rightarrow> (nat \<times> direct_message_row) set \<Rightarrow> response \<Rightarrow> bool" where
  "reply_true G D r \<longleftrightarrow>
     (resp_type r = GROUP_MSG_RESP \<longrightarrow> (\<exists>i m. field ''msgId'' (resp_data r) = Some (jnum i) \<and> (i, m) \<in> G)) \<and>
     (resp_type r = DM_RESP \<longrightarrow> (\<exists>i m. field ''msgId'' (resp_data r) = Some (jnum i) \<and> (i, m) \<in> D))"

fun event_true :: "(nat \<times> message_row) set \<Rightarrow> (nat \<times> direct_message_row) set \<Rightarrow> im_event \<Rightarrow> bool" where
  "event_true G D (Pushed ts p) = push_true G D p"
| "event_true G D (Replied k q r) = reply_true G D r"
| "event_true G D _ = True"

definition told_ok :: "im_state \<Rightarrow> bool" where
  "told_ok S \<longleftrightarrow> (\<forall>t \<in> set (loopTasks S). completion_true (set (group_log S)) (set (direct_log S)) t) \<and>
     (\<forall>e \<in> set (im_trace S). event_true (set (group_log S)) (set (direct_log S)) e)"

lemma completion_true_mono: "completion_true G D t \<Longrightarrow> G \<subseteq> G' \<Longrightarrow> D \<subseteq> D' \<Longrightarrow> completion_true G' D' t"
  by (cases t) auto

lemma event_true_mono: "event_true G D e \<Longrightarrow> G \<subseteq> G' \<Longrightarrow> D \<subseteq> D' \<Longrightarrow> event_true G' D' e"
  by (cases e) (auto simp: push_true_def reply_true_def, (blast+)?)

lemma told_ok_mono:
  assumes "told_ok S" "set (group_log S) \<subseteq> set (group_log S')" "set (direct_log S) \<subseteq> set (direct_log S')"
    "loopTasks S' = loopTasks S" "im_trace S' = im_trace S"
  shows "told_ok S'"
  using assms completion_true_mono event_true_mono unfolding told_ok_def by metis

text \<open>Contents that were stored are not empty and not longer than the configured length.\<close>

definition contents_ok :: "im_env \<Rightarrow> im_state \<Rightarrow> bool" where
  "contents_ok env S \<longleftrightarrow> (\<forall>(i, m) \<in> set (group_log S). msg_content m \<noteq> [] \<and> length (msg_content m) \<le> maxMessageLen env) \<and>
     (\<forall>(i, m) \<in> set (direct_log S). dm_content m \<noteq> [] \<and> length (dm_content m) \<le> maxMessageLen env)"

definition accounts_ok :: "im_state \<Rightarrow> bool" where
  "accounts_ok S \<longleftrightarrow> (\<forall>a \<in> set (user_profiles (tables (im_directs S))). named a) \<and>
     (\<forall>(p, st) \<in> set (friend_relations (tables (im_directs S))). fst p \<noteq> snd p)"

definition flow_ok :: "im_env \<Rightarrow> im_state \<Rightarrow> bool" where
  "flow_ok env S \<longleftrightarrow> tasks_ok env S \<and> order_ok env S \<and> told_ok S \<and> contents_ok env S \<and> accounts_ok S \<and> sessions_named (im_sessions S)"

lemma tasks_okD:
  "tasks_ok env S \<Longrightarrow> (k, t) \<in> set (redisTasks S) \<Longrightarrow> redis_ok env t"
  "tasks_ok env S \<Longrightarrow> x \<in> set (messageTasks S) \<Longrightarrow> message_ok env x \<and> given env 0 (tick S) (message_id (snd x))"
  "tasks_ok env S \<Longrightarrow> LimitDone t r \<in> set (loopTasks S) \<Longrightarrow> redis_ok env t"
  unfolding tasks_ok_def by fastforce+

text \<open>A later time keeps the invariants about identifiers.\<close>

lemma tasks_ok_later:
  assumes "tasks_ok env S" "tick S \<le> n" "\<forall>x \<in> set rt. redis_ok env (snd x)"
    "\<forall>x \<in> set mt. message_ok env x \<and> given env (tick S) n (message_id (snd x))"
  shows "tasks_ok env (base S rt mt ev n)"
  using assms given_mono [of env 0 "tick S" _ 0 n] given_mono [of env "tick S" n _ 0 n] unfolding tasks_ok_def by auto

lemma order_ok_later:
  assumes "order_ok env S" "tasks_ok env S" "increasing env" "tick S \<le> n" "length mt \<le> 1" "\<forall>x \<in> set mt. given env (tick S) n (message_id (snd x))"
  shows "order_ok env (base S rt mt ev n)"
proof -
  have new: "i < message_id (snd x)" if "given env 0 (tick S) i" "x \<in> set mt" for i x
    using given_less [OF assms(3) that(1)] assms(6) that(2) by blast
  have "sorted_wrt (<) (map (message_id \<circ> snd) (messageTasks S @ mt))"
    using assms(1,2,5) new by (cases mt) (auto simp: order_ok_def sorted_wrt_append tasks_ok_def)
  moreover have "before_task (group_log S) (direct_log S) (snd x)" if x: "x \<in> set mt" for x
  proof -
    have "(i, g) \<in> set (group_log S) \<Longrightarrow> i < message_id (snd x)" "(i, d) \<in> set (direct_log S) \<Longrightarrow> i < message_id (snd x)" for i g d
      using assms(1) new [OF _ x, of i] by (auto simp: order_ok_def)
    then show ?thesis by (cases "snd x") (auto simp: before_task_def)
  qed
  moreover have "(i, g) \<in> set (group_log S) \<Longrightarrow> given env 0 n i" "(i, d) \<in> set (direct_log S) \<Longrightarrow> given env 0 n i" for i g d
    using assms(1,4) given_mono [of env 0 "tick S" i 0 n] by (auto simp: order_ok_def)
  ultimately show ?thesis using assms(1) by (auto simp: order_ok_def)
qed

lemma flow_ok_base:
  assumes "flow_ok env S" "increasing env" "tick S \<le> n" "\<forall>x \<in> set rt. redis_ok env (snd x)" "length mt \<le> 1"
    "\<forall>x \<in> set mt. message_ok env x \<and> given env (tick S) n (message_id (snd x))"
    "\<forall>e \<in> set ev. event_true (set (group_log S)) (set (direct_log S)) e"
  shows "flow_ok env (base S rt mt ev n)"
proof -
  note ok = assms(1) [unfolded flow_ok_def]
  have "tasks_ok env (base S rt mt ev n)" using ok assms(3,4,6) by (intro tasks_ok_later) auto
  moreover have "order_ok env (base S rt mt ev n)" using ok assms(2,3,5,6) by (intro order_ok_later) auto
  moreover have "told_ok (base S rt mt ev n)" using ok assms(7) by (auto simp: told_ok_def)
  ultimately show ?thesis using ok by (simp add: flow_ok_def contents_ok_def accounts_ok_def)
qed

lemma reply_trueI:
  "resp_type r = GROUP_MSG_RESP \<Longrightarrow> field ''msgId'' (resp_data r) = Some (jnum i) \<Longrightarrow> (i, m) \<in> G \<Longrightarrow> reply_true G D r"
  "resp_type r = DM_RESP \<Longrightarrow> field ''msgId'' (resp_data r) = Some (jnum i) \<Longrightarrow> (i, m') \<in> D \<Longrightarrow> reply_true G D r"
  by (auto simp: reply_true_def)

lemma other_event_true: "other_event e \<Longrightarrow> event_true G D e"
  by (cases e) (simp_all add: push_true_def reply_true_def)

lemma flow_disposes:
  assumes "disposes env tk S S'" "flow_ok env S" "increasing env"
  shows "flow_ok env S'"
  using assms(1)
proof cases
  case (dropped n)
  with assms(2,3) show ?thesis by (auto intro: flow_ok_base)
next
  case (refused n resp)
  with assms(2,3) show ?thesis by (auto intro!: flow_ok_base simp: reply_true_def)
next
  case (limited n task k)
  with assms(2,3) show ?thesis by (auto intro!: flow_ok_base)
next
  case (saving n k task)
  with assms(2,3) show ?thesis by (auto intro!: flow_ok_base)
qed

lemma flow_announces:
  assumes "announces tk ok ts P ty i ev" "flow_ok env S" "increasing env" "tick S \<le> n"
    and "\<And>p. ok \<Longrightarrow> P p \<Longrightarrow> push_true (set (group_log S)) (set (direct_log S)) p"
    and "\<And>r. ok \<Longrightarrow> resp_type r = ty \<Longrightarrow> field ''msgId'' (resp_data r) = Some (jnum i) \<Longrightarrow> reply_true (set (group_log S)) (set (direct_log S)) r"
  shows "flow_ok env (base S [] [] ev n)"
proof -
  have "\<forall>e \<in> set ev. event_true (set (group_log S)) (set (direct_log S)) e"
    using assms(1)
  proof cases
    case (failed r)
    then show ?thesis by (simp add: reply_true_def)
  qed (use assms(5,6) in simp_all)
  with assms(2-4) show ?thesis by (intro flow_ok_base) auto
qed

lemma loop_task_flow:
  assumes "flow_ok env S" "increasing env" "loopTasks S = task # ts"
  shows "flow_ok env (run_loop_task env task (S\<lparr>loopTasks := ts\<rparr>))"
proof -
  let ?S = "S\<lparr>loopTasks := ts\<rparr>"
  have ok: "flow_ok env ?S"
    using assms(1,3) by (auto simp: flow_ok_def tasks_ok_def order_ok_def told_ok_def contents_ok_def accounts_ok_def)
  have true: "completion_true (set (group_log S)) (set (direct_log S)) task" using assms(1,3) by (simp add: flow_ok_def told_ok_def)
  have checked: "redis_ok env t" if "task = LimitDone t r" for t r using assms(1,3) that by (auto simp: flow_ok_def tasks_ok_def)
  show ?thesis
  proof (cases "(env, task, ?S)" rule: run_loop_task.cases)
    case (1 e ctx r S)
    with checked flow_disposes [OF group_limit_disposes ok assms(2)] show ?thesis by auto
  next
    case (2 e ctx r S)
    with checked flow_disposes [OF direct_limit_disposes ok assms(2)] show ?thesis by auto
  next
    case (3 e ctx cmd r S')
    from completeGroup_announces [of env ctx cmd r ?S] obtain ev m where e: "completeGroupMessage env ctx cmd r ?S = base ?S [] [] ev m" "tick ?S \<le> m"
      "announces (pg_senderKey ctx, pg_request ctx) (durable r)
       (collectGroupTargets (gc_groupId cmd) (pg_senderKey ctx) (manager (im_groups ?S)) (im_sessions ?S))
       (group_shown cmd (gw_groupSeq r)) GROUP_MSG_RESP (gc_msgId cmd) ev" by blast
    have "flow_ok env (base ?S [] [] ev m)"
      by (rule flow_announces [OF e(3) ok assms(2) e(2)]) (use true 3 in \<open>auto intro: push_trueI(1) reply_trueI(1)\<close>)
    with 3 e(1) show ?thesis by simp
  next
    case (4 e ctx cmd st S')
    from completeDirect_announces [of env ctx cmd st ?S] obtain ev m where e: "completeDirectMessage env ctx cmd st ?S = base ?S [] [] ev m" "tick ?S \<le> m"
      "announces (pd_senderKey ctx, pd_request ctx) (st = RepoStatus.Ok) (connKeysByAccountId (dc_receiverAccountId cmd) (im_sessions ?S))
       (direct_shown cmd) DM_RESP (dc_msgId cmd) ev" by blast
    have "flow_ok env (base ?S [] [] ev m)"
      by (rule flow_announces [OF e(3) ok assms(2) e(2)]) (use true 4 in \<open>auto intro: push_trueI(2) reply_trueI(2)\<close>)
    with 4 e(1) show ?thesis by simp
  qed
qed

subsection \<open>Saving\<close>

lemma completion_post:
  assumes "flow_ok env S" "increasing env" "completion_true (set (group_log S)) (set (direct_log S)) task"
    "\<And>t r. task = LimitDone t r \<Longrightarrow> redis_ok env t"
  shows "flow_ok env (post env task S)"
proof -
  have "flow_ok env (base S [] [] [] (tick S + 1))" using assms(1,2) by (intro flow_ok_base) auto
  then have "flow_ok env ((base S [] [] [] (tick S + 1))\<lparr>loopTasks := loopTasks S @ [task]\<rparr>)"
    using assms(3,4) by (auto simp: flow_ok_def tasks_ok_def order_ok_def told_ok_def contents_ok_def accounts_ok_def)
  with \<open>flow_ok env (base S [] [] [] (tick S + 1))\<close> show ?thesis by (simp add: post_def consult_base)
qed

lemma flow_ok_drop_task:
  assumes "flow_ok env S" "messageTasks S = xs @ x # ys"
  shows "flow_ok env (S\<lparr>messageTasks := xs @ ys\<rparr>)"
  using assms by (auto simp: flow_ok_def tasks_ok_def order_ok_def told_ok_def contents_ok_def accounts_ok_def sorted_wrt_append)

lemma first_of_key:
  assumes "sorted_wrt (<) (map f (xs @ x # ys))" "y \<in> set (xs @ ys)" "y \<notin> set xs"
  shows "f x < f y"
  using assms by (auto simp: sorted_wrt_append)

text \<open>A task that runs is the first of its conversation: those that wait for the same one have greater identifiers.\<close>

lemma waiting_later:
  assumes "flow_ok env S" "messageTasks S = xs @ (k, task) # ys" "k \<notin> fst ` set xs" "x \<in> set (xs @ ys)" "fst x = k"
  shows "message_id task < message_id (snd x)"
  using first_of_key [of "message_id \<circ> snd" xs "(k, task)" ys x] assms by (force simp: flow_ok_def order_ok_def)

lemma save_group_flow:
  assumes ok: "flow_ok env S" and "increasing env" "messageTasks S = xs @ (k, SaveGroup ctx cmd) # ys" "k \<notin> fst ` set xs"
  shows "flow_ok env (run_message_task env (SaveGroup ctx cmd) (S\<lparr>messageTasks := xs @ ys\<rparr>))"
proof -
  let ?S = "S\<lparr>messageTasks := xs @ ys\<rparr>"
  obtain r G where r: "run_state (in_store (group_persist cmd)) (im_groups ?S) = (r, G)" by (cases "run_state (in_store (group_persist cmd)) (im_groups ?S)")
  let ?S1 = "?S\<lparr>im_groups := G\<rparr>"
  have S: "flow_ok env ?S" using flow_ok_drop_task [OF ok assms(3)] .
  have m: "message_ok env (k, SaveGroup ctx cmd)" "given env 0 (tick S) (gc_msgId cmd)"
    using ok assms(3) tasks_okD(2) [of env S "(k, SaveGroup ctx cmd)"] by (simp_all add: flow_ok_def)
  have c: "gc_content cmd \<noteq> [] \<and> length (gc_content cmd) \<le> maxMessageLen env" using m(1) by (simp add: group_ctx_ok_def)
  have later: "before_task (group_log S @ [(gc_msgId cmd, stored_message cmd n)]) (direct_log S) (snd x)" if x: "x \<in> set (xs @ ys)" for x n
  proof -
    have old: "before_task (group_log S) (direct_log S) (snd x)" using S x by (auto simp: flow_ok_def order_ok_def)
    have "fst x = k" if "snd x = SaveGroup c cmd'" "gc_groupId cmd' = gc_groupId cmd" for c cmd'
      using ok assms(3) x that m(1) tasks_okD(2) [of env S x] by (cases x) (auto simp: flow_ok_def)
    with waiting_later [OF ok assms(3,4) x] old show ?thesis by (cases "snd x") (auto simp: before_task_def stored_message_def)
  qed
  have le: "set (group_log ?S) \<subseteq> set (group_log ?S1)" "completion_true (set (group_log ?S1)) (set (direct_log ?S1)) (GroupSaved ctx cmd r)"
    and contents: "contents_ok env ?S1" and order: "order_ok env ?S1"
    using r S c m(2) later by (cases rule: group_persist_messages; auto simp: flow_ok_def contents_ok_def order_ok_def stored_message_def)+
  have "told_ok ?S1" by (rule told_ok_mono [of ?S]) (use S le in \<open>auto simp: flow_ok_def\<close>)
  with S contents order have "flow_ok env ?S1" by (simp add: flow_ok_def tasks_ok_def accounts_ok_def)
  from completion_post [OF this assms(2) le(2)] r show ?thesis by simp
qed

lemma save_direct_tables:
  assumes ok: "flow_ok env S" and q: "messageTasks S = xs @ (k, SaveDirect ctx cmd) # ys"
    and r: "run_state (direct_persist cmd) (im_directs S) = (st, D)"
  obtains (same) "st \<noteq> RepoStatus.Ok" "tables D = tables (im_directs S)"
    | (saved) "st = RepoStatus.Ok" "well_formed (tables (im_directs S)) cmd" "direct_messages (tables D) = direct_log S @ [(dc_msgId cmd, direct_row cmd)]"
proof -
  let ?t = "tables (im_directs S)" let ?s = "dc_senderAccountId cmd" let ?r = "dc_receiverAccountId cmd"
  have m: "message_ok env (k, SaveDirect ctx cmd)" using ok q tasks_okD(2) [of env S "(k, SaveDirect ctx cmd)"] by (simp add: flow_ok_def)
  have b: "before_task (group_log S) (direct_log S) (SaveDirect ctx cmd)" using ok q by (simp add: flow_ok_def order_ok_def)
  show thesis
  proof (cases "?r \<in> set (user_profiles ?t) \<and> (\<exists>x. ((?s, ?r), x) \<in> set (friend_relations ?t))")
    case False
    with direct_persist_unknown [OF r] same show ?thesis by blast
  next
    case True
    have n: "named ?r" "?s \<noteq> ?r" using True ok by (fastforce simp: flow_ok_def accounts_ok_def)+
    have w: "well_formed ?t cmd" using m n b by (simp add: well_formed_def direct_ctx_ok_def before_task_def)
    from mayI [OF r] n(2) show ?thesis
    proof (cases rule: direct_persist_cases)
      case none
      with same show ?thesis by blast
    next
      case (stored at)
      with saved w show ?thesis by blast
    qed
  qed
qed

lemma save_direct_flow:
  assumes ok: "flow_ok env S" and inc: "increasing env" and q: "messageTasks S = xs @ (k, SaveDirect ctx cmd) # ys" "k \<notin> fst ` set xs"
  shows "flow_ok env (run_message_task env (SaveDirect ctx cmd) (S\<lparr>messageTasks := xs @ ys\<rparr>))"
proof -
  let ?S = "S\<lparr>messageTasks := xs @ ys\<rparr>"
  obtain st D where r: "run_state (direct_persist cmd) (im_directs S) = (st, D)" by (cases "run_state (direct_persist cmd) (im_directs S)")
  let ?S1 = "?S\<lparr>im_directs := D\<rparr>"
  have S: "flow_ok env ?S" using flow_ok_drop_task [OF ok q(1)] .
  have m: "message_ok env (k, SaveDirect ctx cmd)" "given env 0 (tick S) (dc_msgId cmd)"
    using ok q(1) tasks_okD(2) [of env S "(k, SaveDirect ctx cmd)"] by (simp_all add: flow_ok_def)
  have acc: "accounts_ok ?S1" using S direct_persist_accounts [OF r] by (simp add: flow_ok_def accounts_ok_def accounts_of_def)
  from ok q(1) r have "flow_ok env ?S1 \<and> completion_true (set (group_log ?S1)) (set (direct_log ?S1)) (DirectSaved ctx cmd st)"
  proof (cases rule: save_direct_tables)
    case same
    then show ?thesis
      using S acc by (simp add: flow_ok_def tasks_ok_def order_ok_def told_ok_def contents_ok_def)
  next
    case saved
    have later: "before_task (group_log ?S1) (direct_log ?S1) (snd x)" if x: "x \<in> set (xs @ ys)" for x
    proof -
      have old: "before_task (group_log S) (direct_log S) (snd x)" using S x by (auto simp: flow_ok_def order_ok_def)
      have "dc_msgId cmd < message_id (snd x)" if "fst x = k" using waiting_later [OF ok q x that] by simp
      moreover have "fst x = k" if "snd x = SaveDirect c cmd'" "dc_conversationKey cmd' = dc_conversationKey cmd" for c cmd'
        using ok q(1) x that m(1) tasks_okD(2) [of env S x] by (cases x) (auto simp: flow_ok_def)
      ultimately show ?thesis using old by (cases "snd x") (auto simp: before_task_def saved(3) direct_row_def)
    qed
    have "order_ok env ?S1" using S later m(2) by (auto simp: flow_ok_def order_ok_def saved(3))
    moreover have "told_ok ?S1" by (rule told_ok_mono [of ?S]) (use S in \<open>auto simp: flow_ok_def saved(3)\<close>)
    moreover have "contents_ok env ?S1" using S m(1) by (auto simp: flow_ok_def contents_ok_def saved(3) direct_row_def direct_ctx_ok_def)
    ultimately show ?thesis using S acc by (simp add: flow_ok_def tasks_ok_def saved(3))
  qed
  with completion_post [OF _ inc, of ?S1 "DirectSaved ctx cmd st"] r show ?thesis by simp
qed

subsection \<open>Requests and sessions\<close>

lemma sessions_named_update:
  assumes "sessions_named m" "map_of (sessions m) key = Some s" "s_state s' = s_state s" "s_accountId s' = s_accountId s"
  shows "sessions_named (m\<lparr>sessions := AList.update key s' (sessions m)\<rparr>)"
proof -
  have "sessions_inv (m\<lparr>sessions := AList.update key s' (sessions m)\<rparr>)"
    using assms by (intro sessions_inv_rebind) (auto simp: sessions_named_def bound_def)
  moreover have "named (s_accountId x)" if "map_of (AList.update key s' (sessions m)) k = Some x" "s_state x = Authed" for k x
    using assms that unfolding sessions_named_def by (auto split: if_splits)
  ultimately show ?thesis by (simp add: sessions_named_def)
qed

lemma getOrCreate_named:
  assumes "sessions_named m" "getOrCreate key m = (s, m')"
  shows "sessions_named m'"
proof -
  have "sessions_inv m'" using assms getOrCreate_inv unfolding sessions_named_def by blast
  moreover have "named (s_accountId x)" if "map_of (sessions m') k = Some x" "s_state x = Authed" for k x
    using assms that unfolding sessions_named_def getOrCreate_def by (auto simp: Session_new_def split: option.splits if_splits)
  ultimately show ?thesis by (simp add: sessions_named_def)
qed

lemma login_named:
  assumes "sessions_named m" "named acc"
  shows "sessions_named (svc_login key uid acc name m)"
proof -
  obtain s m1 where g: "getOrCreate key m = (s, m1)" by (cases "getOrCreate key m")
  note m1 = getOrCreate_named [OF assms(1) g]
  have "sessions_inv (svc_login key uid acc name m)" using assms(1) svc_login_inv unfolding sessions_named_def by blast
  moreover have "named (s_accountId x)" if "map_of (sessions (svc_login key uid acc name m)) k = Some x" "s_state x = Authed" for k x
    using m1 assms(2) that unfolding sessions_named_def svc_login_def g bindUser_def by (auto simp: Let_def split: if_splits)
  ultimately show ?thesis by (simp add: sessions_named_def)
qed

lemma logout_named:
  assumes "sessions_named m"
  shows "sessions_named (svc_logout key m)"
proof -
  obtain s m1 where g: "getOrCreate key m = (s, m1)" by (cases "getOrCreate key m")
  note m1 = getOrCreate_named [OF assms g]
  have u: "sessions (unbindConn key m1) = sessions m1" by (auto simp: unbindConn_def Let_def split: option.splits)
  have "sessions_inv (svc_logout key m)" using assms svc_logout_inv unfolding sessions_named_def by blast
  moreover have "named (s_accountId x)" if "map_of (sessions (svc_logout key m)) k = Some x" "s_state x = Authed" for k x
    using m1 that unfolding sessions_named_def svc_logout_def g by (auto simp: Let_def u split: if_splits)
  ultimately show ?thesis by (simp add: sessions_named_def)
qed

lemma disconnect_named:
  assumes "sessions_named m"
  shows "sessions_named (onDisconnect key m)"
proof -
  have u: "sessions (unbindConn key m) = sessions m" by (auto simp: unbindConn_def Let_def split: option.splits)
  have "sessions_inv (onDisconnect key m)" using assms onDisconnect_inv unfolding sessions_named_def by blast
  moreover have "named (s_accountId x)" if "map_of (sessions (onDisconnect key m)) k = Some x" "s_state x = Authed" for k x
    using assms that unfolding sessions_named_def onDisconnect_def erase_session_def by (auto simp: u split: if_splits)
  ultimately show ?thesis by (simp add: sessions_named_def)
qed

lemma parse_error_state:
  assumes "sendParseErrorWithLog env key resp S = (x, S')"
  obtains ev n where "S' = base S [] [] ev n" "tick S \<le> n" "ev = [] \<or> (\<exists>r. ev = [Complained key r])"
proof -
  obtain y S1 where d: "decorate env None None resp S = (y, S1)" by (cases "decorate env None None resp S")
  from d show thesis
  proof (cases rule: decorate_cases)
    case (thrown e n)
    with d assms show ?thesis by (intro that [of "[]" n]) (auto simp: sendParseErrorWithLog_def)
  next
    case (decorated r n)
    obtain b S2 where b: "sendEncodedPayload env [key] (emit_event (Complained key r) S1) = (b, S2)"
      by (cases "sendEncodedPayload env [key] (emit_event (Complained key r) S1)")
    from sendEncodedPayload_state [OF b] obtain m where m: "S2 = base (emit_event (Complained key r) S1) [] [] [] m" "tick (emit_event (Complained key r) S1) \<le> m" .
    have "S' = S2" using assms d b decorated(1) by (simp add: sendParseErrorWithLog_def)
    with m decorated(3,4) show ?thesis by (intro that [of "[Complained key r]" m]) (simp_all add: emit_base)
  qed
qed

lemma request_cases:
  assumes "onMessage env parse (message_dispatch env) c key msg S = (u, S')" "sessions_named (im_sessions S)"
  obtains (refused) m ev n where "S' = base (S\<lparr>im_sessions := m\<rparr>) [] [] ev n" "tick S \<le> n" "sessions_named m" "ev = [] \<or> (\<exists>r. ev = [Complained key r])"
    | (accepted) m req where "sessions_named m" "disposes env (key, req) (emit_event (Received key req) (S\<lparr>im_sessions := m\<rparr>)) S'"
proof -
  obtain s0 m0 where g: "getOrCreate key (im_sessions S) = (s0, m0)" by (cases "getOrCreate key (im_sessions S)")
  define s where "s = (if s_peerIp s0 = [] then s0\<lparr>s_peerIp := fst (peerOf env c), s_peerPort := snd (peerOf env c)\<rparr> else s0)"
  define m where "m = m0\<lparr>sessions := AList.update key s (sessions m0)\<rparr>"
  have m0: "sessions_named m0" "map_of (sessions m0) key = Some s0" using getOrCreate_named [OF assms(2) g] getOrCreate_find [OF g] by simp_all
  have named: "sessions_named m" unfolding m_def by (rule sessions_named_update [OF m0]) (simp_all add: s_def)
  have same: "s_state s = s_state s0" "s_accountId s = s_accountId s0" by (simp_all add: s_def)
  have auth: "s_state s = Authed \<Longrightarrow> named (s_accountId s)" using m0 unfolding sessions_named_def same by blast
  have eq: "onMessage env parse (message_dispatch env) c key msg S =
     (let S1 = S\<lparr>im_sessions := m\<rparr> in case tryParse parse msg of Throws \<Rightarrow> (Inl TypeError, S1)
         | Refused resp \<Rightarrow> apfst (map_sum id (\<lambda>_. ())) (sendParseErrorWithLog env key resp S1)
         | Parsed req \<Rightarrow> answer_request env (message_dispatch env) c key s req (emit_event (Received key req) S1))"
    unfolding m_def s_def onMessage_def g Let_def by simp
  show thesis
  proof (cases "tryParse parse msg")
    case (Parsed req)
    with assms(1) eq have a: "answer_request env (message_dispatch env) c key s req (emit_event (Received key req) (S\<lparr>im_sessions := m\<rparr>)) = (u, S')"
      by (simp add: Let_def)
    have "disposes env (key, req) (emit_event (Received key req) (S\<lparr>im_sessions := m\<rparr>)) S'"
      by (rule answer_request_disposes [OF a])
        (use handleDm_handled [OF _ auth] handleGroup_handled in \<open>auto simp: message_dispatch_def split: if_splits\<close>)
    with accepted named show ?thesis by blast
  next
    case (Refused resp)
    obtain x S2 where p: "sendParseErrorWithLog env key resp (S\<lparr>im_sessions := m\<rparr>) = (x, S2)" by (cases "sendParseErrorWithLog env key resp (S\<lparr>im_sessions := m\<rparr>)")
    from p obtain ev n where e: "S2 = base (S\<lparr>im_sessions := m\<rparr>) [] [] ev n" "tick (S\<lparr>im_sessions := m\<rparr>) \<le> n" "ev = [] \<or> (\<exists>r. ev = [Complained key r])"
      by (rule parse_error_state)
    have "S' = S2" using assms(1) eq Refused p by (simp add: Let_def)
    with e named show ?thesis by (intro refused [of m ev n]) simp_all
  next
    case Throws
    with assms(1) eq named show ?thesis by (intro refused [of m "[]" "tick S"]) (auto simp: Let_def base_def)
  qed
qed

subsection \<open>Every step\<close>

lemma flow_frame:
  assumes "flow_ok env S" "sessions_named (im_sessions S')" "accounts_ok S'" "group_log S' = group_log S" "direct_log S' = direct_log S"
    "redisTasks S' = redisTasks S" "messageTasks S' = messageTasks S" "loopTasks S' = loopTasks S" "tick S' = tick S" "im_trace S' = im_trace S"
  shows "flow_ok env S'"
  using assms by (simp add: flow_ok_def tasks_ok_def order_ok_def told_ok_def contents_ok_def)

lemma request_flow:
  assumes "onMessage env parse (message_dispatch env) c key msg S = (u, S')" "flow_ok env S" "increasing env"
  shows "flow_ok env S'"
proof -
  have named: "sessions_named (im_sessions S)" using assms(2) by (simp add: flow_ok_def)
  have next_ok: "flow_ok env (S\<lparr>im_sessions := m\<rparr>)" if "sessions_named m" for m
    by (rule flow_frame [OF assms(2)]) (use assms(2) that in \<open>simp_all add: flow_ok_def accounts_ok_def\<close>)
  from assms(1) named show ?thesis
  proof (cases rule: request_cases)
    case (refused m ev n)
    have "flow_ok env (base (S\<lparr>im_sessions := m\<rparr>) [] [] ev n)"
      by (rule flow_ok_base [OF next_ok [OF refused(3)] assms(3)]) (use refused(2,4) in auto)
    with refused(1) show ?thesis by simp
  next
    case (accepted m req)
    have "flow_ok env (base (S\<lparr>im_sessions := m\<rparr>) [] [] [Received key req] (tick S))"
      by (rule flow_ok_base [OF next_ok [OF accepted(1)] assms(3)]) simp_all
    then have "flow_ok env (emit_event (Received key req) (S\<lparr>im_sessions := m\<rparr>))" by (simp add: emit_event_def base_def)
    from flow_disposes [OF accepted(2) this assms(3)] show ?thesis .
  qed
qed

lemma redis_flow:
  assumes "flow_ok env S" "increasing env" "redisTasks S = xs @ (k, task) # ys"
  shows "flow_ok env (run_redis_task env task (S\<lparr>redisTasks := xs @ ys\<rparr>))"
proof -
  let ?S = "S\<lparr>redisTasks := xs @ ys\<rparr>"
  have ok: "flow_ok env ?S" and task: "redis_ok env task"
    using assms(1,3) by (auto simp: flow_ok_def tasks_ok_def order_ok_def told_ok_def contents_ok_def accounts_ok_def)
  have "flow_ok env (base ?S [] [] [] (tick S + 1))" by (rule flow_ok_base [OF ok assms(2)]) simp_all
  moreover have "consult ?S = base ?S [] [] [] (tick S + 1)" by (simp add: consult_def base_def)
  ultimately have "flow_ok env (consult ?S)" by simp
  note posted = completion_post [OF this assms(2)]
  show ?thesis unfolding run_redis_task_def Let_def by (rule posted) (use task in simp_all)
qed

lemma im_step_flow:
  assumes "im_step env deps S S'" "flow_ok env S" "increasing env"
  shows "flow_ok env S'"
  using assms(1)
proof cases
  case (request c key cl parse msg u)
  from request_flow [OF request(3) assms(2,3)] show ?thesis .
next
  case (redis xs k task ys)
  with redis_flow [OF assms(2,3)] show ?thesis by simp
next
  case (message xs k task ys)
  with save_group_flow [OF assms(2,3)] save_direct_flow [OF assms(2,3)] show ?thesis by (cases task) auto
next
  case (loop task ts)
  with loop_task_flow [OF assms(2,3)] show ?thesis by simp
next
  case (other m n ev key req)
  have "flow_ok env (S\<lparr>im_sessions := m\<rparr>)"
    by (rule flow_frame [OF assms(2)]) (use assms(2) other(2) in \<open>simp_all add: flow_ok_def accounts_ok_def\<close>)
  then show ?thesis unfolding other(1) by (rule flow_ok_base [OF _ assms(3)]) (use other in \<open>auto intro: other_event_true\<close>)
next
  case discard
  with assms(2) show ?thesis by (simp add: flow_ok_def tasks_ok_def order_ok_def told_ok_def contents_ok_def accounts_ok_def)
next
  case (login acc key uid name)
  show ?thesis by (rule flow_frame [OF assms(2)]) (use assms(2) login login_named in \<open>simp_all add: flow_ok_def accounts_ok_def\<close>)
next
  case (membership G)
  show ?thesis by (rule flow_frame [OF assms(2)]) (use assms(2) membership join_step_messages in \<open>simp_all add: flow_ok_def accounts_ok_def\<close>)
next
  case (group_read a gid i at v G)
  show ?thesis by (rule flow_frame [OF assms(2)]) (use assms(2) group_read group_read_messages in \<open>simp_all add: flow_ok_def accounts_ok_def\<close>)
next
  case (direct_read a b i at v D)
  show ?thesis
    by (rule flow_frame [OF assms(2)]) (use assms(2) direct_read(1) direct_read_messages [OF direct_read(2)] in \<open>simp_all add: flow_ok_def accounts_ok_def accounts_of_def\<close>)
qed (use assms(2) logout_named disconnect_named in
  \<open>auto simp: flow_ok_def tasks_ok_def order_ok_def told_ok_def contents_ok_def accounts_ok_def\<close>)

lemma flow_new: "flow_ok env (im_new os)"
  by (simp add: flow_ok_def im_new_def tasks_ok_def order_ok_def told_ok_def contents_ok_def accounts_ok_def group_system_new_def
      Tables_new_def direct_tables_new_def sessions_named_def sessions_inv_new) (simp add: SessionManager_new_def)

lemma flow_reachable:
  assumes "reachable env deps S" "increasing env"
  shows "flow_ok env S"
proof -
  from assms(1) obtain os where "(im_step env deps)\<^sup>*\<^sup>* (im_new os) S" by blast
  then show ?thesis by (induction rule: rtranclp_induct) (use flow_new im_step_flow assms(2) in blast)+
qed

subsection \<open>Identifiers from the generator\<close>

text \<open>The outcome of the \<open>n\<close>-th call of the generator; a call that is still waiting has none.\<close>

fun ids_at :: "generator \<Rightarrow> clock \<Rightarrow> nat \<Rightarrow> id_error + u64" where
  "ids_at g clk 0 = (case nextId g clk of None \<Rightarrow> Inl MovedBackwards | Some (r, _, _) \<Rightarrow> r)"
| "ids_at g clk (Suc n) = (case nextId g clk of None \<Rightarrow> Inl MovedBackwards | Some (_, g', cs) \<Rightarrow> ids_at g' cs n)"

lemma ids_at_run: "ids_at g clk n = Inr i \<Longrightarrow> i \<in> set (run_ids (Suc n) g clk)"
proof (induction n arbitrary: g clk)
  case (Suc n)
  then obtain r g' cs where "nextId g clk = Some (r, g', cs)" "ids_at g' cs n = Inr i" by (auto split: option.splits)
  with Suc.IH [of g' cs] show ?case by (cases r) auto
qed (auto split: option.splits)

lemma ids_at_less:
  assumes "\<And>N. sorted_wrt (<) (run_ids N g clk)" "m < n" "ids_at g clk m = Inr i" "ids_at g clk n = Inr j"
  shows "i < j"
  using assms
proof (induction m arbitrary: g clk n)
  case 0
  then obtain k where n: "n = Suc k" by (cases n) auto
  from 0 obtain g' cs where "nextId g clk = Some (Inr i, g', cs)" "ids_at g' cs k = Inr j" by (auto simp: n split: option.splits)
  with ids_at_run [of g' cs k j] 0(1) [of "Suc (Suc k)"] show ?case by simp
next
  case (Suc m)
  then obtain k where n: "n = Suc k" by (cases n) auto
  from Suc.prems obtain r g' cs where x: "nextId g clk = Some (r, g', cs)" "ids_at g' cs m = Inr i" "ids_at g' cs k = Inr j"
    by (auto simp: n split: option.splits)
  have "sorted_wrt (<) (run_ids N g' cs)" for N using Suc.prems(1) [of "Suc N"] x(1) by (cases r) auto
  from Suc.IH [OF this _ x(2,3)] Suc.prems(2) show ?case by (simp add: n)
qed

lemma generator_increasing:
  assumes "newGenerator node epoch now0 = Inr g" "\<forall>c \<in> set clk. unat c < unat epoch + 2 ^ 42" "idAt env = ids_at g clk"
  shows "increasing env"
proof -
  have "sorted_wrt (<) (run_ids N g clk)" for N using run_ids_from newGenerator_ok [OF assms(1)] assms(2) by blast
  with ids_at_less [of g clk] show ?thesis unfolding increasing_def assms(3) by blast
qed

subsection \<open>Requests and answers\<close>

lemma request_tickets:
  assumes "onMessage env parse (message_dispatch env) c key msg S = (u, S')" "flow_ok env S" "tickets_ok X S"
  shows "tickets_ok X S'"
proof -
  have "sessions_named (im_sessions S)" using assms(2) by (simp add: flow_ok_def)
  with assms(1) show ?thesis
  proof (cases rule: request_cases)
    case (refused m ev n)
    with assms(3) show ?thesis by (auto simp: tickets_ok_def tickets_base received_def replied_def pending_def)
  next
    case (accepted m req)
    have "tickets_ok (add_mset (key, req) X) (emit_event (Received key req) (S\<lparr>im_sessions := m\<rparr>))"
      using assms(3) by (simp add: emit_event_def tickets_ok_def received_def replied_def pending_def add.assoc)
    from tickets_disposes [OF accepted(2) this] show ?thesis .
  qed
qed

lemma loop_tickets:
  assumes "flow_ok env S" "loopTasks S = task # ts" "tickets_ok X S"
  shows "tickets_ok X (run_loop_task env task (S\<lparr>loopTasks := ts\<rparr>))"
proof -
  let ?S = "S\<lparr>loopTasks := ts\<rparr>"
  have tk: "tickets_ok (add_mset (loop_ticket task) X) ?S"
    using assms(2,3) by (simp add: tickets_ok_def received_def replied_def pending_def)
  have checked: "redis_ok env t" if "task = LimitDone t r" for t r using assms(1,2) that by (auto simp: flow_ok_def tasks_ok_def)
  show ?thesis
  proof (cases "(env, task, ?S)" rule: run_loop_task.cases)
    case (1 e ctx r S)
    with checked tk tickets_disposes [OF group_limit_disposes] show ?thesis by auto
  next
    case (2 e ctx r S)
    with checked tk tickets_disposes [OF direct_limit_disposes] show ?thesis by auto
  next
    case (3 e ctx cmd r S')
    with tk completeGroup_announces [of env ctx cmd r ?S] tickets_announces show ?thesis by fastforce
  next
    case (4 e ctx cmd st S')
    with tk completeDirect_announces [of env ctx cmd st ?S] tickets_announces show ?thesis by fastforce
  qed
qed

lemma worker_tickets:
  assumes "tickets_ok X S"
  shows "redisTasks S = xs @ (k, t) # ys \<Longrightarrow> tickets_ok X (run_redis_task env t (S\<lparr>redisTasks := xs @ ys\<rparr>))"
    and "messageTasks S = xs' @ (k', t') # ys' \<Longrightarrow> tickets_ok X (run_message_task env t' (S\<lparr>messageTasks := xs' @ ys'\<rparr>))"
proof -
  assume "redisTasks S = xs @ (k, t) # ys"
  then have "tickets_ok (add_mset (redis_ticket t) X) (consult (S\<lparr>redisTasks := xs @ ys\<rparr>))"
    using assms by (simp add: consult_def tickets_ok_def received_def replied_def pending_def ac_simps)
  then show "tickets_ok X (run_redis_task env t (S\<lparr>redisTasks := xs @ ys\<rparr>))"
    unfolding run_redis_task_def Let_def by (intro tickets_post) simp
next
  assume q: "messageTasks S = xs' @ (k', t') # ys'"
  have drop: "tickets_ok (add_mset (message_ticket t') X) (S\<lparr>messageTasks := xs' @ ys', im_groups := G\<rparr>)"
    "tickets_ok (add_mset (message_ticket t') X) (S\<lparr>messageTasks := xs' @ ys', im_directs := D\<rparr>)" for G D
    using assms q by (simp_all add: tickets_ok_def received_def replied_def pending_def ac_simps)
  show "tickets_ok X (run_message_task env t' (S\<lparr>messageTasks := xs' @ ys'\<rparr>))"
    using drop by (cases t') (auto split: prod.splits intro!: tickets_post)
qed

lemma im_step_tickets:
  assumes "im_step env deps S S'" "flow_ok env S" "tickets_ok X S"
  shows "tickets_ok X S'"
  using assms(1)
proof cases
  case (request c key cl parse msg u)
  from request_tickets [OF request(3) assms(2,3)] show ?thesis .
next
  case (redis xs k task ys)
  with worker_tickets(1) [OF assms(3)] show ?thesis by simp
next
  case (message xs k task ys)
  with worker_tickets(2) [OF assms(3)] show ?thesis by simp
next
  case (loop task ts)
  with loop_tickets [OF assms(2) _ assms(3)] show ?thesis by simp
next
  case (other m n ev key req)
  have r: "sum_list (map event_received ev) = {#}" using other(4) by (induction ev) (auto elim: other_event.elims)
  from assms(3) other(5) have "(replied S + pending S + X) + sum_list (map event_replied ev) \<subseteq># received S + {#(key, req)#}"
    by (intro subset_mset.add_mono) (simp_all add: tickets_ok_def)
  then show ?thesis unfolding other(1) tickets_ok_def tickets_base
    by (simp add: r received_def replied_def pending_def add.commute add.left_commute)
next
  case discard
  have "pending S' \<subseteq># pending S" by (simp add: discard pending_def)
  then have le: "replied S + pending S' + X \<subseteq># replied S + pending S + X" by (intro subset_mset.add_mono) simp_all
  have same: "replied S' = replied S" "received S' = received S" by (simp_all add: discard received_def replied_def)
  from subset_mset.order_trans [OF le assms(3) [unfolded tickets_ok_def]] show ?thesis unfolding tickets_ok_def same .
qed (use assms(3) tickets_frame in auto)

lemma tickets_reachable:
  assumes "reachable env deps S" "increasing env"
  shows "tickets_ok {#} S"
proof -
  from assms(1) obtain os where "(im_step env deps)\<^sup>*\<^sup>* (im_new os) S" by blast
  then have "flow_ok env S \<and> tickets_ok {#} S"
  proof (induction rule: rtranclp_induct)
    case base
    show ?case using flow_new by (simp add: tickets_ok_def received_def replied_def pending_def im_new_def)
  qed (use im_step_flow im_step_tickets assms(2) in blast)
  then show ?thesis by blast
qed

subsection \<open>The chats below the service\<close>

text \<open>What the steps of the service do to the two chat systems: a step of theirs, or nothing.\<close>

lemma request_frame:
  assumes "onMessage env parse (message_dispatch env) c key msg S = (u, S')" "flow_ok env S"
  shows "im_groups S' = im_groups S \<and> im_directs S' = im_directs S"
proof -
  have "sessions_named (im_sessions S)" using assms(2) by (simp add: flow_ok_def)
  with assms(1) show ?thesis
  proof (cases rule: request_cases)
    case (accepted m req)
    from accepted(2) show ?thesis by cases (simp_all add: emit_event_def)
  qed simp
qed

lemma loop_frame:
  assumes "flow_ok env S" "loopTasks S = task # ts"
  shows "im_groups (run_loop_task env task (S\<lparr>loopTasks := ts\<rparr>)) = im_groups S \<and> im_directs (run_loop_task env task (S\<lparr>loopTasks := ts\<rparr>)) = im_directs S"
proof -
  let ?S = "S\<lparr>loopTasks := ts\<rparr>"
  have checked: "redis_ok env t" if "task = LimitDone t r" for t r using assms(1,2) that by (auto simp: flow_ok_def tasks_ok_def)
  have keeps: "im_groups S' = im_groups ?S \<and> im_directs S' = im_directs ?S" if "disposes env tk ?S S'" for tk S'
    using that by cases simp_all
  show ?thesis
  proof (cases "(env, task, ?S)" rule: run_loop_task.cases)
    case (1 e ctx r S)
    with checked keeps [OF group_limit_disposes] show ?thesis by auto
  next
    case (2 e ctx r S)
    with checked keeps [OF direct_limit_disposes] show ?thesis by auto
  next
    case (3 e ctx cmd r S')
    with completeGroup_announces [of env ctx cmd r ?S] show ?thesis by auto
  next
    case (4 e ctx cmd st S')
    with completeDirect_announces [of env ctx cmd st ?S] show ?thesis by auto
  qed
qed

lemma post_frame [simp]: "im_groups (post env t S) = im_groups S" "im_directs (post env t S) = im_directs S"
  by (simp_all add: post_def consult_def)

lemma im_step_groups:
  assumes "im_step env deps S S'" "flow_ok env S"
  shows "im_groups S' = im_groups S \<or> chat_step deps (im_groups S) (im_groups S')"
  using assms(1)
proof cases
  case (request c key cl parse msg u)
  with request_frame [OF _ assms(2)] show ?thesis by blast
next
  case (message xs k task ys)
  then show ?thesis by (cases task) (auto split: prod.splits intro: chat_step.posted)
next
  case (loop task ts)
  with loop_frame [OF assms(2)] show ?thesis by simp
qed (auto simp: run_redis_task_def Let_def consult_def intro: chat_step.membership chat_step.read)

lemma im_step_directs:
  assumes "im_step env deps S S'" "flow_ok env S"
  shows "im_directs S' = im_directs S \<or> direct_step (im_directs S) (im_directs S')"
  using assms(1)
proof cases
  case (request c key cl parse msg u)
  with request_frame [OF _ assms(2)] show ?thesis by blast
next
  case (message xs k task ys)
  show ?thesis
  proof (cases task)
    case (SaveDirect ctx cmd)
    obtain st D where r: "run_state (direct_persist cmd) (im_directs S) = (st, D)" by (cases "run_state (direct_persist cmd) (im_directs S)")
    have S': "im_directs S' = D" using message(1) SaveDirect r by simp
    from assms(2) message(2) [unfolded SaveDirect] r show ?thesis
    proof (cases rule: save_direct_tables)
      case same
      have "D = (im_directs S)\<lparr>outcomes := outcomes D\<rparr>" using same(2) by (cases D; cases "im_directs S") simp
      with direct_step.environment [of "im_directs S" "outcomes D"] show ?thesis by (simp add: S')
    next
      case saved
      with direct_step.sent [OF _ r] show ?thesis by (simp add: S')
    qed
  qed (auto simp: message split: prod.splits)
next
  case (loop task ts)
  with loop_frame [OF assms(2)] show ?thesis by simp
qed (auto simp: run_redis_task_def Let_def consult_def intro: direct_step.read direct_step.accounts direct_step.deliveries)

lemma chats_reachable:
  assumes "(im_step env deps)\<^sup>*\<^sup>* (im_new os) S" "increasing env"
  shows "(chat_step deps)\<^sup>*\<^sup>* group_system_new (im_groups S) \<and> direct_step\<^sup>*\<^sup>* \<lparr>tables = direct_tables_new, outcomes = os\<rparr> (im_directs S)"
  using assms(1)
proof (induction rule: rtranclp_induct)
  case base
  show ?case by (simp add: im_new_def)
next
  case (step S S')
  have "flow_ok env S" using flow_reachable assms(2) step(1) by blast
  with step(2,3) im_step_groups [of env deps S S'] im_step_directs [of env deps S S'] show ?case
    by (metis (no_types, lifting) rtranclp.rtrancl_into_rtrancl)
qed

subsection \<open>Targets of a push\<close>

lemma collect_member_targets:
  "set (collect_member ex m a ks) = set ks \<union> (set (connKeysByAccountId a m) - {ex})"
  "distinct ks \<Longrightarrow> distinct (collect_member ex m a ks)"
proof -
  let ?f = "\<lambda>k ks. if k = ex \<or> k \<in> set ks then ks else ks @ [k]"
  have "set (fold ?f xs ks) = set ks \<union> (set xs - {ex})" for xs by (induction xs arbitrary: ks) auto
  then show "set (collect_member ex m a ks) = set ks \<union> (set (connKeysByAccountId a m) - {ex})" by (simp add: collect_member_def)
  have "distinct ks \<Longrightarrow> distinct (fold ?f xs ks)" for xs by (induction xs arbitrary: ks) auto
  then show "distinct ks \<Longrightarrow> distinct (collect_member ex m a ks)" by (simp add: collect_member_def)
qed

lemma collect_targets:
  "set (collectGroupTargets gid ex gm m) = (\<Union>x \<in> set (memberInfos gid gm). set (connKeysByAccountId (fst x) m) - {ex})"
  "distinct (collectGroupTargets gid ex gm m)"
proof -
  let ?f = "\<lambda>(a, r). collect_member ex m a"
  have all: "set (fold ?f xs ks) = set ks \<union> (\<Union>x \<in> set xs. set (connKeysByAccountId (fst x) m) - {ex}) \<and> (distinct ks \<longrightarrow> distinct (fold ?f xs ks))"
    for xs :: "(accountId \<times> GroupRole) list" and ks
    by (induction xs arbitrary: ks) (auto simp: collect_member_targets)
  from all [of "memberInfos gid gm" "[]"]
  show "set (collectGroupTargets gid ex gm m) = (\<Union>x \<in> set (memberInfos gid gm). set (connKeysByAccountId (fst x) m) - {ex})"
    "distinct (collectGroupTargets gid ex gm m)" by (simp_all add: collectGroupTargets_def)
qed

text \<open>A connection is logged in to an account.\<close>

definition logged_in :: "session_manager \<Rightarrow> connKey \<Rightarrow> accountId \<Rightarrow> bool" where
  "logged_in m k a = (case map_of (sessions m) k of None \<Rightarrow> False | Some s \<Rightarrow> s_state s = Authed \<and> s_accountId s = a)"

lemma account_targets:
  assumes "sessions_inv m"
  shows "k \<in> set (connKeysByAccountId a m) \<longleftrightarrow> logged_in m k a" "distinct (connKeysByAccountId a m)"
  using assms by (auto simp: sessions_inv_def conns_of_def logged_in_def bound_def split: option.splits)

lemma group_targets:
  assumes "sessions_inv m"
  shows "set (collectGroupTargets gid ex gm m) = {k. k \<noteq> ex \<and> (\<exists>a. logged_in m k a \<and> gm_isMember gid a gm)}"
proof -
  have "(\<exists>x \<in> set (memberInfos gid gm). fst x = a) \<longleftrightarrow> gm_isMember gid a gm" for a
    using in_members_hasMember [of a] by (force simp: memberInfos_def gm_isMember_def split: option.splits)
  then have "k \<in> set (collectGroupTargets gid ex gm m) \<longleftrightarrow> k \<noteq> ex \<and> (\<exists>a. logged_in m k a \<and> gm_isMember gid a gm)" for k
    unfolding collect_targets UN_iff Diff_iff account_targets(1) [OF assms] by (metis singletonD singletonI)
  then show ?thesis by blast
qed

text \<open>A push of a saved group message is always made: its data have an identifier and a time.\<close>

lemma json_object_object: "json_set k v (json_object kvs) \<noteq> None"
  by (simp add: json_set_def json_object_def)

lemma broadcast_group_push: "\<exists>b S'. broadcastToGroup env gid key (group_push ctx cmd r) S = (Inr b, S')"
proof -
  let ?d = "resp_data (group_push ctx cmd r)"
  have f: "field ''msgId'' ?d = Some (jnum (gc_msgId cmd))" "field ''serverTsMs'' ?d = Some (jnum (gc_serverTsMs cmd))"
    by (simp_all add: group_push_def field_json_object)
  obtain kvs where d: "?d = JObject kvs" by (simp add: group_push_def json_object_def)
  obtain d' where p: "put_member ''msgId'' (JUInt (of_nat (gc_msgId cmd))) ?d = Inr d'" by (simp add: put_member_def json_set_def d)
  have "contains ''serverTsMs'' d'" using field_put_member [OF p, of "''serverTsMs''"] f(2) by (simp add: contains_def)
  then have "decorate env (Some (of_nat (gc_msgId cmd))) None ((group_push ctx cmd r)\<lparr>resp_req_id := 0\<rparr>) S
      = (Inr ((group_push ctx cmd r)\<lparr>resp_req_id := 0, resp_data := d'\<rparr>), S)"
    using p by (simp add: decorate_def stamp_id_def stamp_time_def)
  then show ?thesis
    using f(1) by (simp add: broadcastToGroup_def Let_def jnum_def get_uint64_def apfst_def map_prod_def split: prod.splits)
qed

lemma durable_push:
  assumes "durable r"
  shows "\<exists>p rest. im_trace (completeGroupMessage env ctx cmd r S) =
    im_trace S @ Pushed (collectGroupTargets (gc_groupId cmd) (pg_senderKey ctx) (manager (im_groups S)) (im_sessions S)) p # rest \<and>
    group_shown cmd (gw_groupSeq r) p \<and> (rest = [] \<or> (\<exists>a. rest = [Replied (pg_senderKey ctx) (pg_request ctx) a]))"
proof -
  let ?ts = "collectGroupTargets (gc_groupId cmd) (pg_senderKey ctx) (manager (im_groups S)) (im_sessions S)"
  obtain b S1 where b: "broadcastToGroup env (gc_groupId cmd) (pg_senderKey ctx) (group_push ctx cmd r) S = (Inr b, S1)"
    using broadcast_group_push by blast
  have i: "field ''msgId'' (resp_data (group_push ctx cmd r)) = Some (jnum (gc_msgId cmd))" by (simp add: group_push_def field_json_object)
  from b i obtain p n where S1: "S1 = base S [] [] [Pushed ?ts p] n" by (cases rule: broadcast_cases) auto
  obtain ev m where e: "completeGroupMessage env ctx cmd r S = base S [] [] ev m"
    "announces (pg_senderKey ctx, pg_request ctx) (durable r) ?ts (group_shown cmd (gw_groupSeq r)) GROUP_MSG_RESP (gc_msgId cmd) ev"
    using completeGroup_announces [of env ctx cmd r S] by blast
  have "\<exists>rest. im_trace (completeGroupMessage env ctx cmd r S) = im_trace S1 @ rest"
  proof (cases "resolvePendingSender (pg_senderConnection ctx) (pg_senderKey ctx) (pg_senderAccountId ctx) S = None")
    case True
    with assms b show ?thesis by (simp add: completeGroupMessage_def Let_def)
  next
    case False
    then have "completeGroupMessage env ctx cmd r S = reply env (pg_senderKey ctx) (pg_request ctx) (group_answer (pg_request ctx) cmd b (nowAt env (tick S1))) S1"
      unfolding completeGroupMessage_def Let_def b using assms by auto
    then show ?thesis
      using reply_announces [of env "pg_senderKey ctx" "pg_request ctx" "group_answer (pg_request ctx) cmd b (nowAt env (tick S1))" S1] by (metis base_simps(10))
  qed
  then obtain rest where "ev = Pushed ?ts p # rest" using e(1) S1 by auto
  with e show ?thesis by cases (auto elim: announces.cases)
qed

subsection \<open>A run\<close>

text \<open>Amy, the owner of group 7, is logged in on two connections and writes to the group on the first.\<close>

definition demo_generator :: generator where
  "demo_generator = \<lparr>nodeId = 0, epochMs = 10, lastTimestampMs = 0, gen_sequence = 0\<rparr>"

definition demo_env :: im_env where
  "demo_env = \<lparr>requireGroupIdForSend = True, maxMessageLen = 100, hasMessageExecutor = True, hasPoster = True, hasGroupPersistence = True,
     hasDirectPersistence = True, hasRateLimiter = False, hasRedisExecutor = False, hasBatchSender = True, redisFailOpen = False,
     peerOf = (\<lambda>c. (''127.0.0.1'', 4000)), what = (\<lambda>e. []), idAt = ids_at demo_generator [10, 10, 10], nowAt = (\<lambda>n. 9), submitAt = (\<lambda>n. Accepted),
     postAt = (\<lambda>n. True), textAt = (\<lambda>n. []), limitAt = (\<lambda>n. Inl []), deliverAt = (\<lambda>n k. SendOk)\<rparr>"

definition demo_parse :: "string \<Rightarrow> json option" where
  "demo_parse s = Some (JObject [(''content'', JString ''hello''), (''groupId'', JString ''7''), (''req_id'', JUInt 5),
     (''type'', JUInt (ucast (msgTypeToInt GROUP_MSG_REQ))), (''ver'', JUInt 1)])"

definition demo_online :: im_state where
  "demo_online = (im_new [])\<lparr>im_groups := demo_created, im_conns := [(0, (1, False)), (1, (2, False))],
     im_sessions := svc_login 2 9 ''amy'' ''Amy'' (svc_login 1 9 ''amy'' ''Amy'' SessionManager_new)\<rparr>"

definition demo_requested :: im_state where
  "demo_requested = snd (onMessage demo_env demo_parse (message_dispatch demo_env) 0 1 ''x'' demo_online)"

definition demo_saved :: im_state where
  "demo_saved = run_message_task demo_env (snd (hd (messageTasks demo_requested))) (demo_requested\<lparr>messageTasks := []\<rparr>)"

definition demo_done :: im_state where
  "demo_done = run_loop_task demo_env (hd (loopTasks demo_saved)) (demo_saved\<lparr>loopTasks := []\<rparr>)"

lemma demo_increasing: "increasing demo_env"
  by (rule generator_increasing [of 0 10 20 demo_generator "[10, 10, 10]"]) (simp_all add: newGenerator_def demo_generator_def demo_env_def)

lemma demo_online_reached: "(im_step demo_env demo_deps)\<^sup>*\<^sup>* (im_new []) demo_online"
proof -
  let ?S1 = "(im_new [])\<lparr>im_groups := demo_created\<rparr>" let ?S2 = "?S1\<lparr>im_conns := [(0, (1, False)), (1, (2, False))]\<rparr>"
  let ?S3 = "?S2\<lparr>im_sessions := svc_login 1 9 ''amy'' ''Amy'' SessionManager_new\<rparr>"
  have "join_step demo_deps group_system_new demo_created"
    unfolding demo_created_def by (rule join_step.group, rule group_step.create) (rule prod.collapse [symmetric])
  then have "im_step demo_env demo_deps (im_new []) ?S1" by (intro im_step.membership) (simp add: im_new_def)
  moreover have "im_step demo_env demo_deps ?S1 ?S2" by (rule im_step.connections)
  moreover have "im_step demo_env demo_deps ?S2 ?S3"
    using im_step.login [of "''amy''" demo_env demo_deps ?S2 1 9 "''Amy''"] by (simp add: im_new_def named_def)
  moreover have "im_step demo_env demo_deps ?S3 demo_online"
    using im_step.login [of "''amy''" demo_env demo_deps ?S3 2 9 "''Amy''"] by (simp add: demo_online_def im_new_def named_def)
  ultimately show ?thesis by (meson converse_rtranclp_into_rtranclp rtranclp.rtrancl_refl)
qed

lemma demo_parsed: "case tryParse demo_parse ''x'' of Parsed req \<Rightarrow> req_type req = GROUP_MSG_REQ | _ \<Rightarrow> False"
  by code_simp

lemma demo_tasks: "map fst (messageTasks demo_requested) = [''group:7'']" "length (loopTasks demo_saved) = 1"
  by code_simp+

lemma demo_requested_step: "im_step demo_env demo_deps demo_online demo_requested"
proof (rule im_step.request)
  show "map_of (im_conns demo_online) 0 = Some (1, False)" by (simp add: demo_online_def)
  show "\<forall>req. tryParse demo_parse ''x'' = Parsed req \<longrightarrow> req_type req = DM_REQ \<or> req_type req = GROUP_MSG_REQ"
    using demo_parsed by (auto split: parse_outcome.splits)
  show "onMessage demo_env demo_parse (message_dispatch demo_env) 0 1 ''x'' demo_online = (fst (onMessage demo_env demo_parse (message_dispatch demo_env) 0 1 ''x'' demo_online), demo_requested)"
    by (simp add: demo_requested_def)
qed

lemma demo_saved_step: "im_step demo_env demo_deps demo_requested demo_saved"
proof -
  obtain k t where q: "messageTasks demo_requested = [(k, t)]" using demo_tasks(1) by (cases "messageTasks demo_requested") auto
  from im_step.message [of demo_requested "[]" k t "[]"] show ?thesis by (simp add: q demo_saved_def)
qed

lemma demo_done_step: "im_step demo_env demo_deps demo_saved demo_done"
proof -
  obtain t where q: "loopTasks demo_saved = [t]" using demo_tasks(2) by (cases "loopTasks demo_saved") auto
  from im_step.loop [OF q] show ?thesis by (simp add: q demo_done_def)
qed

lemma demo_reached:
  "reachable demo_env demo_deps demo_requested" "reachable demo_env demo_deps demo_saved" "reachable demo_env demo_deps demo_done"
  using demo_online_reached demo_requested_step demo_saved_step demo_done_step by (meson rtranclp.rtrancl_into_rtrancl)+

lemma demo_trace: "length (im_trace demo_done) = 3" "group_log demo_done = [(1, stored_message ((demo_post ''amy'' 1)\<lparr>gc_senderUsername := ''Amy''\<rparr>) 1)]"
  "case hd (loopTasks demo_saved) of GroupSaved ctx cmd r \<Rightarrow> durable r \<and> gc_content cmd = ''hello'' | _ \<Rightarrow> False"
  by code_simp+

subsection \<open>Properties\<close>

text \<open>
  C19. However logins, disconnects, membership changes, worker threads and the base loop interleave, a
  request is answered at most as often as it was received: answers already sent and tasks under way
  together never outnumber the requests, so a deferred answer is never followed by a second one.
\<close>

theorem at_most_one_answer:
  assumes "reachable env deps S" "increasing env"
  shows "replied S + pending S \<subseteq># received S"
  using tickets_reachable [OF assms] by (simp add: tickets_ok_def)

theorem at_most_one_answer_witness: "replied demo_done + pending demo_done \<subseteq># received demo_done"
  by (rule at_most_one_answer [OF demo_reached(3) demo_increasing])

text \<open>
  C20. What clients are told is in the tables: every push of a message shows the identifier, sequence number,
  sender, receiver and content of a message that was saved, and every answer that confirms a message
  names the identifier of a saved one.
\<close>

theorem pushes_are_durable:
  assumes "reachable env deps S" "increasing env"
  shows "\<forall>e \<in> set (im_trace S). case e of
      Pushed ts p \<Rightarrow> (resp_type p = GROUP_MSG_PUSH \<longrightarrow> (\<exists>cmd n. group_shown cmd n p \<and> (gc_msgId cmd, stored_message cmd n) \<in> set (group_log S))) \<and>
        (resp_type p = DM_PUSH \<longrightarrow> (\<exists>cmd. direct_shown cmd p \<and> (dc_msgId cmd, direct_row cmd) \<in> set (direct_log S)))
    | Replied k q r \<Rightarrow>
        (resp_type r = GROUP_MSG_RESP \<longrightarrow> (\<exists>i m. field ''msgId'' (resp_data r) = Some (jnum i) \<and> (i, m) \<in> set (group_log S))) \<and>
        (resp_type r = DM_RESP \<longrightarrow> (\<exists>i m. field ''msgId'' (resp_data r) = Some (jnum i) \<and> (i, m) \<in> set (direct_log S)))
    | _ \<Rightarrow> True"
proof
  fix e assume "e \<in> set (im_trace S)"
  then have "event_true (set (group_log S)) (set (direct_log S)) e" using flow_reachable [OF assms] by (simp add: flow_ok_def told_ok_def)
  then show "case e of
      Pushed ts p \<Rightarrow> (resp_type p = GROUP_MSG_PUSH \<longrightarrow> (\<exists>cmd n. group_shown cmd n p \<and> (gc_msgId cmd, stored_message cmd n) \<in> set (group_log S))) \<and>
        (resp_type p = DM_PUSH \<longrightarrow> (\<exists>cmd. direct_shown cmd p \<and> (dc_msgId cmd, direct_row cmd) \<in> set (direct_log S)))
    | Replied k q r \<Rightarrow>
        (resp_type r = GROUP_MSG_RESP \<longrightarrow> (\<exists>i m. field ''msgId'' (resp_data r) = Some (jnum i) \<and> (i, m) \<in> set (group_log S))) \<and>
        (resp_type r = DM_RESP \<longrightarrow> (\<exists>i m. field ''msgId'' (resp_data r) = Some (jnum i) \<and> (i, m) \<in> set (direct_log S)))
    | _ \<Rightarrow> True" by (cases e) (simp_all add: push_true_def reply_true_def)
qed

theorem pushes_are_durable_witness:
  "case im_trace demo_done ! 1 of Pushed ts p \<Rightarrow> (\<exists>cmd n. (gc_msgId cmd, stored_message cmd n) \<in> set (group_log demo_done)) | _ \<Rightarrow> False"
proof -
  have "im_trace demo_done ! 1 \<in> set (im_trace demo_done)" using demo_trace(1) by simp
  note shown = pushes_are_durable [OF demo_reached(3) demo_increasing, THEN bspec, OF this]
  have "case im_trace demo_done ! 1 of Pushed ts p \<Rightarrow> resp_type p = GROUP_MSG_PUSH | _ \<Rightarrow> False" "direct_log demo_done = []" by code_simp+
  with shown show ?thesis by (auto split: im_event.splits)
qed

text \<open>
  C21. When a saved group message is completed on the base loop, one push with its identifier, sequence
  number and content goes out, whether or not the sender is still there; its targets are, each once,
  exactly the connections logged in to an account that is a member at that moment, except the one that
  sent the message.
\<close>

theorem group_push_reaches_members:
  assumes "reachable env deps S" "increasing env" "loopTasks S = GroupSaved ctx cmd r # ts" "durable r"
  shows "\<exists>targets p rest. im_trace (run_loop_task env (GroupSaved ctx cmd r) (S\<lparr>loopTasks := ts\<rparr>)) = im_trace S @ Pushed targets p # rest \<and>
    distinct targets \<and> set targets = {k. k \<noteq> pg_senderKey ctx \<and> (\<exists>a. logged_in (im_sessions S) k a \<and> gm_isMember (gc_groupId cmd) a (manager (im_groups S)))} \<and>
    group_shown cmd (gw_groupSeq r) p \<and> (gc_msgId cmd, stored_message cmd (gw_groupSeq r)) \<in> set (group_log S) \<and>
    (rest = [] \<or> (\<exists>a. rest = [Replied (pg_senderKey ctx) (pg_request ctx) a]))"
proof -
  let ?S = "S\<lparr>loopTasks := ts\<rparr>"
  note ok = flow_reachable [OF assms(1,2), unfolded flow_ok_def]
  have "(gc_msgId cmd, stored_message cmd (gw_groupSeq r)) \<in> set (group_log S)" using ok assms(3,4) by (auto simp: told_ok_def)
  moreover have "sessions_inv (im_sessions S)" using ok by (simp add: sessions_named_def)
  ultimately show ?thesis
    using durable_push [OF assms(4), of env ctx cmd ?S] group_targets [of "im_sessions S"] collect_targets(2) by fastforce
qed

theorem group_push_reaches_members_witness:
  "\<exists>p rest. im_trace demo_done = im_trace demo_saved @ Pushed [2] p # rest"
proof -
  obtain ctx cmd r where h: "hd (loopTasks demo_saved) = GroupSaved ctx cmd r" "durable r"
    using demo_trace(3) by (cases "hd (loopTasks demo_saved)") auto
  then have q: "loopTasks demo_saved = [GroupSaved ctx cmd r]" using demo_tasks(2) by (cases "loopTasks demo_saved") auto
  from group_push_reaches_members [OF demo_reached(2) demo_increasing q h(2)] obtain targets p rest where
    e: "im_trace demo_done = im_trace demo_saved @ Pushed targets p # rest" by (auto simp: demo_done_def h(1))
  have "case im_trace demo_done ! length (im_trace demo_saved) of Pushed ts p \<Rightarrow> ts = [2] | _ \<Rightarrow> False" by code_simp
  with e show ?thesis by auto
qed

text \<open>
  The messages in the tables have passed the checks of the handlers: their contents are not empty
  and not longer than the configured maximum.
\<close>

theorem stored_contents_bounded:
  assumes "reachable env deps S" "increasing env"
  shows "(\<forall>(i, m) \<in> set (group_log S). msg_content m \<noteq> [] \<and> length (msg_content m) \<le> maxMessageLen env) \<and>
    (\<forall>(i, m) \<in> set (direct_log S). dm_content m \<noteq> [] \<and> length (dm_content m) \<le> maxMessageLen env)"
  using flow_reachable [OF assms] by (simp add: flow_ok_def contents_ok_def)

theorem stored_contents_bounded_witness: "length (msg_content (snd (hd (group_log demo_done)))) \<le> maxMessageLen demo_env"
  using stored_contents_bounded [OF demo_reached(3) demo_increasing] by (simp add: demo_trace(2))

text \<open>
  C22. Every run of the service is a run of the two chat systems: what its threads and handlers do to the
  group and direct message tables are steps of \<open>chat_step\<close> and \<open>direct_step\<close>. In particular every direct
  message it saves is well-formed: the handlers establish what the tables rely on.
\<close>

theorem service_refines_chats:
  assumes "(im_step env deps)\<^sup>*\<^sup>* (im_new os) S" "increasing env"
  shows "(chat_step deps)\<^sup>*\<^sup>* group_system_new (im_groups S) \<and>
    direct_step\<^sup>*\<^sup>* \<lparr>tables = direct_tables_new, outcomes = os\<rparr> (im_directs S)"
  by (rule chats_reachable [OF assms])

theorem service_refines_chats_witness: "(chat_step demo_deps)\<^sup>*\<^sup>* group_system_new (im_groups demo_online)"
  using service_refines_chats [OF demo_online_reached demo_increasing] by simp

text \<open>
  Unread counts stay exact in every run of the service: what a member of a direct conversation is
  shown as unread is the number of messages received after the last one read, and in every group the
  sequence numbers of the stored messages are 1 to the head without a gap.
\<close>

theorem service_counts_exact:
  assumes "reachable env deps S" "increasing env" "named a" "named b"
  shows "unread_of (tables (im_directs S)) a b =
      length (received_after (buildDirectConversationKey a b) a (last_read_of (tables (im_directs S)) a b) (tables (im_directs S))) \<and>
    (\<forall>gid h. map_of (group_heads (tables (store (im_groups S)))) gid = Some h \<longrightarrow>
      seqs_of gid (tables (store (im_groups S))) = [1..<Suc (hd_last_seq h)])"
proof -
  from assms(1) obtain os where "(im_step env deps)\<^sup>*\<^sup>* (im_new os) S" by blast
  note chats = chats_reachable [OF this assms(2)]
  have "seqs_of gid (tables (store (im_groups S))) = [1..<Suc (hd_last_seq h)]" if "map_of (group_heads (tables (store (im_groups S)))) gid = Some h" for gid h
    using chat_steps_ok [of deps "im_groups S"] chats that by (auto simp: log_ok_def)
  with unread_of_exact [OF direct_steps_ok assms(3,4)] chats show ?thesis by blast
qed

theorem service_counts_exact_witness: "unread_of (tables (im_directs demo_done)) ''amy'' ''bob'' = 0"
proof -
  have "direct_log demo_done = []" by code_simp
  then show ?thesis
    using service_counts_exact [OF demo_reached(3) demo_increasing, of "''amy''" "''bob''"] by (simp add: named_def received_after_def)
qed

end
