(* ===== verification/Accounts.thy ===== *)
theory Accounts
  imports Storage DirectMessages
begin

text \<open>
  Accounts and authentication: the hashing of passwords and tokens (\<open>src/src/security/PasswordHasher.cpp\<close>,
  \<open>TokenManager.cpp\<close>), account names (\<open>src/src/auth/AccountIdGenerator.cpp\<close>), the repositories of users, profiles and
  login tokens (\<open>src/src/storage/sql/SqlUserRepo.cpp\<close>, \<open>SqlUserProfileRepo.cpp\<close>, \<open>SqlUserSessionRepo.cpp\<close>) and the
  service over them (\<open>src/src/auth/AuthService.cpp\<close>).

  SHA-256 is an argument \<open>sha\<close> from bytes to the bytes of the digest; random bytes are arguments too, \<open>None\<close>
  where \<open>RAND_bytes\<close> fails. Times are the values of the system clock. Auto-increment columns count without
  gaps. Account names are compared byte by byte.
\<close>

subsection \<open>Random names, salts, tokens and hashes\<close>

definition hexDigit :: "nat \<Rightarrow> char" where
  "hexDigit n = char_of (if n < 10 then 48 + n else 87 + n)"

definition hexByte :: "char \<Rightarrow> string" where
  "hexByte c = [hexDigit (of_char c div 16), hexDigit (of_char c mod 16)]"

definition hex_of :: "string \<Rightarrow> string" where
  "hex_of bs = concat (map hexByte bs)"

definition kChars :: string where
  "kChars = ''0123456789abcdefghijklmnopqrstuvwxyzABCDEFGHIJKLMNOPQRSTUVWXYZ''"

definition generateAccountId :: "nat \<Rightarrow> string option \<Rightarrow> accountId option" where
  "generateAccountId totalLength rnd =
     (if totalLength < 6 \<or> totalLength > 20 then None
      else map_option (\<lambda>bs. ''im'' @ map (\<lambda>b. kChars ! (of_char b mod length kChars)) bs) rnd)"

definition generateSalt :: "string option \<Rightarrow> string option" where
  "generateSalt rnd = map_option hex_of rnd"

definition calculateHash :: "(string \<Rightarrow> string) \<Rightarrow> string \<Rightarrow> string \<Rightarrow> string" where
  "calculateHash sha password salt = (if password = [] \<or> salt = [] then [] else hex_of (sha (password @ salt)))"

record PasswordHash =
  ph_hash :: string
  ph_salt :: string

text \<open>\<open>None\<close> is an exception.\<close>

definition hashPassword :: "(string \<Rightarrow> string) \<Rightarrow> string option \<Rightarrow> string \<Rightarrow> PasswordHash option" where
  "hashPassword sha rnd password =
     (if password = [] then None
      else map_option (\<lambda>salt. \<lparr>ph_hash = calculateHash sha password salt, ph_salt = salt\<rparr>) (generateSalt rnd))"

definition verifyPassword :: "(string \<Rightarrow> string) \<Rightarrow> string \<Rightarrow> string \<Rightarrow> string \<Rightarrow> bool" where
  "verifyPassword sha password expectedHash salt =
     (if password = [] \<or> expectedHash = [] \<or> salt = [] then False else calculateHash sha password salt = expectedHash)"

record IssuedToken =
  it_rawToken :: string
  it_tokenHash :: string
  it_expireAtMs :: int

definition issueToken :: "(string \<Rightarrow> string) \<Rightarrow> string option \<Rightarrow> int \<Rightarrow> IssuedToken option" where
  "issueToken sha rnd nowMs =
     map_option (\<lambda>bs. let raw = hex_of bs in \<lparr>it_rawToken = raw, it_tokenHash = hex_of (sha raw), it_expireAtMs = nowMs + 7 * 24 * 3600 * 1000\<rparr>) rnd"

definition hashToken :: "(string \<Rightarrow> string) \<Rightarrow> string \<Rightarrow> string" where
  "hashToken sha raw = (if raw = [] then [] else hex_of (sha raw))"

subsection \<open>Tables\<close>

record UserAuthInfo =
  ua_userId :: nat
  ua_accountId :: accountId
  ua_username :: string
  ua_passwordHash :: string
  ua_passwordSalt :: string
  ua_status :: int

record UserProfileRow =
  pf_userId :: nat
  pf_accountId :: accountId
  pf_username :: string
  pf_nickname :: string
  pf_avatarUrl :: string
  pf_signature :: string
  pf_updateAtMs :: int

record StoredUserSession =
  us_userId :: nat
  us_accountId :: accountId
  us_username :: string
  us_tokenHash :: string
  us_expireAtMs :: int
  us_createAtMs :: int
  us_lastSeenAtMs :: int
  us_revoked :: bool
  us_revokedAtMs :: "int option"

record account_tables =
  users :: "UserAuthInfo list"
  next_user_id :: nat
  profiles :: "UserProfileRow list"
  user_sessions :: "StoredUserSession list"

type_synonym 'a adb = "(account_tables, 'a) db"

definition account_tables_new :: account_tables where
  "account_tables_new = \<lparr>users = [], next_user_id = 1, profiles = [], user_sessions = []\<rparr>"

subsection \<open>Statements\<close>

definition insert_user :: "accountId \<Rightarrow> string \<Rightarrow> string \<Rightarrow> string \<Rightarrow> account_tables \<Rightarrow> int + nat \<times> account_tables" where
  "insert_user a name hash salt t =
     (if \<exists>u \<in> set (users t). ua_accountId u = a then Inl 1062
      else Inr (1, t\<lparr>users := users t @ [\<lparr>ua_userId = next_user_id t, ua_accountId = a, ua_username = name, ua_passwordHash = hash,
             ua_passwordSalt = salt, ua_status = 0\<rparr>], next_user_id := next_user_id t + 1\<rparr>))"

definition insert_profile :: "nat \<Rightarrow> accountId \<Rightarrow> string \<Rightarrow> int \<Rightarrow> account_tables \<Rightarrow> int + nat \<times> account_tables" where
  "insert_profile uid a name nowMs t =
     (if \<exists>p \<in> set (profiles t). pf_userId p = uid \<or> pf_accountId p = a then Inl 1062
      else Inr (1, t\<lparr>profiles := profiles t @ [\<lparr>pf_userId = uid, pf_accountId = a, pf_username = name, pf_nickname = name,
             pf_avatarUrl = [], pf_signature = [], pf_updateAtMs = nowMs\<rparr>]\<rparr>))"

text \<open>The affected rows of an update are those that change.\<close>

definition update_profile :: "nat \<Rightarrow> string \<Rightarrow> string \<Rightarrow> string \<Rightarrow> int \<Rightarrow> account_tables \<Rightarrow> int + nat \<times> account_tables" where
  "update_profile uid nick avatar sig nowMs t =
     (let f = (\<lambda>p. if pf_userId p = uid then p\<lparr>pf_nickname := nick, pf_avatarUrl := avatar, pf_signature := sig, pf_updateAtMs := nowMs\<rparr> else p)
      in Inr (length (filter (\<lambda>p. f p \<noteq> p) (profiles t)), t\<lparr>profiles := map f (profiles t)\<rparr>))"

definition insert_session :: "StoredUserSession \<Rightarrow> account_tables \<Rightarrow> int + nat \<times> account_tables" where
  "insert_session s t =
     (if \<exists>s' \<in> set (user_sessions t). us_tokenHash s' = us_tokenHash s then Inl 1062
      else Inr (1, t\<lparr>user_sessions := user_sessions t @ [s\<lparr>us_revoked := False, us_revokedAtMs := None\<rparr>]\<rparr>))"

definition update_session :: "(StoredUserSession \<Rightarrow> StoredUserSession) \<Rightarrow> string \<Rightarrow> account_tables \<Rightarrow> int + nat \<times> account_tables" where
  "update_session f h t =
     (let g = (\<lambda>s. if us_tokenHash s = h \<and> \<not> us_revoked s then f s else s)
      in Inr (length (filter (\<lambda>s. g s \<noteq> s) (user_sessions t)), t\<lparr>user_sessions := map g (user_sessions t)\<rparr>))"

text \<open>\<open>DELETE ... WHERE ... LIMIT\<close>, which rows go first is up to the server: here the first in the table.\<close>

fun delete_limited :: "('a \<Rightarrow> bool) \<Rightarrow> nat \<Rightarrow> 'a list \<Rightarrow> 'a list" where
  "delete_limited P n [] = []"
| "delete_limited P 0 xs = xs"
| "delete_limited P (Suc n) (x # xs) = (if P x then delete_limited P n xs else x # delete_limited P (Suc n) xs)"

definition delete_sessions :: "(StoredUserSession \<Rightarrow> bool) \<Rightarrow> nat \<Rightarrow> account_tables \<Rightarrow> int + nat \<times> account_tables" where
  "delete_sessions P limit t =
     (let ss = delete_limited P limit (user_sessions t)
      in Inr (length (user_sessions t) - length ss, t\<lparr>user_sessions := ss\<rparr>))"

subsection \<open>Repositories\<close>

definition createUser :: "accountId \<Rightarrow> string \<Rightarrow> string \<Rightarrow> string \<Rightarrow> RepoStatus adb" where
  "createUser a name hash salt =
     (if name = [] \<or> hash = [] \<or> salt = [] \<or> a = [] then ret InvalidArgument
      else do {
        c \<leftarrow> acquire;
        if \<not> c then ret SqlError
        else do {
          r \<leftarrow> executePrepared (insert_user a name hash salt);
          case r of Inr _ \<Rightarrow> ret Ok
          | Inl _ \<Rightarrow> ret (if mapSqlErrorToRepoStatus r = AlreadyExists then AlreadyExists else SqlError)}})"

text \<open>The queries that return an optional row: no connection, an error and no row all give none.\<close>

definition query_optional :: "('t \<Rightarrow> 'r list) \<Rightarrow> ('t, 'r option) db" where
  "query_optional sel = do {
     c \<leftarrow> acquire;
     if \<not> c then ret None
     else do {
       r \<leftarrow> queryPrepared sel;
       case r of Inl _ \<Rightarrow> ret None | Inr [] \<Rightarrow> ret None | Inr (row # _) \<Rightarrow> ret (Some row)}}"

definition userExists :: "accountId \<Rightarrow> bool adb" where
  "userExists a = (if a = [] then ret False
     else do {r \<leftarrow> query_optional (\<lambda>t. take 1 (filter (\<lambda>u. ua_accountId u = a) (users t))); ret (r \<noteq> None)})"

definition findAuthInfoByAccountId :: "accountId \<Rightarrow> UserAuthInfo option adb" where
  "findAuthInfoByAccountId a = (if a = [] then ret None else query_optional (\<lambda>t. take 1 (filter (\<lambda>u. ua_accountId u = a) (users t))))"

definition findByUserId :: "nat \<Rightarrow> UserAuthInfo option adb" where
  "findByUserId uid = query_optional (\<lambda>t. take 1 (filter (\<lambda>u. ua_userId u = uid) (users t)))"

definition createDefaultProfile :: "nat \<Rightarrow> accountId \<Rightarrow> string \<Rightarrow> int \<Rightarrow> RepoStatus adb" where
  "createDefaultProfile uid a name nowMs =
     (if name = [] \<or> uid = 0 then ret InvalidArgument
      else do {
        c \<leftarrow> acquire;
        if \<not> c then ret SqlError
        else do {
          r \<leftarrow> executePrepared (insert_profile uid a name nowMs);
          case r of Inr _ \<Rightarrow> ret Ok
          | Inl _ \<Rightarrow> ret (if mapSqlErrorToRepoStatus r = AlreadyExists then AlreadyExists else SqlError)}})"

definition profile_findByUserId :: "nat \<Rightarrow> UserProfileRow option adb" where
  "profile_findByUserId uid = (if uid = 0 then ret None else query_optional (\<lambda>t. take 1 (filter (\<lambda>p. pf_userId p = uid) (profiles t))))"

definition profile_findByUsername :: "string \<Rightarrow> UserProfileRow option adb" where
  "profile_findByUsername name = (if name = [] then ret None else query_optional (\<lambda>t. take 1 (filter (\<lambda>p. pf_username p = name) (profiles t))))"

definition profile_findByAccountId :: "accountId \<Rightarrow> UserProfileRow option adb" where
  "profile_findByAccountId a = (if a = [] then ret None else query_optional (\<lambda>t. take 1 (filter (\<lambda>p. pf_accountId p = a) (profiles t))))"

definition profile_findByAccountIds :: "accountId list \<Rightarrow> UserProfileRow list adb" where
  "profile_findByAccountIds as =
     (if as = [] then ret []
      else do {
        c \<leftarrow> acquire;
        if \<not> c then ret []
        else do {
          r \<leftarrow> queryPrepared (\<lambda>t. filter (\<lambda>p. pf_accountId p \<in> set (remdups as)) (profiles t));
          case r of Inl _ \<Rightarrow> ret [] | Inr rows \<Rightarrow> ret rows}})"

definition updateProfile :: "nat \<Rightarrow> string \<Rightarrow> string \<Rightarrow> string \<Rightarrow> int \<Rightarrow> RepoStatus adb" where
  "updateProfile uid nick avatar sig nowMs =
     (if uid = 0 \<or> nick = [] \<or> nowMs = 0 then ret InvalidArgument
      else do {
        c \<leftarrow> acquire;
        if \<not> c then ret SqlError
        else do {
          r \<leftarrow> executePrepared (update_profile uid nick avatar sig nowMs);
          case r of Inl _ \<Rightarrow> ret SqlError | Inr n \<Rightarrow> ret (if n \<noteq> 0 then Ok else NotFound)}})"

definition createSession :: "StoredUserSession \<Rightarrow> RepoStatus adb" where
  "createSession s =
     (if us_username s = [] \<or> us_tokenHash s = [] then ret InvalidArgument
      else do {
        c \<leftarrow> acquire;
        if \<not> c then ret SqlError
        else do {
          r \<leftarrow> executePrepared (insert_session s);
          case r of Inr _ \<Rightarrow> ret Ok
          | Inl _ \<Rightarrow> ret (if mapSqlErrorToRepoStatus r = AlreadyExists then AlreadyExists else SqlError)}})"

definition findByTokenHash :: "string \<Rightarrow> StoredUserSession option adb" where
  "findByTokenHash h = (if h = [] then ret None else query_optional (\<lambda>t. take 1 (filter (\<lambda>s. us_tokenHash s = h) (user_sessions t))))"

definition execute_checked :: "(account_tables \<Rightarrow> int + nat \<times> account_tables) \<Rightarrow> RepoStatus adb" where
  "execute_checked stmt = do {
     c \<leftarrow> acquire;
     if \<not> c then ret SqlError
     else do {r \<leftarrow> executePrepared stmt; case r of Inl _ \<Rightarrow> ret SqlError | Inr _ \<Rightarrow> ret Ok}}"

definition touchSession :: "string \<Rightarrow> int \<Rightarrow> RepoStatus adb" where
  "touchSession h seenMs = (if h = [] then ret InvalidArgument else execute_checked (update_session (\<lambda>s. s\<lparr>us_lastSeenAtMs := seenMs\<rparr>) h))"

definition revokeSession :: "string \<Rightarrow> int \<Rightarrow> RepoStatus adb" where
  "revokeSession h revokedAt =
     (if h = [] then ret InvalidArgument else execute_checked (update_session (\<lambda>s. s\<lparr>us_revoked := True, us_revokedAtMs := Some revokedAt\<rparr>) h))"

definition delete_where :: "(StoredUserSession \<Rightarrow> bool) \<Rightarrow> int \<Rightarrow> nat \<Rightarrow> nat repo_value adb" where
  "delete_where P cutoff limit =
     (if cutoff < 0 then ret (InvalidArgument, None)
      else do {
        c \<leftarrow> acquire;
        if \<not> c then ret (Internal, None)
        else do {
          r \<leftarrow> executePrepared (delete_sessions P limit);
          case r of Inl _ \<Rightarrow> ret (SqlError, None) | Inr n \<Rightarrow> ret (Ok, Some n)}})"

definition deleteExpiredBefore :: "int \<Rightarrow> nat \<Rightarrow> nat repo_value adb" where
  "deleteExpiredBefore cutoff limit = delete_where (\<lambda>s. us_expireAtMs s < cutoff) cutoff limit"

definition deleteRevokedBefore :: "int \<Rightarrow> nat \<Rightarrow> nat repo_value adb" where
  "deleteRevokedBefore cutoff limit =
     delete_where (\<lambda>s. us_revoked s \<and> (case us_revokedAtMs s of None \<Rightarrow> False | Some at \<Rightarrow> at < cutoff)) cutoff limit"

subsection \<open>The service\<close>

datatype AuthStatus = AuthOk | AuthInvalidArgument | AuthUserNotFound | BadPassword | UserDisabled | AlreadyExist | WeakPassword
  | InvalidToken | TokenExpired | TokenRevoked | AuthInternal

record AuthResult =
  ar_ok :: bool
  ar_status :: AuthStatus
  ar_user :: "UserAuthInfo option"
  ar_issuedToken :: "IssuedToken option"
  ar_tokenExpireAtMs :: "int option"

record LogoutResult =
  lo_ok :: bool
  lo_status :: AuthStatus
  lo_revokedNow :: bool
  lo_alreadyLoggedOut :: bool

definition auth_failure :: "AuthStatus \<Rightarrow> AuthResult" where
  "auth_failure st = \<lparr>ar_ok = False, ar_status = st, ar_user = None, ar_issuedToken = None, ar_tokenExpireAtMs = None\<rparr>"

definition logout_result :: "bool \<Rightarrow> AuthStatus \<Rightarrow> bool \<Rightarrow> bool \<Rightarrow> LogoutResult" where
  "logout_result ok st now already = \<lparr>lo_ok = ok, lo_status = st, lo_revokedNow = now, lo_alreadyLoggedOut = already\<rparr>"

text \<open>\<open>std::isupper\<close>, \<open>std::islower\<close> and \<open>std::isdigit\<close> in the C locale.\<close>

definition isupper :: "char \<Rightarrow> bool" where "isupper c \<longleftrightarrow> 65 \<le> (of_char c :: nat) \<and> (of_char c :: nat) \<le> 90"
definition islower :: "char \<Rightarrow> bool" where "islower c \<longleftrightarrow> 97 \<le> (of_char c :: nat) \<and> (of_char c :: nat) \<le> 122"
definition isdigit :: "char \<Rightarrow> bool" where "isdigit c \<longleftrightarrow> 48 \<le> (of_char c :: nat) \<and> (of_char c :: nat) \<le> 57"

fun strength_loop :: "bool \<Rightarrow> bool \<Rightarrow> bool \<Rightarrow> string \<Rightarrow> bool" where
  "strength_loop hasUpper hasLower hasDigit [] = False"
| "strength_loop hasUpper hasLower hasDigit (c # cs) =
     (let u = hasUpper \<or> isupper c;
          l = hasLower \<or> (\<not> isupper c \<and> islower c);
          d = hasDigit \<or> (\<not> isupper c \<and> \<not> islower c \<and> isdigit c)
      in if u \<and> l \<and> d then True else strength_loop u l d cs)"

definition validatePasswordStrength :: "string \<Rightarrow> bool" where
  "validatePasswordStrength password =
     (if length password < 8 \<or> length password > 32 then False else strength_loop False False False password)"

text \<open>
  The loop over at most five random account names: a name that is taken, like any other failure of the
  insert, goes on to the next; an exception ends it.
\<close>

fun register_loop :: "string \<Rightarrow> PasswordHash \<Rightarrow> int \<Rightarrow> string option list \<Rightarrow> AuthResult adb" where
  "register_loop name h nowMs [] = ret (auth_failure AuthInternal)"
| "register_loop name h nowMs (rnd # rnds) =
     (case generateAccountId 12 rnd of
        None \<Rightarrow> ret (auth_failure AuthInternal)
      | Some a \<Rightarrow> do {
          st \<leftarrow> createUser a name (ph_hash h) (ph_salt h);
          if st = Ok then do {
            u \<leftarrow> findAuthInfoByAccountId a;
            case u of
              None \<Rightarrow> ret (auth_failure AuthUserNotFound)
            | Some info \<Rightarrow> do {
                p \<leftarrow> createDefaultProfile (ua_userId info) (ua_accountId info) name nowMs;
                if p \<noteq> Ok then ret (auth_failure AuthInternal)
                else ret \<lparr>ar_ok = True, ar_status = AuthOk, ar_user = Some info, ar_issuedToken = None, ar_tokenExpireAtMs = None\<rparr>}}
          else register_loop name h nowMs rnds})"

definition registerUser :: "(string \<Rightarrow> string) \<Rightarrow> string option \<Rightarrow> (nat \<Rightarrow> string option) \<Rightarrow> int \<Rightarrow> string \<Rightarrow> string \<Rightarrow> AuthResult adb" where
  "registerUser sha saltRnd rnds nowMs name password =
     (if name = [] then ret (auth_failure AuthInvalidArgument)
      else if password = [] then ret (auth_failure AuthInvalidArgument)
      else if \<not> validatePasswordStrength password then ret (auth_failure WeakPassword)
      else case hashPassword sha saltRnd password of
             None \<Rightarrow> ret (auth_failure AuthInternal)
           | Some h \<Rightarrow> register_loop name h nowMs (map rnds [0..<5]))"

text \<open>\<open>None\<close> is the exception of a random generator that fails, which leaves \<open>login\<close>.\<close>

definition login :: "(string \<Rightarrow> string) \<Rightarrow> string option \<Rightarrow> int \<Rightarrow> int \<Rightarrow> accountId \<Rightarrow> string \<Rightarrow> AuthResult option adb" where
  "login sha rnd issueMs nowMs a password =
     (if a = [] \<or> password = [] then ret (Some (auth_failure AuthInvalidArgument))
      else do {
        x \<leftarrow> findAuthInfoByAccountId a;
        case x of
          None \<Rightarrow> ret (Some (auth_failure AuthUserNotFound))
        | Some u \<Rightarrow>
            if ua_status u \<noteq> 0 then ret (Some (auth_failure UserDisabled))
            else if \<not> verifyPassword sha password (ua_passwordHash u) (ua_passwordSalt u) then ret (Some (auth_failure BadPassword))
            else case issueToken sha rnd issueMs of
                   None \<Rightarrow> ret None
                 | Some tk \<Rightarrow> do {
                     st \<leftarrow> createSession \<lparr>us_userId = ua_userId u, us_accountId = ua_accountId u, us_username = ua_username u,
                       us_tokenHash = it_tokenHash tk, us_expireAtMs = it_expireAtMs tk, us_createAtMs = nowMs, us_lastSeenAtMs = nowMs,
                       us_revoked = False, us_revokedAtMs = None\<rparr>;
                     if st \<noteq> Ok then ret (Some (auth_failure AuthInternal))
                     else ret (Some \<lparr>ar_ok = True, ar_status = AuthOk, ar_user = Some u, ar_issuedToken = Some tk,
                       ar_tokenExpireAtMs = Some (it_expireAtMs tk)\<rparr>)}})"

definition loginByToken :: "(string \<Rightarrow> string) \<Rightarrow> int \<Rightarrow> string \<Rightarrow> AuthResult adb" where
  "loginByToken sha nowMs raw =
     (if raw = [] then ret (auth_failure AuthInvalidArgument)
      else let h = hashToken sha raw in
      if h = [] then ret (auth_failure InvalidToken)
      else do {
        x \<leftarrow> findByTokenHash h;
        case x of
          None \<Rightarrow> ret (auth_failure InvalidToken)
        | Some s \<Rightarrow>
            if us_revoked s then ret (auth_failure TokenRevoked)
            else if us_expireAtMs s \<le> nowMs then ret (auth_failure TokenExpired)
            else do {
              st \<leftarrow> touchSession (us_tokenHash s) nowMs;
              if st \<noteq> Ok then ret (auth_failure AuthInternal)
              else ret \<lparr>ar_ok = True, ar_status = AuthOk,
                ar_user = Some \<lparr>ua_userId = us_userId s, ua_accountId = us_accountId s, ua_username = us_username s,
                  ua_passwordHash = [], ua_passwordSalt = [], ua_status = 0\<rparr>,
                ar_issuedToken = None, ar_tokenExpireAtMs = Some (us_expireAtMs s)\<rparr>}})"

definition auth_logout :: "(string \<Rightarrow> string) \<Rightarrow> int \<Rightarrow> string \<Rightarrow> LogoutResult adb" where
  "auth_logout sha nowMs raw =
     (if raw = [] then ret (logout_result False InvalidToken False False)
      else let h = hashToken sha raw in
      if h = [] then ret (logout_result False InvalidToken False False)
      else do {
        x \<leftarrow> findByTokenHash h;
        case x of
          None \<Rightarrow> ret (logout_result False InvalidToken False False)
        | Some s \<Rightarrow>
            if us_revoked s then ret (logout_result True AuthOk False True)
            else do {
              st \<leftarrow> revokeSession h nowMs;
              ret (if st = Ok then logout_result True AuthOk True False else logout_result False AuthInternal False False)}})"

subsection \<open>Names and hashes\<close>

lemma of_char_hexDigit: "n < 16 \<Longrightarrow> (of_char (hexDigit n) :: nat) = (if n < 10 then 48 + n else 87 + n)"
  by (simp add: hexDigit_def)

lemma hexDigit_inj:
  assumes "m < 16" "n < 16" "hexDigit m = hexDigit n"
  shows "m = n"
proof -
  have "(if m < 10 then 48 + m else 87 + m) = (if n < 10 then 48 + n else 87 + n)"
    using of_char_hexDigit [OF assms(1)] of_char_hexDigit [OF assms(2)] assms(3) by simp
  with assms(1,2) show ?thesis by (auto split: if_splits)
qed

lemma hexByte_inj: "hexByte c = hexByte d \<longleftrightarrow> c = d"
proof
  assume e: "hexByte c = hexByte d"
  have "(of_char c :: nat) < 16 * 16" "(of_char d :: nat) < 16 * 16" by (simp_all del: of_char_eq_iff)
  then have "(of_char c :: nat) div 16 < 16" "(of_char d :: nat) div 16 < 16" by (blast intro: less_mult_imp_div_less)+
  then have "(of_char c :: nat) div 16 = of_char d div 16" "(of_char c :: nat) mod 16 = of_char d mod 16"
    using e by (auto simp: hexByte_def intro: hexDigit_inj)
  then have "(of_char c :: nat) = of_char d" by (metis div_mult_mod_eq)
  then show "c = d" by simp
qed simp

lemma hex_of_inj: "hex_of bs = hex_of cs \<longleftrightarrow> bs = cs"
proof (induction bs arbitrary: cs)
  case Nil
  then show ?case by (cases cs) (auto simp: hex_of_def hexByte_def)
next
  case (Cons b bs)
  show ?case
  proof (cases cs)
    case (Cons c cs')
    have "hex_of (b # bs) = hexByte b @ hex_of bs" "hex_of (c # cs') = hexByte c @ hex_of cs'" by (simp_all add: hex_of_def)
    moreover have "length (hexByte b) = length (hexByte c)" by (simp add: hexByte_def)
    ultimately show ?thesis using Cons.IH [of cs'] Cons hexByte_inj by simp
  qed (simp add: hex_of_def hexByte_def)
qed

lemma generated_named: "generateAccountId n rnd = Some a \<Longrightarrow> named a"
proof -
  assume "generateAccountId n rnd = Some a"
  then obtain bs where a: "a = ''im'' @ map (\<lambda>b. kChars ! (of_char b mod length kChars)) bs"
    by (auto simp: generateAccountId_def split: if_splits)
  have k: "length kChars = 62" "CHR ''#'' \<notin> set kChars" by code_simp+
  have "CHR ''#'' \<notin> set (map (\<lambda>b. kChars ! (of_char b mod length kChars)) bs)"
    using nth_mem [of "of_char _ mod length kChars" kChars] k by auto
  then show ?thesis by (auto simp: a named_def)
qed

lemma strength_loop_iff:
  assumes "\<not> (u \<and> l \<and> d)"
  shows "strength_loop u l d cs \<longleftrightarrow> (u \<or> (\<exists>c \<in> set cs. isupper c)) \<and> (l \<or> (\<exists>c \<in> set cs. islower c)) \<and> (d \<or> (\<exists>c \<in> set cs. isdigit c))"
  using assms
proof (induction cs arbitrary: u l d)
  case (Cons c cs)
  consider "isupper c" "\<not> islower c" "\<not> isdigit c" | "islower c" "\<not> isupper c" "\<not> isdigit c"
    | "isdigit c" "\<not> isupper c" "\<not> islower c" | "\<not> isupper c" "\<not> islower c" "\<not> isdigit c"
    by (fastforce simp: isupper_def islower_def isdigit_def)
  then show ?case
    using Cons.IH [of True l d] Cons.IH [of u True d] Cons.IH [of u l True] Cons.IH [of u l d] Cons.prems
    by cases (cases u; cases l; cases d; simp)+
qed simp

subsection \<open>What the operations do\<close>

lemma may_query_optionalE [elim!]:
  assumes "may t (query_optional sel) r t'"
  obtains (none) "r = None" "t' = t" | (some) x xs where "r = Some x" "sel t = x # xs" "t' = t"
  using assms by (auto simp: query_optional_def split: if_splits list.splits)

lemma take_one_filter: "take 1 (filter P xs) = x # ys \<Longrightarrow> x \<in> set xs \<and> P x"
proof -
  assume "take 1 (filter P xs) = x # ys"
  then have "x \<in> set (take 1 (filter P xs))" by simp
  from in_set_takeD [OF this] show ?thesis by simp
qed

definition new_user :: "accountId \<Rightarrow> string \<Rightarrow> PasswordHash \<Rightarrow> account_tables \<Rightarrow> UserAuthInfo" where
  "new_user a name h t = \<lparr>ua_userId = next_user_id t, ua_accountId = a, ua_username = name, ua_passwordHash = ph_hash h,
     ua_passwordSalt = ph_salt h, ua_status = 0\<rparr>"

definition with_user :: "accountId \<Rightarrow> string \<Rightarrow> PasswordHash \<Rightarrow> account_tables \<Rightarrow> account_tables" where
  "with_user a name h t = t\<lparr>users := users t @ [new_user a name h t], next_user_id := next_user_id t + 1\<rparr>"

lemma insert_user_Inr:
  "insert_user a name (ph_hash h) (ph_salt h) t = Inr (n, t') \<longleftrightarrow> n = 1 \<and> (\<forall>u \<in> set (users t). ua_accountId u \<noteq> a) \<and> t' = with_user a name h t"
  by (auto simp: insert_user_def with_user_def new_user_def)

lemma find_new_user:
  assumes "\<forall>u \<in> set (users t). ua_accountId u \<noteq> a"
  shows "take 1 (filter (\<lambda>u. ua_accountId u = a) (users (with_user a name h t))) = [new_user a name h t]"
proof -
  have "filter (\<lambda>u. ua_accountId u = a) (users t) = []" using assms by (simp add: filter_empty_conv)
  then show ?thesis by (simp add: with_user_def new_user_def)
qed

lemma createUser_cases:
  assumes "may t (createUser a name (ph_hash h) (ph_salt h)) st t'"
  obtains (refused) "st \<noteq> Ok" "t' = t" | (created) "st = Ok" "name \<noteq> []" "\<forall>u \<in> set (users t). ua_accountId u \<noteq> a" "t' = with_user a name h t"
  using assms by (auto simp: createUser_def insert_user_Inr split: if_splits)

lemma register_loop_effect:
  assumes "may t (register_loop name h nowMs rnds) r t'"
  shows "\<not> ar_ok r \<and> t' = t \<or> (\<exists>a. named a \<and> name \<noteq> [] \<and> (\<forall>u \<in> set (users t). ua_accountId u \<noteq> a) \<and>
    (\<not> ar_ok r \<and> t' = with_user a name h t \<or>
     (\<exists>n. ar_ok r \<and> ar_user r = Some (new_user a name h t) \<and> insert_profile (next_user_id t) a name nowMs (with_user a name h t) = Inr (n, t'))))"
  using assms
proof (induction rnds)
  case Nil
  then show ?case by (auto simp: auth_failure_def)
next
  case (Cons rnd rnds)
  show ?case
  proof (cases "generateAccountId 12 rnd")
    case None
    with Cons.prems show ?thesis by (auto simp: auth_failure_def)
  next
    case (Some a)
    note named = generated_named [OF Some]
    let ?u = "new_user a name h t"
    have a: "a \<noteq> []" using named by (simp add: named_def)
    have u: "ua_userId ?u = next_user_id t" "ua_accountId ?u = a" by (simp_all add: new_user_def)
    from Cons.prems Some obtain st t1 where c: "may t (createUser a name (ph_hash h) (ph_salt h)) st t1"
      and rest: "may t1 (if st = Ok then do {
            u \<leftarrow> findAuthInfoByAccountId a;
            case u of None \<Rightarrow> ret (auth_failure AuthUserNotFound)
            | Some info \<Rightarrow> do {
                p \<leftarrow> createDefaultProfile (ua_userId info) (ua_accountId info) name nowMs;
                if p \<noteq> Ok then ret (auth_failure AuthInternal)
                else ret \<lparr>ar_ok = True, ar_status = AuthOk, ar_user = Some info, ar_issuedToken = None, ar_tokenExpireAtMs = None\<rparr>}}
          else register_loop name h nowMs rnds) r t'" by auto
    from c show ?thesis
    proof (cases rule: createUser_cases)
      case refused
      with rest Cons.IH show ?thesis by simp
    next
      case created
      from rest created(1) obtain x t2 where f: "may t1 (findAuthInfoByAccountId a) x t2"
        and rest2: "may t2 (case x of None \<Rightarrow> ret (auth_failure AuthUserNotFound)
            | Some info \<Rightarrow> do {
                p \<leftarrow> createDefaultProfile (ua_userId info) (ua_accountId info) name nowMs;
                if p \<noteq> Ok then ret (auth_failure AuthInternal)
                else ret \<lparr>ar_ok = True, ar_status = AuthOk, ar_user = Some info, ar_issuedToken = None, ar_tokenExpireAtMs = None\<rparr>}) r t'" by auto
      have x: "x = None \<or> x = Some ?u" "t2 = t1"
        using f a find_new_user [OF created(3), of name h] by (auto simp: findAuthInfoByAccountId_def created(4))
      have "\<not> ar_ok r \<and> t' = t1 \<or> (\<exists>n. ar_ok r \<and> ar_user r = Some ?u \<and> insert_profile (next_user_id t) a name nowMs t1 = Inr (n, t'))"
      proof (cases x)
        case None
        with rest2 x(2) show ?thesis by (auto simp: auth_failure_def)
      next
        case (Some info)
        with x(1) have i: "info = ?u" by simp
        show ?thesis
          using rest2 unfolding Some i x(2) option.case u by (auto simp: createDefaultProfile_def auth_failure_def split: if_splits)
      qed
      with named created(2-4) show ?thesis by blast
    qed
  qed
qed

lemma registerUser_cases:
  assumes "may t (registerUser sha saltRnd rnds nowMs name pw) r t'"
  obtains (none) "\<not> ar_ok r" "t' = t"
    | (user) a h where "\<not> ar_ok r" "named a" "name \<noteq> []" "\<forall>u \<in> set (users t). ua_accountId u \<noteq> a" "t' = with_user a name h t"
    | (both) a h n where "hashPassword sha saltRnd pw = Some h" "validatePasswordStrength pw" "ar_ok r" "ar_user r = Some (new_user a name h t)" "named a" "name \<noteq> []"
        "\<forall>u \<in> set (users t). ua_accountId u \<noteq> a" "insert_profile (next_user_id t) a name nowMs (with_user a name h t) = Inr (n, t')"
proof (cases "name = [] \<or> pw = [] \<or> \<not> validatePasswordStrength pw \<or> hashPassword sha saltRnd pw = None")
  case True
  with assms none show ?thesis by (auto simp: registerUser_def auth_failure_def split: if_splits)
next
  case False
  then obtain h where h: "hashPassword sha saltRnd pw = Some h" by blast
  with assms False have "may t (register_loop name h nowMs (map rnds [0..<5])) r t'" by (simp add: registerUser_def)
  from register_loop_effect [OF this] show ?thesis using none user [of _ h] both [OF h] False by blast
qed

definition session_of :: "UserAuthInfo \<Rightarrow> IssuedToken \<Rightarrow> int \<Rightarrow> StoredUserSession" where
  "session_of u tk nowMs = \<lparr>us_userId = ua_userId u, us_accountId = ua_accountId u, us_username = ua_username u,
     us_tokenHash = it_tokenHash tk, us_expireAtMs = it_expireAtMs tk, us_createAtMs = nowMs, us_lastSeenAtMs = nowMs,
     us_revoked = False, us_revokedAtMs = None\<rparr>"

lemma login_cases:
  assumes "may t (login sha rnd issueMs nowMs a pw) r t'"
  obtains (none) "\<And>x. r = Some x \<Longrightarrow> \<not> ar_ok x" "t' = t"
    | (ok) u tk where "u \<in> set (users t)" "ua_accountId u = a" "ua_status u = 0" "verifyPassword sha pw (ua_passwordHash u) (ua_passwordSalt u)"
        "issueToken sha rnd issueMs = Some tk" "\<forall>s \<in> set (user_sessions t). us_tokenHash s \<noteq> it_tokenHash tk"
        "t' = t\<lparr>user_sessions := user_sessions t @ [session_of u tk nowMs]\<rparr>"
        "r = Some \<lparr>ar_ok = True, ar_status = AuthOk, ar_user = Some u, ar_issuedToken = Some tk, ar_tokenExpireAtMs = Some (it_expireAtMs tk)\<rparr>"
proof -
  have "(\<forall>x. r = Some x \<longrightarrow> \<not> ar_ok x) \<and> t' = t \<or> (\<exists>u tk xs. take 1 (filter (\<lambda>u. ua_accountId u = a) (users t)) = u # xs \<and> ua_status u = 0 \<and>
      verifyPassword sha pw (ua_passwordHash u) (ua_passwordSalt u) \<and> issueToken sha rnd issueMs = Some tk \<and>
      (\<forall>s \<in> set (user_sessions t). us_tokenHash s \<noteq> it_tokenHash tk) \<and> t' = t\<lparr>user_sessions := user_sessions t @ [session_of u tk nowMs]\<rparr> \<and>
      r = Some \<lparr>ar_ok = True, ar_status = AuthOk, ar_user = Some u, ar_issuedToken = Some tk, ar_tokenExpireAtMs = Some (it_expireAtMs tk)\<rparr>)"
    using assms
    by (auto simp: login_def findAuthInfoByAccountId_def auth_failure_def createSession_def insert_session_def session_of_def split: if_splits option.splits)
  then show thesis using none ok take_one_filter [of "\<lambda>u. ua_accountId u = a" "users t"] by blast
qed

lemma token_login_cases:
  assumes "may t (loginByToken sha nowMs raw) r t'"
  obtains (none) "\<not> ar_ok r" "t' = t"
    | (ok) s xs n where "raw \<noteq> []" "take 1 (filter (\<lambda>s. us_tokenHash s = hashToken sha raw) (user_sessions t)) = s # xs" "\<not> us_revoked s" "nowMs < us_expireAtMs s"
        "update_session (\<lambda>s. s\<lparr>us_lastSeenAtMs := nowMs\<rparr>) (us_tokenHash s) t = Inr (n, t')"
        "ar_ok r" "ar_user r = Some \<lparr>ua_userId = us_userId s, ua_accountId = us_accountId s, ua_username = us_username s,
                  ua_passwordHash = [], ua_passwordSalt = [], ua_status = 0\<rparr>" "ar_tokenExpireAtMs r = Some (us_expireAtMs s)"
proof -
  have "\<not> ar_ok r \<and> t' = t \<or> (\<exists>s xs n. raw \<noteq> [] \<and> take 1 (filter (\<lambda>s. us_tokenHash s = hashToken sha raw) (user_sessions t)) = s # xs \<and> \<not> us_revoked s \<and>
      nowMs < us_expireAtMs s \<and> update_session (\<lambda>s. s\<lparr>us_lastSeenAtMs := nowMs\<rparr>) (us_tokenHash s) t = Inr (n, t') \<and> ar_ok r \<and>
      ar_user r = Some \<lparr>ua_userId = us_userId s, ua_accountId = us_accountId s, ua_username = us_username s,
                  ua_passwordHash = [], ua_passwordSalt = [], ua_status = 0\<rparr> \<and> ar_tokenExpireAtMs r = Some (us_expireAtMs s))"
    using assms
    by (auto simp: loginByToken_def Let_def findByTokenHash_def touchSession_def execute_checked_def auth_failure_def split: if_splits)
  then show thesis using none ok by blast
qed

lemma logout_cases:
  assumes "may t (auth_logout sha nowMs raw) r t'"
  obtains (none) "\<not> lo_ok r" "t' = t"
    | (already) s xs where "lo_ok r" "take 1 (filter (\<lambda>s. us_tokenHash s = hashToken sha raw) (user_sessions t)) = s # xs" "us_revoked s" "t' = t"
    | (now) n where "lo_ok r" "update_session (\<lambda>s. s\<lparr>us_revoked := True, us_revokedAtMs := Some nowMs\<rparr>) (hashToken sha raw) t = Inr (n, t')"
proof -
  have "\<not> lo_ok r \<and> t' = t \<or> (\<exists>s xs. lo_ok r \<and> take 1 (filter (\<lambda>s. us_tokenHash s = hashToken sha raw) (user_sessions t)) = s # xs \<and> us_revoked s \<and> t' = t) \<or>
      (\<exists>n. lo_ok r \<and> update_session (\<lambda>s. s\<lparr>us_revoked := True, us_revokedAtMs := Some nowMs\<rparr>) (hashToken sha raw) t = Inr (n, t'))"
    using assms
    by (auto simp: auth_logout_def Let_def findByTokenHash_def revokeSession_def execute_checked_def logout_result_def split: if_splits)
  then show thesis using none already now by blast
qed

subsection \<open>Runs\<close>

text \<open>
  The operations of the service, of the clean-up and of an administrator who changes the status of an
  account, in any order; the label is the hash of a token issued by the step.
\<close>

inductive auth_step :: "(string \<Rightarrow> string) \<Rightarrow> string option \<Rightarrow> account_tables database \<Rightarrow> account_tables database \<Rightarrow> bool" for sha where
  registered: "run_state (registerUser sha saltRnd rnds nowMs name pw) D = (r, D') \<Longrightarrow> auth_step sha None D D'"
| logged_in: "run_state (login sha rnd issueMs nowMs a pw) D = (x, D') \<Longrightarrow> auth_step sha (map_option it_tokenHash (issueToken sha rnd issueMs)) D D'"
| by_token: "run_state (loginByToken sha nowMs raw) D = (r, D') \<Longrightarrow> auth_step sha None D D'"
| logged_out: "run_state (auth_logout sha nowMs raw) D = (l, D') \<Longrightarrow> auth_step sha None D D'"
| profile: "run_state (updateProfile uid nick avatar sig nowMs) D = (st, D') \<Longrightarrow> auth_step sha None D D'"
| cleaned_expired: "run_state (deleteExpiredBefore cutoff limit) D = (v, D') \<Longrightarrow> auth_step sha None D D'"
| cleaned_revoked: "run_state (deleteRevokedBefore cutoff limit) D = (v, D') \<Longrightarrow> auth_step sha None D D'"
| status: "auth_step sha None D (D\<lparr>tables := tables D\<lparr>users := map (\<lambda>u. if ua_accountId u = a then u\<lparr>ua_status := n\<rparr> else u) (users (tables D))\<rparr>\<rparr>)"
| environment: "auth_step sha None D (D\<lparr>outcomes := os\<rparr>)"

abbreviation auth_steps :: "(string \<Rightarrow> string) \<Rightarrow> account_tables database \<Rightarrow> account_tables database \<Rightarrow> bool" where
  "auth_steps sha \<equiv> (\<lambda>D D'. \<exists>l. auth_step sha l D D')\<^sup>*\<^sup>*"

text \<open>Runs in which no token with the hash \<open>h\<close> is issued.\<close>

abbreviation steps_without :: "(string \<Rightarrow> string) \<Rightarrow> string \<Rightarrow> account_tables database \<Rightarrow> account_tables database \<Rightarrow> bool" where
  "steps_without sha h \<equiv> (\<lambda>D D'. \<exists>l. l \<noteq> Some h \<and> auth_step sha l D D')\<^sup>*\<^sup>*"

definition owner_in :: "account_tables \<Rightarrow> nat \<Rightarrow> accountId \<Rightarrow> string \<Rightarrow> bool" where
  "owner_in t uid a name \<longleftrightarrow> (\<exists>u \<in> set (users t). ua_userId u = uid \<and> ua_accountId u = a \<and> ua_username u = name)"

definition accounts_inv :: "account_tables \<Rightarrow> bool" where
  "accounts_inv t \<longleftrightarrow> distinct (map ua_accountId (users t)) \<and> distinct (map ua_userId (users t)) \<and> 0 < next_user_id t \<and>
     (\<forall>u \<in> set (users t). 0 < ua_userId u \<and> ua_userId u < next_user_id t \<and> named (ua_accountId u)) \<and>
     distinct (map pf_accountId (profiles t)) \<and>
     (\<forall>p \<in> set (profiles t). owner_in t (pf_userId p) (pf_accountId p) (pf_username p)) \<and>
     distinct (map us_tokenHash (user_sessions t)) \<and>
     (\<forall>s \<in> set (user_sessions t). owner_in t (us_userId s) (us_accountId s) (us_username s))"

text \<open>Users stay, with their number, name, password and account; only the status changes.\<close>

definition same_user :: "UserAuthInfo \<Rightarrow> UserAuthInfo \<Rightarrow> bool" where
  "same_user u u' \<longleftrightarrow> u' = u\<lparr>ua_status := ua_status u'\<rparr>"

lemma same_userD:
  "same_user u u' \<Longrightarrow> ua_userId u' = ua_userId u \<and> ua_accountId u' = ua_accountId u \<and> ua_username u' = ua_username u \<and>
     ua_passwordHash u' = ua_passwordHash u \<and> ua_passwordSalt u' = ua_passwordSalt u"
  unfolding same_user_def by (cases u; cases u') simp

lemma same_user_refl [simp]: "same_user u u"
  by (simp add: same_user_def)

text \<open>What every step does to the tables, as one of six changes.\<close>

inductive changes :: "string option \<Rightarrow> account_tables \<Rightarrow> account_tables \<Rightarrow> bool" for l where
  same: "t' = t \<Longrightarrow> changes l t t'"
| user: "named a \<Longrightarrow> name \<noteq> [] \<Longrightarrow> \<forall>u \<in> set (users t). ua_accountId u \<noteq> a \<Longrightarrow> t' = with_user a name h t \<Longrightarrow> changes l t t'"
| user_profile: "named a \<Longrightarrow> name \<noteq> [] \<Longrightarrow> \<forall>u \<in> set (users t). ua_accountId u \<noteq> a \<Longrightarrow>
    insert_profile (next_user_id t) a name nowMs (with_user a name h t) = Inr (n, t') \<Longrightarrow> changes l t t'"
| session: "l = Some (it_tokenHash tk) \<Longrightarrow> u \<in> set (users t) \<Longrightarrow> \<forall>s \<in> set (user_sessions t). us_tokenHash s \<noteq> it_tokenHash tk \<Longrightarrow>
    t' = t\<lparr>user_sessions := user_sessions t @ [session_of u tk nowMs]\<rparr> \<Longrightarrow> changes l t t'"
| sessions: "\<forall>s. us_tokenHash (f s) = us_tokenHash s \<and> us_userId (f s) = us_userId s \<and> us_accountId (f s) = us_accountId s \<and> us_username (f s) = us_username s \<Longrightarrow>
    \<forall>s. us_revoked s \<longrightarrow> us_revoked (f s) \<Longrightarrow> t' = t\<lparr>user_sessions := map f (user_sessions t)\<rparr> \<Longrightarrow> changes l t t'"
| fewer: "t' = t\<lparr>user_sessions := delete_limited P n (user_sessions t)\<rparr> \<Longrightarrow> changes l t t'"
| profiles: "\<forall>p. pf_accountId (f p) = pf_accountId p \<and> pf_userId (f p) = pf_userId p \<and> pf_username (f p) = pf_username p \<Longrightarrow>
    t' = t\<lparr>profiles := map f (profiles t)\<rparr> \<Longrightarrow> changes l t t'"
| statuses: "\<forall>u. same_user u (g u) \<Longrightarrow> t' = t\<lparr>users := map g (users t)\<rparr> \<Longrightarrow> changes l t t'"

lemma update_session_changes:
  assumes "update_session f h t = Inr (n, t')"
    and "\<And>s. us_tokenHash (f s) = us_tokenHash s \<and> us_userId (f s) = us_userId s \<and> us_accountId (f s) = us_accountId s \<and> us_username (f s) = us_username s"
    and "\<And>s. us_revoked s \<Longrightarrow> us_revoked (f s)"
  shows "changes l t t'"
  using changes.sessions [of "\<lambda>s. if us_tokenHash s = h \<and> \<not> us_revoked s then f s else s" t' t] assms by (auto simp: update_session_def Let_def)

lemma update_profile_Inr:
  "update_profile uid nick avatar sig nowMs t = Inr (n, t') \<Longrightarrow> t' = t\<lparr>profiles := map (\<lambda>p. if pf_userId p = uid
     then p\<lparr>pf_nickname := nick, pf_avatarUrl := avatar, pf_signature := sig, pf_updateAtMs := nowMs\<rparr> else p) (profiles t)\<rparr>"
  by (simp add: update_profile_def Let_def)

lemma delete_where_changes:
  assumes "may t (delete_where P cutoff limit) v t'"
  shows "changes l t t'"
proof -
  from assms consider "t' = t" | n where "delete_sessions P limit t = Inr (n, t')" by (auto simp: delete_where_def split: if_splits)
  then show ?thesis
  proof cases
    case 1
    then show ?thesis by (rule changes.same)
  next
    case 2
    then have "t' = t\<lparr>user_sessions := delete_limited P limit (user_sessions t)\<rparr>" by (simp add: delete_sessions_def Let_def)
    then show ?thesis by (rule changes.fewer)
  qed
qed

lemma auth_step_changes: "auth_step sha l D D' \<Longrightarrow> changes l (tables D) (tables D')"
proof (induction rule: auth_step.induct)
  case (registered saltRnd rnds nowMs name pw D r D')
  from mayI [OF registered] show ?case by (cases rule: registerUser_cases) (auto intro: changes.intros)
next
  case (logged_in rnd issueMs nowMs a pw D x D')
  from mayI [OF logged_in] show ?case by (cases rule: login_cases) (auto intro: changes.same changes.session)
next
  case (by_token nowMs raw D r D')
  from mayI [OF by_token] show ?case
    by (cases rule: token_login_cases) (auto intro: changes.same elim: update_session_changes)
next
  case (logged_out nowMs raw D l D')
  from mayI [OF logged_out] show ?case
    by (cases rule: logout_cases) (auto intro: changes.same elim: update_session_changes)
next
  case (profile uid nick avatar sig nowMs D st D')
  from mayI [OF profile] consider "tables D' = tables D" | n where "update_profile uid nick avatar sig nowMs (tables D) = Inr (n, tables D')"
    by (auto simp: updateProfile_def split: if_splits)
  then show ?case
  proof cases
    case 1
    then show ?thesis by (rule changes.same)
  next
    case 2
    from update_profile_Inr [OF 2] show ?thesis by (rule changes.profiles [rotated]) simp
  qed
next
  case (cleaned_expired cutoff limit D v D')
  from mayI [OF cleaned_expired, unfolded deleteExpiredBefore_def] show ?case by (rule delete_where_changes)
next
  case (cleaned_revoked cutoff limit D v D')
  from mayI [OF cleaned_revoked, unfolded deleteRevokedBefore_def] show ?case by (rule delete_where_changes)
next
  case (status D a n)
  show ?case by (rule changes.statuses [where g="\<lambda>u. if ua_accountId u = a then u\<lparr>ua_status := n\<rparr> else u"]) (simp_all add: same_user_def)
qed (simp add: changes.same)

lemma set_delete_limited: "set (delete_limited P n xs) \<subseteq> set xs"
  by (induction P n xs rule: delete_limited.induct) auto

lemma distinct_delete_limited: "distinct (map f xs) \<Longrightarrow> distinct (map f (delete_limited P n xs))"
proof (induction P n xs rule: delete_limited.induct)
  case (3 P n x xs)
  then show ?case using set_delete_limited [of P "Suc n" xs] by auto
qed simp_all

lemma changes_users: "changes l t t' \<Longrightarrow> u \<in> set (users t) \<Longrightarrow> \<exists>u' \<in> set (users t'). same_user u u'"
proof (induction rule: changes.induct)
  case (statuses g t' t)
  then have "g u \<in> set (users t')" "same_user u (g u)" by auto
  then show ?case by blast
qed (auto simp: with_user_def insert_profile_def split: if_splits intro!: bexI [of _ u])

lemma changes_owner: "changes l t t' \<Longrightarrow> owner_in t uid a name \<Longrightarrow> owner_in t' uid a name"
proof -
  assume c: "changes l t t'" and "owner_in t uid a name"
  then obtain u where u: "u \<in> set (users t)" "ua_userId u = uid" "ua_accountId u = a" "ua_username u = name" by (auto simp: owner_in_def)
  from changes_users [OF c u(1)] obtain u' where "u' \<in> set (users t')" "same_user u u'" by blast
  with same_userD [of u u'] u show ?thesis by (auto simp: owner_in_def)
qed

lemma accounts_invD:
  assumes "accounts_inv t"
  shows "distinct (map ua_accountId (users t))" "distinct (map us_tokenHash (user_sessions t))"
    "u \<in> set (users t) \<Longrightarrow> 0 < ua_userId u \<and> ua_userId u < next_user_id t \<and> named (ua_accountId u)"
    "s \<in> set (user_sessions t) \<Longrightarrow> owner_in t (us_userId s) (us_accountId s) (us_username s)"
  using assms by (auto simp: accounts_inv_def)

text \<open>Profiles and sessions keep their owners in every change; the rest of the invariant is about the changed table.\<close>

lemma accounts_inv_user:
  assumes "accounts_inv t" "named a" "\<forall>u \<in> set (users t). ua_accountId u \<noteq> a"
  shows "accounts_inv (with_user a name h t)"
proof -
  have c: "owner_in t uid x n \<Longrightarrow> owner_in (with_user a name h t) uid x n" for uid x n by (auto simp: owner_in_def with_user_def)
  have "next_user_id t \<notin> ua_userId ` set (users t)" "a \<notin> ua_accountId ` set (users t)" using assms(1,3) by (fastforce simp: accounts_inv_def)+
  then have "distinct (map ua_accountId (users (with_user a name h t))) \<and> distinct (map ua_userId (users (with_user a name h t)))"
    using assms(1) by (simp add: accounts_inv_def with_user_def new_user_def)
  moreover have "0 < ua_userId u \<and> ua_userId u < next_user_id (with_user a name h t) \<and> named (ua_accountId u)" if "u \<in> set (users (with_user a name h t))" for u
    using assms(1,2) that accounts_invD(3) [OF assms(1), of u] by (auto simp: with_user_def new_user_def accounts_inv_def)
  moreover have "profiles (with_user a name h t) = profiles t" "user_sessions (with_user a name h t) = user_sessions t" "next_user_id (with_user a name h t) = Suc (next_user_id t)"
    by (simp_all add: with_user_def)
  ultimately show ?thesis using assms(1) c unfolding accounts_inv_def by simp
qed

lemma changes_inv: "changes l t t' \<Longrightarrow> accounts_inv t \<Longrightarrow> accounts_inv t'"
proof (induction rule: changes.induct)
  case (user a name t t' h)
  then show ?case using accounts_inv_user by simp
next
  case (user_profile a name t nowMs h n t')
  let ?t = "with_user a name h t"
  have inv: "accounts_inv ?t" using user_profile accounts_inv_user by blast
  have own: "owner_in ?t (next_user_id t) a name" by (auto simp: owner_in_def with_user_def new_user_def)
  have fresh: "\<forall>p \<in> set (profiles ?t). pf_userId p \<noteq> next_user_id t \<and> pf_accountId p \<noteq> a"
    and t': "t' = ?t\<lparr>profiles := profiles ?t @ [\<lparr>pf_userId = next_user_id t, pf_accountId = a, pf_username = name, pf_nickname = name,
             pf_avatarUrl = [], pf_signature = [], pf_updateAtMs = nowMs\<rparr>]\<rparr>"
    using user_profile(4) by (auto simp: insert_profile_def split: if_splits)
  have "owner_in t' uid x y \<longleftrightarrow> owner_in ?t uid x y" for uid x y by (simp add: t' owner_in_def)
  with inv own fresh show ?case unfolding accounts_inv_def by (auto simp: t')
next
  case (session tk u t t' nowMs)
  have "owner_in t (ua_userId u) (ua_accountId u) (ua_username u)" using session by (auto simp: owner_in_def)
  moreover have "owner_in t' uid x y \<longleftrightarrow> owner_in t uid x y" for uid x y by (simp add: session owner_in_def)
  ultimately show ?case using session unfolding accounts_inv_def by (auto simp: session_of_def)
next
  case (sessions f t' t)
  have "owner_in t' uid x y \<longleftrightarrow> owner_in t uid x y" for uid x y by (simp add: sessions owner_in_def)
  moreover have "us_tokenHash \<circ> f = us_tokenHash" using sessions(1) by auto
  ultimately show ?case using sessions unfolding accounts_inv_def by simp
next
  case (fewer t' P n t)
  have "owner_in t' uid x y \<longleftrightarrow> owner_in t uid x y" for uid x y by (simp add: fewer owner_in_def)
  with fewer show ?case
    using set_delete_limited [of P n "user_sessions t"] distinct_delete_limited [of us_tokenHash "user_sessions t" P n] unfolding accounts_inv_def by auto
next
  case (profiles f t' t)
  have "owner_in t' x y z \<longleftrightarrow> owner_in t x y z" for x y z by (simp add: profiles owner_in_def)
  moreover have "pf_accountId \<circ> f = pf_accountId" using profiles(1) by auto
  ultimately show ?case using profiles unfolding accounts_inv_def by simp
next
  case (statuses g t' t)
  have g: "ua_accountId (g u) = ua_accountId u" "ua_userId (g u) = ua_userId u" "ua_username (g u) = ua_username u" for u
    using statuses(1) same_userD [of u "g u"] by simp_all
  have "owner_in t' x y z \<longleftrightarrow> owner_in t x y z" for x y z by (simp add: statuses(2) owner_in_def g)
  moreover have "ua_accountId \<circ> g = ua_accountId" "ua_userId \<circ> g = ua_userId" using g by auto
  ultimately show ?case using statuses(3) g unfolding accounts_inv_def by (simp add: statuses(2))
qed simp

lemma auth_steps_inv: "auth_steps sha D D' \<Longrightarrow> accounts_inv (tables D) \<Longrightarrow> accounts_inv (tables D')"
  by (induction rule: rtranclp_induct) (auto dest: auth_step_changes changes_inv)

lemma accounts_inv_new: "accounts_inv account_tables_new"
  by (simp add: accounts_inv_def account_tables_new_def)

text \<open>A token is dead when no row for its hash is still valid.\<close>

definition dead :: "string \<Rightarrow> account_tables \<Rightarrow> bool" where
  "dead h t \<longleftrightarrow> (\<forall>s \<in> set (user_sessions t). us_tokenHash s = h \<longrightarrow> us_revoked s)"

lemma insert_profile_frame:
  "insert_profile uid a name nowMs t = Inr (n, t') \<Longrightarrow> user_sessions t' = user_sessions t \<and> users t' = users t"
  by (auto simp: insert_profile_def split: if_splits)

lemma dead_step:
  assumes "auth_step sha l D D'" "l \<noteq> Some h" "dead h (tables D)"
  shows "dead h (tables D')"
  using auth_step_changes [OF assms(1)]
proof (cases rule: changes.cases)
  case (fewer P n)
  then show ?thesis using assms(3) set_delete_limited [of P n] by (auto simp: dead_def)
next
  case (user_profile a name nowMs h n)
  from insert_profile_frame [OF user_profile(4)] have "user_sessions (tables D') = user_sessions (tables D)" by (simp add: with_user_def)
  with assms(3) show ?thesis by (simp add: dead_def)
qed (use assms(2,3) in \<open>auto simp: dead_def with_user_def session_of_def\<close>)

lemma dead_steps: "steps_without sha h D D' \<Longrightarrow> dead h (tables D) \<Longrightarrow> dead h (tables D')"
  by (induction rule: rtranclp_induct) (auto dest: dead_step)

lemma logout_dead:
  assumes "may t (auth_logout sha nowMs raw) r t'" "lo_ok r" "accounts_inv t"
  shows "dead (hashToken sha raw) t'"
  using assms(1)
proof (cases rule: logout_cases)
  case (already s xs)
  have s: "s \<in> set (user_sessions t)" "us_tokenHash s = hashToken sha raw" using take_one_filter [OF already(2)] by simp_all
  have "x = s" if "x \<in> set (user_sessions t)" "us_tokenHash x = hashToken sha raw" for x
    using accounts_invD(2) [OF assms(3)] that s by (metis distinct_map inj_onD)
  with already show ?thesis by (auto simp: dead_def)
next
  case (now n)
  then show ?thesis by (auto simp: update_session_def Let_def dead_def)
qed (use assms(2) in simp)

lemma steps_users:
  "auth_steps sha D D' \<Longrightarrow> u \<in> set (users (tables D)) \<Longrightarrow> \<exists>u' \<in> set (users (tables D')). same_user u u'"
proof (induction rule: rtranclp_induct)
  case base
  then show ?case by (auto intro: bexI [of _ u])
next
  case (step D1 D2)
  then obtain u1 l where u1: "u1 \<in> set (users (tables D1))" "same_user u u1" "auth_step sha l D1 D2" by blast
  from changes_users [OF auth_step_changes [OF u1(3)] u1(1)] obtain u2 where "u2 \<in> set (users (tables D2))" "same_user u1 u2" by blast
  moreover have "same_user u u2" using u1(2) \<open>same_user u1 u2\<close> unfolding same_user_def by (cases u; cases u1; cases u2) simp
  ultimately show ?case by blast
qed

lemma find_user:
  assumes "accounts_inv t" "u \<in> set (users t)"
  shows "filter (\<lambda>x. ua_accountId x = ua_accountId u) (users t) = [u]"
proof -
  have "filter (\<lambda>x. f x = f u) xs = [u]" if "distinct (map f xs)" "u \<in> set xs" for f :: "UserAuthInfo \<Rightarrow> string" and xs
    using that
  proof (induction xs)
    case (Cons x xs)
    then show ?case by (cases "x = u") (auto simp: filter_empty_conv image_iff)
  qed simp
  with accounts_invD(1) [OF assms(1)] assms(2) show ?thesis by blast
qed

subsection \<open>Properties\<close>

text \<open>
  C27. What is accepted as a password: between 8 and 32 bytes with an upper case letter, a lower case
  letter and a digit. The loop that stops as soon as it has seen all three decides just that.
\<close>

theorem password_strength_exact:
  "validatePasswordStrength pw \<longleftrightarrow> 8 \<le> length pw \<and> length pw \<le> 32 \<and>
     (\<exists>c \<in> set pw. isupper c) \<and> (\<exists>c \<in> set pw. islower c) \<and> (\<exists>c \<in> set pw. isdigit c)"
  by (auto simp: validatePasswordStrength_def strength_loop_iff)

text \<open>
  C23. In every run users, profiles and login tokens stay well-formed, whatever fails: account names and
  numbers are unique and well-formed, no two tokens share a hash, and every profile and every token
  belongs to a user with the same number, account and name. A registration that fails half-way may
  leave a user without a profile, but never a profile or a token without its user.
\<close>

theorem accounts_well_formed:
  assumes "auth_steps sha \<lparr>tables = account_tables_new, outcomes = os\<rparr> D"
  shows "accounts_inv (tables D)"
  using auth_steps_inv [OF assms] accounts_inv_new by simp

text \<open>
  C24. After a successful registration the password that was chosen, and any other with the same salted
  hash, logs in, as long as the account is enabled and the database works; every other password is
  refused as wrong. This holds in every later state, whatever happened in between.
\<close>

theorem registered_user_logs_in:
  assumes "auth_steps sha \<lparr>tables = account_tables_new, outcomes = os\<rparr> D"
    and "run_state (registerUser sha saltRnd rnds nowMs name pw) D = (r, D1)" "ar_ok r" "ar_user r = Some u"
    and "auth_steps sha D1 D2" "outcomes D2 = []" "\<forall>x \<in> set (users (tables D2)). ua_status x = 0"
    and "pw' \<noteq> []" "issueToken sha rnd issueMs = Some tk" "\<forall>x. sha x \<noteq> []" "saltRnd \<noteq> Some []"
    and "\<forall>s \<in> set (user_sessions (tables D2)). us_tokenHash s \<noteq> it_tokenHash tk"
  shows "case fst (run_state (login sha rnd issueMs loginMs (ua_accountId u) pw') D2) of
      None \<Rightarrow> False
    | Some l \<Rightarrow> if sha (pw' @ ua_passwordSalt u) = sha (pw @ ua_passwordSalt u)
               then ar_ok l \<and> map_option ua_userId (ar_user l) = Some (ua_userId u) \<and> ar_issuedToken l = Some tk
               else \<not> ar_ok l \<and> ar_status l = BadPassword"
proof -
  from mayI [OF assms(2)] assms(3,4) obtain h a n where h: "hashPassword sha saltRnd pw = Some h" "u = new_user a name h (tables D)" "named a" "name \<noteq> []"
    "insert_profile (next_user_id (tables D)) a name nowMs (with_user a name h (tables D)) = Inr (n, tables D1)"
    by (cases rule: registerUser_cases) auto
  have u1: "u \<in> set (users (tables D1))" using insert_profile_frame [OF h(5)] by (simp add: with_user_def h(2))
  from steps_users [OF assms(5) u1] obtain u2 where u2: "u2 \<in> set (users (tables D2))" "same_user u u2" by blast
  have "auth_step sha None D D1" using auth_step.registered [OF assms(2)] .
  with rtranclp.rtrancl_into_rtrancl [OF assms(1)] have "auth_steps sha \<lparr>tables = account_tables_new, outcomes = os\<rparr> D1" by blast
  from rtranclp_trans [OF this assms(5)] have inv: "accounts_inv (tables D2)" using auth_steps_inv [of sha "\<lparr>tables = account_tables_new, outcomes = os\<rparr>" D2] accounts_inv_new by simp
  have found: "filter (\<lambda>x. ua_accountId x = ua_accountId u) (users (tables D2)) = [u2]"
    using find_user [OF inv u2(1)] same_userD [OF u2(2)] by simp
  have st: "ua_status u2 = 0" using assms(7) u2(1) by blast
  note same = same_userD [OF u2(2)]
  have salt: "ua_passwordSalt u \<noteq> []" "ua_passwordHash u = hex_of (sha (pw @ ua_passwordSalt u))" "ua_username u \<noteq> []" "ua_accountId u \<noteq> []" "pw \<noteq> []"
    using h(1,3,4) assms(11) by (auto simp: h(2) new_user_def hashPassword_def generateSalt_def calculateHash_def hex_of_def hexByte_def named_def split: if_splits)
  have sha: "hex_of (sha x) \<noteq> []" for x using assms(10) hex_of_inj [of "sha x" "[]"] by (metis hex_of_def concat.simps(1) list.simps(8))
  have ver: "verifyPassword sha pw' (ua_passwordHash u2) (ua_passwordSalt u2) \<longleftrightarrow> sha (pw' @ ua_passwordSalt u) = sha (pw @ ua_passwordSalt u)"
    using same salt sha assms(8) by (simp add: verifyPassword_def calculateHash_def hex_of_inj)
  have tk: "it_tokenHash tk \<noteq> []" using assms(9) sha by (auto simp: issueToken_def Let_def)
  show ?thesis
    using found st ver tk same salt assms(6,8,9,12)
    by (simp add: login_def findAuthInfoByAccountId_def query_optional_def acquire_def outcome_def queryPrepared_def createSession_def
        executePrepared_def insert_session_def auth_failure_def)
qed

text \<open>
  C25. A token works only while it should: a login by token succeeds only for a token that was issued, was
  not revoked and has not expired, identifies the user the token was issued to, and moves only the time
  it was last seen; a failed one changes nothing.
\<close>

theorem token_login_sound:
  assumes "auth_steps sha \<lparr>tables = account_tables_new, outcomes = os\<rparr> D" "run_state (loginByToken sha nowMs raw) D = (r, D')"
  shows "if ar_ok r then \<exists>s \<in> set (user_sessions (tables D)). us_tokenHash s = hashToken sha raw \<and> \<not> us_revoked s \<and> nowMs < us_expireAtMs s \<and>
        (\<exists>u \<in> set (users (tables D)). ua_userId u = us_userId s \<and> ua_accountId u = us_accountId s \<and> ua_username u = us_username s \<and>
           ar_user r = Some (u\<lparr>ua_passwordHash := [], ua_passwordSalt := [], ua_status := 0\<rparr>)) \<and>
        tables D' = (tables D)\<lparr>user_sessions := map (\<lambda>x. if x = s then x\<lparr>us_lastSeenAtMs := nowMs\<rparr> else x) (user_sessions (tables D))\<rparr>
      else tables D' = tables D"
proof -
  have inv: "accounts_inv (tables D)" using auth_steps_inv [OF assms(1)] accounts_inv_new by simp
  from mayI [OF assms(2)] show ?thesis
  proof (cases rule: token_login_cases)
    case (ok s xs n)
    have s: "s \<in> set (user_sessions (tables D))" "us_tokenHash s = hashToken sha raw" using take_one_filter [OF ok(2)] by simp_all
    have only: "us_tokenHash x = us_tokenHash s \<and> \<not> us_revoked x \<longleftrightarrow> x = s" if "x \<in> set (user_sessions (tables D))" for x
      using accounts_invD(2) [OF inv] that s(1) ok(3) by (metis distinct_map inj_onD)
    then have upd: "map (\<lambda>x. if us_tokenHash x = us_tokenHash s \<and> \<not> us_revoked x then x\<lparr>us_lastSeenAtMs := nowMs\<rparr> else x) (user_sessions (tables D)) =
        map (\<lambda>x. if x = s then x\<lparr>us_lastSeenAtMs := nowMs\<rparr> else x) (user_sessions (tables D))" by simp
    have t': "tables D' = (tables D)\<lparr>user_sessions := map (\<lambda>x. if x = s then x\<lparr>us_lastSeenAtMs := nowMs\<rparr> else x) (user_sessions (tables D))\<rparr>"
      using ok(5) unfolding update_session_def Let_def upd by simp
    from accounts_invD(4) [OF inv s(1)] obtain u where u: "u \<in> set (users (tables D))" "ua_userId u = us_userId s" "ua_accountId u = us_accountId s" "ua_username u = us_username s"
      by (auto simp: owner_in_def)
    have "ar_user r = Some (u\<lparr>ua_passwordHash := [], ua_passwordSalt := [], ua_status := 0\<rparr>)"
      using u(2-4) by (simp add: ok(7))
    with ok(3,4,6) s u t' show ?thesis by auto
  qed simp
qed

text \<open>
  C26. Logging out is final: once a logout of a token was answered with success, no login with that token
  succeeds in any later state, unless the random generator issues the same token hash again.
\<close>

theorem logout_is_final:
  assumes "auth_steps sha \<lparr>tables = account_tables_new, outcomes = os\<rparr> D"
    and "run_state (auth_logout sha nowMs raw) D = (l, D1)" "lo_ok l" "steps_without sha (hashToken sha raw) D1 D2"
    and "run_state (loginByToken sha laterMs raw) D2 = (r, D3)"
  shows "\<not> ar_ok r"
proof -
  have inv: "accounts_inv (tables D)" using auth_steps_inv [OF assms(1)] accounts_inv_new by simp
  have "dead (hashToken sha raw) (tables D2)" using dead_steps [OF assms(4) logout_dead [OF mayI [OF assms(2)] assms(3) inv]] .
  from mayI [OF assms(5)] this show ?thesis
  proof (cases rule: token_login_cases)
    case (ok s xs n)
    with \<open>dead (hashToken sha raw) (tables D2)\<close> take_one_filter [OF ok(2)] show ?thesis by (auto simp: dead_def)
  qed
qed

subsection \<open>A run\<close>

definition demo_sha :: "string \<Rightarrow> string" where
  "demo_sha x = take 1 (x @ ''.'')"

definition demo_start :: "account_tables database" where
  "demo_start = \<lparr>tables = account_tables_new, outcomes = []\<rparr>"

definition demo_registered :: "account_tables database" where
  "demo_registered = snd (run_state (registerUser demo_sha (Some ''s'') (\<lambda>i. Some ''0'') 5 ''Amy'' ''Secret123'') demo_start)"

definition demo_user :: UserAuthInfo where
  "demo_user = the (ar_user (fst (run_state (registerUser demo_sha (Some ''s'') (\<lambda>i. Some ''0'') 5 ''Amy'' ''Secret123'') demo_start)))"

definition demo_token :: IssuedToken where
  "demo_token = the (issueToken demo_sha (Some ''t'') 9)"

definition demo_logged_in :: "account_tables database" where
  "demo_logged_in = snd (run_state (login demo_sha (Some ''t'') 9 9 (ua_accountId demo_user) ''Secret123'') demo_registered)"

definition demo_logged_out :: "account_tables database" where
  "demo_logged_out = snd (run_state (auth_logout demo_sha 12 (it_rawToken demo_token)) demo_logged_in)"

lemma demo_sha_nonempty: "demo_sha x \<noteq> []"
  by (cases x) (simp_all add: demo_sha_def)

lemma demo_registration:
  "run_state (registerUser demo_sha (Some ''s'') (\<lambda>i. Some ''0'') 5 ''Amy'' ''Secret123'') demo_start =
     (fst (run_state (registerUser demo_sha (Some ''s'') (\<lambda>i. Some ''0'') 5 ''Amy'' ''Secret123'') demo_start), demo_registered)"
  by (simp add: demo_registered_def)

lemma demo_registered_reached: "auth_steps demo_sha demo_start demo_registered"
  using auth_step.registered [OF demo_registration] by blast

lemma demo_logged_in_reached: "auth_steps demo_sha demo_start demo_logged_in"
proof -
  have "run_state (login demo_sha (Some ''t'') 9 9 (ua_accountId demo_user) ''Secret123'') demo_registered =
    (fst (run_state (login demo_sha (Some ''t'') 9 9 (ua_accountId demo_user) ''Secret123'') demo_registered), demo_logged_in)" by (simp add: demo_logged_in_def)
  from rtranclp.rtrancl_into_rtrancl [OF demo_registered_reached] auth_step.logged_in [OF this] show ?thesis by blast
qed

theorem accounts_well_formed_witness: "accounts_inv (tables demo_logged_in) \<and> length (user_sessions (tables demo_logged_in)) = 1"
proof -
  have "length (user_sessions (tables demo_logged_in)) = 1" by code_simp
  with accounts_well_formed [OF demo_logged_in_reached [unfolded demo_start_def]] show ?thesis by blast
qed

theorem registered_user_logs_in_witness:
  "case fst (run_state (login demo_sha (Some ''t'') 9 9 (ua_accountId demo_user) ''Wrong1234'') demo_registered) of
     None \<Rightarrow> False | Some l \<Rightarrow> \<not> ar_ok l \<and> ar_status l = BadPassword"
proof -
  let ?r = "fst (run_state (registerUser demo_sha (Some ''s'') (\<lambda>i. Some ''0'') 5 ''Amy'' ''Secret123'') demo_start)"
  have ok: "ar_ok ?r" "ar_user ?r = Some demo_user" "outcomes demo_registered = []" "\<forall>x \<in> set (users (tables demo_registered)). ua_status x = 0"
    "user_sessions (tables demo_registered) = []" "demo_sha (''Wrong1234'' @ ua_passwordSalt demo_user) \<noteq> demo_sha (''Secret123'' @ ua_passwordSalt demo_user)"
    by code_simp+
  have tk: "issueToken demo_sha (Some ''t'') 9 = Some demo_token" by (simp add: demo_token_def issueToken_def)
  have "case fst (run_state (login demo_sha (Some ''t'') 9 9 (ua_accountId demo_user) ''Wrong1234'') demo_registered) of
      None \<Rightarrow> False
    | Some l \<Rightarrow> if demo_sha (''Wrong1234'' @ ua_passwordSalt demo_user) = demo_sha (''Secret123'' @ ua_passwordSalt demo_user)
               then ar_ok l \<and> map_option ua_userId (ar_user l) = Some (ua_userId demo_user) \<and> ar_issuedToken l = Some demo_token
               else \<not> ar_ok l \<and> ar_status l = BadPassword"
    by (rule registered_user_logs_in [of demo_sha "[]" demo_start, OF _ demo_registration ok(1,2) _ ok(3,4) _ tk])
      (use ok(5) demo_sha_nonempty in \<open>simp_all add: demo_start_def\<close>)
  with ok(6) show ?thesis by (simp split: option.splits)
qed

theorem token_login_sound_witness:
  "\<exists>u \<in> set (users (tables demo_logged_in)). ua_accountId u = ua_accountId demo_user"
proof -
  obtain r D' where r: "run_state (loginByToken demo_sha 10 (it_rawToken demo_token)) demo_logged_in = (r, D')" by (metis surj_pair)
  have "ar_ok (fst (run_state (loginByToken demo_sha 10 (it_rawToken demo_token)) demo_logged_in))"
    "\<forall>s \<in> set (user_sessions (tables demo_logged_in)). us_accountId s = ua_accountId demo_user" by code_simp+
  with token_login_sound [OF demo_logged_in_reached [unfolded demo_start_def] r] r show ?thesis by fastforce
qed

theorem logout_is_final_witness: "\<not> ar_ok (fst (run_state (loginByToken demo_sha 13 (it_rawToken demo_token)) demo_logged_out))"
proof -
  let ?raw = "it_rawToken demo_token"
  have l: "run_state (auth_logout demo_sha 12 ?raw) demo_logged_in = (fst (run_state (auth_logout demo_sha 12 ?raw) demo_logged_in), demo_logged_out)"
    by (simp add: demo_logged_out_def)
  have ok: "lo_ok (fst (run_state (auth_logout demo_sha 12 ?raw) demo_logged_in))" by code_simp
  have r: "run_state (loginByToken demo_sha 13 ?raw) demo_logged_out = (fst (run_state (loginByToken demo_sha 13 ?raw) demo_logged_out), snd (run_state (loginByToken demo_sha 13 ?raw) demo_logged_out))"
    by simp
  show ?thesis by (rule logout_is_final [OF demo_logged_in_reached [unfolded demo_start_def] l ok _ r]) simp
qed

text \<open>
  A login by token does not look at the status of the account: an account that has been disabled is
  refused its password but still logs in with a token issued before.
\<close>

theorem disabled_account_keeps_tokens:
  "let D = demo_logged_in\<lparr>tables := (tables demo_logged_in)\<lparr>users := map (\<lambda>u. if ua_accountId u = ua_accountId demo_user then u\<lparr>ua_status := 1\<rparr> else u) (users (tables demo_logged_in))\<rparr>\<rparr>
   in map_option ar_status (fst (run_state (login demo_sha (Some ''x'') 10 10 (ua_accountId demo_user) ''Secret123'') D)) = Some UserDisabled \<and>
      ar_ok (fst (run_state (loginByToken demo_sha 10 (it_rawToken demo_token)) D))"
  by code_simp

end
