(* ===== verification/Friends.thy ===== *)
theory Friends
  imports Accounts
begin

text \<open>
  Friends: the relations (\<open>src/src/storage/sql/SqlFriendRepo.cpp\<close>) and requests (\<open>src/src/storage/sql/SqlFriendRequestRepo.cpp\<close>)
  in the database, with the types of \<open>src/include/storage/types/FriendTypes.h\<close>, and the service over them
  (\<open>src/src/im/FriendService.cpp\<close>), which also looks up profiles. The column \<open>pending_pair_key\<close> of \<open>src/sql/schema.sql\<close>
  is the key of the two accounts while a request is pending; its uniqueness is checked by the insert.
\<close>

subsection \<open>Types and tables\<close>

datatype FriendRequestStatus = RequestPending | RequestAccepted | RequestRejected | RequestCancelled

definition friendRequestStatusFromInt :: "nat \<Rightarrow> FriendRequestStatus" where
  "friendRequestStatusFromInt v =
     (if v = 0 then RequestPending else if v = 1 then RequestAccepted else if v = 2 then RequestRejected
      else if v = 3 then RequestCancelled else RequestPending)"

record FriendRequest =
  fq_requestId :: nat
  fq_requestAccountId :: accountId
  fq_receiveAccountId :: accountId
  fq_status :: FriendRequestStatus
  fq_createdAtMs :: int
  fq_handledAtMs :: "int option"

record FriendRequestView =
  fv_requestId :: nat
  fv_requesterAccountId :: accountId
  fv_username :: string
  fv_nickname :: string
  fv_avatarUrl :: string
  fv_createdAtMs :: int

record relation_row =
  rel_created_at_ms :: int
  rel_status :: nat

record friend_request_row =
  fr_requester :: accountId
  fr_receiver :: accountId
  fr_status :: nat
  fr_created_at_ms :: int
  fr_handled_at_ms :: "int option"

record friend_tables =
  relations :: "((accountId \<times> accountId) \<times> relation_row) list"
  friend_requests :: "(nat \<times> friend_request_row) list"
  next_friend_request :: nat

type_synonym 'a fdb = "(friend_tables, 'a) db"

definition friend_tables_new :: friend_tables where
  "friend_tables_new = \<lparr>relations = [], friend_requests = [], next_friend_request = 1\<rparr>"

subsection \<open>Statements\<close>

text \<open>\<open>INSERT ... ON DUPLICATE KEY UPDATE status=1,created_at_ms=?\<close>.\<close>

definition upsert_relation :: "accountId \<Rightarrow> accountId \<Rightarrow> int \<Rightarrow> friend_tables \<Rightarrow> int + nat \<times> friend_tables" where
  "upsert_relation a b nowMs t = Inr (1, t\<lparr>relations := AList.update (a, b) \<lparr>rel_created_at_ms = nowMs, rel_status = 1\<rparr> (relations t)\<rparr>)"

definition end_relation :: "accountId \<Rightarrow> accountId \<Rightarrow> friend_tables \<Rightarrow> int + nat \<times> friend_tables" where
  "end_relation a b t =
     (case map_of (relations t) (a, b) of
        Some r \<Rightarrow> if rel_status r = 1 then Inr (1, t\<lparr>relations := AList.update (a, b) (r\<lparr>rel_status := 2\<rparr>) (relations t)\<rparr>) else Inr (0, t)
      | None \<Rightarrow> Inr (0, t))"

definition select_active :: "accountId \<Rightarrow> accountId \<Rightarrow> friend_tables \<Rightarrow> relation_row list" where
  "select_active a b t = (case map_of (relations t) (a, b) of Some r \<Rightarrow> if rel_status r = 1 then [r] else [] | None \<Rightarrow> [])"

text \<open>The identifier of the new row is what the insert returns.\<close>

definition insert_friend_request :: "accountId \<Rightarrow> accountId \<Rightarrow> int \<Rightarrow> friend_tables \<Rightarrow> int + nat \<times> friend_tables" where
  "insert_friend_request a b nowMs t =
     (if \<exists>(i, r) \<in> set (friend_requests t). fr_status r = 0 \<and> buildDirectConversationKey (fr_requester r) (fr_receiver r) = buildDirectConversationKey a b
      then Inl 1062
      else Inr (next_friend_request t, t\<lparr>friend_requests := friend_requests t @ [(next_friend_request t,
             \<lparr>fr_requester = a, fr_receiver = b, fr_status = 0, fr_created_at_ms = nowMs, fr_handled_at_ms = None\<rparr>)],
             next_friend_request := next_friend_request t + 1\<rparr>))"

definition select_request_by_id :: "nat \<Rightarrow> friend_tables \<Rightarrow> (nat \<times> friend_request_row) list" where
  "select_request_by_id i t = (case map_of (friend_requests t) i of None \<Rightarrow> [] | Some r \<Rightarrow> [(i, r)])"

definition settle_friend_request :: "nat \<Rightarrow> (friend_request_row \<Rightarrow> bool) \<Rightarrow> int \<Rightarrow> nat \<Rightarrow> friend_tables \<Rightarrow> int + nat \<times> friend_tables" where
  "settle_friend_request st P nowMs i t =
     (case map_of (friend_requests t) i of
        Some r \<Rightarrow> if P r \<and> fr_status r = 0
                 then Inr (1, t\<lparr>friend_requests := AList.update i (r\<lparr>fr_status := st, fr_handled_at_ms := Some nowMs\<rparr>) (friend_requests t)\<rparr>)
                 else Inr (0, t)
      | None \<Rightarrow> Inr (0, t))"

definition handled_requests :: "int \<Rightarrow> nat \<Rightarrow> friend_tables \<Rightarrow> nat list" where
  "handled_requests cutoff limit t =
     map fst (take limit (sort_key (\<lambda>(i, r). the (fr_handled_at_ms r))
       (filter (\<lambda>(i, r). (fr_status r = 1 \<or> fr_status r = 2) \<and> (case fr_handled_at_ms r of None \<Rightarrow> False | Some at \<Rightarrow> at < cutoff)) (friend_requests t))))"

definition delete_handled_requests :: "int \<Rightarrow> nat \<Rightarrow> friend_tables \<Rightarrow> int + nat \<times> friend_tables" where
  "delete_handled_requests cutoff limit t =
     (let is = handled_requests cutoff limit t
      in Inr (length is, t\<lparr>friend_requests := filter (\<lambda>(i, r). i \<notin> set is) (friend_requests t)\<rparr>))"

subsection \<open>Repositories\<close>

definition addFriendPair :: "accountId \<Rightarrow> accountId \<Rightarrow> int \<Rightarrow> RepoStatus fdb" where
  "addFriendPair a b nowMs =
     (if a = [] \<or> b = [] then ret InvalidArgument
      else if a = b then ret CannotAddYourself
      else do {
        c \<leftarrow> acquire;
        if \<not> c then ret SqlError
        else with_transaction SqlError (do {
          r1 \<leftarrow> executePrepared (upsert_relation a b nowMs);
          if mapSqlErrorToRepoStatus r1 = AlreadyExists then ret (Inl AlreadyExists) else do {
          r2 \<leftarrow> executePrepared (upsert_relation b a nowMs);
          if mapSqlErrorToRepoStatus r2 = AlreadyExists then ret (Inl AlreadyExists)
          else case (r1, r2) of (Inr _, Inr _) \<Rightarrow> ret (Inr Ok) | _ \<Rightarrow> ret (Inl SqlError)}})})"

definition removeFriendPair :: "accountId \<Rightarrow> accountId \<Rightarrow> RepoStatus fdb" where
  "removeFriendPair a b =
     (if a = [] \<or> b = [] then ret InvalidArgument
      else if a = b then ret InvalidArgument
      else do {
        c \<leftarrow> acquire;
        if \<not> c then ret SqlError
        else with_transaction SqlError (do {
          r1 \<leftarrow> executePrepared (end_relation a b);
          case r1 of Inl _ \<Rightarrow> ret (Inl NotFound) | Inr n1 \<Rightarrow>
          if n1 = 0 then ret (Inl NotFound) else do {
          r2 \<leftarrow> executePrepared (end_relation b a);
          case r2 of Inl _ \<Rightarrow> ret (Inl NotFound) | Inr n2 \<Rightarrow>
          if n2 = 0 then ret (Inl NotFound) else ret (Inr Ok)}})})"

definition repo_areFriends :: "accountId \<Rightarrow> accountId \<Rightarrow> bool fdb" where
  "repo_areFriends a b = (if a = [] \<or> b = [] then ret False else do {r \<leftarrow> query_optional (select_active a b); ret (r \<noteq> None)})"

definition listFriendAccountIds :: "accountId \<Rightarrow> accountId list fdb" where
  "listFriendAccountIds a =
     (if a = [] then ret []
      else do {
        c \<leftarrow> acquire;
        if \<not> c then ret []
        else do {
          r \<leftarrow> queryPrepared (\<lambda>t. map (snd \<circ> fst) (filter (\<lambda>(k, r). fst k = a \<and> rel_status r = 1) (relations t)));
          case r of Inl _ \<Rightarrow> ret [] | Inr rows \<Rightarrow> ret rows}})"

definition createPendingRequest :: "accountId \<Rightarrow> accountId \<Rightarrow> int \<Rightarrow> nat repo_value fdb" where
  "createPendingRequest a b nowMs =
     (if a = [] \<or> b = [] then ret (InvalidArgument, None)
      else if a = b then ret (CannotAddYourself, None)
      else do {
        c \<leftarrow> acquire;
        if \<not> c then ret (Internal, None)
        else do {
          r \<leftarrow> executePrepared (insert_friend_request a b nowMs);
          case r of Inr i \<Rightarrow> ret (Ok, Some i)
          | Inl _ \<Rightarrow> ret (if mapSqlErrorToRepoStatus r = AlreadyExists then AlreadyExists else SqlError, None)}})"

definition to_request :: "nat \<times> friend_request_row \<Rightarrow> FriendRequest" where
  "to_request x = \<lparr>fq_requestId = fst x, fq_requestAccountId = fr_requester (snd x), fq_receiveAccountId = fr_receiver (snd x),
     fq_status = friendRequestStatusFromInt (fr_status (snd x)), fq_createdAtMs = fr_created_at_ms (snd x), fq_handledAtMs = fr_handled_at_ms (snd x)\<rparr>"

definition listPendingIncoming :: "accountId \<Rightarrow> FriendRequest list repo_value fdb" where
  "listPendingIncoming a =
     (if a = [] then ret (InvalidArgument, None)
      else do {
        c \<leftarrow> acquire;
        if \<not> c then ret (Internal, None)
        else do {
          r \<leftarrow> queryPrepared (\<lambda>t. sort_key fst (filter (\<lambda>(i, r). fr_receiver r = a \<and> fr_status r = 0) (friend_requests t)));
          case r of Inl _ \<Rightarrow> ret (SqlError, None) | Inr rows \<Rightarrow>
          if rows = [] then ret (NotFound, None) else ret (Ok, Some (map to_request rows))}})"

definition findById :: "nat \<Rightarrow> FriendRequest repo_value fdb" where
  "findById i =
     (if i = 0 then ret (InvalidArgument, None)
      else do {
        r \<leftarrow> queryPrepared (select_request_by_id i);
        case r of Inl _ \<Rightarrow> ret (SqlError, None) | Inr [] \<Rightarrow> ret (NotFound, None) | Inr (row # _) \<Rightarrow> ret (Ok, Some (to_request row))})"

text \<open>The value returned by a rejection does not carry the time of creation.\<close>

definition rejectPending :: "nat \<Rightarrow> accountId \<Rightarrow> int \<Rightarrow> FriendRequest repo_value fdb" where
  "rejectPending i a nowMs =
     (if i = 0 \<or> a = [] then ret (InvalidArgument, None)
      else do {
        c \<leftarrow> acquire;
        if \<not> c then ret (Internal, None)
        else with_transaction (Internal, None) (do {
          (st, v) \<leftarrow> findById i;
          case v of None \<Rightarrow> ret (Inl (st, v)) | Some q \<Rightarrow>
          if st \<noteq> Ok then ret (Inl (st, v))
          else if fq_status q \<noteq> RequestPending then ret (Inl (AlreadyHandled, None))
          else if fq_receiveAccountId q \<noteq> a then ret (Inl (Forbidden, None))
          else do {
            u \<leftarrow> executePrepared (settle_friend_request 2 (\<lambda>r. fr_receiver r = a) nowMs i);
            case u of Inl _ \<Rightarrow> ret (Inl (SqlError, None)) | Inr n \<Rightarrow>
            if n = 0 then ret (Inl (NotFound, None))
            else ret (Inr (Ok, Some (q\<lparr>fq_status := RequestRejected, fq_createdAtMs := 0, fq_handledAtMs := Some nowMs\<rparr>)))}})})"

definition acceptPendingAndCreateFriendPair :: "nat \<Rightarrow> accountId \<Rightarrow> int \<Rightarrow> FriendRequest repo_value fdb" where
  "acceptPendingAndCreateFriendPair i a nowMs =
     (if i = 0 \<or> a = [] then ret (InvalidArgument, None)
      else do {
        c \<leftarrow> acquire;
        if \<not> c then ret (Internal, None)
        else with_transaction (SqlError, None) (do {
          (st, v) \<leftarrow> findById i;
          case v of None \<Rightarrow> ret (Inl (st, v)) | Some q \<Rightarrow>
          if st \<noteq> Ok then ret (Inl (st, v))
          else if fq_status q \<noteq> RequestPending then ret (Inl (AlreadyHandled, None))
          else if fq_receiveAccountId q \<noteq> a then ret (Inl (Forbidden, None))
          else do {
            u \<leftarrow> executePrepared (settle_friend_request 1 (\<lambda>r. True) nowMs i);
            case u of Inl _ \<Rightarrow> ret (Inl (SqlError, None)) | Inr n \<Rightarrow>
            if n = 0 then ret (Inl (NotFound, None)) else do {
            r1 \<leftarrow> executePrepared (upsert_relation (fq_requestAccountId q) (fq_receiveAccountId q) nowMs);
            case r1 of Inl _ \<Rightarrow> ret (Inl (if mapSqlErrorToRepoStatus r1 = AlreadyExists then AlreadyExists else SqlError, None)) | Inr _ \<Rightarrow> do {
            r2 \<leftarrow> executePrepared (upsert_relation (fq_receiveAccountId q) (fq_requestAccountId q) nowMs);
            case r2 of Inl _ \<Rightarrow> ret (Inl (if mapSqlErrorToRepoStatus r2 = AlreadyExists then AlreadyExists else SqlError, None)) | Inr _ \<Rightarrow>
            ret (Inr (Ok, Some (q\<lparr>fq_status := RequestAccepted, fq_handledAtMs := Some nowMs\<rparr>)))}}}})})"

definition friend_deleteHandledBefore :: "int \<Rightarrow> nat \<Rightarrow> nat repo_value fdb" where
  "friend_deleteHandledBefore cutoff limit =
     (if cutoff < 0 then ret (InvalidArgument, None)
      else do {
        c \<leftarrow> acquire;
        if \<not> c then ret (Internal, None)
        else do {
          r \<leftarrow> executePrepared (delete_handled_requests cutoff limit);
          case r of Inl _ \<Rightarrow> ret (SqlError, None) | Inr n \<Rightarrow> ret (Ok, Some n)}})"

subsection \<open>The service\<close>

record social =
  accounts :: "account_tables database"
  friends :: "friend_tables database"

definition in_accounts :: "'a adb \<Rightarrow> (social, 'a) state" where
  "in_accounts m = State (\<lambda>S. case run_state m (accounts S) of (r, D) \<Rightarrow> (r, S\<lparr>accounts := D\<rparr>))"

definition in_friends :: "'a fdb \<Rightarrow> (social, 'a) state" where
  "in_friends m = State (\<lambda>S. case run_state m (friends S) of (r, D) \<Rightarrow> (r, S\<lparr>friends := D\<rparr>))"

definition findUser :: "accountId \<Rightarrow> (social, UserProfileRow option) state" where
  "findUser a = (if a = [] then ret None else in_accounts (profile_findByAccountId a))"

definition listFriends :: "accountId \<Rightarrow> (social, UserProfileRow list) state" where
  "listFriends a = (if a = [] then ret [] else do {as \<leftarrow> in_friends (listFriendAccountIds a); in_accounts (profile_findByAccountIds as)})"

definition svc_areFriends :: "accountId \<Rightarrow> accountId \<Rightarrow> (social, bool) state" where
  "svc_areFriends a b = (if a = [] \<or> b = [] then ret False else in_friends (repo_areFriends a b))"

definition removeFriend :: "accountId \<Rightarrow> accountId \<Rightarrow> (social, RepoStatus) state" where
  "removeFriend a b =
     (if a = [] \<or> b = [] then ret InvalidArgument
      else if a = b then ret InvalidArgument
      else do {
        f \<leftarrow> svc_areFriends a b;
        if \<not> f then ret NotFriends else in_friends (removeFriendPair a b)})"

definition sendRequest :: "accountId \<Rightarrow> accountId \<Rightarrow> int \<Rightarrow> (social, nat repo_value) state" where
  "sendRequest a b nowMs =
     (if a = [] \<or> b = [] then ret (InvalidArgument, None)
      else if a = b then ret (CannotAddYourself, None)
      else do {
        u \<leftarrow> findUser b;
        if u = None then ret (NotFound, None) else do {
        f \<leftarrow> svc_areFriends a b;
        if f then ret (AlreadyFriends, None) else in_friends (createPendingRequest a b nowMs)}})"

definition listIncomingRequests :: "accountId \<Rightarrow> (social, FriendRequestView list) state" where
  "listIncomingRequests a =
     (if a = [] then ret []
      else do {
        (st, v) \<leftarrow> in_friends (listPendingIncoming a);
        case v of None \<Rightarrow> ret [] | Some qs \<Rightarrow>
        if st \<noteq> Ok \<or> qs = [] then ret [] else do {
        ps \<leftarrow> in_accounts (profile_findByAccountIds (map fq_requestAccountId qs));
        if ps = [] then ret []
        else ret (map (\<lambda>q. let p = find (\<lambda>p. pf_accountId p = fq_requestAccountId q) ps in
               \<lparr>fv_requestId = fq_requestId q, fv_requesterAccountId = fq_requestAccountId q,
                fv_username = (case p of None \<Rightarrow> [] | Some p \<Rightarrow> pf_username p), fv_nickname = (case p of None \<Rightarrow> [] | Some p \<Rightarrow> pf_nickname p),
                fv_avatarUrl = (case p of None \<Rightarrow> [] | Some p \<Rightarrow> pf_avatarUrl p), fv_createdAtMs = fq_createdAtMs q\<rparr>) qs)}})"

definition acceptRequest :: "accountId \<Rightarrow> nat \<Rightarrow> int \<Rightarrow> (social, FriendRequest repo_value) state" where
  "acceptRequest a i nowMs = (if a = [] then ret (InvalidArgument, None) else in_friends (acceptPendingAndCreateFriendPair i a nowMs))"

definition rejectRequest :: "accountId \<Rightarrow> nat \<Rightarrow> int \<Rightarrow> (social, FriendRequest repo_value) state" where
  "rejectRequest a i nowMs = (if a = [] then ret (InvalidArgument, None) else in_friends (rejectPending i a nowMs))"

subsection \<open>What the operations may do to the tables\<close>

definition active :: "friend_tables \<Rightarrow> accountId \<Rightarrow> accountId \<Rightarrow> bool" where
  "active t a b \<longleftrightarrow> (\<exists>r. map_of (relations t) (a, b) = Some r \<and> rel_status r = 1)"

lemma select_active_iff: "select_active a b t \<noteq> [] \<longleftrightarrow> active t a b"
  by (auto simp: select_active_def active_def split: option.splits)

definition put_relation :: "accountId \<Rightarrow> accountId \<Rightarrow> relation_row \<Rightarrow> friend_tables \<Rightarrow> friend_tables" where
  "put_relation a b r t = t\<lparr>relations := AList.update (a, b) r (relations t)\<rparr>"

definition put_request :: "nat \<Rightarrow> friend_request_row \<Rightarrow> friend_tables \<Rightarrow> friend_tables" where
  "put_request i q t = t\<lparr>friend_requests := AList.update i q (friend_requests t)\<rparr>"

definition add_request :: "friend_request_row \<Rightarrow> friend_tables \<Rightarrow> friend_tables" where
  "add_request q t = t\<lparr>friend_requests := friend_requests t @ [(next_friend_request t, q)], next_friend_request := Suc (next_friend_request t)\<rparr>"

definition keep_requests :: "(nat \<Rightarrow> bool) \<Rightarrow> friend_tables \<Rightarrow> friend_tables" where
  "keep_requests P t = t\<lparr>friend_requests := filter (\<lambda>(i, r). P i) (friend_requests t)\<rparr>"

definition request_of :: "accountId \<Rightarrow> accountId \<Rightarrow> int \<Rightarrow> friend_request_row" where
  "request_of a b nowMs = \<lparr>fr_requester = a, fr_receiver = b, fr_status = 0, fr_created_at_ms = nowMs, fr_handled_at_ms = None\<rparr>"

definition pair_pending :: "friend_tables \<Rightarrow> accountId \<Rightarrow> accountId \<Rightarrow> bool" where
  "pair_pending t a b \<longleftrightarrow> (\<exists>(i, r) \<in> set (friend_requests t). fr_status r = 0 \<and>
     buildDirectConversationKey (fr_requester r) (fr_receiver r) = buildDirectConversationKey a b)"

lemmas put_simps [simp] =
  put_relation_def put_request_def add_request_def keep_requests_def

lemma upsert_relation_Inr:
  "upsert_relation a b nowMs t = Inr (n, t') \<longleftrightarrow> n = 1 \<and> t' = put_relation a b \<lparr>rel_created_at_ms = nowMs, rel_status = 1\<rparr> t"
  by (auto simp: upsert_relation_def)

lemma end_relation_Inr:
  "end_relation a b t = Inr (n, t') \<Longrightarrow> n \<noteq> 0 \<Longrightarrow>
     \<exists>r. map_of (relations t) (a, b) = Some r \<and> rel_status r = 1 \<and> t' = put_relation a b (r\<lparr>rel_status := 2\<rparr>) t"
  by (auto simp: end_relation_def split: option.splits if_splits)

lemma insert_friend_request_Inr:
  "insert_friend_request a b nowMs t = Inr (n, t') \<longleftrightarrow> \<not> pair_pending t a b \<and> n = next_friend_request t \<and> t' = add_request (request_of a b nowMs) t"
  by (auto simp: insert_friend_request_def pair_pending_def request_of_def)

lemma settle_friend_request_Inr:
  "settle_friend_request st P nowMs i t = Inr (n, t') \<Longrightarrow> n \<noteq> 0 \<Longrightarrow>
     \<exists>r. map_of (friend_requests t) i = Some r \<and> P r \<and> fr_status r = 0 \<and> t' = put_request i (r\<lparr>fr_status := st, fr_handled_at_ms := Some nowMs\<rparr>) t"
  by (auto simp: settle_friend_request_def split: option.splits if_splits)

declare put_simps [simp del]

lemma may_findByIdE:
  assumes "may t (findById i) v t'"
  obtains (none) st where "v = (st, None)" "st \<noteq> Ok" "t' = t"
    | (some) r where "map_of (friend_requests t) i = Some r" "v = (Ok, Some (to_request (i, r)))" "t' = t"
  using assms by (auto simp: findById_def select_request_by_id_def split: if_splits list.splits option.splits)

text \<open>Friendship ends in both directions or not at all.\<close>

lemma removeFriendPair_effect:
  assumes "may t (removeFriendPair a b) st t'"
  shows "st \<noteq> Ok \<and> t' = t \<or>
    st = Ok \<and> a \<noteq> b \<and> (\<exists>r q. map_of (relations t) (a, b) = Some r \<and> rel_status r = 1 \<and> map_of (relations t) (b, a) = Some q \<and> rel_status q = 1 \<and>
      t' = put_relation b a (q\<lparr>rel_status := 2\<rparr>) (put_relation a b (r\<lparr>rel_status := 2\<rparr>) t))"
proof -
  have *: "\<exists>r q. map_of (relations t) (a, b) = Some r \<and> rel_status r = 1 \<and> map_of (relations t) (b, a) = Some q \<and> rel_status q = 1 \<and>
      t' = put_relation b a (q\<lparr>rel_status := 2\<rparr>) (put_relation a b (r\<lparr>rel_status := 2\<rparr>) t)"
    if "end_relation a b t = Inr (m, t1)" "m \<noteq> 0" "end_relation b a t1 = Inr (n, t')" "n \<noteq> 0" "a \<noteq> b" for m n t1
    using end_relation_Inr [OF that(1,2)] end_relation_Inr [OF that(3,4)] that(5) by (auto simp: put_simps update_conv)
  from assms consider "st \<noteq> Ok \<and> t' = t"
    | m t1 n where "st = Ok" "a \<noteq> b" "end_relation a b t = Inr (m, t1)" "m \<noteq> 0" "end_relation b a t1 = Inr (n, t')" "n \<noteq> 0"
    by (auto simp: removeFriendPair_def split: if_splits)
  then show ?thesis by cases (use * in blast)+
qed

lemma createPendingRequest_effect:
  assumes "may t (createPendingRequest a b nowMs) v t'"
  shows "fst v \<noteq> Ok \<and> snd v = None \<and> t' = t \<or>
    v = (Ok, Some (next_friend_request t)) \<and> a \<noteq> [] \<and> b \<noteq> [] \<and> a \<noteq> b \<and> \<not> pair_pending t a b \<and> t' = add_request (request_of a b nowMs) t"
  using assms by (auto simp: createPendingRequest_def insert_friend_request_Inr mapSqlErrorToRepoStatus_def split: if_splits)

lemma request_status_pending: "friendRequestStatusFromInt n = RequestPending \<longleftrightarrow> n \<notin> {1, 2, 3}"
  by (auto simp: friendRequestStatusFromInt_def)

lemma rejectPending_effect:
  assumes "may t (rejectPending i a nowMs) v t'"
  shows "fst v \<noteq> Ok \<and> snd v = None \<and> t' = t \<or>
    (\<exists>r. i \<noteq> 0 \<and> map_of (friend_requests t) i = Some r \<and> fr_status r = 0 \<and> fr_receiver r = a \<and>
      t' = put_request i (r\<lparr>fr_status := 2, fr_handled_at_ms := Some nowMs\<rparr>) t \<and>
      v = (Ok, Some ((to_request (i, r))\<lparr>fq_status := RequestRejected, fq_createdAtMs := 0, fq_handledAtMs := Some nowMs\<rparr>)))"
  using assms unfolding rejectPending_def
  by (fastforce split: if_splits option.splits elim!: may_findByIdE dest!: settle_friend_request_Inr simp: to_request_def)

definition befriend :: "accountId \<Rightarrow> accountId \<Rightarrow> int \<Rightarrow> friend_tables \<Rightarrow> friend_tables" where
  "befriend a b nowMs t = put_relation b a \<lparr>rel_created_at_ms = nowMs, rel_status = 1\<rparr> (put_relation a b \<lparr>rel_created_at_ms = nowMs, rel_status = 1\<rparr> t)"

lemma accept_effect:
  assumes "may t (acceptPendingAndCreateFriendPair i a nowMs) v t'"
  shows "fst v \<noteq> Ok \<and> snd v = None \<and> t' = t \<or>
    (\<exists>r. i \<noteq> 0 \<and> map_of (friend_requests t) i = Some r \<and> fr_status r = 0 \<and> fr_receiver r = a \<and>
      t' = befriend (fr_requester r) a nowMs (put_request i (r\<lparr>fr_status := 1, fr_handled_at_ms := Some nowMs\<rparr>) t) \<and>
      v = (Ok, Some ((to_request (i, r))\<lparr>fq_status := RequestAccepted, fq_handledAtMs := Some nowMs\<rparr>)))"
proof -
  from assms consider "fst v \<noteq> Ok \<and> snd v = None \<and> t' = t"
    | r n t1 m k t2 where "i \<noteq> 0" "map_of (friend_requests t) i = Some r" "fr_receiver r = a"
      "settle_friend_request 1 (\<lambda>r. True) nowMs i t = Inr (n, t1)" "n \<noteq> 0"
      "upsert_relation (fr_requester r) a nowMs t1 = Inr (m, t2)" "upsert_relation a (fr_requester r) nowMs t2 = Inr (k, t')"
      "v = (Ok, Some ((to_request (i, r))\<lparr>fq_status := RequestAccepted, fq_handledAtMs := Some nowMs\<rparr>))"
    by (auto simp: acceptPendingAndCreateFriendPair_def mapSqlErrorToRepoStatus_def to_request_def split: if_splits elim!: may_findByIdE)
  then show ?thesis
  proof cases
    case 2
    with settle_friend_request_Inr [OF 2(4,5)] show ?thesis by (auto simp: upsert_relation_Inr befriend_def)
  qed simp
qed

lemma addFriendPair_effect:
  "may t (addFriendPair a b nowMs) st t' \<Longrightarrow> st \<noteq> Ok \<and> t' = t \<or> st = Ok \<and> a \<noteq> [] \<and> b \<noteq> [] \<and> a \<noteq> b \<and> t' = befriend a b nowMs t"
  by (auto simp: addFriendPair_def upsert_relation_Inr befriend_def split: if_splits sum.splits)

lemma cleaned_effect:
  assumes "may t (friend_deleteHandledBefore cutoff limit) v t'"
  shows "\<exists>P. t' = keep_requests P t \<and> (\<forall>i. \<not> P i \<longrightarrow> (\<exists>r. (i, r) \<in> set (friend_requests t) \<and> fr_status r \<noteq> 0))"
proof -
  from assms consider "t' = t" | n where "delete_handled_requests cutoff limit t = Inr (n, t')"
    by (auto simp: friend_deleteHandledBefore_def split: if_splits)
  then show ?thesis
  proof cases
    case 1
    then show ?thesis by (intro exI [of _ "\<lambda>_. True"]) (simp add: put_simps case_prod_beta)
  next
    case 2
    have "\<exists>r. (i, r) \<in> set (friend_requests t) \<and> fr_status r \<noteq> 0" if "i \<in> set (handled_requests cutoff limit t)" for i
      using that by (force simp: handled_requests_def dest!: in_set_takeD)
    moreover have "t' = keep_requests (\<lambda>i. i \<notin> set (handled_requests cutoff limit t)) t"
      using 2 by (simp add: delete_handled_requests_def Let_def put_simps)
    ultimately show ?thesis by (intro exI [of _ "\<lambda>i. i \<notin> set (handled_requests cutoff limit t)"]) simp
  qed
qed

subsection \<open>Runs\<close>

text \<open>
  The caller of a handler is the account of its session, a registered one; the operations of the
  service, of the accounts and of the clean-up come in any order.
\<close>

definition registered_account :: "social \<Rightarrow> accountId \<Rightarrow> bool" where
  "registered_account S a \<longleftrightarrow> a \<in> ua_accountId ` set (users (tables (accounts S)))"

inductive social_step :: "(string \<Rightarrow> string) \<Rightarrow> social \<Rightarrow> social \<Rightarrow> bool" for sha where
  account: "auth_step sha l (accounts S) D \<Longrightarrow> social_step sha S (S\<lparr>accounts := D\<rparr>)"
| requested: "registered_account S a \<Longrightarrow> run_state (sendRequest a b nowMs) S = (v, S') \<Longrightarrow> social_step sha S S'"
| accepted: "run_state (acceptRequest a i nowMs) S = (w, S') \<Longrightarrow> social_step sha S S'"
| rejected: "run_state (rejectRequest a i nowMs) S = (w, S') \<Longrightarrow> social_step sha S S'"
| removed: "run_state (removeFriend a b) S = (st, S') \<Longrightarrow> social_step sha S S'"
| found: "run_state (findUser a) S = (p, S') \<Longrightarrow> social_step sha S S'"
| listed: "run_state (listFriends a) S = (ps, S') \<Longrightarrow> social_step sha S S'"
| incoming: "run_state (listIncomingRequests a) S = (vs, S') \<Longrightarrow> social_step sha S S'"
| cleaned: "run_state (friend_deleteHandledBefore cutoff limit) (friends S) = (n, D) \<Longrightarrow> social_step sha S (S\<lparr>friends := D\<rparr>)"
| environment: "social_step sha S (S\<lparr>friends := (friends S)\<lparr>outcomes := os\<rparr>\<rparr>)"

abbreviation social_steps :: "(string \<Rightarrow> string) \<Rightarrow> social \<Rightarrow> social \<Rightarrow> bool" where
  "social_steps sha \<equiv> (social_step sha)\<^sup>*\<^sup>*"

definition social_new :: "int option list \<Rightarrow> int option list \<Rightarrow> social" where
  "social_new os ps = \<lparr>accounts = \<lparr>tables = account_tables_new, outcomes = os\<rparr>, friends = \<lparr>tables = friend_tables_new, outcomes = ps\<rparr>\<rparr>"

text \<open>A program over both databases, as what it may do to the tables of each.\<close>

definition mays :: "social \<Rightarrow> (social, 'a) state \<Rightarrow> 'a \<Rightarrow> social \<Rightarrow> bool" where
  "mays S m r S' \<longleftrightarrow> run_state m S = (r, S')"

lemma mays_ret [simp]: "mays S (ret x) r S' \<longleftrightarrow> r = x \<and> S' = S"
  by (auto simp: mays_def)

lemma mays_bindE [elim!]:
  "mays S (State_Monad.bind m f) r S' \<Longrightarrow> (\<And>x S1. mays S m x S1 \<Longrightarrow> mays S1 (f x) r S' \<Longrightarrow> thesis) \<Longrightarrow> thesis"
  by (cases "run_state m S") (auto simp: mays_def)

lemma mays_in_accountsE:
  assumes "mays S (in_accounts m) r S'"
  obtains D where "S' = S\<lparr>accounts := D\<rparr>" "may (tables (accounts S)) m r (tables D)"
  using assms by (auto simp: mays_def in_accounts_def may_def split: prod.splits)

lemma mays_in_friendsE:
  assumes "mays S (in_friends m) r S'"
  obtains D where "S' = S\<lparr>friends := D\<rparr>" "may (tables (friends S)) m r (tables D)"
  using assms by (auto simp: mays_def in_friends_def may_def split: prod.splits)

text \<open>The tables behind a state; look-ups leave them as they are.\<close>

definition social_tables :: "social \<Rightarrow> account_tables \<times> friend_tables" where
  "social_tables S = (tables (accounts S), tables (friends S))"

lemma findUser_effect:
  "mays S (findUser a) p S' \<Longrightarrow> social_tables S' = social_tables S \<and> (p \<noteq> None \<longrightarrow> a \<in> pf_accountId ` set (profiles (tables (accounts S))))"
  by (auto simp: findUser_def profile_findByAccountId_def social_tables_def split: if_splits
      dest!: take_one_filter [unfolded One_nat_def] elim!: mays_in_accountsE)

lemma listFriends_effect: "mays S (listFriends a) ps S' \<Longrightarrow> social_tables S' = social_tables S"
  by (auto simp: listFriends_def listFriendAccountIds_def profile_findByAccountIds_def social_tables_def
      split: if_splits sum.splits elim!: mays_in_accountsE mays_in_friendsE)

lemma areFriends_effect:
  "mays S (svc_areFriends a b) f S' \<Longrightarrow> social_tables S' = social_tables S \<and> (f \<longrightarrow> active (tables (friends S)) a b)"
  by (auto simp: svc_areFriends_def repo_areFriends_def social_tables_def select_active_iff [symmetric] split: if_splits elim!: mays_in_friendsE)

lemma listIncoming_effect: "mays S (listIncomingRequests a) vs S' \<Longrightarrow> social_tables S' = social_tables S"
  by (auto simp: listIncomingRequests_def listPendingIncoming_def profile_findByAccountIds_def social_tables_def
      split: if_splits sum.splits option.splits elim!: mays_in_accountsE mays_in_friendsE)

lemma service_effects:
  "mays S (removeFriend a b) st S' \<Longrightarrow> tables (accounts S') = tables (accounts S) \<and>
     (tables (friends S') = tables (friends S) \<or> may (tables (friends S)) (removeFriendPair a b) st (tables (friends S')))"
  "mays S (acceptRequest a i nowMs) w S' \<Longrightarrow> tables (accounts S') = tables (accounts S) \<and>
     (a = [] \<and> w = (InvalidArgument, None) \<and> S' = S \<or> may (tables (friends S)) (acceptPendingAndCreateFriendPair i a nowMs) w (tables (friends S')))"
  "mays S (rejectRequest a i nowMs) w S' \<Longrightarrow> tables (accounts S') = tables (accounts S) \<and>
     (a = [] \<and> w = (InvalidArgument, None) \<and> S' = S \<or> may (tables (friends S)) (rejectPending i a nowMs) w (tables (friends S')))"
  by (auto simp: removeFriend_def acceptRequest_def rejectRequest_def social_tables_def split: if_splits dest!: areFriends_effect elim!: mays_in_friendsE)

lemma sendRequest_effect:
  assumes "mays S (sendRequest a b nowMs) v S'"
  shows "tables (accounts S') = tables (accounts S) \<and>
    (fst v \<noteq> Ok \<and> tables (friends S') = tables (friends S) \<or>
     b \<in> pf_accountId ` set (profiles (tables (accounts S))) \<and> may (tables (friends S)) (createPendingRequest a b nowMs) v (tables (friends S')))"
  using assms by (auto simp: sendRequest_def social_tables_def split: if_splits dest!: areFriends_effect findUser_effect elim!: mays_in_friendsE)

subsection \<open>Invariant\<close>

text \<open>What a step does to the tables of friends, the accounts of \<open>R\<close> being registered.\<close>

inductive friend_changes :: "accountId set \<Rightarrow> friend_tables \<Rightarrow> friend_tables \<Rightarrow> bool" for R where
  same: "t' = t \<Longrightarrow> friend_changes R t t'"
| ask: "a \<in> R \<Longrightarrow> b \<in> R \<Longrightarrow> a \<noteq> b \<Longrightarrow> \<not> pair_pending t a b \<Longrightarrow> t' = add_request (request_of a b nowMs) t \<Longrightarrow> friend_changes R t t'"
| accept: "map_of (friend_requests t) i = Some r \<Longrightarrow> fr_status r = 0 \<Longrightarrow>
    t' = befriend (fr_requester r) (fr_receiver r) nowMs (put_request i (r\<lparr>fr_status := 1, fr_handled_at_ms := Some nowMs\<rparr>) t) \<Longrightarrow> friend_changes R t t'"
| reject: "map_of (friend_requests t) i = Some r \<Longrightarrow> fr_status r = 0 \<Longrightarrow>
    t' = put_request i (r\<lparr>fr_status := 2, fr_handled_at_ms := Some nowMs\<rparr>) t \<Longrightarrow> friend_changes R t t'"
| remove: "a \<noteq> b \<Longrightarrow> map_of (relations t) (a, b) = Some r \<Longrightarrow> rel_status r = 1 \<Longrightarrow> map_of (relations t) (b, a) = Some q \<Longrightarrow> rel_status q = 1 \<Longrightarrow>
    t' = put_relation b a (q\<lparr>rel_status := 2\<rparr>) (put_relation a b (r\<lparr>rel_status := 2\<rparr>) t) \<Longrightarrow> friend_changes R t t'"
| clean: "\<forall>i. \<not> P i \<longrightarrow> (\<exists>r. (i, r) \<in> set (friend_requests t) \<and> fr_status r \<noteq> 0) \<Longrightarrow> t' = keep_requests P t \<Longrightarrow> friend_changes R t t'"

definition account_names :: "account_tables \<Rightarrow> accountId set" where
  "account_names t = ua_accountId ` set (users t)"

lemma account_names_named: "accounts_inv t \<Longrightarrow> a \<in> account_names t \<Longrightarrow> named a"
  by (auto simp: account_names_def dest: accounts_invD(3))

lemma profile_registered: "accounts_inv t \<Longrightarrow> pf_accountId ` set (profiles t) \<subseteq> account_names t"
proof
  fix a
  assume "accounts_inv t" "a \<in> pf_accountId ` set (profiles t)"
  then obtain p where "a = pf_accountId p" "p \<in> set (profiles t)" "owner_in t (pf_userId p) (pf_accountId p) (pf_username p)"
    by (auto simp only: accounts_inv_def)
  then show "a \<in> account_names t" by (force simp: owner_in_def account_names_def)
qed

lemma changes_names: "changes l t t' \<Longrightarrow> account_names t \<subseteq> account_names t'"
  by (auto simp: account_names_def dest!: changes_users) (metis same_userD imageI)

lemma send_changes:
  assumes "mays S (sendRequest a b nowMs) v S'" "accounts_inv (tables (accounts S))" "registered_account S a"
  shows "friend_changes (account_names (tables (accounts S))) (tables (friends S)) (tables (friends S'))"
  using sendRequest_effect [OF assms(1)]
proof (elim conjE disjE)
  assume "tables (friends S') = tables (friends S)"
  then show ?thesis by (rule friend_changes.same)
next
  assume b: "b \<in> pf_accountId ` set (profiles (tables (accounts S)))" and m: "may (tables (friends S)) (createPendingRequest a b nowMs) v (tables (friends S'))"
  have "a \<in> account_names (tables (accounts S))" "b \<in> account_names (tables (accounts S))"
    using assms(3) b profile_registered [OF assms(2)] by (auto simp: registered_account_def account_names_def)
  with createPendingRequest_effect [OF m] show ?thesis by (auto intro: friend_changes.same friend_changes.ask)
qed

lemma accept_changes: "may t (acceptPendingAndCreateFriendPair i a nowMs) w t' \<Longrightarrow> friend_changes R t t'"
  by (drule accept_effect; elim disjE exE conjE; hypsubst?) (rule friend_changes.same friend_changes.accept; (assumption | rule refl))+

lemma reject_changes: "may t (rejectPending i a nowMs) w t' \<Longrightarrow> friend_changes R t t'"
  by (drule rejectPending_effect; elim disjE exE conjE) ((rule friend_changes.same friend_changes.reject; simp; fail)+)

lemma remove_changes: "may t (removeFriendPair a b) st t' \<Longrightarrow> friend_changes R t t'"
  by (drule removeFriendPair_effect; elim disjE exE conjE) ((rule friend_changes.same friend_changes.remove; simp; fail)+)

lemma clean_changes: "may t (friend_deleteHandledBefore cutoff limit) n t' \<Longrightarrow> friend_changes R t t'"
  by (drule cleaned_effect; elim exE conjE) (rule friend_changes.clean)

lemmas repo_changes = accept_changes reject_changes remove_changes clean_changes

lemma social_step_changes:
  assumes "social_step sha S S'" "accounts_inv (tables (accounts S))"
  shows "(\<exists>l. changes l (tables (accounts S)) (tables (accounts S'))) \<and>
    friend_changes (account_names (tables (accounts S))) (tables (friends S)) (tables (friends S'))"
  using assms(1)
proof (cases rule: social_step.cases)
  case (account l D)
  then show ?thesis using auth_step_changes [OF account(2)] by (auto intro: friend_changes.same)
next
  case (requested a b nowMs v)
  have m: "mays S (sendRequest a b nowMs) v S'" using requested by (simp add: mays_def)
  from sendRequest_effect [OF m] send_changes [OF m assms(2) requested(1)] show ?thesis by (auto intro: changes.same)
next
  case (accepted a i nowMs w)
  have m: "mays S (acceptRequest a i nowMs) w S'" using accepted by (simp add: mays_def)
  from service_effects(2) [OF m] show ?thesis
    by (auto intro: changes.same friend_changes.same repo_changes)
next
  case (rejected a i nowMs w)
  have m: "mays S (rejectRequest a i nowMs) w S'" using rejected by (simp add: mays_def)
  from service_effects(3) [OF m] show ?thesis
    by (auto intro: changes.same friend_changes.same repo_changes)
next
  case (removed a b st)
  have m: "mays S (removeFriend a b) st S'" using removed by (simp add: mays_def)
  from service_effects(1) [OF m] show ?thesis
    by (auto intro: changes.same friend_changes.same repo_changes)
next
  case (cleaned cutoff limit n D)
  from repo_changes(4) [OF mayI [OF cleaned(2)]] cleaned(1) show ?thesis by (auto intro: changes.same)
next
  case (found a p)
  then show ?thesis using findUser_effect [of S a p S'] by (auto simp: mays_def social_tables_def intro: changes.same friend_changes.same)
next
  case (listed a ps)
  then show ?thesis using listFriends_effect [of S a ps S'] by (auto simp: mays_def social_tables_def intro: changes.same friend_changes.same)
next
  case (incoming a vs)
  then show ?thesis using listIncoming_effect [of S a vs S'] by (auto simp: mays_def social_tables_def intro: changes.same friend_changes.same)
qed (auto intro: changes.same friend_changes.same)

text \<open>
  The invariant, for registered accounts \<open>R\<close>: relations and requests are between two different
  registered accounts and have one row per key, friendship is mutual, and a request has an identifier
  that was given out, is pending exactly while it has not been handled, and is the only pending one of
  its two accounts.
\<close>

definition relations_inv :: "accountId set \<Rightarrow> friend_tables \<Rightarrow> bool" where
  "relations_inv R t \<longleftrightarrow>
     distinct (map fst (relations t)) \<and>
     (\<forall>a b r. map_of (relations t) (a, b) = Some r \<longrightarrow> a \<in> R \<and> b \<in> R \<and> a \<noteq> b) \<and>
     (\<forall>a b. active t a b \<longrightarrow> active t b a)"

definition request_ok :: "accountId set \<Rightarrow> nat \<Rightarrow> nat \<Rightarrow> friend_request_row \<Rightarrow> bool" where
  "request_ok R n i r \<longleftrightarrow> 0 < i \<and> i < n \<and> fr_requester r \<in> R \<and> fr_receiver r \<in> R \<and> fr_requester r \<noteq> fr_receiver r \<and>
     fr_status r \<in> {0, 1, 2} \<and> (fr_status r = 0 \<longleftrightarrow> fr_handled_at_ms r = None)"

definition one_pending :: "(nat \<rightharpoonup> friend_request_row) \<Rightarrow> bool" where
  "one_pending m \<longleftrightarrow> (\<forall>i j r q. m i = Some r \<longrightarrow> m j = Some q \<longrightarrow> fr_status r = 0 \<longrightarrow> fr_status q = 0 \<longrightarrow>
     {fr_requester r, fr_receiver r} = {fr_requester q, fr_receiver q} \<longrightarrow> i = j)"

definition requests_inv :: "accountId set \<Rightarrow> friend_tables \<Rightarrow> bool" where
  "requests_inv R t \<longleftrightarrow> distinct (map fst (friend_requests t)) \<and> 0 < next_friend_request t \<and>
     (\<forall>i r. map_of (friend_requests t) i = Some r \<longrightarrow> request_ok R (next_friend_request t) i r) \<and> one_pending (map_of (friend_requests t))"

definition friends_inv :: "accountId set \<Rightarrow> friend_tables \<Rightarrow> bool" where
  "friends_inv R t \<longleftrightarrow> relations_inv R t \<and> requests_inv R t"

lemma friends_invD:
  assumes "friends_inv R t"
  shows "map_of (relations t) (a, b) = Some p \<Longrightarrow> a \<in> R \<and> b \<in> R \<and> a \<noteq> b" "active t a b \<longleftrightarrow> active t b a"
    "map_of (friend_requests t) i = Some r \<Longrightarrow> request_ok R (next_friend_request t) i r" "one_pending (map_of (friend_requests t))"
  by (insert assms, unfold friends_inv_def relations_inv_def requests_inv_def) (elim conjE, blast)+

lemma views [simp]:
  "map_of (relations (put_relation a b r t)) = (map_of (relations t))((a, b) \<mapsto> r)" "friend_requests (put_relation a b r t) = friend_requests t"
  "map_of (friend_requests (put_request i q t)) = (map_of (friend_requests t))(i \<mapsto> q)" "relations (put_request i q t) = relations t"
  "relations (add_request q t) = relations t" "relations (keep_requests P t) = relations t"
  "next_friend_request (put_relation a b r t) = next_friend_request t" "next_friend_request (put_request i q t) = next_friend_request t"
  "next_friend_request (keep_requests P t) = next_friend_request t" "next_friend_request (add_request q t) = Suc (next_friend_request t)"
  by (simp_all add: put_simps update_conv')

lemma views_keep: "map_of (friend_requests (keep_requests P t)) i = (if P i then map_of (friend_requests t) i else None)"
proof -
  have "map_of (filter (\<lambda>(i, r). P i) al) i = (if P i then map_of al i else None)" for al :: "(nat \<times> friend_request_row) list"
    by (induction al) auto
  then show ?thesis by (simp add: put_simps)
qed

lemma views_add: "\<forall>i r. map_of (friend_requests t) i = Some r \<longrightarrow> i < next_friend_request t \<Longrightarrow>
    map_of (friend_requests (add_request q t)) = (map_of (friend_requests t))(next_friend_request t \<mapsto> q)"
  by (rule ext) (auto simp: put_simps map_add_def split: option.splits)

lemma distinct_views [simp]:
  "distinct (map fst (relations t)) \<Longrightarrow> distinct (map fst (relations (put_relation a b r t)))"
  "distinct (map fst (friend_requests t)) \<Longrightarrow> distinct (map fst (friend_requests (put_request i q t)))"
  "distinct (map fst (friend_requests t)) \<Longrightarrow> distinct (map fst (friend_requests (keep_requests P t)))"
  by (auto simp: put_simps distinct_update distinct_map_filter)

lemma active_views [simp]:
  "active (put_relation a b r t) c d \<longleftrightarrow> (if c = a \<and> d = b then rel_status r = 1 else active t c d)"
  "active (put_request i q t) c d \<longleftrightarrow> active t c d" "active (add_request q t) c d \<longleftrightarrow> active t c d" "active (keep_requests P t) c d \<longleftrightarrow> active t c d"
  by (auto simp: active_def)

lemma inv_views [simp]:
  "relations_inv R (put_request i q t) \<longleftrightarrow> relations_inv R t" "relations_inv R (add_request q t) \<longleftrightarrow> relations_inv R t"
  "relations_inv R (keep_requests P t) \<longleftrightarrow> relations_inv R t" "requests_inv R (put_relation a b r t) \<longleftrightarrow> requests_inv R t"
  by (simp_all add: relations_inv_def requests_inv_def)

lemma relations_inv_pair:
  assumes "relations_inv R t" "a \<in> R" "b \<in> R" "a \<noteq> b" "rel_status r = rel_status q"
  shows "relations_inv R (put_relation b a q (put_relation a b r t))"
  unfolding relations_inv_def
proof (intro conjI allI impI)
  show "distinct (map fst (relations (put_relation b a q (put_relation a b r t))))" using assms(1) by (simp add: relations_inv_def)
next
  fix c d p
  assume "map_of (relations (put_relation b a q (put_relation a b r t))) (c, d) = Some p"
  then have "c \<in> R \<and> d \<in> R \<and> c \<noteq> d" using assms(1-4) by (auto simp: relations_inv_def split: if_splits)
  then show "c \<in> R" "d \<in> R" "c \<noteq> d" by simp_all
next
  fix c d
  assume "active (put_relation b a q (put_relation a b r t)) c d"
  then show "active (put_relation b a q (put_relation a b r t)) d c" using assms by (auto simp: relations_inv_def split: if_splits)
qed

text \<open>Deciding a pending request leaves one pending request less.\<close>

lemma one_pending_update: "one_pending m \<Longrightarrow> fr_status q \<noteq> 0 \<Longrightarrow> one_pending (m(i \<mapsto> q))"
  unfolding one_pending_def by (metis fun_upd_apply option.inject)

lemma requests_inv_settle:
  assumes "requests_inv R t" "map_of (friend_requests t) i = Some r" "st = 1 \<or> st = 2"
  shows "requests_inv R (put_request i (r\<lparr>fr_status := st, fr_handled_at_ms := Some nowMs\<rparr>) t)"
proof -
  have "request_ok R (next_friend_request t) i (r\<lparr>fr_status := st, fr_handled_at_ms := Some nowMs\<rparr>)"
    using assms by (auto simp: requests_inv_def request_ok_def)
  moreover have "one_pending ((map_of (friend_requests t))(i \<mapsto> r\<lparr>fr_status := st, fr_handled_at_ms := Some nowMs\<rparr>))"
    using assms(1,3) by (intro one_pending_update) (auto simp: requests_inv_def)
  ultimately show ?thesis using assms(1) by (simp add: requests_inv_def)
qed

lemma one_pending_add:
  assumes "one_pending m" "\<forall>j q. m j = Some q \<longrightarrow> fr_status q = 0 \<longrightarrow> {fr_requester q, fr_receiver q} \<noteq> {fr_requester r, fr_receiver r}"
  shows "one_pending (m(i \<mapsto> r))"
  unfolding one_pending_def
proof (intro allI impI)
  fix j k p q
  assume h: "(m(i \<mapsto> r)) j = Some p" "(m(i \<mapsto> r)) k = Some q" "fr_status p = 0" "fr_status q = 0" "{fr_requester p, fr_receiver p} = {fr_requester q, fr_receiver q}"
  show "j = k"
  proof (cases "j = i"; cases "k = i")
    assume "j \<noteq> i" "k \<noteq> i"
    with h assms(1) show ?thesis unfolding one_pending_def by (metis fun_upd_apply)
  qed (use h assms(2) in \<open>fastforce+\<close>)
qed

lemma pair_pending_iff:
  assumes "requests_inv R t" "\<forall>x \<in> R. named x" "a \<in> R" "b \<in> R"
  shows "pair_pending t a b \<longleftrightarrow> (\<exists>i r. map_of (friend_requests t) i = Some r \<and> fr_status r = 0 \<and> {fr_requester r, fr_receiver r} = {a, b})"
proof -
  have "buildDirectConversationKey (fr_requester r) (fr_receiver r) = buildDirectConversationKey a b \<longleftrightarrow> {fr_requester r, fr_receiver r} = {a, b}"
    if "map_of (friend_requests t) i = Some r" for i r
    using assms that by (intro key_inj_named) (auto simp: requests_inv_def request_ok_def)
  moreover have "(i, r) \<in> set (friend_requests t) \<longleftrightarrow> map_of (friend_requests t) i = Some r" for i r
    using assms(1) by (simp add: requests_inv_def)
  ultimately show ?thesis unfolding pair_pending_def by fastforce
qed

lemma requests_inv_add:
  assumes "requests_inv R t" "\<forall>x \<in> R. named x" "a \<in> R" "b \<in> R" "a \<noteq> b" "\<not> pair_pending t a b"
  shows "requests_inv R (add_request (request_of a b nowMs) t)"
proof -
  have lt: "map_of (friend_requests t) i = Some r \<Longrightarrow> i < next_friend_request t" for i r using assms(1) by (auto simp: requests_inv_def request_ok_def)
  then have new: "next_friend_request t \<notin> fst ` set (friend_requests t)" by (metis map_of_eq_None_iff not_None_eq order_less_irrefl)
  have m: "map_of (friend_requests (add_request (request_of a b nowMs) t)) = (map_of (friend_requests t))(next_friend_request t \<mapsto> request_of a b nowMs)"
    using lt by (intro views_add) blast
  have "distinct (map fst (friend_requests (add_request (request_of a b nowMs) t)))" using assms(1) new by (simp add: put_simps requests_inv_def)
  moreover have "one_pending ((map_of (friend_requests t))(next_friend_request t \<mapsto> request_of a b nowMs))"
  proof (rule one_pending_add)
    show "one_pending (map_of (friend_requests t))" using assms(1) by (simp add: requests_inv_def)
    show "\<forall>j q. map_of (friend_requests t) j = Some q \<longrightarrow> fr_status q = 0 \<longrightarrow>
        {fr_requester q, fr_receiver q} \<noteq> {fr_requester (request_of a b nowMs), fr_receiver (request_of a b nowMs)}"
      using assms(6) pair_pending_iff [OF assms(1-4)] unfolding request_of_def friend_request_row.select_convs by blast
  qed
  moreover have "request_ok R (Suc (next_friend_request t)) i r" if "((map_of (friend_requests t))(next_friend_request t \<mapsto> request_of a b nowMs)) i = Some r" for i r
  proof (cases "i = next_friend_request t")
    case True
    then show ?thesis using that assms(1,3-5) by (auto simp: requests_inv_def request_ok_def request_of_def)
  next
    case False
    then have "request_ok R (next_friend_request t) i r" using that assms(1) by (simp add: requests_inv_def)
    then show ?thesis by (auto simp: request_ok_def)
  qed
  ultimately show ?thesis unfolding requests_inv_def m by simp
qed

lemma requests_inv_keep: "requests_inv R t \<Longrightarrow> requests_inv R (keep_requests P t)"
  unfolding requests_inv_def one_pending_def views_keep by (auto split: if_splits)

lemma friend_changes_inv:
  assumes "friend_changes R t t'" "friends_inv R t" "\<forall>x \<in> R. named x"
  shows "friends_inv R t'"
  using assms(1)
proof (cases rule: friend_changes.cases)
  case (ask a b nowMs)
  with assms show ?thesis by (simp add: friends_inv_def requests_inv_add)
next
  case (accept i r nowMs)
  with friends_invD(3) [OF assms(2) accept(1)] assms(2) show ?thesis
    by (simp add: friends_inv_def befriend_def relations_inv_pair requests_inv_settle request_ok_def)
next
  case (reject i r nowMs)
  with assms(2) show ?thesis by (simp add: friends_inv_def requests_inv_settle)
next
  case (remove a b r q)
  with friends_invD(1) [OF assms(2) remove(2)] assms(2) show ?thesis by (simp add: friends_inv_def relations_inv_pair)
next
  case (clean P)
  with assms(2) show ?thesis by (simp add: friends_inv_def requests_inv_keep)
qed (use assms(2) in simp)

definition social_inv :: "social \<Rightarrow> bool" where
  "social_inv S \<longleftrightarrow> accounts_inv (tables (accounts S)) \<and> friends_inv (account_names (tables (accounts S))) (tables (friends S))"

lemma friends_inv_mono: "friends_inv R t \<Longrightarrow> R \<subseteq> R' \<Longrightarrow> friends_inv R' t"
  unfolding friends_inv_def relations_inv_def requests_inv_def request_ok_def by blast

lemma social_step_inv:
  assumes "social_step sha S S'" "social_inv S"
  shows "social_inv S'"
proof -
  let ?R = "account_names (tables (accounts S))"
  have inv: "accounts_inv (tables (accounts S))" "friends_inv ?R (tables (friends S))" using assms(2) by (simp_all add: social_inv_def)
  from social_step_changes [OF assms(1) inv(1)] obtain l where c: "changes l (tables (accounts S)) (tables (accounts S'))"
    "friend_changes ?R (tables (friends S)) (tables (friends S'))" by blast
  have "friends_inv ?R (tables (friends S'))" using friend_changes_inv [OF c(2) inv(2)] account_names_named [OF inv(1)] by blast
  with friends_inv_mono [OF _ changes_names [OF c(1)]] changes_inv [OF c(1) inv(1)] show ?thesis by (simp add: social_inv_def)
qed

lemma social_inv_new: "social_inv (social_new os ps)"
  using accounts_inv_new
  by (simp add: social_inv_def social_new_def friends_inv_def relations_inv_def requests_inv_def one_pending_def friend_tables_new_def active_def)

lemma social_steps_inv: "social_steps sha S S' \<Longrightarrow> social_inv S \<Longrightarrow> social_inv S'"
  by (induction rule: rtranclp_induct) (blast intro: social_step_inv)+

subsection \<open>The specification\<close>

text \<open>
  What the component promises: an undirected graph of friends without loops, and open questions, at
  most one between two accounts. An edge comes only from an answered question.
\<close>

record friend_graph =
  edges :: "accountId set set"
  asked :: "nat \<rightharpoonup> accountId \<times> accountId"

definition friend_graph_new :: friend_graph where
  "friend_graph_new = \<lparr>edges = {}, asked = Map.empty\<rparr>"

inductive graph_step :: "friend_graph \<Rightarrow> friend_graph \<Rightarrow> bool" where
  stutter: "graph_step G G"
| ask: "asked G i = None \<Longrightarrow> a \<noteq> b \<Longrightarrow> \<forall>j c d. asked G j = Some (c, d) \<longrightarrow> {c, d} \<noteq> {a, b} \<Longrightarrow> graph_step G (G\<lparr>asked := (asked G)(i \<mapsto> (a, b))\<rparr>)"
| accept: "asked G i = Some (a, b) \<Longrightarrow> graph_step G \<lparr>edges = insert {a, b} (edges G), asked = (asked G)(i := None)\<rparr>"
| reject: "asked G i = Some (a, b) \<Longrightarrow> graph_step G (G\<lparr>asked := (asked G)(i := None)\<rparr>)"
| remove: "{a, b} \<in> edges G \<Longrightarrow> graph_step G (G\<lparr>edges := edges G - {{a, b}}\<rparr>)"

definition pending_of :: "friend_request_row option \<Rightarrow> (accountId \<times> accountId) option" where
  "pending_of x = (case x of Some r \<Rightarrow> if fr_status r = 0 then Some (fr_requester r, fr_receiver r) else None | None \<Rightarrow> None)"

definition graph_of :: "friend_tables \<Rightarrow> friend_graph" where
  "graph_of t = \<lparr>edges = {{a, b} | a b. active t a b}, asked = pending_of \<circ> map_of (friend_requests t)\<rparr>"

lemma pending_of_simps [simp]:
  "pending_of None = None" "fr_status r = 0 \<Longrightarrow> pending_of (Some r) = Some (fr_requester r, fr_receiver r)" "fr_status r \<noteq> 0 \<Longrightarrow> pending_of (Some r) = None"
  "pending_of x = Some (a, b) \<longleftrightarrow> (\<exists>r. x = Some r \<and> fr_status r = 0 \<and> fr_requester r = a \<and> fr_receiver r = b)"
  by (auto simp: pending_of_def split: option.splits)

lemma pending_of_upd: "pending_of \<circ> m(i \<mapsto> r) = (pending_of \<circ> m)(i := pending_of (Some r))"
  by (rule ext) simp

lemma friend_changes_graph:
  assumes "friend_changes R t t'" "friends_inv R t" "\<forall>x \<in> R. named x"
  shows "graph_step (graph_of t) (graph_of t')"
  using assms(1)
proof (cases rule: friend_changes.cases)
  case (ask a b nowMs)
  have lt: "\<forall>i r. map_of (friend_requests t) i = Some r \<longrightarrow> i < next_friend_request t" using friends_invD(3) [OF assms(2)] by (auto simp: request_ok_def)
  have req: "requests_inv R t" using assms(2) by (simp add: friends_inv_def)
  have "asked (graph_of t) (next_friend_request t) = None"
    using lt by (cases "map_of (friend_requests t) (next_friend_request t)") (auto simp: graph_of_def)
  moreover have "\<forall>j c d. asked (graph_of t) j = Some (c, d) \<longrightarrow> {c, d} \<noteq> {a, b}"
    using ask(4) unfolding pair_pending_iff [OF req assms(3) ask(1,2)] graph_of_def friend_graph.select_convs comp_apply pending_of_simps(4) by metis
  moreover have "graph_of t' = (graph_of t)\<lparr>asked := (asked (graph_of t))(next_friend_request t \<mapsto> (a, b))\<rparr>"
    using views_add [OF lt, of "request_of a b nowMs"] by (simp add: ask(5) graph_of_def pending_of_upd request_of_def)
  ultimately show ?thesis using graph_step.ask ask(3) by metis
next
  case (accept i r nowMs)
  have "{{c, d} | c d. active t' c d} = insert {fr_requester r, fr_receiver r} {{c, d} | c d. active t c d}"
  proof -
    have act: "active t' c d \<longleftrightarrow> active t c d \<or> (c = fr_requester r \<and> d = fr_receiver r) \<or> (c = fr_receiver r \<and> d = fr_requester r)" for c d
      by (auto simp: accept(3) befriend_def)
    have "{fr_receiver r, fr_requester r} = {fr_requester r, fr_receiver r}" by (rule insert_commute)
    then show ?thesis unfolding act by blast
  qed
  moreover have "asked (graph_of t) i = Some (fr_requester r, fr_receiver r)" using accept by (simp add: graph_of_def)
  note graph_step.accept [OF this]
  ultimately show ?thesis by (simp add: accept(3) befriend_def graph_of_def pending_of_upd)
next
  case (reject i r nowMs)
  have "asked (graph_of t) i = Some (fr_requester r, fr_receiver r)" using reject by (simp add: graph_of_def)
  from graph_step.reject [OF this] show ?thesis by (simp add: reject(3) graph_of_def pending_of_upd)
next
  case (remove a b r q)
  have ab: "active t a b" using remove by (simp add: active_def)
  have "{{c, d} | c d. active t' c d} = {{c, d} | c d. active t c d} - {{a, b}}"
  proof -
    have act: "active t' c d \<longleftrightarrow> active t c d \<and> {c, d} \<noteq> {a, b}" for c d
      using remove(1) unfolding remove(6) doubleton_eq_iff by auto
    show ?thesis unfolding act by blast
  qed
  moreover have "{a, b} \<in> edges (graph_of t)" using ab by (auto simp: graph_of_def)
  note graph_step.remove [OF this]
  ultimately show ?thesis by (simp add: remove(6) graph_of_def)
next
  case (clean P)
  have "pending_of \<circ> map_of (friend_requests t') = pending_of \<circ> map_of (friend_requests t)"
  proof
    fix i
    show "(pending_of \<circ> map_of (friend_requests t')) i = (pending_of \<circ> map_of (friend_requests t)) i"
    proof (cases "P i")
      case False
      with clean(1) obtain r where "(i, r) \<in> set (friend_requests t)" "fr_status r \<noteq> 0" by blast
      moreover have "distinct (map fst (friend_requests t))" using assms(2) by (simp add: friends_inv_def requests_inv_def)
      ultimately show ?thesis using False by (simp add: clean(2) views_keep)
    qed (simp add: clean(2) views_keep)
  qed
  then have "graph_of t' = graph_of t" by (simp add: graph_of_def clean(2))
  then show ?thesis by (simp add: graph_step.stutter)
qed (simp add: graph_step.stutter)

lemma social_step_graph:
  assumes "social_step sha S S'" "social_inv S"
  shows "graph_step (graph_of (tables (friends S))) (graph_of (tables (friends S')))"
proof -
  have inv: "accounts_inv (tables (accounts S))" "friends_inv (account_names (tables (accounts S))) (tables (friends S))" using assms(2) by (simp_all add: social_inv_def)
  from social_step_changes [OF assms(1) inv(1)] friend_changes_graph [OF _ inv(2)] account_names_named [OF inv(1)] show ?thesis by blast
qed

lemma social_steps_graph:
  "social_steps sha S S' \<Longrightarrow> social_inv S \<Longrightarrow> graph_step\<^sup>*\<^sup>* (graph_of (tables (friends S))) (graph_of (tables (friends S')))"
proof (induction rule: rtranclp_induct)
  case (step S1 S2)
  with social_step_graph [OF step(2)] social_steps_inv [OF step(1)] show ?case by (auto intro: rtranclp.rtrancl_into_rtrancl)
qed simp

lemma graph_of_new: "graph_of friend_tables_new = friend_graph_new"
  by (auto simp: graph_of_def friend_tables_new_def friend_graph_new_def active_def)

text \<open>A decided request stays decided, and its identifier is not given out again.\<close>

definition decided :: "nat \<Rightarrow> friend_tables \<Rightarrow> bool" where
  "decided i t \<longleftrightarrow> i < next_friend_request t \<and> (\<forall>r. map_of (friend_requests t) i = Some r \<longrightarrow> fr_status r \<noteq> 0)"

lemma decided_change:
  assumes "friend_changes R t t'" "friends_inv R t" "decided i t"
  shows "decided i t'"
  using assms(1)
proof (cases rule: friend_changes.cases)
  case (ask a b nowMs)
  have "\<forall>i r. map_of (friend_requests t) i = Some r \<longrightarrow> i < next_friend_request t" using friends_invD(3) [OF assms(2)] by (auto simp: request_ok_def)
  from views_add [OF this, of "request_of a b nowMs"] assms(3) show ?thesis by (simp add: ask(5) decided_def)
qed (use assms(3) in \<open>auto simp: decided_def befriend_def views_keep split: if_splits\<close>)

lemma decided_steps:
  assumes "social_steps sha S S'" "social_inv S" "decided i (tables (friends S))"
  shows "decided i (tables (friends S'))"
  using assms(1)
proof (induction rule: rtranclp_induct)
  case (step S1 S2)
  have "social_inv S1" using social_steps_inv [OF step(1) assms(2)] .
  then have inv: "accounts_inv (tables (accounts S1))" "friends_inv (account_names (tables (accounts S1))) (tables (friends S1))" by (simp_all add: social_inv_def)
  from social_step_changes [OF step(2) inv(1)] decided_change [OF _ inv(2) step(3)] show ?case by blast
qed (rule assms(3))

inductive decides :: "nat \<Rightarrow> social \<Rightarrow> RepoStatus \<Rightarrow> social \<Rightarrow> bool" where
  accepting: "run_state (acceptRequest a i nowMs) S = ((st, v), S') \<Longrightarrow> decides i S st S'"
| rejecting: "run_state (rejectRequest a i nowMs) S = ((st, v), S') \<Longrightarrow> decides i S st S'"

lemma decides_effect:
  assumes "decides i S st S'"
  shows "st \<noteq> Ok \<and> social_tables S' = social_tables S \<or>
    st = Ok \<and> (\<exists>r. map_of (friend_requests (tables (friends S))) i = Some r \<and> fr_status r = 0) \<and>
    (\<exists>r. map_of (friend_requests (tables (friends S'))) i = Some r \<and> fr_status r \<noteq> 0) \<and>
    next_friend_request (tables (friends S')) = next_friend_request (tables (friends S))"
  using assms
proof (cases rule: decides.cases)
  case (accepting a nowMs v)
  have "mays S (acceptRequest a i nowMs) (st, v) S'" using accepting by (simp add: mays_def)
  from service_effects(2) [OF this] show ?thesis by (auto simp: social_tables_def befriend_def dest!: accept_effect)
next
  case (rejecting a nowMs v)
  have "mays S (rejectRequest a i nowMs) (st, v) S'" using rejecting by (simp add: mays_def)
  from service_effects(3) [OF this] show ?thesis by (auto simp: social_tables_def dest!: rejectPending_effect)
qed

lemmas works_simps =
  in_friends_def in_accounts_def outcome_def acquire_def executePrepared_def queryPrepared_def with_transaction_def query_optional_def

lemma findById_works:
  "outcomes D = [] \<Longrightarrow> run_state (findById i) D =
     (if i = 0 then (InvalidArgument, None) else case map_of (friend_requests (tables D)) i of None \<Rightarrow> (NotFound, None) | Some r \<Rightarrow> (Ok, Some (to_request (i, r))), D)"
  by (simp add: findById_def works_simps select_request_by_id_def split: option.splits)

lemma acceptRequest_works:
  assumes "outcomes (friends S) = []"
  shows "fst (fst (run_state (acceptRequest a i nowMs) S)) =
     (if a = [] \<or> i = 0 then InvalidArgument
      else case map_of (friend_requests (tables (friends S))) i of
        None \<Rightarrow> NotFound
      | Some r \<Rightarrow> if fr_status r \<in> {1, 2, 3} then AlreadyHandled else if fr_receiver r \<noteq> a then Forbidden else if fr_status r \<noteq> 0 then NotFound else Ok)"
  using assms request_status_pending
  by (simp add: acceptRequest_def acceptPendingAndCreateFriendPair_def works_simps findById_works to_request_def settle_friend_request_def upsert_relation_def
      Let_def split: option.splits)

lemma rejectRequest_works:
  assumes "outcomes (friends S) = []"
  shows "fst (fst (run_state (rejectRequest a i nowMs) S)) =
     (if a = [] \<or> i = 0 then InvalidArgument
      else case map_of (friend_requests (tables (friends S))) i of
        None \<Rightarrow> NotFound
      | Some r \<Rightarrow> if fr_status r \<in> {1, 2, 3} then AlreadyHandled else if fr_receiver r \<noteq> a then Forbidden else if fr_status r \<noteq> 0 then NotFound else Ok)"
  using assms request_status_pending
  by (simp add: rejectRequest_def rejectPending_def works_simps findById_works to_request_def settle_friend_request_def
      Let_def split: option.splits)

lemma take_one_find: "take 1 (filter P xs) = (case find P xs of None \<Rightarrow> [] | Some x \<Rightarrow> [x])"
  by (induction xs) auto

lemma areFriends_works:
  "outcomes (friends S) = [] \<Longrightarrow> run_state (svc_areFriends a b) S = (a \<noteq> [] \<and> b \<noteq> [] \<and> active (tables (friends S)) a b, S)"
  by (auto simp: svc_areFriends_def repo_areFriends_def works_simps select_active_def active_def split: option.splits)

lemma outcomes_kept:
  assumes "outcomes (friends S) = []" "run_state (acceptRequest a i nowMs) S = (w, S')"
  shows "outcomes (friends S') = []"
  using assms
  by (auto simp: acceptRequest_def acceptPendingAndCreateFriendPair_def works_simps findById_works settle_friend_request_def upsert_relation_def
      Let_def split: option.splits if_splits)

subsection \<open>Properties\<close>



text \<open>
  Accepting is all or nothing under every pattern of database failures. With the result \<open>Ok\<close> the
  request was pending and addressed to the caller, it is now accepted and the two are friends in both
  directions; with any other result neither the requests nor the relations have changed.
\<close>

theorem accept_all_or_nothing:
  assumes "run_state (acceptRequest a i nowMs) S = ((st, v), S')"
  shows "if st = Ok
     then \<exists>r. map_of (friend_requests (tables (friends S))) i = Some r \<and> fr_status r = 0 \<and> fr_receiver r = a \<and>
       map_of (friend_requests (tables (friends S'))) = (map_of (friend_requests (tables (friends S))))(i \<mapsto> r\<lparr>fr_status := 1, fr_handled_at_ms := Some nowMs\<rparr>) \<and>
       (\<forall>x y. active (tables (friends S')) x y \<longleftrightarrow> active (tables (friends S)) x y \<or> (x, y) = (fr_requester r, a) \<or> (x, y) = (a, fr_requester r))
     else v = None \<and> tables (friends S') = tables (friends S)"
proof -
  have "mays S (acceptRequest a i nowMs) (st, v) S'" using assms by (simp add: mays_def)
  from service_effects(2) [OF this] show ?thesis by (auto simp: befriend_def dest!: accept_effect)
qed

text \<open>
  C30. A request is decided once. After it has been accepted or rejected, no later attempt to accept or
  reject it, by whoever and after whatever else has happened, the deletion of its row included,
  succeeds.
\<close>

theorem request_decided_once:
  assumes "social_steps sha (social_new os ps) S" "decides i S Ok S1" "social_steps sha S1 S2" "decides i S2 st S3"
  shows "st \<noteq> Ok \<and> social_tables S3 = social_tables S2"
proof -
  have inv: "social_inv S" using social_steps_inv [OF assms(1) social_inv_new] .
  have "social_step sha S S1" using assms(2) by (cases rule: decides.cases) (auto intro: social_step.intros)
  then have inv1: "social_inv S1" using inv by (rule social_step_inv)
  have "i < next_friend_request (tables (friends S))"
    using decides_effect [OF assms(2)] inv by (auto simp: social_inv_def request_ok_def dest: friends_invD(3))
  then have "decided i (tables (friends S1))" using decides_effect [OF assms(2)] by (auto simp: decided_def)
  from decided_steps [OF assms(3) inv1 this] decides_effect [OF assms(4)] show ?thesis by (auto simp: decided_def)
qed

text \<open>
  With a working database the answer to a friend request is determined by its arguments and the
  tables: empty names are refused, then oneself, then an account without a profile, then an existing
  friend, then a second request between the same two; otherwise the request is stored under a new
  identifier.
\<close>

theorem send_request_exact:
  assumes "outcomes (accounts S) = []" "outcomes (friends S) = []"
  shows "fst (run_state (sendRequest a b nowMs) S) =
     (if a = [] \<or> b = [] then (InvalidArgument, None)
      else if a = b then (CannotAddYourself, None)
      else if b \<notin> pf_accountId ` set (profiles (tables (accounts S))) then (NotFound, None)
      else if active (tables (friends S)) a b then (AlreadyFriends, None)
      else if pair_pending (tables (friends S)) a b then (AlreadyExists, None)
      else (Ok, Some (next_friend_request (tables (friends S)))))"
proof -
  have find: "run_state (findUser b) S = (find (\<lambda>p. pf_accountId p = b) (profiles (tables (accounts S))), S)" if "b \<noteq> []"
    using that assms(1) take_one_find [of "\<lambda>p. pf_accountId p = b" "profiles (tables (accounts S))"]
    by (simp add: findUser_def profile_findByAccountId_def works_simps split: list.splits option.splits)
  have none: "find (\<lambda>p. pf_accountId p = b) (profiles (tables (accounts S))) = None \<longleftrightarrow> b \<notin> pf_accountId ` set (profiles (tables (accounts S)))"
    by (auto simp: find_None_iff)
  have create: "fst (run_state (in_friends (createPendingRequest a b nowMs)) S) =
      (if pair_pending (tables (friends S)) a b then (AlreadyExists, None) else (Ok, Some (next_friend_request (tables (friends S)))))" if "a \<noteq> []" "b \<noteq> []" "a \<noteq> b"
    using that assms(2) by (simp add: createPendingRequest_def works_simps insert_friend_request_def pair_pending_def mapSqlErrorToRepoStatus_def)
  show ?thesis using assms create by (auto simp: sendRequest_def find none areFriends_works)
qed

text \<open>
  With a working database the receiver of a pending request who accepts it becomes a friend of the
  sender, and the look-up that follows reports them as friends in both directions.
\<close>

theorem acceptance_makes_friends:
  assumes "social_steps sha (social_new os ps) S" "outcomes (accounts S) = []" "outcomes (friends S) = []"
    and "map_of (friend_requests (tables (friends S))) i = Some r" "fr_status r = 0"
    and "run_state (acceptRequest (fr_receiver r) i nowMs) S = (w, S')"
  shows "fst w = Ok \<and> fst (run_state (svc_areFriends (fr_requester r) (fr_receiver r)) S') \<and> fst (run_state (svc_areFriends (fr_receiver r) (fr_requester r)) S')"
proof -
  have inv: "social_inv S" using social_steps_inv [OF assms(1) social_inv_new] .
  then have ok: "request_ok (account_names (tables (accounts S))) (next_friend_request (tables (friends S))) i r"
    using friends_invD(3) [OF _ assms(4)] by (simp add: social_inv_def)
  have "named (fr_requester r)" "named (fr_receiver r)" using ok account_names_named inv by (auto simp: request_ok_def social_inv_def)
  then have ne: "fr_requester r \<noteq> []" "fr_receiver r \<noteq> []" by (simp_all add: named_def)
  have st: "fst w = Ok" using acceptRequest_works [OF assms(3), of "fr_receiver r" i nowMs] assms(4-6) ok ne by (simp add: request_ok_def)
  have "mays S (acceptRequest (fr_receiver r) i nowMs) w S'" using assms(6) by (simp add: mays_def)
  from service_effects(2) [OF this] have "may (tables (friends S)) (acceptPendingAndCreateFriendPair i (fr_receiver r) nowMs) w (tables (friends S'))" using ne by simp
  from accept_effect [OF this] have "active (tables (friends S')) (fr_requester r) (fr_receiver r)" "active (tables (friends S')) (fr_receiver r) (fr_requester r)"
    using st assms(4) by (auto simp: befriend_def)
  with st ne areFriends_works [OF outcomes_kept [OF assms(3,6)]] show ?thesis by simp
qed

text \<open>
  With a working database the result of accepting and of rejecting is determined by the request: a
  request that does not exist is not found, one that is settled is reported as handled, one for
  somebody else is forbidden, and a pending one for the caller is decided.
\<close>

theorem decision_exact:
  assumes "outcomes (friends S) = []" "a \<noteq> []" "i \<noteq> 0"
  shows "fst (fst (run_state (acceptRequest a i nowMs) S)) = fst (fst (run_state (rejectRequest a i nowMs) S)) \<and>
    (case map_of (friend_requests (tables (friends S))) i of
       None \<Rightarrow> fst (fst (run_state (acceptRequest a i nowMs) S)) = NotFound
     | Some r \<Rightarrow> fr_status r \<le> 2 \<longrightarrow> fst (fst (run_state (acceptRequest a i nowMs) S)) =
         (if fr_status r \<noteq> 0 then AlreadyHandled else if fr_receiver r \<noteq> a then Forbidden else Ok))"
  using assms acceptRequest_works [OF assms(1), of a i nowMs] rejectRequest_works [OF assms(1), of a i nowMs]
  by (auto split: option.splits)

subsection \<open>Witnesses\<close>

lemma active_code [code]: "active t a b \<longleftrightarrow> select_active a b t \<noteq> []"
  by (rule select_active_iff [symmetric])

text \<open>Two users register, Amy asks Bob, and Bob accepts.\<close>

definition demo_reg :: "string \<Rightarrow> string \<Rightarrow> account_tables database \<Rightarrow> account_tables database" where
  "demo_reg rnd name D = snd (run_state (registerUser demo_sha (Some ''s'') (\<lambda>i. Some rnd) 5 name ''Secret123'') D)"

definition demo_both :: social where
  "demo_both = (social_new [] [])\<lparr>accounts := demo_reg ''1'' ''Bob'' (demo_reg ''0'' ''Amy'' (accounts (social_new [] [])))\<rparr>"

lemma demo_both_eq [code]:
  "demo_both =
     \<lparr>accounts = \<lparr>tables =
        \<lparr>users = [\<lparr>ua_userId = 1, ua_accountId = ''imM'', ua_username = ''Amy'', ua_passwordHash = ''53'', ua_passwordSalt = ''73'', ua_status = 0\<rparr>,
                   \<lparr>ua_userId = 2, ua_accountId = ''imN'', ua_username = ''Bob'', ua_passwordHash = ''53'', ua_passwordSalt = ''73'', ua_status = 0\<rparr>],
          next_user_id = 3,
          profiles = [\<lparr>pf_userId = 1, pf_accountId = ''imM'', pf_username = ''Amy'', pf_nickname = ''Amy'', pf_avatarUrl = [], pf_signature = [], pf_updateAtMs = 5\<rparr>,
                      \<lparr>pf_userId = 2, pf_accountId = ''imN'', pf_username = ''Bob'', pf_nickname = ''Bob'', pf_avatarUrl = [], pf_signature = [], pf_updateAtMs = 5\<rparr>],
          user_sessions = []\<rparr>, outcomes = []\<rparr>,
      friends = \<lparr>tables = \<lparr>relations = [], friend_requests = [], next_friend_request = 1\<rparr>, outcomes = []\<rparr>\<rparr>"
  by code_simp

definition demo_amy :: accountId where
  "demo_amy = ''imM''"

definition demo_bob :: accountId where
  "demo_bob = ''imN''"

definition demo_asked :: social where
  "demo_asked = snd (run_state (sendRequest demo_amy demo_bob 6) demo_both)"

definition demo_friends :: social where
  "demo_friends = snd (run_state (acceptRequest demo_bob 1 7) demo_asked)"

definition demo_question :: friend_request_row where
  "demo_question = request_of demo_amy demo_bob 6"

lemma demo_reg_step: "social_step demo_sha S (S\<lparr>accounts := demo_reg rnd name (accounts S)\<rparr>)"
  by (rule social_step.account, rule auth_step.registered [of demo_sha "Some ''s''" "\<lambda>i. Some rnd" 5 name "''Secret123''"])
    (unfold demo_reg_def, rule surjective_pairing)

lemma demo_both_reached: "social_steps demo_sha (social_new [] []) demo_both"
proof -
  let ?S = "(social_new [] [])\<lparr>accounts := demo_reg ''0'' ''Amy'' (accounts (social_new [] []))\<rparr>"
  have "social_step demo_sha (social_new [] []) ?S" by (rule demo_reg_step)
  moreover have "social_step demo_sha ?S demo_both" using demo_reg_step [of ?S "''1''" "''Bob''"] by (simp add: demo_both_def)
  ultimately show ?thesis by (meson converse_rtranclp_into_rtranclp r_into_rtranclp)
qed

lemma demo_facts:
  "registered_account demo_both demo_amy" "outcomes (accounts demo_both) = []" "outcomes (friends demo_both) = []"
  "fst (run_state (sendRequest demo_amy demo_bob 6) demo_both) = (Ok, Some 1)" "outcomes (accounts demo_asked) = []" "outcomes (friends demo_asked) = []"
  "map_of (friend_requests (tables (friends demo_asked))) 1 = Some demo_question" "fst (fst (run_state (acceptRequest demo_bob 1 7) demo_asked)) = Ok"
  "map_of (friend_requests (tables (friends demo_friends))) 1 = Some (demo_question\<lparr>fr_status := 1, fr_handled_at_ms := Some 7\<rparr>)"
  "demo_amy \<noteq> demo_bob" "active (tables (friends demo_friends)) demo_amy demo_bob" "demo_bob \<noteq> []" "outcomes (friends demo_friends) = []"
  by code_simp+

lemma demo_asked_reached: "social_steps demo_sha (social_new [] []) demo_asked"
proof -
  have "social_step demo_sha demo_both demo_asked"
    by (rule social_step.requested [OF demo_facts(1)]) (unfold demo_asked_def, rule surjective_pairing)
  with demo_both_reached show ?thesis by (rule rtranclp.rtrancl_into_rtrancl)
qed

lemma demo_accept: "run_state (acceptRequest demo_bob 1 7) demo_asked = ((Ok, snd (fst (run_state (acceptRequest demo_bob 1 7) demo_asked))), demo_friends)"
  using demo_facts(8) by (simp add: demo_friends_def prod_eq_iff)

lemma demo_friends_reached: "social_steps demo_sha (social_new [] []) demo_friends"
  using demo_asked_reached social_step.accepted [OF demo_accept] by (rule rtranclp.rtrancl_into_rtrancl)



theorem accept_all_or_nothing_witness:
  "map_of (friend_requests (tables (friends demo_friends))) 1 = Some (demo_question\<lparr>fr_status := 1, fr_handled_at_ms := Some 7\<rparr>) \<and>
   active (tables (friends demo_friends)) demo_bob demo_amy"
  using accept_all_or_nothing [OF demo_accept] demo_facts(7) by (auto simp: demo_question_def request_of_def)

theorem request_decided_once_witness: "fst (fst (run_state (rejectRequest demo_bob 1 8) demo_friends)) \<noteq> Ok"
proof -
  let ?x = "run_state (rejectRequest demo_bob 1 8) demo_friends"
  have "?x = ((fst (fst ?x), snd (fst ?x)), snd ?x)" by simp
  from decides.rejecting [OF this] show ?thesis
    using request_decided_once [OF demo_asked_reached decides.accepting [OF demo_accept] rtranclp.rtrancl_refl] by blast
qed

theorem send_request_exact_witness: "fst (run_state (sendRequest demo_bob demo_amy 8) demo_asked) = (AlreadyExists, None)"
proof -
  have "demo_amy \<in> pf_accountId ` set (profiles (tables (accounts demo_asked)))" "\<not> active (tables (friends demo_asked)) demo_bob demo_amy"
    "pair_pending (tables (friends demo_asked)) demo_bob demo_amy" "demo_amy \<noteq> []"
    by code_simp+
  with send_request_exact [OF demo_facts(5,6), of demo_bob demo_amy 8] demo_facts(10,12) show ?thesis by simp
qed

theorem acceptance_makes_friends_witness: "fst (run_state (svc_areFriends demo_amy demo_bob) demo_friends)"
proof -
  have q: "fr_receiver demo_question = demo_bob" "fr_requester demo_question = demo_amy" "fr_status demo_question = 0" by (simp_all add: demo_question_def request_of_def)
  from acceptance_makes_friends [OF demo_asked_reached demo_facts(5,6,7) q(3), unfolded q, OF demo_accept] show ?thesis by blast
qed

theorem decision_exact_witness: "fst (fst (run_state (acceptRequest demo_amy 1 7) demo_asked)) = Forbidden"
proof -
  have "demo_amy \<noteq> []" by code_simp
  from decision_exact [OF demo_facts(6) this, of 1 7] demo_facts(7,10) show ?thesis by (auto simp: demo_question_def request_of_def)
qed

end
