(* ===== verification/UserHandlers.thy ===== *)
theory UserHandlers
  imports MessageFlow Friends
begin

text \<open>
  The handlers for accounts, profiles and friends of \<open>src/src/im/ImService.cpp\<close>, which answer at once. They run
  on the base loop and use the sessions, the services of the theories \<open>Accounts\<close> and \<open>Friends\<close>, and the
  pushes of \<open>MessageService\<close>. The state of the server is that of the message paths together with the
  databases of accounts and friends; a profile and a friend relation is one row, seen by both. The calls
  of the rate limiter are recorded in their order; its verdicts come from the environment.
\<close>

subsection \<open>State\<close>

datatype limiter_call = CheckRegister string int | CheckLoginFail accountId int | ResetLoginFail accountId

record server =
  core :: im_state
  people :: social
  limiterCalls :: "limiter_call list"

text \<open>
  Like \<open>im_env\<close>, what comes from outside is read at the running number of the consultation: random bytes
  and the verdicts of the rate limits for registrations and failed logins.
\<close>

record user_env =
  ue_im :: im_env
  allowDebugAuth :: bool
  hasAuthService :: bool
  hasFriendService :: bool
  hasProfileRepo :: bool
  sha256 :: "string \<Rightarrow> string"
  saltAt :: "nat \<Rightarrow> string option"
  accountBytesAt :: "nat \<Rightarrow> nat \<Rightarrow> string option"
  tokenBytesAt :: "nat \<Rightarrow> string option"
  registerLimitAt :: "nat \<Rightarrow> RateLimitResult"
  loginFailLimitAt :: "nat \<Rightarrow> RateLimitResult"
  whatRandom :: string

text \<open>What a handler throws: what the message paths throw, or a random generator that failed.\<close>

datatype user_exn = ImError im_exn | RandomFailed

type_synonym 'a srv = "server \<Rightarrow> (user_exn + 'a) \<times> server"

definition answer :: "response \<Rightarrow> response srv" where
  "answer r X = (Inr r, X)"

definition consulted :: "server \<Rightarrow> server" where
  "consulted X = X\<lparr>core := consult (core X)\<rparr>"

definition with_people :: "social \<Rightarrow> server \<Rightarrow> server" where
  "with_people P X = X\<lparr>people := P\<rparr>"

definition with_core :: "im_state \<Rightarrow> server \<Rightarrow> server" where
  "with_core S X = X\<lparr>core := S\<rparr>"

definition ask_env :: "(nat \<Rightarrow> 'b) \<Rightarrow> ('b \<Rightarrow> 'a srv) \<Rightarrow> 'a srv" where
  "ask_env f k X = k (f (tick (core X))) (consulted X)"

definition clock_ms :: "user_env \<Rightarrow> nat \<Rightarrow> int" where
  "clock_ms env n = uint (nowAt (ue_im env) n)"

definition on_core :: "'b im \<Rightarrow> ('b \<Rightarrow> 'a srv) \<Rightarrow> 'a srv" where
  "on_core m k X = (case m (core X) of (Inl e, S) \<Rightarrow> (Inl (ImError e), with_core S X) | (Inr b, S) \<Rightarrow> k b (with_core S X))"

definition on_people :: "(social, 'b) state \<Rightarrow> ('b \<Rightarrow> 'a srv) \<Rightarrow> 'a srv" where
  "on_people m k X = (case run_state m (people X) of (b, P) \<Rightarrow> k b (with_people P X))"

definition call_limiter :: "limiter_call \<Rightarrow> server \<Rightarrow> server" where
  "call_limiter c X = X\<lparr>limiterCalls := limiterCalls X @ [c]\<rparr>"

definition on_sessions :: "(session_manager \<Rightarrow> session_manager) \<Rightarrow> server \<Rightarrow> server" where
  "on_sessions f X = X\<lparr>core := (core X)\<lparr>im_sessions := f (im_sessions (core X))\<rparr>\<rparr>"

definition with_field :: "request \<Rightarrow> string \<Rightarrow> (string \<Rightarrow> response srv) \<Rightarrow> response srv" where
  "with_field req fld k X = (case getStringField req fld False of Inl r \<Rightarrow> answer r X | Inr v \<Rightarrow> k v X)"

definition with_auth :: "request \<Rightarrow> session \<Rightarrow> response srv \<Rightarrow> response srv" where
  "with_auth req s k X = (case guardAuthenticated req s of Some r \<Rightarrow> answer r X | None \<Rightarrow> k X)"

definition refusal :: "request \<Rightarrow> ErrorCode \<Rightarrow> string \<Rightarrow> response srv" where
  "refusal req code msg = answer (makeErr req code msg JNull)"

text \<open>The message of a repository comes from the environment.\<close>

definition repo_refusal :: "user_env \<Rightarrow> request \<Rightarrow> RepoStatus \<Rightarrow> response srv" where
  "repo_refusal env req st = ask_env (textAt (ue_im env)) (\<lambda>text. answer (makeRepoError req st text))"

definition jint :: "int \<Rightarrow> json" where
  "jint i = JInt (word_of_int i)"

subsection \<open>Accounts\<close>

definition checkRateLimitOrError :: "request \<Rightarrow> RateLimitResult \<Rightarrow> response option" where
  "checkRateLimitOrError req r = (if rl_allowed r then None else Some (makeRateLimitError req r))"

definition bind_conn :: "connKey \<Rightarrow> UserAuthInfo \<Rightarrow> server \<Rightarrow> server" where
  "bind_conn key u = on_sessions (bindUser key (of_nat (ua_userId u)) (ua_accountId u) (ua_username u))"

text \<open>The debug login binds whatever account the request names; a name that is not a string throws.\<close>

definition handleAuth :: "user_env \<Rightarrow> request \<Rightarrow> connKey \<Rightarrow> session \<Rightarrow> response srv" where
  "handleAuth env req key s X =
     (if \<not> allowDebugAuth env then refusal req BAD_REQUEST ''NOT be allowed to auth,please login first'' X
      else case field ''user'' (req_body req) of
        None \<Rightarrow> refusal req MISSING_FIELD ''Missing username field'' X
      | Some v \<Rightarrow>
          (case get_string v of
             None \<Rightarrow> (Inl (ImError TypeError), X)
           | Some name \<Rightarrow>
               if name = [] then refusal req MISSING_FIELD ''username cannot be empty'' X
               else if s_state s = Authed \<and> s_username s = name then answer (makeOk req AUTH_RESP JNull ''Ok'') X
               else if s_state s = Authed \<and> s_username s \<noteq> name
               then refusal req USER_EXISTS ''User already authenticated with a different username'' X
               else with_field req ''accountId'' (\<lambda>acc X1.
                 let uid = (case field ''userId'' (req_body req) of Some (JUInt w) \<Rightarrow> w | _ \<Rightarrow> 0)
                 in answer (makeOk req AUTH_RESP JNull ''Ok'') (on_sessions (bindUser key uid acc name) X1)) X))"

text \<open>A limit is consulted with the time, and refuses the request or lets it go on.\<close>

definition with_limit :: "user_env \<Rightarrow> request \<Rightarrow> (nat \<Rightarrow> RateLimitResult) \<Rightarrow> (int \<Rightarrow> limiter_call) \<Rightarrow> response srv \<Rightarrow> response srv" where
  "with_limit env req verdict call k =
     (if hasRateLimiter (ue_im env)
      then ask_env (clock_ms env) (\<lambda>nowMs. ask_env verdict (\<lambda>l X.
        (case checkRateLimitOrError req l of Some r \<Rightarrow> answer r | None \<Rightarrow> k) (call_limiter (call nowMs) X)))
      else k)"

definition handleRegister :: "user_env \<Rightarrow> request \<Rightarrow> connKey \<Rightarrow> session \<Rightarrow> response srv" where
  "handleRegister env req key s =
     with_limit env req (registerLimitAt env) (CheckRegister (if s_peerIp s = [] then ''unknown'' else s_peerIp s))
       (with_field req ''username'' (\<lambda>name. with_field req ''password'' (\<lambda>pw.
          if \<not> hasAuthService env then refusal req INTERNAL ''authService is not exist''
          else ask_env (saltAt env) (\<lambda>salt. ask_env (accountBytesAt env) (\<lambda>rnds. ask_env (clock_ms env) (\<lambda>nowMs.
            on_people (in_accounts (registerUser (sha256 env) salt rnds nowMs name pw)) (\<lambda>r.
              if ar_ok r
              then let u = the (ar_user r) in
                   answer (makeOk req REGISTER_RESP (json_object [(''userId'', jnum (ua_userId u)), (''accountId'', JString (ua_accountId u)),
                     (''username'', JString (ua_username u))]) ''Ok'')
              else if ar_status r = AlreadyExist then refusal req USER_EXISTS ''User is alreadyexist''
              else if ar_status r = WeakPassword then refusal req WEAK_PASSWORD ''Password is too weak''
              else ask_env (textAt (ue_im env)) (\<lambda>text. refusal req INTERNAL (''internal'' @ text)))))))))"

text \<open>The password is checked before the limit on failed logins is consulted.\<close>

definition handleLogin :: "user_env \<Rightarrow> request \<Rightarrow> connKey \<Rightarrow> session \<Rightarrow> response srv" where
  "handleLogin env req key s =
     with_field req ''accountId'' (\<lambda>acc. with_field req ''password'' (\<lambda>pw.
       if s_state s = Authed
       then if acc = s_accountId s then answer (makeOk req LOGIN_RESP JNull ''Ok'') else refusal req BAD_REQUEST ''username is different''
       else if \<not> hasAuthService env then refusal req INTERNAL ''authService is not exist''
       else ask_env (tokenBytesAt env) (\<lambda>rnd. ask_env (clock_ms env) (\<lambda>issueMs. ask_env (clock_ms env) (\<lambda>nowMs.
         on_people (in_accounts (login (sha256 env) rnd issueMs nowMs acc pw)) (\<lambda>x.
           case x of None \<Rightarrow> (\<lambda>X. (Inl RandomFailed, X)) | Some r \<Rightarrow>
           if \<not> ar_ok r
           then if ar_status r = AuthUserNotFound then refusal req USER_NOT_FOUND ''User is not exist''
                else if ar_status r = BadPassword
                then with_limit env req (loginFailLimitAt env) (CheckLoginFail acc) (refusal req BAD_PASSWORD ''Password is incorrect'')
                else if ar_status r = UserDisabled then refusal req BAD_REQUEST ''User is disabled''
                else refusal req INTERNAL ''Internal error''
           else let u = the (ar_user r); tk = the (ar_issuedToken r) in (\<lambda>X.
                  answer (makeOk req LOGIN_RESP (json_object [(''userId'', jnum (ua_userId u)), (''accountId'', JString (ua_accountId u)),
                    (''username'', JString (ua_username u)), (''token'', JString (it_rawToken tk)), (''expireAtMs'', jint (it_expireAtMs tk))]) ''Ok'')
                    (bind_conn key u (if hasRateLimiter (ue_im env) then call_limiter (ResetLoginFail acc) X else X)))))))))"

definition handleTokenLogin :: "user_env \<Rightarrow> request \<Rightarrow> connKey \<Rightarrow> session \<Rightarrow> response srv" where
  "handleTokenLogin env req key s =
     with_field req ''token'' (\<lambda>tk.
       if s_state s = Authed then answer (makeOk req TOKEN_LOGIN_RESP JNull ''Ok'')
       else if \<not> hasAuthService env then refusal req INTERNAL ''authService is not exist''
       else ask_env (clock_ms env) (\<lambda>nowMs.
         on_people (in_accounts (loginByToken (sha256 env) nowMs tk)) (\<lambda>r.
           if \<not> ar_ok r
           then if ar_status r = InvalidToken then refusal req TOKEN_INVALID ''token is invalid''
                else if ar_status r = TokenExpired then refusal req TOKEN_EXPIRED ''token is expired''
                else if ar_status r = TokenRevoked then refusal req TOKEN_REVOKED ''token is revoked''
                else refusal req INTERNAL ''Internal error''
           else case ar_user r of
             None \<Rightarrow> refusal req INTERNAL ''Internal error, user info is missing in token login result''
           | Some u \<Rightarrow> (case ar_tokenExpireAtMs r of
               None \<Rightarrow> refusal req INTERNAL ''Internal error, token expire time is missing in token login result''
             | Some at \<Rightarrow> (\<lambda>X. answer (makeOk req TOKEN_LOGIN_RESP (json_object [(''userId'', jnum (ua_userId u)),
                 (''accountId'', JString (ua_accountId u)), (''username'', JString (ua_username u)), (''expireAtMs'', jint at)]) ''Ok'')
                 (bind_conn key u X))))))"

text \<open>The account is cleared before it is put into the answer.\<close>

definition unbind_session :: "connKey \<Rightarrow> session \<Rightarrow> server \<Rightarrow> server" where
  "unbind_session key s = on_sessions (\<lambda>m. let m1 = unbindConn key m in m1\<lparr>sessions := AList.update key
     (s\<lparr>s_accountId := [], s_state := Connected, joinedGroupIds := [], s_userId := 0\<rparr>) (sessions m1)\<rparr>)"

definition handleLogout :: "user_env \<Rightarrow> request \<Rightarrow> connKey \<Rightarrow> session \<Rightarrow> response srv" where
  "handleLogout env req key s =
     with_field req ''token'' (\<lambda>tk.
       if \<not> hasAuthService env then refusal req INTERNAL ''authService is not exist''
       else ask_env (clock_ms env) (\<lambda>nowMs.
         on_people (in_accounts (auth_logout (sha256 env) nowMs tk)) (\<lambda>r.
           if \<not> lo_ok r \<and> \<not> lo_alreadyLoggedOut r
           then if lo_status r = InvalidToken then refusal req TOKEN_INVALID ''token is invalid''
                else if lo_status r = TokenExpired then refusal req TOKEN_EXPIRED ''token is expired''
                else refusal req INTERNAL ''Internal error''
           else (\<lambda>X. answer (makeOk req LOGOUT_RESP (json_object
                    [(''accountId'', JString (if s_state s = Authed then [] else s_accountId s)), (''revoked'', JBool (lo_revokedNow r)),
                     (''alreadyRevoked'', JBool (lo_alreadyLoggedOut r))]) ''Ok'')
                  (if s_state s = Authed then unbind_session key s X else X)))))"

subsection \<open>Profiles\<close>

definition handleGetProfile :: "user_env \<Rightarrow> request \<Rightarrow> connKey \<Rightarrow> session \<Rightarrow> response srv" where
  "handleGetProfile env req key s = with_auth req s
     (if \<not> hasProfileRepo env then refusal req INTERNAL ''userProfile is not exist''
      else on_people (in_accounts (profile_findByUserId (unat (s_userId s)))) (\<lambda>x.
        case x of None \<Rightarrow> refusal req PROFILE_NOT_FOUND ''Failed to get profile''
        | Some p \<Rightarrow> answer (makeOk req GET_PROFILE_RESP (json_object [(''userId'', jnum (pf_userId p)), (''accountId'', JString (pf_accountId p)),
            (''username'', JString (pf_username p)), (''nickname'', JString (pf_nickname p)), (''avatarUrl'', JString (pf_avatarUrl p)),
            (''signature'', JString (pf_signature p)), (''updateAtMs'', jint (pf_updateAtMs p))]) ''Ok'')))"

definition handleUpdateProfile :: "user_env \<Rightarrow> request \<Rightarrow> connKey \<Rightarrow> session \<Rightarrow> response srv" where
  "handleUpdateProfile env req key s = with_auth req s
     (with_field req ''nickname'' (\<lambda>nick.
        if nick = [] \<or> length nick > 64 then refusal req NICKNAME_INVALID ''nickname invalid''
        else with_field req ''avatarUrl'' (\<lambda>url.
        if length url > 512 then refusal req AVATAR_URL_TOO_LONG ''avatarUrl is too long''
        else with_field req ''signature'' (\<lambda>sig.
        if length sig > 256 then refusal req SIGNATURE_TOO_LONG ''signature is too long''
        else if \<not> hasProfileRepo env then refusal req INTERNAL ''userProfile is not exist''
        else ask_env (clock_ms env) (\<lambda>nowMs.
          on_people (in_accounts (updateProfile (unat (s_userId s)) nick url sig nowMs)) (\<lambda>st.
            if st \<noteq> RepoStatus.Ok then refusal req INTERNAL ''Failed to update profile''
            else on_people (in_accounts (profile_findByUserId (unat (s_userId s)))) (\<lambda>x.
              case x of None \<Rightarrow> refusal req PROFILE_NOT_FOUND ''Failed to get profile''
              | Some p \<Rightarrow> answer (makeOk req UPDATE_PROFILE_RESP (json_object [(''userId'', jnum (pf_userId p)), (''username'', JString (pf_username p)),
                  (''nickname'', JString (pf_nickname p)), (''avatarUrl'', JString (pf_avatarUrl p)),
                  (''signature'', JString (pf_signature p)), (''updateAtMs'', jint (pf_updateAtMs p))]) ''Ok''))))))))"

subsection \<open>Friends\<close>

definition handleSearchUser :: "user_env \<Rightarrow> request \<Rightarrow> connKey \<Rightarrow> session \<Rightarrow> response srv" where
  "handleSearchUser env req key s = with_auth req s
     (with_field req ''accountId'' (\<lambda>acc.
        if \<not> hasFriendService env then refusal req INTERNAL ''FriendService is empty''
        else on_people (findUser acc) (\<lambda>x.
          case x of None \<Rightarrow> refusal req USER_NOT_FOUND ''Failed to find the user''
          | Some p \<Rightarrow> answer (makeOk req SEARCH_USER_RESP (json_object [(''accountId'', JString acc), (''username'', JString (pf_username p)),
              (''nickname'', JString (pf_nickname p)), (''avatarUrl'', JString (pf_avatarUrl p)), (''signature'', JString (pf_signature p))]) ''Ok''))))"

definition friend_json :: "UserProfileRow \<Rightarrow> json" where
  "friend_json p = json_object [(''accountId'', JString (pf_accountId p)), (''username'', JString (pf_username p)),
     (''nickname'', JString (pf_nickname p)), (''avatarUrl'', JString (pf_avatarUrl p)), (''signature'', JString (pf_signature p))]"

definition handleListFriends :: "user_env \<Rightarrow> request \<Rightarrow> connKey \<Rightarrow> session \<Rightarrow> response srv" where
  "handleListFriends env req key s = with_auth req s
     (if \<not> hasFriendService env then refusal req INTERNAL ''FriendService is empty''
      else on_people (listFriends (s_accountId s)) (\<lambda>ps.
        answer (makeOk req LIST_FRIENDS_RESP (json_object [(''friends'', JArray (map friend_json ps)), (''count'', jnum (length ps))]) ''Ok'')))"

definition notifyFriendEvent :: "user_env \<Rightarrow> accountId \<Rightarrow> string \<Rightarrow> (string \<times> json) list \<Rightarrow> AccountPushResult im" where
  "notifyFriendEvent env target event kvs =
     pushToAccount (ue_im env) target \<lparr>resp_ver = 1, resp_req_id = 0, resp_type = FRIEND_EVENT_PUSH, resp_ok = True, resp_code = OK, resp_msg = [],
       resp_data = json_object (kvs @ [(''event'', JString event)])\<rparr>"

definition handleRemoveFriend :: "user_env \<Rightarrow> request \<Rightarrow> connKey \<Rightarrow> session \<Rightarrow> response srv" where
  "handleRemoveFriend env req key s = with_auth req s
     (with_field req ''targetAccountId'' (\<lambda>target.
        if \<not> hasFriendService env then refusal req INTERNAL ''FriendService is empty''
        else on_people (removeFriend (s_accountId s) target) (\<lambda>st.
          if st \<noteq> RepoStatus.Ok
          then if st = NotFound then refusal req NOT_FRIENDS ''The target user is not your friend'' else repo_refusal env req st
          else on_core (notifyFriendEvent env target ''friendRemoved'' [(''accountId'', JString (s_accountId s)), (''username'', JString (s_username s))]) (\<lambda>_.
            answer (makeOk req REMOVE_FRIEND_RESP (json_object [(''accountId'', JString target), (''removed'', JBool True)]) ''Ok'')))))"

definition handleSendFriendRequest :: "user_env \<Rightarrow> request \<Rightarrow> connKey \<Rightarrow> session \<Rightarrow> response srv" where
  "handleSendFriendRequest env req key s = with_auth req s
     (with_field req ''targetAccountId'' (\<lambda>target.
        if \<not> hasFriendService env then refusal req INTERNAL ''FriendService is empty''
        else ask_env (clock_ms env) (\<lambda>nowMs.
          on_people (sendRequest (s_accountId s) target nowMs) (\<lambda>(st, v).
            if st \<noteq> RepoStatus.Ok
            then if st = NotFound then refusal req NO_SUCH_USER ''The target user was not found'' else repo_refusal env req st
            else on_core (notifyFriendEvent env target ''friendRequestReceived'' [(''requestId'', jnum (the v)),
                (''requesterAccountId'', JString (s_accountId s)), (''username'', JString (s_username s))]) (\<lambda>_.
              answer (makeOk req SEND_FRIEND_REQUEST_RESP (json_object [(''requestId'', jnum (the v))]) ''Ok''))))))"

definition request_view_json :: "FriendRequestView \<Rightarrow> json" where
  "request_view_json v = json_object [(''requestId'', jnum (fv_requestId v)), (''accountId'', JString (fv_requesterAccountId v)),
     (''username'', JString (fv_username v)), (''nickname'', JString (fv_nickname v)), (''avatarUrl'', JString (fv_avatarUrl v)),
     (''createdAtMs'', jint (fv_createdAtMs v))]"

definition handleListFriendRequests :: "user_env \<Rightarrow> request \<Rightarrow> connKey \<Rightarrow> session \<Rightarrow> response srv" where
  "handleListFriendRequests env req key s = with_auth req s
     (if \<not> hasFriendService env then refusal req INTERNAL ''FriendService is empty''
      else on_people (listIncomingRequests (s_accountId s)) (\<lambda>vs.
        answer (makeOk req LIST_FRIEND_REQUEST_RESP (json_object [(''requests'', JArray (map request_view_json vs)),
          (''count'', if vs = [] then JInt 0 else jnum (length vs))]) ''Ok'')))"

text \<open>\<open>requestId\<close>: an unsigned number, or a signed one that is not negative.\<close>

definition with_request_id :: "request \<Rightarrow> (u64 \<Rightarrow> response srv) \<Rightarrow> response srv" where
  "with_request_id req k =
     (case field ''requestId'' (req_body req) of
        None \<Rightarrow> refusal req MISSING_FIELD ''Missing requestId''
      | Some (JUInt w) \<Rightarrow> k w
      | Some (JInt w) \<Rightarrow> if sint w \<ge> 0 then k w else refusal req MISSING_FIELD ''Invalid requestId''
      | Some _ \<Rightarrow> refusal req MISSING_FIELD ''Invalid requestId'')"

text \<open>The common end of accepting and rejecting.\<close>

definition decide_request ::
  "user_env \<Rightarrow> request \<Rightarrow> session \<Rightarrow> u64 \<Rightarrow> (nat \<Rightarrow> int \<Rightarrow> (social, FriendRequest repo_value) state) \<Rightarrow> string \<Rightarrow> MsgType \<Rightarrow> response srv" where
  "decide_request env req s i decide event type = ask_env (clock_ms env) (\<lambda>nowMs.
     on_people (decide (unat i) nowMs) (\<lambda>(st, v).
       if st \<noteq> RepoStatus.Ok
       then if st = NotFound then refusal req FRIEND_REQUEST_NOT_FOUND ''The request was not found'' else repo_refusal env req st
       else on_core (notifyFriendEvent env (fq_requestAccountId (the v)) event [(''accountId'', JString (s_accountId s)), (''username'', JString (s_username s))]) (\<lambda>_.
         answer (makeOk req type (json_object [(''requestId'', JUInt i)]) ''Ok''))))"

definition handleAcceptFriendRequest :: "user_env \<Rightarrow> request \<Rightarrow> connKey \<Rightarrow> session \<Rightarrow> response srv" where
  "handleAcceptFriendRequest env req key s = with_auth req s
     (if \<not> hasFriendService env then refusal req INTERNAL ''FriendService is empty''
      else with_request_id req (\<lambda>i. decide_request env req s i (acceptRequest (s_accountId s)) ''friendRequestAccepted'' ACCEPT_FRIEND_REQUEST_RESP))"

text \<open>This handler does not test that the service is there.\<close>

definition handleRejectFriendRequest :: "user_env \<Rightarrow> request \<Rightarrow> connKey \<Rightarrow> session \<Rightarrow> response srv" where
  "handleRejectFriendRequest env req key s = with_auth req s
     (with_request_id req (\<lambda>i. decide_request env req s i (rejectRequest (s_accountId s)) ''friendRequestRejected'' REJECT_FRIEND_REQUEST_RESP))"

subsection \<open>Small handlers and the dispatch\<close>

definition handleListUsers :: "user_env \<Rightarrow> request \<Rightarrow> connKey \<Rightarrow> session \<Rightarrow> response srv" where
  "handleListUsers env req key s = with_auth req s
     (\<lambda>X. answer (makeOk req LIST_USERS_RESP (json_object [(''users'', JArray (map JString (onLineUsers (im_sessions (core X)))))]) ''Ok'') X)"

definition handleEcho :: "user_env \<Rightarrow> request \<Rightarrow> connKey \<Rightarrow> session \<Rightarrow> response srv" where
  "handleEcho env req key s = with_auth req s (answer (makeOk req ECHO_RESP (req_body req) ''Ok''))"

text \<open>The cases of \<open>dispatchRequest\<close> for accounts, profiles and friends; \<open>None\<close> for the other types.\<close>

definition user_dispatch :: "user_env \<Rightarrow> request \<Rightarrow> connKey \<Rightarrow> session \<Rightarrow> response srv option" where
  "user_dispatch env req key s = map_option (\<lambda>h. h env req key s)
     (map_of [(AUTH_REQ, handleAuth), (ECHO_REQ, handleEcho), (LIST_USERS_REQ, handleListUsers), (REGISTER_REQ, handleRegister),
        (LOGIN_REQ, handleLogin), (LOGOUT_REQ, handleLogout), (TOKEN_LOGIN_REQ, handleTokenLogin), (GET_PROFILE_REQ, handleGetProfile),
        (UPDATE_PROFILE_REQ, handleUpdateProfile), (SEARCH_USER_REQ, handleSearchUser), (LIST_FRIENDS_REQ, handleListFriends),
        (SEND_FRIEND_REQUEST_REQ, handleSendFriendRequest), (LIST_FRIEND_REQUEST_REQ, handleListFriendRequests),
        (ACCEPT_FRIEND_REQUEST_REQ, handleAcceptFriendRequest), (REJECT_FRIEND_REQUEST_REQ, handleRejectFriendRequest),
        (REMOVE_FRIEND_REQ, handleRemoveFriend)] (req_type req))"

text \<open>
  \<open>onMessage\<close> for the types of a part of the dispatch: the answer is sent; what is thrown is answered with
  an internal error.
\<close>

definition exn_text :: "user_env \<Rightarrow> user_exn \<Rightarrow> string" where
  "exn_text env e = (case e of ImError x \<Rightarrow> what (ue_im env) x | RandomFailed \<Rightarrow> whatRandom env)"

definition send_answer :: "user_env \<Rightarrow> connKey \<Rightarrow> request \<Rightarrow> response \<Rightarrow> unit srv" where
  "send_answer env key req r = on_core (sendResponseWithLog (ue_im env) key req r) (\<lambda>_ X. (Inr (), X))"

definition answer_user :: "user_env \<Rightarrow> connKey \<Rightarrow> request \<Rightarrow> response srv \<Rightarrow> unit srv" where
  "answer_user env key req h X =
     (let (x, X1) = (case h X of (Inl e, X1) \<Rightarrow> (Inl e, X1) | (Inr r, X1) \<Rightarrow> send_answer env key req r X1)
      in case x of Inr _ \<Rightarrow> (x, X1)
         | Inl e \<Rightarrow> send_answer env key req (makeErr req INTERNAL (''Internal server error:'' @ exn_text env e) JNull) X1)"

definition onUserMessage :: "user_env \<Rightarrow> (request \<Rightarrow> connKey \<Rightarrow> session \<Rightarrow> response srv option) \<Rightarrow> nat \<Rightarrow> connKey \<Rightarrow> request \<Rightarrow> unit srv" where
  "onUserMessage env dispatch conn key req X0 =
     (let (s0, m) = getOrCreate key (im_sessions (core X0));
          s = (if s_peerIp s0 = [] then s0\<lparr>s_peerIp := fst (peerOf (ue_im env) conn), s_peerPort := snd (peerOf (ue_im env) conn)\<rparr> else s0);
          X = on_sessions (\<lambda>_. m\<lparr>sessions := AList.update key s (sessions m)\<rparr>) X0
      in case dispatch req key s of
           None \<Rightarrow> (Inr (), X0)
         | Some h \<Rightarrow> answer_user env key req h (X\<lparr>core := emit_event (Received key req) (core X)\<rparr>))"

subsection \<open>What a handler leaves behind\<close>

text \<open>Handlers are read forwards: \<open>wp h Q X\<close> says that \<open>h\<close> started in \<open>X\<close> ends with \<open>Q\<close>.\<close>

definition wp :: "'a srv \<Rightarrow> (user_exn + 'a \<Rightarrow> server \<Rightarrow> bool) \<Rightarrow> server \<Rightarrow> bool" where
  "wp h Q X = Q (fst (h X)) (snd (h X))"

lemma wpD: "wp h Q X \<Longrightarrow> h X = (x, X') \<Longrightarrow> Q x X'"
  by (simp add: wp_def)

lemma wp_answer [simp]: "wp (answer r) Q X \<longleftrightarrow> Q (Inr r) X"
  by (simp add: wp_def answer_def)

lemma wp_refusal [simp]: "wp (refusal req c m) Q X \<longleftrightarrow> Q (Inr (makeErr req c m JNull)) X"
  by (simp add: refusal_def)

lemma wp_ask_env [simp]: "wp (ask_env f k) Q X \<longleftrightarrow> wp (k (f (tick (core X)))) Q (consulted X)"
  by (simp add: wp_def ask_env_def)

lemma wp_on_people [simp]:
  "wp (on_people m k) Q X \<longleftrightarrow> (\<forall>b P. run_state m (people X) = (b, P) \<longrightarrow> wp (k b) Q (with_people P X))"
  by (simp add: wp_def on_people_def split: prod.split)

lemma wp_on_core [simp]:
  "wp (on_core m k) Q X \<longleftrightarrow> (\<forall>y S. m (core X) = (y, S) \<longrightarrow>
     (case y of Inl e \<Rightarrow> Q (Inl (ImError e)) (with_core S X) | Inr b \<Rightarrow> wp (k b) Q (with_core S X)))"
  by (auto simp: wp_def on_core_def split: prod.split sum.split)

lemma wp_with_field [simp]:
  "wp (with_field req f k) Q X \<longleftrightarrow>
     (case getStringField req f False of Inl r \<Rightarrow> Q (Inr r) X | Inr v \<Rightarrow> wp (k v) Q X)"
  by (simp add: wp_def with_field_def answer_def split: sum.split)

lemma wp_with_auth [simp]:
  "wp (with_auth req s k) Q X \<longleftrightarrow>
     (if s_state s = Authed then wp k Q X else Q (Inr (makeErr req NOT_AUTHED ''Unauthed, please authenticate first'' JNull)) X)"
  by (simp add: wp_def with_auth_def guardAuthenticated_def answer_def)

lemma wp_repo_refusal [simp]:
  "wp (repo_refusal env req st) Q X \<longleftrightarrow> Q (Inr (makeRepoError req st (textAt (ue_im env) (tick (core X))))) (consulted X)"
  by (simp add: repo_refusal_def)

lemma wp_if [simp]: "wp (if b then h else h') Q X \<longleftrightarrow> (if b then wp h Q X else wp h' Q X)"
  by simp

text \<open>Up to the answer a handler only consults the environment and calls the services.\<close>

definition quiet :: "user_env \<Rightarrow> server \<Rightarrow> server \<Rightarrow> bool" where
  "quiet env X0 X \<longleftrightarrow> social_steps (sha256 env) (people X0) (people X) \<and> (\<exists>n \<ge> tick (core X0). core X = base (core X0) [] [] [] n)"

lemma quiet_self [simp]: "quiet env X X"
  unfolding quiet_def by (auto simp: base_self intro: exI [of _ "tick (core X)"])

lemma frames [simp]:
  "people (consulted X) = people X" "core (with_people P X) = core X" "people (with_people P X) = P" "people (with_core S X) = people X"
  "core (with_core S X) = S" "core (call_limiter c X) = core X" "people (call_limiter c X) = people X"
  by (simp_all add: consulted_def with_people_def with_core_def call_limiter_def)

lemma quiet_consult [simp]: "quiet env X0 X \<Longrightarrow> quiet env X0 (consulted X)"
proof -
  have "base (core X0) [] [] [] (Suc n) = base (core X0) [] [] [] (Suc n)" for n by simp
  moreover assume "quiet env X0 X"
  then obtain n where "tick (core X0) \<le> n" "core X = base (core X0) [] [] [] n" "social_steps (sha256 env) (people X0) (people X)" by (auto simp: quiet_def)
  ultimately show ?thesis unfolding quiet_def by (intro conjI exI [of _ "Suc n"]) (simp_all add: consulted_def consult_base)
qed

lemma quiet_limiter [simp]: "quiet env X0 X \<Longrightarrow> quiet env X0 (call_limiter c X)"
  by (simp add: quiet_def)

lemma quiet_people: "quiet env X0 X \<Longrightarrow> social_step (sha256 env) (people X) P \<Longrightarrow> quiet env X0 (with_people P X)"
  unfolding quiet_def by (auto intro: rtranclp.rtrancl_into_rtrancl)

lemma quiet_sessions: "quiet env X0 X \<Longrightarrow> im_sessions (core X) = im_sessions (core X0)"
  by (auto simp: quiet_def)

definition user_in :: "social \<Rightarrow> nat \<Rightarrow> accountId \<Rightarrow> string \<Rightarrow> bool" where
  "user_in P uid a name \<longleftrightarrow> owner_in (tables (accounts P)) uid a name"

inductive served :: "user_env \<Rightarrow> connKey \<Rightarrow> session \<Rightarrow> server \<Rightarrow> server \<Rightarrow> bool" for env key s X0 where
  answered: "quiet env X0 X \<Longrightarrow> served env key s X0 X"
| bound: "quiet env X0 X \<Longrightarrow> s_state s \<noteq> Authed \<Longrightarrow> user_in (people X) uid a name \<Longrightarrow>
    X' = on_sessions (bindUser key (of_nat uid) a name) X \<Longrightarrow> served env key s X0 X'"
| unbound: "quiet env X0 X \<Longrightarrow> s_state s = Authed \<Longrightarrow> X' = unbind_session key s X \<Longrightarrow> served env key s X0 X'"
| notified: "quiet env X0 X \<Longrightarrow> s_state s = Authed \<Longrightarrow> resp_type p = FRIEND_EVENT_PUSH \<Longrightarrow> tick (core X) \<le> n \<Longrightarrow>
    X' = with_core (base (core X) [] [] [Pushed (connKeysByAccountId target (im_sessions (core X0))) p] n) X \<Longrightarrow> served env key s X0 X'"

lemma notify_cases:
  assumes "notifyFriendEvent env target ev kvs S = (y, S')"
  obtains (quiet) n where "S' = base S [] [] [] n" "tick S \<le> n" "connKeysByAccountId target (im_sessions S) \<noteq> [] \<Longrightarrow> \<exists>e. y = Inl e"
    | (sent) r p n where "y = Inr r" "S' = base S [] [] [Pushed (connKeysByAccountId target (im_sessions S)) p] n" "tick S \<le> n"
        "resp_type p = FRIEND_EVENT_PUSH"
        "\<And>k. k \<notin> {''msgId'', ''serverTsMs'', ''clientReqId''} \<Longrightarrow> field k (resp_data p) = map_of (rev (kvs @ [(''event'', JString ev)])) k"
proof -
  let ?ts = "connKeysByAccountId target (im_sessions S)"
  let ?msg = "\<lparr>resp_ver = 1, resp_req_id = 0, resp_type = FRIEND_EVENT_PUSH, resp_ok = True, resp_code = OK, resp_msg = [],
       resp_data = json_object (kvs @ [(''event'', JString ev)])\<rparr>"
  have e: "pushToAccount (ue_im env) target ?msg S = (y, S')" using assms by (simp add: notifyFriendEvent_def)
  show thesis
  proof (cases "?ts = []")
    case True
    with e have "S' = base S [] [] [] (tick S)" by (simp add: pushToAccount_def base_self)
    then show ?thesis by (rule quiet) (use True in simp_all)
  next
    case False
    obtain z S1 where d: "decorate (ue_im env) None None ?msg S = (z, S1)" by (cases "decorate (ue_im env) None None ?msg S")
    from d show ?thesis
    proof (cases rule: decorate_cases)
      case (thrown x n)
      with d False e show ?thesis by (intro quiet [of n]) (auto simp: pushToAccount_def Let_def)
    next
      case (decorated p n)
      obtain b S2 where b: "sendEncodedPayload (ue_im env) ?ts (emit_event (Pushed ?ts p) S1) = (b, S2)" by (cases "sendEncodedPayload (ue_im env) ?ts (emit_event (Pushed ?ts p) S1)")
      from sendEncodedPayload_state [OF b] obtain m where m: "S2 = base (emit_event (Pushed ?ts p) S1) [] [] [] m" "tick (emit_event (Pushed ?ts p) S1) \<le> m" .
      from e d b decorated(1) False obtain r where "y = Inr r" "S' = S2" by (auto simp: pushToAccount_def Let_def)
      with m decorated(3,4) decoration_type [OF decorated(2)] decoration_field [OF decorated(2)] show ?thesis
        by (intro sent [of r p m]) (simp_all add: emit_base field_json_object)
    qed
  qed
qed

text \<open>The calls of the services are steps of accounts and friends.\<close>

lemma in_accounts_run: "run_state (in_accounts m) P = (b, P') \<longleftrightarrow> (\<exists>D. run_state m (accounts P) = (b, D) \<and> P' = P\<lparr>accounts := D\<rparr>)"
  by (auto simp: in_accounts_def split: prod.splits)

lemma same_tables: "tables D' = tables D \<Longrightarrow> D' = D\<lparr>outcomes := outcomes D'\<rparr>" for D :: "'t database"
  by (cases D; cases D') simp

lemma account_calls:
  "run_state (in_accounts (registerUser sha salt rnds nowMs name pw)) P = (r, P') \<Longrightarrow> social_step sha P P'"
  "run_state (in_accounts (login sha rnd issueMs nowMs a pw)) P = (x, P') \<Longrightarrow> social_step sha P P'"
  "run_state (in_accounts (loginByToken sha nowMs raw)) P = (r, P') \<Longrightarrow> social_step sha P P'"
  "run_state (in_accounts (auth_logout sha nowMs raw)) P = (l, P') \<Longrightarrow> social_step sha P P'"
  "run_state (in_accounts (updateProfile uid nick url sig nowMs)) P = (st, P') \<Longrightarrow> social_step sha P P'"
  unfolding in_accounts_run by (auto intro!: social_step.account intro: auth_step.intros)

lemma lookup_call:
  assumes "run_state (in_accounts (profile_findByUserId uid)) P = (x, P')"
  shows "social_step sha P P'"
proof -
  from assms obtain D where D: "run_state (profile_findByUserId uid) (accounts P) = (x, D)" "P' = P\<lparr>accounts := D\<rparr>" unfolding in_accounts_run by blast
  have "tables D = tables (accounts P)" using mayI [OF D(1)] by (auto simp: profile_findByUserId_def split: if_splits)
  then have "auth_step sha None (accounts P) D" using auth_step.environment [of sha "accounts P" "outcomes D"] same_tables [of D "accounts P"] by simp
  then show ?thesis unfolding D(2) by (rule social_step.account)
qed

lemma served_refl [simp]: "served env key s X X"
  by (rule served.answered) simp

lemma wp_with_limit:
  assumes "quiet env X0 X" "\<And>X'. quiet env X0 X' \<Longrightarrow> wp k (\<lambda>x. served env key s X0) X'"
  shows "wp (with_limit env req verdict call k) (\<lambda>x. served env key s X0) X"
proof (cases "hasRateLimiter (ue_im env)")
  case True
  have c: "wp (\<lambda>X. h (call_limiter c X)) Q Y = wp h Q (call_limiter c Y)" for h :: "response srv" and c Q Y by (simp add: wp_def)
  show ?thesis using True assms by (auto simp: with_limit_def c served.answered quiet_consult quiet_limiter split: option.split)
qed (use assms in \<open>simp add: with_limit_def\<close>)

lemma handleRegister_served: "wp (handleRegister env req key s) (\<lambda>x. served env key s X0) X0"
  unfolding handleRegister_def
  by (rule wp_with_limit, simp) (auto simp: Let_def quiet_people account_calls(1) served.answered split: sum.split)

lemma login_user:
  assumes "run_state (in_accounts (login sha rnd issueMs nowMs a pw)) P = (Some r, P')" "ar_ok r"
  obtains u where "ar_user r = Some u" "user_in P' (ua_userId u) (ua_accountId u) (ua_username u)"
proof -
  from assms(1) obtain D where D: "run_state (login sha rnd issueMs nowMs a pw) (accounts P) = (Some r, D)" "P' = P\<lparr>accounts := D\<rparr>" unfolding in_accounts_run by blast
  from mayI [OF D(1)] show thesis
  proof (cases rule: login_cases)
    case (ok u tk)
    then show ?thesis by (intro that [of u]) (auto simp: D(2) user_in_def owner_in_def)
  qed (use assms(2) in simp)
qed

lemma token_user:
  assumes "run_state (in_accounts (loginByToken sha nowMs raw)) P = (r, P')" "ar_ok r" "accounts_inv (tables (accounts P))"
  obtains u at where "ar_user r = Some u" "ar_tokenExpireAtMs r = Some at" "user_in P' (ua_userId u) (ua_accountId u) (ua_username u)"
proof -
  from assms(1) obtain D where D: "run_state (loginByToken sha nowMs raw) (accounts P) = (r, D)" "P' = P\<lparr>accounts := D\<rparr>" unfolding in_accounts_run by blast
  from mayI [OF D(1)] show thesis
  proof (cases rule: token_login_cases)
    case (ok s xs n)
    have "owner_in (tables (accounts P)) (us_userId s) (us_accountId s) (us_username s)"
      using accounts_invD(4) [OF assms(3)] take_one_filter [OF ok(2)] by blast
    moreover have "users (tables D) = users (tables (accounts P))" using ok(5) by (auto simp: update_session_def Let_def dest!: sym [of _ "tables D"])
    ultimately show ?thesis using ok by (intro that) (auto simp: D(2) user_in_def owner_in_def)
  qed (use assms(2) in simp)
qed

lemma quiet_inv: "quiet env X0 X \<Longrightarrow> social_inv (people X0) \<Longrightarrow> social_inv (people X)"
  by (auto simp: quiet_def dest: social_steps_inv)

lemma wp_lambda [simp]: "wp (\<lambda>X. answer r (f X)) Q X \<longleftrightarrow> Q (Inr r) (f X)" "wp (\<lambda>X. (Inl e, X)) Q X \<longleftrightarrow> Q (Inl e) X"
  by (simp_all add: wp_def answer_def)

lemma served_bind:
  "s_state s \<noteq> Authed \<Longrightarrow> quiet env X0 Y \<Longrightarrow> user_in (people Y) (ua_userId u) (ua_accountId u) (ua_username u) \<Longrightarrow> served env key s X0 (bind_conn key u Y)"
  by (auto simp: bind_conn_def intro: served.bound)

lemma login_bound:
  assumes "run_state (in_accounts (login (sha256 env) rnd issueMs nowMs a pw)) (people Y) = (Some r, P)" "ar_ok r" "quiet env X0 Y" "s_state s \<noteq> Authed"
  shows "served env key s X0 (bind_conn key (the (ar_user r)) (with_people P Y))"
    "served env key s X0 (bind_conn key (the (ar_user r)) (call_limiter c (with_people P Y)))"
proof -
  obtain u where u: "ar_user r = Some u" "user_in P (ua_userId u) (ua_accountId u) (ua_username u)" using login_user [OF assms(1,2)] .
  have q: "quiet env X0 (with_people P Y)" by (rule quiet_people [OF assms(3) account_calls(2) [OF assms(1)]])
  show "served env key s X0 (bind_conn key (the (ar_user r)) (with_people P Y))" using u q assms(4) by (auto intro: served_bind)
  show "served env key s X0 (bind_conn key (the (ar_user r)) (call_limiter c (with_people P Y)))" using u q assms(4) by (auto intro!: served_bind)
qed

lemma token_bound:
  assumes "run_state (in_accounts (loginByToken (sha256 env) nowMs raw)) (people Y) = (r, P)" "ar_ok r" "quiet env X0 Y" "s_state s \<noteq> Authed"
    "accounts_inv (tables (accounts (people Y)))" "ar_user r = Some u"
  shows "served env key s X0 (bind_conn key u (with_people P Y))"
proof -
  from token_user [OF assms(1,2,5)] assms(6) have "user_in P (ua_userId u) (ua_accountId u) (ua_username u)" by auto
  with quiet_people [OF assms(3) account_calls(3) [OF assms(1)]] assms(4) show ?thesis by (auto intro: served_bind)
qed

lemma handleLogin_served: "wp (handleLogin env req key s) (\<lambda>x. served env key s X0) X0"
  by (auto simp: handleLogin_def Let_def quiet_people account_calls(2) served.answered login_bound split: sum.split option.split intro!: wp_with_limit)

lemma handleTokenLogin_served: "social_inv (people X0) \<Longrightarrow> wp (handleTokenLogin env req key s) (\<lambda>x. served env key s X0) X0"
  by (auto simp: handleTokenLogin_def quiet_people account_calls(3) served.answered social_inv_def token_bound split: sum.split option.split)

lemma handleLogout_served: "wp (handleLogout env req key s) (\<lambda>x. served env key s X0) X0"
  by (auto simp: handleLogout_def quiet_people account_calls(4) served.answered split: sum.split intro!: served.unbound)

lemma profile_handlers_served:
  "wp (handleGetProfile env req key s) (\<lambda>x. served env key s X0) X0"
  "wp (handleUpdateProfile env req key s) (\<lambda>x. served env key s X0) X0"
  by (auto simp: handleGetProfile_def handleUpdateProfile_def quiet_people account_calls(5) lookup_call served.answered split: sum.split option.split)

lemma served_notified:
  assumes "notifyFriendEvent env target ev kvs (core X) = (y, S)" "quiet env X0 X" "s_state s = Authed"
  shows "served env key s X0 (with_core S X)"
  using assms(1)
proof (cases rule: notify_cases)
  case (quiet n)
  obtain m where m: "tick (core X0) \<le> m" "core X = base (core X0) [] [] [] m" using assms(2) by (auto simp: quiet_def)
  with quiet have "S = base (core X0) [] [] [] n" "tick (core X0) \<le> n" by simp_all
  then have "\<exists>n \<ge> tick (core X0). S = base (core X0) [] [] [] n" by blast
  moreover have "social_steps (sha256 env) (people X0) (people X)" using assms(2) by (simp add: quiet_def)
  ultimately show ?thesis by (intro served.answered) (simp add: quiet_def)
next
  case (sent r p n)
  show ?thesis
    by (rule served.notified [OF assms(2,3) sent(4,3), where target=target]) (simp add: sent(2) quiet_sessions [OF assms(2)])
qed

lemma friend_calls:
  "run_state (findUser a) P = (p, P') \<Longrightarrow> social_step sha P P'"
  "run_state (listFriends a) P = (ps, P') \<Longrightarrow> social_step sha P P'"
  "run_state (removeFriend a b) P = (st, P') \<Longrightarrow> social_step sha P P'"
  "run_state (listIncomingRequests a) P = (vs, P') \<Longrightarrow> social_step sha P P'"
  "run_state (acceptRequest a i nowMs) P = (w, P') \<Longrightarrow> social_step sha P P'"
  "run_state (rejectRequest a i nowMs) P = (w, P') \<Longrightarrow> social_step sha P P'"
  by (auto intro: social_step.intros)

lemma friend_readers_served:
  "wp (handleSearchUser env req key s) (\<lambda>x. served env key s X0) X0"
  "wp (handleListFriends env req key s) (\<lambda>x. served env key s X0) X0"
  "wp (handleListFriendRequests env req key s) (\<lambda>x. served env key s X0) X0"
  "wp (handleListUsers env req key s) (\<lambda>x. served env key s X0) X0"
  "wp (handleEcho env req key s) (\<lambda>x. served env key s X0) X0"
  by (auto simp: handleSearchUser_def handleListFriends_def handleListFriendRequests_def handleListUsers_def handleEcho_def
      quiet_people friend_calls(1,2,4) served.answered split: sum.split option.split) (simp add: wp_def answer_def)

lemma handleRemoveFriend_served: "wp (handleRemoveFriend env req key s) (\<lambda>x. served env key s X0) X0"
  by (auto simp: handleRemoveFriend_def quiet_people friend_calls(3) served.answered split: sum.split intro: served_notified)

lemma handleSendFriendRequest_served:
  assumes "s_state s = Authed \<Longrightarrow> registered_account (people X0) (s_accountId s)"
  shows "wp (handleSendFriendRequest env req key s) (\<lambda>x. served env key s X0) X0"
proof -
  have "social_step (sha256 env) (people X0) P" if "s_state s = Authed" "run_state (sendRequest (s_accountId s) b nowMs) (people X0) = (v, P)" for b nowMs v P
    using social_step.requested [OF assms that(2)] that(1) by blast
  then show ?thesis
    by (auto simp: handleSendFriendRequest_def quiet_people served.answered split: sum.split intro: served_notified)
qed

lemma decide_request_served:
  assumes "s_state s = Authed" "\<And>i nowMs P w P'. run_state (decide i nowMs) P = (w, P') \<Longrightarrow> social_step (sha256 env) P P'"
  shows "wp (decide_request env req s i decide ev type) (\<lambda>x. served env key s X0) X0"
  using assms(1) by (auto simp: decide_request_def quiet_people assms(2) served.answered split: sum.split intro: served_notified)

lemma wp_with_request_id:
  "(\<And>i. wp (k i) Q X) \<Longrightarrow> (\<And>r. Q (Inr r) X) \<Longrightarrow> wp (with_request_id req k) Q X"
  by (auto simp: with_request_id_def split: option.split json.split)

lemma decisions_served:
  "wp (handleAcceptFriendRequest env req key s) (\<lambda>x. served env key s X0) X0"
  "wp (handleRejectFriendRequest env req key s) (\<lambda>x. served env key s X0) X0"
  by (auto simp: handleAcceptFriendRequest_def handleRejectFriendRequest_def intro!: wp_with_request_id decide_request_served intro: friend_calls(5,6))

text \<open>Every request about accounts, profiles and friends is served.\<close>

lemma user_dispatch_served:
  assumes "user_dispatch env req key s = Some h" "social_inv (people X)" "\<not> allowDebugAuth env"
    and "s_state s = Authed \<Longrightarrow> registered_account (people X) (s_accountId s)"
  shows "served env key s X (snd (h X))"
proof -
  have "wp (handleAuth env req key s) (\<lambda>x. served env key s X) X" using assms(3) by (simp add: wp_def handleAuth_def refusal_def answer_def)
  then have "wp h (\<lambda>x. served env key s X) X"
    using assms(1,2) handleSendFriendRequest_served [OF assms(4)]
    by (auto simp: user_dispatch_def split: if_splits intro: handleRegister_served handleLogin_served handleTokenLogin_served handleLogout_served
        profile_handlers_served friend_readers_served handleRemoveFriend_served decisions_served)
  then show ?thesis by (simp add: wp_def)
qed

end
