(* ===== verification/GroupHandlers.thy ===== *)
theory GroupHandlers
  imports UserHandlers
begin

text \<open>
  The handlers for groups of \<open>src/src/im/ImService.cpp\<close>, which answer at once: they call the group services
  of \<open>GroupService\<close> and \<open>JoinRequests\<close>, keep the groups of the sessions in step and tell the members and
  the accounts concerned. Leaving a group works on the memory first and on the repository afterwards; it
  does not go through a service.
\<close>

subsection \<open>State\<close>

text \<open>
  What the group handlers get from outside besides \<open>user_env\<close>: the services that were set, the longest
  group name, and the identifier for a new group.
\<close>

record group_env =
  ge_user :: user_env
  ge_deps :: group_deps
  hasGroupService :: bool
  hasGroupJoinService :: bool
  hasRepositories :: bool
  maxGroupNameLen :: nat
  groupIdAt :: "nat \<Rightarrow> groupId"

abbreviation ge_im :: "group_env \<Rightarrow> im_env" where
  "ge_im env \<equiv> ue_im (ge_user env)"

definition with_groups :: "group_system \<Rightarrow> server \<Rightarrow> server" where
  "with_groups G X = X\<lparr>core := (core X)\<lparr>im_groups := G\<rparr>\<rparr>"

definition on_groups :: "(group_system, 'b) state \<Rightarrow> ('b \<Rightarrow> 'a srv) \<Rightarrow> 'a srv" where
  "on_groups m k X = (case run_state m (im_groups (core X)) of (b, G) \<Rightarrow> k b (with_groups G X))"

text \<open>The session of the connection is changed in place.\<close>

definition edit_joined :: "(groupId list \<Rightarrow> groupId list) \<Rightarrow> connKey \<Rightarrow> session_manager \<Rightarrow> session_manager" where
  "edit_joined f key m = (case map_of (sessions m) key of None \<Rightarrow> m
     | Some s \<Rightarrow> m\<lparr>sessions := AList.update key (s\<lparr>joinedGroupIds := f (joinedGroupIds s)\<rparr>) (sessions m)\<rparr>)"

definition group_event :: "string \<Rightarrow> (string \<times> json) list \<Rightarrow> response" where
  "group_event msg kvs = \<lparr>resp_ver = 1, resp_req_id = 0, resp_type = GROUP_EVENT_PUSH, resp_ok = True, resp_code = OK, resp_msg = msg,
     resp_data = json_object kvs\<rparr>"

text \<open>A service may be missing; a status that is not \<open>Ok\<close> is answered as an error of the repository.\<close>

definition with_service :: "request \<Rightarrow> bool \<Rightarrow> string \<Rightarrow> response srv \<Rightarrow> response srv" where
  "with_service req available missing k = (if \<not> available then refusal req INTERNAL missing else k)"

definition call_group :: "group_env \<Rightarrow> request \<Rightarrow> (group_system, RepoStatus \<times> 'b) state \<Rightarrow> ('b \<Rightarrow> response srv) \<Rightarrow> response srv" where
  "call_group env req m k = on_groups m (\<lambda>(st, v). if st \<noteq> RepoStatus.Ok then repo_refusal (ge_user env) req st else k v)"

definition with_status :: "(group_system, RepoStatus) state \<Rightarrow> (group_system, RepoStatus \<times> unit) state" where
  "with_status m = do { st \<leftarrow> m; State_Monad.return (st, ()) }"

definition valued :: "request \<Rightarrow> string \<Rightarrow> ('b \<Rightarrow> response srv) \<Rightarrow> 'b option \<Rightarrow> response srv" where
  "valued req msg k v = (case v of None \<Rightarrow> refusal req INTERNAL msg | Some x \<Rightarrow> k x)"

definition clock64 :: "group_env \<Rightarrow> nat \<Rightarrow> u64" where
  "clock64 env n = nowAt (ge_im env) n"

definition no_group_service :: string where
  "no_group_service = ''groupService is not avaiable''"

subsection \<open>Creating, joining and leaving\<close>

definition handleCreateGroup :: "group_env \<Rightarrow> request \<Rightarrow> connKey \<Rightarrow> session \<Rightarrow> response srv" where
  "handleCreateGroup env req key s = with_auth req s (with_field req ''groupName'' (\<lambda>name.
     if length name > maxGroupNameLen env then refusal req GROUP_NAME_INVALID ''Group name is too long''
     else with_service req (hasGroupService env) no_group_service (ask_env (groupIdAt env) (\<lambda>newId. ask_env (clock64 env) (\<lambda>nowMs.
       call_group env req (createGroup sql_group_repo nowMs newId (s_accountId s) name)
         (valued req ''value invalid'' (\<lambda>r X.
           answer (makeOk req CREATE_GROUP_RESP (json_object [(''groupId'', JString (GroupCreateResult.gc_groupId r)), (''groupName'', JString name),
             (''ownerAccountId'', JString (s_accountId s)), (''ownerUsername'', JString (s_username s))]) ''Ok'')
             (on_sessions (edit_joined (List.insert (GroupCreateResult.gc_groupId r)) key) X))))))))"

text \<open>An older way to join, without an application; no request type leads to it.\<close>

definition handleJoin :: "group_env \<Rightarrow> request \<Rightarrow> connKey \<Rightarrow> session \<Rightarrow> response srv" where
  "handleJoin env req key s = with_auth req s (with_field req ''groupId'' (\<lambda>gid.
     on_groups (in_manager (joinGroup gid (s_accountId s))) (\<lambda>j.
       if j = JOIN_NO_SUCH_GROUP then refusal req NO_SUCH_GROUP ''no such group''
       else if j = OK_ALREADY_IN
       then (\<lambda>X. answer (makeOk req JOIN_GROUP_RESP (json_object [(''groupId'', JString gid), (''joined'', JBool False), (''alreadyIn'', JBool True)]) ''Ok'')
              (on_sessions (edit_joined (List.insert gid) key) X))
       else (\<lambda>X. (let ok = answer (makeOk req JOIN_GROUP_RESP (json_object [(''groupId'', JString gid), (''joined'', JBool True), (''alreadyIn'', JBool False)]) ''Ok'')
         in if hasRepositories env
            then on_groups (in_store (sql_addMember gid (s_accountId s) 0)) (\<lambda>st.
              if st \<noteq> RepoStatus.Ok \<and> st \<noteq> AlreadyExists
              then on_groups (in_manager (leaveGroup gid (s_accountId s))) (\<lambda>_ X1.
                answer (makeRepoError req st ''filed to persist group member'') (on_sessions (edit_joined (removeAll gid) key) X1))
              else ok)
            else ok) (on_sessions (edit_joined (List.insert gid) key) X)))))"

text \<open>
  If the repository refuses, the member is put back into the memory; the role it had there is not kept.
\<close>

definition handleLeave :: "group_env \<Rightarrow> request \<Rightarrow> connKey \<Rightarrow> session \<Rightarrow> response srv" where
  "handleLeave env req key s = with_auth req s (with_field req ''groupId'' (\<lambda>gid X0.
     (if gm_isOwner gid (s_accountId s) (manager (im_groups (core X0))) then refusal req OWNER_CANNOT_LEAVE ''owner can not leave the group''
      else on_groups (in_manager (leaveGroup gid (s_accountId s))) (\<lambda>q.
        if q = QUIT_NO_SUCH_GROUP then refusal req NO_SUCH_GROUP ''No such group''
        else if q = ERR_NOT_IN_GROUP
        then (\<lambda>X. answer (makeOk req LEAVE_GROUP_RESP (json_object [(''groupId'', JString gid), (''left'', JBool False), (''alreadyLeft'', JBool True)]) ''Ok'')
               (on_sessions (edit_joined (removeAll gid) key) X))
        else (\<lambda>X. (let ok = answer (makeOk req LEAVE_GROUP_RESP (json_object [(''groupId'', JString gid), (''left'', JBool True), (''alreadyLeft'', JBool False)]) ''Ok'')
          in if hasRepositories env
             then on_groups (in_store (sql_removeMember gid (s_accountId s))) (\<lambda>st.
               if st \<noteq> RepoStatus.Ok \<and> st \<noteq> NotFound
               then on_groups (in_manager (joinGroup gid (s_accountId s))) (\<lambda>_ X1.
                 answer (makeRepoError req st ''Failed to remove group member'') (on_sessions (edit_joined (List.insert gid) key) X1))
               else ok)
             else ok) (on_sessions (edit_joined (removeAll gid) key) X)))) X0))"

text \<open>What \<open>dispatchRequest\<close> adds: the members who are left are told.\<close>

definition dispatchLeave :: "group_env \<Rightarrow> request \<Rightarrow> connKey \<Rightarrow> session \<Rightarrow> response srv" where
  "dispatchLeave env req key s X =
     (case handleLeave env req key s X of
        (Inl e, X1) \<Rightarrow> (Inl e, X1)
      | (Inr r, X1) \<Rightarrow>
          if resp_ok r \<and> field ''left'' (resp_data r) = Some (JBool True)
          then (case field ''groupId'' (resp_data r) of
                  Some (JString gid) \<Rightarrow>
                    on_core (broadcastToGroup (ge_im env) gid key (makeOk req GROUP_EVENT_PUSH (json_object [(''event'', JString ''leave''),
                      (''accountId'', JString (s_accountId s)), (''username'', JString (s_username s)), (''groupId'', JString gid)]) ''Ok'')) (\<lambda>_. answer r) X1
                | _ \<Rightarrow> (Inl (ImError TypeError), X1))
          else (Inr r, X1))"

subsection \<open>Members\<close>

definition member_view_json :: "GroupMemberView \<Rightarrow> json" where
  "member_view_json v = json_object [(''accountId'', JString (mv_accountId v)), (''username'', JString (mv_username v)),
     (''nickname'', JString (mv_nickname v)), (''avatarUrl'', JString (mv_avatarUrl v)), (''role'', JString (roleToString (mv_role v)))]"

definition buildMemberProfileList :: "group_env \<Rightarrow> groupId \<Rightarrow> group_manager \<Rightarrow> json" where
  "buildMemberProfileList env gid m =
     (if \<not> hasGroupService env
      then json_object [(''accountId'', JString []), (''username'', JString []), (''nickname'', JString []), (''avatarUrl'', JString []), (''signature'', JString [])]
      else JArray (map member_view_json (listMemberViews (ge_deps env) gid m)))"

definition handleGroupMembers :: "group_env \<Rightarrow> request \<Rightarrow> connKey \<Rightarrow> session \<Rightarrow> response srv" where
  "handleGroupMembers env req key s = with_auth req s
     (if requireGroupIdForSend (ge_im env) \<and> \<not> is_string (field ''groupId'' (req_body req)) then refusal req MISSING_FIELD ''groupId can not be empty''
      else with_field req ''groupId'' (\<lambda>gid X.
        (case guardInGroup req s gid (manager (im_groups (core X))) of
           Some r \<Rightarrow> answer r
         | None \<Rightarrow> answer (makeOk req GROUP_MEMBERS_RESP (json_object [(''groupId'', JString gid),
             (''members'', buildMemberProfileList env gid (manager (im_groups (core X))))]) ''Ok'')) X))"

definition handleListGroups :: "group_env \<Rightarrow> request \<Rightarrow> connKey \<Rightarrow> session \<Rightarrow> response srv" where
  "handleListGroups env req key s = with_auth req s (\<lambda>X.
     let groups = groupsOfUser (s_accountId s) (manager (im_groups (core X)))
     in answer (makeOk req LIST_GROUPS_RESP (json_object [(''groupIds'', JArray (map JString groups)), (''count'', jnum (length groups))]) ''Ok'') X)"

text \<open>The members told are those after the change; the one who was expelled is told separately.\<close>

definition handleKickGroupMember :: "group_env \<Rightarrow> request \<Rightarrow> connKey \<Rightarrow> session \<Rightarrow> response srv" where
  "handleKickGroupMember env req key s = with_auth req s (with_field req ''groupId'' (\<lambda>gid. with_field req ''targetAccountId'' (\<lambda>target.
     if target = s_accountId s then refusal req CANNOT_KICK_SELF ''You cannot kick yourself''
     else with_service req (hasGroupService env) no_group_service (ask_env (clock64 env) (\<lambda>nowMs.
       call_group env req (with_status (kickMember sql_group_repo nowMs gid (s_accountId s) target)) (\<lambda>_ X.
         (let kvs = \<lambda>e. [(''event'', JString e), (''groupId'', JString gid), (''operatorAccountId'', JString (s_accountId s)), (''targetAccountId'', JString target)]
          in on_core (pushToAccount (ge_im env) target (group_event ''you have been kicked from the group'' (kvs ''be kicked''))) (\<lambda>_.
             on_core (broadcastToGroup (ge_im env) gid key (group_event (target @ '' have been kicked from the group'') (kvs ''member_removed''))) (\<lambda>b.
               answer (makeOk req KICK_GROUP_MEMBER_RESP (json_object [(''groupId'', JString gid), (''targetAccountId'', JString target), (''removed'', JBool True),
                 (''sent'', jnum (sent b)), (''closed'', jnum (closed b)), (''noSuchConnection'', jnum (noSuchConnection b))]) ''Ok''))))
           (on_sessions (\<lambda>m. snd (removeJoinedGroup target gid m)) X)))))))"

definition handleSetGroupAdmin :: "group_env \<Rightarrow> request \<Rightarrow> connKey \<Rightarrow> session \<Rightarrow> response srv" where
  "handleSetGroupAdmin env req key s = with_auth req s (with_field req ''groupId'' (\<lambda>gid. with_field req ''targetAccountId'' (\<lambda>target.
     case field ''enable'' (req_body req) of
       Some (JBool enable) \<Rightarrow>
         with_service req (hasGroupService env) no_group_service (ask_env (clock64 env) (\<lambda>nowMs.
           call_group env req (with_status (setAdmin sql_group_repo nowMs gid (s_accountId s) target enable)) (\<lambda>_.
             on_core (broadcastToGroup (ge_im env) gid key (group_event ''group admin changed'' [(''event'', JString ''group admin changed''), (''groupId'', JString gid),
               (''operatorAccountId'', JString (s_accountId s)), (''targetAccountId'', JString target), (''enable'', JBool enable)])) (\<lambda>b.
               answer (makeOk req SET_GROUP_ADMIN_RESP (json_object [(''groupId'', JString gid), (''operatorAccountId'', JString (s_accountId s)),
                 (''targetAccountId'', JString target), (''enable'', JBool enable), (''sent'', jnum (sent b)), (''closed'', jnum (closed b)),
                 (''noSuchConnection'', jnum (noSuchConnection b))]) ''Ok'')))))
     | _ \<Rightarrow> refusal req BAD_REQUEST ''invalid enable'')))"

definition handleTransferGroupOwner :: "group_env \<Rightarrow> request \<Rightarrow> connKey \<Rightarrow> session \<Rightarrow> response srv" where
  "handleTransferGroupOwner env req key s = with_auth req s (with_field req ''groupId'' (\<lambda>gid. with_field req ''targetAccountId'' (\<lambda>target.
     with_service req (hasGroupService env) no_group_service (ask_env (clock64 env) (\<lambda>nowMs.
       call_group env req (with_status (transferOwner sql_group_repo nowMs gid (s_accountId s) target)) (\<lambda>_.
         on_core (broadcastToGroup (ge_im env) gid key (group_event ''group owner changed'' [(''event'', JString ''group owner changed''), (''groupId'', JString gid),
           (''operatorAccountId'', JString (s_accountId s)), (''targetAccountId'', JString target)])) (\<lambda>b.
           answer (makeOk req TRANSFER_GROUP_OWNER_RESP (json_object [(''groupId'', JString gid), (''oldOwner'', JString (s_accountId s)), (''newOwner'', JString target),
             (''sent'', jnum (sent b)), (''closed'', jnum (closed b)), (''noSuchConnection'', jnum (noSuchConnection b))]) ''Ok''))))))))"

definition handleInviteGroupMember :: "group_env \<Rightarrow> request \<Rightarrow> connKey \<Rightarrow> session \<Rightarrow> response srv" where
  "handleInviteGroupMember env req key s = with_auth req s (with_field req ''groupId'' (\<lambda>gid. with_field req ''targetAccountId'' (\<lambda>target.
     with_service req (hasGroupService env) no_group_service (ask_env (clock64 env) (\<lambda>nowMs.
       call_group env req (inviteMember sql_group_repo (ge_deps env) nowMs gid (s_accountId s) target)
         (valued req ''groupInviteResult value is empty'' (\<lambda>r.
           let reply = (\<lambda>joined already. answer (makeOk req INVITE_GROUP_MEMBER_RESP (json_object [(''groupId'', JString gid), (''targetAccountId'', JString target),
                 (''joined'', JBool joined), (''alreadyIn'', JBool already)]) ''Ok''));
               finish = (if gi_alreadyIn r then reply False True else reply True False)
           in if gi_joined r
              then (\<lambda>X. on_core (broadcastToGroup (ge_im env) gid key (group_event ''member_invired'' [(''event'', JString ''member_invited''), (''groupId'', JString gid),
                     (''operatorAccountId'', JString (s_accountId s)), (''targetAccountId'', JString target)])) (\<lambda>_. finish)
                   (on_sessions (\<lambda>m. snd (addJoinedGroup target gid m)) X))
              else finish)))))))"

text \<open>One push after the other; what one throws ends the handler.\<close>

fun push_to_accounts :: "im_env \<Rightarrow> accountId list \<Rightarrow> response \<Rightarrow> unit im" where
  "push_to_accounts env [] msg S = (Inr (), S)"
| "push_to_accounts env (a # as) msg S =
     (case pushToAccount env a msg S of (Inl e, S1) \<Rightarrow> (Inl e, S1) | (Inr _, S1) \<Rightarrow> push_to_accounts env as msg S1)"

definition handleDissolveGroup :: "group_env \<Rightarrow> request \<Rightarrow> connKey \<Rightarrow> session \<Rightarrow> response srv" where
  "handleDissolveGroup env req key s = with_auth req s (with_field req ''groupId'' (\<lambda>gid.
     with_service req (hasGroupService env) no_group_service (ask_env (clock_ms (ge_user env)) (\<lambda>nowMs.
       call_group env req (dissolveGroup sql_group_repo gid (s_accountId s) nowMs)
         (valued req ''groupDissolveResult value is empty'' (\<lambda>r.
           if gd_alreadyDissolved r
           then answer (makeOk req DISSOLVE_GROUP_RESP (json_object [(''groupId'', JString gid), (''dissolved'', JBool False), (''alreadyDissolved'', JBool True)]) ''Ok'')
           else on_core (push_to_accounts (ge_im env) (gd_affectedAccountIds r) (group_event ''group dissolved'' [(''event'', JString ''group_dissolved''),
                  (''groupId'', JString gid), (''operatorAccountId'', JString (s_accountId s))])) (\<lambda>_ X.
                answer (makeOk req DISSOLVE_GROUP_RESP (json_object [(''groupId'', JString gid), (''operatorAccountId'', JString (s_accountId s)),
                  (''dissolved'', JBool True), (''alreadyDissolved'', JBool False), (''affectedMembers'', jnum (length (gd_affectedAccountIds r)))]) ''Ok'')
                  (on_sessions (\<lambda>m. snd (removeJoinedGroupForAccounts (gd_affectedAccountIds r) gid m)) X))))))))"

definition handleSearchGroups :: "group_env \<Rightarrow> request \<Rightarrow> connKey \<Rightarrow> session \<Rightarrow> response srv" where
  "handleSearchGroups env req key s = with_auth req s (with_field req ''groupId'' (\<lambda>gid.
     with_service req (hasGroupService env) no_group_service
       (call_group env req (searchGroupById sql_group_repo gid (s_accountId s)) (valued req ''value is empty'' (\<lambda>r.
          answer (makeOk req SEARCH_PUBLIC_GROUPS_RESP (json_object [(''groupId'', JString gid), (''requesterAccountId'', JString (s_accountId s)),
            (''groupName'', JString (sr_groupName r)), (''ownerAccountId'', JString (sr_ownerAccountId r)), (''memberCount'', jnum (sr_memberCount r)),
            (''alreadyMember'', JBool (sr_alreadyMember r))]) ''Ok''))))))"

subsection \<open>Applications\<close>

definition handleApplyGroupJoin :: "group_env \<Rightarrow> request \<Rightarrow> connKey \<Rightarrow> session \<Rightarrow> response srv" where
  "handleApplyGroupJoin env req key s = with_auth req s (with_field req ''groupId'' (\<lambda>gid. with_field req ''message'' (\<lambda>msg.
     with_service req (hasGroupJoinService env) ''groupJoinService is not avaiable'' (ask_env (clock_ms (ge_user env)) (\<lambda>nowMs.
       call_group env req (applyToJoin (ge_deps env) gid (s_accountId s) msg nowMs) (valued req ''value is empty'' (\<lambda>r.
         answer (makeOk req APPLY_GROUP_JOIN_RESP (json_object [(''groupId'', JString gid), (''applicantAccountId'', JString (s_accountId s)),
           (''submitted'', JBool (ja_submitted r)), (''alreadyPending'', JBool (ja_alreadyPending r)), (''alreadyIn'', JBool (ja_alreadyIn r))]) ''Ok''))))))))"

fun join_status_number :: "GroupJoinRequestStatus \<Rightarrow> nat" where
  "join_status_number Pending = 0"
| "join_status_number Approved = 1"
| "join_status_number Rejected = 2"

definition join_record_json :: "GroupJoinRequestRecord \<Rightarrow> json" where
  "join_record_json r = json_object [(''applicant_account_id'', JString (rr_applicantAccountId r)), (''request_id'', jnum (rr_requestId r)),
     (''group_id'', JString (rr_groupId r)), (''reviewer_account_id'', JString (rr_reviewerAccountId r)), (''message'', JString (rr_requestMessage r)),
     (''status'', jnum (join_status_number (rr_status r))), (''created_at_ms'', jint (rr_createdAtMs r)), (''reviewed_at_ms'', jint (rr_reviewedAtMs r))]"

definition handleListGroupJoinRequest :: "group_env \<Rightarrow> request \<Rightarrow> connKey \<Rightarrow> session \<Rightarrow> response srv" where
  "handleListGroupJoinRequest env req key s = with_auth req s (with_field req ''groupId'' (\<lambda>gid.
     with_service req (hasGroupJoinService env) ''groupJoinService is not avaiable''
       (call_group env req (listPendingRequests gid (s_accountId s) (unat (parseLimit req ''limit'' 20 100))) (valued req ''value is empty'' (\<lambda>rs.
          answer (makeOk req LIST_GROUP_JOIN_REQUESTS_RESP (json_object [(''groupId'', JString gid), (''reviewerAccountId'', JString (s_accountId s)),
            (''requestRecord'', JArray (map join_record_json rs))]) ''Ok''))))))"

definition handleReviewGroupJoin :: "group_env \<Rightarrow> request \<Rightarrow> connKey \<Rightarrow> session \<Rightarrow> response srv" where
  "handleReviewGroupJoin env req key s = with_auth req s (with_field req ''groupId'' (\<lambda>gid. with_field req ''applicantAccountId'' (\<lambda>applicant.
     case field ''approve'' (req_body req) of
       Some (JBool approve) \<Rightarrow>
         with_service req (hasGroupJoinService env) no_group_service (ask_env (clock_ms (ge_user env)) (\<lambda>nowMs. ask_env (clock64 env) (\<lambda>clockMs.
           call_group env req (reviewRequest (ge_deps env) clockMs gid applicant (s_accountId s) approve nowMs) (valued req ''value is empty'' (\<lambda>r.
             let finish = answer (makeOk req REVIEW_GROUP_JOIN_REQUEST_RESP (json_object [(''groupId'', JString gid), (''requesterAccountId'', JString (s_accountId s)),
                   (''applicantAccountId'', JString applicant), (''approved'', JBool (jv_approved r)), (''rejected'', JBool (jv_rejected r)),
                   (''memberAdded'', JBool (jv_memberAdded r)), (''alreadyHandled'', JBool (jv_alreadyHandled r))]) ''Ok'');
                 parties = [(''groupId'', JString gid), (''reviewerAccountId'', JString (s_accountId s)), (''applicantAccountId'', JString applicant)]
             in if jv_alreadyHandled r then finish
                else on_core (pushToAccount (ge_im env) applicant (group_event ''join request approve'' ((''event'', JString ''join_request'') # parties @
                       [(''approved'', JBool (jv_approved r)), (''rejected'', JBool (jv_rejected r)), (''memberAdded'', JBool (jv_memberAdded r))]))) (\<lambda>_.
                     if \<not> jv_memberAdded r then finish
                     else (\<lambda>X. on_core (broadcastToGroup (ge_im env) gid key (group_event ''member joined'' ((''event'', JString ''member_joined'') # parties))) (\<lambda>_. finish)
                            (on_sessions (\<lambda>m. snd (addJoinedGroup applicant gid m)) X))))))))
     | _ \<Rightarrow> refusal req MISSING_FIELD ''missing field approve '')))"

subsection \<open>The dispatch\<close>

definition group_dispatch :: "group_env \<Rightarrow> request \<Rightarrow> connKey \<Rightarrow> session \<Rightarrow> response srv option" where
  "group_dispatch env req key s = map_option (\<lambda>h. h env req key s)
     (map_of [(CREATE_GROUP_REQ, handleCreateGroup), (JOIN_GROUP_REQ, handleApplyGroupJoin), (LEAVE_GROUP_REQ, dispatchLeave),
        (GROUP_MEMBERS_REQ, handleGroupMembers), (LIST_GROUPS_REQ, handleListGroups), (KICK_GROUP_MEMBER_REQ, handleKickGroupMember),
        (SET_GROUP_ADMIN_REQ, handleSetGroupAdmin), (TRANSFER_GROUP_OWNER_REQ, handleTransferGroupOwner), (INVITE_GROUP_MEMBER_REQ, handleInviteGroupMember),
        (DISSOLVE_GROUP_REQ, handleDissolveGroup), (APPLY_GROUP_JOIN_REQ, handleApplyGroupJoin), (LIST_GROUP_JOIN_REQUESTS_REQ, handleListGroupJoinRequest),
        (REVIEW_GROUP_JOIN_REQUEST_REQ, handleReviewGroupJoin), (SEARCH_PUBLIC_GROUPS_REQ, handleSearchGroups)] (req_type req))"


subsection \<open>What a handler leaves behind\<close>

text \<open>The user a connection is logged in as.\<close>

definition login_of :: "session_manager \<Rightarrow> connKey \<Rightarrow> (u64 \<times> accountId \<times> string) option" where
  "login_of m k = (case map_of (sessions m) k of None \<Rightarrow> None
     | Some s \<Rightarrow> if s_state s = Authed then Some (s_userId s, s_accountId s, s_username s) else None)"

text \<open>The groups of the sessions change; who is logged in does not.\<close>

definition same_logins :: "session_manager \<Rightarrow> session_manager \<Rightarrow> bool" where
  "same_logins m m' \<longleftrightarrow> (\<forall>k. login_of m' k = login_of m k) \<and> (sessions_inv m \<longrightarrow> sessions_inv m')"

lemma same_logins_refl [simp]: "same_logins m m"
  by (simp add: same_logins_def)

lemma same_logins_trans: "same_logins m m' \<Longrightarrow> same_logins m' m'' \<Longrightarrow> same_logins m m''"
  by (simp add: same_logins_def)

lemma update_sessions_logins:
  assumes "update_sessions (\<lambda>s. s\<lparr>joinedGroupIds := f (joinedGroupIds s)\<rparr>) ks (sessions m) = (n, ss)"
  shows "login_of (m\<lparr>sessions := ss\<rparr>) k = login_of m k"
  using assms
proof (induction ks arbitrary: n m)
  case (Cons k' ks)
  show ?case
  proof (cases "map_of (sessions m) k'")
    case None
    with Cons show ?thesis by simp
  next
    case (Some s)
    let ?m = "m\<lparr>sessions := AList.update k' (s\<lparr>joinedGroupIds := f (joinedGroupIds s)\<rparr>) (sessions m)\<rparr>"
    obtain n' where "update_sessions (\<lambda>s. s\<lparr>joinedGroupIds := f (joinedGroupIds s)\<rparr>) ks (sessions ?m) = (n', ss)"
      using Cons.prems Some by (auto split: prod.splits)
    from Cons.IH [OF this] Some show ?thesis by (auto simp: login_of_def)
  qed
qed (simp add: login_of_def)

lemma joined_logins [simp]:
  "same_logins m (snd (addJoinedGroup a gid m))" "same_logins m (snd (removeJoinedGroup a gid m))" "same_logins m (edit_joined f key m)"
proof -
  show "same_logins m (snd (addJoinedGroup a gid m))"
    using addJoinedGroup_inv [of m a gid] update_sessions_logins [where f="List.insert gid"]
    by (auto simp: same_logins_def addJoinedGroup_def split: prod.splits)
  show "same_logins m (snd (removeJoinedGroup a gid m))"
    using removeJoinedGroup_inv [of m a gid] update_sessions_logins [where f="removeAll gid"]
    by (auto simp: same_logins_def removeJoinedGroup_def split: prod.splits)
  have "sessions_inv m \<Longrightarrow> sessions_inv (edit_joined f key m)"
    by (auto simp: edit_joined_def bound_def intro!: sessions_inv_rebind split: option.splits)
  then show "same_logins m (edit_joined f key m)" by (auto simp: same_logins_def edit_joined_def login_of_def split: option.splits)
qed

lemma dissolved_logins [simp]: "same_logins m (snd (removeJoinedGroupForAccounts as gid m))"
proof (induction "as" arbitrary: m)
  case (Cons a "as")
  obtain n m1 where r: "removeJoinedGroup a gid m = (n, m1)" by (cases "removeJoinedGroup a gid m")
  have "same_logins m m1" using joined_logins(2) [of m a gid] by (simp add: r)
  with Cons.IH [of m1] show ?case by (auto simp: r split: prod.splits intro: same_logins_trans)
qed simp

text \<open>A push of these handlers.\<close>

definition event_push :: "im_event \<Rightarrow> bool" where
  "event_push e = (case e of Pushed ts p \<Rightarrow> resp_type p = GROUP_EVENT_PUSH | _ \<Rightarrow> False)"

text \<open>
  What a handler does: steps of the group services, changes of the groups of sessions, and pushes of
  group events.
\<close>

definition group_served :: "group_env \<Rightarrow> server \<Rightarrow> server \<Rightarrow> bool" where
  "group_served env X0 X \<longleftrightarrow> people X = people X0 \<and> (\<exists>G m ev n. core X = base ((core X0)\<lparr>im_sessions := m, im_groups := G\<rparr>) [] [] ev n \<and>
     tick (core X0) \<le> n \<and> (join_step (ge_deps env))\<^sup>*\<^sup>* (im_groups (core X0)) G \<and> same_logins (im_sessions (core X0)) m \<and> (\<forall>e \<in> set ev. event_push e))"

lemma group_servedI:
  assumes "people X = people X0" "core X = base ((core X0)\<lparr>im_sessions := m, im_groups := G\<rparr>) [] [] ev n" "tick (core X0) \<le> n"
    "(join_step (ge_deps env))\<^sup>*\<^sup>* (im_groups (core X0)) G" "same_logins (im_sessions (core X0)) m" "\<forall>e \<in> set ev. event_push e"
  shows "group_served env X0 X"
  unfolding group_served_def using assms by blast

lemma group_served_refl [simp]: "group_served env X X"
  by (rule group_servedI [where ev="[]" and n="tick (core X)" and m="im_sessions (core X)" and G="im_groups (core X)"]) (simp_all add: base_def)

lemma group_served_trans:
  assumes "group_served env X0 X" "group_served env X Y"
  shows "group_served env X0 Y"
proof -
  from assms(1) obtain G m ev n where x: "people X = people X0" "core X = base ((core X0)\<lparr>im_sessions := m, im_groups := G\<rparr>) [] [] ev n" "tick (core X0) \<le> n"
    "(join_step (ge_deps env))\<^sup>*\<^sup>* (im_groups (core X0)) G" "same_logins (im_sessions (core X0)) m" "\<forall>e \<in> set ev. event_push e"
    by (auto simp: group_served_def)
  from assms(2) obtain G' m' ev' n' where y: "people Y = people X" "core Y = base ((core X)\<lparr>im_sessions := m', im_groups := G'\<rparr>) [] [] ev' n'" "tick (core X) \<le> n'"
    "(join_step (ge_deps env))\<^sup>*\<^sup>* (im_groups (core X)) G'" "same_logins (im_sessions (core X)) m'" "\<forall>e \<in> set ev'. event_push e"
    by (auto simp: group_served_def)
  have "core Y = base ((core X0)\<lparr>im_sessions := m', im_groups := G'\<rparr>) [] [] (ev @ ev') n'" unfolding y(2) x(2) by (simp add: base_def)
  then show ?thesis
    by (rule group_servedI [rotated]) (use x y in \<open>auto intro: same_logins_trans\<close>)
qed

lemma served_consult [simp]: "group_served env X0 X \<Longrightarrow> group_served env X0 (consulted X)"
  by (erule group_served_trans, rule group_servedI [where ev="[]" and n="tick (core X) + 1" and m="im_sessions (core X)" and G="im_groups (core X)"])
    (simp_all add: consulted_def consult_def base_def)

lemma served_on_sessions:
  assumes "group_served env X0 X" "\<And>m. same_logins m (f m)"
  shows "group_served env X0 (on_sessions f X)"
  by (rule group_served_trans [OF assms(1)], rule group_servedI [where ev="[]" and n="tick (core X)" and m="f (im_sessions (core X))" and G="im_groups (core X)"])
    (simp_all add: on_sessions_def base_def assms(2))

lemma served_groups:
  assumes "group_served env X0 X" "(join_step (ge_deps env))\<^sup>*\<^sup>* (im_groups (core X)) G"
  shows "group_served env X0 (with_groups G X)"
  by (rule group_served_trans [OF assms(1)], rule group_servedI [where ev="[]" and n="tick (core X)" and m="im_sessions (core X)" and G=G])
    (simp_all add: with_groups_def base_def assms(2))

lemma served_core:
  assumes "group_served env X0 X" "S = base (core X) [] [] ev n" "tick (core X) \<le> n" "\<forall>e \<in> set ev. event_push e"
  shows "group_served env X0 (with_core S X)"
  by (rule group_served_trans [OF assms(1)], rule group_servedI [where ev=ev and n=n and m="im_sessions (core X)" and G="im_groups (core X)"])
    (simp_all add: base_def assms)


text \<open>The pushes.\<close>

lemma push_served:
  assumes "pushToAccount (ge_im env) a msg (core X) = (y, S)" "group_served env X0 X" "resp_type msg = GROUP_EVENT_PUSH"
  shows "group_served env X0 (with_core S X)"
proof -
  let ?ts = "connKeysByAccountId a (im_sessions (core X))"
  show ?thesis
  proof (cases "?ts = []")
    case True
    with assms show ?thesis by (intro served_core [where ev="[]" and n="tick (core X)"]) (auto simp: pushToAccount_def base_self)
  next
    case False
    obtain z S1 where d: "decorate (ge_im env) None None msg (core X) = (z, S1)" by (cases "decorate (ge_im env) None None msg (core X)")
    from d show ?thesis
    proof (cases rule: decorate_cases)
      case (thrown e n)
      with d assms False show ?thesis by (intro served_core [where ev="[]" and n=n]) (auto simp: pushToAccount_def Let_def)
    next
      case (decorated p n)
      obtain b S2 where b: "sendEncodedPayload (ge_im env) ?ts (emit_event (Pushed ?ts p) S1) = (b, S2)" by (cases "sendEncodedPayload (ge_im env) ?ts (emit_event (Pushed ?ts p) S1)")
      from sendEncodedPayload_state [OF b] obtain k where k: "S2 = base (emit_event (Pushed ?ts p) S1) [] [] [] k" "tick (emit_event (Pushed ?ts p) S1) \<le> k" .
      have "S = S2" using assms(1) d b decorated(1) False by (auto simp: pushToAccount_def Let_def)
      with k decorated(3,4) decoration_type [OF decorated(2)] assms(2,3) show ?thesis
        by (intro served_core [where ev="[Pushed ?ts p]" and n=k]) (simp_all add: emit_base event_push_def)
    qed
  qed
qed

lemma broadcast_served:
  assumes "broadcastToGroup (ge_im env) gid key msg (core X) = (y, S)" "group_served env X0 X" "resp_type msg = GROUP_EVENT_PUSH" "field ''msgId'' (resp_data msg) = None"
  shows "group_served env X0 (with_core S X)"
proof -
  let ?ts = "\<lambda>S. collectGroupTargets gid key (manager (im_groups S)) (im_sessions S)" and ?msg = "msg\<lparr>resp_req_id := 0\<rparr>"
  obtain z S1 where d: "decorate (ge_im env) None None ?msg (core X) = (z, S1)" by (cases "decorate (ge_im env) None None ?msg (core X)")
  from d show ?thesis
  proof (cases rule: decorate_cases)
    case (thrown e n)
    with d assms show ?thesis by (intro served_core [where ev="[]" and n=n]) (auto simp: broadcastToGroup_def Let_def)
  next
    case (decorated p n)
    obtain b S2 where b: "sendEncodedPayload (ge_im env) (?ts S1) (emit_event (Pushed (?ts S1) p) S1) = (b, S2)"
      by (cases "sendEncodedPayload (ge_im env) (?ts S1) (emit_event (Pushed (?ts S1) p) S1)")
    from sendEncodedPayload_state [OF b] obtain k where k: "S2 = base (emit_event (Pushed (?ts S1) p) S1) [] [] [] k" "tick (emit_event (Pushed (?ts S1) p) S1) \<le> k" .
    have "S = S2" using assms(1,4) d b decorated(1) by (auto simp: broadcastToGroup_def Let_def)
    with k decorated(3,4) decoration_type [OF decorated(2)] assms(2,3) show ?thesis
      by (intro served_core [where ev="[Pushed (?ts S1) p]" and n=k]) (simp_all add: emit_base event_push_def)
  qed
qed

lemma with_core_again [simp]: "with_core S (with_core S' X) = with_core S X"
  by (simp add: with_core_def)

lemma pushes_served:
  assumes "push_to_accounts (ge_im env) as msg (core X) = (y, S)" "group_served env X0 X" "resp_type msg = GROUP_EVENT_PUSH"
  shows "group_served env X0 (with_core S X)"
  using assms(1,2)
proof (induction "as" arbitrary: X)
  case Nil
  then have "with_core S X = X" by (auto simp: with_core_def)
  with Nil show ?case by simp
next
  case (Cons a "as")
  obtain z S1 where p: "pushToAccount (ge_im env) a msg (core X) = (z, S1)" by (cases "pushToAccount (ge_im env) a msg (core X)")
  note s = push_served [OF p Cons.prems(2) assms(3)]
  show ?case
  proof (cases z)
    case (Inl e)
    with Cons.prems(1) p s show ?thesis by simp
  next
    case (Inr r)
    with Cons.prems(1) p have "push_to_accounts (ge_im env) as msg (core (with_core S1 X)) = (y, S)" by simp
    from Cons.IH [OF this s] show ?thesis by simp
  qed
qed

text \<open>The calls of the services.\<close>

lemma wp_on_groups [simp]:
  "wp (on_groups m k) Q X \<longleftrightarrow> (\<forall>b G. run_state m (im_groups (core X)) = (b, G) \<longrightarrow> wp (k b) Q (with_groups G X))"
  by (simp add: wp_def on_groups_def split: prod.split)

lemma wp_call_group [simp]:
  "wp (call_group env req m k) Q X \<longleftrightarrow> (\<forall>st v G. run_state m (im_groups (core X)) = ((st, v), G) \<longrightarrow>
     (if st = RepoStatus.Ok then wp (k v) Q (with_groups G X)
      else Q (Inr (makeRepoError req st (textAt (ge_im env) (tick (core X))))) (consulted (with_groups G X))))"
  by (auto simp: call_group_def with_groups_def)

lemma wp_with_service [simp]:
  "wp (with_service req b msg k) Q X \<longleftrightarrow> (if b then wp k Q X else Q (Inr (makeErr req INTERNAL msg JNull)) X)"
  by (simp add: with_service_def)

lemma wp_valued [simp]:
  "wp (valued req msg k v) Q X \<longleftrightarrow> (case v of None \<Rightarrow> Q (Inr (makeErr req INTERNAL msg JNull)) X | Some x \<Rightarrow> wp (k x) Q X)"
  by (simp add: valued_def split: option.split)

lemma with_status_run: "run_state (with_status m) S = ((st, v), S') \<longleftrightarrow> run_state m S = (st, S')"
  by (auto simp: with_status_def split: prod.splits)

lemma unchanged_step:
  assumes "tables (store G) = tables (store S)" "manager G = manager S"
  shows "(join_step deps)\<^sup>*\<^sup>* S G"
proof -
  have "G = S\<lparr>store := \<lparr>tables = (tables (store S))\<lparr>clock := clock (tables (store S))\<rparr>, outcomes = outcomes (store G)\<rparr>\<rparr>"
    using assms by (cases G; cases S; cases "store G"; cases "store S") auto
  then have "group_step S G" by (metis group_step.environment)
  then show ?thesis by (blast intro: join_step.group)
qed

lemma service_steps:
  "run_state (createGroup sql_group_repo now newId own name) S = (r, G) \<Longrightarrow> (join_step deps)\<^sup>*\<^sup>* S G"
  "op \<noteq> target \<Longrightarrow> run_state (kickMember sql_group_repo now gid op target) S = (st, G) \<Longrightarrow> (join_step deps)\<^sup>*\<^sup>* S G"
  "run_state (setAdmin sql_group_repo now gid op target enable) S = (st, G) \<Longrightarrow> (join_step deps)\<^sup>*\<^sup>* S G"
  "run_state (transferOwner sql_group_repo now gid op target) S = (st, G) \<Longrightarrow> (join_step deps)\<^sup>*\<^sup>* S G"
  "run_state (inviteMember sql_group_repo deps now gid op target) S = (i, G) \<Longrightarrow> (join_step deps)\<^sup>*\<^sup>* S G"
  "run_state (dissolveGroup sql_group_repo gid op at) S = (d, G) \<Longrightarrow> (join_step deps)\<^sup>*\<^sup>* S G"
  "run_state (applyToJoin deps gid a message at) S = (x, G) \<Longrightarrow> (join_step deps)\<^sup>*\<^sup>* S G"
  "run_state (reviewRequest deps clockMs gid a op approve at) S = (v, G) \<Longrightarrow> (join_step deps)\<^sup>*\<^sup>* S G"
  by (blast intro: join_step.intros group_step.intros)+

text \<open>Searching and listing only read.\<close>

definition reads_only :: "(group_system, 'a) state \<Rightarrow> bool" where
  "reads_only m \<longleftrightarrow> (\<forall>S v G. run_state m S = (v, G) \<longrightarrow> tables (store G) = tables (store S) \<and> manager G = manager S)"

lemma reads_only_intros [intro!]:
  "reads_only (ret x)"
  "reads_only m \<Longrightarrow> (\<And>x. reads_only (f x)) \<Longrightarrow> reads_only (State_Monad.bind m f)"
  "(\<And>t r t'. may t q r t' \<Longrightarrow> t' = t) \<Longrightarrow> reads_only (in_store q)"
proof -
  show "reads_only m \<Longrightarrow> (\<And>x. reads_only (f x)) \<Longrightarrow> reads_only (State_Monad.bind m f)"
    unfolding reads_only_def by (auto split: prod.splits)
  show "(\<And>t r t'. may t q r t' \<Longrightarrow> t' = t) \<Longrightarrow> reads_only (in_store q)"
    unfolding reads_only_def by (auto elim!: in_storeE dest!: mayI)
qed (simp add: reads_only_def)

lemma reading_services: "reads_only (searchGroupById sql_group_repo gid a)" "reads_only (listPendingRequests gid a n)"
proof -
  show "reads_only (searchGroupById sql_group_repo gid a)"
    unfolding searchGroupById_def by (auto split: prod.splits option.splits simp: repo_reads)
  have "may t (sql_listPending gid n) r t' \<Longrightarrow> t' = t" for t r t' by (auto simp: sql_listPending_def split: if_splits)
  then show "reads_only (listPendingRequests gid a n)"
    using repo_reads(3) [unfolded sql_group_repo_def, simplified] unfolding listPendingRequests_def by (auto split: prod.splits option.splits)
qed

lemma reading_steps:
  "run_state (searchGroupById sql_group_repo gid a) S = (r, G) \<Longrightarrow> (join_step deps)\<^sup>*\<^sup>* S G"
  "run_state (listPendingRequests gid a n) S = (rs, G) \<Longrightarrow> (join_step deps)\<^sup>*\<^sup>* S G"
  using reading_services unfolding reads_only_def by (blast intro: unchanged_step)+

lemma event_simps [simp]:
  "resp_type (group_event msg kvs) = GROUP_EVENT_PUSH" "field k (resp_data (group_event msg kvs)) = map_of (rev kvs) k"
  "resp_type (makeOk req ty j msg) = ty"
  by (simp_all add: group_event_def field_json_object makeOk_def)

lemma groups_frames [simp]:
  "people (with_groups G X) = people X" "im_groups (core (with_groups G X)) = G" "im_groups (core (consulted X)) = im_groups (core X)"
  "im_sessions (core (with_groups G X)) = im_sessions (core X)" "tick (core (with_groups G X)) = tick (core X)"
  by (simp_all add: with_groups_def consulted_def consult_def)

text \<open>Handlers compose: one that serves leads from what was served to what was served.\<close>

definition serves :: "group_env \<Rightarrow> 'a srv \<Rightarrow> bool" where
  "serves env h \<longleftrightarrow> (\<forall>X0 X. group_served env X0 X \<longrightarrow> group_served env X0 (snd (h X)))"

definition steps :: "group_env \<Rightarrow> (group_system, 'a) state \<Rightarrow> bool" where
  "steps env m \<longleftrightarrow> (\<forall>S r G. run_state m S = (r, G) \<longrightarrow> (join_step (ge_deps env))\<^sup>*\<^sup>* S G)"

lemma servesI: "(\<And>X0 X. group_served env X0 X \<Longrightarrow> group_served env X0 (snd (h X))) \<Longrightarrow> serves env h"
  by (simp add: serves_def)

lemma servesD: "serves env h \<Longrightarrow> group_served env X0 X \<Longrightarrow> group_served env X0 (snd (h X))"
  by (simp add: serves_def)

lemma serves_simple [intro!]:
  "serves env (answer r)" "serves env (refusal req c msg)" "serves env (repo_refusal (ge_user env) req st)"
  by (auto intro!: servesI simp: answer_def refusal_def repo_refusal_def ask_env_def)

lemma serves_compose [intro!]:
  "serves env k \<Longrightarrow> serves env (with_auth req s k)"
  "(\<And>v. serves env (g v)) \<Longrightarrow> serves env (with_field req f g)"
  "(b \<Longrightarrow> serves env k) \<Longrightarrow> serves env (with_service req b msg k)"
  "(\<And>c. serves env (h c)) \<Longrightarrow> serves env (ask_env rd h)"
  "(\<And>x. serves env (q x)) \<Longrightarrow> serves env (valued req msg q w)"
  by (auto intro!: servesI simp: with_auth_def with_field_def with_service_def ask_env_def valued_def answer_def refusal_def servesD split: option.split sum.split)

lemma serves_if [intro!]: "(b \<Longrightarrow> serves env h) \<Longrightarrow> (\<not> b \<Longrightarrow> serves env h') \<Longrightarrow> serves env (if b then h else h')"
  by simp

lemma serves_sessions [intro!]: "(\<And>m. same_logins m (f m)) \<Longrightarrow> serves env h \<Longrightarrow> serves env (\<lambda>X. h (on_sessions f X))"
  by (rule servesI) (blast intro: served_on_sessions dest: servesD)

lemma serves_push [intro!]:
  assumes "resp_type msg = GROUP_EVENT_PUSH" "\<And>b. serves env (k b)"
  shows "serves env (on_core (pushToAccount (ge_im env) a msg) k)"
proof (rule servesI)
  fix X0 X assume s: "group_served env X0 X"
  obtain y S where p: "pushToAccount (ge_im env) a msg (core X) = (y, S)" by (cases "pushToAccount (ge_im env) a msg (core X)")
  from push_served [OF p s assms(1)] p assms(2) show "group_served env X0 (snd (on_core (pushToAccount (ge_im env) a msg) k X))"
    by (auto simp: on_core_def dest: servesD split: sum.split)
qed

lemma serves_pushes [intro!]:
  assumes "resp_type msg = GROUP_EVENT_PUSH" "\<And>b. serves env (k b)"
  shows "serves env (on_core (push_to_accounts (ge_im env) as msg) k)"
proof (rule servesI)
  fix X0 X assume s: "group_served env X0 X"
  obtain y S where p: "push_to_accounts (ge_im env) as msg (core X) = (y, S)" by (cases "push_to_accounts (ge_im env) as msg (core X)")
  from pushes_served [OF p s assms(1)] p assms(2) show "group_served env X0 (snd (on_core (push_to_accounts (ge_im env) as msg) k X))"
    by (auto simp: on_core_def dest: servesD split: sum.split)
qed

lemma serves_broadcast [intro!]:
  assumes "resp_type msg = GROUP_EVENT_PUSH" "field ''msgId'' (resp_data msg) = None" "\<And>b. serves env (k b)"
  shows "serves env (on_core (broadcastToGroup (ge_im env) gid key msg) k)"
proof (rule servesI)
  fix X0 X assume s: "group_served env X0 X"
  obtain y S where p: "broadcastToGroup (ge_im env) gid key msg (core X) = (y, S)" by (cases "broadcastToGroup (ge_im env) gid key msg (core X)")
  from broadcast_served [OF p s assms(1,2)] p assms(3) show "group_served env X0 (snd (on_core (broadcastToGroup (ge_im env) gid key msg) k X))"
    by (auto simp: on_core_def dest: servesD split: sum.split)
qed

lemma serves_call [intro!]:
  assumes "steps env m" "\<And>v. serves env (k v)"
  shows "serves env (call_group env req m k)"
proof (rule servesI)
  fix X0 X assume s: "group_served env X0 X"
  obtain st v G where r: "run_state m (im_groups (core X)) = ((st, v), G)" by (cases "run_state m (im_groups (core X))") auto
  have "group_served env X0 (with_groups G X)" using served_groups [OF s] assms(1) r unfolding steps_def by blast
  with r assms(2) show "group_served env X0 (snd (call_group env req m k X))"
    by (auto simp: call_group_def on_groups_def repo_refusal_def ask_env_def answer_def dest: servesD)
qed

lemma service_calls [intro!]:
  "steps env (createGroup sql_group_repo now newId own name)" "op \<noteq> target \<Longrightarrow> steps env (with_status (kickMember sql_group_repo now gid op target))"
  "steps env (with_status (setAdmin sql_group_repo now gid op target enable))" "steps env (with_status (transferOwner sql_group_repo now gid op target))"
  "steps env (inviteMember sql_group_repo (ge_deps env) now gid op target)" "steps env (dissolveGroup sql_group_repo gid op at)"
  "steps env (applyToJoin (ge_deps env) gid a message at)" "steps env (reviewRequest (ge_deps env) clockMs gid a op approve at)"
  "steps env (searchGroupById sql_group_repo gid a)" "steps env (listPendingRequests gid a n)"
  unfolding steps_def by (auto simp: with_status_run service_steps reading_steps)

lemma handlers_serve:
  "serves env (handleCreateGroup env req key s)" "serves env (handleKickGroupMember env req key s)" "serves env (handleTransferGroupOwner env req key s)"
  "serves env (handleDissolveGroup env req key s)" "serves env (handleSearchGroups env req key s)" "serves env (handleApplyGroupJoin env req key s)"
  "serves env (handleListGroupJoinRequest env req key s)"
  unfolding handleCreateGroup_def handleKickGroupMember_def handleTransferGroupOwner_def handleDissolveGroup_def handleSearchGroups_def
    handleApplyGroupJoin_def handleListGroupJoinRequest_def Let_def
  by auto

lemma branching_handlers_serve:
  "serves env (handleInviteGroupMember env req key s)" "serves env (handleSetGroupAdmin env req key s)" "serves env (handleReviewGroupJoin env req key s)"
  unfolding handleInviteGroupMember_def handleSetGroupAdmin_def handleReviewGroupJoin_def Let_def
  by (auto split: option.split json.split)

lemma lists_read: "snd (handleGroupMembers env req key s X) = X" "snd (handleListGroups env req key s X) = X"
  by (simp_all add: handleGroupMembers_def handleListGroups_def with_auth_def guardAuthenticated_def with_field_def answer_def refusal_def Let_def
      split: sum.split option.split)

lemma lists_serve: "serves env (handleGroupMembers env req key s)" "serves env (handleListGroups env req key s)"
  by (simp_all add: serves_def lists_read)

subsection \<open>Leaving\<close>

lemma removeMember_works:
  assumes "outcomes D = []" "is_active gid (tables D)" "role_in (tables D) gid a \<noteq> None" "gid \<noteq> []" "a \<noteq> []"
  shows "\<exists>D'. run_state (sql_removeMember gid a) D = (RepoStatus.Ok, D')"
  using assms
  by (auto simp: sql_removeMember_def sql_groupExists_def select_group_def is_active_def role_in_def works_simps delete_member_def delete_cursor_def
      split: option.splits)

text \<open>With a working database a member who is not the owner leaves the memory and the tables at once.\<close>

lemma leave_run:
  assumes "group_system_ok G" "outcomes (store G) = []" "\<not> gm_isOwner gid a (manager G)" "leaveGroup gid a (manager G) = (OK_LEFT, m)"
  obtains D where "run_state (sql_removeMember gid a) (store G) = (RepoStatus.Ok, D)" "group_step G (G\<lparr>store := D, manager := m\<rparr>)"
proof -
  obtain g where g: "map_of (groupsById (manager G)) gid = Some g" "fst (removeMember a g)"
    using assms(4) by (auto simp: leaveGroup_def split: option.splits prod.splits bool.splits)
  have "gm_roleOf gid a (manager G) \<noteq> None" using g by (auto simp: gm_roleOf_def removeMember_def roleOf_def hasMember_def split: if_splits option.splits)
  then have role: "role_in (tables (store G)) gid a \<noteq> None" using group_system_matches(2) [OF assms(1), of gid a] by (metis option.map_disc_iff)
  have s: "store_ok (tables (store G))" using assms(1) by (simp add: svc_ok_def)
  obtain v where v: "view (tables (store G)) gid = Some v" "gv_roles v a \<noteq> None" using store_ok_member_view [OF s role] .
  have "gid \<noteq> []" "a \<noteq> []" using store_ok_view [OF s v(1)] v(2) by auto
  moreover have "is_active gid (tables (store G))" using v(1) by (simp add: is_active_view)
  ultimately obtain D where D: "run_state (sql_removeMember gid a) (store G) = (RepoStatus.Ok, D)" using removeMember_works [OF assms(2)] role by blast
  from that [OF D] group_step.leave [OF assms(4,3) D] show thesis by blast
qed


lemma leave_served:
  assumes "hasRepositories env" "outcomes (store (im_groups (core X))) = []" "group_system_ok (im_groups (core X))"
  shows "group_served env X (snd (handleLeave env req key s X))"
proof (cases "s_state s = Authed")
  case False
  then show ?thesis by (simp add: handleLeave_def with_auth_def guardAuthenticated_def answer_def)
next
  case True
  let ?G = "im_groups (core X)" and ?a = "s_accountId s"
  show ?thesis
  proof (cases "getStringField req ''groupId'' False")
    case (Inl r)
    with True show ?thesis by (simp add: handleLeave_def with_auth_def guardAuthenticated_def with_field_def answer_def)
  next
    case (Inr gid)
    obtain q m where q: "leaveGroup gid ?a (manager ?G) = (q, m)" by (cases "leaveGroup gid ?a (manager ?G)")
    have run: "run_state (in_manager (leaveGroup gid ?a)) ?G = (q, ?G\<lparr>manager := m\<rparr>)" by (simp add: in_manager_def q)
    note handler = handleLeave_def with_auth_def guardAuthenticated_def with_field_def
    show ?thesis
    proof (cases "gm_isOwner gid ?a (manager ?G) \<or> q \<noteq> OK_LEFT")
      case True
      have "m = manager ?G" if "q \<noteq> OK_LEFT" using that q by (auto simp: leaveGroup_def split: option.splits prod.splits bool.splits)
      then have "with_groups (?G\<lparr>manager := m\<rparr>) X = X" if "q \<noteq> OK_LEFT" using that by (simp add: with_groups_def)
      with True \<open>s_state s = Authed\<close> Inr run show ?thesis
        by (cases q) (auto simp: handler on_groups_def refusal_def answer_def served_on_sessions)
    next
      case False
      with q have q': "leaveGroup gid ?a (manager ?G) = (OK_LEFT, m)" "q = OK_LEFT" "\<not> gm_isOwner gid ?a (manager ?G)" by simp_all
      obtain D where D: "run_state (sql_removeMember gid ?a) (store ?G) = (RepoStatus.Ok, D)" "group_step ?G (?G\<lparr>store := D, manager := m\<rparr>)"
        using leave_run [OF assms(3,2) q'(3,1)] .
      let ?Y = "on_sessions (edit_joined (removeAll gid) key) (with_groups (?G\<lparr>manager := m\<rparr>) X)"
      have store: "run_state (in_store (sql_removeMember gid ?a)) (im_groups (core ?Y)) = (RepoStatus.Ok, ?G\<lparr>manager := m, store := D\<rparr>)"
        using D(1) by (simp add: in_store_def on_sessions_def)
      have "snd (handleLeave env req key s X) = with_groups (?G\<lparr>manager := m, store := D\<rparr>) ?Y"
        using True Inr q' run store assms(1) by (simp add: handler on_groups_def answer_def Let_def)
      also have "\<dots> = on_sessions (edit_joined (removeAll gid) key) (with_groups (?G\<lparr>store := D, manager := m\<rparr>) X)"
        by (simp add: with_groups_def on_sessions_def)
      finally show ?thesis using D(2) by (auto intro!: served_on_sessions served_groups r_into_rtranclp join_step.group)
    qed
  qed
qed

lemma dispatchLeave_served:
  assumes "hasRepositories env" "outcomes (store (im_groups (core X))) = []" "group_system_ok (im_groups (core X))"
  shows "group_served env X (snd (dispatchLeave env req key s X))"
proof -
  obtain y X1 where h: "handleLeave env req key s X = (y, X1)" by (cases "handleLeave env req key s X")
  have s: "group_served env X X1" using leave_served [OF assms, of req key s] h by simp
  have b: "serves env (on_core (broadcastToGroup (ge_im env) gid key (makeOk req GROUP_EVENT_PUSH (json_object [(''event'', JString ''leave''),
                      (''accountId'', JString (s_accountId s)), (''username'', JString (s_username s)), (''groupId'', JString gid)]) ''Ok'')) (\<lambda>_. answer r))" for gid r
    by (intro serves_broadcast serves_simple) (simp_all add: makeOk_def field_json_object)
  show ?thesis using h s servesD [OF b s] by (auto simp: dispatchLeave_def split: sum.split option.split json.split)
qed

text \<open>Every request about groups is served; for leaving, if the database works at that moment.\<close>

lemma group_dispatch_served:
  assumes "group_dispatch env req key s = Some h"
    and "req_type req = LEAVE_GROUP_REQ \<Longrightarrow> hasRepositories env \<and> outcomes (store (im_groups (core X))) = [] \<and> group_system_ok (im_groups (core X))"
  shows "group_served env X (snd (h X))"
proof (cases "req_type req = LEAVE_GROUP_REQ")
  case True
  with assms have "h = dispatchLeave env req key s" by (simp add: group_dispatch_def)
  with assms(2) [OF True] dispatchLeave_served show ?thesis by blast
next
  case False
  with assms(1) have "serves env h"
    using handlers_serve branching_handlers_serve lists_serve by (auto simp: group_dispatch_def split: if_splits)
  then show ?thesis by (rule servesD) simp
qed

end
