(* ===== verification/ChatServer.thy ===== *)
theory ChatServer
  imports GroupHandlers
begin

text \<open>
  The server as a whole: the handlers of \<open>UserHandlers\<close> and \<open>GroupHandlers\<close> and the message paths of
  \<open>MessageFlow\<close> interleave on one set of sessions, connections and tables. The theorems carry what was shown
  of the parts over to the whole: its runs are runs of the message paths, of the group services and of
  the services for accounts and friends, a connection that is logged in is logged in as a registered
  user, and direct messages are saved only between friends.
\<close>

subsection \<open>Steps\<close>

text \<open>
  Profiles and friend relations are tables of one database: what the services write is what the message
  paths read. The pair of accounts is the primary key of a relation.
\<close>

definition relation_view :: "friend_tables \<Rightarrow> ((accountId \<times> accountId) \<times> nat) list" where
  "relation_view t = map (\<lambda>(p, r). (p, rel_status r)) (AList.clearjunk (relations t))"

definition account_view :: "social \<Rightarrow> accountId list \<times> ((accountId \<times> accountId) \<times> nat) list" where
  "account_view P = (map pf_accountId (profiles (tables (accounts P))), relation_view (tables (friends P)))"

definition feed_core :: "accountId list \<times> ((accountId \<times> accountId) \<times> nat) list \<Rightarrow> im_state \<Rightarrow> im_state" where
  "feed_core v S = S\<lparr>im_directs := (im_directs S)\<lparr>tables := tables (im_directs S)\<lparr>user_profiles := fst v, friend_relations := snd v\<rparr>\<rparr>\<rparr>"

definition feed :: "server \<Rightarrow> server" where
  "feed X = with_core (feed_core (account_view (people X)) (core X)) X"

text \<open>
  Logins and changes of the accounts are made by the handlers; the other steps keep them. A member who
  leaves a group does so while the database works: \<open>GroupHandlers\<close> shows what happens otherwise.
\<close>

definition no_login :: "session_manager \<Rightarrow> session_manager \<Rightarrow> bool" where
  "no_login m m' \<longleftrightarrow> (\<forall>k. login_of m' k = None \<or> login_of m' k = login_of m k)"

inductive server_step :: "group_env \<Rightarrow> server \<Rightarrow> server \<Rightarrow> bool" for env where
  user: "map_of (im_conns (core X)) c = Some (key, cl) \<Longrightarrow> onUserMessage (ge_user env) (user_dispatch (ge_user env)) c key req X = (u, X') \<Longrightarrow>
    server_step env X (feed X')"
| group: "map_of (im_conns (core X)) c = Some (key, cl) \<Longrightarrow>
    req_type req = LEAVE_GROUP_REQ \<longrightarrow> hasRepositories env \<and> outcomes (store (im_groups (core X))) = [] \<Longrightarrow>
    onUserMessage (ge_user env) (group_dispatch env) c key req X = (u, X') \<Longrightarrow> server_step env X (feed X')"
| messages: "im_step (ge_im env) (ge_deps env) (core X) S \<Longrightarrow> no_login (im_sessions (core X)) (im_sessions S) \<Longrightarrow>
    accounts_of (tables (im_directs S)) = accounts_of (tables (im_directs (core X))) \<Longrightarrow> server_step env X (with_core S X)"
| upkeep: "social_step (sha256 (ge_user env)) (people X) P \<Longrightarrow> server_step env X (feed (with_people P X))"

abbreviation server_steps :: "group_env \<Rightarrow> server \<Rightarrow> server \<Rightarrow> bool" where
  "server_steps env \<equiv> (server_step env)\<^sup>*\<^sup>*"

definition server_new :: "int option list \<Rightarrow> int option list \<Rightarrow> int option list \<Rightarrow> server" where
  "server_new os as fs = \<lparr>core = im_new os, people = social_new as fs, limiterCalls = []\<rparr>"

subsection \<open>Sessions\<close>

text \<open>A connection that is logged in is logged in as a registered user.\<close>

definition sessions_owned :: "social \<Rightarrow> session_manager \<Rightarrow> bool" where
  "sessions_owned P m \<longleftrightarrow> (\<forall>k w a name. login_of m k = Some (w, a, name) \<longrightarrow> (\<exists>uid. w = of_nat uid \<and> user_in P uid a name))"

lemma social_step_user: "social_step sha P P' \<Longrightarrow> social_inv P \<Longrightarrow> user_in P uid a name \<Longrightarrow> user_in P' uid a name"
  using social_step_changes [of sha P P'] changes_owner unfolding social_inv_def user_in_def by blast

lemma social_steps_user: "social_steps sha P P' \<Longrightarrow> social_inv P \<Longrightarrow> user_in P uid a name \<Longrightarrow> user_in P' uid a name"
  by (induction rule: rtranclp_induct) (blast intro: social_step_user social_steps_inv)+

lemma sessions_owned_mono: "social_steps sha P P' \<Longrightarrow> social_inv P \<Longrightarrow> sessions_owned P m \<Longrightarrow> sessions_owned P' m"
  unfolding sessions_owned_def using social_steps_user by blast

lemma user_named: "social_inv P \<Longrightarrow> user_in P uid a name \<Longrightarrow> named a \<and> registered_account P a"
  by (auto simp: social_inv_def user_in_def owner_in_def registered_account_def dest: accounts_invD(3))

lemma login_of_bind:
  "login_of (bindUser key uid a name m) k = (if k = key then Some (uid, a, name) else login_of m k)"
  by (auto simp: login_of_def bindUser_def Let_def)

lemma login_of_unbind:
  "login_of ((unbindConn key m)\<lparr>sessions := AList.update key s' (sessions (unbindConn key m))\<rparr>) k = (if k = key \<and> s_state s' \<noteq> Authed then None else if k = key then Some (s_userId s', s_accountId s', s_username s') else login_of m k)"
  by (auto simp: login_of_def unbindConn_maps)

lemma named_sessions: "sessions_named m \<longleftrightarrow> sessions_inv m \<and> (\<forall>k w a name. login_of m k = Some (w, a, name) \<longrightarrow> named a)"
  by (auto simp: sessions_named_def login_of_def split: option.splits if_splits)

lemma bind_sessions:
  assumes "sessions_named m" "map_of (sessions m) key = Some s" "s_state s \<noteq> Authed" "named a"
  shows "sessions_named (bindUser key uid a name m)"
proof -
  have "sessions_inv m" "map_of (connAccountMap m) key = None" using assms(1-3) by (auto simp: sessions_named_def sessions_inv_def)
  then have "sessions_inv (bindUser key uid a name m)" by (rule bindUser_inv)
  with assms(1,4) show ?thesis by (simp add: named_sessions login_of_bind)
qed

lemma unbind_sessions:
  assumes "sessions_named m" "s_state s' \<noteq> Authed"
  shows "sessions_named ((unbindConn key m)\<lparr>sessions := AList.update key s' (sessions (unbindConn key m))\<rparr>)"
proof -
  have "sessions_inv ((unbindConn key m)\<lparr>sessions := AList.update key s' (sessions (unbindConn key m))\<rparr>)"
    using assms by (intro unbindConn_inv) (auto simp: sessions_named_def unbindConn_maps)
  with assms show ?thesis by (simp add: named_sessions login_of_unbind)
qed

subsection \<open>What a request does\<close>

text \<open>A request leaves the tables of messages, tasks and connections alone; it is answered at most once.\<close>

definition friend_push :: "im_event \<Rightarrow> bool" where
  "friend_push e = (case e of Pushed ts p \<Rightarrow> resp_type p = FRIEND_EVENT_PUSH | _ \<Rightarrow> False)"

lemma served_effect:
  assumes "served env key s X0 X'" "social_inv (people X0)" "sessions_named (im_sessions (core X0))"
    "sessions_owned (people X0) (im_sessions (core X0))" "map_of (sessions (im_sessions (core X0))) key = Some s"
  obtains m ev n where "core X' = base ((core X0)\<lparr>im_sessions := m\<rparr>) [] [] ev n" "tick (core X0) \<le> n" "\<forall>e \<in> set ev. friend_push e"
    "sessions_named m" "sessions_owned (people X') m" "social_steps (sha256 env) (people X0) (people X')"
proof -
  let ?m0 = "im_sessions (core X0)"
  note result = that
  have q: thesis if x: "quiet env X0 X" "core X' = base ((core X)\<lparr>im_sessions := m\<rparr>) [] [] ev n" "tick (core X) \<le> n" "people X' = people X"
    "\<forall>e \<in> set ev. friend_push e" "sessions_named m" "sessions_owned (people X) ?m0 \<Longrightarrow> sessions_owned (people X) m" for X m ev n
  proof -
    obtain k where k: "core X = base (core X0) [] [] [] k" "tick (core X0) \<le> k" "social_steps (sha256 env) (people X0) (people X)"
      using x(1) by (auto simp: quiet_def)
    have "(base (core X0) [] [] [] k)\<lparr>im_sessions := m\<rparr> = base ((core X0)\<lparr>im_sessions := m\<rparr>) [] [] [] k" by (simp add: base_def)
    with x(2,3) k have "core X' = base ((core X0)\<lparr>im_sessions := m\<rparr>) [] [] ev n" "tick (core X0) \<le> n" by simp_all
    with result [of m ev n] x(4-7) k(3) sessions_owned_mono [OF k(3) assms(2,4)] show thesis by simp
  qed
  from assms(1) show thesis
  proof cases
    case answered
    then show ?thesis by (rule q [of X' ?m0 "[]" "tick (core X')"])
        (use assms(3) quiet_sessions [OF answered] in \<open>simp_all add: base_def\<close>)
  next
    case (bound X uid a name)
    note inv = quiet_inv [OF bound(1) assms(2)]
    show ?thesis
      by (rule q [OF bound(1), of "bindUser key (of_nat uid) a name ?m0" "[]" "tick (core X)"])
        (use bound bind_sessions [OF assms(3,5)] user_named [OF inv bound(3)] quiet_sessions [OF bound(1)] in
          \<open>auto simp: on_sessions_def base_def sessions_owned_def login_of_bind\<close>)
  next
    case (unbound X)
    let ?s = "s\<lparr>s_accountId := [], s_state := Connected, joinedGroupIds := [], s_userId := 0\<rparr>"
    let ?m = "(unbindConn key ?m0)\<lparr>sessions := AList.update key ?s (sessions (unbindConn key ?m0))\<rparr>"
    show ?thesis
      by (rule q [OF unbound(1), of ?m "[]" "tick (core X)"])
        (use unbound unbind_sessions [OF assms(3), of ?s key] quiet_sessions [OF unbound(1)] in
          \<open>auto simp: unbind_session_def on_sessions_def base_def sessions_owned_def login_of_unbind Let_def\<close>)
  next
    case (notified X p n target)
    show ?thesis
      by (rule q [OF notified(1), of ?m0 "[Pushed (connKeysByAccountId target ?m0) p]" n])
        (use notified assms(3) quiet_sessions [OF notified(1)] in \<open>simp_all add: friend_push_def base_def\<close>)
  qed
qed

text \<open>None of the answers looks like that of a message.\<close>

definition plain :: "user_exn + response \<Rightarrow> bool" where
  "plain x = (case x of Inl e \<Rightarrow> True | Inr r \<Rightarrow> resp_type r \<noteq> GROUP_MSG_RESP \<and> resp_type r \<noteq> DM_RESP)"

lemma plain_simps [simp]:
  "plain (Inl e)" "plain (Inr (makeErr req c msg j))" "plain (Inr (makeRateLimitError req l))" "plain (Inr (makeRepoError req st text))"
  "plain (Inr (makeOk req ty j msg)) \<longleftrightarrow> ty \<noteq> GROUP_MSG_RESP \<and> ty \<noteq> DM_RESP"
  by (simp_all add: plain_def makeErr_def makeOk_def makeRateLimitError_def makeRepoError_def Let_def)

lemma field_error_plain [simp]: "getStringField req f b = Inl r \<Longrightarrow> plain (Inr r)"
  by (auto simp: getStringField_def split: option.splits json.splits if_splits)

lemma wp_limit_plain:
  assumes "\<And>X'. wp k (\<lambda>x X. plain x) X'"
  shows "wp (with_limit env req verdict call k) (\<lambda>x X. plain x) X"
proof -
  have c: "wp (\<lambda>X. h (call_limiter c X)) Q Y = wp h Q (call_limiter c Y)" for h :: "response srv" and c Q Y by (simp add: wp_def)
  show ?thesis using assms by (auto simp: with_limit_def c checkRateLimitOrError_def split: option.split)
qed

lemma account_handlers_plain:
  "wp (handleRegister env req key s) (\<lambda>x X. plain x) X" "wp (handleLogin env req key s) (\<lambda>x X. plain x) X"
  "wp (handleTokenLogin env req key s) (\<lambda>x X. plain x) X" "wp (handleLogout env req key s) (\<lambda>x X. plain x) X"
  by (auto simp: handleRegister_def handleLogin_def handleTokenLogin_def handleLogout_def Let_def split: sum.split option.split intro!: wp_limit_plain)

lemma profile_handlers_plain:
  "wp (handleGetProfile env req key s) (\<lambda>x X. plain x) X" "wp (handleUpdateProfile env req key s) (\<lambda>x X. plain x) X"
  "wp (handleSearchUser env req key s) (\<lambda>x X. plain x) X" "wp (handleListFriends env req key s) (\<lambda>x X. plain x) X"
  by (auto simp: handleGetProfile_def handleUpdateProfile_def handleSearchUser_def handleListFriends_def split: sum.split option.split)

lemma small_handlers_plain:
  "wp (handleListUsers env req key s) (\<lambda>x X. plain x) X" "wp (handleEcho env req key s) (\<lambda>x X. plain x) X"
  by (simp_all add: handleListUsers_def handleEcho_def wp_def with_auth_def guardAuthenticated_def answer_def)

lemma friend_handlers_plain:
  "wp (handleRemoveFriend env req key s) (\<lambda>x X. plain x) X" "wp (handleSendFriendRequest env req key s) (\<lambda>x X. plain x) X"
  "wp (handleListFriendRequests env req key s) (\<lambda>x X. plain x) X"
  "wp (handleAcceptFriendRequest env req key s) (\<lambda>x X. plain x) X" "wp (handleRejectFriendRequest env req key s) (\<lambda>x X. plain x) X"
  by (auto simp: handleRemoveFriend_def handleSendFriendRequest_def handleListFriendRequests_def handleAcceptFriendRequest_def
      handleRejectFriendRequest_def decide_request_def with_request_id_def split: sum.split option.split json.split)

lemma user_dispatch_plain:
  assumes "user_dispatch env req key s = Some h" "\<not> allowDebugAuth env"
  shows "wp h (\<lambda>x X. plain x) X"
proof -
  have "wp (handleAuth env req key s) (\<lambda>x X. plain x) X" using assms(2) by (simp add: wp_def handleAuth_def refusal_def answer_def)
  then show ?thesis
    using assms(1) account_handlers_plain profile_handlers_plain small_handlers_plain friend_handlers_plain by (auto simp: user_dispatch_def split: if_splits)
qed

text \<open>The same for the handlers of groups, by composition.\<close>

definition plainly :: "response srv \<Rightarrow> bool" where
  "plainly h \<longleftrightarrow> (\<forall>X. plain (fst (h X)))"

lemma plainly_simple [intro!]:
  "plainly (refusal req c msg)" "plainly (repo_refusal env req st)" "ty \<noteq> GROUP_MSG_RESP \<Longrightarrow> ty \<noteq> DM_RESP \<Longrightarrow> plainly (answer (makeOk req ty j msg))"
  "plainly (\<lambda>X. answer (makeErr req c msg j) (f X))" "plainly (\<lambda>X. answer (makeRepoError req st text) (f X))"
  "ty \<noteq> GROUP_MSG_RESP \<Longrightarrow> ty \<noteq> DM_RESP \<Longrightarrow> plainly (\<lambda>X. answer (makeOk req ty (jf X) msg) (f X))"
  by (simp_all add: plainly_def refusal_def repo_refusal_def ask_env_def answer_def)

lemma plainly_compose [intro!]:
  "plainly k \<Longrightarrow> plainly (with_auth req s k)"
  "(\<And>v. plainly (g v)) \<Longrightarrow> plainly (with_field req f g)"
  "plainly k \<Longrightarrow> plainly (with_service req b msg k)"
  "(\<And>c. plainly (h c)) \<Longrightarrow> plainly (ask_env rd h)"
  "(\<And>x. plainly (q x)) \<Longrightarrow> plainly (valued req msg q w)"
  "(\<And>b. plainly (r b)) \<Longrightarrow> plainly (on_core m r)"
  "(\<And>b. plainly (r' b)) \<Longrightarrow> plainly (on_groups m' r')"
  "(\<And>x. plainly (q' x)) \<Longrightarrow> plainly (call_group genv req m'' q')"
  "plainly k' \<Longrightarrow> plainly (\<lambda>X. k' (on_sessions f' X))"
  by (auto simp: plainly_def with_auth_def guardAuthenticated_def with_field_def with_service_def ask_env_def valued_def on_core_def on_groups_def call_group_def
      answer_def refusal_def repo_refusal_def split: option.split sum.split prod.split)

lemma plainly_if [intro!]: "(b \<Longrightarrow> plainly h) \<Longrightarrow> (\<not> b \<Longrightarrow> plainly h') \<Longrightarrow> plainly (if b then h else h')"
  by simp

lemma group_handlers_plain:
  "plainly (handleCreateGroup env req key s)" "plainly (handleKickGroupMember env req key s)" "plainly (handleTransferGroupOwner env req key s)"
  "plainly (handleDissolveGroup env req key s)" "plainly (handleSearchGroups env req key s)" "plainly (handleApplyGroupJoin env req key s)"
  "plainly (handleListGroupJoinRequest env req key s)"
  unfolding handleCreateGroup_def handleKickGroupMember_def handleTransferGroupOwner_def handleDissolveGroup_def handleSearchGroups_def
    handleApplyGroupJoin_def handleListGroupJoinRequest_def Let_def
  by auto

lemma branching_handlers_plain:
  "plainly (handleInviteGroupMember env req key s)" "plainly (handleSetGroupAdmin env req key s)" "plainly (handleReviewGroupJoin env req key s)"
  "plainly (handleListGroups env req key s)"
  unfolding handleInviteGroupMember_def handleSetGroupAdmin_def handleReviewGroupJoin_def handleListGroups_def Let_def
  by (auto split: option.split json.split)

lemma leave_plain: "plainly (dispatchLeave env req key s)" "plainly (handleGroupMembers env req key s)"
proof -
  have h: "plainly (handleLeave env req key s)"
    unfolding plainly_def handleLeave_def
    by (auto simp: with_auth_def guardAuthenticated_def with_field_def on_groups_def answer_def refusal_def Let_def split: sum.split prod.split)
  have b: "plain (fst (on_core m (\<lambda>_. answer r) X))" if "plain (Inr r)" for m :: "batch_result im" and r X
    using that by (auto simp: on_core_def answer_def split: prod.split sum.split)
  show "plainly (dispatchLeave env req key s)"
    unfolding plainly_def
  proof
    fix X
    show "plain (fst (dispatchLeave env req key s X))"
      using h b unfolding plainly_def dispatchLeave_def by (auto split: prod.split sum.split option.split json.split) (metis fst_conv)+
  qed
  show "plainly (handleGroupMembers env req key s)"
    unfolding plainly_def handleGroupMembers_def
    by (auto simp: with_auth_def guardAuthenticated_def with_field_def answer_def refusal_def guardInGroup_def split: sum.split option.split)
qed

lemma group_dispatch_plain: "group_dispatch env req key s = Some h \<Longrightarrow> plain (fst (h X))"
  using group_handlers_plain branching_handlers_plain leave_plain by (auto simp: group_dispatch_def plainly_def split: if_splits)

text \<open>The answer of a handler, once it is sent.\<close>

lemma send_answer_effect:
  assumes "send_answer env key req r X = (x, X')" "plain (Inr r)"
  obtains ev n where "X' = with_core (base (core X) [] [] ev n) X" "tick (core X) \<le> n" "\<forall>e \<in> set ev. other_event e"
    "sum_list (map event_replied ev) \<subseteq># {#(key, req)#}" "x = Inl e \<Longrightarrow> ev = []"
proof -
  obtain y S where s: "sendResponseWithLog (ue_im env) key req r (core X) = (y, S)" by (cases "sendResponseWithLog (ue_im env) key req r (core X)")
  from s show thesis
  proof (cases rule: sendResponse_cases)
    case (thrown e n)
    with assms(1) s show ?thesis by (intro that [of "[]" n]) (auto simp: send_answer_def on_core_def)
  next
    case (replied y' r' n)
    have "other_event (Replied key req r')" using assms(2) decoration_type [OF replied(2)] by (simp add: plain_def)
    with assms(1) s replied show ?thesis by (intro that [of "[Replied key req r']" n]) (auto simp: send_answer_def on_core_def)
  qed
qed

lemma friend_push_other: "friend_push e \<Longrightarrow> other_event e \<and> event_replied e = {#}"
  by (cases e) (auto simp: friend_push_def)

lemma friend_pushes_other: "\<forall>e \<in> set ev. friend_push e \<Longrightarrow> (\<forall>e \<in> set ev. other_event e) \<and> sum_list (map event_replied ev) = {#}"
  by (induction ev) (auto dest: friend_push_other)

lemma answer_user_effect:
  assumes "answer_user env key req h X = (x, X')" "wp h (\<lambda>x X. plain x) X"
  obtains ev n where "X' = with_core (base (core (snd (h X))) [] [] ev n) (snd (h X))" "tick (core (snd (h X))) \<le> n" "\<forall>e \<in> set ev. other_event e"
    "sum_list (map event_replied ev) \<subseteq># {#(key, req)#}"
proof -
  let ?err = "\<lambda>e. makeErr req INTERNAL (''Internal server error:'' @ exn_text env e) JNull"
  obtain y X1 where h: "h X = (y, X1)" by (cases "h X")
  show thesis
  proof (cases y)
    case (Inl e)
    with assms(1) h have "send_answer env key req (?err e) X1 = (x, X')" by (simp add: answer_user_def)
    then show ?thesis by (rule send_answer_effect) (use that h in auto)
  next
    case (Inr r)
    obtain z X2 where s: "send_answer env key req r X1 = (z, X2)" by (cases "send_answer env key req r X1")
    have p: "plain (Inr r)" using assms(2) h Inr by (simp add: wp_def)
    show ?thesis
    proof (cases z)
      case (Inr u)
      with assms(1) h \<open>y = Inr r\<close> s have "X' = X2" by (simp add: answer_user_def)
      with s p that h show ?thesis by (auto elim: send_answer_effect)
    next
      case (Inl e)
      from s p obtain n where n: "X2 = with_core (base (core X1) [] [] [] n) X1" "tick (core X1) \<le> n" by (rule send_answer_effect [where e=e]) (use Inl in auto)
      from assms(1) h \<open>y = Inr r\<close> s Inl have "send_answer env key req (?err e) X2 = (x, X')" by (simp add: answer_user_def)
      then show ?thesis
      proof (rule send_answer_effect)
        fix ev m
        assume "X' = with_core (base (core X2) [] [] ev m) X2" "tick (core X2) \<le> m" "\<forall>e \<in> set ev. other_event e" "sum_list (map event_replied ev) \<subseteq># {#(key, req)#}"
        with n h that [of ev m] show thesis by (simp add: with_core_def)
      qed simp
    qed
  qed
qed

lemma login_of_create:
  assumes "getOrCreate key m = (s0, m0)" "s_state s = s_state s0" "s_userId s = s_userId s0" "s_accountId s = s_accountId s0" "s_username s = s_username s0"
  shows "login_of (m0\<lparr>sessions := AList.update key s (sessions m0)\<rparr>) k = login_of m k"
  using assms by (auto simp: getOrCreate_def login_of_def Session_new_def split: option.splits if_splits)

text \<open>What a handler may do before it is answered.\<close>

definition handled :: "user_env \<Rightarrow> group_deps \<Rightarrow> server \<Rightarrow> server \<Rightarrow> bool" where
  "handled env deps X0 X \<longleftrightarrow> (\<exists>m G ev n. core X = base ((core X0)\<lparr>im_sessions := m, im_groups := G\<rparr>) [] [] ev n \<and> tick (core X0) \<le> n \<and>
     sessions_named m \<and> sessions_owned (people X) m \<and> (\<forall>e \<in> set ev. other_event e) \<and> sum_list (map event_replied ev) = {#} \<and>
     social_steps (sha256 env) (people X0) (people X) \<and> (join_step deps)\<^sup>*\<^sup>* (im_groups (core X0)) G)"

lemma served_handled:
  assumes "served env key s X0 X'" "social_inv (people X0)" "sessions_named (im_sessions (core X0))"
    "sessions_owned (people X0) (im_sessions (core X0))" "map_of (sessions (im_sessions (core X0))) key = Some s"
  shows "handled env deps X0 X'"
  using assms
proof (rule served_effect)
  fix m ev n
  assume e: "core X' = base ((core X0)\<lparr>im_sessions := m\<rparr>) [] [] ev n" "\<forall>e \<in> set ev. friend_push e" and
    r: "tick (core X0) \<le> n" "sessions_named m" "sessions_owned (people X') m" "social_steps (sha256 env) (people X0) (people X')"
  have "core X' = base ((core X0)\<lparr>im_sessions := m, im_groups := im_groups (core X0)\<rparr>) [] [] ev n" using e(1) by (simp add: base_def)
  with r friend_pushes_other [OF e(2)] show ?thesis unfolding handled_def by blast
qed

lemma event_pushes_other: "\<forall>e \<in> set ev. event_push e \<Longrightarrow> (\<forall>e \<in> set ev. other_event e) \<and> sum_list (map event_replied ev) = {#}"
proof (induction ev)
  case (Cons e ev)
  then show ?case by (cases e) (auto simp: event_push_def)
qed simp

lemma group_served_handled:
  assumes "group_served env X0 X" "sessions_named (im_sessions (core X0))" "sessions_owned (people X0) (im_sessions (core X0))"
  shows "handled (ge_user env) (ge_deps env) X0 X"
proof -
  from assms(1) obtain G m ev n where g: "people X = people X0" "core X = base ((core X0)\<lparr>im_sessions := m, im_groups := G\<rparr>) [] [] ev n" "tick (core X0) \<le> n"
    "(join_step (ge_deps env))\<^sup>*\<^sup>* (im_groups (core X0)) G" "same_logins (im_sessions (core X0)) m" "\<forall>e \<in> set ev. event_push e"
    by (auto simp: group_served_def)
  have "sessions_named m" "sessions_owned (people X) m"
    using g(1,5) assms(2,3) by (auto simp: same_logins_def named_sessions sessions_owned_def)
  moreover have "social_steps (sha256 (ge_user env)) (people X0) (people X)" by (simp add: g(1))
  ultimately show ?thesis using g(2-4) event_pushes_other [OF g(6)] unfolding handled_def by blast
qed

lemma onUserMessage_effect:
  assumes "onUserMessage env dispatch c key req X = (u, X')" "social_inv (people X)" "sessions_named (im_sessions (core X))"
    "sessions_owned (people X) (im_sessions (core X))"
    and h: "\<And>s h Y. dispatch req key s = Some h \<Longrightarrow> map_of (sessions (im_sessions (core Y))) key = Some s \<Longrightarrow> social_inv (people Y) \<Longrightarrow>
      sessions_named (im_sessions (core Y)) \<Longrightarrow> sessions_owned (people Y) (im_sessions (core Y)) \<Longrightarrow> im_groups (core Y) = im_groups (core X) \<Longrightarrow>
      handled env deps Y (snd (h Y)) \<and> wp h (\<lambda>x X. plain x) Y"
  obtains (ignored) "X' = X"
    | (answered) m G ev n where "core X' = base ((core X)\<lparr>im_sessions := m, im_groups := G\<rparr>) [] [] (Received key req # ev) n" "tick (core X) \<le> n"
        "sessions_named m" "sessions_owned (people X') m" "\<forall>e \<in> set ev. other_event e" "sum_list (map event_replied ev) \<subseteq># {#(key, req)#}"
        "social_steps (sha256 env) (people X) (people X')" "(join_step deps)\<^sup>*\<^sup>* (im_groups (core X)) G"
proof -
  obtain s0 m0 where g: "getOrCreate key (im_sessions (core X)) = (s0, m0)" by (cases "getOrCreate key (im_sessions (core X))")
  define s where "s = (if s_peerIp s0 = [] then s0\<lparr>s_peerIp := fst (peerOf (ue_im env) c), s_peerPort := snd (peerOf (ue_im env) c)\<rparr> else s0)"
  define m1 where "m1 = m0\<lparr>sessions := AList.update key s (sessions m0)\<rparr>"
  define Y where "Y = with_core (base ((core X)\<lparr>im_sessions := m1\<rparr>) [] [] [Received key req] (tick (core X))) X"
  have m0: "sessions_named m0" "map_of (sessions m0) key = Some s0" using getOrCreate_named [OF assms(3) g] getOrCreate_find [OF g] by simp_all
  have same: "login_of m1 k = login_of (im_sessions (core X)) k" for k unfolding m1_def by (rule login_of_create [OF g]) (simp_all add: s_def)
  have named: "sessions_named m1" unfolding m1_def by (rule sessions_named_update [OF m0]) (simp_all add: s_def)
  have e: "onUserMessage env dispatch c key req X = (case dispatch req key s of None \<Rightarrow> (Inr (), X) | Some h \<Rightarrow> answer_user env key req h Y)"
  proof -
    have y: "(on_sessions (\<lambda>_. m1) X)\<lparr>core := emit_event (Received key req) (core (on_sessions (\<lambda>_. m1) X))\<rparr> = Y"
      by (simp add: Y_def on_sessions_def with_core_def emit_base)
    show ?thesis unfolding onUserMessage_def g Let_def prod.case s_def [symmetric] m1_def [symmetric] y ..
  qed
  show thesis
  proof (cases "dispatch req key s")
    case None
    with e assms(1) ignored show ?thesis by simp
  next
    case (Some h)
    have Y: "map_of (sessions (im_sessions (core Y))) key = Some s" "social_inv (people Y)" "sessions_named (im_sessions (core Y))"
      "sessions_owned (people Y) (im_sessions (core Y))" "im_groups (core Y) = im_groups (core X)"
      using named assms(2,4) by (simp_all add: Y_def m1_def [symmetric] sessions_owned_def same) (simp add: m1_def)
    from assms(5) [OF Some Y] obtain m G ev n where h: "core (snd (h Y)) = base ((core Y)\<lparr>im_sessions := m, im_groups := G\<rparr>) [] [] ev n" "tick (core Y) \<le> n"
      "sessions_named m" "sessions_owned (people (snd (h Y))) m" "\<forall>e \<in> set ev. other_event e" "sum_list (map event_replied ev) = {#}"
      "social_steps (sha256 env) (people Y) (people (snd (h Y)))" "(join_step deps)\<^sup>*\<^sup>* (im_groups (core Y)) G"
      unfolding handled_def by blast
    from e assms(1) Some have "answer_user env key req h Y = (u, X')" by simp
    then obtain ev' k where a: "X' = with_core (base (core (snd (h Y))) [] [] ev' k) (snd (h Y))" "tick (core (snd (h Y))) \<le> k"
      "\<forall>e \<in> set ev'. other_event e" "sum_list (map event_replied ev') \<subseteq># {#(key, req)#}"
      by (rule answer_user_effect) (use assms(5) [OF Some Y] in blast)
    have "(core Y)\<lparr>im_sessions := m, im_groups := G\<rparr> = base ((core X)\<lparr>im_sessions := m, im_groups := G\<rparr>) [] [] [Received key req] (tick (core X))" by (simp add: Y_def base_def)
    with a(1,2) h(1,2) have "core X' = base ((core X)\<lparr>im_sessions := m, im_groups := G\<rparr>) [] [] (Received key req # ev @ ev') k" "tick (core X) \<le> k"
      by (simp_all add: Y_def)
    moreover have "people X' = people (snd (h Y))" "people Y = people X" using a(1) by (simp_all add: Y_def)
    ultimately show ?thesis
      using answered [where m=m and G=G and ev="ev @ ev'" and n=k] h(3-8) a(3,4) Y(5) by auto
  qed
qed

text \<open>The two parts of the dispatch.\<close>

lemma user_request_handled:
  assumes "user_dispatch env req key s = Some h" "map_of (sessions (im_sessions (core Y))) key = Some s" "social_inv (people Y)"
    "sessions_named (im_sessions (core Y))" "sessions_owned (people Y) (im_sessions (core Y))" "\<not> allowDebugAuth env"
  shows "handled env deps Y (snd (h Y)) \<and> wp h (\<lambda>x X. plain x) Y"
proof -
  have "registered_account (people Y) (s_accountId s)" if "s_state s = Authed"
  proof -
    have "login_of (im_sessions (core Y)) key = Some (s_userId s, s_accountId s, s_username s)" using assms(2) that by (simp add: login_of_def)
    with assms(5) user_named [OF assms(3)] show ?thesis unfolding sessions_owned_def by blast
  qed
  from served_handled [OF user_dispatch_served [OF assms(1,3,6) this] assms(3,4,5,2)] user_dispatch_plain [OF assms(1,6)] show ?thesis by blast
qed

lemma group_request_handled:
  assumes "group_dispatch env req key s = Some h" "sessions_named (im_sessions (core Y))" "sessions_owned (people Y) (im_sessions (core Y))"
    "req_type req = LEAVE_GROUP_REQ \<longrightarrow> hasRepositories env \<and> outcomes (store (im_groups (core Y))) = []" "group_system_ok (im_groups (core Y))"
  shows "handled (ge_user env) (ge_deps env) Y (snd (h Y)) \<and> wp h (\<lambda>x X. plain x) Y"
  using group_served_handled [OF group_dispatch_served [OF assms(1)] assms(2,3)] group_dispatch_plain [OF assms(1)] assms(4,5) by (auto simp: wp_def)

subsection \<open>The parts in the whole\<close>

text \<open>The tables of accounts the message paths read are those the services write.\<close>

definition server_inv :: "server \<Rightarrow> bool" where
  "server_inv X \<longleftrightarrow> social_inv (people X) \<and> sessions_named (im_sessions (core X)) \<and> sessions_owned (people X) (im_sessions (core X)) \<and>
     accounts_of (tables (im_directs (core X))) = account_view (people X)"

lemma view_ok:
  assumes "social_inv P"
  shows "\<forall>a \<in> set (fst (account_view P)). named a" "\<forall>(p, st) \<in> set (snd (account_view P)). fst p \<noteq> snd p"
proof -
  note inv = assms [unfolded social_inv_def]
  show "\<forall>a \<in> set (fst (account_view P)). named a"
    using profile_registered [of "tables (accounts P)"] account_names_named [of "tables (accounts P)"] inv by (auto simp: account_view_def)
  show "\<forall>(p, st) \<in> set (snd (account_view P)). fst p \<noteq> snd p"
  proof (clarsimp simp: account_view_def relation_view_def)
    fix b r assume "((b, b), r) \<in> set (AList.clearjunk (relations (tables (friends P))))"
    then have "map_of (relations (tables (friends P))) (b, b) = Some r" by (metis distinct_clearjunk map_of_clearjunk map_of_eq_Some_iff)
    with friends_invD(1) [OF conjunct2 [OF inv]] show False by blast
  qed
qed

lemma active_view: "((a, b), 1) \<in> set (relation_view t) \<longleftrightarrow> active t a b"
proof -
  have "((a, b), r) \<in> set (AList.clearjunk (relations t)) \<longleftrightarrow> map_of (relations t) (a, b) = Some r" for r
    by (metis distinct_clearjunk map_of_clearjunk map_of_eq_Some_iff)
  then show ?thesis by (force simp: relation_view_def active_def)
qed

lemma feed_step:
  assumes "social_inv (people X)"
  shows "im_step env deps (core X) (core (feed X))"
  using im_step.accounts [OF view_ok [OF assms], where S="core X"] by (simp add: feed_def feed_core_def)

lemma feed_simps [simp]: "people (feed X) = people X" "im_sessions (core (feed X)) = im_sessions (core X)"
  "accounts_of (tables (im_directs (core (feed X)))) = account_view (people X)"
  by (simp_all add: feed_def feed_core_def accounts_of_def)

lemma no_login_owned: "no_login m m' \<Longrightarrow> sessions_owned P m \<Longrightarrow> sessions_owned P m'"
  unfolding no_login_def sessions_owned_def by (metis option.distinct(1))

text \<open>A step of the server is a few steps of the message paths and of the services, and keeps them in agreement.\<close>

lemma membership_steps: "(join_step deps)\<^sup>*\<^sup>* (im_groups S) G \<Longrightarrow> (im_step env deps)\<^sup>*\<^sup>* S (S\<lparr>im_groups := G\<rparr>)"
proof (induction rule: rtranclp_induct)
  case base
  show ?case by simp
next
  case (step G G')
  have "im_step env deps (S\<lparr>im_groups := G\<rparr>) (S\<lparr>im_groups := G\<rparr>\<lparr>im_groups := G'\<rparr>)" by (rule im_step.membership) (use step(2) in simp)
  with step(3) show ?case by simp
qed

lemma answered_steps:
  assumes "S' = base (S\<lparr>im_sessions := m, im_groups := G\<rparr>) [] [] (Received key req # ev) n" "tick S \<le> n" "sessions_named m" "\<forall>e \<in> set ev. other_event e"
    "sum_list (map event_replied ev) \<subseteq># {#(key, req)#}" "(join_step deps)\<^sup>*\<^sup>* (im_groups S) G"
  shows "(im_step env deps)\<^sup>*\<^sup>* S S'"
proof -
  have "im_step env deps (S\<lparr>im_groups := G\<rparr>) (base (S\<lparr>im_groups := G\<rparr>\<lparr>im_sessions := m\<rparr>) [] [] (Received key req # ev) n)"
    by (rule im_step.other) (use assms in simp_all)
  moreover have "base (S\<lparr>im_groups := G\<rparr>\<lparr>im_sessions := m\<rparr>) [] [] (Received key req # ev) n = S'" by (simp add: assms(1))
  ultimately show ?thesis using membership_steps [OF assms(6), of env] by simp
qed

lemma server_step_parts:
  assumes "server_step env X X'" "server_inv X" "flow_ok (ge_im env) (core X)" "group_system_ok (im_groups (core X))"
    "increasing (ge_im env)" "\<not> allowDebugAuth (ge_user env)"
  shows "server_inv X' \<and> (im_step (ge_im env) (ge_deps env))\<^sup>*\<^sup>* (core X) (core X') \<and> social_steps (sha256 (ge_user env)) (people X) (people X')"
proof -
  have inv: "social_inv (people X)" "sessions_named (im_sessions (core X))" "sessions_owned (people X) (im_sessions (core X))"
    "accounts_of (tables (im_directs (core X))) = account_view (people X)" using assms(2) by (simp_all add: server_inv_def)
  have request: ?thesis
    if X': "X' = feed Y" and run: "onUserMessage (ge_user env) dispatch c key req X = (u, Y)"
      and h: "\<And>s h Z. dispatch req key s = Some h \<Longrightarrow> map_of (sessions (im_sessions (core Z))) key = Some s \<Longrightarrow> social_inv (people Z) \<Longrightarrow>
        sessions_named (im_sessions (core Z)) \<Longrightarrow> sessions_owned (people Z) (im_sessions (core Z)) \<Longrightarrow> im_groups (core Z) = im_groups (core X) \<Longrightarrow>
        handled (ge_user env) (ge_deps env) Z (snd (h Z)) \<and> wp h (\<lambda>x X. plain x) Z" for Y dispatch c key req u
    using run inv(1-3)
  proof (rule onUserMessage_effect [where deps="ge_deps env"])
    assume "Y = X"
    with X' inv feed_step [OF inv(1)] show ?thesis by (auto simp: server_inv_def)
  next
    fix m G ev n
    assume y: "core Y = base ((core X)\<lparr>im_sessions := m, im_groups := G\<rparr>) [] [] (Received key req # ev) n" "tick (core X) \<le> n" "sessions_named m"
      "\<forall>e \<in> set ev. other_event e" "sum_list (map event_replied ev) \<subseteq># {#(key, req)#}" "(join_step (ge_deps env))\<^sup>*\<^sup>* (im_groups (core X)) G"
      and z: "sessions_owned (people Y) m" "social_steps (sha256 (ge_user env)) (people X) (people Y)"
    have "social_inv (people Y)" using social_steps_inv [OF z(2) inv(1)] .
    moreover from this have "im_step (ge_im env) (ge_deps env) (core Y) (core (feed Y))" by (rule feed_step)
    ultimately show ?thesis using X' answered_steps [OF y, of "ge_im env"] y(1,3) z by (auto simp: server_inv_def)
  qed (use h in blast)
  from assms(1) show ?thesis
  proof cases
    case (user c key cl req u Y)
    show ?thesis by (rule request [OF user(1,3)]) (use user_request_handled assms(6) in blast)
  next
    case (group c key cl req u Y)
    show ?thesis by (rule request [OF group(1,4)]) (use group_request_handled group(3) assms(4) in metis)
  next
    case (messages S)
    from im_step_flow [OF messages(2) assms(3,5)] have "sessions_named (im_sessions S)" by (simp add: flow_ok_def)
    with messages assms(2) no_login_owned show ?thesis by (auto simp: server_inv_def)
  next
    case (upkeep P)
    have "social_inv P" using social_step_inv [OF upkeep(2) inv(1)] .
    moreover have "social_steps (sha256 (ge_user env)) (people X) P" using upkeep(2) by blast
    moreover from this have "sessions_owned P (im_sessions (core X))" using sessions_owned_mono inv by blast
    ultimately show ?thesis using upkeep(1) inv feed_step [of "with_people P X" "ge_im env" "ge_deps env"] by (auto simp: server_inv_def)
  qed
qed

lemma server_inv_new: "server_inv (server_new os as fs)"
proof -
  have "sessions_named SessionManager_new" by (simp add: sessions_named_def sessions_inv_new) (simp add: SessionManager_new_def)
  moreover have "social_inv (social_new as fs)" by (rule social_inv_new)
  ultimately show ?thesis
    by (simp add: server_inv_def server_new_def im_new_def sessions_owned_def login_of_def accounts_of_def account_view_def relation_view_def
        social_new_def direct_tables_new_def friend_tables_new_def account_tables_new_def) (simp add: SessionManager_new_def)
qed

lemma server_run:
  assumes "server_steps env (server_new os as fs) X" "increasing (ge_im env)" "\<not> allowDebugAuth (ge_user env)"
  shows "server_inv X \<and> (im_step (ge_im env) (ge_deps env))\<^sup>*\<^sup>* (im_new os) (core X) \<and> social_steps (sha256 (ge_user env)) (social_new as fs) (people X)"
  using assms(1)
proof (induction rule: rtranclp_induct)
  case base
  show ?case using server_inv_new by (simp add: server_new_def)
next
  case (step X Y)
  have "flow_ok (ge_im env) (core X)" using flow_reachable step(3) assms(2) by blast
  moreover have "group_system_ok (im_groups (core X))"
    using chat_steps_ok chats_reachable [of "ge_im env" "ge_deps env" os "core X"] step(3) assms(2) by blast
  ultimately show ?case using server_step_parts [OF step(2)] step(3) assms(2,3) by (meson rtranclp_trans)
qed

subsection \<open>Direct messages\<close>

lemma im_step_new_direct:
  assumes "im_step env deps S S'" "flow_ok env S" "increasing env" "x \<in> set (direct_log S')" "x \<notin> set (direct_log S)"
  obtains cmd where "x = (dc_msgId cmd, direct_row cmd)" "well_formed (tables (im_directs S)) cmd"
    "dc_receiverAccountId cmd \<in> set (user_profiles (tables (im_directs S)))"
    "((dc_senderAccountId cmd, dc_receiverAccountId cmd), 1) \<in> set (friend_relations (tables (im_directs S)))"
  using assms(1)
proof cases
  case (request c key cl parse msg u)
  with request_frame [OF _ assms(2)] assms(4,5) show ?thesis by fastforce
next
  case (message xs k task ys)
  show ?thesis
  proof (cases task)
    case (SaveDirect ctx cmd)
    obtain st D where r: "run_state (direct_persist cmd) (im_directs S) = (st, D)" by (cases "run_state (direct_persist cmd) (im_directs S)")
    have S': "im_directs S' = D" using message(1) SaveDirect r by simp
    from assms(2) message(2) [unfolded SaveDirect] r show ?thesis
    proof (cases rule: save_direct_tables)
      case same
      with assms(4,5) S' show ?thesis by simp
    next
      case saved
      have x: "x = (dc_msgId cmd, direct_row cmd)" using assms(4,5) S' saved(3) by simp
      have "dc_senderAccountId cmd \<noteq> dc_receiverAccountId cmd" using saved(2) by (simp add: well_formed_def)
      with mayI [OF r] show ?thesis
      proof (cases rule: direct_persist_cases)
        case none
        with saved(1) show ?thesis by simp
      next
        case (stored at)
        with that [OF x saved(2)] show ?thesis by blast
      qed
    qed
  next
    case (SaveGroup ctx cmd)
    with message(1) assms(4,5) show ?thesis by (auto split: prod.splits)
  qed
next
  case (loop task ts)
  with loop_frame [OF assms(2)] assms(4,5) show ?thesis by fastforce
next
  case (direct_read a b i at v D)
  with direct_read_messages [OF direct_read(2)] assms(4,5) show ?thesis by simp
qed (use assms(4,5) in \<open>auto simp: run_redis_task_def Let_def consult_def\<close>)

subsection \<open>Notifications and logins\<close>

text \<open>What goes out when a friend request, a decision or a removal is announced to an account.\<close>

definition announced :: "im_state \<Rightarrow> accountId \<Rightarrow> (string \<times> json) list \<Rightarrow> im_event list \<Rightarrow> bool" where
  "announced S target kvs ev \<longleftrightarrow>
     (if \<exists>k. logged_in (im_sessions S) k target
      then \<exists>ts p. ev = [Pushed ts p] \<and> distinct ts \<and> set ts = {k. logged_in (im_sessions S) k target} \<and> resp_type p = FRIEND_EVENT_PUSH \<and>
        (\<forall>(k, v) \<in> set kvs. field k (resp_data p) = Some v)
      else ev = [])"

lemma notify_announced:
  assumes "notifyFriendEvent env target event kvs S = (Inr r, S')" "sessions_inv (im_sessions S)"
    "distinct (map fst (kvs @ [(''event'', JString event)]))" "\<forall>k \<in> fst ` set kvs. k \<notin> {''msgId'', ''serverTsMs'', ''clientReqId''}"
  shows "\<exists>ev. im_trace S' = im_trace S @ ev \<and> announced S target (kvs @ [(''event'', JString event)]) ev"
  using assms(1)
proof (cases rule: notify_cases)
  case (quiet n)
  from quiet(3) have "connKeysByAccountId target (im_sessions S) = []" by (metis Inl_Inr_False)
  then have "\<not> logged_in (im_sessions S) k target" for k unfolding account_targets(1) [OF assms(2), symmetric] by simp
  with quiet(1) show ?thesis by (simp add: announced_def)
next
  case (sent r' p n)
  let ?kvs = "kvs @ [(''event'', JString event)]" and ?ts = "connKeysByAccountId target (im_sessions S)"
  have set: "set ?ts = {k. logged_in (im_sessions S) k target}" "distinct ?ts" using account_targets [OF assms(2)] by auto
  show ?thesis
  proof (cases "?ts = []")
    case True
    have "S' = S"
      using assms(1) True by (simp add: notifyFriendEvent_def pushToAccount_def)
    with set(1) True show ?thesis by (simp add: announced_def)
  next
    case False
    then have k: "\<exists>k. logged_in (im_sessions S) k target" using set(1) by (metis empty_Collect_eq set_empty)
    have "distinct (map fst (rev ?kvs))" using assms(3) unfolding rev_map [symmetric] distinct_rev .
    then have "map_of (rev ?kvs) x = Some v" if "(x, v) \<in> set ?kvs" for x v using that by (metis map_of_is_SomeI set_rev)
    moreover have "x \<notin> {''msgId'', ''serverTsMs'', ''clientReqId''}" if "(x, v) \<in> set ?kvs" for x v using assms(4) that by fastforce
    ultimately have "field x (resp_data p) = Some v" if "(x, v) \<in> set ?kvs" for x v using sent(5) that by metis
    then have "\<forall>(x, v) \<in> set ?kvs. field x (resp_data p) = Some v" by blast
    with sent(2,4) set k show ?thesis by (auto simp: announced_def)
  qed
qed

text \<open>Answers of the friend handlers that report success.\<close>

lemma failed_answers [simp]:
  "\<not> resp_ok (makeErr req c msg j)" "\<not> resp_ok (makeRepoError req st text)" "getStringField req f b = Inl r \<Longrightarrow> \<not> resp_ok r"
  by (auto simp: makeErr_def makeRepoError_def getStringField_def split: option.splits json.splits if_splits)

lemma ok_answer [simp]: "resp_data (makeOk req ty j msg) = j" "resp_ok (makeOk req ty j msg)"
  by (simp_all add: makeOk_def)

lemma sent_identifier:
  assumes "run_state (sendRequest a b nowMs) P = (v, P')" "fst v = RepoStatus.Ok"
  shows "\<exists>i. v = (RepoStatus.Ok, Some i) \<and> (i, request_of a b nowMs) \<in> set (friend_requests (tables (friends P')))"
proof -
  have "mays P (sendRequest a b nowMs) v P'" using assms(1) by (simp add: mays_def)
  from sendRequest_effect [OF this] assms(2) show ?thesis by (auto simp: add_request_def dest!: createPendingRequest_effect)
qed

definition sent_request :: "user_env \<Rightarrow> request \<Rightarrow> session \<Rightarrow> server \<Rightarrow> response \<Rightarrow> server \<Rightarrow> bool" where
  "sent_request env req s X r X' \<longleftrightarrow> (\<exists>P S b i target nowMs. s_state s = Authed \<and> getStringField req ''targetAccountId'' False = Inr target \<and>
     (i, request_of (s_accountId s) target nowMs) \<in> set (friend_requests (tables (friends P))) \<and>
     notifyFriendEvent env target ''friendRequestReceived'' [(''requestId'', jnum i), (''requesterAccountId'', JString (s_accountId s)),
       (''username'', JString (s_username s))] (core (consulted X)) = (Inr b, S) \<and>
     X' = with_core S (with_people P (consulted X)) \<and> field ''requestId'' (resp_data r) = Some (jnum i))"

lemma send_request_run: "wp (handleSendFriendRequest env req key s) (\<lambda>x X'. \<forall>r. x = Inr r \<longrightarrow> resp_ok r \<longrightarrow> sent_request env req s X r X') X"
proof -
  have q: "sent_request env req s X (makeOk req ty (json_object [(''requestId'', jnum (the w))]) msg) (with_core S (with_people P (consulted X)))"
    if "s_state s = Authed" "getStringField req ''targetAccountId'' False = Inr target"
      "run_state (sendRequest (s_accountId s) target nowMs) (people X) = ((RepoStatus.Ok, w), P)"
      "notifyFriendEvent env target ''friendRequestReceived'' [(''requestId'', jnum (the w)), (''requesterAccountId'', JString (s_accountId s)),
         (''username'', JString (s_username s))] (core (consulted X)) = (Inr b, S)" for target nowMs w P b S ty msg
    unfolding sent_request_def
    by (rule exI [of _ P], rule exI [of _ S], rule exI [of _ b], rule exI [of _ "the w"], rule exI [of _ target], rule exI [of _ nowMs])
      (use that sent_identifier [OF that(3)] in \<open>auto simp: field_json_object\<close>)
  show ?thesis by (auto simp: handleSendFriendRequest_def split: sum.split intro: q)
qed

text \<open>The sessions after a login by password: unchanged, or the connection bound to the user whose password was given.\<close>

lemma session_frames [simp]:
  "im_sessions (core (consulted X)) = im_sessions (core X)" "im_sessions (core (bind_conn key u X)) = bindUser key (of_nat (ua_userId u)) (ua_accountId u) (ua_username u) (im_sessions (core X))"
  by (simp_all add: consulted_def consult_def bind_conn_def on_sessions_def)

definition password_login :: "user_env \<Rightarrow> request \<Rightarrow> connKey \<Rightarrow> server \<Rightarrow> session_manager \<Rightarrow> bool" where
  "password_login env req key X m \<longleftrightarrow> (\<exists>u pw. u \<in> set (users (tables (accounts (people X)))) \<and> ua_status u = 0 \<and>
     getStringField req ''accountId'' False = Inr (ua_accountId u) \<and> getStringField req ''password'' False = Inr pw \<and>
     verifyPassword (sha256 env) pw (ua_passwordHash u) (ua_passwordSalt u) \<and>
     m = bindUser key (of_nat (ua_userId u)) (ua_accountId u) (ua_username u) (im_sessions (core X)))"

lemma login_password:
  assumes "run_state (in_accounts (login (sha256 env) rnd issueMs nowMs a pw)) (people X) = (Some r, P)" "ar_ok r"
    "getStringField req ''accountId'' False = Inr a" "getStringField req ''password'' False = Inr pw"
  shows "password_login env req key X (bindUser key (of_nat (ua_userId (the (ar_user r)))) (ua_accountId (the (ar_user r))) (ua_username (the (ar_user r))) (im_sessions (core X)))"
proof -
  from assms(1) obtain D where D: "run_state (login (sha256 env) rnd issueMs nowMs a pw) (accounts (people X)) = (Some r, D)" unfolding in_accounts_run by blast
  from mayI [OF D] show ?thesis
  proof (cases rule: login_cases)
    case (ok u tk)
    with assms(3,4) show ?thesis unfolding password_login_def by (intro exI [of _ u] exI [of _ pw]) simp
  qed (use assms(2) in simp)
qed

lemma wp_limit_sessions:
  assumes "im_sessions (core X) = m" "\<And>X. im_sessions (core X) = m \<Longrightarrow> wp k (\<lambda>x X. im_sessions (core X) = m) X"
  shows "wp (with_limit env req verdict call k) (\<lambda>x X. im_sessions (core X) = m) X"
proof -
  have c: "wp (\<lambda>X. h (call_limiter c X)) Q Y = wp h Q (call_limiter c Y)" for h :: "response srv" and c Q Y by (simp add: wp_def)
  show ?thesis using assms by (auto simp: with_limit_def c split: option.split)
qed

lemma wp_mono: "wp h Q X \<Longrightarrow> (\<And>x X. Q x X \<Longrightarrow> R x X) \<Longrightarrow> wp h R X"
  by (simp add: wp_def)

lemma login_run: "wp (handleLogin env req key s) (\<lambda>x X'. im_sessions (core X') = im_sessions (core X) \<or> password_login env req key X (im_sessions (core X'))) X"
  by (auto simp: handleLogin_def Let_def split: sum.split option.split intro!: login_password intro: wp_limit_sessions [THEN wp_mono])

subsection \<open>Properties\<close>


text \<open>
  C34. A connection is bound by a login only to an enabled, registered user whose password was given with the
  account; otherwise the sessions stay as they are.
\<close>

theorem login_needs_password:
  assumes "handleLogin env req key s X = (x, X')"
  shows "im_sessions (core X') = im_sessions (core X) \<or>
    (\<exists>u pw. u \<in> set (users (tables (accounts (people X)))) \<and> ua_status u = 0 \<and>
      getStringField req ''accountId'' False = Inr (ua_accountId u) \<and> getStringField req ''password'' False = Inr pw \<and>
      verifyPassword (sha256 env) pw (ua_passwordHash u) (ua_passwordSalt u) \<and>
      im_sessions (core X') = bindUser key (of_nat (ua_userId u)) (ua_accountId u) (ua_username u) (im_sessions (core X)))"
  using wpD [OF login_run assms] unfolding password_login_def .

text \<open>
  C32. In every run without the debug login, a connection that is logged in carries the number, account and
  name of a registered user.
\<close>

theorem sessions_belong_to_users:
  assumes "server_steps env (server_new os as fs) X" "increasing (ge_im env)" "\<not> allowDebugAuth (ge_user env)"
    and "map_of (sessions (im_sessions (core X))) key = Some s" "s_state s = Authed"
  shows "\<exists>u \<in> set (users (tables (accounts (people X)))).
    s_userId s = of_nat (ua_userId u) \<and> s_accountId s = ua_accountId u \<and> s_username s = ua_username u"
proof -
  have "sessions_owned (people X) (im_sessions (core X))" using server_run [OF assms(1-3)] by (simp add: server_inv_def)
  moreover have "login_of (im_sessions (core X)) key = Some (s_userId s, s_accountId s, s_username s)" using assms(4,5) by (simp add: login_of_def)
  ultimately show ?thesis unfolding sessions_owned_def user_in_def owner_in_def by metis
qed


text \<open>
  C31. Direct messages are saved only between friends: a message that a step of the server adds is between two
  different registered accounts that are friends at that moment, in both directions.
\<close>

theorem direct_messages_between_friends:
  assumes "server_steps env (server_new os as fs) X" "increasing (ge_im env)" "\<not> allowDebugAuth (ge_user env)"
    and "server_step env X X'" "(i, m) \<in> set (direct_log (core X'))" "(i, m) \<notin> set (direct_log (core X))"
  shows "dm_sender_account_id m \<noteq> dm_receiver_account_id m \<and>
    registered_account (people X) (dm_sender_account_id m) \<and> registered_account (people X) (dm_receiver_account_id m) \<and>
    active (tables (friends (people X))) (dm_sender_account_id m) (dm_receiver_account_id m) \<and>
    active (tables (friends (people X))) (dm_receiver_account_id m) (dm_sender_account_id m)"
proof -
  note run = server_run [OF assms(1-3)]
  have flow: "flow_ok (ge_im env) (core X)" using flow_reachable run assms(2) by blast
  have inv: "social_inv (people X)" "accounts_of (tables (im_directs (core X))) = account_view (people X)"
    "sessions_named (im_sessions (core X))" "sessions_owned (people X) (im_sessions (core X))" using run by (simp_all add: server_inv_def)
  have groups: "group_system_ok (im_groups (core X))"
    using chat_steps_ok chats_reachable [of "ge_im env" "ge_deps env" os "core X"] run assms(2) by blast
  have feed: "direct_log (core (feed Y)) = direct_log (core Y)" for Y by (simp add: feed_def feed_core_def)
  have log: "direct_log (core Y) = direct_log (core X)" if run: "onUserMessage (ge_user env) dispatch c key req X = (u, Y)"
    and h: "\<And>s h Z. dispatch req key s = Some h \<Longrightarrow> map_of (sessions (im_sessions (core Z))) key = Some s \<Longrightarrow> social_inv (people Z) \<Longrightarrow>
      sessions_named (im_sessions (core Z)) \<Longrightarrow> sessions_owned (people Z) (im_sessions (core Z)) \<Longrightarrow> im_groups (core Z) = im_groups (core X) \<Longrightarrow>
      handled (ge_user env) (ge_deps env) Z (snd (h Z)) \<and> wp h (\<lambda>x X. plain x) Z" for Y dispatch c key req u
    using run inv(1,3,4) by (rule onUserMessage_effect [where deps="ge_deps env"]) (use h in \<open>blast, simp_all\<close>)
  from assms(4) show ?thesis
  proof cases
    case (user c key cl req u Y)
    have "direct_log (core Y) = direct_log (core X)" by (rule log [OF user(3)]) (use user_request_handled assms(3) in blast)
    with user(1) feed [of Y] assms(5,6) show ?thesis by simp
  next
    case (group c key cl req u Y)
    have "direct_log (core Y) = direct_log (core X)" by (rule log [OF group(4)]) (use group_request_handled group(3) groups in metis)
    with group(1) feed [of Y] assms(5,6) show ?thesis by simp
  next
    case (messages S)
    then have "(i, m) \<in> set (direct_log S)" using assms(5) by simp
    from im_step_new_direct [OF messages(2) flow assms(2) this assms(6)] obtain cmd where
      c: "m = direct_row cmd" "((dc_senderAccountId cmd, dc_receiverAccountId cmd), 1) \<in> set (friend_relations (tables (im_directs (core X))))" by auto
    then have "active (tables (friends (people X))) (dm_sender_account_id m) (dm_receiver_account_id m)"
      using inv(2) active_view by (simp add: accounts_of_def account_view_def direct_row_def)
    moreover have f: "friends_inv (account_names (tables (accounts (people X)))) (tables (friends (people X)))" using inv(1) by (simp add: social_inv_def)
    ultimately show ?thesis
      using friends_invD(1) [OF f] friends_invD(2) [OF f] unfolding registered_account_def account_names_def active_def by metis
  next
    case (upkeep P)
    with feed [of "with_people P X"] assms(5,6) show ?thesis by simp
  qed
qed

text \<open>
  C35. A friend request that is confirmed to the sender is stored as pending, and one notification that names it
  and the sender goes to exactly the connections logged in to the account it is addressed to, each once;
  if there is none, nothing is sent.
\<close>

theorem friend_request_announced:
  assumes "handleSendFriendRequest env req key s X = (Inr r, X')" "resp_ok r" "sessions_inv (im_sessions (core X))"
  shows "\<exists>target i nowMs ev. getStringField req ''targetAccountId'' False = Inr target \<and> field ''requestId'' (resp_data r) = Some (jnum i) \<and>
    (i, request_of (s_accountId s) target nowMs) \<in> set (friend_requests (tables (friends (people X')))) \<and>
    im_trace (core X') = im_trace (core X) @ ev \<and>
    (if \<exists>k. logged_in (im_sessions (core X)) k target
     then \<exists>ts p. ev = [Pushed ts p] \<and> distinct ts \<and> set ts = {k. logged_in (im_sessions (core X)) k target} \<and> resp_type p = FRIEND_EVENT_PUSH \<and>
       field ''requestId'' (resp_data p) = Some (jnum i) \<and> field ''requesterAccountId'' (resp_data p) = Some (JString (s_accountId s)) \<and>
       field ''event'' (resp_data p) = Some (JString ''friendRequestReceived'')
     else ev = [])"
proof -
  have "sent_request env req s X r X'" using wpD [OF send_request_run assms(1)] assms(2) by blast
  then obtain P S b i target nowMs where q: "getStringField req ''targetAccountId'' False = Inr target"
    "(i, request_of (s_accountId s) target nowMs) \<in> set (friend_requests (tables (friends P)))"
    "notifyFriendEvent env target ''friendRequestReceived'' [(''requestId'', jnum i), (''requesterAccountId'', JString (s_accountId s)),
       (''username'', JString (s_username s))] (core (consulted X)) = (Inr b, S)"
    "X' = with_core S (with_people P (consulted X))" "field ''requestId'' (resp_data r) = Some (jnum i)"
    unfolding sent_request_def by blast
  obtain ev where ev: "im_trace S = im_trace (core X) @ ev" "announced (core X) target ([(''requestId'', jnum i), (''requesterAccountId'', JString (s_accountId s)),
       (''username'', JString (s_username s))] @ [(''event'', JString ''friendRequestReceived'')]) ev"
  proof -
    have same: "announced (core (consulted X)) = announced (core X)" "im_trace (core (consulted X)) = im_trace (core X)"
      by (intro ext) (simp_all add: announced_def consulted_def consult_def)
    show ?thesis using notify_announced [OF q(3)] assms(3) that unfolding same by auto
  qed
  show ?thesis
    by (rule exI [of _ target], rule exI [of _ i], rule exI [of _ nowMs], rule exI [of _ ev]) (use q ev in \<open>auto simp: announced_def split: if_splits\<close>)
qed

subsection \<open>A run\<close>

text \<open>Amy and Bob are friends; both log in, and Amy writes to Bob.\<close>

definition demo_verdict :: RateLimitResult where
  "demo_verdict = \<lparr>rl_allowed = True, rl_backendAvailable = True, rl_remaining = 0, rl_retryAfterMs = 0\<rparr>"

definition demo_server_env :: user_env where
  "demo_server_env = \<lparr>ue_im = demo_env\<lparr>idAt := \<lambda>n. if n < 100 then Inr (of_nat n) else Inl MovedBackwards\<rparr>, allowDebugAuth = False,
     hasAuthService = True, hasFriendService = True, hasProfileRepo = True, sha256 = demo_sha, saltAt = (\<lambda>n. Some ''s''),
     accountBytesAt = (\<lambda>n i. Some ''0''), tokenBytesAt = (\<lambda>n. Some (if n < 5 then ''t'' else ''A'')), registerLimitAt = (\<lambda>n. demo_verdict),
     loginFailLimitAt = (\<lambda>n. demo_verdict), whatRandom = []\<rparr>"

definition demo_group_env :: group_env where
  "demo_group_env = \<lparr>ge_user = demo_server_env, ge_deps = demo_deps, hasGroupService = True, hasGroupJoinService = True, hasRepositories = True,
     maxGroupNameLen = 20, groupIdAt = (\<lambda>n. ''7'')\<rparr>"

lemma demo_group_env_simps [simp]: "ge_user demo_group_env = demo_server_env" "ge_deps demo_group_env = demo_deps"
  by (simp_all add: demo_group_env_def)

definition demo_ask :: "MsgType \<Rightarrow> (string \<times> json) list \<Rightarrow> request" where
  "demo_ask ty kvs = \<lparr>req_ver = 1, req_type = ty, req_id = 1, req_seq = 0, req_from = [], req_to = [], req_body = json_object kvs\<rparr>"

definition demo_connected :: "social \<Rightarrow> server" where
  "demo_connected P = (let X = feed (with_people P (server_new [] [] [])) in
     with_core ((core X)\<lparr>im_conns := [(0, (1, False)), (1, (2, False))]\<rparr>) X)"

definition demo_login :: "nat \<Rightarrow> connKey \<Rightarrow> accountId \<Rightarrow> server \<Rightarrow> server" where
  "demo_login c key a X = feed (snd (onUserMessage demo_server_env (user_dispatch demo_server_env) c key
     (demo_ask LOGIN_REQ [(''accountId'', JString a), (''password'', JString ''Secret123'')]) X))"

definition demo_online_friends :: server where
  "demo_online_friends = demo_login 1 2 demo_bob (demo_login 0 1 demo_amy (demo_connected demo_friends))"

lemma demo_server_increasing: "increasing (ge_im demo_group_env)"
proof -
  have "(of_nat m :: u64) < of_nat n" if "m < n" "n < 100" for m n
    using that by (simp add: word_less_nat_alt unat_of_nat)
  then show ?thesis by (auto simp: increasing_def demo_server_env_def split: if_splits)
qed

lemma feed_again: "feed (with_people P (feed X)) = feed (with_people P X)"
  by (simp add: feed_def with_people_def with_core_def feed_core_def)

lemma upkeep_steps:
  assumes "social_steps (sha256 (ge_user env)) (people X) P" "feed X = X"
  shows "server_steps env X (feed (with_people P X))"
  using assms(1)
proof (induction rule: rtranclp_induct)
  case base
  have "with_people (people X) X = X" by (simp add: with_people_def)
  then show ?case using assms(2) by simp
next
  case (step P P')
  have "server_step env (feed (with_people P X)) (feed (with_people P' (feed (with_people P X))))"
    by (rule server_step.upkeep) (use step(2) in simp)
  moreover have "feed (with_people P' (feed (with_people P X))) = feed (with_people P' X)"
    unfolding feed_again by (simp add: with_people_def)
  ultimately show ?case using step(3) by simp
qed

lemma demo_connected_reached:
  assumes "social_steps demo_sha (social_new [] []) P"
  shows "server_steps demo_group_env (server_new [] [] []) (demo_connected P)"
proof -
  let ?X0 = "server_new [] [] []" let ?Y = "feed (with_people P ?X0)"
  have "feed ?X0 = ?X0"
    by (simp add: server_new_def feed_def with_core_def feed_core_def im_new_def account_view_def relation_view_def social_new_def
        direct_tables_new_def account_tables_new_def friend_tables_new_def)
  then have "server_steps demo_group_env ?X0 ?Y"
    using upkeep_steps [of demo_group_env ?X0 P] assms by (simp add: server_new_def demo_server_env_def)
  moreover have "server_step demo_group_env ?Y (demo_connected P)"
    unfolding demo_connected_def Let_def
    by (rule server_step.messages [OF im_step.connections]) (simp_all add: no_login_def)
  ultimately show ?thesis by (rule rtranclp.rtrancl_into_rtrancl)
qed

lemma demo_login_step:
  assumes "map_of (im_conns (core X)) c = Some (key, cl)"
  shows "server_step demo_group_env X (demo_login c key a X)"
  using server_step.user [OF assms, of demo_group_env] unfolding demo_login_def by (metis demo_group_env_simps(1) surjective_pairing)

lemma demo_logins:
  "im_conns (core (demo_connected demo_friends)) = [(0, (1, False)), (1, (2, False))]"
  "im_conns (core (demo_login 0 1 demo_amy (demo_connected demo_friends))) = [(0, (1, False)), (1, (2, False))]"
  by code_simp+

lemma demo_friends_online: "server_steps demo_group_env (server_new [] [] []) demo_online_friends"
proof -
  note c = demo_connected_reached [OF demo_friends_reached]
  have "server_step demo_group_env (demo_connected demo_friends) (demo_login 0 1 demo_amy (demo_connected demo_friends))"
    by (rule demo_login_step [where cl=False]) (simp add: demo_logins(1))
  moreover have "server_step demo_group_env (demo_login 0 1 demo_amy (demo_connected demo_friends)) demo_online_friends"
    unfolding demo_online_friends_def by (rule demo_login_step [where cl=False]) (simp add: demo_logins(2))
  ultimately show ?thesis using c by (meson rtranclp.rtrancl_into_rtrancl)
qed

lemma demo_no_debug: "\<not> allowDebugAuth (ge_user demo_group_env)"
  by (simp add: demo_server_env_def)

definition demo_letter :: "string \<Rightarrow> json option" where
  "demo_letter s = Some (JObject [(''content'', JString ''hello''), (''req_id'', JUInt 5), (''to'', JString demo_bob),
     (''type'', JUInt (ucast (msgTypeToInt DM_REQ))), (''ver'', JUInt 1)])"

definition demo_written :: server where
  "demo_written = with_core (snd (onMessage (ue_im demo_server_env) demo_letter (message_dispatch (ue_im demo_server_env)) 0 1 ''x'' (core demo_online_friends))) demo_online_friends"

definition demo_stored :: server where
  "demo_stored = with_core (run_message_task (ue_im demo_server_env) (snd (hd (messageTasks (core demo_written))))
     ((core demo_written)\<lparr>messageTasks := []\<rparr>)) demo_written"

lemma demo_letter_values:
  "let X = core demo_online_friends;
     Y = snd (onMessage (ue_im demo_server_env) demo_letter (message_dispatch (ue_im demo_server_env)) 0 1 ''x'' X);
     Z = run_message_task (ue_im demo_server_env) (snd (hd (messageTasks Y))) (Y\<lparr>messageTasks := []\<rparr>)
   in im_sessions Y = im_sessions X \<and> im_sessions Z = im_sessions Y \<and> accounts_of (tables (im_directs Y)) = accounts_of (tables (im_directs X)) \<and>
      accounts_of (tables (im_directs Z)) = accounts_of (tables (im_directs Y)) \<and> map fst (messageTasks Y) = [''dm:imM#imN''] \<and>
      im_conns X = [(0, (1, False)), (1, (2, False))] \<and> direct_log Y = [] \<and>
      map (\<lambda>(i, m). (dm_sender_account_id m, dm_receiver_account_id m)) (direct_log Z) = [(demo_amy, demo_bob)] \<and>
      map_option (\<lambda>s. (s_state s, s_accountId s)) (map_of (sessions (im_sessions X)) 2) = Some (Authed, demo_bob)"
  by code_simp

lemma demo_letter_facts:
  "im_sessions (core demo_written) = im_sessions (core demo_online_friends)" "im_sessions (core demo_stored) = im_sessions (core demo_written)"
  "accounts_of (tables (im_directs (core demo_written))) = accounts_of (tables (im_directs (core demo_online_friends)))"
  "accounts_of (tables (im_directs (core demo_stored))) = accounts_of (tables (im_directs (core demo_written)))"
  "map fst (messageTasks (core demo_written)) = [''dm:imM#imN'']" "im_conns (core demo_online_friends) = [(0, (1, False)), (1, (2, False))]"
  "direct_log (core demo_written) = []"
  "map (\<lambda>(i, m). (dm_sender_account_id m, dm_receiver_account_id m)) (direct_log (core demo_stored)) = [(demo_amy, demo_bob)]"
  "map_option (\<lambda>s. (s_state s, s_accountId s)) (map_of (sessions (im_sessions (core demo_online_friends))) 2) = Some (Authed, demo_bob)"
  using demo_letter_values unfolding demo_stored_def demo_written_def frames Let_def by blast+

lemma demo_letter_parsed: "case tryParse demo_letter ''x'' of Parsed req \<Rightarrow> req_type req = DM_REQ | _ \<Rightarrow> False"
  by code_simp

lemma demo_written_reached: "server_steps demo_group_env (server_new [] [] []) demo_written"
proof -
  let ?m = "onMessage (ue_im demo_server_env) demo_letter (message_dispatch (ue_im demo_server_env)) 0 1 ''x'' (core demo_online_friends)"
  have "im_step (ue_im demo_server_env) demo_deps (core demo_online_friends) (core demo_written)"
  proof (rule im_step.request)
    show "map_of (im_conns (core demo_online_friends)) 0 = Some (1, False)" by (simp add: demo_letter_facts(6))
    show "\<forall>req. tryParse demo_letter ''x'' = Parsed req \<longrightarrow> req_type req = DM_REQ \<or> req_type req = GROUP_MSG_REQ"
      using demo_letter_parsed by (auto split: parse_outcome.splits)
    show "?m = (fst ?m, core demo_written)" by (simp add: demo_written_def)
  qed
  then have "server_step demo_group_env demo_online_friends (with_core (core demo_written) demo_online_friends)"
    by (intro server_step.messages) (simp_all add: demo_letter_facts(1,3) no_login_def)
  moreover have "with_core (core demo_written) demo_online_friends = demo_written" by (simp add: demo_written_def with_core_def)
  ultimately show ?thesis using demo_friends_online by (simp add: rtranclp.rtrancl_into_rtrancl)
qed

lemma demo_stored_step: "server_step demo_group_env demo_written demo_stored"
proof -
  obtain k t where q: "messageTasks (core demo_written) = [(k, t)]" using demo_letter_facts(5) by (cases "messageTasks (core demo_written)") auto
  have "im_step (ue_im demo_server_env) demo_deps (core demo_written) (core demo_stored)"
    using im_step.message [of "core demo_written" "[]" k t "[]"] by (simp add: q demo_stored_def)
  then have "server_step demo_group_env demo_written (with_core (core demo_stored) demo_written)"
    by (intro server_step.messages) (simp_all add: demo_letter_facts(2,4) no_login_def)
  moreover have "with_core (core demo_stored) demo_written = demo_stored" by (simp add: demo_stored_def with_core_def)
  ultimately show ?thesis by simp
qed


theorem login_needs_password_witness:
  "\<exists>u \<in> set (users (tables (accounts demo_friends))). verifyPassword demo_sha ''Secret123'' (ua_passwordHash u) (ua_passwordSalt u) \<and> ua_accountId u = demo_amy"
proof -
  let ?req = "demo_ask LOGIN_REQ [(''accountId'', JString demo_amy), (''password'', JString ''Secret123'')]"
  let ?X = "demo_connected demo_friends" and ?s = Session_new
  obtain x X' where h: "handleLogin demo_server_env ?req 1 ?s ?X = (x, X')" by (cases "handleLogin demo_server_env ?req 1 ?s ?X")
  have "im_sessions (core (snd (handleLogin demo_server_env ?req 1 ?s ?X))) \<noteq> im_sessions (core ?X)"
    "getStringField ?req ''password'' False = Inr ''Secret123''" "getStringField ?req ''accountId'' False = Inr demo_amy" by code_simp+
  moreover have "sha256 demo_server_env = demo_sha" "people ?X = demo_friends" by (simp_all add: demo_server_env_def demo_connected_def Let_def)
  ultimately show ?thesis using login_needs_password [OF h] h by auto
qed

theorem sessions_belong_to_users_witness:
  "\<exists>u \<in> set (users (tables (accounts (people demo_online_friends)))). ua_accountId u = demo_bob"
proof -
  from demo_letter_facts(9) obtain s where s: "map_of (sessions (im_sessions (core demo_online_friends))) 2 = Some s" "s_state s = Authed" "s_accountId s = demo_bob" by auto
  from sessions_belong_to_users [OF demo_friends_online demo_server_increasing demo_no_debug s(1,2)] s(3) show ?thesis by metis
qed


theorem direct_messages_between_friends_witness: "active (tables (friends (people demo_written))) demo_bob demo_amy"
proof -
  obtain i m where q: "direct_log (core demo_stored) = [(i, m)]" "dm_sender_account_id m = demo_amy" "dm_receiver_account_id m = demo_bob"
    using demo_letter_facts(8) by (cases "direct_log (core demo_stored)") auto
  from direct_messages_between_friends [OF demo_written_reached demo_server_increasing demo_no_debug demo_stored_step, of i m] q demo_letter_facts(7)
  show ?thesis by simp
qed

theorem friend_request_announced_witness:
  "let X = demo_login 1 2 demo_bob (demo_connected demo_both); s = Session_new\<lparr>s_state := Authed, s_accountId := demo_amy\<rparr>;
     req = demo_ask SEND_FRIEND_REQUEST_REQ [(''targetAccountId'', JString demo_bob)]
   in \<exists>p. im_trace (core (snd (handleSendFriendRequest demo_server_env req 1 s X))) = im_trace (core X) @ [Pushed [2] p]"
proof -
  let ?X = "demo_login 1 2 demo_bob (demo_connected demo_both)" and ?s = "Session_new\<lparr>s_state := Authed, s_accountId := demo_amy\<rparr>"
  let ?req = "demo_ask SEND_FRIEND_REQUEST_REQ [(''targetAccountId'', JString demo_bob)]"
  let ?h = "handleSendFriendRequest demo_server_env ?req 1 ?s ?X"
  have f: "case fst ?h of Inl e \<Rightarrow> False | Inr r \<Rightarrow> resp_ok r" "im_conns (core (demo_connected demo_both)) = [(0, (1, False)), (1, (2, False))]"
    "connKeysByAccountId demo_bob (im_sessions (core ?X)) = [2]" "getStringField ?req ''targetAccountId'' False = Inr demo_bob" by code_simp+
  obtain r X' where h: "?h = (Inr r, X')" "resp_ok r" using f(1) by (cases ?h) (auto split: sum.splits)
  have "server_step demo_group_env (demo_connected demo_both) ?X" by (rule demo_login_step [where cl=False]) (simp add: f(2))
  with demo_connected_reached [OF demo_both_reached] have "server_steps demo_group_env (server_new [] [] []) ?X" by (rule rtranclp.rtrancl_into_rtrancl)
  from server_run [OF this demo_server_increasing demo_no_debug] have inv: "sessions_inv (im_sessions (core ?X))" by (simp add: server_inv_def sessions_named_def)
  have k: "logged_in (im_sessions (core ?X)) x demo_bob \<longleftrightarrow> x = 2" for x using account_targets(1) [OF inv, of x demo_bob] f(3) by auto
  from friend_request_announced [OF h inv] f(4) k obtain ts p where
    "im_trace (core X') = im_trace (core ?X) @ [Pushed ts p]" "distinct ts" "set ts = {2}" by auto
  moreover from this have "ts = [2]" by (cases ts; cases "tl ts") auto
  ultimately show ?thesis using h(1) by (auto simp: Let_def)
qed

end
