(* ===== verification/History.thy ===== *)
theory History
  imports MessageFlow
begin

text \<open>
  Reading messages back: the queries and the acknowledgement of \<open>src/src/storage/sql/SqlMessageRepo.cpp\<close>, the list
  and the acknowledgement of \<open>src/src/storage/sql/SqlOfflineMessageRepo.cpp\<close>, and the services over them,
  \<open>src/src/im/MessageSyncService.cpp\<close> and \<open>src/src/im/MessageAckService.cpp\<close>. The tables are those of \<open>GroupMessages\<close> and
  \<open>DirectMessages\<close>. The theorems say that a client that follows the cursors of the synchronisation misses no
  message and gets none twice, also while messages are saved in between, that pages of the history fit
  together, and what an acknowledgement writes.

  No caller of \<open>saveOfflineMessage\<close> is left in the program, so that the rows of \<open>offline_messages\<close> are those of direct
  messages.
\<close>

subsection \<open>Records\<close>

record MessageRecord =
  mr_messageId :: nat
  mr_groupId :: groupId
  mr_senderAccountId :: accountId
  mr_senderUsername :: string
  mr_content :: string
  mr_serverTsMs :: nat

record DirectMessageRecord =
  dr_messageId :: nat
  dr_conversationKey :: string
  dr_senderAccountId :: accountId
  dr_receiverAccountId :: accountId
  dr_senderUsername :: string
  dr_content :: string
  dr_serverTsMs :: nat

datatype OfflineMessageType = UnknownOffline | GroupOffline | DirectOffline

record OfflineMessageIndex =
  oi_msgId :: nat
  oi_type :: OfflineMessageType
  oi_groupId :: groupId
  oi_peerAccountId :: accountId

record MessageAckResult =
  ma_requestedCount :: nat
  ma_ackedCount :: nat
  ma_ignoredCount :: nat

record ConversationDelta =
  dl_type :: ConversationType
  dl_targetId :: string
  dl_fromMsgId :: nat
  dl_latestMsgId :: nat
  dl_hasMore :: bool
  dl_messages :: "json list"

record SyncResult =
  sy_deltas :: "ConversationDelta list"
  sy_offlineIndexes :: "OfflineMessageIndex list"

fun offlineMessageTypeToString :: "OfflineMessageType \<Rightarrow> string" where
  "offlineMessageTypeToString GroupOffline = ''group''"
| "offlineMessageTypeToString DirectOffline = ''direct''"
| "offlineMessageTypeToString UnknownOffline = ''unknown''"

fun conversationTypeToString :: "ConversationType \<Rightarrow> string" where
  "conversationTypeToString GroupConv = ''group''"
| "conversationTypeToString Direct = ''direct''"
| "conversationTypeToString UnknownConv = ''unknown''"

text \<open>A row as the repositories hand it on; text columns go through \<open>getString\<close>.\<close>

definition group_record :: "nat \<times> message_row \<Rightarrow> MessageRecord" where
  "group_record x = \<lparr>mr_messageId = fst x, mr_groupId = getString (msg_group_id (snd x)), mr_senderAccountId = getString (msg_sender_account_id (snd x)),
     mr_senderUsername = getString (msg_sender_username (snd x)), mr_content = getString (msg_content (snd x)), mr_serverTsMs = msg_server_ts_ms (snd x)\<rparr>"

definition direct_record :: "nat \<times> direct_message_row \<Rightarrow> DirectMessageRecord" where
  "direct_record x = \<lparr>dr_messageId = fst x, dr_conversationKey = getString (dm_conversation_key (snd x)),
     dr_senderAccountId = getString (dm_sender_account_id (snd x)), dr_receiverAccountId = getString (dm_receiver_account_id (snd x)),
     dr_senderUsername = getString (dm_sender_username (snd x)), dr_content = getString (dm_content (snd x)), dr_serverTsMs = dm_server_ts_ms (snd x)\<rparr>"

subsection \<open>SqlMessageRepo\<close>

text \<open>\<open>ORDER BY msg_id ASC LIMIT n\<close> and \<open>ORDER BY msg_id DESC LIMIT n\<close>.\<close>

definition oldest_first :: "nat \<Rightarrow> (nat \<times> 'm) list \<Rightarrow> (nat \<times> 'm) list" where
  "oldest_first n xs = take n (sort_key fst xs)"

definition newest_first :: "nat \<Rightarrow> (nat \<times> 'm) list \<Rightarrow> (nat \<times> 'm) list" where
  "newest_first n xs = take n (rev (sort_key fst xs))"

text \<open>The rows of one conversation, \<open>WHERE group_id=?\<close> and \<open>WHERE conversation_key=?\<close>.\<close>

definition conversation :: "('m \<Rightarrow> 'k) \<Rightarrow> 'k \<Rightarrow> (nat \<times> 'm) list \<Rightarrow> (nat \<times> 'm) list" where
  "conversation conv k xs = filter (\<lambda>x. conv (snd x) = k) xs"

definition of_group :: "groupId \<Rightarrow> group_tables \<Rightarrow> (nat \<times> message_row) list" where
  "of_group gid t = conversation msg_group_id gid (group_messages t)"

definition of_conversation :: "string \<Rightarrow> direct_tables \<Rightarrow> (nat \<times> direct_message_row) list" where
  "of_conversation ck t = conversation dm_conversation_key ck (direct_messages t)"

definition after :: "nat \<Rightarrow> (nat \<times> 'm) list \<Rightarrow> (nat \<times> 'm) list" where
  "after i xs = filter (\<lambda>x. i < fst x) xs"

definition before :: "nat \<Rightarrow> (nat \<times> 'm) list \<Rightarrow> (nat \<times> 'm) list" where
  "before i xs = (if i = 0 then xs else filter (\<lambda>x. fst x < i) xs)"

text \<open>A query whose rows become records; without a connection the status is the given one.\<close>

definition fetch_rows :: "RepoStatus \<Rightarrow> ('t \<Rightarrow> 'r list) \<Rightarrow> ('r \<Rightarrow> 'a) \<Rightarrow> ('t, 'a list repo_value) db" where
  "fetch_rows offline sel f = do {
     c \<leftarrow> acquire;
     if \<not> c then ret (offline, None)
     else do {
       r \<leftarrow> queryPrepared sel;
       case r of Inl _ \<Rightarrow> ret (SqlError, None) | Inr rows \<Rightarrow> ret (Ok, Some (map f rows))}}"

definition clamp_limit :: "nat \<Rightarrow> nat \<Rightarrow> nat" where
  "clamp_limit cap n = (let n1 = (if n = 0 then 20 else n) in if n1 > cap then cap else n1)"

definition listGroupMessages :: "groupId \<Rightarrow> nat \<Rightarrow> nat \<Rightarrow> MessageRecord list repo_value gdb" where
  "listGroupMessages gid beforeMsgId limit =
     (if gid = [] then ret (Internal, None)
      else fetch_rows Internal (\<lambda>t. newest_first (clamp_limit 100 limit) (before beforeMsgId (of_group gid t))) group_record)"

definition listDirectMessages :: "string \<Rightarrow> nat \<Rightarrow> nat \<Rightarrow> DirectMessageRecord list repo_value ddb" where
  "listDirectMessages ck beforeMsgId limit =
     (if ck = [] then ret (Internal, None)
      else fetch_rows Internal (\<lambda>t. newest_first (if limit > 200 then 200 else limit) (before beforeMsgId (of_conversation ck t))) direct_record)"

definition listDirectMessagesAfter :: "string \<Rightarrow> nat \<Rightarrow> nat \<Rightarrow> DirectMessageRecord list repo_value ddb" where
  "listDirectMessagesAfter ck lastMsgId limit =
     (if ck = [] then ret (Internal, None)
      else fetch_rows Internal (\<lambda>t. oldest_first (clamp_limit 200 limit) (after lastMsgId (of_conversation ck t))) direct_record)"

definition listGroupMessagesAfter :: "groupId \<Rightarrow> nat \<Rightarrow> nat \<Rightarrow> MessageRecord list repo_value gdb" where
  "listGroupMessagesAfter gid lastMsgId limit =
     (if gid = [] then ret (Internal, None)
      else fetch_rows Internal (\<lambda>t. oldest_first (clamp_limit 100 limit) (after lastMsgId (of_group gid t))) group_record)"

definition normalizeIds :: "nat list \<Rightarrow> nat list" where
  "normalizeIds ids = remdups_adj (sort ids)"

definition addressed :: "accountId \<Rightarrow> direct_tables \<Rightarrow> nat \<Rightarrow> bool" where
  "addressed a t i = (case map_of (direct_messages t) i of None \<Rightarrow> False | Some m \<Rightarrow> dm_receiver_account_id m = a)"

definition add_delivered :: "accountId \<Rightarrow> nat \<Rightarrow> nat \<Rightarrow> ((nat \<times> accountId) \<times> receipt_row) list \<Rightarrow> ((nat \<times> accountId) \<times> receipt_row) list" where
  "add_delivered a at i rs =
     (case map_of rs (i, a) of
        None \<Rightarrow> AList.update (i, a) \<lparr>rc_delivered_at_ms = at, rc_read_at_ms = 0\<rparr> rs
      | Some r \<Rightarrow> AList.update (i, a) (r\<lparr>rc_delivered_at_ms := max (rc_delivered_at_ms r) at\<rparr>) rs)"

definition upsert_delivered :: "accountId \<Rightarrow> nat \<Rightarrow> nat list \<Rightarrow> direct_tables \<Rightarrow> int + nat \<times> direct_tables" where
  "upsert_delivered a at ids t =
     (let is = filter (addressed a t) ids in Inr (length is, t\<lparr>message_receipts := fold (add_delivered a at) is (message_receipts t)\<rparr>))"

definition markDeliveredBatch :: "accountId \<Rightarrow> nat list \<Rightarrow> nat \<Rightarrow> MessageAckResult repo_value ddb" where
  "markDeliveredBatch a msgIds deliveredAtMs =
     (if a = [] then ret (InvalidArgument, None)
      else do {
        c \<leftarrow> acquire;
        if \<not> c then ret (Internal, None)
        else let clearIds = normalizeIds msgIds in
        if clearIds = [] then ret (Ok, Some \<lparr>ma_requestedCount = length msgIds, ma_ackedCount = 0, ma_ignoredCount = length msgIds\<rparr>)
        else with_transaction (Internal, None) (do {
          r \<leftarrow> queryPrepared (\<lambda>t. [length (filter (addressed a t) clearIds)]);
          case r of Inl _ \<Rightarrow> ret (Inl (SqlError, None)) | Inr rows \<Rightarrow>
          if rows = [] then ret (Inl (NotFound, None)) else do {
          u \<leftarrow> executePrepared (upsert_delivered a deliveredAtMs clearIds);
          case u of Inl _ \<Rightarrow> ret (Inl (SqlError, None)) | Inr _ \<Rightarrow>
            ret (Inr (Ok, Some \<lparr>ma_requestedCount = length msgIds, ma_ackedCount = hd rows, ma_ignoredCount = length msgIds - hd rows\<rparr>))}})})"

subsection \<open>SqlOfflineMessageRepo\<close>

definition offline_index :: "(accountId \<times> nat) \<times> accountId \<Rightarrow> OfflineMessageIndex" where
  "offline_index x = \<lparr>oi_msgId = snd (fst x), oi_type = DirectOffline, oi_groupId = [], oi_peerAccountId = getString (snd x)\<rparr>"

definition listOfflineMessage :: "accountId \<Rightarrow> nat \<Rightarrow> OfflineMessageIndex list repo_value ddb" where
  "listOfflineMessage a limit =
     (if a = [] then ret (InvalidArgument, None)
      else fetch_rows Internal (\<lambda>t. take limit (filter (\<lambda>x. fst (fst x) = a) (direct_offline t))) offline_index)"

definition delete_offline :: "accountId \<Rightarrow> nat list \<Rightarrow> direct_tables \<Rightarrow> int + nat \<times> direct_tables" where
  "delete_offline a ids t =
     (let gone = (\<lambda>x. fst (fst x) = a \<and> snd (fst x) \<in> set ids)
      in Inr (length (filter gone (direct_offline t)), t\<lparr>direct_offline := filter (\<lambda>x. \<not> gone x) (direct_offline t)\<rparr>))"

definition ackOfflineMessagesBatch :: "accountId \<Rightarrow> nat list \<Rightarrow> nat repo_value ddb" where
  "ackOfflineMessagesBatch a msgIds =
     (if a = [] then ret (InvalidArgument, None)
      else if msgIds = [] then ret (Ok, Some 0)
      else do {
        c \<leftarrow> acquire;
        if \<not> c then ret (SqlError, None)
        else do {
          r \<leftarrow> executePrepared (delete_offline a (normalizeIds msgIds));
          case r of Inl _ \<Rightarrow> ret (SqlError, None) | Inr n \<Rightarrow> ret (Ok, Some n)}})"

subsection \<open>MessageSyncService\<close>

text \<open>The service reads both parts of the database.\<close>

record message_store =
  ms_groups :: "group_tables database"
  ms_directs :: "direct_tables database"

definition from_groups :: "'a gdb \<Rightarrow> (message_store, 'a) state" where
  "from_groups m = State (\<lambda>s. case run_state m (ms_groups s) of (x, d) \<Rightarrow> (x, s\<lparr>ms_groups := d\<rparr>))"

definition from_directs :: "'a ddb \<Rightarrow> (message_store, 'a) state" where
  "from_directs m = State (\<lambda>s. case run_state m (ms_directs s) of (x, d) \<Rightarrow> (x, s\<lparr>ms_directs := d\<rparr>))"

definition group_message_json :: "MessageRecord \<Rightarrow> json" where
  "group_message_json m = json_object [(''msgId'', jnum (mr_messageId m)), (''groupId'', JString (mr_groupId m)), (''senderAccountId'', JString (mr_senderAccountId m)),
     (''senderUsername'', JString (mr_senderUsername m)), (''content'', JString (mr_content m)), (''serverTsMs'', jnum (mr_serverTsMs m))]"

definition direct_message_json :: "DirectMessageRecord \<Rightarrow> json" where
  "direct_message_json m = json_object [(''msgId'', jnum (dr_messageId m)), (''fromAccountId'', JString (dr_senderAccountId m)), (''toAccountId'', JString (dr_receiverAccountId m)),
     (''fromUsername'', JString (dr_senderUsername m)), (''content'', JString (dr_content m)), (''serverTsMs'', jnum (dr_serverTsMs m))]"

definition make_delta :: "ConversationType \<Rightarrow> string \<Rightarrow> nat \<Rightarrow> nat \<Rightarrow> nat list \<Rightarrow> json list \<Rightarrow> ConversationDelta" where
  "make_delta ty target lastMsgId limit ids msgs =
     \<lparr>dl_type = ty, dl_targetId = target, dl_fromMsgId = lastMsgId, dl_latestMsgId = (if ids = [] then lastMsgId else fold max ids 0),
      dl_hasMore = (length ids \<ge> limit), dl_messages = msgs\<rparr>"

definition direct_delta :: "accountId \<Rightarrow> nat \<Rightarrow> nat \<Rightarrow> DirectMessageRecord list \<Rightarrow> ConversationDelta" where
  "direct_delta peer lastMsgId limit ms = make_delta Direct peer lastMsgId limit (map dr_messageId ms) (map direct_message_json ms)"

definition group_delta :: "groupId \<Rightarrow> nat \<Rightarrow> nat \<Rightarrow> MessageRecord list \<Rightarrow> ConversationDelta" where
  "group_delta gid lastMsgId limit ms = make_delta GroupConv gid lastMsgId limit (map mr_messageId ms) (map group_message_json ms)"

text \<open>One cursor of the loop in \<open>sync\<close>; a cursor of unknown type is passed over.\<close>

definition sync_cursor :: "accountId \<Rightarrow> SyncCursor \<Rightarrow> (message_store, RepoStatus + ConversationDelta list) state" where
  "sync_cursor a c =
     (let lastId = unat (cur_lastMsgId c); limit = unat (cur_limit c); target = cur_targetId c in
      case cur_type c of
        Direct \<Rightarrow> do {
          r \<leftarrow> from_directs (listDirectMessagesAfter (buildDirectConversationKey a target) lastId limit);
          case r of (Ok, Some ms) \<Rightarrow> ret (Inr [direct_delta target lastId limit ms]) | (st, _) \<Rightarrow> ret (Inl st)}
      | GroupConv \<Rightarrow> do {
          r \<leftarrow> from_groups (listGroupMessagesAfter target lastId limit);
          case r of (Ok, Some ms) \<Rightarrow> ret (Inr [group_delta target lastId limit ms]) | (st, _) \<Rightarrow> ret (Inl st)}
      | UnknownConv \<Rightarrow> ret (Inr []))"

fun sync_cursors :: "accountId \<Rightarrow> SyncCursor list \<Rightarrow> (message_store, RepoStatus + ConversationDelta list) state" where
  "sync_cursors a [] = ret (Inr [])"
| "sync_cursors a (c # cs) = do {
     d \<leftarrow> sync_cursor a c;
     case d of Inl st \<Rightarrow> ret (Inl st) | Inr ds \<Rightarrow> do {
       rest \<leftarrow> sync_cursors a cs;
       ret (map_sum id (\<lambda>es. ds @ es) rest)}}"

definition sync :: "accountId \<Rightarrow> SyncCursor list \<Rightarrow> nat \<Rightarrow> (message_store, SyncResult repo_value) state" where
  "sync a cursors offlineLimit =
     (if a = [] then ret (InvalidArgument, None)
      else do {
        d \<leftarrow> sync_cursors a cursors;
        case d of Inl st \<Rightarrow> ret (st, None) | Inr ds \<Rightarrow> do {
          r \<leftarrow> from_directs (listOfflineMessage a offlineLimit);
          case r of (Ok, Some is) \<Rightarrow> ret (Ok, Some \<lparr>sy_deltas = ds, sy_offlineIndexes = is\<rparr>) | (st, _) \<Rightarrow> ret (st, None)}})"

text \<open>The two helpers beside it, which \<open>sync\<close> does not use; the empty delta is their answer to every error.\<close>

definition no_delta :: ConversationDelta where
  "no_delta = \<lparr>dl_type = UnknownConv, dl_targetId = [], dl_fromMsgId = 0, dl_latestMsgId = 0, dl_hasMore = False, dl_messages = []\<rparr>"

definition loadDirectDelta :: "accountId \<Rightarrow> accountId \<Rightarrow> nat \<Rightarrow> nat \<Rightarrow> ConversationDelta ddb" where
  "loadDirectDelta self peer lastMsgId limit =
     (let ck = buildDirectConversationKey self peer in
      if ck = [] then ret no_delta
      else do {
        r \<leftarrow> listDirectMessagesAfter ck lastMsgId limit;
        case r of (Ok, Some ms) \<Rightarrow> ret (direct_delta peer lastMsgId limit ms) | _ \<Rightarrow> ret no_delta})"

definition loadGroupDelta :: "groupId \<Rightarrow> nat \<Rightarrow> nat \<Rightarrow> ConversationDelta gdb" where
  "loadGroupDelta gid lastMsgId limit =
     (if gid = [] then ret no_delta
      else do {
        r \<leftarrow> listGroupMessagesAfter gid lastMsgId limit;
        case r of (Ok, Some ms) \<Rightarrow> ret (group_delta gid lastMsgId limit ms) | _ \<Rightarrow> ret no_delta})"

subsection \<open>MessageAckService\<close>

definition ackMessages :: "accountId \<Rightarrow> nat list \<Rightarrow> nat \<Rightarrow> MessageAckResult repo_value ddb" where
  "ackMessages a msgIds ackAtMs =
     (if a = [] then ret (InvalidArgument, None)
      else if msgIds = [] then ret (Ok, Some \<lparr>ma_requestedCount = 0, ma_ackedCount = 0, ma_ignoredCount = 0\<rparr>)
      else do {
        r \<leftarrow> markDeliveredBatch a msgIds ackAtMs;
        case r of (Ok, None) \<Rightarrow> ret (Internal, None) | (Ok, Some v) \<Rightarrow> ret (Ok, Some v) | (st, _) \<Rightarrow> ret (st, None)})"

text \<open>Without identifiers the answer has no value.\<close>

definition ackOfflineMessages :: "accountId \<Rightarrow> nat list \<Rightarrow> nat repo_value ddb" where
  "ackOfflineMessages a ids =
     (if a = [] then ret (InvalidArgument, None)
      else if ids = [] then ret (Ok, None)
      else ackOfflineMessagesBatch a ids)"

definition markConversationRead :: "accountId \<Rightarrow> ConversationType \<Rightarrow> string \<Rightarrow> nat \<Rightarrow> nat \<Rightarrow> (message_store, ConversationReadResult repo_value) state" where
  "markConversationRead a ty target readMsgId readAtMs =
     (if a = [] \<or> target = [] then ret (InvalidArgument, None)
      else if ty = UnknownConv \<or> readMsgId = 0 then ret (InvalidArgument, None)
      else if ty = Direct then from_directs (direct_read_commit a target readMsgId readAtMs)
      else from_groups (group_read_commit a target readMsgId readAtMs))"

subsection \<open>Pages\<close>

text \<open>The messages of a conversation are stored in the order of their identifiers, so that the order of a query is that of the table.\<close>

lemma strict_sort: "sorted_wrt (<) (map fst xs) \<Longrightarrow> sort_key fst xs = xs"
  by (simp add: strict_sorted_iff sort_key_id_if_sorted)

lemma strict_filter: "sorted_wrt (<) (map fst xs) \<Longrightarrow> sorted_wrt (<) (map fst (filter P xs))"
  by (induction xs) auto

lemma strict_page:
  assumes "sorted_wrt (<) (map fst xs)"
  shows "oldest_first n (after i xs) = take n (after i xs)" "newest_first n (before i xs) = take n (rev (before i xs))"
  using assms by (simp_all add: oldest_first_def newest_first_def after_def before_def strict_sort strict_filter)

text \<open>Where a page ends: the cursor of the next one.\<close>

definition page_end :: "nat \<Rightarrow> nat list \<Rightarrow> nat" where
  "page_end i ids = (if ids = [] then i else fold max ids 0)"

lemma page_end_Max: "xs \<noteq> [] \<Longrightarrow> page_end i (map fst xs) = Max (fst ` set xs)"
  using Max.set_eq_fold [of 0 "map fst xs"] Max_insert2 [of "fst ` set xs" 0] by (simp add: page_end_def)

lemma after_page:
  assumes "sorted_wrt (<) (map fst xs)" "after i xs = p @ rest"
  shows "after (page_end i (map fst p)) xs = rest"
proof (cases "p = []")
  case True
  with assms(2) show ?thesis by (simp add: page_end_def)
next
  case False
  let ?m = "Max (fst ` set p)"
  have s: "sorted_wrt (<) (map fst (p @ rest))" using strict_filter [OF assms(1)] assms(2) by (simp add: after_def flip: assms(2))
  have "?m < fst y" if "y \<in> set rest" for y using False s that by (auto simp: sorted_wrt_append)
  moreover have "\<not> ?m < fst x" if "x \<in> set p" for x using that by (simp add: not_less)
  ultimately have rest: "filter (\<lambda>x. ?m < fst x) (after i xs) = rest" by (simp add: assms(2) filter_id_conv filter_empty_conv)
  have "hd p \<in> set (after i xs)" using False by (simp add: assms(2))
  then have "i < fst (hd p)" by (simp add: after_def)
  moreover have "fst (hd p) \<le> ?m" using False by simp
  ultimately have "filter (\<lambda>x. ?m < fst x) (after i xs) = after ?m xs" unfolding after_def filter_filter by (intro filter_cong) auto
  with rest page_end_Max [OF False] show ?thesis by metis
qed

lemma before_page:
  assumes "sorted_wrt (<) (map fst xs)" "\<forall>x \<in> set xs. 0 < fst x" "before i xs = rest @ x # p"
  shows "before (fst x) xs = rest"
proof -
  have s: "sorted_wrt (<) (map fst (rest @ x # p))" using strict_filter [OF assms(1)] assms(1) by (simp add: before_def flip: assms(3))
  then have "fst y < fst x" if "y \<in> set rest" for y using that by (auto simp: sorted_wrt_append)
  moreover have "\<not> fst y < fst x" if "y \<in> set p" for y using s that by (auto simp: sorted_wrt_append)
  ultimately have rest: "filter (\<lambda>y. fst y < fst x) (before i xs) = rest" by (simp add: assms(3) filter_id_conv)
  have "x \<in> set (before i xs)" by (simp add: assms(3))
  then have "fst x \<noteq> 0 \<and> (i \<noteq> 0 \<longrightarrow> fst x < i)" using assms(2) by (auto simp: before_def split: if_splits)
  then have "filter (\<lambda>y. fst y < fst x) (before i xs) = before (fst x) xs" by (auto simp: before_def intro!: filter_cong)
  with rest show ?thesis by simp
qed

subsection \<open>The logs of a run\<close>

text \<open>A step keeps a log or appends a message whose identifier is greater than those of its conversation.\<close>

definition grows :: "('m \<Rightarrow> 'k) \<Rightarrow> (nat \<times> 'm) list \<Rightarrow> (nat \<times> 'm) list \<Rightarrow> bool" where
  "grows conv xs ys \<longleftrightarrow> ys = xs \<or> (\<exists>i m. ys = xs @ [(i, m)] \<and> 0 < i \<and> (\<forall>(j, m') \<in> set xs. conv m' = conv m \<longrightarrow> j < i))"

text \<open>In such a log the identifiers of a conversation increase, and are not 0.\<close>

definition ordered :: "('m \<Rightarrow> 'k) \<Rightarrow> (nat \<times> 'm) list \<Rightarrow> bool" where
  "ordered conv xs \<longleftrightarrow> (\<forall>k. sorted_wrt (<) (map fst (filter (\<lambda>x. conv (snd x) = k) xs))) \<and> (\<forall>x \<in> set xs. 0 < fst x)"

lemma grows_refl [simp, intro]: "grows conv xs xs"
  by (simp add: grows_def)

lemma grows_ordered: "grows conv xs ys \<Longrightarrow> ordered conv xs \<Longrightarrow> ordered conv ys"
  by (auto simp: grows_def ordered_def sorted_wrt_append)

text \<open>What a run adds to a conversation has greater identifiers than what was there.\<close>

definition continues :: "('m \<Rightarrow> 'k) \<Rightarrow> (nat \<times> 'm) list \<Rightarrow> (nat \<times> 'm) list \<Rightarrow> bool" where
  "continues conv xs ys \<longleftrightarrow> (\<exists>zs. ys = xs @ zs \<and> (\<forall>(i, m) \<in> set zs. \<forall>(j, m') \<in> set xs. conv m' = conv m \<longrightarrow> j < i))"

lemma continues_refl [simp]: "continues conv xs xs"
  by (simp add: continues_def)

lemma continues_grows: "continues conv xs ys \<Longrightarrow> grows conv ys zs \<Longrightarrow> continues conv xs zs"
  unfolding continues_def grows_def by fastforce

lemma im_step_logs:
  assumes "im_step env deps S S'" "flow_ok env S"
  shows "grows msg_group_id (group_log S) (group_log S') \<and> grows dm_conversation_key (direct_log S) (direct_log S')"
  using assms(1)
proof cases
  case (request c key cl parse msg u)
  with request_frame [OF _ assms(2)] show ?thesis by simp
next
  case (message xs k task ys)
  note ok = assms(2) [unfolded flow_ok_def order_ok_def]
  have b: "before_task (group_log S) (direct_log S) task" using ok message(2) by auto
  show ?thesis
  proof (cases task)
    case (SaveGroup ctx cmd)
    obtain r G where r: "run_state (in_store (group_persist cmd)) (im_groups S) = (r, G)" by (cases "run_state (in_store (group_persist cmd)) (im_groups S)")
    have S': "im_groups S' = G" "im_directs S' = im_directs S" using message(1) SaveGroup r by simp_all
    have pos: "durable r \<Longrightarrow> 0 < gc_msgId cmd" using r by (auto elim!: in_storeE simp: group_persist_def group_commit_def durable_def split: if_splits)
    from r show ?thesis
      by (cases rule: group_persist_messages) (use b pos in \<open>auto simp: S' SaveGroup grows_def before_task_def stored_message_def\<close>)
  next
    case (SaveDirect ctx cmd)
    obtain st D where r: "run_state (direct_persist cmd) (im_directs S) = (st, D)" by (cases "run_state (direct_persist cmd) (im_directs S)")
    have S': "im_directs S' = D" "im_groups S' = im_groups S" using message(1) SaveDirect r by simp_all
    have pos: "st = RepoStatus.Ok \<Longrightarrow> 0 < dc_msgId cmd" using r by (auto simp: direct_persist_def split: if_splits)
    from assms(2) message(2) [unfolded SaveDirect] r show ?thesis
      by (cases rule: save_direct_tables) (use b pos in \<open>auto simp: S' SaveDirect grows_def before_task_def direct_row_def\<close>)
  qed
next
  case (loop task ts)
  with loop_frame [OF assms(2)] show ?thesis by simp
next
  case (membership G)
  with join_step_messages show ?thesis by simp
next
  case (group_read a gid i at v G)
  with group_read_messages show ?thesis by simp
next
  case (direct_read a b i at v D)
  with direct_read_messages [OF direct_read(2)] show ?thesis by simp
qed (simp_all add: run_redis_task_def Let_def consult_def)


lemma run_logs:
  assumes "(im_step env deps)\<^sup>*\<^sup>* S S'" "flow_ok env S" "increasing env"
  shows "flow_ok env S' \<and> continues msg_group_id (group_log S) (group_log S') \<and> continues dm_conversation_key (direct_log S) (direct_log S')"
  using assms(1)
proof (induction rule: rtranclp_induct)
  case (step S1 S2)
  with im_step_logs [OF step(2)] im_step_flow [OF step(2) _ assms(3)] show ?case by (blast intro: continues_grows)
qed (simp add: assms(2))

lemma run_ordered:
  assumes "(im_step env deps)\<^sup>*\<^sup>* S S'" "flow_ok env S" "increasing env" "ordered msg_group_id (group_log S)" "ordered dm_conversation_key (direct_log S)"
  shows "ordered msg_group_id (group_log S') \<and> ordered dm_conversation_key (direct_log S')"
  using assms(1)
proof (induction rule: rtranclp_induct)
  case (step S1 S2)
  with im_step_logs [OF step(2)] run_logs [OF step(1) assms(2,3)] show ?case by (blast intro: grows_ordered)
qed (simp add: assms(4,5))

lemma ordered_reachable:
  assumes "reachable env deps S" "increasing env"
  shows "ordered msg_group_id (group_log S)" "ordered dm_conversation_key (direct_log S)"
proof -
  from assms(1) obtain os where "(im_step env deps)\<^sup>*\<^sup>* (im_new os) S" by blast
  from run_ordered [OF this flow_new assms(2)]
  show "ordered msg_group_id (group_log S)" "ordered dm_conversation_key (direct_log S)"
    by (simp_all add: im_new_def ordered_def group_system_new_def Tables_new_def direct_tables_new_def)
qed

text \<open>
  One conversation in an earlier and a later state: a page read in the earlier one is the beginning of what
  the later one has behind the same cursor, and what it has before a message of the page has not changed.
\<close>

lemma ordered_conversation: "ordered conv xs \<Longrightarrow> sorted_wrt (<) (map fst (conversation conv k xs))"
  by (simp add: ordered_def conversation_def)

lemma continues_conversation:
  assumes "continues conv xs ys"
  obtains zs where "conversation conv k ys = conversation conv k xs @ zs" "\<forall>z \<in> set zs. \<forall>x \<in> set (conversation conv k xs). fst x < fst z"
  using assms by (fastforce simp: continues_def conversation_def)

lemma later_page:
  assumes "continues conv xs ys" "ordered conv ys" "0 < n" and p: "p = take n (after i (conversation conv k xs))"
  shows "after i (conversation conv k ys) = p @ after (page_end i (map fst p)) (conversation conv k ys)"
proof -
  obtain zs where "conversation conv k ys = conversation conv k xs @ zs" using assms(1) by (rule continues_conversation)
  then have "after i (conversation conv k ys) = p @ drop n (after i (conversation conv k xs)) @ after i zs" by (simp add: p after_def)
  with after_page [OF ordered_conversation [OF assms(2)]] show ?thesis by metis
qed

lemma earlier_page:
  assumes "continues conv xs ys" "ordered conv xs" and p: "p = take n (rev (before i (conversation conv k xs)))" "p \<noteq> []"
  shows "rev (before i (conversation conv k xs)) = p @ rev (before (fst (last p)) (conversation conv k ys))"
proof -
  let ?xs = "conversation conv k xs"
  let ?rest = "rev (drop n (rev (before i ?xs)))"
  have "rev (before i ?xs) = p @ rev ?rest" "p = butlast p @ [last p]" using p(2) by (simp_all add: p(1))
  then have "rev (before i ?xs) = butlast p @ [last p] @ rev ?rest" by (metis append_assoc)
  then have "before i ?xs = ?rest @ last p # rev (butlast p)" by (metis append_Cons append_Nil append_assoc rev_append rev_rev_ident rev_singleton_conv)
  moreover have pos: "\<forall>x \<in> set ?xs. 0 < fst x" using assms(2) by (auto simp: ordered_def conversation_def)
  ultimately have rest: "before (fst (last p)) ?xs = ?rest" using before_page [OF ordered_conversation [OF assms(2)]] by blast
  obtain zs where zs: "conversation conv k ys = ?xs @ zs" "\<forall>z \<in> set zs. \<forall>x \<in> set ?xs. fst x < fst z"
    using assms(1) by (rule continues_conversation)
  have "last p \<in> set (rev (before i ?xs))" using p last_in_set [of p] by (metis in_set_takeD)
  then have l: "last p \<in> set ?xs" by (auto simp: before_def split: if_splits)
  with zs(2) have "filter (\<lambda>z. fst z < fst (last p)) zs = []" by (fastforce simp: filter_empty_conv)
  moreover have "fst (last p) \<noteq> 0" using l pos by blast
  ultimately have "before (fst (last p)) (conversation conv k ys) = ?rest" using rest by (simp add: zs(1) before_def)
  then show ?thesis by (simp add: p(1))
qed


subsection \<open>Synchronisation\<close>

text \<open>What a client that has seen everything up to the message \<open>i\<close> has still to get of a conversation.\<close>

definition unseen :: "accountId \<Rightarrow> ConversationType \<Rightarrow> string \<Rightarrow> nat \<Rightarrow> im_state \<Rightarrow> json list" where
  "unseen a ty target i S = (case ty of
       Direct \<Rightarrow> map (direct_message_json \<circ> direct_record)
         (after i (conversation dm_conversation_key (buildDirectConversationKey a target) (direct_log S)))
     | GroupConv \<Rightarrow> map (group_message_json \<circ> group_record) (after i (conversation msg_group_id target (group_log S)))
     | UnknownConv \<Rightarrow> [])"

definition store_of :: "im_state \<Rightarrow> message_store" where
  "store_of S = \<lparr>ms_groups = store (im_groups S), ms_directs = im_directs S\<rparr>"

lemma run_fetch:
  "run_state (fetch_rows st sel f) d = ((Ok, Some rs), d') \<Longrightarrow> rs = map f (sel (tables d)) \<and> tables d' = tables d"
  "run_state (fetch_rows st sel f) d = ((st', None), d') \<Longrightarrow> tables d' = tables d"
  "run_state (fetch_rows st sel f) d = ((st', v), d') \<Longrightarrow> tables d' = tables d"
  by (auto simp: fetch_rows_def acquire_def queryPrepared_def outcome_def split: list.splits option.splits if_splits prod.splits)

lemma run_from:
  "run_state (from_groups m) s = (x, s') \<longleftrightarrow> (\<exists>d. run_state m (ms_groups s) = (x, d) \<and> s' = s\<lparr>ms_groups := d\<rparr>)"
  "run_state (from_directs k) s = (y, s') \<longleftrightarrow> (\<exists>d. run_state k (ms_directs s) = (y, d) \<and> s' = s\<lparr>ms_directs := d\<rparr>)"
  by (auto simp: from_groups_def from_directs_def split: prod.splits)

text \<open>Reading leaves the tables alone.\<close>

definition same_tables :: "message_store \<Rightarrow> message_store \<Rightarrow> bool" where
  "same_tables s s' \<longleftrightarrow> tables (ms_groups s') = tables (ms_groups s) \<and> tables (ms_directs s') = tables (ms_directs s)"

lemma list_after:
  assumes "run_state (listGroupMessagesAfter gid i n) d = ((st, v), d')"
  shows "tables d' = tables d" "st = Ok \<Longrightarrow> v = Some ms \<Longrightarrow> ms = map group_record (oldest_first (clamp_limit 100 n) (after i (of_group gid (tables d))))"
  using assms run_fetch by (fastforce simp: listGroupMessagesAfter_def split: if_splits)+

lemma list_direct_after:
  assumes "run_state (listDirectMessagesAfter ck i n) d = ((st, v), d')"
  shows "tables d' = tables d" "st = Ok \<Longrightarrow> v = Some ms \<Longrightarrow> ms = map direct_record (oldest_first (clamp_limit 200 n) (after i (of_conversation ck (tables d))))"
  using assms run_fetch by (fastforce simp: listDirectMessagesAfter_def split: if_splits)+


text \<open>The delta of a cursor, read off the tables.\<close>

definition deltas_of :: "accountId \<Rightarrow> SyncCursor \<Rightarrow> message_store \<Rightarrow> ConversationDelta list" where
  "deltas_of a c s =
     (let i = unat (cur_lastMsgId c); n = unat (cur_limit c); target = cur_targetId c in
      case cur_type c of
        Direct \<Rightarrow> [direct_delta target i n (map direct_record
          (oldest_first (clamp_limit 200 n) (after i (of_conversation (buildDirectConversationKey a target) (tables (ms_directs s))))))]
      | GroupConv \<Rightarrow> [group_delta target i n (map group_record (oldest_first (clamp_limit 100 n) (after i (of_group target (tables (ms_groups s))))))]
      | UnknownConv \<Rightarrow> [])"

lemma same_tables_refl [simp]: "same_tables s s"
  by (simp add: same_tables_def)

lemma same_tables_trans: "same_tables s s' \<Longrightarrow> same_tables s' s'' \<Longrightarrow> same_tables s s''"
  by (simp add: same_tables_def)

lemma deltas_of_same: "same_tables s s' \<Longrightarrow> deltas_of a c s' = deltas_of a c s"
  by (cases "cur_type c") (simp_all add: deltas_of_def same_tables_def Let_def)

lemma sync_cursor_result:
  assumes "run_state (sync_cursor a c) s = (r, s')"
  shows "same_tables s s' \<and> (\<forall>ds. r = Inr ds \<longrightarrow> ds = deltas_of a c s)"
proof (cases "cur_type c")
  case Direct
  let ?m = "listDirectMessagesAfter (buildDirectConversationKey a (cur_targetId c)) (unat (cur_lastMsgId c)) (unat (cur_limit c))"
  obtain st v d where q: "run_state ?m (ms_directs s) = ((st, v), d)" by (metis surj_pair)
  then have "run_state (from_directs ?m) s = ((st, v), s\<lparr>ms_directs := d\<rparr>)" by (simp add: run_from)
  with assms Direct list_direct_after [OF q] show ?thesis
    by (cases v; cases st) (auto simp: sync_cursor_def deltas_of_def same_tables_def Let_def)
next
  case GroupConv
  let ?m = "listGroupMessagesAfter (cur_targetId c) (unat (cur_lastMsgId c)) (unat (cur_limit c))"
  obtain st v d where q: "run_state ?m (ms_groups s) = ((st, v), d)" by (metis surj_pair)
  then have "run_state (from_groups ?m) s = ((st, v), s\<lparr>ms_groups := d\<rparr>)" by (simp add: run_from)
  with assms GroupConv list_after [OF q] show ?thesis
    by (cases v; cases st) (auto simp: sync_cursor_def deltas_of_def same_tables_def Let_def)
qed (use assms in \<open>auto simp: sync_cursor_def deltas_of_def Let_def\<close>)

lemma sync_cursors_result:
  assumes "run_state (sync_cursors a cs) s = (r, s')"
  shows "same_tables s s' \<and> (\<forall>ds. r = Inr ds \<longrightarrow> ds = concat (map (\<lambda>c. deltas_of a c s) cs))"
  using assms
proof (induction cs arbitrary: s r s')
  case (Cons c cs)
  obtain r1 s1 where 1: "run_state (sync_cursor a c) s = (r1, s1)" by (metis surj_pair)
  obtain r2 s2 where 2: "run_state (sync_cursors a cs) s1 = (r2, s2)" by (metis surj_pair)
  note first = sync_cursor_result [OF 1] and rest = Cons.IH [OF 2]
  show ?case using Cons.prems 1 2 first rest deltas_of_same [of s s1]
    by (cases r1; cases r2) (auto intro: same_tables_trans)
qed simp

lemma sync_result:
  assumes "run_state (sync a cs n) s = ((Ok, Some r), s')"
  shows "sy_deltas r = concat (map (\<lambda>c. deltas_of a c s) cs)"
proof -
  obtain r1 s1 where 1: "run_state (sync_cursors a cs) s = (r1, s1)" by (metis surj_pair)
  obtain st v s2 where 2: "run_state (from_directs (listOfflineMessage a n)) s1 = ((st, v), s2)" by (metis surj_pair)
  show ?thesis using assms 1 2 sync_cursors_result [OF 1]
    by (cases r1; cases v; cases st) (auto simp: sync_def split: if_splits)
qed

lemma unseen_page:
  assumes "continues msg_group_id (group_log S) (group_log S')" "continues dm_conversation_key (direct_log S) (direct_log S')"
    "ordered msg_group_id (group_log S)" "ordered dm_conversation_key (direct_log S)"
    "ordered msg_group_id (group_log S')" "ordered dm_conversation_key (direct_log S')" "d \<in> set (deltas_of a c (store_of S))"
  shows "unseen a (dl_type d) (dl_targetId d) (dl_fromMsgId d) S' = dl_messages d @ unseen a (dl_type d) (dl_targetId d) (dl_latestMsgId d) S'"
proof -
  let ?i = "unat (cur_lastMsgId c)" and ?n = "unat (cur_limit c)" and ?t = "cur_targetId c"
  have pos: "0 < clamp_limit m ?n" if "0 < m" for m using that by (simp add: clamp_limit_def Let_def)
  show ?thesis
  proof (cases "cur_type c")
    case Direct
    let ?p = "take (clamp_limit 200 ?n) (after ?i (conversation dm_conversation_key (buildDirectConversationKey a ?t) (direct_log S)))"
    have d: "d = direct_delta ?t ?i ?n (map direct_record ?p)"
      using assms(7) Direct strict_page [OF ordered_conversation [OF assms(4)]] by (simp add: deltas_of_def store_of_def of_conversation_def Let_def)
    from later_page [OF assms(2,6) pos refl, of 200 ?i "buildDirectConversationKey a ?t"] show ?thesis
      by (simp add: d direct_delta_def make_delta_def unseen_def page_end_def direct_record_def comp_def)
  next
    case GroupConv
    let ?p = "take (clamp_limit 100 ?n) (after ?i (conversation msg_group_id ?t (group_log S)))"
    have d: "d = group_delta ?t ?i ?n (map group_record ?p)"
      using assms(7) GroupConv strict_page [OF ordered_conversation [OF assms(3)]] by (simp add: deltas_of_def store_of_def of_group_def Let_def)
    from later_page [OF assms(1,5) pos refl, of 100 ?i ?t] show ?thesis
      by (simp add: d group_delta_def make_delta_def unseen_def page_end_def group_record_def comp_def)
  qed (use assms(7) in \<open>simp add: deltas_of_def Let_def\<close>)
qed

text \<open>A delta that does not announce more is the end; one that does moves the cursor.\<close>

lemma delta_end:
  assumes "ordered msg_group_id (group_log S)" "ordered dm_conversation_key (direct_log S)" "d \<in> set (deltas_of a c (store_of S))"
    "0 < unat (cur_limit c)" "unat (cur_limit c) \<le> 100"
  shows "if dl_hasMore d then dl_fromMsgId d < dl_latestMsgId d else dl_messages d = unseen a (dl_type d) (dl_targetId d) (dl_fromMsgId d) S"
proof -
  let ?i = "unat (cur_lastMsgId c)" and ?n = "unat (cur_limit c)" and ?t = "cur_targetId c"
  have n: "clamp_limit m ?n = ?n" if "100 \<le> m" for m using assms(4,5) that by (simp add: clamp_limit_def Let_def)
  have more: "?i < page_end ?i (map fst (take ?n (after ?i xs)))" if "?n \<le> length (after ?i xs)" for xs :: "(nat \<times> 'm) list"
  proof -
    let ?p = "take ?n (after ?i xs)"
    have "?p \<noteq> []" using that assms(4) by auto
    then have "hd ?p \<in> set ?p" by (rule hd_in_set)
    moreover from this have "?i < fst (hd ?p)" by (auto simp: after_def dest: in_set_takeD)
    ultimately have "?i < Max (fst ` set ?p)" by (meson List.finite_set Max_ge finite_imageI imageI less_le_trans)
    with page_end_Max [OF \<open>?p \<noteq> []\<close>] show ?thesis by simp
  qed
  show ?thesis
  proof (cases "cur_type c")
    case Direct
    let ?ds = "after ?i (conversation dm_conversation_key (buildDirectConversationKey a ?t) (direct_log S))"
    have d: "d = direct_delta ?t ?i ?n (map direct_record (take ?n ?ds))"
      using assms(3) Direct strict_page [OF ordered_conversation [OF assms(2)]] n [of 200] by (simp add: deltas_of_def store_of_def of_conversation_def Let_def)
    with more [of "conversation dm_conversation_key (buildDirectConversationKey a ?t) (direct_log S)"] show ?thesis
      by (auto simp: direct_delta_def make_delta_def unseen_def page_end_def direct_record_def comp_def)
  next
    case GroupConv
    let ?gs = "after ?i (conversation msg_group_id ?t (group_log S))"
    have d: "d = group_delta ?t ?i ?n (map group_record (take ?n ?gs))"
      using assms(3) GroupConv strict_page [OF ordered_conversation [OF assms(1)]] n [of 100] by (simp add: deltas_of_def store_of_def of_group_def Let_def)
    with more [of "conversation msg_group_id ?t (group_log S)"] show ?thesis
      by (auto simp: group_delta_def make_delta_def unseen_def page_end_def group_record_def comp_def)
  qed (use assms(3) in \<open>simp add: deltas_of_def Let_def\<close>)
qed

text \<open>
  A limit above the 100 rows the repository returns of a group at most: the delta never announces more,
  although there may be more.
\<close>

lemma large_limit_never_more:
  assumes "cur_type c = GroupConv" "100 < unat (cur_limit c)" "d \<in> set (deltas_of a c s)"
  shows "\<not> dl_hasMore d"
  using assms by (auto simp: deltas_of_def group_delta_def make_delta_def oldest_first_def clamp_limit_def Let_def)

subsection \<open>Acknowledgements\<close>

definition mark_delivered :: "nat \<Rightarrow> receipt_row option \<Rightarrow> receipt_row" where
  "mark_delivered at r = (case r of None \<Rightarrow> \<lparr>rc_delivered_at_ms = at, rc_read_at_ms = 0\<rparr> | Some rc \<Rightarrow> rc\<lparr>rc_delivered_at_ms := max (rc_delivered_at_ms rc) at\<rparr>)"

lemma add_delivered_map: "map_of (add_delivered a at i rs) = (map_of rs)((i, a) \<mapsto> mark_delivered at (map_of rs (i, a)))"
  by (auto simp: add_delivered_def mark_delivered_def update_conv' split: option.split)

lemma fold_delivered:
  "distinct is \<Longrightarrow> map_of (fold (add_delivered a at) is rs) (i, b) =
     (if b = a \<and> i \<in> set is then Some (mark_delivered at (map_of rs (i, a))) else map_of rs (i, b))"
  by (induction "is" arbitrary: rs) (auto simp: add_delivered_map)

lemma sorted_remdups_distinct: "sorted xs \<Longrightarrow> distinct (remdups_adj (xs :: nat list))"
  by (induction xs rule: remdups_adj.induct) fastforce+

lemma normalizeIds_simps [simp]: "set (normalizeIds ids) = set ids" "distinct (normalizeIds ids)" "normalizeIds ids = [] \<longleftrightarrow> ids = []"
  by (simp_all add: normalizeIds_def sorted_remdups_distinct) (metis set_empty set_sort)

lemma addressed_count:
  "length (filter P (normalizeIds ids)) = card {i \<in> set ids. P i}" "card {i \<in> set ids. P i} \<le> length ids"
proof -
  show "length (filter P (normalizeIds ids)) = card {i \<in> set ids. P i}"
    using distinct_card [of "filter P (normalizeIds ids)"] by simp
  have "card {i \<in> set ids. P i} \<le> card (set ids)" by (intro card_mono) auto
  with card_length [of ids] show "card {i \<in> set ids. P i} \<le> length ids" by linarith
qed

lemma upsert_delivered_receipts:
  assumes "upsert_delivered a at ids t = Inr (n, t')" "distinct ids"
  shows "map_of (message_receipts t') (i, b) =
    (if b = a \<and> i \<in> set ids \<and> addressed a t i then Some (mark_delivered at (map_of (message_receipts t) (i, a))) else map_of (message_receipts t) (i, b))"
    "t' = t\<lparr>message_receipts := message_receipts t'\<rparr>"
  using assms fold_delivered [of "filter (addressed a t) ids"] by (auto simp: upsert_delivered_def Let_def)

lemma ackMessages_cases:
  assumes "may t (ackMessages a ids at) (st, v) t'"
  obtains (failed) "v = None" "t' = t"
    | (empty) "ids = []" "t' = t" "v = Some \<lparr>ma_requestedCount = 0, ma_ackedCount = 0, ma_ignoredCount = 0\<rparr>"
    | (marked) n where "upsert_delivered a at (normalizeIds ids) t = Inr (n, t')"
        "v = Some \<lparr>ma_requestedCount = length ids, ma_ackedCount = card {i \<in> set ids. addressed a t i},
               ma_ignoredCount = length ids - card {i \<in> set ids. addressed a t i}\<rparr>"
proof -
  have "v = None \<and> t' = t \<or> ids = [] \<and> t' = t \<and> v = Some \<lparr>ma_requestedCount = 0, ma_ackedCount = 0, ma_ignoredCount = 0\<rparr> \<or>
    (\<exists>n. upsert_delivered a at (normalizeIds ids) t = Inr (n, t') \<and>
      v = Some \<lparr>ma_requestedCount = length ids, ma_ackedCount = card {i \<in> set ids. addressed a t i}, ma_ignoredCount = length ids - card {i \<in> set ids. addressed a t i}\<rparr>)"
    using assms
    by (auto simp: ackMessages_def markDeliveredBatch_def addressed_count Let_def split: if_splits RepoStatus.splits option.splits)
  then show thesis using that by blast
qed

lemma delete_offline_rows:
  assumes "delete_offline a ids t = Inr (n, t')"
  shows "direct_offline t' = filter (\<lambda>x. \<not> (fst (fst x) = a \<and> snd (fst x) \<in> set ids)) (direct_offline t)"
    "n = length (direct_offline t) - length (direct_offline t')" "t' = t\<lparr>direct_offline := direct_offline t'\<rparr>"
  using assms sum_length_filter_compl [of "\<lambda>x. fst (fst x) = a \<and> snd (fst x) \<in> set ids" "direct_offline t"]
  by (auto simp: delete_offline_def Let_def)

subsection \<open>Properties\<close>

definition demo_cursor :: SyncCursor where
  "demo_cursor = \<lparr>cur_type = GroupConv, cur_targetId = ''7'', cur_lastMsgId = 0, cur_limit = 10\<rparr>"

definition demo_synced :: "SyncResult repo_value \<times> message_store" where
  "demo_synced = run_state (sync ''amy'' [demo_cursor] 10) (store_of demo_saved)"

definition demo_delta :: ConversationDelta where
  "demo_delta = hd (sy_deltas (the (snd (fst demo_synced))))"

definition demo_page :: "MessageRecord list repo_value \<times> group_tables database" where
  "demo_page = run_state (listGroupMessages ''7'' 0 10) (store (im_groups demo_saved))"

lemma demo_synced_ok: "fst (fst demo_synced) = RepoStatus.Ok" "length (sy_deltas (the (snd (fst demo_synced)))) = 1" "snd (fst demo_synced) \<noteq> None"
  by code_simp+

lemma demo_sync_run: "run_state (sync ''amy'' [demo_cursor] 10) (store_of demo_saved) = ((RepoStatus.Ok, Some (the (snd (fst demo_synced)))), snd demo_synced)"
  using demo_synced_ok by (cases "fst demo_synced") (auto simp: demo_synced_def prod_eq_iff)

lemma demo_delta_in: "demo_delta \<in> set (sy_deltas (the (snd (fst demo_synced))))"
  unfolding demo_delta_def by (rule hd_in_set) (use demo_synced_ok(2) in auto)

text \<open>
  C37. A client that follows the cursors misses no message and gets none twice. Whatever happens after a
  synchronisation, in every later state of the service the messages behind the old cursor of a
  conversation are exactly the messages that were delivered, followed by those behind the new cursor:
  no message that was saved later slips in before it. This needs that the messages of a conversation are
  saved in the order of their identifiers, although they are saved by several threads.
\<close>

theorem sync_misses_nothing:
  assumes "reachable env deps S" "increasing env" "(im_step env deps)\<^sup>*\<^sup>* S S'"
    and "run_state (sync a cursors offlineLimit) (store_of S) = ((RepoStatus.Ok, Some r), s')" "d \<in> set (sy_deltas r)"
  shows "unseen a (dl_type d) (dl_targetId d) (dl_fromMsgId d) S' = dl_messages d @ unseen a (dl_type d) (dl_targetId d) (dl_latestMsgId d) S'"
proof -
  note ordered = ordered_reachable [OF assms(1,2)]
  have "continues msg_group_id (group_log S) (group_log S')" "continues dm_conversation_key (direct_log S) (direct_log S')"
    using run_logs [OF assms(3) flow_reachable [OF assms(1,2)] assms(2)] by simp_all
  moreover obtain c where "d \<in> set (deltas_of a c (store_of S))" using assms(5) sync_result [OF assms(4)] by auto
  ultimately show ?thesis using unseen_page run_ordered [OF assms(3) flow_reachable [OF assms(1,2)] assms(2) ordered] ordered by blast
qed

theorem sync_misses_nothing_witness:
  "unseen ''amy'' GroupConv ''7'' 0 demo_done = dl_messages demo_delta @ unseen ''amy'' GroupConv ''7'' 1 demo_done \<and> length (dl_messages demo_delta) = 1"
proof -
  have d: "dl_type demo_delta = GroupConv" "dl_targetId demo_delta = ''7''" "dl_fromMsgId demo_delta = 0" "dl_latestMsgId demo_delta = 1" "length (dl_messages demo_delta) = 1"
    by code_simp+
  from sync_misses_nothing [OF demo_reached(2) demo_increasing r_into_rtranclp [where r = "im_step demo_env demo_deps", OF demo_done_step] demo_sync_run demo_delta_in] d
  show ?thesis by simp
qed



text \<open>
  C39. The pages of a group's history fit together: what a page shows is the newest part of what lies before
  its cursor, and what lies before the last message shown is the same in every later state of the
  service. An empty page is the end.
\<close>

theorem history_pages_fit:
  assumes "reachable env deps S" "increasing env" "(im_step env deps)\<^sup>*\<^sup>* S S'"
    and "run_state (listGroupMessages gid b n) (store (im_groups S)) = ((RepoStatus.Ok, Some ms), d)"
  shows "if ms = [] then before b (conversation msg_group_id gid (group_log S)) = []
     else map group_record (rev (before b (conversation msg_group_id gid (group_log S)))) =
       ms @ map group_record (rev (before (mr_messageId (last ms)) (conversation msg_group_id gid (group_log S'))))"
proof -
  let ?p = "take (clamp_limit 100 n) (rev (before b (conversation msg_group_id gid (group_log S))))"
  note ordered = ordered_reachable(1) [OF assms(1,2)]
  have "continues msg_group_id (group_log S) (group_log S')" using run_logs [OF assms(3) flow_reachable [OF assms(1,2)] assms(2)] by simp
  note page = earlier_page [OF this ordered refl, of "clamp_limit 100 n" b gid]
  have ms: "ms = map group_record ?p"
    using assms(4) run_fetch(1) strict_page(2) [OF ordered_conversation [OF ordered]] by (fastforce simp: listGroupMessages_def of_group_def split: if_splits)
  show ?thesis
  proof (cases "?p = []")
    case False
    with page ms show ?thesis by (simp add: last_map group_record_def flip: map_append)
  qed (use ms in \<open>auto simp: clamp_limit_def Let_def split: if_splits\<close>)
qed

theorem history_pages_fit_witness:
  "map group_record (rev (before 0 (conversation msg_group_id ''7'' (group_log demo_saved)))) =
     the (snd (fst demo_page)) @ map group_record (rev (before (mr_messageId (last (the (snd (fst demo_page))))) (conversation msg_group_id ''7'' (group_log demo_done)))) \<and>
   length (the (snd (fst demo_page))) = 1"
proof -
  have p: "fst (fst demo_page) = RepoStatus.Ok" "length (the (snd (fst demo_page))) = 1" "snd (fst demo_page) \<noteq> None" by code_simp+
  then have r: "run_state (listGroupMessages ''7'' 0 10) (store (im_groups demo_saved)) = ((RepoStatus.Ok, Some (the (snd (fst demo_page)))), snd demo_page)"
    by (cases "fst demo_page") (auto simp: demo_page_def prod_eq_iff)
  from history_pages_fit [OF demo_reached(2) demo_increasing r_into_rtranclp [where r = "im_step demo_env demo_deps", OF demo_done_step] r] p(2)
  show ?thesis by (cases "the (snd (fst demo_page))") simp_all
qed

text \<open>
  C40. An acknowledgement marks exactly the direct messages it names that were sent to the account: the time
  of delivery never goes back, the time of reading and the receipts of others are kept, the counts add
  up, and without an answer with counts nothing has changed.
\<close>

theorem ack_marks_delivered:
  assumes "run_state (ackMessages a ids at) d = ((st, v), d')"
  shows "case v of None \<Rightarrow> tables d' = tables d
     | Some r \<Rightarrow> ma_requestedCount r = length ids \<and> ma_ackedCount r = card {i \<in> set ids. addressed a (tables d) i} \<and>
         ma_ackedCount r + ma_ignoredCount r = ma_requestedCount r \<and> tables d' = (tables d)\<lparr>message_receipts := message_receipts (tables d')\<rparr> \<and>
         (\<forall>i b. map_of (message_receipts (tables d')) (i, b) =
            (if b = a \<and> i \<in> set ids \<and> addressed a (tables d) i then Some (mark_delivered at (map_of (message_receipts (tables d)) (i, a)))
             else map_of (message_receipts (tables d)) (i, b)))"
  using mayI [OF assms]
proof (cases rule: ackMessages_cases)
  case (marked n)
  note receipts = upsert_delivered_receipts [OF marked(1) normalizeIds_simps(2)]
  have "card {i \<in> set ids. addressed a (tables d) i} + (length ids - card {i \<in> set ids. addressed a (tables d) i}) = length ids"
    using addressed_count(2) [of ids "addressed a (tables d)"] by simp
  then show ?thesis using receipts by (simp add: marked(2))
qed simp_all

theorem ack_marks_delivered_witness:
  "case run_state (ackMessages ''1002'' [40, 2, 40] 50) demo_sent of ((st, v), d') \<Rightarrow>
     st = RepoStatus.Ok \<and> map_of (message_receipts (tables d')) (40, ''1002'') = Some \<lparr>rc_delivered_at_ms = 50, rc_read_at_ms = 0\<rparr>"
proof -
  obtain st v d where r: "run_state (ackMessages ''1002'' [40, 2, 40] 50) demo_sent = ((st, v), d)" by (metis surj_pair)
  have "fst (fst (run_state (ackMessages ''1002'' [40, 2, 40] 50) demo_sent)) = RepoStatus.Ok \<and> snd (fst (run_state (ackMessages ''1002'' [40, 2, 40] 50) demo_sent)) \<noteq> None" by code_simp
  with r obtain x where v: "st = RepoStatus.Ok" "v = Some x" by auto
  have "addressed ''1002'' (tables demo_sent) 40 \<and> map_of (message_receipts (tables demo_sent)) (40, ''1002'') = None" by code_simp
  with ack_marks_delivered [OF r] r v show ?thesis by (simp add: mark_delivered_def)
qed

end
