(* ===== verification/ReadPaths.thy ===== *)
theory ReadPaths
  imports ChatServer History
begin

text \<open>
  The asynchronous paths of \<open>src/src/im/ImService.cpp\<close> that read messages back: the history of groups and of direct
  conversations, the lists of conversations and of offline messages, synchronisation, acknowledgements and
  the marking of conversations as read. A request is checked on the base loop, may go through the rate limit,
  runs its queries on a thread of the database pool or, if it writes, on the keyed executor, and is
  answered back on the base loop, where the checks that may have changed are made again. The queries are
  those of \<open>History\<close>, \<open>Friends\<close> and \<open>Accounts\<close>. The theorems say that these paths answer no request twice, together
  with all other paths of the server, and that what they show was meant for the reader.
\<close>

subsection \<open>State\<close>

record read_env =
  re_group :: group_env
  hasDbExecutor :: bool
  hasMessageRepo :: bool
  hasOfflineRepo :: bool
  hasUserRepo :: bool
  hasFriendRepo :: bool
  hasConversationService :: bool
  hasSyncService :: bool
  hasAckService :: bool
  defaultHistoryLimit :: u64
  maxHistoryLimit :: u64
  maxSyncMessageLimit :: u64
  maxOfflineIndexLimit :: u64
  maxSyncCursorCount :: nat
  maxAckBatchSize :: nat
  waitAt :: "nat \<Rightarrow> u64 \<times> u64"

abbreviation re_user :: "read_env \<Rightarrow> user_env" where
  "re_user env \<equiv> ge_user (re_group env)"

abbreviation re_im :: "read_env \<Rightarrow> im_env" where
  "re_im env \<equiv> ue_im (re_user env)"

record PendingDbRequestContext =
  pc_connection :: nat
  pc_key :: connKey
  pc_request :: request
  pc_accountId :: accountId

text \<open>What the contexts of the different paths hold besides.\<close>

datatype read_query =
    GroupHistory groupId HistoryQuery
  | DmHistory accountId string HistoryQuery
  | OfflineList nat
  | ConversationList nat
  | SyncMessages "SyncCursor list" nat
  | AckMessages "nat list" "nat list" MsgType nat
  | ReadConversation ConversationType string nat nat

record ConversationView =
  vw_summary :: ConversationSummary
  vw_targetUsername :: string
  vw_targetNickname :: string
  vw_targetAvatarUrl :: string
  vw_groupName :: string
  vw_groupOwnerAccountId :: accountId

datatype read_result =
    GroupMessagesRead "MessageRecord list repo_value"
  | DirectMessagesRead "DirectMessageRecord list repo_value"
  | OfflineRead "OfflineMessageIndex list repo_value"
  | ConversationsRead "ConversationView list repo_value"
  | SyncRead "SyncResult repo_value"
  | AckWritten RepoStatus MessageAckResult nat
  | ReadMarked "ConversationReadResult repo_value"

text \<open>Tasks of the base loop: the verdict of a limit, or a result with the time waited and the time of execution.\<close>

datatype read_loop = ReadLimited PendingDbRequestContext read_query AsyncRateLimitResult
  | ReadReady PendingDbRequestContext read_query read_result "u64 \<times> u64"

record reader =
  rs_server :: server
  limitTasks :: "(string \<times> PendingDbRequestContext \<times> read_query) list"
  dbTasks :: "(PendingDbRequestContext \<times> read_query) list"
  ackTasks :: "(string \<times> PendingDbRequestContext \<times> read_query) list"
  readLoop :: "read_loop list"

abbreviation rcore :: "reader \<Rightarrow> im_state" where
  "rcore R \<equiv> core (rs_server R)"

definition with_rcore :: "im_state \<Rightarrow> reader \<Rightarrow> reader" where
  "with_rcore S R = R\<lparr>rs_server := with_core S (rs_server R)\<rparr>"

type_synonym read_handler = "reader \<Rightarrow> DispatchResult \<times> reader"

subsection \<open>Submitting\<close>

text \<open>The first test that refuses.\<close>

definition first_of :: "(bool \<times> 'a) list \<Rightarrow> 'a option" where
  "first_of xs = map_option snd (find fst xs)"

definition internal :: "request \<Rightarrow> string \<Rightarrow> response" where
  "internal req msg = makeErr req INTERNAL msg JNull"

definition submitDbReadTask :: "read_env \<Rightarrow> PendingDbRequestContext \<Rightarrow> read_query \<Rightarrow> reader \<Rightarrow> TaskSubmitResult \<times> reader" where
  "submitDbReadTask env ctx q R =
     (let r = submitAt (re_im env) (tick (rcore R)); R1 = with_rcore (consult (rcore R)) R
      in (r, if r = Accepted then R1\<lparr>dbTasks := dbTasks R1 @ [(ctx, q)]\<rparr> else R1))"

definition submitAckTask :: "read_env \<Rightarrow> PendingDbRequestContext \<Rightarrow> read_query \<Rightarrow> reader \<Rightarrow> TaskSubmitResult \<times> reader" where
  "submitAckTask env ctx q R =
     (let r = submitAt (re_im env) (tick (rcore R)); R1 = with_rcore (consult (rcore R)) R
      in (r, if r = Accepted then R1\<lparr>ackTasks := ackTasks R1 @ [(''ack:'' @ pc_accountId ctx, ctx, q)]\<rparr> else R1))"

definition submitReadLimit :: "read_env \<Rightarrow> PendingDbRequestContext \<Rightarrow> read_query \<Rightarrow> reader \<Rightarrow> TaskSubmitResult \<times> reader" where
  "submitReadLimit env ctx q R =
     (if \<not> hasRedisExecutor (re_im env) \<or> \<not> hasPoster (re_im env) \<or> \<not> hasRateLimiter (re_im env) then (InvalidTask, R)
      else let r = submitAt (re_im env) (tick (rcore R)); R1 = with_rcore (consult (rcore R)) R
           in (r, if r = Accepted then R1\<lparr>limitTasks := limitTasks R1 @ [(''account:'' @ pc_accountId ctx, ctx, q)]\<rparr> else R1))"

text \<open>What the three paths with a rate limit test again before their query is submitted.\<close>

definition submit_tests :: "read_env \<Rightarrow> read_query \<Rightarrow> reader \<Rightarrow> (bool \<times> TaskSubmitResult) list" where
  "submit_tests env q R =
     (let stopping = (\<not> im_accepting (rcore R), SubmitStopping); pipeline = (\<not> hasDbExecutor env \<or> \<not> hasPoster (re_im env), InvalidTask) in
      case q of
        GroupHistory _ _ \<Rightarrow> [stopping, pipeline, (\<not> hasMessageRepo env, InvalidTask)]
      | DmHistory _ _ _ \<Rightarrow> [pipeline, (\<not> hasFriendService (re_user env) \<or> \<not> hasMessageRepo env, InvalidTask), stopping]
      | SyncMessages _ _ \<Rightarrow> [(\<not> hasSyncService env \<or> \<not> hasUserRepo env \<or> \<not> hasFriendRepo env, InvalidTask), pipeline, stopping]
      | _ \<Rightarrow> [])"

definition submit_query :: "read_env \<Rightarrow> PendingDbRequestContext \<Rightarrow> read_query \<Rightarrow> reader \<Rightarrow> TaskSubmitResult \<times> reader" where
  "submit_query env ctx q R = (case first_of (submit_tests env q R) of Some r \<Rightarrow> (r, R) | None \<Rightarrow> submitDbReadTask env ctx q R)"

definition submitted :: "request \<Rightarrow> string \<Rightarrow> (reader \<Rightarrow> TaskSubmitResult \<times> reader) \<Rightarrow> read_handler" where
  "submitted req pipeline task R = apfst (\<lambda>r. submitResultMapToDispatchResult req r pipeline) (task R)"

definition start_query :: "read_env \<Rightarrow> PendingDbRequestContext \<Rightarrow> read_query \<Rightarrow> read_handler" where
  "start_query env ctx q R =
     (if \<not> hasRateLimiter (re_im env) then submitted (pc_request ctx) ''message'' (submit_query env ctx q) R
      else if \<not> hasRedisExecutor (re_im env) then (immediate (internal (pc_request ctx) ''redis rate-limit pipeline unavailable''), R)
      else submitted (pc_request ctx) ''redis'' (submitReadLimit env ctx q) R)"

subsection \<open>Handlers\<close>

text \<open>A login, then the tests in their order.\<close>

definition guarded :: "request \<Rightarrow> session \<Rightarrow> (bool \<times> response) list \<Rightarrow> read_handler \<Rightarrow> read_handler" where
  "guarded req s tests k R =
     (case guardAuthenticated req s of Some r \<Rightarrow> (immediate r, R)
      | None \<Rightarrow> (case first_of tests of Some r \<Rightarrow> (immediate r, R) | None \<Rightarrow> k R))"

definition read_field :: "request \<Rightarrow> string \<Rightarrow> (string \<Rightarrow> read_handler) \<Rightarrow> read_handler" where
  "read_field req fld k R = (case getStringField req fld False of Inl r \<Rightarrow> (immediate r, R) | Inr v \<Rightarrow> k v R)"

text \<open>The text of a refused body comes from the environment.\<close>

definition parsed :: "read_env \<Rightarrow> request \<Rightarrow> ErrorCode + 'a \<Rightarrow> ('a \<Rightarrow> read_handler) \<Rightarrow> read_handler" where
  "parsed env req v k R =
     (case v of Inl code \<Rightarrow> (immediate (makeErr req code (textAt (re_im env) (tick (rcore R))) JNull), with_rcore (consult (rcore R)) R) | Inr x \<Rightarrow> k x R)"

definition stopping :: "request \<Rightarrow> reader \<Rightarrow> bool \<times> response" where
  "stopping req R = (\<not> im_accepting (rcore R), internal req ''service is stopping'')"

definition gone :: "request \<Rightarrow> nat \<Rightarrow> reader \<Rightarrow> bool \<times> response" where
  "gone req conn R = (conn_closed conn (rcore R), internal req ''connection is closed'')"

definition handleGroupHistoryAsync :: "read_env \<Rightarrow> request \<Rightarrow> connKey \<Rightarrow> session \<Rightarrow> nat \<Rightarrow> read_handler" where
  "handleGroupHistoryAsync env req key s conn R = guarded req s
     [stopping req R, gone req conn R, (\<not> hasDbExecutor env \<or> \<not> hasPoster (re_im env), internal req ''dbRead pipeline unavailable''),
      (\<not> hasMessageRepo env, internal req ''message repository unavailable'')]
     (read_field req ''groupId'' (\<lambda>gid R.
       case accountIdByConn key (im_sessions (rcore R)) of
         None \<Rightarrow> (immediate (makeErr req NO_SUCH_USER ''User is not exist'' JNull), R)
       | Some acc \<Rightarrow>
           if \<not> gm_isMember gid acc (manager (im_groups (rcore R))) then (immediate (makeErr req NOT_IN_GROUP ''The user is not in the group'' JNull), R)
           else parsed env req (parseHistoryQuery req (defaultHistoryLimit env) (maxHistoryLimit env)) (\<lambda>q.
             start_query env \<lparr>pc_connection = conn, pc_key = key, pc_request = req, pc_accountId = acc\<rparr> (GroupHistory gid q)) R)) R"

definition handleDmHistoryAsync :: "read_env \<Rightarrow> request \<Rightarrow> connKey \<Rightarrow> session \<Rightarrow> nat \<Rightarrow> read_handler" where
  "handleDmHistoryAsync env req key s conn R = guarded req s
     [(\<not> hasDbExecutor env \<or> \<not> hasPoster (re_im env), internal req ''database read pipeline unavailable''),
      (\<not> hasFriendService (re_user env) \<or> \<not> hasMessageRepo env, internal req ''direct history dependency unavailable''), stopping req R, gone req conn R]
     (read_field req ''peerAccountId'' (\<lambda>peer.
       parsed env req (parseHistoryQuery req (defaultHistoryLimit env) (maxHistoryLimit env)) (\<lambda>q.
         start_query env \<lparr>pc_connection = conn, pc_key = key, pc_request = req, pc_accountId = s_accountId s\<rparr>
           (DmHistory peer (buildDirectConversationKey (s_accountId s) peer) q)))) R"

definition handleOfflineListAsync :: "read_env \<Rightarrow> request \<Rightarrow> connKey \<Rightarrow> session \<Rightarrow> nat \<Rightarrow> read_handler" where
  "handleOfflineListAsync env req key s conn R = guarded req s
     [(\<not> hasDbExecutor env \<or> \<not> hasPoster (re_im env) \<or> \<not> hasOfflineRepo env, internal req ''offline list pipeline unavailable''), gone req conn R, stopping req R]
     (submitted req ''async'' (submitDbReadTask env \<lparr>pc_connection = conn, pc_key = key, pc_request = req, pc_accountId = s_accountId s\<rparr>
       (OfflineList (unat (parseLimit req ''limit'' 20 (maxOfflineIndexLimit env)))))) R"

definition handleConversationListAsync :: "read_env \<Rightarrow> request \<Rightarrow> connKey \<Rightarrow> session \<Rightarrow> nat \<Rightarrow> read_handler" where
  "handleConversationListAsync env req key s conn R = guarded req s
     [(\<not> hasDbExecutor env \<or> \<not> hasPoster (re_im env) \<or> \<not> hasConversationService env, internal req ''conversation list pipeline unavailable''), gone req conn R, stopping req R]
     (submitted req ''async'' (submitDbReadTask env \<lparr>pc_connection = conn, pc_key = key, pc_request = req, pc_accountId = s_accountId s\<rparr>
       (ConversationList (unat (parseLimit req ''limit'' 20 (maxOfflineIndexLimit env)))))) R"

definition in_group_cursors :: "accountId \<Rightarrow> SyncCursor list \<Rightarrow> group_manager \<Rightarrow> bool" where
  "in_group_cursors acc cs m = list_all (\<lambda>c. cur_type c = GroupConv \<longrightarrow> gm_isMember (cur_targetId c) acc m) cs"

definition handleSyncAsync :: "read_env \<Rightarrow> request \<Rightarrow> connKey \<Rightarrow> session \<Rightarrow> nat \<Rightarrow> read_handler" where
  "handleSyncAsync env req key s conn R = guarded req s
     [(\<not> hasSyncService env \<or> \<not> hasUserRepo env \<or> \<not> hasFriendRepo env, internal req ''messageSyncService''),
      (\<not> hasDbExecutor env \<or> \<not> hasPoster (re_im env), internal req ''sync pipeline unavailable''), gone req conn R, stopping req R]
     (parsed env req (parseSyncCursors req (parseLimit req ''limit'' 50 (maxSyncMessageLimit env)) (maxSyncMessageLimit env)) (\<lambda>cs R.
       if length cs > maxSyncCursorCount env then (immediate (makeErr req BAD_REQUEST ''too many cursors'' JNull), R)
       else if \<not> in_group_cursors (s_accountId s) cs (manager (im_groups (rcore R)))
       then (immediate (makeErr req NOT_IN_GROUP ''the user is not in the group'' JNull), R)
       else start_query env \<lparr>pc_connection = conn, pc_key = key, pc_request = req, pc_accountId = s_accountId s\<rparr>
         (SyncMessages cs (unat (parseLimit req ''offlineLimit'' 100 (maxOfflineIndexLimit env)))) R)) R"

definition ack_context :: "request \<Rightarrow> connKey \<Rightarrow> session \<Rightarrow> nat \<Rightarrow> PendingDbRequestContext" where
  "ack_context req key s conn = \<lparr>pc_connection = conn, pc_key = key, pc_request = req, pc_accountId = s_accountId s\<rparr>"

definition at_time :: "read_env \<Rightarrow> (nat \<Rightarrow> read_handler) \<Rightarrow> read_handler" where
  "at_time env k R = k (unat (nowAt (re_im env) (tick (rcore R)))) (with_rcore (consult (rcore R)) R)"

definition handleMessageAckAsync :: "read_env \<Rightarrow> request \<Rightarrow> connKey \<Rightarrow> session \<Rightarrow> nat \<Rightarrow> read_handler" where
  "handleMessageAckAsync env req key s conn R = guarded req s
     [(\<not> hasMessageExecutor (re_im env) \<or> \<not> hasPoster (re_im env), internal req ''message ACK pipeline unavailable''), stopping req R, gone req conn R]
     (parsed env req (parseMessageAck req (maxAckBatchSize env)) (\<lambda>a R.
       if \<not> hasAckService env then (immediate (internal req ''messageAckService is not avaiable''), R)
       else at_time env (\<lambda>now. submitted req ''async'' (submitAckTask env (ack_context req key s conn)
         (AckMessages (map unat (ack_msgIds a)) (map unat (ack_offlineMsgIds a)) MESSAGE_ACK_RESP now))) R)) R"

text \<open>The test of the service is the wrong way round: with a service the request is refused.\<close>

definition handleOfflineAckAsync :: "read_env \<Rightarrow> request \<Rightarrow> connKey \<Rightarrow> session \<Rightarrow> nat \<Rightarrow> read_handler" where
  "handleOfflineAckAsync env req key s conn R = guarded req s
     [(\<not> hasMessageExecutor (re_im env) \<or> \<not> hasPoster (re_im env) \<or> hasAckService env, internal req ''message ACK pipeline unavailable''),
      stopping req R, gone req conn R]
     (\<lambda>R. case parseUint64ArrayField req ''msg_ids'' [] (maxAckBatchSize env) of
            (Some err, _) \<Rightarrow> (immediate err, R)
          | (None, ids) \<Rightarrow> at_time env (\<lambda>now. submitted req ''async'' (submitAckTask env (ack_context req key s conn)
              (AckMessages [] (map unat ids) OFFLINE_ACK_RESP now))) R) R"

definition handleConversationReadAsync :: "read_env \<Rightarrow> request \<Rightarrow> connKey \<Rightarrow> session \<Rightarrow> nat \<Rightarrow> read_handler" where
  "handleConversationReadAsync env req key s conn R = guarded req s
     [(\<not> hasMessageExecutor (re_im env) \<or> \<not> hasPoster (re_im env) \<or> \<not> hasAckService env, internal req ''conversation read pipeline unavailable''),
      stopping req R, gone req conn R]
     (read_field req ''targetId'' (\<lambda>target. read_field req ''conversationType'' (\<lambda>ty R.
        let go = (\<lambda>t. case field ''readMsgId'' (req_body req) of
               None \<Rightarrow> (immediate (makeErr req MISSING_FIELD ''missing readMsgId'' JNull), R)
             | Some v \<Rightarrow>
                 (case read_count v of
                    None \<Rightarrow> (immediate (makeErr req BAD_REQUEST ''invalid readMsgId'' JNull), R)
                  | Some i \<Rightarrow>
                      if i = 0 then (immediate (makeErr req BAD_REQUEST ''readMsgId must be greater than zero'' JNull), R)
                      else at_time env (\<lambda>now. submitted req ''async'' (submitAckTask env (ack_context req key s conn)
                        (ReadConversation t target (unat i) now))) R))
        in if ty = ''direct''
           then if \<not> hasUserRepo env then (immediate (internal req ''user repository unavailable''), R) else go Direct
           else if ty = ''group''
           then if \<not> gm_isMember target (s_accountId s) (manager (im_groups (rcore R))) then (immediate (makeErr req NOT_IN_GROUP ''not in group'' JNull), R) else go GroupConv
           else (immediate (makeErr req BAD_REQUEST ''invalid conversationType'' JNull), R)))) R"

definition read_dispatch :: "read_env \<Rightarrow> request \<Rightarrow> connKey \<Rightarrow> session \<Rightarrow> nat \<Rightarrow> read_handler option" where
  "read_dispatch env req key s conn = map_option (\<lambda>h. h env req key s conn)
     (map_of [(GROUP_HISTORY_REQ, handleGroupHistoryAsync), (OFFLINE_LIST_REQ, handleOfflineListAsync), (OFFLINE_ACK_REQ, handleOfflineAckAsync),
        (DM_HISTORY_REQ, handleDmHistoryAsync), (CONVERSATION_LIST_REQ, handleConversationListAsync), (CONVERSATION_READ_REQ, handleConversationReadAsync),
        (SYNC_REQ, handleSyncAsync), (MESSAGE_ACK_REQ, handleMessageAckAsync)] (req_type req))"

text \<open>\<open>onMessage\<close> around it: the session, the event, the handler, and the answer if there is one already.\<close>

definition onReadMessage :: "read_env \<Rightarrow> nat \<Rightarrow> connKey \<Rightarrow> request \<Rightarrow> reader \<Rightarrow> reader" where
  "onReadMessage env conn key req R0 =
     (let (s0, m) = getOrCreate key (im_sessions (rcore R0));
          s = (if s_peerIp s0 = [] then s0\<lparr>s_peerIp := fst (peerOf (re_im env) conn), s_peerPort := snd (peerOf (re_im env) conn)\<rparr> else s0);
          R = with_rcore (emit_event (Received key req) ((rcore R0)\<lparr>im_sessions := m\<lparr>sessions := AList.update key s (sessions m)\<rparr>\<rparr>)) R0
      in case read_dispatch env req key s conn of
           None \<Rightarrow> R0
         | Some h \<Rightarrow>
             (case h R of (d, R1) \<Rightarrow> with_rcore (snd (answer_request (re_im env) (\<lambda>_ _ _ _ S. (Inr d, S)) conn key s req (rcore R1))) R1))"

subsection \<open>Queries\<close>

text \<open>The threads see the tables of messages and those of accounts and friends.\<close>

definition in_messages :: "(message_store, 'a) state \<Rightarrow> (server, 'a) state" where
  "in_messages m = State (\<lambda>X. case run_state m (store_of (core X)) of (r, s) \<Rightarrow>
     (r, with_core ((core X)\<lparr>im_groups := (im_groups (core X))\<lparr>store := ms_groups s\<rparr>, im_directs := ms_directs s\<rparr>) X))"

definition in_people :: "(social, 'a) state \<Rightarrow> (server, 'a) state" where
  "in_people m = State (\<lambda>X. case run_state m (people X) of (r, P) \<Rightarrow> (r, with_people P X))"

text \<open>
  \<open>SqlConversationRepo::listConversations\<close>: the direct conversations of the account and its groups, the last
  one first. One query reads both kinds of rows; whether it fails is decided by the database of direct messages.
\<close>

definition direct_summary :: "accountId \<Rightarrow> conversation_row \<Rightarrow> ConversationSummary" where
  "direct_summary b row = \<lparr>cs_type = 1, cs_targetId = b, cs_lastMsgId = cv_last_msg_id row, cs_lastPreview = cv_last_preview row,
     cs_lastSenderAccountId = cv_last_sender_account_id row, cs_lastSenderUsername = cv_last_sender_username row, cs_lastTsMs = cv_last_ts_ms row,
     cs_unreadCount = cv_unread_count row, cs_lastReadMsgId = cv_last_read_msg_id row, cs_lastReadAtMs = cv_last_read_at_ms row\<rparr>"

definition direct_summaries :: "accountId \<Rightarrow> direct_tables \<Rightarrow> ConversationSummary list" where
  "direct_summaries a t = List.map_filter (\<lambda>((x, b), row). if x = a then Some (direct_summary b row) else None) (conversations t)"

definition read_summary :: "ConversationSummary \<Rightarrow> ConversationSummary" where
  "read_summary c = c\<lparr>cs_targetId := getString (cs_targetId c), cs_lastPreview := getString (cs_lastPreview c),
     cs_lastSenderAccountId := getString (cs_lastSenderAccountId c), cs_lastSenderUsername := getString (cs_lastSenderUsername c)\<rparr>"

definition select_conversations :: "accountId \<Rightarrow> nat \<Rightarrow> group_tables \<Rightarrow> direct_tables \<Rightarrow> ConversationSummary list" where
  "select_conversations a n g d = take n (rev (sort_key cs_lastTsMs (direct_summaries a d @ group_summaries a g)))"

definition sql_listConversations :: "accountId \<Rightarrow> nat \<Rightarrow> (message_store, ConversationSummary list repo_value) state" where
  "sql_listConversations a limit =
     (if a = [] then ret (InvalidArgument, None)
      else State (\<lambda>s. run_state (from_directs (fetch_rows SqlError
        (select_conversations a (clamp_limit 100 limit) (tables (ms_groups s))) read_summary)) s))"

text \<open>\<open>ConversationService::listConversations\<close>: names are added where they are found.\<close>

definition conversation_view :: "UserProfileRow list \<Rightarrow> GroupSnapshot list \<Rightarrow> ConversationSummary \<Rightarrow> ConversationView" where
  "conversation_view ps gs c =
     (let v = \<lparr>vw_summary = c, vw_targetUsername = [], vw_targetNickname = [], vw_targetAvatarUrl = [], vw_groupName = [], vw_groupOwnerAccountId = []\<rparr> in
      if cs_type c = 1
      then case find (\<lambda>p. pf_accountId p = cs_targetId c) ps of None \<Rightarrow> v
           | Some p \<Rightarrow> v\<lparr>vw_targetUsername := pf_username p, vw_targetNickname := pf_nickname p, vw_targetAvatarUrl := pf_avatarUrl p\<rparr>
      else case find (\<lambda>g. gs_groupId g = cs_targetId c) gs of None \<Rightarrow> v
           | Some g \<Rightarrow> v\<lparr>vw_groupName := gs_groupName g, vw_groupOwnerAccountId := gs_ownerAccountId g\<rparr>)"

definition listConversations :: "accountId \<Rightarrow> nat \<Rightarrow> (server, ConversationView list repo_value) state" where
  "listConversations a limit =
     (if a = [] then ret (InvalidArgument, None)
      else do {
        r \<leftarrow> in_messages (sql_listConversations a limit);
        case r of (RepoStatus.Ok, Some cs) \<Rightarrow> do {
            ps \<leftarrow> in_people (in_accounts (profile_findByAccountIds (map cs_targetId (filter (\<lambda>c. cs_type c = 1) cs))));
            gs \<leftarrow> in_messages (from_groups (sql_findGroupsByIds (map cs_targetId (filter (\<lambda>c. cs_type c = 2) cs))));
            ret (RepoStatus.Ok, Some (map (conversation_view ps gs) cs))}
        | (st, _) \<Rightarrow> ret (st, None)})"

text \<open>The loop that checks the direct cursors before a synchronisation.\<close>

fun check_directs :: "accountId \<Rightarrow> SyncCursor list \<Rightarrow> (social, RepoStatus option) state" where
  "check_directs a [] = ret None"
| "check_directs a (c # cs) =
     (if cur_type c \<noteq> Direct then check_directs a cs
      else do {
        u \<leftarrow> in_accounts (userExists (cur_targetId c));
        if \<not> u then ret (Some UserNotFound)
        else do {
          f \<leftarrow> in_friends (repo_areFriends a (cur_targetId c));
          if \<not> f then ret (Some NotFriends) else check_directs a cs}})"

definition no_ack :: MessageAckResult where
  "no_ack = \<lparr>ma_requestedCount = 0, ma_ackedCount = 0, ma_ignoredCount = 0\<rparr>"

definition ack_all :: "accountId \<Rightarrow> nat list \<Rightarrow> nat list \<Rightarrow> nat \<Rightarrow> read_result ddb" where
  "ack_all a ids offs at = do {
     r1 \<leftarrow> (if ids = [] then ret (RepoStatus.Ok, Some no_ack) else ackMessages a ids at);
     case r1 of (st, None) \<Rightarrow> ret (AckWritten st no_ack 0)
     | (st, Some v) \<Rightarrow>
         if st \<noteq> RepoStatus.Ok then ret (AckWritten st no_ack 0)
         else if offs = [] then ret (AckWritten RepoStatus.Ok v 0)
         else do {
           r2 \<leftarrow> ackOfflineMessages a offs;
           case r2 of (RepoStatus.Ok, Some n) \<Rightarrow> ret (AckWritten RepoStatus.Ok v n) | (st2, _) \<Rightarrow> ret (AckWritten st2 v 0)}}"

fun run_query :: "accountId \<Rightarrow> read_query \<Rightarrow> (server, read_result) state" where
  "run_query a (GroupHistory gid q) = do {
     r \<leftarrow> in_messages (from_groups (if hq_mode q = After then listGroupMessagesAfter gid (unat (hq_lastMsgId q)) (unat (hq_limit q))
       else listGroupMessages gid (unat (hq_beforeMsgId q)) (unat (hq_limit q))));
     ret (GroupMessagesRead r)}"
| "run_query a (DmHistory peer ck q) = do {
     u \<leftarrow> in_people (findUser peer);
     f \<leftarrow> in_people (svc_areFriends a peer);
     if u = None then ret (DirectMessagesRead (UserNotFound, None))
     else if \<not> f then ret (DirectMessagesRead (NotFriends, None))
     else do {
       r \<leftarrow> in_messages (from_directs (if hq_mode q = After then listDirectMessagesAfter ck (unat (hq_lastMsgId q)) (unat (hq_limit q))
         else listDirectMessages ck (unat (hq_beforeMsgId q)) (unat (hq_limit q))));
       ret (DirectMessagesRead r)}}"
| "run_query a (OfflineList limit) = do {r \<leftarrow> in_messages (from_directs (listOfflineMessage a limit)); ret (OfflineRead r)}"
| "run_query a (ConversationList limit) = do {r \<leftarrow> listConversations a limit; ret (ConversationsRead r)}"
| "run_query a (SyncMessages cs offlineLimit) = do {
     e \<leftarrow> in_people (check_directs a cs);
     case e of Some st \<Rightarrow> ret (SyncRead (st, None)) | None \<Rightarrow> do {r \<leftarrow> in_messages (sync a cs offlineLimit); ret (SyncRead r)}}"
| "run_query a (AckMessages ids offs ty at) = in_messages (from_directs (ack_all a ids offs at))"
| "run_query a (ReadConversation ty target i at) = do {
     u \<leftarrow> (if ty = Direct then in_people (in_accounts (userExists target)) else ret True);
     if \<not> u then ret (ReadMarked (UserNotFound, None))
     else do {r \<leftarrow> in_messages (markConversationRead a ty target i at); ret (ReadMarked r)}}"

text \<open>A worker runs a query and posts the result to the base loop, which may refuse it.\<close>

definition post_read :: "read_env \<Rightarrow> read_loop \<Rightarrow> reader \<Rightarrow> reader" where
  "post_read env t R = (let R1 = with_rcore (consult (rcore R)) R
     in if postAt (re_im env) (tick (rcore R)) then R1\<lparr>readLoop := readLoop R1 @ [t]\<rparr> else R1)"

definition run_read_task :: "read_env \<Rightarrow> PendingDbRequestContext \<Rightarrow> read_query \<Rightarrow> reader \<Rightarrow> reader" where
  "run_read_task env ctx q R =
     (case run_state (run_query (pc_accountId ctx) q) (rs_server R) of
        (r, X) \<Rightarrow> post_read env (ReadReady ctx q r (waitAt env (tick (core X)))) (R\<lparr>rs_server := consulted X\<rparr>))"

definition run_limit_task :: "read_env \<Rightarrow> PendingDbRequestContext \<Rightarrow> read_query \<Rightarrow> reader \<Rightarrow> reader" where
  "run_limit_task env ctx q R =
     (let dflt = \<lparr>rl_allowed = True, rl_backendAvailable = True, rl_remaining = 0, rl_retryAfterMs = 0\<rparr>;
          result = (case limitAt (re_im env) (tick (rcore R)) of
                      Inl text \<Rightarrow> \<lparr>al_decision = dflt\<lparr>rl_backendAvailable := False\<rparr>, al_exceptionMessage = text\<rparr>
                    | Inr d \<Rightarrow> \<lparr>al_decision = d, al_exceptionMessage = []\<rparr>)
      in post_read env (ReadLimited ctx q result) (with_rcore (consult (rcore R)) R))"

subsection \<open>Completions\<close>

text \<open>The session the answer goes to; without it there is no answer.\<close>

definition resolvePendingSession :: "PendingDbRequestContext \<Rightarrow> im_state \<Rightarrow> session option" where
  "resolvePendingSession ctx S =
     (if conn_closed (pc_connection ctx) S then None
      else case find_session (pc_key ctx) (im_sessions S) of
             None \<Rightarrow> None
           | Some s \<Rightarrow> if s_accountId s \<noteq> pc_accountId ctx then None else Some s)"

definition respond :: "read_env \<Rightarrow> PendingDbRequestContext \<Rightarrow> response \<Rightarrow> im_state \<Rightarrow> im_state" where
  "respond env ctx r S = reply (re_im env) (pc_key ctx) (pc_request ctx) r S"

definition respond_repo :: "read_env \<Rightarrow> PendingDbRequestContext \<Rightarrow> RepoStatus \<Rightarrow> im_state \<Rightarrow> im_state" where
  "respond_repo env ctx st S = respond env ctx (makeRepoError (pc_request ctx) st (textAt (re_im env) (tick S))) S"

text \<open>\<open>AsyncDbResult::ok\<close>.\<close>

definition with_value :: "read_env \<Rightarrow> PendingDbRequestContext \<Rightarrow> 'a repo_value \<Rightarrow> ('a \<Rightarrow> response) \<Rightarrow> im_state \<Rightarrow> im_state" where
  "with_value env ctx r f S = (case r of (RepoStatus.Ok, Some v) \<Rightarrow> respond env ctx (f v) S | (st, _) \<Rightarrow> respond_repo env ctx st S)"

definition history_json :: "HistoryQuery \<Rightarrow> u64 \<times> u64 \<Rightarrow> json list \<Rightarrow> (string \<times> json) list" where
  "history_json q w ms = [(''mode'', JString (historyQueryModeToString (hq_mode q))), (''beforeMsgId'', JUInt (hq_beforeMsgId q)), (''lastMsgId'', JUInt (hq_lastMsgId q)),
     (''limit'', JUInt (hq_limit q)), (''messages'', JArray ms), (''queueWaitUs'', JInt (fst w)), (''queryUs'', JInt (snd w))]"

definition completeGroupHistory :: "read_env \<Rightarrow> PendingDbRequestContext \<Rightarrow> groupId \<Rightarrow> HistoryQuery \<Rightarrow> MessageRecord list repo_value \<Rightarrow> u64 \<times> u64 \<Rightarrow> im_state \<Rightarrow> im_state" where
  "completeGroupHistory env ctx gid q r w S =
     (case resolvePendingSession ctx S of None \<Rightarrow> S
      | Some s \<Rightarrow>
          if \<not> gm_isMember gid (s_accountId s) (manager (im_groups S)) then respond env ctx (makeErr (pc_request ctx) NOT_IN_GROUP ''Not in group'' JNull) S
          else with_value env ctx r (\<lambda>ms. makeOk (pc_request ctx) GROUP_HISTORY_RESP
            (json_object ((''groupId'', JString gid) # history_json q w (map group_message_json ms))) ''Ok'') S)"

definition completeDmHistory :: "read_env \<Rightarrow> PendingDbRequestContext \<Rightarrow> accountId \<Rightarrow> string \<Rightarrow> HistoryQuery \<Rightarrow> DirectMessageRecord list repo_value \<Rightarrow> u64 \<times> u64 \<Rightarrow> im_state \<Rightarrow> im_state" where
  "completeDmHistory env ctx peer ck q r w S =
     (case resolvePendingSession ctx S of None \<Rightarrow> S
      | Some s \<Rightarrow> with_value env ctx r (\<lambda>ms. makeOk (pc_request ctx) DM_HISTORY_RESP
          (json_object ((''peerAccountId'', JString peer) # (''conversationKey'', JString ck) # history_json q w (map direct_message_json ms))) ''Ok'') S)"

definition offline_json :: "OfflineMessageIndex \<Rightarrow> json" where
  "offline_json i = json_object ([(''msgId'', jnum (oi_msgId i)), (''type'', JString (offlineMessageTypeToString (oi_type i)))] @
     (case oi_type i of GroupOffline \<Rightarrow> [(''groupId'', JString (oi_groupId i))] | DirectOffline \<Rightarrow> [(''peerAccountId'', JString (oi_peerAccountId i))] | UnknownOffline \<Rightarrow> []))"

definition completeOfflineList :: "read_env \<Rightarrow> PendingDbRequestContext \<Rightarrow> OfflineMessageIndex list repo_value \<Rightarrow> u64 \<times> u64 \<Rightarrow> im_state \<Rightarrow> im_state" where
  "completeOfflineList env ctx r w S =
     (case resolvePendingSession ctx S of None \<Rightarrow> S
      | Some s \<Rightarrow> with_value env ctx r (\<lambda>is. makeOk (pc_request ctx) OFFLINE_LIST_RESP
          (json_object [(''messages'', JArray (map offline_json is)), (''count'', jnum (length is)), (''queueWaitUs'', JInt (fst w)), (''queryUs'', JInt (snd w))]) ''Ok'') S)"

definition view_json :: "ConversationView \<Rightarrow> json" where
  "view_json v = (let c = vw_summary v in json_object
     ([(''type'', JString (if cs_type c = 1 then ''direct'' else if cs_type c = 2 then ''group'' else ''unknown'')), (''targetId'', JString (cs_targetId c)),
       (''lastMsgId'', jnum (cs_lastMsgId c)), (''lastPreview'', JString (cs_lastPreview c)), (''lastSenderAccountId'', JString (cs_lastSenderAccountId c)),
       (''lastSenderUsername'', JString (cs_lastSenderUsername c)), (''lastTsMs'', jnum (cs_lastTsMs c)), (''unreadCount'', jnum (cs_unreadCount c)),
       (''lastReadMsgId'', jnum (cs_lastReadMsgId c))] @
      (if cs_type c = 1 then [(''targetUsername'', JString (vw_targetUsername v)), (''targetNickname'', JString (vw_targetNickname v)), (''targetAvatarUrl'', JString (vw_targetAvatarUrl v))]
       else if cs_type c = 2 then [(''groupName'', JString (vw_groupName v)), (''groupOwnerAccountId'', JString (vw_groupOwnerAccountId v))] else [])))"

definition completeConversationList :: "read_env \<Rightarrow> PendingDbRequestContext \<Rightarrow> ConversationView list repo_value \<Rightarrow> im_state \<Rightarrow> im_state" where
  "completeConversationList env ctx r S =
     (case resolvePendingSession ctx S of None \<Rightarrow> S
      | Some s \<Rightarrow> with_value env ctx r (\<lambda>vs. makeOk (pc_request ctx) CONVERSATION_LIST_RESP
          (json_object [(''conversations'', JArray (map view_json vs)), (''count'', jnum (length vs))]) ''Ok'') S)"

definition delta_json :: "ConversationDelta \<Rightarrow> json" where
  "delta_json d = json_object [(''conversationType'', JString (conversationTypeToString (dl_type d))), (''targetId'', JString (dl_targetId d)), (''messages'', JArray (dl_messages d)),
     (''fromMsgId'', jnum (dl_fromMsgId d)), (''latestMsgId'', jnum (dl_latestMsgId d)), (''hasMore'', JBool (dl_hasMore d))]"

definition index_jsons :: "OfflineMessageIndex \<Rightarrow> json list" where
  "index_jsons i = (case oi_type i of
       DirectOffline \<Rightarrow> [json_object [(''msgId'', jnum (oi_msgId i)), (''type'', JString ''direct''), (''peerAccountId'', JString (oi_peerAccountId i))]]
     | GroupOffline \<Rightarrow> [json_object [(''msgId'', jnum (oi_msgId i)), (''type'', JString ''group''), (''groupId'', JString (oi_groupId i))]]
     | UnknownOffline \<Rightarrow> [])"

definition completeSync :: "read_env \<Rightarrow> PendingDbRequestContext \<Rightarrow> SyncCursor list \<Rightarrow> SyncResult repo_value \<Rightarrow> im_state \<Rightarrow> im_state" where
  "completeSync env ctx cs r S =
     (case resolvePendingSession ctx S of None \<Rightarrow> S
      | Some s \<Rightarrow>
          if \<not> in_group_cursors (s_accountId s) cs (manager (im_groups S))
          then respond env ctx (makeErr (pc_request ctx) NOT_IN_GROUP ''group membership changed'' JNull) S
          else with_value env ctx r (\<lambda>v. let offline = concat (map index_jsons (sy_offlineIndexes v)) in makeOk (pc_request ctx) SYNC_RESP
            (json_object [(''deltas'', JArray (map delta_json (sy_deltas v))), (''offlineIndexes'', JArray offline), (''cursorCount'', jnum (length cs)),
              (''deltaCount'', jnum (length (sy_deltas v))), (''offlineCount'', jnum (length offline))]) ''Ok'') S)"

definition completeMessageAck :: "read_env \<Rightarrow> PendingDbRequestContext \<Rightarrow> nat list \<Rightarrow> MsgType \<Rightarrow> RepoStatus \<Rightarrow> MessageAckResult \<Rightarrow> nat \<Rightarrow> u64 \<times> u64 \<Rightarrow> im_state \<Rightarrow> im_state" where
  "completeMessageAck env ctx offs ty st v n w S =
     (case resolvePendingSession ctx S of None \<Rightarrow> S
      | Some s \<Rightarrow>
          if st \<noteq> RepoStatus.Ok then respond_repo env ctx st S
          else respond env ctx (makeOk (pc_request ctx) ty (json_object
            ((if ty = OFFLINE_ACK_RESP
              then [(''requestedCount'', jnum (length offs)), (''deletedCount'', jnum n), (''ignoredCount'', jnum (length offs - n))]
              else [(''requestedMsgCount'', jnum (ma_requestedCount v)), (''ackedMsgCount'', jnum (ma_ackedCount v)), (''ignoredMsgCount'', jnum (ma_ignoredCount v)),
                (''requestedOfflineCount'', jnum (length offs)), (''ackedOfflineCount'', jnum n)]) @
             [(''queueWaitUs'', JInt (fst w)), (''executeUs'', JInt (snd w))])) ''Ok'') S)"

definition completeConversationRead :: "read_env \<Rightarrow> PendingDbRequestContext \<Rightarrow> ConversationType \<Rightarrow> nat \<Rightarrow> ConversationReadResult repo_value \<Rightarrow> u64 \<times> u64 \<Rightarrow> im_state \<Rightarrow> im_state" where
  "completeConversationRead env ctx ty i r w S =
     (case resolvePendingSession ctx S of None \<Rightarrow> S
      | Some s \<Rightarrow> with_value env ctx r (\<lambda>v. makeOk (pc_request ctx) CONVERSATION_READ_RESP
          (json_object [(''conversationType'', JString (conversationTypeToString ty)), (''targetId'', JString (rd_targetId v)), (''requestedReadMsgId'', jnum i),
            (''readMsgId'', jnum (rd_readMsgId v)), (''readAtMs'', jnum (rd_readAtMs v)), (''receiptUpdated'', jnum (rd_receiptUpdated v)),
            (''queueWaitUs'', JInt (fst w)), (''executeUs'', JInt (snd w))]) ''Ok'') S)"

text \<open>A result belongs to its query; other pairs do not occur.\<close>

fun complete_read :: "read_env \<Rightarrow> PendingDbRequestContext \<Rightarrow> read_query \<Rightarrow> read_result \<Rightarrow> u64 \<times> u64 \<Rightarrow> im_state \<Rightarrow> im_state" where
  "complete_read env ctx (GroupHistory gid q) (GroupMessagesRead r) w S = completeGroupHistory env ctx gid q r w S"
| "complete_read env ctx (DmHistory peer ck q) (DirectMessagesRead r) w S = completeDmHistory env ctx peer ck q r w S"
| "complete_read env ctx (OfflineList n) (OfflineRead r) w S = completeOfflineList env ctx r w S"
| "complete_read env ctx (ConversationList n) (ConversationsRead r) w S = completeConversationList env ctx r S"
| "complete_read env ctx (SyncMessages cs n) (SyncRead r) w S = completeSync env ctx cs r S"
| "complete_read env ctx (AckMessages ids offs ty at) (AckWritten st v n) w S = completeMessageAck env ctx offs ty st v n w S"
| "complete_read env ctx (ReadConversation ty target i at) (ReadMarked r) w S = completeConversationRead env ctx ty i r w S"
| "complete_read env ctx q r w S = S"

text \<open>The three completions of a rate limit, which differ in what they check again.\<close>

definition still_member :: "accountId \<Rightarrow> read_query \<Rightarrow> group_manager \<Rightarrow> string option" where
  "still_member a q m = (case q of
       GroupHistory gid _ \<Rightarrow> if gm_isMember gid a m then None else Some ''the user is no longer in the group''
     | SyncMessages cs _ \<Rightarrow> if in_group_cursors a cs m then None else Some ''group membership changed''
     | _ \<Rightarrow> None)"

definition complete_limit :: "read_env \<Rightarrow> PendingDbRequestContext \<Rightarrow> read_query \<Rightarrow> AsyncRateLimitResult \<Rightarrow> reader \<Rightarrow> reader" where
  "complete_limit env ctx q r R =
     (let req = pc_request ctx; S = rcore R in
      if resolvePendingSession ctx S = None then R
      else if \<not> im_accepting S then R
      else case evaluateRateLimitResult (re_im env) req r of
             Some err \<Rightarrow> with_rcore (respond env ctx err S) R
           | None \<Rightarrow>
               (case still_member (pc_accountId ctx) q (manager (im_groups S)) of
                  Some msg \<Rightarrow> with_rcore (respond env ctx (makeErr req NOT_IN_GROUP msg JNull) S) R
                | None \<Rightarrow>
                    (case submit_query env ctx q R of (sr, R1) \<Rightarrow>
                       if sr = Accepted then R1
                       else with_rcore (sendDeferredSubmitFailure (re_im env) (pc_connection ctx) (pc_key ctx) (pc_accountId ctx) req sr ''dbRead'' (rcore R1)) R1)))"

fun run_read_loop :: "read_env \<Rightarrow> read_loop \<Rightarrow> reader \<Rightarrow> reader" where
  "run_read_loop env (ReadLimited ctx q r) R = complete_limit env ctx q r R"
| "run_read_loop env (ReadReady ctx q r w) R = with_rcore (complete_read env ctx q r w (rcore R)) R"

subsection \<open>Steps\<close>

text \<open>
  The server with its read paths. The tasks of a keyed executor keep their order per key, those of the pool do
  not; the tasks the base loop has from these paths are run in their order, at any point between its others.
\<close>

inductive read_step :: "read_env \<Rightarrow> reader \<Rightarrow> reader \<Rightarrow> bool" for env where
  server: "server_step (re_group env) (rs_server R) X \<Longrightarrow> read_step env R (R\<lparr>rs_server := X\<rparr>)"
| request: "map_of (im_conns (rcore R)) c = Some (key, cl) \<Longrightarrow> read_step env R (onReadMessage env c key req R)"
| limit: "limitTasks R = xs @ (k, ctx, q) # ys \<Longrightarrow> k \<notin> fst ` set xs \<Longrightarrow>
    read_step env R (run_limit_task env ctx q (R\<lparr>limitTasks := xs @ ys\<rparr>))"
| query: "dbTasks R = xs @ (ctx, q) # ys \<Longrightarrow> read_step env R (run_read_task env ctx q (R\<lparr>dbTasks := xs @ ys\<rparr>))"
| ack: "ackTasks R = xs @ (k, ctx, q) # ys \<Longrightarrow> k \<notin> fst ` set xs \<Longrightarrow>
    read_step env R (run_read_task env ctx q (R\<lparr>ackTasks := xs @ ys\<rparr>))"
| loop: "readLoop R = t # ts \<Longrightarrow> read_step env R (run_read_loop env t (R\<lparr>readLoop := ts\<rparr>))"
| discard: "read_step env R (R\<lparr>limitTasks := [], dbTasks := [], ackTasks := []\<rparr>)"

definition reader_new :: "int option list \<Rightarrow> int option list \<Rightarrow> int option list \<Rightarrow> reader" where
  "reader_new os as fs = \<lparr>rs_server = server_new os as fs, limitTasks = [], dbTasks = [], ackTasks = [], readLoop = []\<rparr>"

abbreviation reader_runs :: "read_env \<Rightarrow> reader \<Rightarrow> bool" where
  "reader_runs env R \<equiv> \<exists>os as fs. (read_step env)\<^sup>*\<^sup>* (reader_new os as fs) R"

end
