(* ===== verification/Spec2Isabelle.thy ===== *)
theory Spec2Isabelle
  imports ConnSystem Reactor TimerQueue Executor SessionManager GroupService JoinRequests GroupMessages DirectMessages Snowflake Codec ChatServer History ReadPaths
begin

text \<open>
  A verification of the chat server \<open>Project_Chat\<close>, a C++ program in the style of a reactor: one base loop and
  several I/O loops read length-prefixed JSON requests from TCP connections, the service on the base
  loop checks them, worker threads talk to Redis and MySQL, and answers and pushes go back through the
  outbound queues of the connections.

  \<^bold>\<open>The parts and their theories.\<close>
  \<^item> \<open>Prelude\<close>: conventions, machine integers, association lists and the lemmas shared by all theories.
  \<^item> \<open>Buffer\<close>: \<open>src/src/Buffer.cpp\<close>. \<open>Frame\<close>: the outbound frames and send results under \<open>src/include/net\<close>.
  \<^item> \<open>Reactor\<close>: \<open>src/src/Channel.cpp\<close>, \<open>EventLoop.cpp\<close>, \<open>EventLoopThreadPool.cpp\<close>: dispatch of events, the queue of
    functors and the choice of a loop. \<open>TimerQueue\<close>: \<open>src/src/timer\<close>.
  \<^item> \<open>TcpConnection\<close>: \<open>src/src/TcpConnection.cpp\<close>, one definition per member function. \<open>ConnSystem\<close>: its operations
    as the steps of a system in any order, with short reads and writes and failing system calls.
  \<^item> \<open>Executor\<close>: the bounded queue, the thread pool and the keyed executor under \<open>src/include/infra/thread\<close>.
  \<^item> \<open>Protocol\<close>, \<open>Codec\<close>: message types, error codes, parsing and building of messages (\<open>src/src/im/ImCodec.cpp\<close> and
    the request readers beside it).
  \<^item> \<open>SessionManager\<close>, \<open>GroupManager\<close>: who is online and who is in which group, in memory.
  \<^item> \<open>Storage\<close>: results, transactions and failures of statements. \<open>SqlGroupRepo\<close>, \<open>JoinRequests\<close>, \<open>GroupMessages\<close>,
    \<open>DirectMessages\<close>: the repositories and write stores under \<open>src/src/storage/sql\<close>, statement by statement, and the
    services over them. \<open>GroupService\<close>: memory and database together.
  \<^item> \<open>Snowflake\<close>: \<open>src/src/id/SnowflakeIdGenerator.cpp\<close>.
  \<^item> \<open>Accounts\<close>: users, tokens and profiles, \<open>src/src/auth\<close> and the repositories it uses. \<open>Friends\<close>: friends and
    friend requests, the service and the repositories.
  \<^item> \<open>MessageService\<close>: the message paths of \<open>src/src/im/ImService.cpp\<close>. \<open>MessageFlow\<close>: these paths as a transition
    system over the base loop and the worker threads.
  \<^item> \<open>UserHandlers\<close>, \<open>GroupHandlers\<close>: the handlers of \<open>ImService.cpp\<close> that answer at once, for accounts, profiles and
    friends, and for groups. \<open>ChatServer\<close>: all of them and the message paths together as one transition system,
    in which requests of every kind, worker threads and housekeeping interleave.
  \<^item> \<open>History\<close>: reading messages back, the queries of the repositories, synchronisation and acknowledgement.
    \<open>ReadPaths\<close>: the asynchronous paths of \<open>ImService.cpp\<close> that use them, added to the system of \<open>ChatServer\<close>.

  \<^bold>\<open>How state and operations correspond.\<close> A class is a \<open>record\<close> of its members, an enumeration a \<open>datatype\<close>; a
  member function is a definition from the state before to the result and the state after. Unsigned
  integers are words of their width. Hash maps and sets whose order does not matter are association
  lists and lists without repetition. Tables are lists of rows; a statement is a function from tables to
  an error or a number of affected rows and new tables, and a transaction that fails leaves the tables
  as they were. A database carries a list of outcomes that decides which of its next statements fail,
  so theorems that hold for all outcomes hold for every pattern of failures. Exceptions and error
  statuses are values of sum types.

  \<^bold>\<open>What the theorems show.\<close>
  \<^item> Connections: framing delivers exactly the frames sent, an oversized length closes, bytes are neither
    lost nor duplicated by partial writes, the backlog is bounded, the close callback runs once, idle
    connections are found by the heartbeat.
  \<^item> Timers fire when due and not after cancellation, also when the cancellation overtakes the insertion.
  \<^item> Tasks with the same key never overlap and keep their order; a drained executor has run all of them.
  \<^item> Routing tables, groups, memberships and roles stay consistent in memory and with the database over all
    runs and all failures; creating and dissolving are all or nothing; only those allowed to may expel.
  \<^item> Group messages are numbered without gaps, unread counts of groups and direct conversations are exact,
    reading only moves forward, a direct message is stored in all tables or in none.
  \<^item> Identifiers increase and differ between nodes; the codec accepts and refuses what it should, and
    types and responses survive a round trip.
  \<^item> The service as a whole: no request is answered twice, whatever is pushed or confirmed has been saved,
    a group push reaches exactly the connections of the members, what is saved has passed the checks, and
    every run of the service is a run of the chat systems, so their theorems hold for it.
  \<^item> Accounts and friends: a token is accepted as long as its session is valid, friendship stays symmetric, an
    accepted request makes both users friends or changes nothing.
  \<^item> Reading: a client that follows the cursors of the synchronisation misses no message and gets none twice
    while messages go on being saved, repeating it comes to an end, the pages of a history fit together, and an
    acknowledgement marks exactly the messages it names that were sent to the account.
  \<^item> The whole server: every run is a run of the message paths and of the services for accounts and friends
    on the same tables; a login needs the password of an enabled user; every logged in connection belongs to
    a registered user; a direct message is saved only between friends; a friend request is announced to
    exactly the connections of its receiver; without a login a request is refused and changes nothing.

  \<^bold>\<open>Bounds and fuel.\<close> No model is cut off by fuel. The waiting loops of the identifier generator consume a list of
  clock readings and are undefined when it ends; \<open>nextId_returns\<close> says when they return. Reads and writes of a
  socket take the list of outcomes of the system calls in the same way. What the service reads from outside
  (identifiers, times, verdicts of the rate limiter, the fate of tasks and frames) is given by functions of
  a running number; of identifiers the theorems assume that they increase, which \<open>generator_increasing\<close>
  derives from the model of the generator. Password hashes, random bytes and the verdicts of the limits on logins
  are functions of the environment in the same way. Account names are compared byte by byte, as the service does;
  the collation of the database may be coarser. The whole-server theorems leave out the login of the debug mode,
  and take leaving a group only with a working database, because \<open>handleLeave\<close> changes the memory first.

  \<^bold>\<open>Not modelled.\<close> The parser and printer of the JSON library, password hashing, the MySQL and Redis clients and the
  system calls are code outside the repository and appear as arguments or outcomes. Timing fields, log
  output and texts of exceptions are left out where nothing depends on them. Configuration files, logging,
  health reports, the socket wrappers, the terminal client and the load generators only move data between
  the outside and the modelled parts. Of \<open>ImService.cpp\<close> the asynchronous registration,
  which is unfinished and not dispatched, and the contexts of log lines are left out. The inside of the rate
  limiter and the repositories in memory, which the tests use, are not modelled.
\<close>

end
